(* ===== verification/Prelude.thy ===== *)
theory Prelude
  imports Main "HOL-Library.Char_ord" "HOL-Library.List_Lexorder" "HOL-Library.Product_Lexorder"
begin

text \<open>
  What every component shares: Rust strings as their UTF-8 bytes with the \<open>str\<close> methods the
  code calls, errors as values of a sum type and their sequencing, rows of a table kept as a
  list, and the \<open>serde_json::Value\<close> tree.
\<close>

section \<open>Collections of facts\<close>

text \<open>\<open>effect_defs\<close> gathers the definitions of small state-changing helpers and \<open>inv_defs\<close> the
  invariants, so that a preservation proof is one \<open>simp add\<close> over them.\<close>

named_theorems effect_defs "definitions of state-changing helpers"
named_theorems inv_defs "definitions of invariants"

section \<open>Results\<close>

text \<open>\<open>Result<T, E>\<close> is \<open>'e + 'a\<close>: \<open>Inl\<close> is \<open>Err\<close>, \<open>Inr\<close> is \<open>Ok\<close>; \<open>ebind\<close> is the \<open>?\<close>
  operator.\<close>

fun ebind :: "'e + 'a \<Rightarrow> ('a \<Rightarrow> 'e + 'b) \<Rightarrow> 'e + 'b" where
  "ebind (Inl e) f = Inl e"
| "ebind (Inr x) f = f x"

lemma ebind_Inr_iff: "ebind m f = Inr y \<longleftrightarrow> (\<exists>x. m = Inr x \<and> f x = Inr y)"
  by (cases m) auto

lemma ebind_Inl_iff: "ebind m f = Inl e \<longleftrightarrow> m = Inl e \<or> (\<exists>x. m = Inr x \<and> f x = Inl e)"
  by (cases m) auto

lemma ebind_InrE [elim!]:
  assumes "ebind m f = Inr y"
  obtains x where "m = Inr x" and "f x = Inr y"
  using assms by (auto simp: ebind_Inr_iff)

lemma ebind_cong [fundef_cong]:
  "m = m' \<Longrightarrow> (\<And>x. m' = Inr x \<Longrightarrow> f x = f' x) \<Longrightarrow> ebind m f = ebind m' f'"
  by (cases m') auto

definition is_ok :: "'e + 'a \<Rightarrow> bool" where
  "is_ok r = (case r of Inl _ \<Rightarrow> False | Inr _ \<Rightarrow> True)"

lemma is_ok_simps [simp]: "is_ok (Inr x)" "\<not> is_ok (Inl e)"
  by (simp_all add: is_ok_def)

text \<open>\<open>iter().map(f).collect::<Result<Vec<_>, _>>()\<close> over a state: the first error stops.\<close>

fun efold :: "('a \<Rightarrow> 's \<Rightarrow> 'e + 's) \<Rightarrow> 'a list \<Rightarrow> 's \<Rightarrow> 'e + 's" where
  "efold f [] s = Inr s"
| "efold f (x # xs) s = ebind (f x s) (efold f xs)"

lemma efold_invariant:
  assumes step: "\<And>x s s'. x \<in> set xs \<Longrightarrow> P s \<Longrightarrow> f x s = Inr s' \<Longrightarrow> P s'"
    and "P s" and "efold f xs s = Inr s'"
  shows "P s'"
  using assms
proof (induction xs arbitrary: s)
  case Nil
  then show ?case by simp
next
  case (Cons x xs)
  from Cons.prems(3) obtain t where t: "f x s = Inr t" and rest: "efold f xs t = Inr s'"
    by auto
  have "P t"
    using Cons.prems(1)[of x s t] Cons.prems(2) t by simp
  then show ?case
    using Cons.IH[OF _ _ rest] Cons.prems(1) by auto
qed

section \<open>Iterators\<close>

text \<open>\<open>position\<close> and \<open>rposition\<close> of an iterator: the first and the last index that satisfies a test.\<close>

fun first_index :: "('a \<Rightarrow> bool) \<Rightarrow> 'a list \<Rightarrow> nat option" where
  "first_index p [] = None"
| "first_index p (x # xs) = (if p x then Some 0 else map_option Suc (first_index p xs))"

definition last_index :: "('a \<Rightarrow> bool) \<Rightarrow> 'a list \<Rightarrow> nat option" where
  "last_index p xs = map_option (\<lambda>i. length xs - 1 - i) (first_index p (rev xs))"

lemma first_index_Some:
  "first_index p xs = Some i \<longleftrightarrow> i < length xs \<and> p (xs ! i) \<and> (\<forall>j < i. \<not> p (xs ! j))"
proof (induction xs arbitrary: i)
  case (Cons x xs)
  show ?case
  proof (cases "p x")
    case True
    then show ?thesis by (cases i) auto
  next
    case False
    then show ?thesis
    proof (cases i)
      case (Suc k)
      then show ?thesis using False Cons.IH[of k] by (auto simp: All_less_Suc2)
    qed auto
  qed
qed simp

lemma first_index_None: "first_index p xs = None \<longleftrightarrow> (\<forall>x \<in> set xs. \<not> p x)"
  by (induction xs) auto

lemma last_index_Some: "last_index p xs = Some i \<Longrightarrow> i < length xs \<and> p (xs ! i)"
  by (auto simp: last_index_def first_index_Some rev_nth)

lemma last_index_last:
  assumes "last_index p xs = Some i" and "i < j" and "j < length xs"
  shows "\<not> p (xs ! j)"
proof -
  obtain k where k: "first_index p (rev xs) = Some k" "i = length xs - 1 - k"
    using assms(1) by (auto simp: last_index_def)
  then have "length xs - 1 - j < k" "k < length xs" using assms by (auto simp: first_index_Some)
  then have "\<not> p (rev xs ! (length xs - 1 - j))" using k(1) by (simp add: first_index_Some)
  then show ?thesis using assms(3) by (simp add: rev_nth)
qed

lemma last_index_None: "last_index p xs = None \<longleftrightarrow> (\<forall>x \<in> set xs. \<not> p x)"
  by (simp add: last_index_def first_index_None)

lemma first_index_map: "first_index p xs = first_index id (map p xs)"
  by (induction xs) auto

lemma last_index_map: "last_index p xs = last_index id (map p xs)"
  unfolding last_index_def by (subst first_index_map) (simp add: rev_map)

text \<open>\<open>find_map\<close>.\<close>

fun first_some :: "('a \<Rightarrow> 'b option) \<Rightarrow> 'a list \<Rightarrow> 'b option" where
  "first_some f [] = None"
| "first_some f (x # xs) = (case f x of Some y \<Rightarrow> Some y | None \<Rightarrow> first_some f xs)"

lemma first_some_Some: "first_some f xs = Some y \<Longrightarrow> \<exists>x \<in> set xs. f x = Some y"
  by (induction xs) (auto split: option.splits)

section \<open>Rust strings\<close>

text \<open>
  A \<open>String\<close> or \<open>&str\<close> is the list of its UTF-8 bytes, so \<open>len()\<close> is \<open>length\<close> and a literal is
  the bytes it is made of. \<open>ws_len s\<close> is the number of bytes of the white-space character at the
  front of \<open>s\<close> and 0 if there is none, by the property \<open>White_Space\<close> that
  \<open>char::is_whitespace\<close> tests: the six ASCII ones, U+0085, U+00A0, U+1680, U+2000 to U+200A,
  U+2028, U+2029, U+202F, U+205F and U+3000.
\<close>

type_synonym str = string

definition ascii_ws :: "char \<Rightarrow> bool" where
  "ascii_ws c \<longleftrightarrow> c \<in> set [CHR 0x20, CHR 0x09, CHR 0x0A, CHR 0x0B, CHR 0x0C, CHR 0x0D]"

definition wide_ws :: "char \<Rightarrow> char \<Rightarrow> char \<Rightarrow> bool" where
  "wide_ws a b c \<longleftrightarrow>
     a = CHR 0xE1 \<and> b = CHR 0x9A \<and> c = CHR 0x80 \<or>
     a = CHR 0xE2 \<and> b = CHR 0x80 \<and>
       c \<in> set [CHR 0x80, CHR 0x81, CHR 0x82, CHR 0x83, CHR 0x84, CHR 0x85, CHR 0x86, CHR 0x87,
                CHR 0x88, CHR 0x89, CHR 0x8A, CHR 0xA8, CHR 0xA9, CHR 0xAF] \<or>
     a = CHR 0xE2 \<and> b = CHR 0x81 \<and> c = CHR 0x9F \<or>
     a = CHR 0xE3 \<and> b = CHR 0x80 \<and> c = CHR 0x80"

fun ws_len :: "str \<Rightarrow> nat" where
  "ws_len [] = 0"
| "ws_len (a # s) =
     (if ascii_ws a then 1
      else case s of
        b # c # _ \<Rightarrow>
          (if a = CHR 0xC2 \<and> (b = CHR 0x85 \<or> b = CHR 0xA0) then 2
           else if wide_ws a b c then 3 else 0)
      | [b] \<Rightarrow> (if a = CHR 0xC2 \<and> (b = CHR 0x85 \<or> b = CHR 0xA0) then 2 else 0)
      | [] \<Rightarrow> 0)"

text \<open>The same at the end of a string, whose bytes come reversed.\<close>

fun rws_len :: "str \<Rightarrow> nat" where
  "rws_len [] = 0"
| "rws_len (c # s) =
     (if ascii_ws c then 1
      else case s of
        b # a # _ \<Rightarrow>
          (if b = CHR 0xC2 \<and> (c = CHR 0x85 \<or> c = CHR 0xA0) then 2
           else if wide_ws a b c then 3 else 0)
      | [b] \<Rightarrow> (if b = CHR 0xC2 \<and> (c = CHR 0x85 \<or> c = CHR 0xA0) then 2 else 0)
      | [] \<Rightarrow> 0)"

lemma ws_len_le: "ws_len s \<le> length s"
  by (cases s) (auto split: list.splits)

lemma rws_len_le: "rws_len s \<le> length s"
  by (cases s) (auto split: list.splits)

function strip_ws :: "(str \<Rightarrow> nat) \<Rightarrow> str \<Rightarrow> str" where
  "strip_ws w s = (if w s = 0 \<or> s = [] then s else strip_ws w (drop (w s) s))"
  by pat_completeness auto
termination
proof (relation "measure (\<lambda>(w, s). length s)")
  fix w :: "str \<Rightarrow> nat" and s
  assume "\<not> (w s = 0 \<or> s = [])"
  then show "((w, drop (w s) s), w, s) \<in> measure (\<lambda>(w, s). length s)"
    by (cases s) auto
qed simp

declare strip_ws.simps [simp del]

definition trim_start :: "str \<Rightarrow> str" where
  "trim_start s = strip_ws ws_len s"

definition trim_end :: "str \<Rightarrow> str" where
  "trim_end s = rev (strip_ws rws_len (rev s))"

definition trim :: "str \<Rightarrow> str" where
  "trim s = trim_end (trim_start s)"

lemma strip_ws_suffix: "\<exists>p. s = p @ strip_ws w s"
proof (induction w s rule: strip_ws.induct)
  case (1 w s)
  show ?case
  proof (cases "w s = 0 \<or> s = []")
    case True
    then show ?thesis by (simp add: strip_ws.simps[of w s])
  next
    case False
    with 1 obtain p where "drop (w s) s = p @ strip_ws w (drop (w s) s)"
      by auto
    then have "s = (take (w s) s @ p) @ strip_ws w s"
      using False by (simp add: strip_ws.simps[of w s])
    then show ?thesis by blast
  qed
qed

lemma strip_ws_stop: "strip_ws w s \<noteq> [] \<Longrightarrow> w (strip_ws w s) = 0"
proof (induction w s rule: strip_ws.induct)
  case (1 w s)
  then show ?case
    by (cases "w s = 0 \<or> s = []") (simp_all add: strip_ws.simps[of w s])
qed

lemma strip_ws_idle: "w s = 0 \<Longrightarrow> strip_ws w s = s"
  by (subst strip_ws.simps) simp

lemma strip_ws_idem: "strip_ws w (strip_ws w s) = strip_ws w s"
  by (metis strip_ws.simps strip_ws_stop)

text \<open>\<open>trim\<close> is idempotent: a white-space character at the front of what is left would have been at
  the front before the end was cut.\<close>

lemma ws_len_append: "ws_len p \<noteq> 0 \<Longrightarrow> ws_len (p @ q) \<noteq> 0"
  by (cases p; cases "tl p"; cases "tl (tl p)") (auto split: list.splits if_splits)

lemma ws_len_trim: "ws_len (trim s) = 0"
proof (rule ccontr)
  assume ws: "ws_len (trim s) \<noteq> 0"
  obtain p where "rev (trim_start s) = p @ rev (trim s)"
    using strip_ws_suffix[of "rev (trim_start s)" rws_len] by (auto simp: trim_def trim_end_def)
  then have split: "trim_start s = trim s @ rev p" by (simp add: rev_swap)
  with ws_len_append[OF ws] have "ws_len (trim_start s) \<noteq> 0" by simp
  moreover have "trim_start s \<noteq> []" using ws split by auto
  ultimately show False using strip_ws_stop[of ws_len s] by (simp add: trim_start_def)
qed

lemma trim_trim [simp]: "trim (trim s) = trim s"
proof -
  have "trim_start (trim s) = trim s" by (simp add: trim_start_def strip_ws_idle ws_len_trim)
  moreover have "trim_end (trim s) = trim s"
    by (simp add: trim_def trim_end_def strip_ws_idem)
  ultimately show ?thesis by (simp add: trim_def[of "trim s"])
qed

lemma trim_Nil [simp]: "trim [] = []"
  by (simp add: trim_def trim_end_def trim_start_def strip_ws.simps)

text \<open>\<open>starts_with\<close>, \<open>strip_prefix\<close>, \<open>ends_with\<close>, \<open>strip_suffix\<close>, \<open>contains\<close>.\<close>

fun strip_prefix :: "str \<Rightarrow> str \<Rightarrow> str option" where
  "strip_prefix [] s = Some s"
| "strip_prefix (p # ps) [] = None"
| "strip_prefix (p # ps) (c # cs) = (if p = c then strip_prefix ps cs else None)"

definition starts_with :: "str \<Rightarrow> str \<Rightarrow> bool" where
  "starts_with p s \<longleftrightarrow> strip_prefix p s \<noteq> None"

definition strip_suffix :: "str \<Rightarrow> str \<Rightarrow> str option" where
  "strip_suffix p s = map_option rev (strip_prefix (rev p) (rev s))"

definition ends_with :: "str \<Rightarrow> str \<Rightarrow> bool" where
  "ends_with p s \<longleftrightarrow> strip_suffix p s \<noteq> None"

fun contains :: "str \<Rightarrow> str \<Rightarrow> bool" where
  "contains p [] \<longleftrightarrow> p = []"
| "contains p (c # s) \<longleftrightarrow> starts_with p (c # s) \<or> contains p s"

lemma strip_prefix_iff: "strip_prefix p s = Some r \<longleftrightarrow> s = p @ r"
  by (induction p s rule: strip_prefix.induct) auto

lemma starts_with_iff: "starts_with p s \<longleftrightarrow> (\<exists>r. s = p @ r)"
  by (auto simp: starts_with_def strip_prefix_iff)

lemma strip_suffix_iff: "strip_suffix p s = Some r \<longleftrightarrow> s = r @ p"
  by (auto simp: strip_suffix_def strip_prefix_iff rev_swap)

lemma ends_with_iff: "ends_with p s \<longleftrightarrow> (\<exists>r. s = r @ p)"
  by (auto simp: ends_with_def strip_suffix_iff)

lemma contains_iff: "contains p s \<longleftrightarrow> (\<exists>a b. s = a @ p @ b)"
proof (induction s)
  case Nil
  then show ?case by auto
next
  case (Cons c s)
  show ?case
  proof
    assume "contains p (c # s)"
    then consider "starts_with p (c # s)" | "contains p s" by auto
    then show "\<exists>a b. c # s = a @ p @ b"
    proof cases
      case 1
      then show ?thesis by (metis append_Nil starts_with_iff)
    next
      case 2
      with Cons.IH show ?thesis by (metis append_Cons)
    qed
  next
    assume "\<exists>a b. c # s = a @ p @ b"
    then obtain a b where ab: "c # s = a @ p @ b" by blast
    show "contains p (c # s)"
    proof (cases a)
      case Nil
      with ab have "starts_with p (c # s)"
        unfolding starts_with_iff by simp
      then show ?thesis by simp
    next
      case (Cons d a')
      with ab have "s = a' @ p @ b" by simp
      with Cons.IH show ?thesis by auto
    qed
  qed
qed

definition ascii_lower :: "char \<Rightarrow> char" where
  "ascii_lower c =
     (let n = (of_char c :: nat) in if 65 \<le> n \<and> n \<le> 90 then char_of (n + 32) else c)"

definition to_ascii_lowercase :: "str \<Rightarrow> str" where
  "to_ascii_lowercase s = map ascii_lower s"

text \<open>\<open>chars().count()\<close>: every byte that is not a UTF-8 continuation byte starts a character.\<close>

definition is_cont :: "char \<Rightarrow> bool" where
  "is_cont c \<longleftrightarrow> (let n = (of_char c :: nat) in 128 \<le> n \<and> n < 192)"

definition char_count :: "str \<Rightarrow> nat" where
  "char_count s = length (filter (\<lambda>c. \<not> is_cont c) s)"

text \<open>\<open>split('\n')\<close> and friends: the pieces between separators, never an empty list.\<close>

fun split_on :: "(char \<Rightarrow> bool) \<Rightarrow> str \<Rightarrow> str list" where
  "split_on p [] = [[]]"
| "split_on p (c # s) =
     (if p c then [] # split_on p s
      else case split_on p s of [] \<Rightarrow> [[c]] | w # ws \<Rightarrow> (c # w) # ws)"

lemma split_on_nonempty [simp]: "split_on p s \<noteq> []"
  by (cases s) (auto split: list.splits)

text \<open>Decimal rendering of an integer by \<open>{}\<close>.\<close>

fun digits_rev :: "nat \<Rightarrow> str" where
  "digits_rev n =
     (if n < 10 then [char_of (48 + n)] else char_of (48 + n mod 10) # digits_rev (n div 10))"

declare digits_rev.simps [simp del]

definition show_nat :: "nat \<Rightarrow> str" where
  "show_nat n = rev (digits_rev n)"

definition show_int :: "int \<Rightarrow> str" where
  "show_int n = (if n < 0 then CHR ''-'' # show_nat (nat (- n)) else show_nat (nat n))"

section \<open>Machine integers\<close>

definition I64_MAX :: int where "I64_MAX = 9223372036854775807"
definition I64_MIN :: int where "I64_MIN = - 9223372036854775808"
definition U64_MAX :: int where "U64_MAX = 18446744073709551615"

text \<open>\<open>i64::saturating_add\<close>, \<open>i64::saturating_sub\<close> and \<open>u64::saturating_add\<close>.\<close>

definition i64_sat_add :: "int \<Rightarrow> int \<Rightarrow> int" where
  "i64_sat_add a b = max I64_MIN (min I64_MAX (a + b))"

definition i64_sat_sub :: "int \<Rightarrow> int \<Rightarrow> int" where
  "i64_sat_sub a b = max I64_MIN (min I64_MAX (a - b))"

definition u64_sat_add :: "int \<Rightarrow> int \<Rightarrow> int" where
  "u64_sat_add a b = min U64_MAX (a + b)"

section \<open>Rows of a table\<close>

text \<open>A table is the list of its rows, oldest first. The statements the code runs on it are a
  search, an update of the rows a predicate picks, and a deletion of them.\<close>

definition row_where :: "('r \<Rightarrow> bool) \<Rightarrow> 'r list \<Rightarrow> 'r option" where
  "row_where p t = find p t"

definition set_where :: "('r \<Rightarrow> bool) \<Rightarrow> ('r \<Rightarrow> 'r) \<Rightarrow> 'r list \<Rightarrow> 'r list" where
  "set_where p f t = map (\<lambda>r. if p r then f r else r) t"

definition count_where :: "('r \<Rightarrow> bool) \<Rightarrow> 'r list \<Rightarrow> nat" where
  "count_where p t = length (filter p t)"

definition drop_where :: "('r \<Rightarrow> bool) \<Rightarrow> 'r list \<Rightarrow> 'r list" where
  "drop_where p t = filter (\<lambda>r. \<not> p r) t"

lemma row_where_Some: "row_where p t = Some r \<Longrightarrow> r \<in> set t \<and> p r"
  by (auto simp: row_where_def find_Some_iff)

lemma row_where_None: "row_where p t = None \<longleftrightarrow> (\<forall>r \<in> set t. \<not> p r)"
  by (auto simp: row_where_def find_None_iff)

lemma row_where_Cons:
  "row_where p (r # t) = (if p r then Some r else row_where p t)"
  by (simp add: row_where_def)

lemma row_where_append:
  "row_where p (t @ u) = (case row_where p t of Some r \<Rightarrow> Some r | None \<Rightarrow> row_where p u)"
  by (induction t) (auto simp: row_where_def)

lemma row_where_unique:
  "distinct (map key t) \<Longrightarrow> r \<in> set t \<Longrightarrow> row_where (\<lambda>r. key r = key r') t = Some r \<longleftrightarrow> key r = key r'"
proof (induction t)
  case Nil
  then show ?case by simp
next
  case (Cons a t)
  then show ?case
    by (auto simp: row_where_Cons) (metis image_eqI row_where_Some)+
qed

lemma length_set_where [simp]: "length (set_where p f t) = length t"
  by (simp add: set_where_def)

lemma set_set_where: "set (set_where p f t) = (\<lambda>r. if p r then f r else r) ` set t"
  by (simp add: set_where_def)

lemma ball_set_where:
  "(\<forall>r \<in> set (set_where p f t). P r) \<longleftrightarrow> (\<forall>r \<in> set t. P (if p r then f r else r))"
  by (induction t) (auto simp: set_where_def)

lemma set_where_keeps:
  "(\<And>r. r \<in> set t \<Longrightarrow> p r \<Longrightarrow> g (f r) = g r) \<Longrightarrow> map g (set_where p f t) = map g t"
  by (induction t) (auto simp: set_where_def)

lemma set_where_comp:
  "(\<And>r. p r \<Longrightarrow> \<not> q (f r)) \<Longrightarrow> set_where q f (set_where p f t) = set_where (\<lambda>r. p r \<or> q r) f t"
  by (induction t) (auto simp: set_where_def)

lemma set_where_Cons: "set_where p f (r # t) = (if p r then f r else r) # set_where p f t"
  by (simp add: set_where_def)

lemma set_where_False [simp]: "set_where (\<lambda>_. False) f t = t"
  by (simp add: set_where_def)

lemma set_where_none: "count_where p t = 0 \<Longrightarrow> set_where p f t = t"
  by (induction t) (auto simp: set_where_def count_where_def split: if_splits)

lemma set_where_append [simp]:
  "set_where p f (t @ u) = set_where p f t @ set_where p f u"
  by (simp add: set_where_def)

lemma filter_set_where_other:
  "(\<And>r. r \<in> set t \<Longrightarrow> p r \<Longrightarrow> \<not> q r \<and> \<not> q (f r)) \<Longrightarrow> filter q (set_where p f t) = filter q t"
  by (induction t) (auto simp: set_where_def)

lemma set_drop_where [simp]: "set (drop_where p t) = {r \<in> set t. \<not> p r}"
  by (auto simp: drop_where_def)

lemma distinct_drop_where: "distinct (map key t) \<Longrightarrow> distinct (map key (drop_where p t))"
  by (simp add: drop_where_def distinct_map_filter)

lemma map_key_set_where [simp]:
  "(\<And>r. key (f r) = key r) \<Longrightarrow> map key (set_where p f t) = map key t"
  by (rule set_where_keeps)

lemma image_key_set_where [simp]:
  "(\<And>r. key (f r) = key r) \<Longrightarrow> key ` set (set_where p f t) = key ` set t"
  by (metis image_set map_key_set_where)

lemma count_where_append [simp]:
  "count_where p (t @ u) = count_where p t + count_where p u"
  by (simp add: count_where_def)

lemma count_where_simps [simp]:
  "count_where p [] = 0" "count_where p (r # t) = (if p r then Suc (count_where p t) else count_where p t)"
  by (simp_all add: count_where_def)

lemma count_where_map: "count_where p (map f t) = count_where (\<lambda>r. p (f r)) t"
  by (induction t) auto

lemma count_where_set_where [simp]:
  "(\<And>r. q (f r) = q r) \<Longrightarrow> count_where q (set_where p f t) = count_where q t"
  by (induction t) (auto simp: set_where_def)

lemma count_where_drop_where:
  "count_where q (drop_where p t) = count_where (\<lambda>r. q r \<and> \<not> p r) t"
  by (induction t) (auto simp: drop_where_def)

lemma count_where_zero: "count_where p t = 0 \<longleftrightarrow> (\<forall>r \<in> set t. \<not> p r)"
  by (induction t) auto

text \<open>\<open>MAX(col)\<close> is NULL on no rows; \<open>COALESCE\<close> takes the first value that is not NULL.\<close>

definition sql_max :: "int list \<Rightarrow> int option" where
  "sql_max xs = (case xs of [] \<Rightarrow> None | x # ys \<Rightarrow> Some (foldl max x ys))"

definition sql_min :: "int list \<Rightarrow> int option" where
  "sql_min xs = (case xs of [] \<Rightarrow> None | x # ys \<Rightarrow> Some (foldl min x ys))"

definition coalesce :: "'a option \<Rightarrow> 'a \<Rightarrow> 'a" where
  "coalesce x d = (case x of None \<Rightarrow> d | Some v \<Rightarrow> v)"

definition coalesce_opt :: "'a option \<Rightarrow> 'a option \<Rightarrow> 'a option" where
  "coalesce_opt x d = (case x of None \<Rightarrow> d | Some v \<Rightarrow> Some v)"

lemma coalesce_simps [simp]: "coalesce None d = d" "coalesce (Some v) d = v"
  by (simp_all add: coalesce_def)

lemma coalesce_opt_simps [simp]: "coalesce_opt None d = d" "coalesce_opt (Some v) d = Some v"
  by (simp_all add: coalesce_opt_def)

text \<open>\<open>ORDER BY\<close> is a stable sort by the key, \<open>LIMIT\<close> takes a prefix.\<close>

definition order_by :: "('r \<Rightarrow> 'k :: linorder) \<Rightarrow> 'r list \<Rightarrow> 'r list" where
  "order_by key t = sort_key key t"

section \<open>Gap-free logs\<close>

text \<open>
  A table of log rows is gap-free when, key by key, the sequence numbers of its rows read
  \<open>b, b + 1, ...\<close> in the order the rows were written.
\<close>

definition gapless :: "('r \<Rightarrow> 'k) \<Rightarrow> ('r \<Rightarrow> int) \<Rightarrow> int \<Rightarrow> 'r list \<Rightarrow> bool" where
  "gapless key sq b t \<longleftrightarrow>
     (\<forall>x \<in> set t. map sq (filter (\<lambda>r. key r = key x) t)
        = map (\<lambda>i. b + int i) [0..<count_where (\<lambda>r. key r = key x) t])"

lemma gaplessI:
  assumes "\<And>k. map sq (filter (\<lambda>r. key r = k) t)
             = map (\<lambda>i. b + int i) [0..<count_where (\<lambda>r. key r = k) t]"
  shows "gapless key sq b t"
  using assms by (simp add: gapless_def)

lemma gaplessD:
  assumes "gapless key sq b t"
  shows "map sq (filter (\<lambda>r. key r = k) t)
           = map (\<lambda>i. b + int i) [0..<count_where (\<lambda>r. key r = k) t]"
proof (cases "\<exists>x \<in> set t. key x = k")
  case True
  then show ?thesis using assms by (auto simp: gapless_def)
next
  case False
  then have "filter (\<lambda>r. key r = k) t = []" by (auto simp: filter_empty_conv)
  then show ?thesis by (simp add: count_where_def)
qed

lemma gapless_Nil [simp]: "gapless key sq b []"
  by (simp add: gapless_def)

lemma gapless_snoc:
  assumes "gapless key sq b t"
    and "sq r = b + int (count_where (\<lambda>x. key x = key r) t)"
  shows "gapless key sq b (t @ [r])"
  using gaplessD[OF assms(1)] assms(2) by (intro gaplessI) auto

lemma gapless_append_block:
  assumes "gapless key sq b t" and "\<And>r. r \<in> set rs \<Longrightarrow> key r = k"
    and "map sq rs = map (\<lambda>i. b + int (count_where (\<lambda>r. key r = k) t + i)) [0..<length rs]"
  shows "gapless key sq b (t @ rs)"
proof (rule gaplessI)
  fix k'
  let ?n = "count_where (\<lambda>r. key r = k) t"
  show "map sq (filter (\<lambda>r. key r = k') (t @ rs))
      = map (\<lambda>i. b + int i) [0..<count_where (\<lambda>r. key r = k') (t @ rs)]"
  proof (cases "k' = k")
    case True
    have all: "filter (\<lambda>r. key r = k) rs = rs" using assms(2) by simp
    have "map (\<lambda>i. b + int i) [0..<?n + length rs]
        = map (\<lambda>i. b + int i) [0..<?n] @ map (\<lambda>i. b + int (?n + i)) [0..<length rs]"
      by (rule nth_equalityI) (auto simp: nth_append)
    then show ?thesis
      using True gaplessD[OF assms(1), of k] assms(3) all by (simp add: count_where_def)
  next
    case False
    then have "filter (\<lambda>r. key r = k') rs = []" using assms(2) by (auto simp: filter_empty_conv)
    then show ?thesis
      using gaplessD[OF assms(1), of k'] by (simp add: count_where_def)
  qed
qed

lemma gapless_drop:
  assumes "gapless key sq b t" and "\<And>r. r \<in> set t \<Longrightarrow> p r \<longleftrightarrow> q (key r)"
  shows "gapless key sq b (drop_where p t)"
proof (rule gaplessI)
  fix k
  have f: "filter (\<lambda>r. key r = k) (drop_where p t) = (if q k then [] else filter (\<lambda>r. key r = k) t)"
    using assms(2) by (auto simp: drop_where_def filter_empty_conv intro: filter_cong)
  then show "map sq (filter (\<lambda>r. key r = k) (drop_where p t))
      = map (\<lambda>i. b + int i) [0..<count_where (\<lambda>r. key r = k) (drop_where p t)]"
    using gaplessD[OF assms(1), of k] by (simp add: count_where_def)
qed

lemma gapless_map:
  assumes "gapless key sq b t" and "\<And>r. key (f r) = key r" and "\<And>r. sq (f r) = sq r"
  shows "gapless key sq b (map f t)"
  using gaplessD[OF assms(1)] assms(2,3)
  by (intro gaplessI) (simp add: filter_map comp_def count_where_map)

lemma gapless_set_where:
  assumes "gapless key sq b t" and "\<And>r. key (f r) = key r" and "\<And>r. sq (f r) = sq r"
  shows "gapless key sq b (set_where p f t)"
  unfolding set_where_def by (rule gapless_map[OF assms(1)]) (simp_all add: assms(2,3))

lemma foldl_max_run: "foldl max b (map (\<lambda>i. b + int i) [Suc 0..<Suc n]) = b + int n"
  by (induction n) auto

lemma sql_max_run:
  "sql_max (map (\<lambda>i. b + int i) [0..<n]) = (if n = 0 then None else Some (b + int n - 1))"
proof (cases n)
  case 0
  then show ?thesis by (simp add: sql_max_def)
next
  case (Suc m)
  have "[0..<n] = 0 # [Suc 0..<Suc m]" using Suc by (simp add: upt_conv_Cons del: upt_Suc)
  then show ?thesis
    using foldl_max_run[of b m] Suc by (simp add: sql_max_def del: upt_Suc)
qed

lemma gapless_next:
  assumes "gapless key sq b t"
  shows "coalesce (sql_max (map sq (filter (\<lambda>r. key r = k) t))) (b - 1) + 1
           = b + int (count_where (\<lambda>r. key r = k) t)"
  by (simp add: gaplessD[OF assms] sql_max_run)

lemma gapless_seqs:
  assumes "gapless key sq b t"
  shows "sq ` {r \<in> set t. key r = k} = {b ..< b + int (count_where (\<lambda>r. key r = k) t)}"
proof -
  have "sq ` {r \<in> set t. key r = k} = set (map sq (filter (\<lambda>r. key r = k) t))" by auto
  also have "\<dots> = (\<lambda>i. b + int i) ` {0..<count_where (\<lambda>r. key r = k) t}"
    by (simp add: gaplessD[OF assms])
  also have "\<dots> = {b ..< b + int (count_where (\<lambda>r. key r = k) t)}" (is "?L = ?R")
  proof (rule set_eqI)
    fix x
    have "x \<in> ?R \<Longrightarrow> x \<in> ?L"
      by (rule image_eqI[of _ _ "nat (x - b)"]) auto
    then show "x \<in> ?L \<longleftrightarrow> x \<in> ?R" by auto
  qed
  finally show ?thesis .
qed

lemma gapless_distinct:
  assumes "gapless key sq b t"
  shows "distinct (map (\<lambda>r. (key r, sq r)) t)"
proof (rule ccontr)
  assume "\<not> ?thesis"
  then obtain xs ys zs w where w: "map (\<lambda>r. (key r, sq r)) t = xs @ [w] @ ys @ [w] @ zs"
    using not_distinct_decomp by blast
  have "map snd (filter (\<lambda>kv. fst kv = fst w) (map (\<lambda>r. (key r, sq r)) t))
          = map sq (filter (\<lambda>r. key r = fst w) t)"
    by (simp add: filter_map comp_def)
  moreover have "distinct (map sq (filter (\<lambda>r. key r = fst w) t))"
    by (simp add: gaplessD[OF assms] distinct_map inj_on_def)
  ultimately have "distinct (map snd (filter (\<lambda>kv. fst kv = fst w) (map (\<lambda>r. (key r, sq r)) t)))"
    by (rule ssubst)
  then show False
    unfolding w by simp
qed

section \<open>JSON values\<close>

text \<open>
  \<open>serde_json::Value\<close>. A number is an integer or the bits of a double; an object is the list of
  its members in key order. Parsing and printing are the third-party crate's and
  appear as parameters of the operations that call them.
\<close>

datatype json =
    JNull
  | JBool bool
  | JInt int
  | JFloat nat
  | JStr str
  | JArr "json list"
  | JObj "(str \<times> json) list"

fun as_str :: "json \<Rightarrow> str option" where
  "as_str (JStr s) = Some s"
| "as_str _ = None"

fun as_bool :: "json \<Rightarrow> bool option" where
  "as_bool (JBool b) = Some b"
| "as_bool _ = None"

fun as_i64 :: "json \<Rightarrow> int option" where
  "as_i64 (JInt i) = (if I64_MIN \<le> i \<and> i \<le> I64_MAX then Some i else None)"
| "as_i64 _ = None"

fun as_array :: "json \<Rightarrow> json list option" where
  "as_array (JArr xs) = Some xs"
| "as_array _ = None"

fun as_object :: "json \<Rightarrow> (str \<times> json) list option" where
  "as_object (JObj kvs) = Some kvs"
| "as_object _ = None"

text \<open>\<open>Value::get(key)\<close>, \<open>Map::insert\<close> and \<open>Map::remove\<close>. The workspace builds \<open>serde_json\<close>
  without \<open>preserve_order\<close>, so a \<open>Map\<close> is a \<open>BTreeMap\<close> and its members come sorted by key.\<close>

fun jget :: "str \<Rightarrow> json \<Rightarrow> json option" where
  "jget k (JObj kvs) = map_of kvs k"
| "jget k _ = None"

fun obj_insert :: "str \<Rightarrow> json \<Rightarrow> (str \<times> json) list \<Rightarrow> (str \<times> json) list" where
  "obj_insert k v [] = [(k, v)]"
| "obj_insert k v ((k', v') # kvs) =
     (if k = k' then (k, v) # kvs
      else if k < k' then (k, v) # (k', v') # kvs
      else (k', v') # obj_insert k v kvs)"

definition obj_remove :: "str \<Rightarrow> (str \<times> json) list \<Rightarrow> (str \<times> json) list" where
  "obj_remove k kvs = filter (\<lambda>kv. fst kv \<noteq> k) kvs"

definition mk_obj :: "(str \<times> json) list \<Rightarrow> json" where
  "mk_obj kvs = JObj (foldl (\<lambda>m kv. obj_insert (fst kv) (snd kv) m) [] kvs)"

lemma map_of_obj_insert [simp]: "map_of (obj_insert k v kvs) = (map_of kvs)(k \<mapsto> v)"
  by (induction k v kvs rule: obj_insert.induct) auto

lemma map_of_obj_remove [simp]: "map_of (obj_remove k kvs) = (map_of kvs)(k := None)"
  by (induction kvs) (auto simp: obj_remove_def)

text \<open>A member is smaller than its object, for recursion into values.\<close>

lemma size_member: "kv \<in> set kvs \<Longrightarrow> size (snd kv) < Suc (size_list (size_prod (\<lambda>_. 0) size) kvs)"
  by (induction kvs) auto

end
