(* ===== verification/Ledger_Schema.thy ===== *)
theory Ledger_Schema
  imports Prelude
begin

text \<open>
  The control ledger's tables (\<open>USER_DATA_MIGRATIONS\<close> of \<open>crates/milim-storage/src/db.rs\<close>), the
  row records the store returns, the constraints SQLite enforces on an insert, the cascade of a
  deletion, and the transaction wrapper every operation runs in.
\<close>

section \<open>Errors and the outside world\<close>

text \<open>\<open>milim_core::Error\<close>. \<open>Sqlite\<close> stands for \<open>sqlite(e)\<close>, that is \<open>Error::Other("sqlite: ...")\<close>
  with SQLite's own text, kept apart by its cause; \<open>Panic\<close> is an operation that does not return
  (a slice out of range).\<close>

datatype sql_error = UniqueViolation | ForeignKeyViolation | CheckViolation | NoRows | OutOfRange | CommitFailed

datatype error =
    InvalidRequest str
  | ModelNotFound str
  | NotFound str
  | Unauthorized str
  | Upstream str
  | Inference str
  | Other str
  | Sqlite sql_error
  | Panic

text \<open>
  What an operation takes from outside: the clock (\<open>now_ms()\<close>, read once per operation), whether
  \<open>COMMIT\<close> succeeds, the random bytes of a new epoch, \<open>serde_json::from_str\<close> (\<open>Inl\<close> holds the text
  of the error) and \<open>Value::to_string\<close>.
\<close>

record env =
  now :: int
  commit_ok :: bool
  random_epoch :: "str \<Rightarrow> str"
  env_parse :: "str \<Rightarrow> str + json"
  env_show :: "json \<Rightarrow> str"

section \<open>Rows\<close>

record session_row =
  s_id :: str
  s_json :: str
  s_order :: int
  s_updated :: int

record message_row =
  m_session :: str
  m_index :: int
  m_json :: str

record control_row =
  c_thread :: str
  c_epoch :: str
  c_revision :: int
  c_next_seq :: int
  c_updated :: int

record thread_rec =
  th_id :: str
  th_json :: str
  th_revision :: int
  th_epoch :: str
  th_updated :: int

record run_row =
  r_id :: str
  r_thread :: str
  r_status :: str
  r_adapter :: str
  r_request :: str
  r_snapshot :: "str option"
  r_native :: "str option"
  r_created :: int
  r_updated :: int
  r_completed :: "int option"
  r_error :: "str option"

record timeline_row =
  t_thread :: str
  t_epoch :: str
  t_seq :: int
  t_item :: str
  t_run :: "str option"
  t_type :: str
  t_data :: str
  t_created :: int

record timeline_page =
  pg_epoch :: str
  pg_first :: "int option"
  pg_last :: "int option"
  pg_older :: bool
  pg_newer :: bool
  pg_items :: "timeline_row list"

record queued_turn =
  q_id :: str
  q_thread :: str
  q_command :: str
  q_request :: str
  q_accepted :: int

record event_row =
  e_run :: str
  e_seq :: int
  e_id :: str
  e_step :: "str option"
  e_type :: str
  e_data :: str
  e_created :: int

text \<open>\<open>ControlInboxRecord\<close> has no \<open>sort_key\<close>; the table's column is the extension.\<close>

record inbox_item =
  i_id :: str
  i_thread :: str
  i_target :: "str option"
  i_command :: "str option"
  i_kind :: str
  i_state :: str
  i_payload :: str
  i_created :: int
  i_claimed :: "int option"
  i_resolved :: "int option"

record inbox_row = inbox_item +
  i_sort :: "int option"

record mailbox_row =
  mb_id :: str
  mb_origin :: str
  mb_target :: str
  mb_origin_run :: "str option"
  mb_target_run :: "str option"
  mb_status :: str
  mb_request :: str
  mb_reply :: "str option"
  mb_created :: int
  mb_updated :: int
  mb_consumed :: "int option"
  mb_projected :: "int option"

record link_row =
  l_owner :: str
  l_target :: str
  l_created :: int

record approval_row =
  a_id :: str
  a_run :: str
  a_thread :: str
  a_kind :: str
  a_request :: str
  a_status :: str
  a_decision :: "str option"
  a_created :: int
  a_resolved :: "int option"

record receipt_row =
  rc_command :: str
  rc_device :: "str option"
  rc_thread :: "str option"
  rc_kind :: str
  rc_request :: str
  rc_result :: str
  rc_created :: int

record artifact_row =
  af_run :: str
  af_digest :: str
  af_kind :: str
  af_data :: str
  af_len :: int
  af_created :: int

record blob_row =
  b_digest :: str
  b_encoding :: str
  b_base :: "str option"
  b_payload :: str
  b_len :: int

record ref_row =
  f_run :: str
  f_digest :: str
  f_kind :: str
  f_created :: int

text \<open>The store: the tables and the in-memory \<open>next_receipt_prune_ms\<close> of \<open>UserDataStore\<close>.\<close>

record ledger =
  sessions :: "session_row list"
  messages :: "message_row list"
  controls :: "control_row list"
  runs :: "run_row list"
  timeline :: "timeline_row list"
  run_events :: "event_row list"
  inbox :: "inbox_row list"
  links :: "link_row list"
  mailbox :: "mailbox_row list"
  approvals :: "approval_row list"
  receipts :: "receipt_row list"
  artifacts :: "artifact_row list"
  blobs :: "blob_row list"
  refs :: "ref_row list"
  next_prune :: int

definition empty_ledger :: ledger where
  "empty_ledger =
     \<lparr>sessions = [], messages = [], controls = [], runs = [], timeline = [], run_events = [],
      inbox = [], links = [], mailbox = [], approvals = [], receipts = [], artifacts = [],
      blobs = [], refs = [], next_prune = 0\<rparr>"

section \<open>Transactions\<close>

text \<open>
  \<open>BEGIN IMMEDIATE\<close>, the body, then \<open>finish_control_transaction\<close>: an error of the body or of
  \<open>COMMIT\<close> rolls back. A single statement outside a transaction is one of its own.
\<close>

type_synonym 'a body = "ledger \<Rightarrow> error + ('a \<times> ledger)"
type_synonym 'a outcome = "(error + 'a) \<times> ledger"

definition finish_control_transaction :: "env \<Rightarrow> ledger \<Rightarrow> error + ('a \<times> ledger) \<Rightarrow> 'a outcome" where
  "finish_control_transaction e st r =
     (case r of
        Inl err \<Rightarrow> (Inl err, st)
      | Inr (x, st') \<Rightarrow> if commit_ok e then (Inr x, st') else (Inl (Sqlite CommitFailed), st))"

definition transact :: "env \<Rightarrow> 'a body \<Rightarrow> ledger \<Rightarrow> 'a outcome" where
  "transact e body st = finish_control_transaction e st (body st)"

text \<open>Validation before the lock is taken: an error there leaves the store alone.\<close>

definition checked :: "error + 'c \<Rightarrow> ('c \<Rightarrow> ledger \<Rightarrow> 'a outcome) \<Rightarrow> ledger \<Rightarrow> 'a outcome" where
  "checked v k st = (case v of Inl err \<Rightarrow> (Inl err, st) | Inr x \<Rightarrow> k x st)"

lemma transact_simps [simp]:
  "body st = Inl err \<Longrightarrow> transact e body st = (Inl err, st)"
  "body st = Inr (x, st') \<Longrightarrow> commit_ok e \<Longrightarrow> transact e body st = (Inr x, st')"
  by (simp_all add: transact_def finish_control_transaction_def)

lemma transact_ok:
  "transact e body st = (Inr x, st') \<longleftrightarrow> commit_ok e \<and> body st = Inr (x, st')"
  by (auto simp: transact_def finish_control_transaction_def split: sum.splits if_splits)

lemma transact_err: "fst (transact e body st) = Inl err \<Longrightarrow> snd (transact e body st) = st"
  by (auto simp: transact_def finish_control_transaction_def split: sum.splits if_splits)

lemma transact_keeps:
  assumes "P st" and "\<And>x st'. body st = Inr (x, st') \<Longrightarrow> P st'"
  shows "P (snd (transact e body st))"
  using assms by (auto simp: transact_def finish_control_transaction_def split: sum.splits if_splits)

lemma checked_keeps:
  assumes "P st" and "\<And>x. v = Inr x \<Longrightarrow> P (snd (k x st))"
  shows "P (snd (checked v k st))"
  using assms by (cases v) (simp_all add: checked_def)

lemma checked_simps [simp]:
  "checked (Inl err) k st = (Inl err, st)" "checked (Inr x) k st = k x st"
  by (simp_all add: checked_def)

lemma checked_ok: "checked v k st = (Inr y, st') \<longleftrightarrow> (\<exists>x. v = Inr x \<and> k x st = (Inr y, st'))"
  by (cases v) auto

lemma checked_err:
  assumes "\<And>x err. fst (k x st) = Inl err \<Longrightarrow> snd (k x st) = st"
    and "fst (checked v k st) = Inl err"
  shows "snd (checked v k st) = st"
  using assms by (cases v) auto

section \<open>Argument validation\<close>

definition required_control_text :: "str \<Rightarrow> str \<Rightarrow> error + str" where
  "required_control_text value label =
     (if trim value = [] then Inl (InvalidRequest (label @ '' cannot be empty''))
      else Inr (trim value))"

definition validate_control_json :: "env \<Rightarrow> str \<Rightarrow> str \<Rightarrow> error + unit" where
  "validate_control_json e value label =
     (case env_parse e value of
        Inl err \<Rightarrow> Inl (InvalidRequest (''invalid '' @ label @ '' JSON: '' @ err))
      | Inr _ \<Rightarrow> Inr ())"

definition validate_optional_control_json :: "env \<Rightarrow> str option \<Rightarrow> str \<Rightarrow> error + unit" where
  "validate_optional_control_json e value label =
     (case value of None \<Rightarrow> Inr () | Some v \<Rightarrow> validate_control_json e v label)"

definition u64_to_i64 :: "int \<Rightarrow> error + int" where
  "u64_to_i64 value =
     (if value \<le> I64_MAX then Inr value else Inl (InvalidRequest ''integer is too large''))"

definition i64_to_u64 :: "int \<Rightarrow> str \<Rightarrow> error + int" where
  "i64_to_u64 value label =
     (if 0 \<le> value then Inr value else Inl (Other (''invalid negative '' @ label)))"

lemma required_control_text_ok:
  "required_control_text v l = Inr t \<longleftrightarrow> t = trim v \<and> trim v \<noteq> []"
  by (auto simp: required_control_text_def)

lemma validate_control_json_ok:
  "validate_control_json e v l = Inr u \<longleftrightarrow> (\<exists>j. env_parse e v = Inr j)"
  by (auto simp: validate_control_json_def split: sum.splits)

lemma u64_to_i64_ok [simp]: "u64_to_i64 v = Inr w \<longleftrightarrow> w = v \<and> v \<le> I64_MAX"
  by (auto simp: u64_to_i64_def)

lemma i64_to_u64_ok [simp]: "i64_to_u64 v l = Inr w \<longleftrightarrow> w = v \<and> 0 \<le> v"
  by (auto simp: i64_to_u64_def)

section \<open>Inserting a row\<close>

text \<open>
  An \<open>INSERT\<close> fails on a \<open>CHECK\<close>, then on a duplicate of a \<open>PRIMARY KEY\<close> or \<open>UNIQUE\<close> column, then
  on a foreign key without its row (\<open>PRAGMA foreign_keys\<close> is on).
\<close>

definition insert_row :: "bool \<Rightarrow> ('r \<Rightarrow> bool) \<Rightarrow> bool \<Rightarrow> 'r \<Rightarrow> 'r list \<Rightarrow> error + 'r list" where
  "insert_row chk clash fk r t =
     (if \<not> chk then Inl (Sqlite CheckViolation)
      else if list_ex clash t then Inl (Sqlite UniqueViolation)
      else if \<not> fk then Inl (Sqlite ForeignKeyViolation)
      else Inr (t @ [r]))"

lemma insert_row_ok:
  "insert_row chk clash fk r t = Inr t' \<longleftrightarrow>
     chk \<and> fk \<and> (\<forall>x \<in> set t. \<not> clash x) \<and> t' = t @ [r]"
  by (auto simp: insert_row_def list_ex_iff)

lemma insert_row_key:
  "insert_row chk (\<lambda>x. key x = k) fk r t = Inr t' \<longleftrightarrow>
     chk \<and> fk \<and> k \<notin> key ` set t \<and> t' = t @ [r]"
  unfolding insert_row_ok by force

definition has_session :: "ledger \<Rightarrow> str \<Rightarrow> bool" where
  "has_session st t = list_ex (\<lambda>s. s_id s = t) (sessions st)"

definition has_run :: "ledger \<Rightarrow> str \<Rightarrow> bool" where
  "has_run st r = list_ex (\<lambda>x. r_id x = r) (runs st)"

definition has_run_opt :: "ledger \<Rightarrow> str option \<Rightarrow> bool" where
  "has_run_opt st r = (case r of None \<Rightarrow> True | Some x \<Rightarrow> has_run st x)"

definition has_blob :: "ledger \<Rightarrow> str \<Rightarrow> bool" where
  "has_blob st d = list_ex (\<lambda>b. b_digest b = d) (blobs st)"

lemma has_session_iff: "has_session st t \<longleftrightarrow> t \<in> s_id ` set (sessions st)"
  by (auto simp: has_session_def list_ex_iff)

lemma has_run_iff: "has_run st r \<longleftrightarrow> r \<in> r_id ` set (runs st)"
  by (auto simp: has_run_def list_ex_iff)

lemma has_blob_iff: "has_blob st d \<longleftrightarrow> d \<in> b_digest ` set (blobs st)"
  by (auto simp: has_blob_def list_ex_iff)

definition insert_session :: "session_row \<Rightarrow> ledger \<Rightarrow> error + ledger" where
  "insert_session r st =
     ebind (insert_row True (\<lambda>x. s_id x = s_id r) True r (sessions st))
       (\<lambda>t. Inr (st\<lparr>sessions := t\<rparr>))"

definition insert_message :: "message_row \<Rightarrow> ledger \<Rightarrow> error + ledger" where
  "insert_message r st =
     ebind (insert_row True (\<lambda>x. m_session x = m_session r \<and> m_index x = m_index r)
              (has_session st (m_session r)) r (messages st))
       (\<lambda>t. Inr (st\<lparr>messages := t\<rparr>))"

definition insert_control :: "control_row \<Rightarrow> ledger \<Rightarrow> error + ledger" where
  "insert_control r st =
     ebind (insert_row True (\<lambda>x. c_thread x = c_thread r) (has_session st (c_thread r)) r (controls st))
       (\<lambda>t. Inr (st\<lparr>controls := t\<rparr>))"

definition insert_run :: "run_row \<Rightarrow> ledger \<Rightarrow> error + ledger" where
  "insert_run r st =
     ebind (insert_row True (\<lambda>x. r_id x = r_id r) (has_session st (r_thread r)) r (runs st))
       (\<lambda>t. Inr (st\<lparr>runs := t\<rparr>))"

definition insert_timeline :: "timeline_row \<Rightarrow> ledger \<Rightarrow> error + ledger" where
  "insert_timeline r st =
     ebind (insert_row True
              (\<lambda>x. t_item x = t_item r \<or>
                 t_thread x = t_thread r \<and> t_epoch x = t_epoch r \<and> t_seq x = t_seq r)
              (has_session st (t_thread r) \<and> has_run_opt st (t_run r)) r (timeline st))
       (\<lambda>t. Inr (st\<lparr>timeline := t\<rparr>))"

definition insert_run_event :: "event_row \<Rightarrow> ledger \<Rightarrow> error + ledger" where
  "insert_run_event r st =
     ebind (insert_row True
              (\<lambda>x. e_id x = e_id r \<or> e_run x = e_run r \<and> e_seq x = e_seq r)
              (has_run st (e_run r)) r (run_events st))
       (\<lambda>t. Inr (st\<lparr>run_events := t\<rparr>))"

definition inbox_kinds :: "str list" where
  "inbox_kinds = [''followup'', ''steer'', ''inject'']"

definition inbox_states :: "str list" where
  "inbox_states = [''pending'', ''claimed'', ''cancelled'', ''discarded'']"

definition mailbox_statuses :: "str list" where
  "mailbox_statuses = [''queued'', ''running'', ''replied'', ''failed'', ''discarded'']"

definition same_command :: "str option \<Rightarrow> str option \<Rightarrow> bool" where
  "same_command a b \<longleftrightarrow> a \<noteq> None \<and> a = b"

definition insert_inbox :: "inbox_row \<Rightarrow> ledger \<Rightarrow> error + ledger" where
  "insert_inbox r st =
     ebind (insert_row (i_kind r \<in> set inbox_kinds \<and> i_state r \<in> set inbox_states)
              (\<lambda>x. i_id x = i_id r \<or> same_command (i_command x) (i_command r))
              (has_session st (i_thread r) \<and> has_run_opt st (i_target r)) r (inbox st))
       (\<lambda>t. Inr (st\<lparr>inbox := t\<rparr>))"

definition insert_mailbox :: "mailbox_row \<Rightarrow> ledger \<Rightarrow> error + ledger" where
  "insert_mailbox r st =
     ebind (insert_row (mb_status r \<in> set mailbox_statuses) (\<lambda>x. mb_id x = mb_id r)
              (has_session st (mb_origin r) \<and> has_session st (mb_target r)
                 \<and> has_run_opt st (mb_target_run r)) r (mailbox st))
       (\<lambda>t. Inr (st\<lparr>mailbox := t\<rparr>))"

text \<open>\<open>INSERT OR IGNORE\<close>: a broken \<open>CHECK\<close> or a duplicate key inserts nothing, a missing foreign key
  is still an error. The result carries the number of rows changed.\<close>

definition insert_link_or_ignore :: "link_row \<Rightarrow> ledger \<Rightarrow> error + (nat \<times> ledger)" where
  "insert_link_or_ignore r st =
     (if l_owner r = l_target r
         \<or> list_ex (\<lambda>x. l_owner x = l_owner r \<and> l_target x = l_target r) (links st)
      then Inr (0, st)
      else if \<not> (has_session st (l_owner r) \<and> has_session st (l_target r))
      then Inl (Sqlite ForeignKeyViolation)
      else Inr (1, st\<lparr>links := links st @ [r]\<rparr>))"

definition insert_approval :: "approval_row \<Rightarrow> ledger \<Rightarrow> error + ledger" where
  "insert_approval r st =
     ebind (insert_row True (\<lambda>x. a_id x = a_id r)
              (has_run st (a_run r) \<and> has_session st (a_thread r)) r (approvals st))
       (\<lambda>t. Inr (st\<lparr>approvals := t\<rparr>))"

definition insert_receipt :: "receipt_row \<Rightarrow> ledger \<Rightarrow> error + ledger" where
  "insert_receipt r st =
     ebind (insert_row True (\<lambda>x. rc_command x = rc_command r) True r (receipts st))
       (\<lambda>t. Inr (st\<lparr>receipts := t\<rparr>))"

definition insert_blob :: "blob_row \<Rightarrow> ledger \<Rightarrow> error + ledger" where
  "insert_blob r st =
     ebind (insert_row True (\<lambda>x. b_digest x = b_digest r) True r (blobs st))
       (\<lambda>t. Inr (st\<lparr>blobs := t\<rparr>))"

definition insert_ref_or_ignore :: "ref_row \<Rightarrow> ledger \<Rightarrow> error + ledger" where
  "insert_ref_or_ignore r st =
     (if list_ex (\<lambda>x. f_run x = f_run r \<and> f_digest x = f_digest r) (refs st) then Inr st
      else if \<not> (has_run st (f_run r) \<and> has_blob st (f_digest r))
      then Inl (Sqlite ForeignKeyViolation)
      else Inr (st\<lparr>refs := refs st @ [r]\<rparr>))"

section \<open>Deleting a session\<close>

text \<open>
  \<open>DELETE FROM user_sessions WHERE id = ?\<close> with every \<open>ON DELETE CASCADE\<close> and \<open>ON DELETE SET NULL\<close>
  that follows, and the trigger that drops an artifact blob with its last reference.
\<close>

definition null_run :: "str list \<Rightarrow> str option \<Rightarrow> str option" where
  "null_run gone r = (case r of None \<Rightarrow> None | Some x \<Rightarrow> if x \<in> set gone then None else r)"

definition runs_of :: "ledger \<Rightarrow> str \<Rightarrow> str list" where
  "runs_of st t = map r_id (filter (\<lambda>r. r_thread r = t) (runs st))"

definition delete_session_rows :: "str \<Rightarrow> ledger \<Rightarrow> ledger" where
  "delete_session_rows t st =
     (let gone = runs_of st t;
          kept = drop_where (\<lambda>f. f_run f \<in> set gone) (refs st);
          dropped = map f_digest (filter (\<lambda>f. f_run f \<in> set gone) (refs st))
      in st\<lparr>sessions := drop_where (\<lambda>s. s_id s = t) (sessions st),
            messages := drop_where (\<lambda>m. m_session m = t) (messages st),
            controls := drop_where (\<lambda>c. c_thread c = t) (controls st),
            runs := drop_where (\<lambda>r. r_thread r = t) (runs st),
            timeline := map (\<lambda>r. r\<lparr>t_run := null_run gone (t_run r)\<rparr>)
                          (drop_where (\<lambda>r. t_thread r = t) (timeline st)),
            run_events := drop_where (\<lambda>v. e_run v \<in> set gone) (run_events st),
            inbox := map (\<lambda>i. i\<lparr>i_target := null_run gone (i_target i)\<rparr>)
                       (drop_where (\<lambda>i. i_thread i = t) (inbox st)),
            links := drop_where (\<lambda>l. l_owner l = t \<or> l_target l = t) (links st),
            mailbox := map (\<lambda>m. m\<lparr>mb_target_run := null_run gone (mb_target_run m)\<rparr>)
                         (drop_where (\<lambda>m. mb_origin m = t \<or> mb_target m = t) (mailbox st)),
            approvals := drop_where (\<lambda>a. a_thread a = t \<or> a_run a \<in> set gone) (approvals st),
            artifacts := drop_where (\<lambda>a. af_run a \<in> set gone) (artifacts st),
            refs := kept,
            blobs := drop_where (\<lambda>b. b_digest b \<in> set dropped
                          \<and> \<not> list_ex (\<lambda>f. f_digest f = b_digest b) kept) (blobs st)\<rparr>)"

end
