(* ===== verification/Ledger_Invariant.thy ===== *)
theory Ledger_Invariant
  imports Ledger_Schema
begin

text \<open>
  The invariant of the ledger: what the schema's constraints give (keys, foreign keys, \<open>CHECK\<close>s)
  and what only the program keeps (gap-free message indices, timeline and run-event sequences,
  the next sequence number of a thread, reciprocal links). Each table has a predicate of its own
  over the rows it depends on, so an operation has to be looked at only for the tables it writes.
\<close>

section \<open>One predicate per table\<close>

definition run_in :: "str set \<Rightarrow> str option \<Rightarrow> bool" where
  "run_in R r = (case r of None \<Rightarrow> True | Some x \<Rightarrow> x \<in> R)"

definition sessions_ok :: "session_row list \<Rightarrow> bool" where
  "sessions_ok ss \<longleftrightarrow> distinct (map s_id ss)"

definition messages_ok :: "str set \<Rightarrow> message_row list \<Rightarrow> bool" where
  "messages_ok S ms \<longleftrightarrow> gapless m_session m_index 0 ms \<and> m_session ` set ms \<subseteq> S"

definition controls_ok :: "str set \<Rightarrow> control_row list \<Rightarrow> bool" where
  "controls_ok S cs \<longleftrightarrow> distinct (map c_thread cs) \<and> c_thread ` set cs \<subseteq> S"

definition runs_ok :: "str set \<Rightarrow> run_row list \<Rightarrow> bool" where
  "runs_ok S rs \<longleftrightarrow> distinct (map r_id rs) \<and> r_thread ` set rs \<subseteq> S"

definition next_seq_ok :: "control_row list \<Rightarrow> timeline_row list \<Rightarrow> bool" where
  "next_seq_ok cs tm \<longleftrightarrow>
     (\<forall>c \<in> set cs. let n = int (count_where (\<lambda>r. t_thread r = c_thread c) tm)
        in n \<le> I64_MAX \<and> c_next_seq c = min (n + 1) I64_MAX)"

definition epochs_ok :: "control_row list \<Rightarrow> timeline_row list \<Rightarrow> bool" where
  "epochs_ok cs tm \<longleftrightarrow>
     (\<lambda>r. (t_thread r, t_epoch r)) ` set tm \<subseteq> (\<lambda>c. (c_thread c, c_epoch c)) ` set cs"

definition timeline_ok :: "str set \<Rightarrow> timeline_row list \<Rightarrow> bool" where
  "timeline_ok R tm \<longleftrightarrow>
     distinct (map t_item tm) \<and> gapless t_thread t_seq 1 tm \<and> (\<forall>r \<in> set tm. run_in R (t_run r))"

definition run_events_ok :: "str set \<Rightarrow> event_row list \<Rightarrow> bool" where
  "run_events_ok R vs \<longleftrightarrow>
     distinct (map e_id vs) \<and> gapless e_run e_seq 1 vs \<and> e_run ` set vs \<subseteq> R"

definition distinct_somes :: "'a option list \<Rightarrow> bool" where
  "distinct_somes xs \<longleftrightarrow> distinct (filter (\<lambda>x. x \<noteq> None) xs)"

definition inbox_ok :: "str set \<Rightarrow> str set \<Rightarrow> inbox_row list \<Rightarrow> bool" where
  "inbox_ok S R ib \<longleftrightarrow>
     distinct (map i_id ib) \<and> distinct_somes (map i_command ib) \<and>
     (\<forall>i \<in> set ib. i_kind i \<in> set inbox_kinds \<and> i_state i \<in> set inbox_states
        \<and> i_thread i \<in> S \<and> run_in R (i_target i))"

definition links_ok :: "str set \<Rightarrow> link_row list \<Rightarrow> bool" where
  "links_ok S ls \<longleftrightarrow>
     distinct (map (\<lambda>l. (l_owner l, l_target l)) ls) \<and>
     (\<forall>l \<in> set ls. l_owner l \<noteq> l_target l \<and> l_owner l \<in> S \<and> l_target l \<in> S)"

definition reciprocal :: "link_row list \<Rightarrow> bool" where
  "reciprocal ls \<longleftrightarrow>
     (\<forall>l \<in> set ls. \<exists>k \<in> set ls. l_owner k = l_target l \<and> l_target k = l_owner l)"

definition mailbox_ok :: "str set \<Rightarrow> str set \<Rightarrow> mailbox_row list \<Rightarrow> bool" where
  "mailbox_ok S R mb \<longleftrightarrow>
     distinct (map mb_id mb) \<and>
     (\<forall>m \<in> set mb. mb_status m \<in> set mailbox_statuses \<and> mb_origin m \<in> S \<and> mb_target m \<in> S
        \<and> run_in R (mb_target_run m))"

definition approvals_ok :: "str set \<Rightarrow> str set \<Rightarrow> approval_row list \<Rightarrow> bool" where
  "approvals_ok S R ap \<longleftrightarrow>
     distinct (map a_id ap) \<and> (\<forall>a \<in> set ap. a_run a \<in> R \<and> a_thread a \<in> S)"

definition receipts_ok :: "receipt_row list \<Rightarrow> bool" where
  "receipts_ok rc \<longleftrightarrow> distinct (map rc_command rc)"

definition blobs_ok :: "blob_row list \<Rightarrow> bool" where
  "blobs_ok bs \<longleftrightarrow> distinct (map b_digest bs)"

definition refs_ok :: "str set \<Rightarrow> str set \<Rightarrow> ref_row list \<Rightarrow> bool" where
  "refs_ok R B fs \<longleftrightarrow>
     distinct (map (\<lambda>f. (f_run f, f_digest f)) fs) \<and> (\<forall>f \<in> set fs. f_run f \<in> R \<and> f_digest f \<in> B)"

definition artifacts_ok :: "str set \<Rightarrow> artifact_row list \<Rightarrow> bool" where
  "artifacts_ok R afs \<longleftrightarrow>
     distinct (map (\<lambda>a. (af_run a, af_digest a)) afs) \<and> af_run ` set afs \<subseteq> R"

lemmas table_defs =
  sessions_ok_def messages_ok_def controls_ok_def runs_ok_def next_seq_ok_def epochs_ok_def
  timeline_ok_def run_events_ok_def inbox_ok_def links_ok_def reciprocal_def mailbox_ok_def
  approvals_ok_def receipts_ok_def blobs_ok_def refs_ok_def artifacts_ok_def

abbreviation sids :: "ledger \<Rightarrow> str set" where "sids st \<equiv> s_id ` set (sessions st)"
abbreviation rids :: "ledger \<Rightarrow> str set" where "rids st \<equiv> r_id ` set (runs st)"
abbreviation digests :: "ledger \<Rightarrow> str set" where "digests st \<equiv> b_digest ` set (blobs st)"

definition ledger_ok :: "ledger \<Rightarrow> bool" where
  "ledger_ok st \<longleftrightarrow>
     sessions_ok (sessions st) \<and> messages_ok (sids st) (messages st) \<and>
     controls_ok (sids st) (controls st) \<and> runs_ok (sids st) (runs st) \<and>
     next_seq_ok (controls st) (timeline st) \<and> epochs_ok (controls st) (timeline st) \<and>
     timeline_ok (rids st) (timeline st) \<and> run_events_ok (rids st) (run_events st) \<and>
     inbox_ok (sids st) (rids st) (inbox st) \<and>
     links_ok (sids st) (links st) \<and> reciprocal (links st) \<and>
     mailbox_ok (sids st) (rids st) (mailbox st) \<and>
     approvals_ok (sids st) (rids st) (approvals st) \<and> receipts_ok (receipts st) \<and>
     blobs_ok (blobs st) \<and> refs_ok (rids st) (digests st) (refs st) \<and>
     artifacts_ok (rids st) (artifacts st)"

lemma ledger_ok_empty [simp]: "ledger_ok empty_ledger"
  by (simp add: ledger_ok_def table_defs empty_ledger_def distinct_somes_def)

section \<open>What the operations rely on\<close>

lemma run_in_simps [simp]: "run_in R None" "run_in R (Some x) \<longleftrightarrow> x \<in> R"
  by (simp_all add: run_in_def)

lemma has_run_opt_iff: "has_run_opt st r \<longleftrightarrow> run_in (rids st) r"
  by (cases r) (auto simp: has_run_opt_def has_run_iff)

lemma run_in_mono: "run_in R r \<Longrightarrow> R \<subseteq> R' \<Longrightarrow> run_in R' r"
  by (cases r) auto

lemma distinct_somes_snoc:
  "distinct_somes (xs @ [x]) \<longleftrightarrow> distinct_somes xs \<and> (x = None \<or> x \<notin> set xs)"
  by (auto simp: distinct_somes_def)

lemma distinct_somes_Cons:
  "distinct_somes (x # xs) \<longleftrightarrow> distinct_somes xs \<and> (x = None \<or> x \<notin> set xs)"
  by (auto simp: distinct_somes_def)

lemma distinct_somes_filter:
  "distinct_somes (map f xs) \<Longrightarrow> distinct_somes (map f (filter p xs))"
  by (induction xs) (auto simp: distinct_somes_def split: if_splits)

text \<open>More sessions, runs or blobs: the tables that refer to them stay well formed.\<close>

lemma tables_mono:
  assumes "S \<subseteq> S'" and "R \<subseteq> R'" and "B \<subseteq> B'"
  shows "messages_ok S ms \<Longrightarrow> messages_ok S' ms"
    and "controls_ok S cs \<Longrightarrow> controls_ok S' cs"
    and "runs_ok S rs \<Longrightarrow> runs_ok S' rs"
    and "timeline_ok R tm \<Longrightarrow> timeline_ok R' tm"
    and "run_events_ok R vs \<Longrightarrow> run_events_ok R' vs"
    and "inbox_ok S R ib \<Longrightarrow> inbox_ok S' R' ib"
    and "links_ok S ls \<Longrightarrow> links_ok S' ls"
    and "mailbox_ok S R mb \<Longrightarrow> mailbox_ok S' R' mb"
    and "approvals_ok S R ap \<Longrightarrow> approvals_ok S' R' ap"
    and "refs_ok R B fs \<Longrightarrow> refs_ok R' B' fs"
    and "artifacts_ok R afs \<Longrightarrow> artifacts_ok R' afs"
  using assms run_in_mono[OF _ assms(2)] unfolding table_defs by blast+

end
