(* ===== verification/Ledger_Timeline.thy ===== *)
theory Ledger_Timeline
  imports Ledger_Invariant
begin

text \<open>
  The canonical timeline of a thread and the run-event log: \<open>append_control_timeline_locked\<close>,
  \<open>control_append_timeline\<close>, the atomic commit of a message with its timeline item and ledger
  event, the seeding of an old transcript, paging, and the provider transcript rebuilt from the
  timeline.
\<close>

section \<open>Sequence numbers\<close>

text \<open>A row whose sequence number is the stored \<open>next_seq\<close> and that meets no row with its key is
  the next one: at \<open>i64::MAX\<close> the saturated \<open>next_seq\<close> is taken, and the insert fails.\<close>

lemma log_insert:
  assumes g: "gapless t_thread t_seq 1 tm"
    and ep: "\<And>x. x \<in> set tm \<Longrightarrow> t_thread x = t_thread r \<Longrightarrow> t_epoch x = t_epoch r"
    and n: "n = int (count_where (\<lambda>x. t_thread x = t_thread r) tm)" "n \<le> I64_MAX"
    and sq: "t_seq r = min (n + 1) I64_MAX"
    and fresh: "\<And>x. x \<in> set tm \<Longrightarrow>
      \<not> (t_thread x = t_thread r \<and> t_epoch x = t_epoch r \<and> t_seq x = t_seq r)"
  shows "t_seq r = n + 1" and "n + 1 \<le> I64_MAX" and "gapless t_thread t_seq 1 (tm @ [r])"
proof -
  have "n \<noteq> I64_MAX"
  proof
    assume full: "n = I64_MAX"
    then have "t_seq r \<in> {1 ..< 1 + n}" using sq by (simp add: I64_MAX_def)
    then have "t_seq r \<in> t_seq ` {x \<in> set tm. t_thread x = t_thread r}"
      using gapless_seqs[OF g, of "t_thread r"] n(1) by simp
    then obtain x where "x \<in> set tm" "t_thread x = t_thread r" "t_seq x = t_seq r" by auto
    with ep fresh show False by blast
  qed
  with n(2) sq show s: "t_seq r = n + 1" and "n + 1 \<le> I64_MAX" by simp_all
  show "gapless t_thread t_seq 1 (tm @ [r])"
    by (rule gapless_snoc[OF g]) (use s n(1) in simp)
qed

lemma control_epoch:
  assumes "epochs_ok cs tm" and "distinct (map c_thread cs)" and "c \<in> set cs"
    and "x \<in> set tm" and "t_thread x = c_thread c"
  shows "t_epoch x = c_epoch c"
proof -
  from assms(1,4) have "(t_thread x, t_epoch x) \<in> (\<lambda>c. (c_thread c, c_epoch c)) ` set cs"
    unfolding epochs_ok_def by blast
  then obtain d where d: "d \<in> set cs" "c_thread d = t_thread x" "c_epoch d = t_epoch x"
    by auto
  with assms have "d = c" unfolding distinct_map by (metis inj_onD)
  with d show ?thesis by simp
qed

lemma log_append:
  assumes ns: "next_seq_ok cs tm" and ep: "epochs_ok cs tm" and g: "gapless t_thread t_seq 1 tm"
    and dc: "distinct (map c_thread cs)" and c: "c \<in> set cs"
    and r: "t_thread r = c_thread c" "t_epoch r = c_epoch c" "t_seq r = c_next_seq c"
    and fresh: "\<And>x. x \<in> set tm \<Longrightarrow>
      \<not> (t_thread x = t_thread r \<and> t_epoch x = t_epoch r \<and> t_seq x = t_seq r)"
    and f: "\<And>d. c_thread (f d) = c_thread d" "\<And>d. c_epoch (f d) = c_epoch d"
      "\<And>d. c_next_seq (f d) = i64_sat_add (t_seq r) 1"
  shows "gapless t_thread t_seq 1 (tm @ [r])"
    and "next_seq_ok (set_where (\<lambda>d. c_thread d = c_thread c) f cs) (tm @ [r])"
    and "epochs_ok (set_where (\<lambda>d. c_thread d = c_thread c) f cs) (tm @ [r])"
    and "t_seq r = int (count_where (\<lambda>x. t_thread x = t_thread r) tm) + 1"
proof -
  define n where "n = int (count_where (\<lambda>x. t_thread x = t_thread r) tm)"
  have n: "n \<le> I64_MAX" "t_seq r = min (n + 1) I64_MAX"
    using ns c r by (auto simp: next_seq_ok_def n_def Let_def)
  have e: "x \<in> set tm \<Longrightarrow> t_thread x = t_thread r \<Longrightarrow> t_epoch x = t_epoch r" for x
    using control_epoch[OF ep dc c] r by simp
  note li = log_insert[OF g e n_def n fresh]
  show "gapless t_thread t_seq 1 (tm @ [r])" using li by blast
  show s: "t_seq r = int (count_where (\<lambda>x. t_thread x = t_thread r) tm) + 1"
    using li(1) n_def by simp
  have uniq: "d \<in> set cs \<Longrightarrow> c_thread d = c_thread c \<longleftrightarrow> d = c" for d
    using dc c unfolding distinct_map by (metis inj_onD)
  show "next_seq_ok (set_where (\<lambda>d. c_thread d = c_thread c) f cs) (tm @ [r])"
    unfolding next_seq_ok_def
  proof
    fix d assume "d \<in> set (set_where (\<lambda>d. c_thread d = c_thread c) f cs)"
    then consider (other) "d \<in> set cs" "c_thread d \<noteq> c_thread c" | (own) "d = f c"
      using uniq by (auto simp: set_set_where split: if_splits)
    then show "let m = int (count_where (\<lambda>x. t_thread x = c_thread d) (tm @ [r]))
               in m \<le> I64_MAX \<and> c_next_seq d = min (m + 1) I64_MAX"
    proof cases
      case other
      then show ?thesis using ns r(1) by (simp add: next_seq_ok_def)
    next
      case own
      have "i64_sat_add (t_seq r) 1 = min (n + 2) I64_MAX"
        using li(1) n_def n(1) by (simp add: i64_sat_add_def I64_MIN_def I64_MAX_def)
      then show ?thesis
        using own f li(1,2) r(1) n_def by (simp add: Let_def algebra_simps)
    qed
  qed
  show "epochs_ok (set_where (\<lambda>d. c_thread d = c_thread c) f cs) (tm @ [r])"
  proof -
    have "(\<lambda>c. (c_thread c, c_epoch c)) ` set (set_where (\<lambda>d. c_thread d = c_thread c) f cs)
            = (\<lambda>c. (c_thread c, c_epoch c)) ` set cs"
      by (rule image_key_set_where) (simp add: f)
    then show ?thesis
      using ep c r by (auto simp: epochs_ok_def)
  qed
qed

section \<open>Appending\<close>

definition control_of :: "ledger \<Rightarrow> str \<Rightarrow> control_row option" where
  "control_of st t = row_where (\<lambda>c. c_thread c = t) (controls st)"

text \<open>\<open>UPDATE user_thread_control SET next_seq, revision = revision + d, updated_at_ms\<close>.\<close>

definition advance_control :: "str \<Rightarrow> int \<Rightarrow> int \<Rightarrow> int \<Rightarrow> ledger \<Rightarrow> ledger" where
  "advance_control t sq d at st =
     st\<lparr>controls := set_where (\<lambda>c. c_thread c = t)
          (\<lambda>c. c\<lparr>c_next_seq := sq, c_revision := c_revision c + d, c_updated := at\<rparr>) (controls st)\<rparr>"

definition touch_session :: "str \<Rightarrow> int \<Rightarrow> ledger \<Rightarrow> ledger" where
  "touch_session t at st =
     st\<lparr>sessions := set_where (\<lambda>s. s_id s = t) (\<lambda>s. s\<lparr>s_updated := at\<rparr>) (sessions st)\<rparr>"

definition append_control_timeline_locked ::
  "env \<Rightarrow> str \<Rightarrow> str \<Rightarrow> str option \<Rightarrow> str \<Rightarrow> str \<Rightarrow> int \<Rightarrow> timeline_row body" where
  "append_control_timeline_locked e t item run ty data at st =
     ebind (validate_control_json e data ''timeline data'') (\<lambda>_.
     case control_of st t of
       None \<Rightarrow> Inl (Sqlite NoRows)
     | Some c \<Rightarrow>
         let r = \<lparr>t_thread = t, t_epoch = c_epoch c, t_seq = c_next_seq c, t_item = item, t_run = run,
                  t_type = ty, t_data = data, t_created = at\<rparr>
         in ebind (insert_timeline r st) (\<lambda>st1.
            let st2 = touch_session t at (advance_control t (i64_sat_add (c_next_seq c) 1) 1 at st1)
            in ebind (i64_to_u64 (c_next_seq c) ''timeline sequence'') (\<lambda>_. Inr (r, st2))))"

definition control_append_timeline ::
  "env \<Rightarrow> str \<Rightarrow> str \<Rightarrow> str option \<Rightarrow> str \<Rightarrow> str \<Rightarrow> ledger \<Rightarrow> timeline_row outcome" where
  "control_append_timeline e thread_id item_id run ty data =
     checked
       (ebind (required_control_text thread_id ''thread id'') (\<lambda>t.
        ebind (required_control_text item_id ''timeline item id'') (\<lambda>item.
        ebind (required_control_text ty ''timeline item type'') (\<lambda>ty'.
        ebind (validate_control_json e data ''timeline data'') (\<lambda>_. Inr (t, item, ty'))))))
       (\<lambda>(t, item, ty'). transact e (\<lambda>st.
          case control_of st t of
            None \<Rightarrow> Inl (Sqlite NoRows)
          | Some c \<Rightarrow>
              let r = \<lparr>t_thread = t, t_epoch = c_epoch c, t_seq = c_next_seq c, t_item = item,
                       t_run = run, t_type = ty', t_data = data, t_created = now e\<rparr>
              in ebind (insert_timeline r st) (\<lambda>st1.
                 let st2 = advance_control t (i64_sat_add (c_next_seq c) 1) 1 (now e) st1
                 in ebind (i64_to_u64 (c_next_seq c) ''timeline sequence'') (\<lambda>_. Inr (r, st2)))))"

lemmas advance_defs = advance_control_def touch_session_def

lemma control_of_Some:
  "control_of st t = Some c \<Longrightarrow> c \<in> set (controls st) \<and> c_thread c = t"
  unfolding control_of_def by (drule row_where_Some) simp

lemma insert_timeline_ok:
  "insert_timeline r st = Inr st' \<longleftrightarrow>
     st' = st\<lparr>timeline := timeline st @ [r]\<rparr> \<and>
     has_session st (t_thread r) \<and> has_run_opt st (t_run r) \<and>
     (\<forall>x \<in> set (timeline st). t_item x \<noteq> t_item r \<and>
        \<not> (t_thread x = t_thread r \<and> t_epoch x = t_epoch r \<and> t_seq x = t_seq r))"
  by (auto simp: insert_timeline_def insert_row_ok ebind_Inr_iff)

text \<open>One step of a thread's timeline: the row goes in under \<open>next_seq\<close> and the counter follows.\<close>

lemma timeline_step_ok:
  assumes ok: "ledger_ok st" and c: "control_of st t = Some c"
    and r: "t_thread r = t" "t_epoch r = c_epoch c" "t_seq r = c_next_seq c"
    and ins: "insert_timeline r st = Inr st1"
  shows "ledger_ok (advance_control t (i64_sat_add (c_next_seq c) 1) d at st1)"
    and "t_seq r = int (count_where (\<lambda>x. t_thread x = t) (timeline st)) + 1"
proof -
  note cc = control_of_Some[OF c]
  from ins have st1: "st1 = st\<lparr>timeline := timeline st @ [r]\<rparr>"
    and run: "run_in (rids st) (t_run r)"
    and item: "t_item r \<notin> t_item ` set (timeline st)"
    and fresh: "\<And>x. x \<in> set (timeline st) \<Longrightarrow>
      \<not> (t_thread x = t_thread r \<and> t_epoch x = t_epoch r \<and> t_seq x = t_seq r)"
    by (auto simp: insert_timeline_ok has_run_opt_iff)
  let ?f = "\<lambda>x. x\<lparr>c_next_seq := i64_sat_add (c_next_seq c) 1, c_revision := c_revision x + d, c_updated := at\<rparr>"
  have ns: "next_seq_ok (controls st) (timeline st)" and ep: "epochs_ok (controls st) (timeline st)"
    and g: "gapless t_thread t_seq 1 (timeline st)" and dc: "distinct (map c_thread (controls st))"
    using ok by (simp_all add: ledger_ok_def timeline_ok_def controls_ok_def)
  note la = log_append[OF ns ep g dc conjunct1[OF cc], where r = r and f = ?f]
  have la: "gapless t_thread t_seq 1 (timeline st @ [r])"
    "next_seq_ok (set_where (\<lambda>d. c_thread d = t) ?f (controls st)) (timeline st @ [r])"
    "epochs_ok (set_where (\<lambda>d. c_thread d = t) ?f (controls st)) (timeline st @ [r])"
    "t_seq r = int (count_where (\<lambda>x. t_thread x = t) (timeline st)) + 1"
    using la cc r fresh by simp_all
  show "t_seq r = int (count_where (\<lambda>x. t_thread x = t) (timeline st)) + 1" by (rule la(4))
  have co: "controls_ok (sids st) (set_where (\<lambda>d. c_thread d = t) ?f (controls st))"
    using ok by (simp add: ledger_ok_def controls_ok_def)
  have to: "timeline_ok (rids st) (timeline st @ [r])"
    using ok la(1) item run by (simp add: ledger_ok_def timeline_ok_def)
  show "ledger_ok (advance_control t (i64_sat_add (c_next_seq c) 1) d at st1)"
    using ok la(2,3) co to by (simp add: ledger_ok_def advance_control_def st1)
qed

lemma touch_session_ok [simp]: "ledger_ok (touch_session t at st) \<longleftrightarrow> ledger_ok st"
  by (simp add: ledger_ok_def touch_session_def sessions_ok_def)

section \<open>The run-event log and message rows\<close>

definition next_event_seq :: "ledger \<Rightarrow> str \<Rightarrow> int" where
  "next_event_seq st r =
     coalesce (sql_max (map e_seq (filter (\<lambda>v. e_run v = r) (run_events st)))) 0 + 1"

definition next_message_index :: "ledger \<Rightarrow> str \<Rightarrow> int" where
  "next_message_index st t =
     coalesce (sql_max (map m_index (filter (\<lambda>m. m_session m = t) (messages st)))) (- 1) + 1"

definition control_append_run_event ::
  "env \<Rightarrow> str \<Rightarrow> str \<Rightarrow> str option \<Rightarrow> str \<Rightarrow> str \<Rightarrow> ledger \<Rightarrow> event_row outcome" where
  "control_append_run_event e run_id event_id step ty data =
     checked
       (ebind (required_control_text run_id ''run id'') (\<lambda>r.
        ebind (required_control_text event_id ''run event id'') (\<lambda>v.
        ebind (required_control_text ty ''run event type'') (\<lambda>ty'.
        ebind (validate_control_json e data ''run event'') (\<lambda>_. Inr (r, v, ty'))))))
       (\<lambda>(r, v, ty'). transact e (\<lambda>st.
          let row = \<lparr>e_run = r, e_seq = next_event_seq st r, e_id = v, e_step = step, e_type = ty',
                     e_data = data, e_created = now e\<rparr>
          in ebind (insert_run_event row st) (\<lambda>st'.
             ebind (i64_to_u64 (e_seq row) ''run event sequence'') (\<lambda>_. Inr (row, st')))))"

text \<open>\<open>json_extract(message_json, '$.key') = text\<close>: only a JSON string equals a text.\<close>

definition json_text :: "env \<Rightarrow> str \<Rightarrow> str \<Rightarrow> str option" where
  "json_text e raw k =
     (case env_parse e raw of Inl _ \<Rightarrow> None | Inr v \<Rightarrow> Option.bind (jget k v) as_str)"

text \<open>The message row of a commit: adopted in place when its id is there already, else appended.\<close>

definition write_projection :: "env \<Rightarrow> bool \<Rightarrow> str \<Rightarrow> str \<Rightarrow> str \<Rightarrow> ledger \<Rightarrow> error + ledger" where
  "write_projection e adopt t item msg st =
     (case (if adopt
            then List.find (\<lambda>m. m_session m = t \<and> json_text e (m_json m) ''id'' = Some item)
                   (order_by m_index (messages st))
            else None) of
        Some m \<Rightarrow> Inr (st\<lparr>messages :=
                    set_where (\<lambda>x. m_session x = t \<and> m_index x = m_index m) (\<lambda>x. x\<lparr>m_json := msg\<rparr>)
                      (messages st)\<rparr>)
      | None \<Rightarrow> insert_message \<lparr>m_session = t, m_index = next_message_index st t, m_json = msg\<rparr> st)"

definition commit_message_body ::
  "env \<Rightarrow> str \<Rightarrow> str \<Rightarrow> str \<Rightarrow> str \<Rightarrow> str \<Rightarrow> str option \<Rightarrow> str \<Rightarrow> str \<Rightarrow> bool
     \<Rightarrow> (timeline_row \<times> event_row) body" where
  "commit_message_body e t r item msg ev step ty data adopt st =
     ebind (write_projection e adopt t item msg st) (\<lambda>st1.
     case control_of st1 t of
       None \<Rightarrow> Inl (Sqlite NoRows)
     | Some c \<Rightarrow>
         let tr = \<lparr>t_thread = t, t_epoch = c_epoch c, t_seq = c_next_seq c, t_item = item,
                   t_run = Some r, t_type = ''message'', t_data = msg, t_created = now e\<rparr>
         in ebind (insert_timeline tr st1) (\<lambda>st2.
            let er = \<lparr>e_run = r, e_seq = next_event_seq st2 r, e_id = ev, e_step = step,
                      e_type = ty, e_data = data, e_created = now e\<rparr>
            in ebind (insert_run_event er st2) (\<lambda>st3.
               let st4 = touch_session t (now e)
                           (advance_control t (i64_sat_add (c_next_seq c) 1) 2 (now e) st3)
               in ebind (i64_to_u64 (t_seq tr) ''timeline sequence'') (\<lambda>_.
                  ebind (i64_to_u64 (e_seq er) ''run event sequence'') (\<lambda>_. Inr ((tr, er), st4))))))"

definition commit_message_inner ::
  "env \<Rightarrow> str \<Rightarrow> str \<Rightarrow> str \<Rightarrow> str \<Rightarrow> str \<Rightarrow> str option \<Rightarrow> str \<Rightarrow> str \<Rightarrow> bool \<Rightarrow> ledger
     \<Rightarrow> (timeline_row \<times> event_row) outcome" where
  "commit_message_inner e thread_id run_id item_id msg event_id step ty data adopt =
     checked
       (ebind (required_control_text thread_id ''thread id'') (\<lambda>t.
        ebind (required_control_text run_id ''run id'') (\<lambda>r.
        ebind (required_control_text item_id ''timeline item id'') (\<lambda>item.
        ebind (required_control_text event_id ''run event id'') (\<lambda>ev.
        ebind (required_control_text ty ''run event type'') (\<lambda>ty'.
        ebind (validate_control_json e msg ''message projection'') (\<lambda>_.
        ebind (validate_control_json e data ''run event'') (\<lambda>_. Inr (t, r, item, ev, ty')))))))))
       (\<lambda>(t, r, item, ev, ty'). transact e (commit_message_body e t r item msg ev step ty' data adopt))"

definition control_commit_message_projection_and_event ::
  "env \<Rightarrow> str \<Rightarrow> str \<Rightarrow> str \<Rightarrow> str \<Rightarrow> str \<Rightarrow> str option \<Rightarrow> str \<Rightarrow> str \<Rightarrow> ledger
     \<Rightarrow> (timeline_row \<times> event_row) outcome" where
  "control_commit_message_projection_and_event e t r item msg ev step ty data =
     commit_message_inner e t r item msg ev step ty data False"

definition control_adopt_message_projection_and_event ::
  "env \<Rightarrow> str \<Rightarrow> str \<Rightarrow> str \<Rightarrow> str \<Rightarrow> str \<Rightarrow> str option \<Rightarrow> str \<Rightarrow> str \<Rightarrow> ledger
     \<Rightarrow> (timeline_row \<times> event_row) outcome" where
  "control_adopt_message_projection_and_event e t r item msg ev step ty data =
     commit_message_inner e t r item msg ev step ty data True"

lemma insert_run_event_ok:
  "insert_run_event r st = Inr st' \<longleftrightarrow>
     st' = st\<lparr>run_events := run_events st @ [r]\<rparr> \<and> has_run st (e_run r) \<and>
     (\<forall>x \<in> set (run_events st). e_id x \<noteq> e_id r \<and> \<not> (e_run x = e_run r \<and> e_seq x = e_seq r))"
  by (auto simp: insert_run_event_def insert_row_ok ebind_Inr_iff)

lemma insert_message_ok:
  "insert_message r st = Inr st' \<longleftrightarrow>
     st' = st\<lparr>messages := messages st @ [r]\<rparr> \<and> has_session st (m_session r) \<and>
     (\<forall>x \<in> set (messages st). \<not> (m_session x = m_session r \<and> m_index x = m_index r))"
  by (auto simp: insert_message_def insert_row_ok ebind_Inr_iff)

lemma run_event_step_ok:
  assumes ok: "ledger_ok st" and sq: "e_seq r = next_event_seq st (e_run r)"
    and ins: "insert_run_event r st = Inr st1"
  shows "ledger_ok st1"
    and "e_seq r = int (count_where (\<lambda>v. e_run v = e_run r) (run_events st)) + 1"
proof -
  have g: "gapless e_run e_seq 1 (run_events st)"
    using ok by (simp add: ledger_ok_def run_events_ok_def)
  show s: "e_seq r = int (count_where (\<lambda>v. e_run v = e_run r) (run_events st)) + 1"
    using gapless_next[OF g, of "e_run r"] sq by (simp add: next_event_seq_def)
  have "gapless e_run e_seq 1 (run_events st @ [r])"
    by (rule gapless_snoc[OF g]) (simp add: s)
  with ok ins show "ledger_ok st1"
    by (auto simp: insert_run_event_ok ledger_ok_def run_events_ok_def has_run_iff)
qed

lemma message_step_ok:
  assumes ok: "ledger_ok st" and ix: "m_index r = next_message_index st (m_session r)"
    and ins: "insert_message r st = Inr st1"
  shows "ledger_ok st1"
    and "m_index r = int (count_where (\<lambda>m. m_session m = m_session r) (messages st))"
proof -
  have g: "gapless m_session m_index 0 (messages st)"
    using ok by (simp add: ledger_ok_def messages_ok_def)
  show s: "m_index r = int (count_where (\<lambda>m. m_session m = m_session r) (messages st))"
    using gapless_next[OF g, of "m_session r"] ix by (simp add: next_message_index_def)
  have "gapless m_session m_index 0 (messages st @ [r])"
    by (rule gapless_snoc[OF g]) (simp add: s)
  with ok ins show "ledger_ok st1"
    by (auto simp: insert_message_ok ledger_ok_def messages_ok_def has_session_iff)
qed

lemma rewrite_message_ok:
  assumes "ledger_ok st"
  shows "ledger_ok (st\<lparr>messages := set_where p (\<lambda>x. x\<lparr>m_json := msg\<rparr>) (messages st)\<rparr>)"
  using assms by (auto simp: ledger_ok_def messages_ok_def intro: gapless_set_where)

text \<open>What a write of a message row leaves alone.\<close>

lemma write_projection_frame:
  assumes "write_projection e adopt t item msg st = Inr st1"
  obtains ms where "st1 = st\<lparr>messages := ms\<rparr>"
  using assms by (auto simp: write_projection_def insert_message_ok split: option.splits)

lemma write_projection_ok:
  assumes "ledger_ok st" and "write_projection e adopt t item msg st = Inr st1"
  shows "ledger_ok st1"
proof (cases "if adopt
    then List.find (\<lambda>m. m_session m = t \<and> json_text e (m_json m) ''id'' = Some item)
           (order_by m_index (messages st))
    else None")
  case None
  with assms(2) have "insert_message \<lparr>m_session = t, m_index = next_message_index st t, m_json = msg\<rparr> st
      = Inr st1"
    by (simp add: write_projection_def)
  from message_step_ok(1)[OF assms(1) _ this] show ?thesis by simp
next
  case (Some m)
  with assms show ?thesis
    by (auto simp: write_projection_def rewrite_message_ok)
qed

lemma append_locked_ok:
  assumes "append_control_timeline_locked e t item run ty data at st = Inr (r, st')"
  obtains c st1 where "control_of st t = Some c" "insert_timeline r st = Inr st1"
    "r = \<lparr>t_thread = t, t_epoch = c_epoch c, t_seq = c_next_seq c, t_item = item, t_run = run,
          t_type = ty, t_data = data, t_created = at\<rparr>"
    "st' = touch_session t at (advance_control t (i64_sat_add (c_next_seq c) 1) 1 at st1)"
  using assms
  by (auto simp: append_control_timeline_locked_def Let_def split: option.splits)

lemma append_locked_keeps:
  assumes "ledger_ok st" and "append_control_timeline_locked e t item run ty data at st = Inr (r, st')"
  shows "ledger_ok st'"
  using assms(2)
proof (cases rule: append_locked_ok)
  case (1 c st1)
  show ?thesis
    using timeline_step_ok(1)[OF assms(1) 1(1) _ _ _ 1(2)] 1(3,4) by simp
qed

section \<open>Commit and seed keep the invariant\<close>

lemma commit_body_ok:
  assumes "commit_message_body e t r item msg ev step ty data adopt st = Inr ((tr, er), st')"
  obtains st1 st2 st3 c where "write_projection e adopt t item msg st = Inr st1"
    "control_of st1 t = Some c"
    "tr = \<lparr>t_thread = t, t_epoch = c_epoch c, t_seq = c_next_seq c, t_item = item, t_run = Some r,
           t_type = ''message'', t_data = msg, t_created = now e\<rparr>"
    "insert_timeline tr st1 = Inr st2"
    "er = \<lparr>e_run = r, e_seq = next_event_seq st2 r, e_id = ev, e_step = step, e_type = ty,
           e_data = data, e_created = now e\<rparr>"
    "insert_run_event er st2 = Inr st3"
    "st' = touch_session t (now e) (advance_control t (i64_sat_add (c_next_seq c) 1) 2 (now e) st3)"
  using assms by (auto simp: commit_message_body_def Let_def split: option.splits)

lemma commit_body_keeps:
  assumes ok: "ledger_ok st"
    and body: "commit_message_body e t r item msg ev step ty data adopt st = Inr ((tr, er), st')"
  shows "ledger_ok st'"
  using body
proof (cases rule: commit_body_ok)
  case (1 st1 st2 st3 c)
  have ok1: "ledger_ok st1" by (rule write_projection_ok[OF ok 1(1)])
  let ?adv = "advance_control t (i64_sat_add (c_next_seq c) 1) 2 (now e)"
  have ok2: "ledger_ok (?adv st2)"
    by (rule timeline_step_ok(1)[OF ok1 1(2) _ _ _ 1(4)]) (simp_all add: 1(3))
  have "insert_run_event er (?adv st2) = Inr (?adv st3)"
    using 1(6) by (auto simp: insert_run_event_ok advance_control_def has_run_def)
  moreover have "e_seq er = next_event_seq (?adv st2) (e_run er)"
    using 1(5) by (simp add: next_event_seq_def advance_control_def)
  ultimately have "ledger_ok (?adv st3)"
    by (rule run_event_step_ok(1)[OF ok2, rotated])
  then show ?thesis by (simp add: 1(7))
qed

text \<open>
  \<open>control_seed_message_timeline_if_empty\<close>: an old transcript becomes the first items of an
  empty timeline. The revision does not move.
\<close>

fun seed_rows :: "str \<Rightarrow> str \<Rightarrow> (str \<times> str \<times> int) list \<Rightarrow> int \<Rightarrow> ledger \<Rightarrow> error + (int \<times> ledger)" where
  "seed_rows t ep [] sq st = Inr (sq, st)"
| "seed_rows t ep ((item, data, at) # ms) sq st =
     ebind (insert_timeline \<lparr>t_thread = t, t_epoch = ep, t_seq = sq, t_item = item, t_run = None,
              t_type = ''message'', t_data = data, t_created = at\<rparr> st)
       (seed_rows t ep ms (i64_sat_add sq 1))"

definition seed_body :: "str \<Rightarrow> (str \<times> str \<times> int) list \<Rightarrow> nat body" where
  "seed_body t ms st =
     (case control_of st t of
        None \<Rightarrow> Inl (Sqlite NoRows)
      | Some c \<Rightarrow>
          if list_ex (\<lambda>r. t_thread r = t \<and> t_epoch r = c_epoch c) (timeline st) \<or> ms = []
          then Inr (0, st)
          else ebind (seed_rows t (c_epoch c) ms (c_next_seq c) st) (\<lambda>(sq, st').
            Inr (length ms,
                 st'\<lparr>controls := set_where (\<lambda>c. c_thread c = t) (\<lambda>c. c\<lparr>c_next_seq := sq\<rparr>) (controls st')\<rparr>)))"

fun check_seed :: "env \<Rightarrow> (str \<times> str \<times> int) list \<Rightarrow> error + unit" where
  "check_seed e [] = Inr ()"
| "check_seed e ((item, data, at) # ms) =
     ebind (required_control_text item ''timeline item id'') (\<lambda>_.
     ebind (validate_control_json e data ''timeline data'') (\<lambda>_. check_seed e ms))"

definition control_seed_message_timeline_if_empty ::
  "env \<Rightarrow> str \<Rightarrow> (str \<times> str \<times> int) list \<Rightarrow> ledger \<Rightarrow> nat outcome" where
  "control_seed_message_timeline_if_empty e thread_id ms =
     checked
       (ebind (required_control_text thread_id ''thread id'') (\<lambda>t.
        ebind (check_seed e ms) (\<lambda>_. Inr t)))
       (\<lambda>t. transact e (seed_body t ms))"

lemma seed_rows_frame:
  "seed_rows t ep ms sq st = Inr (sq', st') \<Longrightarrow>
     \<exists>rs. st' = st\<lparr>timeline := timeline st @ rs\<rparr> \<and> length rs = length ms \<and>
       (\<forall>r \<in> set rs. t_thread r = t \<and> t_epoch r = ep \<and> t_run r = None)"
proof (induction t ep ms sq st rule: seed_rows.induct)
  case (1 t ep sq st)
  then show ?case by auto
next
  case (2 t ep item data at ms sq st)
  let ?r = "\<lparr>t_thread = t, t_epoch = ep, t_seq = sq, t_item = item, t_run = None,
              t_type = ''message'', t_data = data, t_created = at\<rparr>"
  from 2(2) obtain st1 where st1: "insert_timeline ?r st = Inr st1"
    and rest: "seed_rows t ep ms (i64_sat_add sq 1) st1 = Inr (sq', st')"
    by auto
  from 2(1)[OF st1 rest] obtain rs where "st' = st1\<lparr>timeline := timeline st1 @ rs\<rparr>"
    "length rs = length ms" "\<forall>r \<in> set rs. t_thread r = t \<and> t_epoch r = ep \<and> t_run r = None"
    by blast
  then show ?case
    using st1 by (intro exI[of _ "?r # rs"]) (auto simp: insert_timeline_ok)
qed

lemma seed_rows_log:
  assumes "seed_rows t ep ms sq st = Inr (sq', st')"
    and "gapless t_thread t_seq 1 (timeline st)" and "distinct (map t_item (timeline st))"
    and "\<And>x. x \<in> set (timeline st) \<Longrightarrow> t_thread x = t \<Longrightarrow> t_epoch x = ep"
    and "int (count_where (\<lambda>r. t_thread r = t) (timeline st)) \<le> I64_MAX"
    and "sq = min (int (count_where (\<lambda>r. t_thread r = t) (timeline st)) + 1) I64_MAX"
  shows "gapless t_thread t_seq 1 (timeline st') \<and> distinct (map t_item (timeline st')) \<and>
    int (count_where (\<lambda>r. t_thread r = t) (timeline st')) \<le> I64_MAX \<and>
    sq' = min (int (count_where (\<lambda>r. t_thread r = t) (timeline st')) + 1) I64_MAX"
  using assms
proof (induction t ep ms sq st rule: seed_rows.induct)
  case (1 t ep sq st)
  from 1(1) have "sq' = sq" "st' = st" by auto
  then show ?case using 1(2,3,5,6) by blast
next
  case (2 t ep item data at ms sq st)
  let ?r = "\<lparr>t_thread = t, t_epoch = ep, t_seq = sq, t_item = item, t_run = None,
              t_type = ''message'', t_data = data, t_created = at\<rparr>"
  let ?n = "int (count_where (\<lambda>r. t_thread r = t) (timeline st))"
  from 2(2) obtain st1 where st1: "insert_timeline ?r st = Inr st1"
    and rest: "seed_rows t ep ms (i64_sat_add sq 1) st1 = Inr (sq', st')"
    by auto
  then have tm: "timeline st1 = timeline st @ [?r]"
    and fresh: "\<And>x. x \<in> set (timeline st) \<Longrightarrow> t_item x \<noteq> item \<and>
      \<not> (t_thread x = t_thread ?r \<and> t_epoch x = t_epoch ?r \<and> t_seq x = t_seq ?r)"
    by (auto simp: insert_timeline_ok)
  have li: "sq = ?n + 1" "?n + 1 \<le> I64_MAX" "gapless t_thread t_seq 1 (timeline st @ [?r])"
  proof -
    have ep': "\<And>x. x \<in> set (timeline st) \<Longrightarrow> t_thread x = t_thread ?r \<Longrightarrow> t_epoch x = t_epoch ?r"
      using 2(5) by simp
    have nn: "?n = int (count_where (\<lambda>x. t_thread x = t_thread ?r) (timeline st))" by simp
    have sq: "t_seq ?r = min (?n + 1) I64_MAX" by (simp add: 2(7)[symmetric])
    note l = log_insert[OF 2(3) ep' nn 2(6) sq conjunct2[OF fresh]]
    show "sq = ?n + 1" using l(1) by simp
    show "?n + 1 \<le> I64_MAX" by (rule l(2))
    show "gapless t_thread t_seq 1 (timeline st @ [?r])" by (rule l(3))
  qed
  have "i64_sat_add sq 1 = min (?n + 2) I64_MAX"
    using li by (simp add: i64_sat_add_def I64_MIN_def I64_MAX_def)
  then have sq': "i64_sat_add sq 1 = min (int (count_where (\<lambda>r. t_thread r = t) (timeline st1)) + 1) I64_MAX"
    by (simp add: tm algebra_simps)
  show ?case
  proof (rule 2(1)[OF st1 rest _ _ _ _ sq'])
    show "gapless t_thread t_seq 1 (timeline st1)" using li(3) by (simp add: tm)
    show "distinct (map t_item (timeline st1))" using 2(4) fresh by (auto simp: tm)
    show "t_epoch x = ep" if "x \<in> set (timeline st1)" "t_thread x = t" for x
    proof (cases "x = ?r")
      case False
      with that show ?thesis using 2(5) by (simp add: tm)
    qed simp
    show "int (count_where (\<lambda>r. t_thread r = t) (timeline st1)) \<le> I64_MAX"
      using li(2) by (simp add: tm)
  qed
qed

lemma seed_body_keeps:
  assumes ok: "ledger_ok st" and body: "seed_body t ms st = Inr (n, st')"
  shows "ledger_ok st'"
proof (cases "st' = st")
  case True
  with ok show ?thesis by simp
next
  case False
  from body False obtain c sq st1 where c: "control_of st t = Some c"
    and sd: "seed_rows t (c_epoch c) ms (c_next_seq c) st = Inr (sq, st1)"
    and st': "st' = st1\<lparr>controls := set_where (\<lambda>c. c_thread c = t) (\<lambda>c. c\<lparr>c_next_seq := sq\<rparr>) (controls st1)\<rparr>"
    by (auto simp: seed_body_def split: option.splits if_splits)
  note cc = control_of_Some[OF c]
  from seed_rows_frame[OF sd] obtain rs where st1: "st1 = st\<lparr>timeline := timeline st @ rs\<rparr>"
    and rs: "\<And>r. r \<in> set rs \<Longrightarrow> t_thread r = t \<and> t_epoch r = c_epoch c \<and> t_run r = None"
    by blast
  have ns: "next_seq_ok (controls st) (timeline st)" and ep: "epochs_ok (controls st) (timeline st)"
    and g: "gapless t_thread t_seq 1 (timeline st)" and d: "distinct (map t_item (timeline st))"
    and dc: "distinct (map c_thread (controls st))"
    using ok by (simp_all add: ledger_ok_def timeline_ok_def controls_ok_def)
  have log: "gapless t_thread t_seq 1 (timeline st1) \<and> distinct (map t_item (timeline st1)) \<and>
    int (count_where (\<lambda>r. t_thread r = t) (timeline st1)) \<le> I64_MAX \<and>
    sq = min (int (count_where (\<lambda>r. t_thread r = t) (timeline st1)) + 1) I64_MAX"
  proof (rule seed_rows_log[OF sd g d])
    show "\<And>x. x \<in> set (timeline st) \<Longrightarrow> t_thread x = t \<Longrightarrow> t_epoch x = c_epoch c"
      using control_epoch[OF ep dc conjunct1[OF cc]] cc by simp
  qed (use ns cc in \<open>auto simp: next_seq_ok_def Let_def\<close>)
  let ?cs = "set_where (\<lambda>c. c_thread c = t) (\<lambda>c. c\<lparr>c_next_seq := sq\<rparr>) (controls st)"
  have other: "t' \<noteq> t \<Longrightarrow> count_where (\<lambda>r. t_thread r = t') (timeline st1)
      = count_where (\<lambda>r. t_thread r = t') (timeline st)" for t'
    using rs by (simp add: st1 count_where_zero)
  have "next_seq_ok ?cs (timeline st1)"
    using ns log other by (auto simp: next_seq_ok_def set_set_where Let_def)
  moreover have "epochs_ok ?cs (timeline st1)"
    using ep rs cc by (auto simp: epochs_ok_def st1)
  moreover have "timeline_ok (rids st) (timeline st1)"
    using ok log rs by (auto simp: ledger_ok_def timeline_ok_def st1)
  moreover have "controls_ok (sids st) ?cs"
    using ok by (simp add: ledger_ok_def controls_ok_def)
  ultimately show ?thesis
    using ok by (simp add: ledger_ok_def st' st1)
qed

section \<open>Reading\<close>

definition clamp :: "int \<Rightarrow> int \<Rightarrow> int \<Rightarrow> int" where
  "clamp lo hi x = max lo (min hi x)"

definition limit_rows :: "int \<Rightarrow> 'r list \<Rightarrow> 'r list" where
  "limit_rows n t = take (nat n) t"

text \<open>\<open>control_timeline_from_row\<close> reads a negative \<open>seq\<close> as 0.\<close>

definition timeline_from_row :: "timeline_row \<Rightarrow> timeline_row" where
  "timeline_from_row r = r\<lparr>t_seq := max (t_seq r) 0\<rparr>"

definition thread_log :: "ledger \<Rightarrow> str \<Rightarrow> str \<Rightarrow> timeline_row list" where
  "thread_log st t ep =
     order_by t_seq (filter (\<lambda>r. t_thread r = t \<and> t_epoch r = ep) (timeline st))"

text \<open>The last \<open>n\<close> rows, in ascending order: \<open>ORDER BY seq DESC LIMIT n\<close>, then \<open>reverse()\<close>.\<close>

definition last_rows :: "int \<Rightarrow> 'r list \<Rightarrow> 'r list" where
  "last_rows n t = rev (limit_rows n (rev t))"

definition page_of_rows :: "str \<Rightarrow> timeline_row list \<Rightarrow> timeline_row list \<Rightarrow> error + timeline_page option" where
  "page_of_rows ep log rows =
     (let items = map timeline_from_row rows;
          first_seq = (case items of [] \<Rightarrow> None | r # _ \<Rightarrow> Some (t_seq r));
          last_seq = (case rev items of [] \<Rightarrow> None | r # _ \<Rightarrow> Some (t_seq r))
      in ebind (case (sql_min (map t_seq log), first_seq) of
                  (Some m, Some f) \<Rightarrow> ebind (i64_to_u64 m ''timeline bound'') (\<lambda>m'. Inr (m' < f))
                | _ \<Rightarrow> Inr False) (\<lambda>older.
         ebind (case (sql_max (map t_seq log), last_seq) of
                  (Some m, Some l) \<Rightarrow> ebind (i64_to_u64 m ''timeline bound'') (\<lambda>m'. Inr (l < m'))
                | _ \<Rightarrow> Inr False) (\<lambda>newer.
         Inr (Some \<lparr>pg_epoch = ep, pg_first = first_seq, pg_last = last_seq,
                    pg_older = older, pg_newer = newer, pg_items = items\<rparr>))))"

definition query_control_timeline_page ::
  "ledger \<Rightarrow> str \<Rightarrow> int option \<Rightarrow> int option \<Rightarrow> bool \<Rightarrow> int \<Rightarrow> error + timeline_page option" where
  "query_control_timeline_page st t after before tail limit =
     (case control_of st t of
        None \<Rightarrow> Inr None
      | Some c \<Rightarrow>
          let log = thread_log st t (c_epoch c) in
          ebind (case (after, before) of
                   (Some a, _) \<Rightarrow> ebind (u64_to_i64 a) (\<lambda>a'.
                      Inr (limit_rows limit (filter (\<lambda>r. a' < t_seq r) log)))
                 | (None, Some b) \<Rightarrow> ebind (u64_to_i64 b) (\<lambda>b'.
                      Inr (last_rows limit (filter (\<lambda>r. t_seq r < b') log)))
                 | (None, None) \<Rightarrow>
                      Inr (if tail then last_rows limit log else limit_rows limit log))
            (page_of_rows (c_epoch c) log))"

text \<open>A pooled reader may still see an older snapshot; a miss there is asked again of the writer.\<close>

definition control_timeline_page ::
  "ledger \<Rightarrow> ledger \<Rightarrow> str \<Rightarrow> int option \<Rightarrow> int option \<Rightarrow> bool \<Rightarrow> int
     \<Rightarrow> error + timeline_page option" where
  "control_timeline_page snap st thread_id after before tail limit =
     ebind (required_control_text thread_id ''thread id'') (\<lambda>t.
       if after \<noteq> None \<and> before \<noteq> None
       then Inl (InvalidRequest ''timeline reads cannot combine after_seq and before_seq'')
       else let n = clamp 1 500 limit in
         ebind (query_control_timeline_page snap t after before tail n) (\<lambda>page.
           case page of
             Some p \<Rightarrow> Inr (Some p)
           | None \<Rightarrow> query_control_timeline_page st t after before tail n))"

definition control_timeline_max_seq :: "ledger \<Rightarrow> str \<Rightarrow> error + (str \<times> int) option" where
  "control_timeline_max_seq st thread_id =
     ebind (required_control_text thread_id ''thread id'') (\<lambda>t.
       case control_of st t of
         None \<Rightarrow> Inr None
       | Some c \<Rightarrow> ebind (i64_to_u64 (max (c_next_seq c - 1) 0) ''timeline sequence'') (\<lambda>n.
           Inr (Some (c_epoch c, n))))"

definition control_visible_timeline_messages ::
  "ledger \<Rightarrow> str \<Rightarrow> str \<Rightarrow> int \<Rightarrow> int option \<Rightarrow> int \<Rightarrow> error + timeline_row list" where
  "control_visible_timeline_messages st thread_id epoch max_seq after limit =
     ebind (required_control_text thread_id ''thread id'') (\<lambda>t.
     ebind (required_control_text epoch ''thread epoch'') (\<lambda>ep.
     ebind (u64_to_i64 max_seq) (\<lambda>hi.
     ebind (u64_to_i64 (coalesce after 0)) (\<lambda>lo.
       Inr (map timeline_from_row (limit_rows (clamp 1 500 limit)
         (filter (\<lambda>r. t_type r = ''message'' \<and> t_seq r \<le> hi \<and> lo < t_seq r)
            (thread_log st t ep))))))))"

definition control_run_events ::
  "ledger \<Rightarrow> str \<Rightarrow> int option \<Rightarrow> int \<Rightarrow> error + event_row list" where
  "control_run_events st run_id after limit =
     ebind (required_control_text run_id ''run id'') (\<lambda>r.
     ebind (u64_to_i64 (coalesce after 0)) (\<lambda>lo.
       Inr (limit_rows (clamp 1 500 limit)
         (order_by e_seq (filter (\<lambda>v. e_run v = r \<and> lo < e_seq v) (run_events st))))))"

definition control_run_events_for_step :: "ledger \<Rightarrow> str \<Rightarrow> str \<Rightarrow> error + event_row list" where
  "control_run_events_for_step st run_id step_id =
     ebind (required_control_text run_id ''run id'') (\<lambda>r.
     ebind (required_control_text step_id ''step id'') (\<lambda>s.
       Inr (order_by e_seq (filter (\<lambda>v. e_run v = r \<and> e_step v = Some s) (run_events st)))))"

definition control_run_events_by_types :: "ledger \<Rightarrow> str \<Rightarrow> str list \<Rightarrow> error + event_row list" where
  "control_run_events_by_types st run_id tys =
     ebind (required_control_text run_id ''run id'') (\<lambda>r.
       Inr (order_by e_seq (concat (map (\<lambda>ty.
         order_by e_seq (filter (\<lambda>v. e_run v = r \<and> e_type v = ty) (run_events st))) tys))))"

definition control_messages :: "ledger \<Rightarrow> str \<Rightarrow> error + str list" where
  "control_messages st thread_id =
     ebind (required_control_text thread_id ''thread id'') (\<lambda>t.
       Inr (map m_json (order_by m_index (filter (\<lambda>m. m_session m = t) (messages st)))))"

text \<open>\<open>control_projected_messages\<close>: the provider transcript, a fold over the message items of the
  timeline in sequence order. A message with a known id replaces it in place.\<close>

fun put_projected :: "str \<Rightarrow> str \<Rightarrow> (str \<times> str) list \<Rightarrow> (str \<times> str) list" where
  "put_projected i data [] = [(i, data)]"
| "put_projected i data ((j, old) # ms) =
     (if j = i then (j, data) # ms else (j, old) # put_projected i data ms)"

fun project_step :: "env \<Rightarrow> timeline_row \<Rightarrow> (str \<times> str) list \<Rightarrow> error + (str \<times> str) list" where
  "project_step e r ms =
     (case env_parse e (t_data r) of
        Inl err \<Rightarrow> Inl (Other (''invalid timeline message JSON: '' @ err))
      | Inr data \<Rightarrow>
          if t_type r = ''message''
          then (case Option.bind (jget ''id'' data) as_str of
                  Some i \<Rightarrow> Inr (put_projected i (t_data r) ms)
                | None \<Rightarrow> Inr ms)
          else (case Option.bind (jget ''message_id'' data) as_str of
                  Some i \<Rightarrow> Inr (filter (\<lambda>m. fst m \<noteq> i) ms)
                | None \<Rightarrow> Inr ms))"

definition control_projected_messages :: "env \<Rightarrow> ledger \<Rightarrow> str \<Rightarrow> error + str list" where
  "control_projected_messages e st thread_id =
     ebind (required_control_text thread_id ''thread id'') (\<lambda>t.
     ebind (efold (project_step e)
              (order_by t_seq (filter (\<lambda>r. t_thread r = t
                  \<and> (t_type r = ''message'' \<or> t_type r = ''message_deleted'')) (timeline st))) [])
       (\<lambda>ms. Inr (map snd ms)))"

end
