(* ===== verification/Ledger_Threads.thy ===== *)
theory Ledger_Threads
  imports Ledger_Timeline
begin

text \<open>
  Threads of the control ledger: creation with an initial transcript, revision-checked updates,
  the compare-and-set of an account-runtime binding, deletion, reciprocal links, and the
  compatibility message rows.
\<close>

section \<open>Lookup\<close>

text \<open>\<open>INSERT OR IGNORE INTO user_thread_control SELECT ... FROM user_sessions\<close>: a session without a
  control row gets one, with a random epoch.\<close>

definition ensure_controls :: "env \<Rightarrow> (session_row \<Rightarrow> bool) \<Rightarrow> ledger \<Rightarrow> ledger" where
  "ensure_controls e p st =
     st\<lparr>controls := controls st @
          map (\<lambda>s. \<lparr>c_thread = s_id s, c_epoch = random_epoch e (s_id s), c_revision = 0,
                    c_next_seq = 1, c_updated = s_updated s\<rparr>)
            (filter (\<lambda>s. p s \<and> \<not> list_ex (\<lambda>c. c_thread c = s_id s) (controls st)) (sessions st))\<rparr>"

definition control_thread_from_row :: "session_row \<Rightarrow> control_row \<Rightarrow> thread_rec" where
  "control_thread_from_row s c =
     \<lparr>th_id = s_id s, th_json = s_json s, th_revision = max (c_revision c) 0, th_epoch = c_epoch c,
      th_updated = s_updated s\<rparr>"

definition session_of :: "ledger \<Rightarrow> str \<Rightarrow> session_row option" where
  "session_of st t = row_where (\<lambda>s. s_id s = t) (sessions st)"

definition thread_row :: "ledger \<Rightarrow> str \<Rightarrow> thread_rec option" where
  "thread_row st t =
     (case (session_of st t, control_of st t) of
        (Some s, Some c) \<Rightarrow> Some (control_thread_from_row s c)
      | _ \<Rightarrow> None)"

definition control_thread :: "env \<Rightarrow> str \<Rightarrow> ledger \<Rightarrow> thread_rec option outcome" where
  "control_thread e thread_id =
     checked (required_control_text thread_id ''thread id'')
       (\<lambda>t. transact e (\<lambda>st.
          let st' = ensure_controls e (\<lambda>s. s_id s = t) st in Inr (thread_row st' t, st')))"

definition join_threads :: "ledger \<Rightarrow> (session_row \<Rightarrow> bool) \<Rightarrow> thread_rec list" where
  "join_threads st p =
     map (\<lambda>(s, c). control_thread_from_row s c)
       (order_by (\<lambda>(s, c). (s_order s, - s_updated s))
         (concat (map (\<lambda>s. map (\<lambda>c. (s, c)) (filter (\<lambda>c. c_thread c = s_id s) (controls st)))
            (filter p (sessions st)))))"

definition control_threads :: "env \<Rightarrow> ledger \<Rightarrow> thread_rec list outcome" where
  "control_threads e = transact e (\<lambda>st.
     let st' = ensure_controls e (\<lambda>_. True) st in Inr (join_threads st' (\<lambda>_. True), st'))"

definition control_threads_missing_message_timeline :: "env \<Rightarrow> ledger \<Rightarrow> thread_rec list outcome" where
  "control_threads_missing_message_timeline e = transact e (\<lambda>st.
     let st' = ensure_controls e (\<lambda>_. True) st
     in Inr (join_threads st' (\<lambda>s. list_ex (\<lambda>m. m_session m = s_id s) (messages st')
                 \<and> \<not> list_ex (\<lambda>r. t_thread r = s_id s) (timeline st')), st'))"

section \<open>Creation\<close>

definition nonempty_str :: "json option \<Rightarrow> str option" where
  "nonempty_str v =
     (case Option.bind v as_str of Some s \<Rightarrow> if s = [] then None else Some s | None \<Rightarrow> None)"

fun check_message_ids :: "str list \<Rightarrow> json list \<Rightarrow> error + str list" where
  "check_message_ids seen [] = Inr []"
| "check_message_ids seen (m # ms) =
     (case nonempty_str (jget ''id'' m) of
        None \<Rightarrow> Inl (InvalidRequest ''initial thread message requires an id'')
      | Some i \<Rightarrow>
          if i \<in> set seen then Inl (InvalidRequest ''duplicate initial message id'')
          else ebind (check_message_ids (i # seen) ms) (\<lambda>is. Inr (i # is)))"

definition parse_new_thread :: "env \<Rightarrow> str \<Rightarrow> error + (str \<times> (str \<times> json) list)" where
  "parse_new_thread e session_json =
     (case env_parse e session_json of
        Inl err \<Rightarrow> Inl (InvalidRequest (''invalid thread JSON: '' @ err))
      | Inr v \<Rightarrow> (case as_object v of
          None \<Rightarrow> Inl (InvalidRequest ''thread must be an object'')
        | Some metadata \<Rightarrow>
            let rest = env_show e (JObj (obj_remove ''messages'' metadata)) in
            (case map_of metadata ''messages'' of
               None \<Rightarrow> Inr (rest, [])
             | Some v' \<Rightarrow> (case as_array v' of
                 None \<Rightarrow> Inl (InvalidRequest ''thread messages must be an array'')
               | Some ms \<Rightarrow> ebind (check_message_ids [] ms) (\<lambda>is. Inr (rest, zip is ms))))))"

text \<open>One initial message: its row at the position, and its timeline item one above it.\<close>

fun insert_initial :: "env \<Rightarrow> str \<Rightarrow> str \<Rightarrow> nat \<Rightarrow> (str \<times> json) list \<Rightarrow> ledger \<Rightarrow> error + ledger" where
  "insert_initial e t ep k [] st = Inr st"
| "insert_initial e t ep k ((i, m) # ms) st =
     ebind (insert_message \<lparr>m_session = t, m_index = int k, m_json = env_show e m\<rparr> st) (\<lambda>st1.
     ebind (insert_timeline \<lparr>t_thread = t, t_epoch = ep, t_seq = int k + 1, t_item = i, t_run = None,
              t_type = ''message'', t_data = env_show e m,
              t_created = coalesce (Option.bind (jget ''timestamp'' m) as_i64) (now e)\<rparr> st1)
       (insert_initial e t ep (Suc k) ms))"

definition create_thread_body :: "env \<Rightarrow> str \<Rightarrow> str \<Rightarrow> str \<Rightarrow> (str \<times> json) list \<Rightarrow> thread_rec body" where
  "create_thread_body e t ep sj ms st =
     (let ord = coalesce (sql_max (map s_order (sessions st))) (- 1) + 1 in
      ebind (insert_session \<lparr>s_id = t, s_json = sj, s_order = ord, s_updated = now e\<rparr> st) (\<lambda>st1.
      ebind (insert_control \<lparr>c_thread = t, c_epoch = ep, c_revision = 1, c_next_seq = 1,
               c_updated = now e\<rparr> st1) (\<lambda>st2.
      ebind (insert_initial e t ep 0 ms st2) (\<lambda>st3.
        Inr (\<lparr>th_id = t, th_json = sj, th_revision = 1, th_epoch = ep, th_updated = now e\<rparr>,
             st3\<lparr>controls := set_where (\<lambda>c. c_thread c = t)
                    (\<lambda>c. c\<lparr>c_next_seq := int (length ms) + 1\<rparr>) (controls st3)\<rparr>)))))"

definition control_create_thread :: "env \<Rightarrow> str \<Rightarrow> str \<Rightarrow> str \<Rightarrow> ledger \<Rightarrow> thread_rec outcome" where
  "control_create_thread e thread_id session_json epoch =
     checked
       (ebind (required_control_text thread_id ''thread id'') (\<lambda>t.
        ebind (required_control_text epoch ''thread epoch'') (\<lambda>ep.
        ebind (parse_new_thread e session_json) (\<lambda>(sj, ms). Inr (t, ep, sj, ms)))))
       (\<lambda>(t, ep, sj, ms). transact e (create_thread_body e t ep sj ms))"

section \<open>Updates\<close>

definition write_session :: "str \<Rightarrow> str \<Rightarrow> int \<Rightarrow> ledger \<Rightarrow> ledger" where
  "write_session t sj at st =
     st\<lparr>sessions := set_where (\<lambda>s. s_id s = t) (\<lambda>s. s\<lparr>s_json := sj, s_updated := at\<rparr>) (sessions st)\<rparr>"

definition write_revision :: "str \<Rightarrow> int \<Rightarrow> int \<Rightarrow> ledger \<Rightarrow> ledger" where
  "write_revision t n at st =
     st\<lparr>controls := set_where (\<lambda>c. c_thread c = t) (\<lambda>c. c\<lparr>c_revision := n, c_updated := at\<rparr>) (controls st)\<rparr>"

definition update_thread_body ::
  "env \<Rightarrow> str \<Rightarrow> str \<Rightarrow> int option \<Rightarrow> (str \<times> str \<times> str) option
     \<Rightarrow> (thread_rec \<times> timeline_row option) option body" where
  "update_thread_body e t sj expected item st =
     (case thread_row st t of
        None \<Rightarrow> Inr (None, st)
      | Some cur \<Rightarrow>
          if (case expected of None \<Rightarrow> False | Some x \<Rightarrow> x \<noteq> th_revision cur)
          then Inl (InvalidRequest (''thread revision conflict: expected '' @
                 show_int (coalesce expected 0) @ '', current '' @ show_int (th_revision cur)))
          else
            let rev1 = u64_sat_add (th_revision cur) 1;
                cur1 = cur\<lparr>th_revision := rev1, th_json := sj, th_updated := now e\<rparr>;
                st1 = write_session t sj (now e) st
            in ebind (u64_to_i64 rev1) (\<lambda>n.
               let st2 = write_revision t n (now e) st1 in
               case item of
                 None \<Rightarrow> Inr (Some (cur1, None), st2)
               | Some (i, ty, data) \<Rightarrow>
                   ebind (append_control_timeline_locked e t i None ty data (now e) st2) (\<lambda>(r, st3).
                     Inr (Some (cur1\<lparr>th_revision := u64_sat_add rev1 1\<rparr>, Some r), st3))))"

definition control_update_thread ::
  "env \<Rightarrow> str \<Rightarrow> str \<Rightarrow> int option \<Rightarrow> (str \<times> str \<times> str) option \<Rightarrow> ledger
     \<Rightarrow> (thread_rec \<times> timeline_row option) option outcome" where
  "control_update_thread e thread_id session_json expected item =
     checked
       (ebind (required_control_text thread_id ''thread id'') (\<lambda>t.
        ebind (validate_control_json e session_json ''thread'') (\<lambda>_.
        ebind (case item of
                 None \<Rightarrow> Inr ()
               | Some (i, ty, data) \<Rightarrow>
                   ebind (required_control_text i ''timeline item id'') (\<lambda>_.
                   ebind (required_control_text ty ''timeline item type'') (\<lambda>_.
                     validate_control_json e data ''timeline data''))) (\<lambda>_. Inr t))))
       (\<lambda>t. transact e (update_thread_body e t session_json expected item))"

definition control_delete_thread :: "env \<Rightarrow> str \<Rightarrow> ledger \<Rightarrow> bool outcome" where
  "control_delete_thread e thread_id =
     checked (required_control_text thread_id ''thread id'')
       (\<lambda>t. transact e (\<lambda>st. Inr (has_session st t, delete_session_rows t st)))"

text \<open>\<open>bump_thread_revision_locked\<close>.\<close>

definition bump_thread_revision_locked :: "env \<Rightarrow> str \<Rightarrow> ledger \<Rightarrow> error + ledger" where
  "bump_thread_revision_locked e t st =
     (if \<not> list_ex (\<lambda>c. c_thread c = t) (controls st)
      then Inl (InvalidRequest (''thread '' @ t @ '' has no control metadata''))
      else Inr (touch_session t (now e)
             (st\<lparr>controls := set_where (\<lambda>c. c_thread c = t)
                  (\<lambda>c. c\<lparr>c_revision := c_revision c + 1, c_updated := now e\<rparr>) (controls st)\<rparr>)))"

section \<open>Message rows\<close>

definition control_append_message :: "env \<Rightarrow> str \<Rightarrow> str \<Rightarrow> ledger \<Rightarrow> int outcome" where
  "control_append_message e thread_id msg =
     checked
       (ebind (required_control_text thread_id ''thread id'') (\<lambda>t.
        ebind (validate_control_json e msg ''message'') (\<lambda>_. Inr t)))
       (\<lambda>t. transact e (\<lambda>st.
          let k = next_message_index st t in
          ebind (insert_message \<lparr>m_session = t, m_index = k, m_json = msg\<rparr> st) (\<lambda>st1.
          ebind (bump_thread_revision_locked e t st1) (\<lambda>st2.
            if k < 0 then Inl (Other ''message index is outside usize range'') else Inr (k, st2)))))"

definition stable_message_id :: "env \<Rightarrow> str \<Rightarrow> str option" where
  "stable_message_id e raw =
     (case env_parse e raw of
        Inl _ \<Rightarrow> None
      | Inr v \<Rightarrow> Option.bind (case jget ''canonicalId'' v of Some x \<Rightarrow> Some x | None \<Rightarrow> jget ''id'' v) as_str)"

definition remove_message :: "str \<Rightarrow> int \<Rightarrow> ledger \<Rightarrow> ledger" where
  "remove_message t k st =
     st\<lparr>messages :=
          set_where (\<lambda>m. m_session m = t \<and> k < m_index m) (\<lambda>m. m\<lparr>m_index := m_index m - 1\<rparr>)
            (drop_where (\<lambda>m. m_session m = t \<and> m_index m = k) (messages st))\<rparr>"

definition control_delete_message :: "env \<Rightarrow> str \<Rightarrow> str \<Rightarrow> ledger \<Rightarrow> bool outcome" where
  "control_delete_message e thread_id message_id =
     checked
       (ebind (required_control_text thread_id ''thread id'') (\<lambda>t.
        ebind (required_control_text message_id ''message id'') (\<lambda>i. Inr (t, i))))
       (\<lambda>(t, i). transact e (\<lambda>st.
          case List.find (\<lambda>m. stable_message_id e (m_json m) = Some i)
                 (order_by m_index (filter (\<lambda>m. m_session m = t) (messages st))) of
            None \<Rightarrow> Inr (False, st)
          | Some m \<Rightarrow>
              ebind (bump_thread_revision_locked e t (remove_message t (m_index m) st))
                (\<lambda>st'. Inr (True, st'))))"

section \<open>Account-runtime bindings\<close>

definition runtime_fields :: "(str \<times> str) list" where
  "runtime_fields =
     [(''codexThreadId'', ''codexLastSyncedMessageId''),
      (''claudeSessionId'', ''claudeLastSyncedMessageId''),
      (''opencodeSessionId'', ''opencodeLastSyncedMessageId''),
      (''piSessionId'', ''piLastSyncedMessageId'')]"

definition is_runtime_binding_field :: "str \<Rightarrow> str \<Rightarrow> bool" where
  "is_runtime_binding_field field base \<longleftrightarrow>
     field = base \<or>
     (case strip_prefix base field of None \<Rightarrow> False | Some suffix \<Rightarrow> starts_with '':'' suffix)"

definition runtime_last_synced_field :: "str \<Rightarrow> str option" where
  "runtime_last_synced_field field =
     Option.bind (List.find (\<lambda>b. is_runtime_binding_field field (fst b)) runtime_fields)
       (\<lambda>(session_base, cursor_base).
          Option.bind (strip_prefix session_base field)
            (\<lambda>profile. if list_ex (\<lambda>c. c = CHR ''/'' \<or> c = CHR 0x5C \<or> c = CHR 0x22) profile then None
                       else Some (cursor_base @ profile)))"

text \<open>\<open>.map(str::trim).filter(|value| !value.is_empty())\<close>.\<close>

definition trim_nonempty :: "str option \<Rightarrow> str option" where
  "trim_nonempty v =
     (case v of None \<Rightarrow> None | Some s \<Rightarrow> if trim s = [] then None else Some (trim s))"

definition account_runtime :: "(str \<times> json) list \<Rightarrow> (str \<times> json) list option" where
  "account_runtime root = Option.bind (map_of root ''accountRuntime'') as_object"

definition runtime_text :: "(str \<times> json) list \<Rightarrow> str \<Rightarrow> str option" where
  "runtime_text root field =
     trim_nonempty (Option.bind (account_runtime root) (\<lambda>rt. Option.bind (map_of rt field) as_str))"

definition runtime_edit ::
  "(str \<times> json) list \<Rightarrow> str \<Rightarrow> str \<Rightarrow> str option \<Rightarrow> str option \<Rightarrow> str option
     \<Rightarrow> error + (str \<times> json) list" where
  "runtime_edit root field synced existing nxt cursor =
     (case nxt of
        Some sid \<Rightarrow>
          (case (case map_of root ''accountRuntime'' of None \<Rightarrow> Some [] | Some v \<Rightarrow> as_object v) of
             None \<Rightarrow> Inl (Other ''stored accountRuntime is not an object'')
           | Some rt \<Rightarrow>
               let rt1 = obj_insert field (JStr sid) rt;
                   rt2 = (case cursor of
                            Some c \<Rightarrow> obj_insert synced (JStr c) rt1
                          | None \<Rightarrow> if existing \<noteq> nxt then obj_remove synced rt1 else rt1)
               in Inr (obj_insert ''accountRuntime'' (JObj rt2) root))
      | None \<Rightarrow>
          (case account_runtime root of
             None \<Rightarrow> Inr root
           | Some rt \<Rightarrow>
               let rt' = obj_remove synced (obj_remove field rt)
               in Inr (if rt' = [] then obj_remove ''accountRuntime'' root
                       else obj_insert ''accountRuntime'' (JObj rt') root)))"

definition compare_and_set_body ::
  "env \<Rightarrow> str \<Rightarrow> str \<Rightarrow> str \<Rightarrow> str option \<Rightarrow> str option \<Rightarrow> str option \<Rightarrow> thread_rec option body" where
  "compare_and_set_body e t field synced expected nxt cursor st =
     (case thread_row st t of
        None \<Rightarrow> Inl (InvalidRequest (''thread '' @ t @ '' does not exist''))
      | Some cur \<Rightarrow>
        (case env_parse e (th_json cur) of
           Inl err \<Rightarrow> Inl (Other (''invalid stored thread JSON: '' @ err))
         | Inr session \<Rightarrow>
           (case as_object session of
              None \<Rightarrow> Inl (Other ''stored thread is not an object'')
            | Some root \<Rightarrow>
                let existing = runtime_text root field in
                if existing \<noteq> expected then Inr (None, st)
                else if existing = nxt \<and>
                        (case cursor of None \<Rightarrow> True | Some c \<Rightarrow> runtime_text root synced = Some c)
                then Inr (Some cur, st)
                else
                  ebind (runtime_edit root field synced existing nxt cursor) (\<lambda>root1.
                  let root2 = obj_insert ''updatedAt'' (JInt (now e)) root1;
                      rev1 = u64_sat_add (th_revision cur) 1;
                      cur1 = cur\<lparr>th_revision := rev1, th_json := env_show e (JObj root2),
                                 th_updated := now e\<rparr>;
                      st1 = write_session t (th_json cur1) (now e) st
                  in ebind (u64_to_i64 rev1) (\<lambda>n.
                     Inr (Some cur1, write_revision t n (now e) st1))))))"

definition control_compare_and_set_runtime_session ::
  "env \<Rightarrow> str \<Rightarrow> str \<Rightarrow> str option \<Rightarrow> str option \<Rightarrow> str option \<Rightarrow> ledger
     \<Rightarrow> thread_rec option outcome" where
  "control_compare_and_set_runtime_session e thread_id field expected nxt cursor =
     checked
       (ebind (required_control_text thread_id ''thread id'') (\<lambda>t.
        case runtime_last_synced_field field of
          None \<Rightarrow> Inl (InvalidRequest (''unsupported account runtime session field: '' @ field))
        | Some synced \<Rightarrow> Inr (t, synced)))
       (\<lambda>(t, synced). transact e (compare_and_set_body e t field synced
          (trim_nonempty expected) (trim_nonempty nxt) (trim_nonempty cursor)))"

section \<open>Links\<close>

definition link_data :: "env \<Rightarrow> str \<Rightarrow> str" where
  "link_data e target = env_show e (mk_obj [(''target_thread_id'', JStr target)])"

definition link_pairs :: "str \<Rightarrow> str \<Rightarrow> str \<Rightarrow> (str \<times> str \<times> str) list" where
  "link_pairs a b item = [(a, b, item), (b, a, item @ ''-reciprocal'')]"

fun add_link_pairs :: "env \<Rightarrow> (str \<times> str \<times> str) list \<Rightarrow> timeline_row list body" where
  "add_link_pairs e [] st = Inr ([], st)"
| "add_link_pairs e ((a, b, item) # ps) st =
     ebind (insert_link_or_ignore \<lparr>l_owner = a, l_target = b, l_created = now e\<rparr> st)
       (\<lambda>(changed, st1).
          if changed = 0 then add_link_pairs e ps st1
          else ebind (append_control_timeline_locked e a item None ''thread_link_added''
                        (link_data e b) (now e) st1)
            (\<lambda>(r, st2). ebind (add_link_pairs e ps st2) (\<lambda>(rs, st3). Inr (r # rs, st3))))"

definition control_add_thread_link ::
  "env \<Rightarrow> str \<Rightarrow> str \<Rightarrow> str \<Rightarrow> ledger \<Rightarrow> timeline_row list outcome" where
  "control_add_thread_link e owner target item_id =
     checked
       (ebind (required_control_text owner ''owner thread id'') (\<lambda>a.
        ebind (required_control_text target ''target thread id'') (\<lambda>b.
        ebind (required_control_text item_id ''timeline item id'') (\<lambda>item.
          if a = b then Inl (InvalidRequest ''a thread cannot link to itself'')
          else Inr (a, b, item)))))
       (\<lambda>(a, b, item). transact e (add_link_pairs e (link_pairs a b item)))"

definition drop_link :: "str \<Rightarrow> str \<Rightarrow> ledger \<Rightarrow> nat \<times> ledger" where
  "drop_link a b st =
     (count_where (\<lambda>l. l_owner l = a \<and> l_target l = b) (links st),
      st\<lparr>links := drop_where (\<lambda>l. l_owner l = a \<and> l_target l = b) (links st)\<rparr>)"

fun remove_link_pairs :: "env \<Rightarrow> (str \<times> str \<times> str) list \<Rightarrow> timeline_row list body" where
  "remove_link_pairs e [] st = Inr ([], st)"
| "remove_link_pairs e ((a, b, item) # ps) st =
     (let (changed, st1) = drop_link a b st in
      if changed = 0 then remove_link_pairs e ps st1
      else ebind (append_control_timeline_locked e a item None ''thread_link_removed''
                    (link_data e b) (now e) st1)
        (\<lambda>(r, st2). ebind (remove_link_pairs e ps st2) (\<lambda>(rs, st3). Inr (r # rs, st3))))"

definition control_remove_thread_link ::
  "env \<Rightarrow> str \<Rightarrow> str \<Rightarrow> str \<Rightarrow> ledger \<Rightarrow> timeline_row list outcome" where
  "control_remove_thread_link e owner target item_id =
     checked
       (ebind (required_control_text owner ''owner thread id'') (\<lambda>a.
        ebind (required_control_text target ''target thread id'') (\<lambda>b.
        ebind (required_control_text item_id ''timeline item id'') (\<lambda>item.
          Inr (a, b, item)))))
       (\<lambda>(a, b, item). transact e (remove_link_pairs e (link_pairs a b item)))"

definition control_thread_links :: "ledger \<Rightarrow> str option \<Rightarrow> error + link_row list" where
  "control_thread_links st owner =
     (case owner of
        Some a \<Rightarrow> ebind (required_control_text a ''owner thread id'') (\<lambda>a'.
          Inr (order_by (\<lambda>l. (l_created l, l_target l)) (filter (\<lambda>l. l_owner l = a') (links st))))
      | None \<Rightarrow> Inr (order_by (\<lambda>l. (l_owner l, l_created l, l_target l)) (links st)))"

section \<open>The invariant is kept\<close>

lemma write_session_ok [simp]: "ledger_ok (write_session t sj at st) \<longleftrightarrow> ledger_ok st"
  by (simp add: ledger_ok_def write_session_def sessions_ok_def)

lemma controls_rewrite_ok:
  assumes "\<And>c. c_thread (f c) = c_thread c" "\<And>c. c_epoch (f c) = c_epoch c"
    "\<And>c. c_next_seq (f c) = c_next_seq c"
  shows "ledger_ok (st\<lparr>controls := set_where p f (controls st)\<rparr>) \<longleftrightarrow> ledger_ok st"
proof -
  have "next_seq_ok (set_where p f (controls st)) (timeline st) = next_seq_ok (controls st) (timeline st)"
  proof -
    have "(\<forall>c \<in> set (set_where p f (controls st)). Q (c_thread c) (c_next_seq c))
        \<longleftrightarrow> (\<forall>c \<in> set (controls st). Q (c_thread c) (c_next_seq c))" for Q
      unfolding ball_set_where by (intro ball_cong refl) (simp add: assms(1,3))
    from this[of "\<lambda>t n. let m = int (count_where (\<lambda>r. t_thread r = t) (timeline st))
        in m \<le> I64_MAX \<and> n = min (m + 1) I64_MAX"]
    show ?thesis unfolding next_seq_ok_def .
  qed
  moreover have "epochs_ok (set_where p f (controls st)) (timeline st) = epochs_ok (controls st) (timeline st)"
  proof -
    have "(\<lambda>c. (c_thread c, c_epoch c)) ` set (set_where p f (controls st))
            = (\<lambda>c. (c_thread c, c_epoch c)) ` set (controls st)"
      by (rule image_key_set_where) (simp add: assms)
    then show ?thesis by (simp add: epochs_ok_def)
  qed
  ultimately show ?thesis
    using assms by (simp add: ledger_ok_def controls_ok_def)
qed

lemma write_revision_ok [simp]: "ledger_ok (write_revision t n at st) \<longleftrightarrow> ledger_ok st"
  unfolding write_revision_def by (rule controls_rewrite_ok) simp_all

lemma bump_revision_ok:
  "ledger_ok st \<Longrightarrow> bump_thread_revision_locked e t st = Inr st' \<Longrightarrow> ledger_ok st'"
  by (auto simp: bump_thread_revision_locked_def controls_rewrite_ok split: if_splits)

lemma ensure_controls_ok:
  assumes ok: "ledger_ok st"
  shows "ledger_ok (ensure_controls e p st)"
proof -
  let ?mk = "\<lambda>s. \<lparr>c_thread = s_id s, c_epoch = random_epoch e (s_id s), c_revision = 0,
                   c_next_seq = 1, c_updated = s_updated s\<rparr>"
  let ?new = "filter (\<lambda>s. p s \<and> \<not> list_ex (\<lambda>c. c_thread c = s_id s) (controls st)) (sessions st)"
  have ids: "c_thread (?mk s) = s_id s" for s by simp
  have fresh: "s \<in> set ?new \<Longrightarrow> count_where (\<lambda>r. t_thread r = s_id s) (timeline st) = 0" for s
    using ok by (fastforce simp: ledger_ok_def epochs_ok_def count_where_zero list_ex_iff)
  have "controls_ok (sids st) (controls st @ map ?mk ?new)"
    using ok by (auto simp: ledger_ok_def controls_ok_def sessions_ok_def comp_def list_ex_iff
        distinct_map_filter)
  moreover have "next_seq_ok (controls st @ map ?mk ?new) (timeline st)"
    using ok fresh by (auto simp: ledger_ok_def next_seq_ok_def Let_def I64_MAX_def)
  moreover have "epochs_ok (controls st @ map ?mk ?new) (timeline st)"
    using ok by (auto simp: ledger_ok_def epochs_ok_def)
  ultimately show ?thesis
    using ok by (simp add: ledger_ok_def ensure_controls_def)
qed

lemma insert_initial_ok:
  "insert_initial e t ep k ms st = Inr st' \<Longrightarrow>
     \<exists>mrs trs. st' = st\<lparr>messages := messages st @ mrs, timeline := timeline st @ trs\<rparr> \<and>
       length mrs = length ms \<and> length trs = length ms \<and>
       (\<forall>m \<in> set mrs. m_session m = t) \<and>
       (\<forall>r \<in> set trs. t_thread r = t \<and> t_epoch r = ep \<and> t_run r = None) \<and>
       map m_index mrs = map (\<lambda>i. int (k + i)) [0..<length ms] \<and>
       map t_seq trs = map (\<lambda>i. 1 + int (k + i)) [0..<length ms] \<and>
       (distinct (map t_item (timeline st)) \<longrightarrow> distinct (map t_item (timeline st')))"
proof (induction e t ep k ms st rule: insert_initial.induct)
  case (1 e t ep k st)
  then show ?case by (intro exI[of _ "[]"]) auto
next
  case (2 e t ep k i m ms st)
  let ?m = "\<lparr>m_session = t, m_index = int k, m_json = env_show e m\<rparr>"
  let ?r = "\<lparr>t_thread = t, t_epoch = ep, t_seq = int k + 1, t_item = i, t_run = None,
              t_type = ''message'', t_data = env_show e m,
              t_created = coalesce (Option.bind (jget ''timestamp'' m) as_i64) (now e)\<rparr>"
  from 2(2) obtain st1 st2 where st1: "insert_message ?m st = Inr st1"
    and st2: "insert_timeline ?r st1 = Inr st2"
    and rest: "insert_initial e t ep (Suc k) ms st2 = Inr st'"
    by auto
  from 2(1)[OF st1 st2 rest] obtain mrs trs where
    ih: "st' = st2\<lparr>messages := messages st2 @ mrs, timeline := timeline st2 @ trs\<rparr>"
      "length mrs = length ms" "length trs = length ms" "\<forall>m \<in> set mrs. m_session m = t"
      "\<forall>r \<in> set trs. t_thread r = t \<and> t_epoch r = ep \<and> t_run r = None"
      "map m_index mrs = map (\<lambda>i. int (Suc k + i)) [0..<length ms]"
      "map t_seq trs = map (\<lambda>i. 1 + int (Suc k + i)) [0..<length ms]"
      "distinct (map t_item (timeline st2)) \<longrightarrow> distinct (map t_item (timeline st'))"
    by blast
  have shift: "map f [0..<Suc (length ms)] = f 0 # map (\<lambda>i. f (Suc i)) [0..<length ms]" for f :: "nat \<Rightarrow> int"
    by (simp add: upt_conv_Cons map_Suc_upt[symmetric] del: upt_Suc)
  show ?case
    using st1 st2 ih
    by (intro exI[of _ "?m # mrs"] exI[of _ "?r # trs"])
       (auto simp: insert_message_ok insert_timeline_ok shift simp del: upt_Suc)
qed

text \<open>A Rust \<open>Vec\<close> never holds \<open>i64::MAX\<close> elements, so no array the parser returns is that long.\<close>

definition vec_bounded :: "env \<Rightarrow> bool" where
  "vec_bounded e \<longleftrightarrow>
     (\<forall>s v k vs. env_parse e s = Inr v \<longrightarrow> jget k v = Some (JArr vs) \<longrightarrow> int (length vs) < I64_MAX)"

lemma parse_new_thread_bounded:
  assumes "vec_bounded e" and "parse_new_thread e s = Inr (sj, ms)"
  shows "int (length ms) < I64_MAX"
proof -
  have len: "int (length (zip ids vs)) < I64_MAX"
    if "env_parse e s = Inr v" "as_object v = Some kvs" "map_of kvs ''messages'' = Some a"
      "as_array a = Some vs" for v kvs a vs and ids :: "str list"
  proof -
    from that have "jget ''messages'' v = Some (JArr vs)"
      by (cases v; cases a) auto
    with assms(1) that(1) have "int (length vs) < I64_MAX" by (auto simp: vec_bounded_def)
    then show ?thesis by simp
  qed
  show ?thesis
    using assms(2) len
    by (auto simp: parse_new_thread_def Let_def I64_MAX_def split: sum.splits option.splits)
qed

lemma create_thread_keeps:
  assumes ok: "ledger_ok st" and len: "int (length ms) < I64_MAX"
    and body: "create_thread_body e t ep sj ms st = Inr (x, st')"
  shows "ledger_ok st'"
proof -
  let ?s = "\<lparr>s_id = t, s_json = sj,
              s_order = coalesce (sql_max (map s_order (sessions st))) (- 1) + 1, s_updated = now e\<rparr>"
  let ?c = "\<lparr>c_thread = t, c_epoch = ep, c_revision = 1, c_next_seq = 1, c_updated = now e\<rparr>"
  from body obtain st1 st2 st3 where s1: "insert_session ?s st = Inr st1"
    and s2: "insert_control ?c st1 = Inr st2" and s3: "insert_initial e t ep 0 ms st2 = Inr st3"
    and st': "st' = st3\<lparr>controls := set_where (\<lambda>c. c_thread c = t)
                    (\<lambda>c. c\<lparr>c_next_seq := int (length ms) + 1\<rparr>) (controls st3)\<rparr>"
    by (auto simp: create_thread_body_def Let_def)
  have st1: "st1 = st\<lparr>sessions := sessions st @ [?s]\<rparr>" and new: "t \<notin> sids st"
    using s1 by (auto simp: insert_session_def insert_row_ok ebind_Inr_iff)
  have st2: "st2 = st1\<lparr>controls := controls st @ [?c]\<rparr>"
    using s2 by (auto simp: insert_control_def insert_row_ok ebind_Inr_iff st1)
  from insert_initial_ok[OF s3] obtain mrs trs where
    st3: "st3 = st2\<lparr>messages := messages st2 @ mrs, timeline := timeline st2 @ trs\<rparr>"
    and l: "length mrs = length ms" "length trs = length ms"
    and mrs: "\<And>m. m \<in> set mrs \<Longrightarrow> m_session m = t"
    and trs: "\<And>r. r \<in> set trs \<Longrightarrow> t_thread r = t \<and> t_epoch r = ep \<and> t_run r = None"
    and ix: "map m_index mrs = map (\<lambda>i. int (0 + i)) [0..<length ms]"
    and sq: "map t_seq trs = map (\<lambda>i. 1 + int (0 + i)) [0..<length ms]"
    and di: "distinct (map t_item (timeline st2)) \<longrightarrow> distinct (map t_item (timeline st3))"
    by metis
  have no_msgs: "count_where (\<lambda>m. m_session m = t) (messages st) = 0"
    using ok new by (auto simp: ledger_ok_def messages_ok_def count_where_zero)
  have no_ctl: "t \<notin> c_thread ` set (controls st)"
    using ok new by (auto simp: ledger_ok_def controls_ok_def)
  have no_rows: "count_where (\<lambda>r. t_thread r = t) (timeline st) = 0"
    using ok no_ctl by (force simp: ledger_ok_def epochs_ok_def count_where_zero)
  have S: "sids st \<subseteq> sids st'" "t \<in> sids st'" "rids st' = rids st" "digests st' = digests st"
    by (auto simp: st' st3 st2 st1)
  let ?cs = "set_where (\<lambda>c. c_thread c = t) (\<lambda>c. c\<lparr>c_next_seq := int (length ms) + 1\<rparr>)
                (controls st @ [?c])"
  have cs: "?cs = controls st @ [?c\<lparr>c_next_seq := int (length ms) + 1\<rparr>]"
  proof -
    have "set_where (\<lambda>c. c_thread c = t) f (controls st) = controls st" for f
      using no_ctl by (intro set_where_none) (auto simp: count_where_zero)
    then show ?thesis by (simp add: set_where_def)
  qed
  have eq: "st' = st\<lparr>sessions := sessions st @ [?s], messages := messages st @ mrs,
      controls := controls st @ [?c\<lparr>c_next_seq := int (length ms) + 1\<rparr>],
      timeline := timeline st @ trs\<rparr>"
    unfolding st' using cs by (simp add: st3 st2 st1 del: set_where_append)
  have n_trs: "count_where (\<lambda>r. t_thread r = t) trs = length ms"
    using trs l by (simp add: count_where_def)
  have other: "c \<in> set (controls st) \<Longrightarrow> count_where (\<lambda>r. t_thread r = c_thread c) trs = 0" for c
    using trs no_ctl by (auto simp: count_where_zero)
  have g: "gapless t_thread t_seq 1 (timeline st @ trs)"
    by (rule gapless_append_block[where k = t])
       (use ok trs sq l no_rows in \<open>auto simp: ledger_ok_def timeline_ok_def\<close>)
  have gm: "gapless m_session m_index 0 (messages st @ mrs)"
    by (rule gapless_append_block[where k = t])
       (use ok mrs ix l no_msgs in \<open>auto simp: ledger_ok_def messages_ok_def\<close>)
  have "sessions_ok (sessions st')"
    using ok new by (simp add: ledger_ok_def sessions_ok_def eq)
  moreover have "messages_ok (sids st') (messages st')"
    using gm ok mrs S by (auto simp: ledger_ok_def messages_ok_def eq)
  moreover have "controls_ok (sids st') (controls st')"
    using ok no_ctl by (auto simp: ledger_ok_def controls_ok_def eq)
  moreover have "next_seq_ok (controls st') (timeline st')"
    using ok len no_rows n_trs other
    by (auto simp: ledger_ok_def next_seq_ok_def eq Let_def)
  moreover have "epochs_ok (controls st') (timeline st')"
    using ok trs by (auto simp: ledger_ok_def epochs_ok_def eq)
  moreover have "timeline_ok (rids st') (timeline st')"
  proof -
    have "distinct (map t_item (timeline st @ trs))"
      using di ok by (simp add: st3 st2 st1 ledger_ok_def timeline_ok_def)
    then show ?thesis
      using ok g trs by (auto simp: ledger_ok_def timeline_ok_def eq)
  qed
  moreover have "runs_ok (sids st') (runs st') \<and> inbox_ok (sids st') (rids st') (inbox st') \<and>
      links_ok (sids st') (links st') \<and> mailbox_ok (sids st') (rids st') (mailbox st') \<and>
      approvals_ok (sids st') (rids st') (approvals st')"
    using ok S tables_mono[OF S(1) subset_refl subset_refl]
    by (simp add: ledger_ok_def eq)
  ultimately show ?thesis
    using ok by (simp add: ledger_ok_def eq)
qed

lemma update_thread_keeps:
  assumes ok: "ledger_ok st" and body: "update_thread_body e t sj expected item st = Inr (x, st')"
  shows "ledger_ok st'"
  using ok body
  by (auto simp: update_thread_body_def Let_def split: option.splits if_splits prod.splits
      elim!: append_locked_keeps[rotated])

lemma compare_and_set_keeps:
  assumes "ledger_ok st" and "compare_and_set_body e t f sy ex nx cu st = Inr (x, st')"
  shows "ledger_ok st'"
  using assms
  by (auto simp: compare_and_set_body_def Let_def split: option.splits sum.splits if_splits)

text \<open>Deletion: what a session takes with it, and what the survivors lose.\<close>

lemma run_in_null_run:
  "run_in R r \<Longrightarrow> run_in (R - set gone) (null_run gone r)"
  by (cases r) (auto simp: null_run_def)

lemma runs_of_iff:
  assumes "runs_ok S rs" and "r \<in> set rs"
  shows "r_id r \<in> r_id ` {x \<in> set rs. r_thread x = t} \<longleftrightarrow> r_thread r = t"
  using assms by (auto simp: runs_ok_def distinct_map inj_on_def)

lemma delete_session_keeps:
  assumes ok: "ledger_ok st"
  shows "ledger_ok (delete_session_rows t st)"
proof -
  define gone where "gone = runs_of st t"
  define st' where "st' = delete_session_rows t st"
  have gset: "set gone = r_id ` {x \<in> set (runs st). r_thread x = t}"
    by (auto simp: gone_def runs_of_def)
  have S: "sids st' = sids st - {t}"
    by (auto simp: st'_def delete_session_rows_def Let_def)
  have R: "rids st' = rids st - set gone"
  proof -
    have "runs_ok (sids st) (runs st)" using ok by (simp add: ledger_ok_def)
    from runs_of_iff[OF this, of _ t] show ?thesis
      by (auto simp: st'_def delete_session_rows_def Let_def gset)
  qed
  have B: "d \<in> digests st'" if fin: "f \<in> set (refs st')" and fd: "f_digest f = d" for f d
  proof -
    from fin have f: "f \<in> set (refs st)" "f_run f \<notin> set gone"
      by (auto simp: st'_def delete_session_rows_def Let_def gone_def)
    then obtain b where "b \<in> set (blobs st)" "b_digest b = d"
      using ok fd by (force simp: ledger_ok_def refs_ok_def)
    then show ?thesis
      using f fd by (auto simp: st'_def delete_session_rows_def Let_def gone_def list_ex_iff)
  qed
  have tabs: "sessions st' = drop_where (\<lambda>s. s_id s = t) (sessions st)"
    "messages st' = drop_where (\<lambda>m. m_session m = t) (messages st)"
    "controls st' = drop_where (\<lambda>c. c_thread c = t) (controls st)"
    "runs st' = drop_where (\<lambda>r. r_thread r = t) (runs st)"
    "timeline st' = map (\<lambda>r. r\<lparr>t_run := null_run gone (t_run r)\<rparr>)
        (drop_where (\<lambda>r. t_thread r = t) (timeline st))"
    "run_events st' = drop_where (\<lambda>v. e_run v \<in> set gone) (run_events st)"
    "inbox st' = map (\<lambda>i. i\<lparr>i_target := null_run gone (i_target i)\<rparr>)
        (drop_where (\<lambda>i. i_thread i = t) (inbox st))"
    "links st' = drop_where (\<lambda>l. l_owner l = t \<or> l_target l = t) (links st)"
    "mailbox st' = map (\<lambda>m. m\<lparr>mb_target_run := null_run gone (mb_target_run m)\<rparr>)
        (drop_where (\<lambda>m. mb_origin m = t \<or> mb_target m = t) (mailbox st))"
    "approvals st' = drop_where (\<lambda>a. a_thread a = t \<or> a_run a \<in> set gone) (approvals st)"
    "artifacts st' = drop_where (\<lambda>a. af_run a \<in> set gone) (artifacts st)"
    "refs st' = drop_where (\<lambda>f. f_run f \<in> set gone) (refs st)"
    "receipts st' = receipts st"
    by (simp_all add: st'_def delete_session_rows_def Let_def gone_def)
  have "sessions_ok (sessions st')"
    using ok by (simp add: ledger_ok_def sessions_ok_def tabs distinct_drop_where)
  moreover have "messages_ok (sids st') (messages st')"
  proof -
    have "gapless m_session m_index 0 (messages st')"
      unfolding tabs by (rule gapless_drop[where q = "\<lambda>k. k = t"])
        (use ok in \<open>simp_all add: ledger_ok_def messages_ok_def\<close>)
    then show ?thesis unfolding S using ok by (auto simp: ledger_ok_def messages_ok_def tabs)
  qed
  moreover have "controls_ok (sids st') (controls st')"
    unfolding S using ok by (auto simp: ledger_ok_def controls_ok_def tabs distinct_drop_where)
  moreover have "runs_ok (sids st') (runs st')"
    unfolding S using ok by (auto simp: ledger_ok_def runs_ok_def tabs distinct_drop_where)
  moreover have "next_seq_ok (controls st') (timeline st')"
  proof -
    have "k \<noteq> t \<Longrightarrow> count_where (\<lambda>r. t_thread r = k) (timeline st')
        = count_where (\<lambda>r. t_thread r = k) (timeline st)" for k
      by (simp add: tabs count_where_map count_where_drop_where)
         (rule arg_cong[of _ _ "\<lambda>p. count_where p (timeline st)"], auto)
    then show ?thesis using ok by (auto simp: ledger_ok_def next_seq_ok_def Let_def tabs(3))
  qed
  moreover have "epochs_ok (controls st') (timeline st')"
    using ok by (force simp: ledger_ok_def epochs_ok_def tabs)
  moreover have "timeline_ok (rids st') (timeline st')"
  proof -
    have "gapless t_thread t_seq 1 (timeline st')"
      unfolding tabs
      by (rule gapless_map, rule gapless_drop[where q = "\<lambda>k. k = t"])
         (use ok in \<open>simp_all add: ledger_ok_def timeline_ok_def\<close>)
    moreover have "distinct (map t_item (timeline st'))"
      using ok by (simp add: ledger_ok_def timeline_ok_def tabs comp_def distinct_drop_where)
    ultimately show ?thesis
      unfolding R using ok by (auto simp: ledger_ok_def timeline_ok_def tabs intro: run_in_null_run)
  qed
  moreover have "run_events_ok (rids st') (run_events st')"
  proof -
    have "gapless e_run e_seq 1 (run_events st')"
      unfolding tabs by (rule gapless_drop[where q = "\<lambda>k. k \<in> set gone"])
        (use ok in \<open>simp_all add: ledger_ok_def run_events_ok_def\<close>)
    then show ?thesis
      unfolding R using ok by (auto simp: ledger_ok_def run_events_ok_def tabs distinct_drop_where)
  qed
  moreover have "inbox_ok (sids st') (rids st') (inbox st')"
  proof -
    have "distinct_somes (map i_command (inbox st'))"
      using ok distinct_somes_filter
      by (auto simp: ledger_ok_def inbox_ok_def tabs comp_def drop_where_def)
    then show ?thesis
      unfolding R S using ok by (auto simp: ledger_ok_def inbox_ok_def tabs comp_def distinct_drop_where
          intro: run_in_null_run)
  qed
  moreover have "links_ok (sids st') (links st')"
    unfolding S using ok by (auto simp: ledger_ok_def links_ok_def tabs distinct_drop_where)
  moreover have "reciprocal (links st')"
    using ok by (fastforce simp: ledger_ok_def reciprocal_def tabs)
  moreover have "mailbox_ok (sids st') (rids st') (mailbox st')"
    unfolding R S using ok by (auto simp: ledger_ok_def mailbox_ok_def tabs comp_def distinct_drop_where
        intro: run_in_null_run)
  moreover have "approvals_ok (sids st') (rids st') (approvals st')"
    unfolding R S using ok by (auto simp: ledger_ok_def approvals_ok_def tabs distinct_drop_where)
  moreover have "receipts_ok (receipts st')" using ok by (simp add: ledger_ok_def tabs)
  moreover have "blobs_ok (blobs st')"
    using ok by (simp add: ledger_ok_def blobs_ok_def st'_def delete_session_rows_def Let_def
        distinct_drop_where)
  moreover have "refs_ok (rids st') (digests st') (refs st')"
    unfolding R using ok B by (auto simp: ledger_ok_def refs_ok_def tabs distinct_drop_where)
  moreover have "artifacts_ok (rids st') (artifacts st')"
    unfolding R using ok by (auto simp: ledger_ok_def artifacts_ok_def tabs distinct_drop_where)
  ultimately have "ledger_ok st'" by (simp add: ledger_ok_def)
  then show ?thesis by (simp add: st'_def)
qed

text \<open>Removing a message closes the gap it leaves.\<close>

lemma shift_run:
  "map (\<lambda>i. if int k < i then i - 1 else i) (filter (\<lambda>i. i \<noteq> int k) (map int [0..<n]))
     = map int [0..<(if k < n then n - 1 else n)]"
proof (induction n)
  case 0
  then show ?case by simp
next
  case (Suc n)
  have "0 < n \<Longrightarrow> [0..<n] = [0..<n - 1] @ [n - 1]"
    using upt_Suc_append[of 0 "n - 1"] by simp
  with Suc show ?case by (auto simp: of_nat_diff)
qed

lemma remove_message_gapless:
  assumes g: "gapless m_session m_index 0 ms"
    and k: "k \<in> m_index ` {m \<in> set ms. m_session m = t}"
  shows "gapless m_session m_index 0
    (set_where (\<lambda>m. m_session m = t \<and> k < m_index m) (\<lambda>m. m\<lparr>m_index := m_index m - 1\<rparr>)
       (drop_where (\<lambda>m. m_session m = t \<and> m_index m = k) ms))" (is "gapless _ _ _ ?ms'")
proof (rule gaplessI)
  fix u
  let ?n = "count_where (\<lambda>m. m_session m = u) ms"
  show "map m_index (filter (\<lambda>m. m_session m = u) ?ms')
      = map (\<lambda>i. 0 + int i) [0..<count_where (\<lambda>m. m_session m = u) ?ms']"
  proof (cases "u = t")
    case False
    have "filter (\<lambda>m. m_session m = u) ?ms' = filter (\<lambda>m. m_session m = u) ms"
      using False by (subst filter_set_where_other) (auto simp: drop_where_def intro: filter_cong)
    then show ?thesis using gaplessD[OF g, of u] by (simp add: count_where_def)
  next
    case True
    from k gapless_seqs[OF g, of t] obtain j where j: "k = int j" "j < ?n"
      using True by (auto intro!: that[of "nat k"])
    have idx: "map m_index (filter (\<lambda>m. m_session m = t) ?ms')
        = map (\<lambda>i. if k < i then i - 1 else i)
            (filter (\<lambda>i. i \<noteq> k) (map m_index (filter (\<lambda>m. m_session m = t) ms)))"
      by (induction ms) (auto simp: set_where_def drop_where_def)
    also have "map m_index (filter (\<lambda>m. m_session m = t) ms) = map int [0..<?n]"
      using gaplessD[OF g, of t] True by simp
    finally have e: "map m_index (filter (\<lambda>m. m_session m = t) ?ms') = map int [0..<?n - 1]"
      using shift_run[of j ?n] j by simp
    from arg_cong[OF this, of length] have "count_where (\<lambda>m. m_session m = t) ?ms' = ?n - 1"
      unfolding count_where_def[of _ ?ms'] length_map length_upt by simp
    with e True show ?thesis by simp
  qed
qed

lemma remove_message_ok:
  assumes "ledger_ok st" and "k \<in> m_index ` {m \<in> set (messages st). m_session m = t}"
  shows "ledger_ok (remove_message t k st)"
proof -
  have "messages_ok (sids st) (messages (remove_message t k st))"
    using assms remove_message_gapless[OF _ assms(2)]
    by (auto simp: ledger_ok_def messages_ok_def remove_message_def)
  with assms(1) show ?thesis by (simp add: ledger_ok_def remove_message_def)
qed

text \<open>The two rows of a link go in and out together.\<close>

abbreviation link_set :: "link_row list \<Rightarrow> (str \<times> str) set" where
  "link_set ls \<equiv> (\<lambda>l. (l_owner l, l_target l)) ` set ls"

lemma reciprocal_iff: "reciprocal ls \<longleftrightarrow> sym (link_set ls)"
proof
  assume r: "reciprocal ls"
  show "sym (link_set ls)"
  proof (rule symI)
    fix a b assume "(a, b) \<in> link_set ls"
    then obtain l where "l \<in> set ls" "a = l_owner l" "b = l_target l" by auto
    with r show "(b, a) \<in> link_set ls" by (force simp: reciprocal_def)
  qed
next
  assume y: "sym (link_set ls)"
  show "reciprocal ls"
    unfolding reciprocal_def
  proof
    fix l assume "l \<in> set ls"
    then have "(l_target l, l_owner l) \<in> link_set ls" using symD[OF y] by blast
    then show "\<exists>k \<in> set ls. l_owner k = l_target l \<and> l_target k = l_owner l" by auto
  qed
qed

lemma append_locked_links:
  assumes "append_control_timeline_locked e t item run ty data at st = Inr (r, st')"
  shows "append_control_timeline_locked e t item run ty data at (st\<lparr>links := L\<rparr>)
           = Inr (r, st'\<lparr>links := L\<rparr>)"
    and "links st' = links st" and "sids st' = sids st"
proof -
  show "append_control_timeline_locked e t item run ty data at (st\<lparr>links := L\<rparr>)
           = Inr (r, st'\<lparr>links := L\<rparr>)"
    using assms
    by (auto simp: append_control_timeline_locked_def control_of_def insert_timeline_def has_session_def
        has_run_opt_def has_run_def advance_defs Let_def ebind_Inr_iff split: option.splits)
  show "links st' = links st" "sids st' = sids st"
    using assms by (cases rule: append_locked_ok; simp add: insert_timeline_ok advance_defs)+
qed

lemma ledger_ok_links:
  "ledger_ok (st\<lparr>links := L\<rparr>) \<Longrightarrow> links_ok (sids st) (links st) \<Longrightarrow> reciprocal (links st)
     \<Longrightarrow> ledger_ok st"
  by (simp add: ledger_ok_def)

lemma insert_link_ok:
  assumes "insert_link_or_ignore r st = Inr (n, st')" and "links_ok (sids st) (links st)"
    and "l_owner r \<noteq> l_target r"
  shows "\<exists>L. st' = st\<lparr>links := L\<rparr>" and "links_ok (sids st) (links st')"
    and "link_set (links st') = insert (l_owner r, l_target r) (link_set (links st))"
proof -
  have dup: "list_ex (\<lambda>x. l_owner x = l_owner r \<and> l_target x = l_target r) (links st)
      \<longleftrightarrow> (l_owner r, l_target r) \<in> link_set (links st)"
    by (simp add: list_ex_iff image_iff eq_commute[of _ "l_owner r"] eq_commute[of _ "l_target r"])
  have "(\<exists>L. st' = st\<lparr>links := L\<rparr>) \<and> links_ok (sids st) (links st') \<and>
      link_set (links st') = insert (l_owner r, l_target r) (link_set (links st))"
  proof (cases "(l_owner r, l_target r) \<in> link_set (links st)")
    case True
    with assms(1) have "st' = st" by (simp add: insert_link_or_ignore_def dup)
    moreover have "\<exists>L. st = st\<lparr>links := L\<rparr>" by (rule exI[of _ "links st"]) simp
    ultimately show ?thesis using True assms(2) by (simp add: insert_absorb)
  next
    case False
    with assms(1,3) have "st' = st\<lparr>links := links st @ [r]\<rparr>"
      "has_session st (l_owner r)" "has_session st (l_target r)"
      by (simp_all add: insert_link_or_ignore_def dup split: if_splits)
    with assms(2,3) False show ?thesis
      by (auto simp: links_ok_def has_session_iff)
  qed
  then show "\<exists>L. st' = st\<lparr>links := L\<rparr>" "links_ok (sids st) (links st')"
    "link_set (links st') = insert (l_owner r, l_target r) (link_set (links st))"
    by blast+
qed

lemma add_link_pairs_ok:
  "add_link_pairs e ps st = Inr (rs, st') \<Longrightarrow> ledger_ok (st\<lparr>links := L\<rparr>) \<Longrightarrow>
     links_ok (sids st) (links st) \<Longrightarrow> (\<forall>(a, b, i) \<in> set ps. a \<noteq> b) \<Longrightarrow>
     ledger_ok (st'\<lparr>links := L\<rparr>) \<and> sids st' = sids st \<and> links_ok (sids st) (links st') \<and>
     link_set (links st') = (\<lambda>(a, b, i). (a, b)) ` set ps \<union> link_set (links st)"
proof (induction e ps st arbitrary: rs st' rule: add_link_pairs.induct)
  case (1 e st)
  then show ?case by auto
next
  case (2 e a b item ps st)
  let ?l = "\<lparr>l_owner = a, l_target = b, l_created = now e\<rparr>"
  from 2(3) obtain n st1 where ins: "insert_link_or_ignore ?l st = Inr (n, st1)" by auto
  have "a \<noteq> b" using 2(6) by simp
  note il = insert_link_ok[OF ins 2(5)]
  obtain L1 where st1: "st1 = st\<lparr>links := L1\<rparr>" using il(1) \<open>a \<noteq> b\<close> by auto
  have core: "ledger_ok (st1\<lparr>links := L\<rparr>)" "sids st1 = sids st" using 2(4) by (simp_all add: st1)
  have l1: "links_ok (sids st1) (links st1)" "link_set (links st1) = insert (a, b) (link_set (links st))"
    using il(2,3) \<open>a \<noteq> b\<close> core(2) by simp_all
  have ps: "\<forall>(a, b, i) \<in> set ps. a \<noteq> b" using 2(6) by simp
  show ?case
  proof (cases "n = 0")
    case True
    with 2(3) ins have "add_link_pairs e ps st1 = Inr (rs, st')" by simp
    from 2(1)[OF ins refl True this core(1) l1(1) ps] show ?thesis using core(2) l1(2) by auto
  next
    case False
    with 2(3) ins obtain r st2 rs' where
      ap: "append_control_timeline_locked e a item None ''thread_link_added'' (link_data e b) (now e) st1
             = Inr (r, st2)"
      and rest: "add_link_pairs e ps st2 = Inr (rs', st')"
      by auto
    note al = append_locked_links[OF ap]
    have core2: "ledger_ok (st2\<lparr>links := L\<rparr>)" by (rule append_locked_keeps[OF core(1) al(1)])
    have "links_ok (sids st2) (links st2)" using l1(1) al(2,3) by simp
    from 2(2)[OF ins refl False ap refl rest core2 this ps] show ?thesis
      using core(2) l1(2) al(2,3) by auto
  qed
qed

lemma drop_link_set:
  "link_set (drop_where (\<lambda>l. l_owner l = a \<and> l_target l = b) ls) = link_set ls - {(a, b)}"
  by auto

lemma links_ok_drop: "links_ok S ls \<Longrightarrow> links_ok S (drop_where p ls)"
  by (auto simp: links_ok_def distinct_drop_where)

lemma remove_link_pairs_ok:
  "remove_link_pairs e ps st = Inr (rs, st') \<Longrightarrow> ledger_ok (st\<lparr>links := L\<rparr>) \<Longrightarrow>
     links_ok (sids st) (links st) \<Longrightarrow>
     ledger_ok (st'\<lparr>links := L\<rparr>) \<and> sids st' = sids st \<and> links_ok (sids st) (links st') \<and>
     link_set (links st') = link_set (links st) - (\<lambda>(a, b, i). (a, b)) ` set ps"
proof (induction e ps st arbitrary: rs st' rule: remove_link_pairs.induct)
  case (1 e st)
  then show ?case by auto
next
  case (2 e a b item ps st)
  obtain n st1 where dl: "drop_link a b st = (n, st1)" by (cases "drop_link a b st")
  then have st1: "st1 = st\<lparr>links := drop_where (\<lambda>l. l_owner l = a \<and> l_target l = b) (links st)\<rparr>"
    by (simp add: drop_link_def)
  have core: "ledger_ok (st1\<lparr>links := L\<rparr>)" "sids st1 = sids st" using 2(4) by (simp_all add: st1)
  have l1: "links_ok (sids st1) (links st1)" "link_set (links st1) = link_set (links st) - {(a, b)}"
  proof -
    show "links_ok (sids st1) (links st1)" using links_ok_drop[OF 2(5)] by (simp add: st1)
    show "link_set (links st1) = link_set (links st) - {(a, b)}"
      using drop_link_set[of a b "links st"] by (simp add: st1 del: set_drop_where)
  qed
  show ?case
  proof (cases "n = 0")
    case True
    with 2(3) dl have "remove_link_pairs e ps st1 = Inr (rs, st')" by simp
    from 2(1)[OF dl[symmetric] refl True this core(1) l1(1)] show ?thesis using core(2) l1(2) by auto
  next
    case False
    with 2(3) dl obtain r st2 rs' where
      ap: "append_control_timeline_locked e a item None ''thread_link_removed'' (link_data e b) (now e) st1
             = Inr (r, st2)"
      and rest: "remove_link_pairs e ps st2 = Inr (rs', st')"
      by auto
    note al = append_locked_links[OF ap]
    have core2: "ledger_ok (st2\<lparr>links := L\<rparr>)" by (rule append_locked_keeps[OF core(1) al(1)])
    have "links_ok (sids st2) (links st2)" using l1(1) al(2,3) by simp
    from 2(2)[OF dl[symmetric] refl False ap refl rest core2 this] show ?thesis
      using core(2) l1(2) al(2,3) by auto
  qed
qed

text \<open>\<open>control_add_thread_link\<close> and \<open>control_remove_thread_link\<close> as changes of the link relation.\<close>

lemma add_link_ok:
  assumes ok: "ledger_ok st" and "a \<noteq> b" and body: "add_link_pairs e (link_pairs a b i) st = Inr (rs, st')"
  shows "ledger_ok st'" and "link_set (links st') = link_set (links st) \<union> {(a, b), (b, a)}"
proof -
  have l: "links_ok (sids st) (links st)" "sym (link_set (links st))"
    using ok by (simp_all add: ledger_ok_def reciprocal_iff)
  have *: "ledger_ok (st'\<lparr>links := links st\<rparr>) \<and> sids st' = sids st \<and> links_ok (sids st) (links st') \<and>
     link_set (links st') = (\<lambda>(a, b, i). (a, b)) ` set (link_pairs a b i) \<union> link_set (links st)"
    by (rule add_link_pairs_ok[OF body _ l(1)]) (use ok \<open>a \<noteq> b\<close> in \<open>auto simp: link_pairs_def\<close>)
  then show new: "link_set (links st') = link_set (links st) \<union> {(a, b), (b, a)}"
    by (auto simp: link_pairs_def)
  have "sym (link_set (links st'))"
    unfolding new using l(2) by (auto simp: sym_def)
  then show "ledger_ok st'"
    using * reciprocal_iff by (metis ledger_ok_links)
qed

lemma remove_link_ok:
  assumes ok: "ledger_ok st" and body: "remove_link_pairs e (link_pairs a b i) st = Inr (rs, st')"
  shows "ledger_ok st'" and "link_set (links st') = link_set (links st) - {(a, b), (b, a)}"
proof -
  have l: "links_ok (sids st) (links st)" "sym (link_set (links st))"
    using ok by (simp_all add: ledger_ok_def reciprocal_iff)
  have *: "ledger_ok (st'\<lparr>links := links st\<rparr>) \<and> sids st' = sids st \<and> links_ok (sids st) (links st') \<and>
     link_set (links st') = link_set (links st) - (\<lambda>(a, b, i). (a, b)) ` set (link_pairs a b i)"
    by (rule remove_link_pairs_ok[OF body _ l(1)]) (use ok in simp)
  then show new: "link_set (links st') = link_set (links st) - {(a, b), (b, a)}"
    by (auto simp: link_pairs_def)
  have "sym (link_set (links st'))"
    unfolding new using l(2) by (auto simp: sym_def)
  then show "ledger_ok st'"
    using * reciprocal_iff by (metis ledger_ok_links)
qed

end
