(* ===== verification/Ledger_Inbox.thy ===== *)
theory Ledger_Inbox
  imports Ledger_Threads
begin

text \<open>
  Work waiting for a run: the inbox with its queued follow-ups, steers and injections, and the
  mailbox that carries requests and replies between linked threads.
\<close>

section \<open>The inbox\<close>

definition inbox_from_row :: "inbox_row \<Rightarrow> inbox_item" where
  "inbox_from_row r =
     \<lparr>i_id = i_id r, i_thread = i_thread r, i_target = i_target r, i_command = i_command r,
      i_kind = i_kind r, i_state = i_state r, i_payload = i_payload r, i_created = i_created r,
      i_claimed = i_claimed r, i_resolved = i_resolved r\<rparr>"

definition inbox_order :: "inbox_row list \<Rightarrow> inbox_row list" where
  "inbox_order = order_by (\<lambda>i. (i_created i, i_id i))"

definition queue_order :: "inbox_row list \<Rightarrow> inbox_row list" where
  "queue_order = order_by (\<lambda>i. (coalesce (i_sort i) (i_created i), i_created i, i_id i))"

definition is_queued :: "inbox_row \<Rightarrow> bool" where
  "is_queued i \<longleftrightarrow> i_kind i = ''followup'' \<and> i_state i = ''pending''"

definition set_inbox :: "(inbox_row \<Rightarrow> bool) \<Rightarrow> (inbox_row \<Rightarrow> inbox_row) \<Rightarrow> ledger \<Rightarrow> ledger" where
  "set_inbox p f st = st\<lparr>inbox := set_where p f (inbox st)\<rparr>"

definition control_enqueue_turn :: "env \<Rightarrow> queued_turn \<Rightarrow> ledger \<Rightarrow> unit outcome" where
  "control_enqueue_turn e turn =
     checked (validate_control_json e (q_request turn) ''queued turn request'')
       (\<lambda>_. transact e (\<lambda>st.
          if list_ex (\<lambda>i. i_id i = q_id turn) (inbox st) then
            if list_ex (\<lambda>i. i_id i \<noteq> q_id turn \<and> same_command (i_command i) (Some (q_command turn)))
                 (inbox st)
            then Inl (Sqlite UniqueViolation)
            else if \<not> has_session st (q_thread turn) then Inl (Sqlite ForeignKeyViolation)
            else Inr ((), set_inbox (\<lambda>i. i_id i = q_id turn)
                   (\<lambda>i. i\<lparr>i_thread := q_thread turn, i_target := None,
                          i_command := Some (q_command turn), i_kind := ''followup'',
                          i_state := ''pending'', i_payload := q_request turn,
                          i_created := q_accepted turn,
                          i_sort := coalesce_opt (i_sort i) (Some (q_accepted turn)),
                          i_claimed := None, i_resolved := None\<rparr>) st)
          else ebind (insert_inbox
                 \<lparr>i_id = q_id turn, i_thread = q_thread turn, i_target = None,
                  i_command = Some (q_command turn), i_kind = ''followup'', i_state = ''pending'',
                  i_payload = q_request turn, i_created = q_accepted turn, i_claimed = None,
                  i_resolved = None, i_sort = Some (q_accepted turn)\<rparr> st) (\<lambda>st'. Inr ((), st'))))"

definition queued_turn_from_row :: "inbox_row \<Rightarrow> queued_turn" where
  "queued_turn_from_row i =
     \<lparr>q_id = i_id i, q_thread = i_thread i, q_command = coalesce (i_command i) (i_id i),
      q_request = i_payload i, q_accepted = i_created i\<rparr>"

definition control_queued_turns :: "ledger \<Rightarrow> str option \<Rightarrow> error + queued_turn list" where
  "control_queued_turns st thread_id =
     (case thread_id of
        Some t \<Rightarrow> ebind (required_control_text t ''thread id'') (\<lambda>t'.
          Inr (map queued_turn_from_row
            (queue_order (filter (\<lambda>i. is_queued i \<and> i_thread i = t') (inbox st)))))
      | None \<Rightarrow> Inr (map queued_turn_from_row (queue_order (filter is_queued (inbox st)))))"

text \<open>The ids of a thread's queue in order, and their new order once one is moved next to another.\<close>

definition queue_ids :: "ledger \<Rightarrow> str \<Rightarrow> str list" where
  "queue_ids st t = map i_id (queue_order (filter (\<lambda>i. is_queued i \<and> i_thread i = t) (inbox st)))"

definition moved_ids :: "str list \<Rightarrow> str \<Rightarrow> str \<Rightarrow> bool \<Rightarrow> str list option" where
  "moved_ids ids i target after =
     (if i \<notin> set ids \<or> target \<notin> set ids then None
      else let rest = remove1 i ids;
               k = length (takeWhile (\<lambda>x. x \<noteq> target) rest) + (if after then 1 else 0)
           in Some (take k rest @ [i] @ drop k rest))"

fun renumber :: "int \<Rightarrow> nat \<Rightarrow> str list \<Rightarrow> ledger \<Rightarrow> ledger" where
  "renumber base k [] st = st"
| "renumber base k (q # qs) st =
     renumber base (Suc k) qs
       (set_inbox (\<lambda>i. i_id i = q \<and> is_queued i)
          (\<lambda>i. i\<lparr>i_sort := Some (i64_sat_add base (int k))\<rparr>) st)"

definition move_queued_body :: "env \<Rightarrow> str \<Rightarrow> str \<Rightarrow> str \<Rightarrow> bool \<Rightarrow> bool body" where
  "move_queued_body e t i target after st =
     (case moved_ids (queue_ids st t) i target after of
        None \<Rightarrow> Inr (False, st)
      | Some ids \<Rightarrow> Inr (True, renumber (i64_sat_sub (now e) (int (length ids))) 0 ids st))"

definition control_move_queued_turn :: "env \<Rightarrow> str \<Rightarrow> str \<Rightarrow> str \<Rightarrow> bool \<Rightarrow> ledger \<Rightarrow> bool outcome" where
  "control_move_queued_turn e thread_id turn_id target_id after =
     checked
       (ebind (required_control_text thread_id ''thread id'') (\<lambda>t.
        ebind (required_control_text turn_id ''queued turn id'') (\<lambda>i.
        ebind (required_control_text target_id ''target queued turn id'') (\<lambda>target.
          Inr (t, i, target)))))
       (\<lambda>(t, i, target) st.
          if i = target then (Inr False, st)
          else transact e (move_queued_body e t i target after) st)"

definition update_inbox ::
  "env \<Rightarrow> (inbox_row \<Rightarrow> bool) \<Rightarrow> (inbox_row \<Rightarrow> inbox_row) \<Rightarrow> ledger \<Rightarrow> bool outcome" where
  "update_inbox e p f = transact e (\<lambda>st. Inr (0 < count_where p (inbox st), set_inbox p f st))"

definition control_remove_queued_turn :: "env \<Rightarrow> str \<Rightarrow> ledger \<Rightarrow> bool outcome" where
  "control_remove_queued_turn e turn_id =
     checked (required_control_text turn_id ''queued turn id'')
       (\<lambda>q. update_inbox e (\<lambda>i. i_id i = q \<and> is_queued i)
          (\<lambda>i. i\<lparr>i_state := ''claimed'', i_claimed := Some (now e), i_resolved := Some (now e)\<rparr>))"

definition control_put_inbox :: "env \<Rightarrow> inbox_item \<Rightarrow> ledger \<Rightarrow> unit outcome" where
  "control_put_inbox e item =
     checked
       (if i_kind item \<notin> set inbox_kinds then Inl (InvalidRequest ''invalid inbox kind'')
        else if i_state item \<notin> set inbox_states then Inl (InvalidRequest ''invalid inbox state'')
        else validate_control_json e (i_payload item) ''inbox payload'')
       (\<lambda>_. transact e (\<lambda>st. ebind (insert_inbox
          \<lparr>i_id = i_id item, i_thread = i_thread item, i_target = i_target item,
           i_command = i_command item, i_kind = i_kind item, i_state = i_state item,
           i_payload = i_payload item, i_created = i_created item, i_claimed = i_claimed item,
           i_resolved = i_resolved item, i_sort = None\<rparr> st) (\<lambda>st'. Inr ((), st'))))"

definition control_pending_inbox :: "ledger \<Rightarrow> str option \<Rightarrow> error + inbox_item list" where
  "control_pending_inbox st thread_id =
     (case thread_id of
        Some t \<Rightarrow> ebind (required_control_text t ''thread id'') (\<lambda>t'.
          Inr (map inbox_from_row (inbox_order
            (filter (\<lambda>i. i_state i = ''pending'' \<and> i_thread i = t') (inbox st)))))
      | None \<Rightarrow> Inr (map inbox_from_row (inbox_order
            (filter (\<lambda>i. i_state i = ''pending'') (inbox st)))))"

definition step_input :: "str \<Rightarrow> str \<Rightarrow> inbox_row \<Rightarrow> bool" where
  "step_input t r i \<longleftrightarrow>
     i_thread i = t \<and> i_state i = ''pending'' \<and>
     (i_kind i = ''steer'' \<and> i_target i = Some r \<or> i_kind i = ''inject'')"

fun claim_rows :: "int \<Rightarrow> inbox_row list \<Rightarrow> ledger \<Rightarrow> ledger" where
  "claim_rows at [] st = st"
| "claim_rows at (x # xs) st =
     claim_rows at xs
       (set_inbox (\<lambda>i. i_id i = i_id x \<and> i_state i = ''pending'')
          (\<lambda>i. i\<lparr>i_state := ''claimed'', i_claimed := Some at, i_resolved := Some at\<rparr>) st)"

definition claim_step_inputs_body :: "env \<Rightarrow> str \<Rightarrow> str \<Rightarrow> inbox_item list body" where
  "claim_step_inputs_body e t r st =
     (let items = inbox_order (filter (step_input t r) (inbox st)) in
      Inr (map (\<lambda>i. (inbox_from_row i)\<lparr>i_state := ''claimed'', i_claimed := Some (now e),
                       i_resolved := Some (now e)\<rparr>) items,
           claim_rows (now e) items st))"

definition control_claim_step_inputs :: "env \<Rightarrow> str \<Rightarrow> str \<Rightarrow> ledger \<Rightarrow> inbox_item list outcome" where
  "control_claim_step_inputs e thread_id run_id =
     checked
       (ebind (required_control_text thread_id ''thread id'') (\<lambda>t.
        ebind (required_control_text run_id ''run id'') (\<lambda>r. Inr (t, r))))
       (\<lambda>(t, r). transact e (claim_step_inputs_body e t r))"

definition control_cancel_inbox :: "env \<Rightarrow> str \<Rightarrow> ledger \<Rightarrow> bool outcome" where
  "control_cancel_inbox e inbox_id =
     checked (required_control_text inbox_id ''inbox id'')
       (\<lambda>x. update_inbox e (\<lambda>i. i_id i = x \<and> i_state i = ''pending'')
          (\<lambda>i. i\<lparr>i_state := ''cancelled'', i_resolved := Some (now e)\<rparr>))"

definition control_discard_inbox :: "env \<Rightarrow> str \<Rightarrow> ledger \<Rightarrow> bool outcome" where
  "control_discard_inbox e inbox_id =
     checked (required_control_text inbox_id ''inbox id'')
       (\<lambda>x. update_inbox e (\<lambda>i. i_id i = x \<and> i_state i = ''pending'')
          (\<lambda>i. i\<lparr>i_state := ''discarded'', i_resolved := Some (now e)\<rparr>))"

section \<open>The mailbox\<close>

definition set_mailbox :: "(mailbox_row \<Rightarrow> bool) \<Rightarrow> (mailbox_row \<Rightarrow> mailbox_row) \<Rightarrow> ledger \<Rightarrow> ledger" where
  "set_mailbox p f st = st\<lparr>mailbox := set_where p f (mailbox st)\<rparr>"

text \<open>A run that ended leaves its steers as follow-ups, and their mailbox requests queued again.\<close>

definition pending_steer :: "str \<Rightarrow> inbox_row \<Rightarrow> bool" where
  "pending_steer r i \<longleftrightarrow> i_kind i = ''steer'' \<and> i_state i = ''pending'' \<and> i_target i = Some r"

definition control_retarget_pending_steers :: "env \<Rightarrow> str \<Rightarrow> ledger \<Rightarrow> nat outcome" where
  "control_retarget_pending_steers e run_id =
     checked (required_control_text run_id ''run id'')
       (\<lambda>r. transact e (\<lambda>st.
          let ids = map i_id (filter (pending_steer r) (inbox st));
              st1 = set_mailbox (\<lambda>m. mb_id m \<in> set ids)
                      (\<lambda>m. m\<lparr>mb_status := ''queued'', mb_target_run := None, mb_updated := now e\<rparr>) st
          in Inr (count_where (pending_steer r) (inbox st1),
                  set_inbox (pending_steer r) (\<lambda>i. i\<lparr>i_kind := ''followup'', i_target := None\<rparr>) st1)))"

definition control_put_mailbox :: "env \<Rightarrow> mailbox_row \<Rightarrow> ledger \<Rightarrow> unit outcome" where
  "control_put_mailbox e item =
     checked
       (if mb_status item \<notin> set mailbox_statuses then Inl (InvalidRequest ''invalid mailbox status'')
        else ebind (validate_control_json e (mb_request item) ''mailbox request'')
               (\<lambda>_. validate_optional_control_json e (mb_reply item) ''mailbox reply''))
       (\<lambda>_. transact e (\<lambda>st.
          if list_ex (\<lambda>m. mb_id m = mb_id item) (mailbox st) then
            if \<not> has_run_opt st (mb_target_run item) then Inl (Sqlite ForeignKeyViolation)
            else Inr ((), set_mailbox (\<lambda>m. mb_id m = mb_id item)
                   (\<lambda>m. m\<lparr>mb_origin_run := coalesce_opt (mb_origin_run item) (mb_origin_run m),
                          mb_target_run := coalesce_opt (mb_target_run item) (mb_target_run m),
                          mb_status := mb_status item, mb_reply := mb_reply item,
                          mb_updated := mb_updated item, mb_consumed := mb_consumed item,
                          mb_projected := mb_projected item\<rparr>) st)
          else ebind (insert_mailbox item st) (\<lambda>st'. Inr ((), st'))))"

definition mailbox_order :: "mailbox_row list \<Rightarrow> mailbox_row list" where
  "mailbox_order = order_by (\<lambda>m. (mb_created m, mb_id m))"

definition control_mailbox :: "ledger \<Rightarrow> str \<Rightarrow> error + mailbox_row option" where
  "control_mailbox st mailbox_id =
     ebind (required_control_text mailbox_id ''mailbox id'') (\<lambda>x.
       Inr (row_where (\<lambda>m. mb_id m = x) (mailbox st)))"

definition control_mailbox_for_origin :: "ledger \<Rightarrow> str \<Rightarrow> error + mailbox_row list" where
  "control_mailbox_for_origin st origin =
     ebind (required_control_text origin ''origin thread id'') (\<lambda>t.
       Inr (mailbox_order (filter (\<lambda>m. mb_origin m = t) (mailbox st))))"

definition control_mailboxes_for_target_run :: "ledger \<Rightarrow> str \<Rightarrow> error + mailbox_row list" where
  "control_mailboxes_for_target_run st target_run =
     ebind (required_control_text target_run ''target run id'') (\<lambda>r.
       Inr (mailbox_order (filter (\<lambda>m. mb_target_run m = Some r) (mailbox st))))"

definition control_delete_mailbox :: "env \<Rightarrow> str \<Rightarrow> ledger \<Rightarrow> bool outcome" where
  "control_delete_mailbox e mailbox_id =
     checked (required_control_text mailbox_id ''mailbox id'')
       (\<lambda>x. transact e (\<lambda>st.
          Inr (0 < count_where (\<lambda>m. mb_id m = x) (mailbox st),
               st\<lparr>mailbox := drop_where (\<lambda>m. mb_id m = x) (mailbox st)\<rparr>)))"

definition is_answered :: "mailbox_row \<Rightarrow> bool" where
  "is_answered m \<longleftrightarrow> mb_status m = ''replied'' \<or> mb_status m = ''failed''"

definition update_mailbox ::
  "env \<Rightarrow> (mailbox_row \<Rightarrow> bool) \<Rightarrow> (mailbox_row \<Rightarrow> mailbox_row) \<Rightarrow> ledger \<Rightarrow> bool outcome" where
  "update_mailbox e p f = transact e (\<lambda>st. Inr (0 < count_where p (mailbox st), set_mailbox p f st))"

definition control_mark_mailbox_projected :: "env \<Rightarrow> str \<Rightarrow> ledger \<Rightarrow> bool outcome" where
  "control_mark_mailbox_projected e mailbox_id =
     checked (required_control_text mailbox_id ''mailbox id'')
       (\<lambda>x. update_mailbox e (\<lambda>m. mb_id m = x \<and> is_answered m)
          (\<lambda>m. m\<lparr>mb_projected := coalesce_opt (mb_projected m) (Some (now e)), mb_updated := now e\<rparr>))"

definition control_mark_mailbox_consumed :: "env \<Rightarrow> str \<Rightarrow> str \<Rightarrow> str \<Rightarrow> ledger \<Rightarrow> bool outcome" where
  "control_mark_mailbox_consumed e mailbox_id origin origin_run =
     checked
       (ebind (required_control_text mailbox_id ''mailbox id'') (\<lambda>x.
        ebind (required_control_text origin ''origin thread id'') (\<lambda>t.
        ebind (required_control_text origin_run ''origin run id'') (\<lambda>r. Inr (x, t, r)))))
       (\<lambda>(x, t, r). update_mailbox e
          (\<lambda>m. mb_id m = x \<and> mb_origin m = t \<and> mb_origin_run m = Some r \<and> is_answered m
                 \<and> mb_consumed m = None)
          (\<lambda>m. m\<lparr>mb_consumed := Some (now e), mb_updated := now e\<rparr>))"

fun consume_rows :: "int \<Rightarrow> str \<Rightarrow> mailbox_row list \<Rightarrow> ledger \<Rightarrow> ledger" where
  "consume_rows at r [] st = st"
| "consume_rows at r (x # xs) st =
     consume_rows at r xs
       (set_mailbox (\<lambda>m. mb_id m = mb_id x \<and> mb_consumed m = None)
          (\<lambda>m. m\<lparr>mb_consumed := Some at, mb_origin_run := Some r, mb_updated := at\<rparr>) st)"

definition reply_waiting :: "str \<Rightarrow> mailbox_row \<Rightarrow> bool" where
  "reply_waiting t m \<longleftrightarrow> mb_origin m = t \<and> is_answered m \<and> mb_consumed m = None"

definition claim_mailbox_body :: "env \<Rightarrow> str \<Rightarrow> str \<Rightarrow> int \<Rightarrow> mailbox_row list body" where
  "claim_mailbox_body e t r limit st =
     (let items = limit_rows (clamp 1 50 limit) (mailbox_order (filter (reply_waiting t) (mailbox st)))
      in Inr (map (\<lambda>m. m\<lparr>mb_consumed := Some (now e), mb_origin_run := Some r, mb_updated := now e\<rparr>) items,
              consume_rows (now e) r items st))"

definition control_claim_mailbox_replies ::
  "env \<Rightarrow> str \<Rightarrow> str \<Rightarrow> int \<Rightarrow> ledger \<Rightarrow> mailbox_row list outcome" where
  "control_claim_mailbox_replies e origin origin_run limit =
     checked
       (ebind (required_control_text origin ''origin thread id'') (\<lambda>t.
        ebind (required_control_text origin_run ''origin run id'') (\<lambda>r. Inr (t, r))))
       (\<lambda>(t, r). transact e (claim_mailbox_body e t r limit))"

section \<open>The invariant is kept\<close>

lemma set_inbox_ok:
  assumes ok: "ledger_ok st"
    and f: "\<And>i. i \<in> set (inbox st) \<Longrightarrow> p i \<Longrightarrow>
      i_id (f i) = i_id i \<and> i_command (f i) = i_command i \<and> i_thread (f i) = i_thread i \<and>
      i_kind (f i) \<in> set inbox_kinds \<and> i_state (f i) \<in> set inbox_states \<and>
      run_in (rids st) (i_target (f i))"
  shows "ledger_ok (set_inbox p f st)"
proof -
  have "map i_id (set_where p f (inbox st)) = map i_id (inbox st)"
    "map i_command (set_where p f (inbox st)) = map i_command (inbox st)"
    using f by (intro set_where_keeps; blast)+
  then have "inbox_ok (sids st) (rids st) (set_where p f (inbox st))"
    using ok f by (auto simp: ledger_ok_def inbox_ok_def ball_set_where)
  then show ?thesis using ok by (simp add: ledger_ok_def set_inbox_def)
qed

lemma set_mailbox_ok:
  assumes ok: "ledger_ok st"
    and f: "\<And>m. m \<in> set (mailbox st) \<Longrightarrow> p m \<Longrightarrow>
      mb_id (f m) = mb_id m \<and> mb_origin (f m) = mb_origin m \<and> mb_target (f m) = mb_target m \<and>
      mb_status (f m) \<in> set mailbox_statuses \<and> run_in (rids st) (mb_target_run (f m))"
  shows "ledger_ok (set_mailbox p f st)"
proof -
  have "map mb_id (set_where p f (mailbox st)) = map mb_id (mailbox st)"
    using f by (intro set_where_keeps) blast
  then have "mailbox_ok (sids st) (rids st) (set_where p f (mailbox st))"
    using ok f by (auto simp: ledger_ok_def mailbox_ok_def ball_set_where)
  then show ?thesis using ok by (simp add: ledger_ok_def set_mailbox_def)
qed

lemma inbox_row_facts:
  assumes "ledger_ok st" and "i \<in> set (inbox st)"
  shows "i_kind i \<in> set inbox_kinds" and "i_state i \<in> set inbox_states"
    and "i_thread i \<in> sids st" and "run_in (rids st) (i_target i)"
  using assms by (simp_all add: ledger_ok_def inbox_ok_def)

lemma mailbox_row_facts:
  assumes "ledger_ok st" and "m \<in> set (mailbox st)"
  shows "mb_status m \<in> set mailbox_statuses" and "run_in (rids st) (mb_target_run m)"
  using assms by (simp_all add: ledger_ok_def mailbox_ok_def)

lemma insert_inbox_keeps:
  assumes "ledger_ok st" and "insert_inbox r st = Inr st'"
  shows "ledger_ok st'"
proof -
  from assms(2) have st': "st' = st\<lparr>inbox := inbox st @ [r]\<rparr>"
    and chk: "i_kind r \<in> set inbox_kinds" "i_state r \<in> set inbox_states"
    and fk: "i_thread r \<in> sids st" "run_in (rids st) (i_target r)"
    and new: "\<forall>x \<in> set (inbox st). \<not> (i_id x = i_id r \<or> same_command (i_command x) (i_command r))"
    unfolding insert_inbox_def ebind_Inr_iff insert_row_ok has_session_iff has_run_opt_iff by blast+
  from new have "i_id r \<notin> i_id ` set (inbox st)"
    and "i_command r = None \<or> i_command r \<notin> i_command ` set (inbox st)"
    by (auto simp: same_command_def)
  then have "inbox_ok (sids st) (rids st) (inbox st @ [r])"
    using assms(1) chk fk by (simp add: ledger_ok_def inbox_ok_def distinct_somes_snoc)
  then show ?thesis using assms(1) by (simp add: ledger_ok_def st')
qed

lemma insert_mailbox_keeps:
  assumes "ledger_ok st" and "insert_mailbox r st = Inr st'"
  shows "ledger_ok st'"
proof -
  from assms(2) have st': "st' = st\<lparr>mailbox := mailbox st @ [r]\<rparr>"
    and chk: "mb_status r \<in> set mailbox_statuses"
    and fk: "mb_origin r \<in> sids st" "mb_target r \<in> sids st" "run_in (rids st) (mb_target_run r)"
    and new: "\<forall>x \<in> set (mailbox st). mb_id x \<noteq> mb_id r"
    unfolding insert_mailbox_def ebind_Inr_iff insert_row_ok has_session_iff has_run_opt_iff by blast+
  from new have "mb_id r \<notin> mb_id ` set (mailbox st)" by auto
  then have "mailbox_ok (sids st) (rids st) (mailbox st @ [r])"
    using assms(1) chk fk by (simp add: ledger_ok_def mailbox_ok_def)
  then show ?thesis using assms(1) by (simp add: ledger_ok_def st')
qed

lemma claim_rows_eq:
  "claim_rows at xs st =
     set_inbox (\<lambda>i. i_id i \<in> i_id ` set xs \<and> i_state i = ''pending'')
       (\<lambda>i. i\<lparr>i_state := ''claimed'', i_claimed := Some at, i_resolved := Some at\<rparr>) st"
proof (induction at xs st rule: claim_rows.induct)
  case (1 at st)
  then show ?case by (simp add: set_inbox_def)
next
  case (2 at x xs st)
  have "(\<lambda>i :: inbox_row. i_id i = i_id x \<and> i_state i = ''pending''
          \<or> i_id i \<in> i_id ` set xs \<and> i_state i = ''pending'')
      = (\<lambda>i. i_id i \<in> i_id ` set (x # xs) \<and> i_state i = ''pending'')"
    by auto
  then show ?case
    unfolding claim_rows.simps 2 by (simp add: set_inbox_def set_where_comp)
qed

lemma consume_rows_eq:
  "consume_rows at r xs st =
     set_mailbox (\<lambda>m. mb_id m \<in> mb_id ` set xs \<and> mb_consumed m = None)
       (\<lambda>m. m\<lparr>mb_consumed := Some at, mb_origin_run := Some r, mb_updated := at\<rparr>) st"
proof (induction at r xs st rule: consume_rows.induct)
  case (1 at r st)
  then show ?case by (simp add: set_mailbox_def)
next
  case (2 at r x xs st)
  have "(\<lambda>m :: mailbox_row. mb_id m = mb_id x \<and> mb_consumed m = None
          \<or> mb_id m \<in> mb_id ` set xs \<and> mb_consumed m = None)
      = (\<lambda>m. mb_id m \<in> mb_id ` set (x # xs) \<and> mb_consumed m = None)"
    by auto
  then show ?case
    unfolding consume_rows.simps 2 by (simp add: set_mailbox_def set_where_comp)
qed

lemma renumber_keeps: "ledger_ok st \<Longrightarrow> ledger_ok (renumber base k qs st)"
proof (induction base k qs st rule: renumber.induct)
  case (1 base k st)
  then show ?case by simp
next
  case (2 base k q qs st)
  have "ledger_ok (set_inbox (\<lambda>i. i_id i = q \<and> is_queued i)
          (\<lambda>i. i\<lparr>i_sort := Some (i64_sat_add base (int k))\<rparr>) st)"
    by (rule set_inbox_ok[OF 2(2)]) (use inbox_row_facts[OF 2(2)] in simp)
  from 2(1)[OF this] show ?case by simp
qed

lemma enqueue_update_keeps:
  assumes ok: "ledger_ok st"
    and uniq: "\<not> list_ex (\<lambda>i. i_id i \<noteq> q_id turn \<and> same_command (i_command i) (Some (q_command turn)))
                 (inbox st)"
    and fk: "has_session st (q_thread turn)"
  shows "ledger_ok (set_inbox (\<lambda>i. i_id i = q_id turn)
                   (\<lambda>i. i\<lparr>i_thread := q_thread turn, i_target := None,
                          i_command := Some (q_command turn), i_kind := ''followup'',
                          i_state := ''pending'', i_payload := q_request turn,
                          i_created := q_accepted turn,
                          i_sort := coalesce_opt (i_sort i) (Some (q_accepted turn)),
                          i_claimed := None, i_resolved := None\<rparr>) st)" (is "ledger_ok (set_inbox ?p ?f st)")
proof -
  have cmds: "distinct_somes (map i_command (set_where ?p ?f xs))"
    if "distinct (map i_id xs)" "distinct_somes (map i_command xs)"
      "\<forall>i \<in> set xs. i_id i \<noteq> q_id turn \<longrightarrow> i_command i \<noteq> Some (q_command turn)" for xs
    using that
  proof (induction xs)
    case Nil
    then show ?case by (simp add: set_where_def)
  next
    case (Cons x xs)
    have IH: "distinct_somes (map i_command (set_where ?p ?f xs))"
      using Cons by (simp add: distinct_somes_Cons)
    show ?case
    proof (cases "i_id x = q_id turn")
      case True
      then have none: "\<forall>i \<in> set xs. i_id i \<noteq> q_id turn"
        using Cons.prems(1) by (force simp: image_iff)
      then have "set_where ?p ?f xs = xs" by (simp add: set_where_none count_where_zero)
      then show ?thesis
        using Cons.prems none True by (auto simp: set_where_Cons distinct_somes_Cons)
    next
      case False
      have "i_command x = None \<or> i_command x \<notin> i_command ` set (set_where ?p ?f xs)"
        using Cons.prems False by (auto simp: set_set_where distinct_somes_Cons)
      with IH False show ?thesis
        by (simp add: set_where_Cons distinct_somes_Cons)
    qed
  qed
  have ids: "map i_id (set_where ?p ?f (inbox st)) = map i_id (inbox st)"
    by (rule set_where_keeps) simp
  have cm: "distinct_somes (map i_command (set_where ?p ?f (inbox st)))"
    by (rule cmds)
       (use ok uniq in \<open>auto simp: ledger_ok_def inbox_ok_def list_ex_iff same_command_def\<close>)
  have "inbox_ok (sids st) (rids st) (set_where ?p ?f (inbox st))"
    unfolding inbox_ok_def ids
    using ok fk cm
    by (auto simp: ledger_ok_def inbox_ok_def ball_set_where
        has_session_iff inbox_kinds_def inbox_states_def)
  then show ?thesis using ok by (simp add: ledger_ok_def set_inbox_def)
qed

lemmas state_literals = inbox_kinds_def inbox_states_def mailbox_statuses_def

lemma inbox_ops_keep:
  assumes ok: "ledger_ok st"
  shows "ledger_ok (snd (control_enqueue_turn e turn st))"
    and "ledger_ok (snd (control_move_queued_turn e t i target after st))"
    and "ledger_ok (snd (control_remove_queued_turn e i st))"
    and "ledger_ok (snd (control_put_inbox e item st))"
    and "ledger_ok (snd (control_claim_step_inputs e t r st))"
    and "ledger_ok (snd (control_cancel_inbox e i st))"
    and "ledger_ok (snd (control_discard_inbox e i st))"
proof -
  note rows = inbox_row_facts[OF ok]
  have upd: "ledger_ok (snd (update_inbox e p f st))"
    if "\<And>i. i_id (f i) = i_id i" "\<And>i. i_command (f i) = i_command i"
      "\<And>i. i_thread (f i) = i_thread i" "\<And>i. i_kind (f i) = i_kind i"
      "\<And>i. i_target (f i) = i_target i" "\<And>i. i_state (f i) \<in> set inbox_states" for p f
    unfolding update_inbox_def
    by (rule transact_keeps[where P = ledger_ok, OF ok]) (use that rows in \<open>auto intro!: set_inbox_ok[OF ok]\<close>)
  show "ledger_ok (snd (control_enqueue_turn e turn st))"
    unfolding control_enqueue_turn_def
    by (rule checked_keeps[where P = ledger_ok, OF ok], rule transact_keeps[where P = ledger_ok, OF ok])
       (auto split: if_splits intro: enqueue_update_keeps[OF ok] insert_inbox_keeps[OF ok])
  show "ledger_ok (snd (control_move_queued_turn e t i target after st))"
    unfolding control_move_queued_turn_def
    by (rule checked_keeps[where P = ledger_ok, OF ok])
       (auto simp: ok move_queued_body_def renumber_keeps[OF ok] split: option.splits
         intro!: transact_keeps[where P = ledger_ok, OF ok])
  show "ledger_ok (snd (control_remove_queued_turn e i st))"
    unfolding control_remove_queued_turn_def
    by (rule checked_keeps[where P = ledger_ok, OF ok], rule upd) (simp_all add: state_literals)
  show "ledger_ok (snd (control_put_inbox e item st))"
    unfolding control_put_inbox_def
    by (rule checked_keeps[where P = ledger_ok, OF ok], rule transact_keeps[where P = ledger_ok, OF ok]) (auto intro: insert_inbox_keeps[OF ok])
  show "ledger_ok (snd (control_claim_step_inputs e t r st))"
    unfolding control_claim_step_inputs_def
    by (rule checked_keeps[where P = ledger_ok, OF ok])
       (auto simp: claim_step_inputs_body_def Let_def claim_rows_eq rows state_literals(2)
         intro!: transact_keeps[where P = ledger_ok, OF ok] set_inbox_ok[OF ok])
  show "ledger_ok (snd (control_cancel_inbox e i st))"
    unfolding control_cancel_inbox_def
    by (rule checked_keeps[where P = ledger_ok, OF ok], rule upd) (simp_all add: state_literals)
  show "ledger_ok (snd (control_discard_inbox e i st))"
    unfolding control_discard_inbox_def
    by (rule checked_keeps[where P = ledger_ok, OF ok], rule upd) (simp_all add: state_literals)
qed

lemma mailbox_ops_keep:
  assumes ok: "ledger_ok st"
  shows "ledger_ok (snd (control_retarget_pending_steers e r st))"
    and "ledger_ok (snd (control_put_mailbox e item st))"
    and "ledger_ok (snd (control_delete_mailbox e x st))"
    and "ledger_ok (snd (control_mark_mailbox_projected e x st))"
    and "ledger_ok (snd (control_mark_mailbox_consumed e x t r st))"
    and "ledger_ok (snd (control_claim_mailbox_replies e t r limit st))"
proof -
  note rows = mailbox_row_facts[OF ok]
  have upd: "ledger_ok (snd (update_mailbox e p f st))"
    if "\<And>i. mb_id (f i) = mb_id i" "\<And>i. mb_origin (f i) = mb_origin i"
      "\<And>i. mb_target (f i) = mb_target i" "\<And>i. mb_target_run (f i) = mb_target_run i"
      "\<And>i. mb_status (f i) = mb_status i" for p f
    unfolding update_mailbox_def
    by (rule transact_keeps[where P = ledger_ok, OF ok]) (use that rows in \<open>auto intro!: set_mailbox_ok[OF ok]\<close>)
  show "ledger_ok (snd (control_retarget_pending_steers e r st))"
  proof -
    have ok1: "ledger_ok (set_mailbox p
        (\<lambda>m. m\<lparr>mb_status := ''queued'', mb_target_run := None, mb_updated := now e\<rparr>) st)" for p
      by (rule set_mailbox_ok[OF ok]) (simp add: state_literals)
    have "ledger_ok (set_inbox q (\<lambda>i. i\<lparr>i_kind := ''followup'', i_target := None\<rparr>) (set_mailbox p
        (\<lambda>m. m\<lparr>mb_status := ''queued'', mb_target_run := None, mb_updated := now e\<rparr>) st))" for p q
      by (rule set_inbox_ok[OF ok1])
         (use inbox_row_facts(2)[OF ok] in \<open>simp add: set_mailbox_def inbox_kinds_def\<close>)
    then show ?thesis
      unfolding control_retarget_pending_steers_def
      by (intro checked_keeps[where P = ledger_ok, OF ok] transact_keeps[where P = ledger_ok, OF ok]) (auto simp: Let_def)
  qed
  show "ledger_ok (snd (control_put_mailbox e item st))"
    unfolding control_put_mailbox_def
  proof (rule checked_keeps[where P = ledger_ok, OF ok], rule transact_keeps[where P = ledger_ok, OF ok])
    fix u x st'
    assume v: "(if mb_status item \<notin> set mailbox_statuses
        then Inl (InvalidRequest ''invalid mailbox status'')
        else ebind (validate_control_json e (mb_request item) ''mailbox request'')
               (\<lambda>_. validate_optional_control_json e (mb_reply item) ''mailbox reply'')) = Inr u"
    then have "mb_status item \<in> set mailbox_statuses" by (auto split: if_splits)
    moreover assume "(if list_ex (\<lambda>m. mb_id m = mb_id item) (mailbox st) then
            if \<not> has_run_opt st (mb_target_run item) then Inl (Sqlite ForeignKeyViolation)
            else Inr ((), set_mailbox (\<lambda>m. mb_id m = mb_id item)
                   (\<lambda>m. m\<lparr>mb_origin_run := coalesce_opt (mb_origin_run item) (mb_origin_run m),
                          mb_target_run := coalesce_opt (mb_target_run item) (mb_target_run m),
                          mb_status := mb_status item, mb_reply := mb_reply item,
                          mb_updated := mb_updated item, mb_consumed := mb_consumed item,
                          mb_projected := mb_projected item\<rparr>) st)
          else ebind (insert_mailbox item st) (\<lambda>st'. Inr ((), st'))) = Inr (x, st')"
    ultimately show "ledger_ok st'"
      using rows
      by (auto simp: has_run_opt_iff coalesce_opt_def split: if_splits option.splits
          intro: insert_mailbox_keeps[OF ok] intro!: set_mailbox_ok[OF ok])
  qed
  show "ledger_ok (snd (control_delete_mailbox e x st))"
    unfolding control_delete_mailbox_def
    by (rule checked_keeps[where P = ledger_ok, OF ok], rule transact_keeps[where P = ledger_ok, OF ok])
       (use ok in \<open>auto simp: ledger_ok_def mailbox_ok_def distinct_drop_where\<close>)
  show "ledger_ok (snd (control_mark_mailbox_projected e x st))"
    unfolding control_mark_mailbox_projected_def by (rule checked_keeps[where P = ledger_ok, OF ok], rule upd) simp_all
  show "ledger_ok (snd (control_mark_mailbox_consumed e x t r st))"
    unfolding control_mark_mailbox_consumed_def
    by (rule checked_keeps[where P = ledger_ok, OF ok]) (auto intro!: upd)
  show "ledger_ok (snd (control_claim_mailbox_replies e t r limit st))"
    unfolding control_claim_mailbox_replies_def
    by (rule checked_keeps[where P = ledger_ok, OF ok])
       (auto simp: claim_mailbox_body_def Let_def consume_rows_eq rows
         intro!: transact_keeps[where P = ledger_ok, OF ok] set_mailbox_ok[OF ok])
qed

end
