(* ===== verification/Ledger_Runs.thy ===== *)
theory Ledger_Runs
  imports Ledger_Inbox
begin

text \<open>
  Runs and what belongs to them: the run records, the approvals a run waits for, the command
  receipts that make retries idempotent, and the reconciliation a restart does.
\<close>

section \<open>Run records\<close>

definition is_active :: "run_row \<Rightarrow> bool" where
  "is_active r \<longleftrightarrow> r_status r = ''accepted'' \<or> r_status r = ''running''"

definition control_run :: "ledger \<Rightarrow> str \<Rightarrow> error + run_row option" where
  "control_run st run_id =
     ebind (required_control_text run_id ''run id'') (\<lambda>x.
       Inr (row_where (\<lambda>r. r_id r = x) (runs st)))"

definition set_runs :: "(run_row \<Rightarrow> bool) \<Rightarrow> (run_row \<Rightarrow> run_row) \<Rightarrow> ledger \<Rightarrow> ledger" where
  "set_runs p f st = st\<lparr>runs := set_where p f (runs st)\<rparr>"

definition control_put_run :: "env \<Rightarrow> run_row \<Rightarrow> ledger \<Rightarrow> unit outcome" where
  "control_put_run e run =
     checked
       (ebind (validate_control_json e (r_request run) ''run request'') (\<lambda>_.
        ebind (validate_optional_control_json e (r_snapshot run) ''agent snapshot'') (\<lambda>_.
        ebind (validate_optional_control_json e (r_native run) ''native session'') (\<lambda>_.
          validate_optional_control_json e (r_error run) ''run error''))))
       (\<lambda>_. transact e (\<lambda>st.
          if has_run st (r_id run)
          then Inr ((), set_runs (\<lambda>r. r_id r = r_id run)
                 (\<lambda>r. r\<lparr>r_status := r_status run, r_native := coalesce_opt (r_native run) (r_native r),
                        r_updated := r_updated run, r_completed := r_completed run,
                        r_error := r_error run\<rparr>) st)
          else ebind (insert_run run st) (\<lambda>st'. Inr ((), st'))))"

definition control_runs :: "ledger \<Rightarrow> bool \<Rightarrow> run_row list" where
  "control_runs st nonterminal_only =
     order_by r_created (filter (\<lambda>r. nonterminal_only \<longrightarrow> is_active r) (runs st))"

definition control_has_active_runs :: "ledger \<Rightarrow> bool" where
  "control_has_active_runs st = list_ex is_active (runs st)"

section \<open>Approvals\<close>

definition set_approvals ::
  "(approval_row \<Rightarrow> bool) \<Rightarrow> (approval_row \<Rightarrow> approval_row) \<Rightarrow> ledger \<Rightarrow> ledger" where
  "set_approvals p f st = st\<lparr>approvals := set_where p f (approvals st)\<rparr>"

definition control_put_approval :: "env \<Rightarrow> approval_row \<Rightarrow> ledger \<Rightarrow> unit outcome" where
  "control_put_approval e a =
     checked
       (ebind (validate_control_json e (a_request a) ''approval request'') (\<lambda>_.
          validate_optional_control_json e (a_decision a) ''approval decision''))
       (\<lambda>_. transact e (\<lambda>st.
          if list_ex (\<lambda>x. a_id x = a_id a) (approvals st)
          then Inr ((), set_approvals (\<lambda>x. a_id x = a_id a)
                 (\<lambda>x. x\<lparr>a_status := a_status a, a_decision := a_decision a,
                        a_resolved := a_resolved a\<rparr>) st)
          else ebind (insert_approval a st) (\<lambda>st'. Inr ((), st'))))"

definition control_pending_approvals :: "ledger \<Rightarrow> approval_row list" where
  "control_pending_approvals st =
     order_by a_created (filter (\<lambda>a. a_status a = ''pending'') (approvals st))"

definition control_approval :: "ledger \<Rightarrow> str \<Rightarrow> error + approval_row option" where
  "control_approval st approval_id =
     ebind (required_control_text approval_id ''approval id'') (\<lambda>x.
       Inr (row_where (\<lambda>a. a_id a = x) (approvals st)))"

definition run_approval_pending :: "str \<Rightarrow> approval_row \<Rightarrow> bool" where
  "run_approval_pending r a \<longleftrightarrow> a_run a = r \<and> a_status a = ''pending''"

definition control_cancel_run_approvals ::
  "env \<Rightarrow> str \<Rightarrow> str \<Rightarrow> ledger \<Rightarrow> approval_row list outcome" where
  "control_cancel_run_approvals e run_id decision =
     checked
       (ebind (required_control_text run_id ''run id'') (\<lambda>r.
        ebind (validate_control_json e decision ''approval decision'') (\<lambda>_. Inr r)))
       (\<lambda>r. transact e (\<lambda>st.
          let f = (\<lambda>a. a\<lparr>a_status := ''cancelled'', a_decision := Some decision,
                         a_resolved := Some (now e)\<rparr>)
          in Inr (map f (order_by a_created (filter (run_approval_pending r) (approvals st))),
                  set_approvals (run_approval_pending r) f st)))"

section \<open>Command receipts\<close>

definition CONTROL_COMMAND_RECEIPT_TTL_MS :: int where
  "CONTROL_COMMAND_RECEIPT_TTL_MS = 30 * 24 * 60 * 60 * 1000"

definition CONTROL_COMMAND_RECEIPT_PRUNE_INTERVAL_MS :: int where
  "CONTROL_COMMAND_RECEIPT_PRUNE_INTERVAL_MS = 60 * 60 * 1000"

definition control_command_receipt :: "ledger \<Rightarrow> str \<Rightarrow> error + receipt_row option" where
  "control_command_receipt st command_id =
     ebind (required_control_text command_id ''command id'') (\<lambda>x.
       Inr (row_where (\<lambda>r. rc_command r = x) (receipts st)))"

definition prune_command_receipts_locked :: "env \<Rightarrow> int \<Rightarrow> ledger \<Rightarrow> nat outcome" where
  "prune_command_receipts_locked e before =
     transact e (\<lambda>st.
       Inr (count_where (\<lambda>r. rc_created r < before) (receipts st),
            st\<lparr>receipts := drop_where (\<lambda>r. rc_created r < before) (receipts st)\<rparr>))"

definition control_prune_command_receipts :: "env \<Rightarrow> int \<Rightarrow> ledger \<Rightarrow> nat outcome" where
  "control_prune_command_receipts e before = prune_command_receipts_locked e before"

text \<open>The pruning is a statement of its own: it stays when the insert after it fails.\<close>

definition control_put_command_receipt :: "env \<Rightarrow> receipt_row \<Rightarrow> ledger \<Rightarrow> unit outcome" where
  "control_put_command_receipt e receipt =
     checked
       (ebind (validate_control_json e (rc_request receipt) ''command request'') (\<lambda>_.
          validate_control_json e (rc_result receipt) ''command result''))
       (\<lambda>_ st.
          let (res, st1) =
            (if next_prune st \<le> now e
             then prune_command_receipts_locked e (i64_sat_sub (now e) CONTROL_COMMAND_RECEIPT_TTL_MS)
                    (st\<lparr>next_prune := i64_sat_add (now e) CONTROL_COMMAND_RECEIPT_PRUNE_INTERVAL_MS\<rparr>)
             else (Inr 0, st))
          in case res of
               Inl err \<Rightarrow> (Inl err, st1)
             | Inr _ \<Rightarrow> transact e (\<lambda>s. ebind (insert_receipt receipt s) (\<lambda>s'. Inr ((), s'))) st1)"

section \<open>Restart\<close>

definition CONTROL_RESTART_RUN_ERROR :: str where
  \<open>CONTROL_RESTART_RUN_ERROR =
     ''{"code":"process_restarted","message":"milim stopped before this run completed."}''\<close>

text \<open>What SQLite's \<open>json_object('content', '', 'error', ..., 'code', ...)\<close> writes.\<close>

definition restart_reply :: str where
  \<open>restart_reply =
     ''{"content":"","error":"milim stopped before the linked thread completed.","code":"process_restarted"}''\<close>

definition append_control_timeline_once_locked ::
  "env \<Rightarrow> str \<Rightarrow> str \<Rightarrow> str option \<Rightarrow> str \<Rightarrow> str \<Rightarrow> int \<Rightarrow> ledger \<Rightarrow> error + ledger" where
  "append_control_timeline_once_locked e t item run ty data at st =
     (let has_timeline = (list_ex (\<lambda>c. c_thread c = t) (controls st)
                          \<and> list_ex (\<lambda>r. t_thread r = t) (timeline st));
          recorded = list_ex (\<lambda>r. t_item r = item) (timeline st)
      in if has_timeline \<and> \<not> recorded
         then ebind (append_control_timeline_locked e t item run ty data at st) (\<lambda>(r, st'). Inr st')
         else Inr st)"

definition approval_restart_item :: "env \<Rightarrow> int \<Rightarrow> (str \<times> str \<times> str) \<Rightarrow> ledger \<Rightarrow> error + ledger" where
  "approval_restart_item e at a =
     (case a of (i, r, t) \<Rightarrow>
        append_control_timeline_once_locked e t (''approval-interrupted:'' @ i) (Some r)
          ''approval_resolved''
          (env_show e (mk_obj [(''approval_id'', JStr i), (''decision'', JStr ''deny''),
             (''status'', JStr ''interrupted''), (''reason'', JStr ''process_restarted'')])) at)"

definition run_restart_item :: "env \<Rightarrow> int \<Rightarrow> (str \<times> str \<times> str) \<Rightarrow> ledger \<Rightarrow> error + ledger" where
  "run_restart_item e at x =
     (case x of (r, t, err) \<Rightarrow>
        append_control_timeline_once_locked e t (''run-interrupted:'' @ r) (Some r) ''run_status''
          (env_show e (mk_obj [(''run_id'', JStr r), (''status'', JStr ''interrupted''),
             (''error'', case env_parse e err of Inl _ \<Rightarrow> JNull | Inr v \<Rightarrow> v)])) at)"

definition append_control_restart_timeline_locked ::
  "env \<Rightarrow> (str \<times> str \<times> str) list \<Rightarrow> (str \<times> str \<times> str) list \<Rightarrow> int \<Rightarrow> ledger \<Rightarrow> error + ledger" where
  "append_control_restart_timeline_locked e rs as at st =
     ebind (efold (approval_restart_item e at) as st) (efold (run_restart_item e at) rs)"

definition interrupted_runs :: "ledger \<Rightarrow> (str \<times> str \<times> str) list" where
  "interrupted_runs st =
     map (\<lambda>r. (r_id r, r_thread r, coalesce (r_error r) CONTROL_RESTART_RUN_ERROR))
       (order_by r_created (filter is_active (runs st)))"

definition interrupted_approvals :: "ledger \<Rightarrow> (str \<times> str \<times> str) list" where
  "interrupted_approvals st =
     map (\<lambda>a. (a_id a, a_run a, a_thread a))
       (order_by a_created (filter (\<lambda>a. a_status a = ''pending'') (approvals st)))"

text \<open>The four updates of \<open>reconcile_control_startup_locked\<close>, in order.\<close>

definition interrupt_runs :: "env \<Rightarrow> ledger \<Rightarrow> ledger" where
  "interrupt_runs e = set_runs is_active
     (\<lambda>r. r\<lparr>r_status := ''interrupted'', r_updated := now e, r_completed := Some (now e),
            r_error := Some (coalesce (r_error r) CONTROL_RESTART_RUN_ERROR)\<rparr>)"

definition interrupt_approvals :: "env \<Rightarrow> ledger \<Rightarrow> ledger" where
  "interrupt_approvals e = set_approvals (\<lambda>a. a_status a = ''pending'')
     (\<lambda>a. a\<lparr>a_status := ''interrupted'', a_resolved := Some (now e)\<rparr>)"

definition orphan_steer :: "ledger \<Rightarrow> inbox_row \<Rightarrow> bool" where
  "orphan_steer st i \<longleftrightarrow>
     i_kind i = ''steer'' \<and> i_state i = ''pending'' \<and>
     (case i_target i of None \<Rightarrow> True
      | Some x \<Rightarrow> \<not> list_ex (\<lambda>r. r_id r = x \<and> is_active r) (runs st))"

definition requeue_steers :: "ledger \<Rightarrow> ledger" where
  "requeue_steers st =
     set_inbox (orphan_steer st) (\<lambda>i. i\<lparr>i_kind := ''followup'', i_target := None\<rparr>) st"

definition lost_mailbox :: "ledger \<Rightarrow> mailbox_row \<Rightarrow> bool" where
  "lost_mailbox st m \<longleftrightarrow>
     mb_status m = ''running'' \<and>
     (case mb_target_run m of None \<Rightarrow> False
      | Some x \<Rightarrow> list_ex (\<lambda>r. r_id r = x \<and> r_status r = ''interrupted'') (runs st))"

definition fail_mailboxes :: "env \<Rightarrow> ledger \<Rightarrow> ledger" where
  "fail_mailboxes e st = set_mailbox (lost_mailbox st)
     (\<lambda>m. m\<lparr>mb_status := ''failed'', mb_updated := now e,
            mb_reply := Some (coalesce (mb_reply m) restart_reply)\<rparr>) st"

definition reconcile_control_startup_locked :: "env \<Rightarrow> (nat \<times> nat) body" where
  "reconcile_control_startup_locked e st =
     (let rs = interrupted_runs st;
          as = interrupted_approvals st;
          n = count_where is_active (runs st);
          k = count_where (\<lambda>a. a_status a = ''pending'') (approvals st);
          st1 = fail_mailboxes e (requeue_steers (interrupt_approvals e (interrupt_runs e st)))
      in ebind (append_control_restart_timeline_locked e rs as (now e) st1) (\<lambda>st2. Inr ((n, k), st2)))"

definition reconcile_control_startup :: "env \<Rightarrow> ledger \<Rightarrow> (nat \<times> nat) outcome" where
  "reconcile_control_startup e = transact e (reconcile_control_startup_locked e)"

section \<open>The invariant is kept\<close>

lemma set_runs_ok:
  assumes ok: "ledger_ok st"
    and f: "\<And>r. r_id (f r) = r_id r" "\<And>r. r_thread (f r) = r_thread r"
  shows "ledger_ok (set_runs p f st)"
proof -
  have "runs_ok (sids st) (set_where p f (runs st))"
    using ok f by (simp add: ledger_ok_def runs_ok_def)
  then show ?thesis using ok f by (simp add: ledger_ok_def set_runs_def)
qed

lemma set_approvals_ok:
  assumes ok: "ledger_ok st"
    and f: "\<And>a. a_id (f a) = a_id a" "\<And>a. a_run (f a) = a_run a" "\<And>a. a_thread (f a) = a_thread a"
  shows "ledger_ok (set_approvals p f st)"
proof -
  have "approvals_ok (sids st) (rids st) (set_where p f (approvals st))"
    using ok f by (auto simp: ledger_ok_def approvals_ok_def ball_set_where)
  then show ?thesis using ok by (simp add: ledger_ok_def set_approvals_def)
qed

lemma insert_run_keeps:
  assumes ok: "ledger_ok st" and ins: "insert_run r st = Inr st'"
  shows "ledger_ok st'"
proof -
  from ins have st': "st' = st\<lparr>runs := runs st @ [r]\<rparr>" and fk: "r_thread r \<in> sids st"
    and new: "r_id r \<notin> rids st"
    by (auto simp: insert_run_def ebind_Inr_iff insert_row_ok has_session_iff)
  have R: "rids st \<subseteq> rids st'" "sids st' = sids st" "digests st' = digests st" by (auto simp: st')
  have "runs_ok (sids st) (runs st @ [r])"
    using ok fk new by (simp add: ledger_ok_def runs_ok_def)
  then show ?thesis
    using ok tables_mono[OF subset_refl R(1) subset_refl]
    by (simp add: ledger_ok_def st')
qed

lemma insert_approval_keeps:
  assumes ok: "ledger_ok st" and ins: "insert_approval a st = Inr st'"
  shows "ledger_ok st'"
proof -
  from ins have st': "st' = st\<lparr>approvals := approvals st @ [a]\<rparr>"
    and fk: "a_run a \<in> rids st" "a_thread a \<in> sids st" and new: "a_id a \<notin> a_id ` set (approvals st)"
    by (simp_all add: insert_approval_def ebind_Inr_iff insert_row_key has_session_iff has_run_iff)
  have "approvals_ok (sids st) (rids st) (approvals st @ [a])"
    using ok fk new by (simp add: ledger_ok_def approvals_ok_def)
  then show ?thesis using ok by (simp add: ledger_ok_def st')
qed

lemma append_once_keeps:
  assumes "ledger_ok st" and "append_control_timeline_once_locked e t item run ty data at st = Inr st'"
  shows "ledger_ok st'"
  using assms append_locked_keeps[OF assms(1)]
  by (auto simp: append_control_timeline_once_locked_def Let_def split: if_splits)

lemma restart_timeline_keeps:
  assumes "ledger_ok st" and "append_control_restart_timeline_locked e rs as at st = Inr st'"
  shows "ledger_ok st'"
proof -
  from assms(2) obtain st1 where s1: "efold (approval_restart_item e at) as st = Inr st1"
    and s2: "efold (run_restart_item e at) rs st1 = Inr st'"
    by (auto simp: append_control_restart_timeline_locked_def)
  have "ledger_ok st1"
    by (rule efold_invariant[where P = ledger_ok, OF _ assms(1) s1])
       (auto simp: approval_restart_item_def intro: append_once_keeps)
  then show ?thesis
    by (rule efold_invariant[where P = ledger_ok, OF _ _ s2, rotated])
       (auto simp: run_restart_item_def intro: append_once_keeps)
qed

lemma reconcile_updates_keep:
  assumes ok: "ledger_ok st"
  shows "ledger_ok (fail_mailboxes e (requeue_steers (interrupt_approvals e (interrupt_runs e st))))"
proof -
  have 1: "ledger_ok (interrupt_approvals e (interrupt_runs e st))" (is "ledger_ok ?s")
    unfolding interrupt_approvals_def interrupt_runs_def
    by (intro set_approvals_ok set_runs_ok ok) simp_all
  have 2: "ledger_ok (requeue_steers ?s)"
    unfolding requeue_steers_def
    by (rule set_inbox_ok[OF 1]) (use inbox_row_facts(2)[OF 1] in \<open>simp add: inbox_kinds_def\<close>)
  show ?thesis
    unfolding fail_mailboxes_def
    by (rule set_mailbox_ok[OF 2]) (use mailbox_row_facts(2)[OF 2] in \<open>simp add: mailbox_statuses_def\<close>)
qed

lemma reconcile_keeps:
  assumes "ledger_ok st" and "reconcile_control_startup_locked e st = Inr (x, st')"
  shows "ledger_ok st'"
  using assms(2) restart_timeline_keeps[OF reconcile_updates_keep[OF assms(1)]]
  by (auto simp: reconcile_control_startup_locked_def Let_def)

lemma prune_keeps: "ledger_ok st \<Longrightarrow> ledger_ok (snd (prune_command_receipts_locked e before st))"
  unfolding prune_command_receipts_locked_def
  by (rule transact_keeps[where P = ledger_ok])
     (auto simp: ledger_ok_def receipts_ok_def distinct_drop_where)

lemma run_ops_keep:
  assumes ok: "ledger_ok st"
  shows "ledger_ok (snd (control_put_run e run st))"
    and "ledger_ok (snd (control_put_approval e a st))"
    and "ledger_ok (snd (control_cancel_run_approvals e r d st))"
    and "ledger_ok (snd (control_prune_command_receipts e before st))"
    and "ledger_ok (snd (control_put_command_receipt e rc st))"
    and "ledger_ok (snd (reconcile_control_startup e st))"
proof -
  note ck = checked_keeps[where P = ledger_ok, OF ok]
  note tk = transact_keeps[where P = ledger_ok, OF ok]
  show "ledger_ok (snd (control_put_run e run st))"
    unfolding control_put_run_def
    by (rule ck, rule tk) (auto split: if_splits intro: set_runs_ok[OF ok] insert_run_keeps[OF ok])
  show "ledger_ok (snd (control_put_approval e a st))"
    unfolding control_put_approval_def
    by (rule ck, rule tk)
       (auto split: if_splits intro: set_approvals_ok[OF ok] insert_approval_keeps[OF ok])
  show "ledger_ok (snd (control_cancel_run_approvals e r d st))"
    unfolding control_cancel_run_approvals_def
    by (rule ck, rule tk) (auto simp: Let_def intro: set_approvals_ok[OF ok])
  show "ledger_ok (snd (control_prune_command_receipts e before st))"
    unfolding control_prune_command_receipts_def by (rule prune_keeps[OF ok])
  show "ledger_ok (snd (reconcile_control_startup e st))"
    unfolding reconcile_control_startup_def by (rule tk) (rule reconcile_keeps[OF ok])
  show "ledger_ok (snd (control_put_command_receipt e rc st))"
    unfolding control_put_command_receipt_def
  proof (rule ck)
    have ins: "ledger_ok (snd (transact e (\<lambda>s. ebind (insert_receipt rc s) (\<lambda>s'. Inr ((), s'))) s))"
      if "ledger_ok s" for s
      by (rule transact_keeps[where P = ledger_ok, OF that])
         (use that in \<open>auto simp: insert_receipt_def insert_row_key ledger_ok_def receipts_ok_def\<close>)
    let ?s = "st\<lparr>next_prune := i64_sat_add (now e) CONTROL_COMMAND_RECEIPT_PRUNE_INTERVAL_MS\<rparr>"
    have "ledger_ok ?s" using ok by (simp add: ledger_ok_def)
    from prune_keeps[OF this] ins ok
    show "ledger_ok (snd (let (res, st1) =
            (if next_prune st \<le> now e
             then prune_command_receipts_locked e (i64_sat_sub (now e) CONTROL_COMMAND_RECEIPT_TTL_MS) ?s
             else (Inr 0, st))
          in case res of
               Inl err \<Rightarrow> (Inl err, st1)
             | Inr _ \<Rightarrow> transact e (\<lambda>s. ebind (insert_receipt rc s) (\<lambda>s'. Inr ((), s'))) st1))"
      by (auto simp: Let_def split: prod.splits sum.splits) (metis snd_conv)+
  qed
qed

end

