(* ===== verification/Ledger_Artifacts.thy ===== *)
theory Ledger_Artifacts
  imports Ledger_Runs
begin

text \<open>
  Run artifacts: content-addressed blobs shared by the runs that refer to them, stored plain,
  compressed, or as a compressed prefix/suffix delta against an earlier blob.
\<close>

section \<open>Prefix deltas\<close>

text \<open>\<open>u64::to_le_bytes\<close> and \<open>u64::from_le_bytes\<close>.\<close>

fun le_bytes :: "nat \<Rightarrow> nat \<Rightarrow> str" where
  "le_bytes 0 x = []"
| "le_bytes (Suc k) x = char_of (x mod 256) # le_bytes k (x div 256)"

fun from_le_bytes :: "str \<Rightarrow> nat" where
  "from_le_bytes [] = 0"
| "from_le_bytes (c # cs) = of_char c + 256 * from_le_bytes cs"

fun common_prefix :: "'a list \<Rightarrow> 'a list \<Rightarrow> nat" where
  "common_prefix (x # xs) (y # ys) = (if x = y then Suc (common_prefix xs ys) else 0)"
| "common_prefix _ _ = 0"

definition prefix_delta :: "str \<Rightarrow> str \<Rightarrow> str" where
  "prefix_delta base nxt =
     (let prefix = common_prefix base nxt;
          max_suffix = min (length base) (length nxt) - prefix;
          suffix = min max_suffix (common_prefix (rev base) (rev nxt));
          middle = take (length nxt - suffix - prefix) (drop prefix nxt)
      in le_bytes 8 prefix @ le_bytes 8 suffix @ middle)"

text \<open>\<open>prefix + suffix\<close> is a \<open>usize\<close> addition and wraps; a bound that wrapped past the check makes
  one of the two slices panic.\<close>

definition apply_prefix_delta :: "str \<Rightarrow> str \<Rightarrow> error + str" where
  "apply_prefix_delta base delta =
     (if length delta < 16 then Inl (Other ''run artifact delta is truncated'')
      else
        let prefix = from_le_bytes (take 8 delta);
            suffix = from_le_bytes (take 8 (drop 8 delta))
        in if length base < (prefix + suffix) mod 2 ^ 64
           then Inl (Other ''run artifact delta exceeds its base'')
           else if length base < prefix \<or> length base < suffix then Inl Panic
           else Inr (take prefix base @ drop 16 delta @ drop (length base - suffix) base))"

lemma length_le_bytes [simp]: "length (le_bytes k x) = k"
  by (induction k arbitrary: x) auto

lemma from_le_bytes_le_bytes: "from_le_bytes (le_bytes k x) = x mod 256 ^ k"
proof (induction k arbitrary: x)
  case 0
  then show ?case by simp
next
  case (Suc k)
  have "x mod 256 + 256 * (x div 256 mod 256 ^ k) = x mod (256 * 256 ^ k)"
    by (metis add.commute mod_mult2_eq mult.commute)
  then show ?case by (simp add: Suc)
qed

lemma common_prefix_take:
  "common_prefix xs ys \<le> length xs \<and> common_prefix xs ys \<le> length ys \<and>
     take (common_prefix xs ys) xs = take (common_prefix xs ys) ys"
  by (induction xs ys rule: common_prefix.induct) auto

lemma common_suffix_drop:
  assumes "s \<le> common_prefix (rev xs) (rev ys)"
  shows "drop (length xs - s) xs = drop (length ys - s) ys"
proof -
  let ?c = "common_prefix (rev xs) (rev ys)"
  have "take s (rev xs) = take s (rev ys)"
    using common_prefix_take[of "rev xs" "rev ys"] assms
    by (metis min.absorb1 take_take)
  then show ?thesis by (simp add: take_rev)
qed

lemma prefix_delta_sound:
  assumes "length base < 2 ^ 63" and "length nxt < 2 ^ 63"
  shows "apply_prefix_delta base (prefix_delta base nxt) = Inr nxt"
proof -
  define p where "p = common_prefix base nxt"
  define s where "s = min (min (length base) (length nxt) - p) (common_prefix (rev base) (rev nxt))"
  have p: "p \<le> length base" "p \<le> length nxt" "take p base = take p nxt"
    using common_prefix_take[of base nxt] by (simp_all add: p_def)
  have s: "p + s \<le> length base" "p + s \<le> length nxt"
    using p by (simp_all add: s_def)
  have tail: "drop (length base - s) base = drop (length nxt - s) nxt"
    by (rule common_suffix_drop) (simp add: s_def)
  have d: "prefix_delta base nxt = le_bytes 8 p @ le_bytes 8 s @ take (length nxt - s - p) (drop p nxt)"
    by (simp add: prefix_delta_def Let_def p_def s_def)
  have small: "p mod 256 ^ 8 = p" "s mod 256 ^ 8 = s" "(p + s) mod 2 ^ 64 = p + s"
    using assms s by simp_all
  have "nxt = take p nxt @ take (length nxt - s - p) (drop p nxt) @ drop (length nxt - s) nxt"
  proof -
    have "drop p nxt = take (length nxt - s - p) (drop p nxt) @ drop (length nxt - s - p) (drop p nxt)"
      by (rule append_take_drop_id[symmetric])
    also have "drop (length nxt - s - p) (drop p nxt) = drop (length nxt - s) nxt"
      using s by simp
    finally show ?thesis by (metis append_take_drop_id)
  qed
  then show ?thesis
    using s p tail small
    by (simp add: apply_prefix_delta_def d from_le_bytes_le_bytes Let_def)
qed

section \<open>Blobs\<close>

text \<open>The crates behind the blobs: SHA-256 in hexadecimal with its prefix, zstd at level 3 (an \<open>Inl\<close>
  is its error text), and the UTF-8 check of \<open>String::from_utf8\<close>.\<close>

record codec =
  artifact_digest :: "str \<Rightarrow> str"
  zstd_encode :: "str \<Rightarrow> str + str"
  zstd_decode :: "str \<Rightarrow> str + str"
  utf8_check :: "str \<Rightarrow> str + unit"

definition RUN_ARTIFACT_COMPRESSION_THRESHOLD :: nat where
  "RUN_ARTIFACT_COMPRESSION_THRESHOLD = 1024"

definition RUN_ARTIFACT_CHECKPOINT_INTERVAL :: nat where
  "RUN_ARTIFACT_CHECKPOINT_INTERVAL = 25"

definition RUN_ARTIFACT_MAX_DELTA_DEPTH :: nat where
  "RUN_ARTIFACT_MAX_DELTA_DEPTH = 32"

definition verify_artifact_digest :: "codec \<Rightarrow> str \<Rightarrow> str \<Rightarrow> error + unit" where
  "verify_artifact_digest c digest data =
     (if starts_with ''sha256:'' digest \<and> artifact_digest c data \<noteq> digest
      then Inl (Other (''run artifact '' @ digest @ '' failed digest verification''))
      else Inr ())"

definition zstd_result :: "str \<Rightarrow> str + str \<Rightarrow> error + str" where
  "zstd_result what r = (case r of Inl err \<Rightarrow> Inl (Other (what @ '': '' @ err)) | Inr x \<Rightarrow> Inr x)"

definition compress_artifact :: "codec \<Rightarrow> str \<Rightarrow> error + (str \<times> str)" where
  "compress_artifact c data =
     (if length data < RUN_ARTIFACT_COMPRESSION_THRESHOLD then Inr (''json-v1'', data)
      else ebind (zstd_result ''compress run artifact'' (zstd_encode c data)) (\<lambda>z.
        if length data \<le> length z then Inr (''json-v1'', data) else Inr (''zstd-json-v1'', z)))"

definition blob_of :: "ledger \<Rightarrow> str \<Rightarrow> blob_row option" where
  "blob_of st d = row_where (\<lambda>b. b_digest b = d) (blobs st)"

function decode_run_artifact_blob_locked :: "codec \<Rightarrow> ledger \<Rightarrow> str \<Rightarrow> nat \<Rightarrow> error + str" where
  "decode_run_artifact_blob_locked c st digest depth =
     (if RUN_ARTIFACT_MAX_DELTA_DEPTH < depth
      then Inl (Other (''run artifact '' @ digest @ '' exceeded the delta checkpoint depth''))
      else case blob_of st digest of
        None \<Rightarrow> Inl (Other (''run artifact blob '' @ digest @ '' is missing''))
      | Some b \<Rightarrow>
          ebind
            (if b_encoding b = ''json-v1'' then Inr (b_payload b)
             else if b_encoding b = ''zstd-json-v1''
             then zstd_result ''decompress run artifact'' (zstd_decode c (b_payload b))
             else if b_encoding b = ''prefix-delta-zstd-v1''
             then (case b_base b of
                 None \<Rightarrow> Inl (Other (''run artifact '' @ digest @ '' has no delta base''))
               | Some base_digest \<Rightarrow>
                   ebind (decode_run_artifact_blob_locked c st base_digest (Suc depth)) (\<lambda>base.
                   ebind (zstd_result ''decompress run artifact delta'' (zstd_decode c (b_payload b)))
                     (\<lambda>delta. apply_prefix_delta base delta)))
             else Inl (Other (''run artifact '' @ digest @ '' uses unsupported encoding '' @ b_encoding b)))
            (\<lambda>data.
               if b_len b < 0 then Inl (Other ''run artifact byte length is outside usize'')
               else if int (length data) \<noteq> b_len b
               then Inl (Other (''run artifact '' @ digest @ '' decoded to '' @ show_nat (length data)
                      @ '' bytes, expected '' @ show_int (b_len b)))
               else ebind (verify_artifact_digest c digest data) (\<lambda>_. Inr data)))"
  by pat_completeness auto
termination
  by (relation "measure (\<lambda>(c, st, d, k). Suc RUN_ARTIFACT_MAX_DELTA_DEPTH - k)") auto

declare decode_run_artifact_blob_locked.simps [simp del]

definition provider_refs :: "ledger \<Rightarrow> str \<Rightarrow> ref_row list" where
  "provider_refs st r = filter (\<lambda>f. f_run f = r \<and> f_kind f = ''provider_request'') (refs st)"

text \<open>The newest request of the run: \<open>ORDER BY created_at_ms DESC, digest DESC LIMIT 1\<close>.\<close>

definition delta_base :: "ledger \<Rightarrow> str \<Rightarrow> str option" where
  "delta_base st r =
     (case rev (order_by (\<lambda>f. (f_created f, f_digest f)) (provider_refs st r)) of
        [] \<Rightarrow> None | f # _ \<Rightarrow> Some (f_digest f))"

definition encode_run_artifact_locked :: "codec \<Rightarrow> ledger \<Rightarrow> artifact_row \<Rightarrow> error + blob_row" where
  "encode_run_artifact_locked c st a =
     (let data = af_data a in
      ebind (verify_artifact_digest c (af_digest a) data) (\<lambda>_.
      ebind (compress_artifact c data) (\<lambda>(enc, payload).
        let plain = \<lparr>b_digest = af_digest a, b_encoding = enc, b_base = None, b_payload = payload,
                     b_len = int (length data)\<rparr> in
        if af_kind a \<noteq> ''provider_request'' \<or> length data < RUN_ARTIFACT_COMPRESSION_THRESHOLD
        then Inr plain
        else if length (provider_refs st (af_run a)) mod RUN_ARTIFACT_CHECKPOINT_INTERVAL = 0
        then Inr plain
        else case delta_base st (af_run a) of
          None \<Rightarrow> Inr plain
        | Some base_digest \<Rightarrow>
            ebind (decode_run_artifact_blob_locked c st base_digest 0) (\<lambda>base.
            ebind (zstd_result ''compress run artifact delta'' (zstd_encode c (prefix_delta base data)))
              (\<lambda>z. Inr (if length z + 64 < length payload
                         then plain\<lparr>b_encoding := ''prefix-delta-zstd-v1'', b_base := Some base_digest,
                                    b_payload := z\<rparr>
                         else plain))))))"

definition put_blob :: "codec \<Rightarrow> artifact_row \<Rightarrow> ledger \<Rightarrow> error + ledger" where
  "put_blob c a st =
     (if has_blob st (af_digest a) then Inr st
      else ebind (encode_run_artifact_locked c st a) (\<lambda>b.
           ebind (u64_to_i64 (b_len b)) (\<lambda>_. insert_blob b st)))"

definition put_ref :: "artifact_row \<Rightarrow> ledger \<Rightarrow> error + ledger" where
  "put_ref a st =
     insert_ref_or_ignore \<lparr>f_run = af_run a, f_digest = af_digest a, f_kind = af_kind a,
       f_created = af_created a\<rparr> st"

definition put_run_artifact_locked :: "codec \<Rightarrow> artifact_row \<Rightarrow> ledger \<Rightarrow> error + ledger" where
  "put_run_artifact_locked c a st = ebind (put_blob c a st) (put_ref a)"

text \<open>Outside a transaction the two statements commit one by one.\<close>

definition control_put_run_artifact :: "env \<Rightarrow> codec \<Rightarrow> artifact_row \<Rightarrow> ledger \<Rightarrow> unit outcome" where
  "control_put_run_artifact e c a =
     checked (validate_control_json e (af_data a) ''run artifact'')
       (\<lambda>_ st. case transact e (\<lambda>s. ebind (put_blob c a s) (\<lambda>s'. Inr ((), s'))) st of
          (Inl err, st1) \<Rightarrow> (Inl err, st1)
        | (Inr _, st1) \<Rightarrow> transact e (\<lambda>s. ebind (put_ref a s) (\<lambda>s'. Inr ((), s'))) st1)"

definition utf8_result :: "codec \<Rightarrow> str \<Rightarrow> error + str" where
  "utf8_result c data =
     (case utf8_check c data of
        Inl err \<Rightarrow> Inl (Other (''decode run artifact JSON: '' @ err)) | Inr _ \<Rightarrow> Inr data)"

definition legacy_artifact :: "artifact_row \<Rightarrow> error + artifact_row" where
  "legacy_artifact a = (if af_len a < 0 then Inl (Sqlite OutOfRange) else Inr a)"

definition control_run_artifact ::
  "codec \<Rightarrow> ledger \<Rightarrow> str \<Rightarrow> str \<Rightarrow> error + artifact_row option" where
  "control_run_artifact c st run_id digest_arg =
     ebind (required_control_text run_id ''run id'') (\<lambda>r.
     ebind (required_control_text digest_arg ''artifact digest'') (\<lambda>d.
       case (row_where (\<lambda>f. f_run f = r \<and> f_digest f = d) (refs st), blob_of st d) of
         (Some f, Some b) \<Rightarrow>
           ebind (decode_run_artifact_blob_locked c st d 0) (\<lambda>data.
           ebind (utf8_result c data) (\<lambda>text.
             if b_len b < 0 then Inl (Other ''run artifact byte length is negative'')
             else Inr (Some \<lparr>af_run = r, af_digest = d, af_kind = f_kind f, af_data = text,
                             af_len = b_len b, af_created = f_created f\<rparr>)))
       | _ \<Rightarrow>
         (case row_where (\<lambda>a. af_run a = r \<and> af_digest a = d) (artifacts st) of
            None \<Rightarrow> Inr None
          | Some a \<Rightarrow> ebind (legacy_artifact a) (\<lambda>a'. Inr (Some a')))))"

text \<open>The three listings decode every referenced blob and add the legacy rows not yet migrated.\<close>

fun decode_refs :: "codec \<Rightarrow> ledger \<Rightarrow> ref_row list \<Rightarrow> error + artifact_row list" where
  "decode_refs c st [] = Inr []"
| "decode_refs c st (f # fs) =
     ebind (decode_run_artifact_blob_locked c st (f_digest f) 0) (\<lambda>data.
     ebind (utf8_result c data) (\<lambda>text.
     ebind (decode_refs c st fs) (\<lambda>rest.
       Inr (\<lparr>af_run = f_run f, af_digest = f_digest f, af_kind = f_kind f, af_data = text,
             af_len = int (length data), af_created = f_created f\<rparr> # rest))))"

fun legacy_rows :: "artifact_row list \<Rightarrow> error + artifact_row list" where
  "legacy_rows [] = Inr []"
| "legacy_rows (a # as) =
     ebind (legacy_artifact a) (\<lambda>a'. ebind (legacy_rows as) (\<lambda>rest. Inr (a' # rest)))"

definition not_migrated :: "ref_row list \<Rightarrow> artifact_row list \<Rightarrow> artifact_row list" where
  "not_migrated fs as = filter (\<lambda>a. af_digest a \<notin> set (map f_digest fs)) as"

definition control_run_artifacts_by_kind ::
  "codec \<Rightarrow> ledger \<Rightarrow> str \<Rightarrow> str \<Rightarrow> error + artifact_row list" where
  "control_run_artifacts_by_kind c st run_id kind_arg =
     ebind (required_control_text run_id ''run id'') (\<lambda>r.
     ebind (required_control_text kind_arg ''artifact kind'') (\<lambda>k.
       let fs = order_by (\<lambda>f. (f_created f, f_digest f))
                  (filter (\<lambda>f. f_run f = r \<and> f_kind f = k) (refs st))
       in ebind (decode_refs c st fs) (\<lambda>decoded.
          ebind (legacy_rows (order_by (\<lambda>a. (af_created a, af_digest a))
                   (filter (\<lambda>a. af_run a = r \<and> af_kind a = k) (artifacts st)))) (\<lambda>legacy.
            Inr (order_by af_created (decoded @ not_migrated fs legacy))))))"

definition control_run_artifacts :: "codec \<Rightarrow> ledger \<Rightarrow> str \<Rightarrow> error + artifact_row list" where
  "control_run_artifacts c st run_id =
     ebind (required_control_text run_id ''run id'') (\<lambda>r.
       let fs = order_by (\<lambda>f. (f_created f, f_digest f))
                  (filter (\<lambda>f. f_run f = r \<and> has_blob st (f_digest f)) (refs st))
       in ebind (decode_refs c st fs) (\<lambda>decoded.
          ebind (legacy_rows (order_by (\<lambda>a. (af_created a, af_digest a))
                   (filter (\<lambda>a. af_run a = r) (artifacts st)))) (\<lambda>legacy.
            Inr (order_by (\<lambda>a. (af_created a, af_digest a)) (decoded @ not_migrated fs legacy)))))"

fun control_run_artifacts_by_digests ::
  "codec \<Rightarrow> ledger \<Rightarrow> str \<Rightarrow> str list \<Rightarrow> error + artifact_row list" where
  "control_run_artifacts_by_digests c st r [] = Inr []"
| "control_run_artifacts_by_digests c st r (d # ds) =
     ebind (control_run_artifact c st r d) (\<lambda>a.
     ebind (control_run_artifacts_by_digests c st r ds) (\<lambda>rest.
       Inr (case a of None \<Rightarrow> rest | Some x \<Rightarrow> x # rest)))"

text \<open>The migration of legacy rows, a batch of bounded size at a time.\<close>

definition unmigrated :: "ledger \<Rightarrow> artifact_row list" where
  "unmigrated st =
     filter (\<lambda>a. \<not> list_ex (\<lambda>f. f_run f = af_run a \<and> f_digest f = af_digest a) (refs st)) (artifacts st)"

fun select_batch :: "nat \<Rightarrow> bool \<Rightarrow> nat \<Rightarrow> artifact_row list \<Rightarrow> artifact_row list \<times> nat" where
  "select_batch mx started raw [] = ([], raw)"
| "select_batch mx started raw (a # as) =
     (if started \<and> mx < raw + length (af_data a) then ([], raw)
      else let (sel, total) = select_batch mx True (raw + length (af_data a)) as in (a # sel, total))"

definition migrate_one :: "codec \<Rightarrow> artifact_row \<Rightarrow> ledger \<Rightarrow> error + ledger" where
  "migrate_one c a st =
     ebind (put_run_artifact_locked c a st) (\<lambda>st'.
       Inr (st'\<lparr>artifacts := drop_where (\<lambda>x. af_run x = af_run a \<and> af_digest x = af_digest a)
                              (artifacts st')\<rparr>))"

definition migrate_run_artifacts_batch ::
  "env \<Rightarrow> codec \<Rightarrow> nat \<Rightarrow> ledger \<Rightarrow> (nat \<times> nat \<times> nat) outcome" where
  "migrate_run_artifacts_batch e c max_raw st =
     (case legacy_rows (take 256 (order_by (\<lambda>a. (af_run a, af_created a, af_digest a)) (unmigrated st))) of
        Inl err \<Rightarrow> (Inl err, st)
      | Inr rows \<Rightarrow>
          let (selected, raw) = select_batch (max max_raw 1) False 0 rows;
              (res, st1) = (if selected = [] then (Inr (), st)
                            else transact e (\<lambda>s. ebind (efold (migrate_one c) selected s)
                                                    (\<lambda>s'. Inr ((), s'))) st)
          in case res of
               Inl err \<Rightarrow> (Inl err, st1)
             | Inr _ \<Rightarrow> (Inr (length selected, raw, length (unmigrated st1)), st1))"

section \<open>The invariant is kept\<close>

lemma put_blob_keeps:
  assumes ok: "ledger_ok st" and put: "put_blob c a st = Inr st'"
  shows "ledger_ok st'"
proof (cases "has_blob st (af_digest a)")
  case True
  with ok put show ?thesis by (simp add: put_blob_def)
next
  case False
  with put obtain b where "insert_blob b st = Inr st'" by (auto simp: put_blob_def)
  then have st': "st' = st\<lparr>blobs := blobs st @ [b]\<rparr>" and new: "b_digest b \<notin> digests st"
    by (auto simp: insert_blob_def insert_row_key)
  have "refs_ok (rids st) (insert (b_digest b) (digests st)) (refs st)"
    using ok tables_mono(10)[OF subset_refl subset_refl subset_insertI]
    by (simp add: ledger_ok_def)
  then show ?thesis
    using ok new by (simp add: ledger_ok_def blobs_ok_def st')
qed

lemma put_ref_keeps:
  assumes ok: "ledger_ok st" and put: "put_ref a st = Inr st'"
  shows "ledger_ok st'"
proof -
  let ?r = "\<lparr>f_run = af_run a, f_digest = af_digest a, f_kind = af_kind a, f_created = af_created a\<rparr>"
  have dup: "list_ex (\<lambda>x. f_run x = f_run ?r \<and> f_digest x = f_digest ?r) (refs st)
      \<longleftrightarrow> (af_run a, af_digest a) \<in> (\<lambda>f. (f_run f, f_digest f)) ` set (refs st)"
    by (simp add: list_ex_iff image_iff eq_commute[of _ "af_run a"] eq_commute[of _ "af_digest a"])
  show ?thesis
  proof (cases "(af_run a, af_digest a) \<in> (\<lambda>f. (f_run f, f_digest f)) ` set (refs st)")
    case True
    with put ok show ?thesis unfolding put_ref_def insert_ref_or_ignore_def dup by simp
  next
    case False
    with put have "st' = st\<lparr>refs := refs st @ [?r]\<rparr>" "af_run a \<in> rids st" "af_digest a \<in> digests st"
      unfolding put_ref_def insert_ref_or_ignore_def dup
      by (simp_all add: has_run_iff has_blob_iff split: if_splits)
    with ok False show ?thesis by (simp add: ledger_ok_def refs_ok_def)
  qed
qed

lemma put_run_artifact_keeps:
  assumes ok: "ledger_ok st"
  shows "ledger_ok (snd (control_put_run_artifact e c a st))"
proof -
  have blob: "ledger_ok (snd (transact e (\<lambda>s. ebind (put_blob c a s) (\<lambda>s'. Inr ((), s'))) st))"
    by (rule transact_keeps[where P = ledger_ok, OF ok]) (auto intro: put_blob_keeps[OF ok])
  have ref: "ledger_ok (snd (transact e (\<lambda>s. ebind (put_ref a s) (\<lambda>s'. Inr ((), s'))) s))"
    if "ledger_ok s" for s
    by (rule transact_keeps[where P = ledger_ok, OF that]) (auto intro: put_ref_keeps[OF that])
  show ?thesis
    unfolding control_put_run_artifact_def
    by (rule checked_keeps[where P = ledger_ok, OF ok])
       (use blob ref in \<open>auto split: prod.splits sum.splits\<close>)
qed

lemma migrate_one_keeps:
  assumes "ledger_ok st" and "migrate_one c a st = Inr st'"
  shows "ledger_ok st'"
proof -
  from assms(2) obtain st1 st2 where p: "put_blob c a st = Inr st1" "put_ref a st1 = Inr st2"
    and st': "st' = st2\<lparr>artifacts := drop_where (\<lambda>x. af_run x = af_run a \<and> af_digest x = af_digest a)
                              (artifacts st2)\<rparr>"
    by (auto simp: migrate_one_def put_run_artifact_locked_def)
  have "ledger_ok st2"
    using put_ref_keeps[OF put_blob_keeps[OF assms(1) p(1)] p(2)] .
  then show ?thesis
    by (auto simp: ledger_ok_def artifacts_ok_def st' distinct_drop_where)
qed

lemma migrate_keeps:
  assumes ok: "ledger_ok st"
  shows "ledger_ok (snd (migrate_run_artifacts_batch e c mx st))"
proof -
  have "ledger_ok (snd (transact e (\<lambda>s. ebind (efold (migrate_one c) xs s) (\<lambda>s'. Inr ((), s'))) st))"
    for xs
    by (rule transact_keeps[where P = ledger_ok, OF ok])
       (auto intro: efold_invariant[where P = ledger_ok, OF _ ok] migrate_one_keeps)
  then have tx: "ledger_ok (snd (if xs = [] then (Inr (), st)
      else transact e (\<lambda>s. ebind (efold (migrate_one c) xs s) (\<lambda>s'. Inr ((), s'))) st))" for xs
    using ok by simp
  show ?thesis
  proof (cases "legacy_rows (take 256 (order_by (\<lambda>a. (af_run a, af_created a, af_digest a)) (unmigrated st)))")
    case (Inl err)
    with ok show ?thesis by (simp add: migrate_run_artifacts_batch_def)
  next
    case (Inr rows)
    obtain sel raw where sb: "select_batch (max mx 1) False 0 rows = (sel, raw)" by fastforce
    let ?x = "if sel = [] then (Inr (), st)
      else transact e (\<lambda>s. ebind (efold (migrate_one c) sel s) (\<lambda>s'. Inr ((), s'))) st"
    have "snd (migrate_run_artifacts_batch e c mx st) = snd ?x"
      unfolding migrate_run_artifacts_batch_def Inr sum.case sb Let_def prod.case
      by (cases ?x; cases "fst ?x") (simp_all del: if_split)
    with tx show ?thesis by simp
  qed
qed

end
