(* ===== verification/Ledger_Ops.thy ===== *)
theory Ledger_Ops
  imports Ledger_Artifacts
begin

text \<open>
  The ledger as a state machine: every state-changing operation of the store as one step, the
  states a history of them can reach, and what holds of all of them.
\<close>

section \<open>One step\<close>

datatype thread_op =
    OpThread str
  | OpThreads
  | OpThreadsMissing
  | OpCreateThread str str str
  | OpUpdateThread str str "int option" "(str \<times> str \<times> str) option"
  | OpSetRuntime str str "str option" "str option" "str option"
  | OpDeleteThread str
  | OpAddLink str str str
  | OpRemoveLink str str str
  | OpAppendMessage str str
  | OpDeleteMessage str str

datatype timeline_op =
    OpAppendTimeline str str "str option" str str
  | OpCommitMessage bool str str str str str "str option" str str
  | OpSeed str "(str \<times> str \<times> int) list"
  | OpAppendRunEvent str str "str option" str str

datatype inbox_op =
    OpEnqueue queued_turn
  | OpMoveQueued str str str bool
  | OpRemoveQueued str
  | OpPutInbox inbox_item
  | OpClaimInputs str str
  | OpCancelInbox str
  | OpDiscardInbox str
  | OpRetarget str

datatype mailbox_op =
    OpPutMailbox mailbox_row
  | OpDeleteMailbox str
  | OpMarkProjected str
  | OpMarkConsumed str str str
  | OpClaimReplies str str int

datatype run_op =
    OpPutRun run_row
  | OpPutArtifact artifact_row
  | OpMigrate nat
  | OpPutReceipt receipt_row
  | OpPruneReceipts int
  | OpPutApproval approval_row
  | OpCancelApprovals str str
  | OpReconcile

datatype op =
    Threads thread_op
  | Timeline timeline_op
  | Inbox inbox_op
  | Mailbox mailbox_op
  | Runs run_op

definition result_of :: "'a outcome \<Rightarrow> error option \<times> ledger" where
  "result_of r = ((case fst r of Inl err \<Rightarrow> Some err | Inr _ \<Rightarrow> None), snd r)"

fun exec_thread :: "env \<Rightarrow> codec \<Rightarrow> thread_op \<Rightarrow> ledger \<Rightarrow> error option \<times> ledger" where
  "exec_thread e c (OpThread t) st = result_of (control_thread e t st)"
| "exec_thread e c OpThreads st = result_of (control_threads e st)"
| "exec_thread e c OpThreadsMissing st = result_of (control_threads_missing_message_timeline e st)"
| "exec_thread e c (OpCreateThread t sj ep) st = result_of (control_create_thread e t sj ep st)"
| "exec_thread e c (OpUpdateThread t sj ex item) st = result_of (control_update_thread e t sj ex item st)"
| "exec_thread e c (OpSetRuntime t f ex nx cu) st =
     result_of (control_compare_and_set_runtime_session e t f ex nx cu st)"
| "exec_thread e c (OpDeleteThread t) st = result_of (control_delete_thread e t st)"
| "exec_thread e c (OpAddLink a b i) st = result_of (control_add_thread_link e a b i st)"
| "exec_thread e c (OpRemoveLink a b i) st = result_of (control_remove_thread_link e a b i st)"
| "exec_thread e c (OpAppendMessage t m) st = result_of (control_append_message e t m st)"
| "exec_thread e c (OpDeleteMessage t i) st = result_of (control_delete_message e t i st)"

fun exec_timeline :: "env \<Rightarrow> codec \<Rightarrow> timeline_op \<Rightarrow> ledger \<Rightarrow> error option \<times> ledger" where
  "exec_timeline e c (OpAppendTimeline t i r ty d) st = result_of (control_append_timeline e t i r ty d st)"
| "exec_timeline e c (OpCommitMessage adopt t r i m ev step ty d) st =
     result_of (if adopt then control_adopt_message_projection_and_event e t r i m ev step ty d st
                else control_commit_message_projection_and_event e t r i m ev step ty d st)"
| "exec_timeline e c (OpSeed t ms) st = result_of (control_seed_message_timeline_if_empty e t ms st)"
| "exec_timeline e c (OpAppendRunEvent r ev step ty d) st =
     result_of (control_append_run_event e r ev step ty d st)"

fun exec_inbox :: "env \<Rightarrow> codec \<Rightarrow> inbox_op \<Rightarrow> ledger \<Rightarrow> error option \<times> ledger" where
  "exec_inbox e c (OpEnqueue q) st = result_of (control_enqueue_turn e q st)"
| "exec_inbox e c (OpMoveQueued t i j after) st = result_of (control_move_queued_turn e t i j after st)"
| "exec_inbox e c (OpRemoveQueued i) st = result_of (control_remove_queued_turn e i st)"
| "exec_inbox e c (OpPutInbox i) st = result_of (control_put_inbox e i st)"
| "exec_inbox e c (OpClaimInputs t r) st = result_of (control_claim_step_inputs e t r st)"
| "exec_inbox e c (OpCancelInbox i) st = result_of (control_cancel_inbox e i st)"
| "exec_inbox e c (OpDiscardInbox i) st = result_of (control_discard_inbox e i st)"
| "exec_inbox e c (OpRetarget r) st = result_of (control_retarget_pending_steers e r st)"

fun exec_mailbox :: "env \<Rightarrow> codec \<Rightarrow> mailbox_op \<Rightarrow> ledger \<Rightarrow> error option \<times> ledger" where
  "exec_mailbox e c (OpPutMailbox m) st = result_of (control_put_mailbox e m st)"
| "exec_mailbox e c (OpDeleteMailbox i) st = result_of (control_delete_mailbox e i st)"
| "exec_mailbox e c (OpMarkProjected i) st = result_of (control_mark_mailbox_projected e i st)"
| "exec_mailbox e c (OpMarkConsumed i t r) st = result_of (control_mark_mailbox_consumed e i t r st)"
| "exec_mailbox e c (OpClaimReplies t r n) st = result_of (control_claim_mailbox_replies e t r n st)"

fun exec_run :: "env \<Rightarrow> codec \<Rightarrow> run_op \<Rightarrow> ledger \<Rightarrow> error option \<times> ledger" where
  "exec_run e c (OpPutRun r) st = result_of (control_put_run e r st)"
| "exec_run e c (OpPutArtifact a) st = result_of (control_put_run_artifact e c a st)"
| "exec_run e c (OpMigrate n) st = result_of (migrate_run_artifacts_batch e c n st)"
| "exec_run e c (OpPutReceipt r) st = result_of (control_put_command_receipt e r st)"
| "exec_run e c (OpPruneReceipts b) st = result_of (control_prune_command_receipts e b st)"
| "exec_run e c (OpPutApproval a) st = result_of (control_put_approval e a st)"
| "exec_run e c (OpCancelApprovals r d) st = result_of (control_cancel_run_approvals e r d st)"
| "exec_run e c OpReconcile st = result_of (reconcile_control_startup e st)"

fun exec :: "env \<Rightarrow> codec \<Rightarrow> op \<Rightarrow> ledger \<Rightarrow> error option \<times> ledger" where
  "exec e c (Threads x) st = exec_thread e c x st"
| "exec e c (Timeline x) st = exec_timeline e c x st"
| "exec e c (Inbox x) st = exec_inbox e c x st"
| "exec e c (Mailbox x) st = exec_mailbox e c x st"
| "exec e c (Runs x) st = exec_run e c x st"

text \<open>A history runs its operations in order, each under the clock and outside world of its time.\<close>

fun exec_all :: "codec \<Rightarrow> (env \<times> op) list \<Rightarrow> ledger \<Rightarrow> ledger" where
  "exec_all c [] st = st"
| "exec_all c ((e, x) # xs) st = exec_all c xs (snd (exec e c x st))"

inductive ledger_reach :: "codec \<Rightarrow> ledger \<Rightarrow> bool" for c where
  start: "ledger_reach c empty_ledger"
| step: "ledger_reach c st \<Longrightarrow> vec_bounded e \<Longrightarrow> ledger_reach c (snd (exec e c x st))"

inductive_cases ledger_reachE: "ledger_reach c st"

lemma snd_result_of [simp]: "snd (result_of r) = snd r"
  by (simp add: result_of_def)

lemma fst_result_of: "fst (result_of r) = Some err \<longleftrightarrow> fst r = Inl err"
  by (simp add: result_of_def split: sum.splits)

section \<open>The invariant holds throughout\<close>

lemma message_row_ok:
  assumes "ledger_ok st"
    and "insert_message \<lparr>m_session = t, m_index = next_message_index st t, m_json = m\<rparr> st = Inr st1"
  shows "ledger_ok st1"
  by (rule message_step_ok(1)[OF assms(1) _ assms(2)]) simp

lemma thread_ops_keep:
  assumes ok: "ledger_ok st"
  shows "ledger_ok (snd (control_thread e t st))"
    and "ledger_ok (snd (control_threads e st))"
    and "ledger_ok (snd (control_threads_missing_message_timeline e st))"
    and "vec_bounded e \<Longrightarrow> ledger_ok (snd (control_create_thread e t sj ep st))"
    and "ledger_ok (snd (control_update_thread e t sj ex item st))"
    and "ledger_ok (snd (control_compare_and_set_runtime_session e t f exp nx cu st))"
    and "ledger_ok (snd (control_delete_thread e t st))"
    and "ledger_ok (snd (control_add_thread_link e a b i st))"
    and "ledger_ok (snd (control_remove_thread_link e a b i st))"
    and "ledger_ok (snd (control_append_message e t m st))"
    and "ledger_ok (snd (control_delete_message e t i st))"
proof -
  note ck = checked_keeps[where P = ledger_ok, OF ok]
  note tk = transact_keeps[where P = ledger_ok, OF ok]
  show "ledger_ok (snd (control_thread e t st))"
    unfolding control_thread_def by (rule ck, rule tk) (auto simp: Let_def ensure_controls_ok[OF ok])
  show "ledger_ok (snd (control_threads e st))"
    unfolding control_threads_def by (rule tk) (auto simp: Let_def ensure_controls_ok[OF ok])
  show "ledger_ok (snd (control_threads_missing_message_timeline e st))"
    unfolding control_threads_missing_message_timeline_def
    by (rule tk) (auto simp: Let_def ensure_controls_ok[OF ok])
  show "ledger_ok (snd (control_create_thread e t sj ep st))" if "vec_bounded e"
    unfolding control_create_thread_def
    by (rule ck) (auto intro!: tk create_thread_keeps[OF ok] parse_new_thread_bounded[OF that])
  show "ledger_ok (snd (control_update_thread e t sj ex item st))"
    unfolding control_update_thread_def by (rule ck, rule tk) (rule update_thread_keeps[OF ok])
  show "ledger_ok (snd (control_compare_and_set_runtime_session e t f exp nx cu st))"
    unfolding control_compare_and_set_runtime_session_def
  proof (rule ck)
    fix x :: "str \<times> str"
    show "ledger_ok (snd ((\<lambda>(t, synced). transact e (compare_and_set_body e t f synced
          (trim_nonempty exp) (trim_nonempty nx) (trim_nonempty cu))) x st))"
      unfolding case_prod_beta by (rule tk) (rule compare_and_set_keeps[OF ok])
  qed
  show "ledger_ok (snd (control_delete_thread e t st))"
    unfolding control_delete_thread_def by (rule ck, rule tk) (auto simp: delete_session_keeps[OF ok])
  show "ledger_ok (snd (control_add_thread_link e a b i st))"
    unfolding control_add_thread_link_def
    by (rule ck) (auto split: if_splits intro!: tk intro: add_link_ok(1)[OF ok, rotated])
  show "ledger_ok (snd (control_remove_thread_link e a b i st))"
    unfolding control_remove_thread_link_def
    by (rule ck) (auto intro!: tk intro: remove_link_ok(1)[OF ok])
  show "ledger_ok (snd (control_append_message e t m st))"
    unfolding control_append_message_def
    by (rule ck, rule tk)
       (auto simp: Let_def split: if_splits
         intro: bump_revision_ok message_row_ok[OF ok])
  show "ledger_ok (snd (control_delete_message e t i st))"
    unfolding control_delete_message_def
  proof (rule ck)
    have found: "m_index m \<in> m_index ` {m \<in> set (messages st). m_session m = u}"
      if "List.find p (order_by m_index (filter (\<lambda>m. m_session m = u) (messages st))) = Some m" for p m u
    proof -
      have "m \<in> set (order_by m_index (filter (\<lambda>m. m_session m = u) (messages st)))"
        using that by (auto simp: find_Some_iff)
      then show ?thesis by (simp add: order_by_def)
    qed
    fix x :: "str \<times> str"
    show "ledger_ok (snd ((\<lambda>(t, i). transact e (\<lambda>st.
          case List.find (\<lambda>m. stable_message_id e (m_json m) = Some i)
                 (order_by m_index (filter (\<lambda>m. m_session m = t) (messages st))) of
            None \<Rightarrow> Inr (False, st)
          | Some m \<Rightarrow>
              ebind (bump_thread_revision_locked e t (remove_message t (m_index m) st))
                (\<lambda>st'. Inr (True, st')))) x st))"
      unfolding case_prod_beta
      by (rule tk)
         (auto simp: ok split: option.splits dest!: found intro: bump_revision_ok remove_message_ok[OF ok])
  qed
qed

lemma timeline_row_ok:
  assumes "ledger_ok st" and "control_of st t = Some c"
    and "insert_timeline \<lparr>t_thread = t, t_epoch = c_epoch c, t_seq = c_next_seq c, t_item = i,
      t_run = run, t_type = ty, t_data = d, t_created = at\<rparr> st = Inr st1"
  shows "ledger_ok (advance_control t (i64_sat_add (c_next_seq c) 1) k at' st1)"
  by (rule timeline_step_ok(1)[OF assms(1,2) _ _ _ assms(3)]) simp_all

lemma timeline_ops_keep:
  assumes ok: "ledger_ok st"
  shows "ledger_ok (snd (control_append_timeline e t i run ty d st))"
    and "ledger_ok (snd (commit_message_inner e t r i m ev step ty d adopt st))"
    and "ledger_ok (snd (control_seed_message_timeline_if_empty e t ms st))"
    and "ledger_ok (snd (control_append_run_event e r ev step ty d st))"
proof -
  note ck = checked_keeps[where P = ledger_ok, OF ok]
  note tk = transact_keeps[where P = ledger_ok, OF ok]
  show "ledger_ok (snd (control_append_timeline e t i run ty d st))"
    unfolding control_append_timeline_def
    by (rule ck)
       (auto simp: Let_def split: option.splits intro!: tk intro: timeline_row_ok[OF ok])
  show "ledger_ok (snd (commit_message_inner e t r i m ev step ty d adopt st))"
    unfolding commit_message_inner_def by (rule ck) (auto intro!: tk intro: commit_body_keeps[OF ok])
  show "ledger_ok (snd (control_seed_message_timeline_if_empty e t ms st))"
    unfolding control_seed_message_timeline_if_empty_def
    by (rule ck, rule tk) (rule seed_body_keeps[OF ok])
  show "ledger_ok (snd (control_append_run_event e r ev step ty d st))"
    unfolding control_append_run_event_def
    by (rule ck) (auto simp: Let_def intro!: tk intro: run_event_step_ok(1)[OF ok, rotated])
qed

lemma exec_thread_keeps:
  "ledger_ok st \<Longrightarrow> vec_bounded e \<Longrightarrow> ledger_ok (snd (exec_thread e c x st))"
  by (cases x) (simp_all add: thread_ops_keep)

lemma exec_timeline_keeps:
  "ledger_ok st \<Longrightarrow> ledger_ok (snd (exec_timeline e c x st))"
  by (cases x) (simp_all add: timeline_ops_keep control_adopt_message_projection_and_event_def
      control_commit_message_projection_and_event_def)

lemma exec_inbox_keeps:
  "ledger_ok st \<Longrightarrow> ledger_ok (snd (exec_inbox e c x st))"
  by (cases x) (simp_all add: inbox_ops_keep mailbox_ops_keep(1))

lemma exec_mailbox_keeps:
  "ledger_ok st \<Longrightarrow> ledger_ok (snd (exec_mailbox e c x st))"
  by (cases x) (simp_all add: mailbox_ops_keep)

lemma exec_run_keeps:
  "ledger_ok st \<Longrightarrow> ledger_ok (snd (exec_run e c x st))"
  by (cases x) (simp_all add: run_ops_keep put_run_artifact_keeps migrate_keeps)

lemma exec_keeps:
  "ledger_ok st \<Longrightarrow> vec_bounded e \<Longrightarrow> ledger_ok (snd (exec e c x st))"
  by (cases x) (simp_all add: exec_thread_keeps exec_timeline_keeps exec_inbox_keeps
      exec_mailbox_keeps exec_run_keeps)

lemma reach_ok: "ledger_reach c st \<Longrightarrow> ledger_ok st"
  by (induction rule: ledger_reach.induct) (simp_all add: exec_keeps)

section \<open>An operation that fails changes nothing\<close>

text \<open>Two operations write in more than one transaction: a receipt, whose pruning commits first, and
  an artifact, whose blob does.\<close>

fun single_transaction :: "op \<Rightarrow> bool" where
  "single_transaction (Runs (OpPutReceipt _)) = False"
| "single_transaction (Runs (OpPutArtifact _)) = False"
| "single_transaction _ = True"

definition atomic :: "'a outcome \<Rightarrow> ledger \<Rightarrow> bool" where
  "atomic r st \<longleftrightarrow> (case fst r of Inl _ \<Rightarrow> snd r = st | Inr _ \<Rightarrow> True)"

lemma atomic_transact: "atomic (transact e b st) st"
  by (auto simp: atomic_def transact_def finish_control_transaction_def split: sum.splits)

lemma atomic_checked: "(\<And>x. atomic (k x st) st) \<Longrightarrow> atomic (checked v k st) st"
  by (cases v) (auto simp: atomic_def)

lemma atomic_checked2:
  "(\<And>x y. atomic (k x y st) st) \<Longrightarrow> atomic (checked v (\<lambda>(x, y). k x y) st) st"
  by (rule atomic_checked) (simp add: case_prod_beta)

lemma atomic_checked3:
  "(\<And>x y z. atomic (k x y z st) st) \<Longrightarrow> atomic (checked v (\<lambda>(x, y, z). k x y z) st) st"
  by (rule atomic_checked) (simp add: case_prod_beta)

lemma atomic_pairs [simp]: "atomic (Inr x, st') st" "atomic (Inl err, st) st"
  by (simp_all add: atomic_def)

lemma atomic_if: "atomic a st \<Longrightarrow> atomic b st \<Longrightarrow> atomic (if c then a else b) st"
  by simp

lemmas atomic_rules = atomic_transact atomic_checked2 atomic_checked3 atomic_checked atomic_if

lemma thread_ops_atomic:
  shows "atomic (control_thread e t st) st"
    and "atomic (control_threads e st) st"
    and "atomic (control_threads_missing_message_timeline e st) st"
    and "atomic (control_create_thread e t sj ep st) st"
    and "atomic (control_update_thread e t sj ex item st) st"
    and "atomic (control_compare_and_set_runtime_session e t f exp nx cu st) st"
    and "atomic (control_delete_thread e t st) st"
    and "atomic (control_add_thread_link e a b i st) st"
    and "atomic (control_remove_thread_link e a b i st) st"
    and "atomic (control_append_message e t m st) st"
    and "atomic (control_delete_message e t i st) st"
  unfolding control_thread_def control_threads_def control_threads_missing_message_timeline_def
    control_create_thread_def control_update_thread_def
    control_compare_and_set_runtime_session_def control_delete_thread_def
    control_add_thread_link_def control_remove_thread_link_def control_append_message_def
    control_delete_message_def
  by (auto simp: case_prod_beta intro!: atomic_transact atomic_checked)

lemma timeline_ops_atomic:
  shows "atomic (control_append_timeline e t i run ty d st) st"
    and "atomic (commit_message_inner e t r i m ev step ty d adopt st) st"
    and "atomic (control_seed_message_timeline_if_empty e t ms st) st"
    and "atomic (control_append_run_event e r ev step ty d st) st"
  unfolding control_append_timeline_def commit_message_inner_def
    control_seed_message_timeline_if_empty_def control_append_run_event_def
  by (auto simp: case_prod_beta intro!: atomic_transact atomic_checked)

lemma inbox_ops_atomic:
  shows "atomic (control_enqueue_turn e turn st) st"
    and "atomic (control_move_queued_turn e t i target after st) st"
    and "atomic (control_remove_queued_turn e i st) st"
    and "atomic (control_put_inbox e item st) st"
    and "atomic (control_claim_step_inputs e t r st) st"
    and "atomic (control_cancel_inbox e i st) st"
    and "atomic (control_discard_inbox e i st) st"
    and "atomic (control_retarget_pending_steers e r st) st"
  unfolding control_enqueue_turn_def control_move_queued_turn_def control_remove_queued_turn_def
    control_put_inbox_def control_claim_step_inputs_def control_cancel_inbox_def
    control_discard_inbox_def control_retarget_pending_steers_def update_inbox_def
  by (auto simp: case_prod_beta intro!: atomic_transact atomic_checked atomic_if)

lemma mailbox_ops_atomic:
  shows "atomic (control_put_mailbox e m st) st"
    and "atomic (control_delete_mailbox e x st) st"
    and "atomic (control_mark_mailbox_projected e x st) st"
    and "atomic (control_mark_mailbox_consumed e x t r st) st"
    and "atomic (control_claim_mailbox_replies e t r limit st) st"
  unfolding control_put_mailbox_def control_delete_mailbox_def control_mark_mailbox_projected_def
    control_mark_mailbox_consumed_def control_claim_mailbox_replies_def update_mailbox_def
  by (auto simp: case_prod_beta intro!: atomic_transact atomic_checked)

lemma run_ops_atomic:
  shows "atomic (control_put_run e run st) st"
    and "atomic (control_prune_command_receipts e before st) st"
    and "atomic (control_put_approval e a st) st"
    and "atomic (control_cancel_run_approvals e r d st) st"
    and "atomic (reconcile_control_startup e st) st"
  unfolding control_put_run_def control_prune_command_receipts_def
    prune_command_receipts_locked_def control_put_approval_def control_cancel_run_approvals_def
    reconcile_control_startup_def
  by (auto simp: case_prod_beta intro!: atomic_transact atomic_checked)

lemma migrate_atomic: "atomic (migrate_run_artifacts_batch e c n st) st"
proof (cases "legacy_rows (take 256 (order_by (\<lambda>a. (af_run a, af_created a, af_digest a)) (unmigrated st)))")
  case (Inl err')
  then show ?thesis by (simp add: migrate_run_artifacts_batch_def atomic_def)
next
  case (Inr rows)
  obtain sel raw where sb: "select_batch (max n 1) False 0 rows = (sel, raw)" by fastforce
  define x where "x = (if sel = [] then (Inr (), st)
      else transact e (\<lambda>s. ebind (efold (migrate_one c) sel s) (\<lambda>s'. Inr ((), s'))) st)"
  have eq: "migrate_run_artifacts_batch e c n st = (case fst x of Inl err \<Rightarrow> (Inl err, snd x)
      | Inr _ \<Rightarrow> (Inr (length sel, raw, length (unmigrated (snd x))), snd x))"
    unfolding migrate_run_artifacts_batch_def Inr sum.case sb Let_def prod.case x_def[symmetric]
    by (simp add: case_prod_beta)
  have "atomic x st" by (simp add: x_def atomic_transact)
  then show ?thesis by (simp add: eq atomic_def split: sum.splits)
qed

lemma atomic_result_of:
  "atomic r st \<Longrightarrow> fst (result_of r) = Some err \<Longrightarrow> snd (result_of r) = st"
  by (auto simp: atomic_def fst_result_of)

lemma exec_thread_atomic:
  "fst (exec_thread e c x st) = Some err \<Longrightarrow> snd (exec_thread e c x st) = st"
  by (cases x)
     (simp_all add: thread_ops_atomic[THEN atomic_result_of] del: snd_result_of)

lemma exec_timeline_atomic:
  "fst (exec_timeline e c x st) = Some err \<Longrightarrow> snd (exec_timeline e c x st) = st"
  by (cases x)
     (simp_all add: timeline_ops_atomic[THEN atomic_result_of]
       control_adopt_message_projection_and_event_def control_commit_message_projection_and_event_def del: snd_result_of split: if_splits)

lemma exec_inbox_atomic:
  "fst (exec_inbox e c x st) = Some err \<Longrightarrow> snd (exec_inbox e c x st) = st"
  by (cases x)
     (simp_all add: inbox_ops_atomic[THEN atomic_result_of] del: snd_result_of)

lemma exec_mailbox_atomic:
  "fst (exec_mailbox e c x st) = Some err \<Longrightarrow> snd (exec_mailbox e c x st) = st"
  by (cases x)
     (simp_all add: mailbox_ops_atomic[THEN atomic_result_of] del: snd_result_of)

lemma exec_run_atomic:
  "single_transaction (Runs x) \<Longrightarrow> fst (exec_run e c x st) = Some err \<Longrightarrow> snd (exec_run e c x st) = st"
  by (cases x)
     (simp_all add: run_ops_atomic[THEN atomic_result_of] migrate_atomic[THEN atomic_result_of] del: snd_result_of)

lemma exec_atomic:
  "single_transaction x \<Longrightarrow> fst (exec e c x st) = Some err \<Longrightarrow> snd (exec e c x st) = st"
  by (cases x) (simp_all add: exec_thread_atomic exec_timeline_atomic exec_inbox_atomic
      exec_mailbox_atomic exec_run_atomic)

end
