(* ===== verification/Ledger_Log.thy ===== *)
theory Ledger_Log
  imports Ledger_Ops
begin

text \<open>
  Two interfaces of the ledger. \<open>event_log\<close> is what a reader that follows a log page by page
  relies on; the timeline of a thread and the event log of a run both provide it. \<open>claim_source\<close>
  is what a run that takes waiting work relies on; the inbox and the mailbox both provide it.
\<close>

section \<open>Following a log\<close>

text \<open>A reader asks for what comes after the last number it has seen, until a page is empty.\<close>

fun follow :: "nat \<Rightarrow> ('r \<Rightarrow> int) \<Rightarrow> (int \<Rightarrow> 'r list) \<Rightarrow> int \<Rightarrow> 'r list" where
  "follow 0 sq fetch a = []"
| "follow (Suc k) sq fetch a =
     (let rs = fetch a in if rs = [] then [] else rs @ follow k sq fetch (sq (last rs)))"

locale event_log =
  fixes inv :: "'s \<Rightarrow> bool"
    and log :: "'s \<Rightarrow> 'k \<Rightarrow> 'r list"
    and sq :: "'r \<Rightarrow> int"
    and valid :: "'k \<Rightarrow> bool"
    and page :: "nat \<Rightarrow> nat"
    and fetch :: "'s \<Rightarrow> 'k \<Rightarrow> int \<Rightarrow> nat \<Rightarrow> 'r list"
  assumes dense: "inv s \<Longrightarrow> map sq (log s k) = map (\<lambda>i. 1 + int i) [0..<length (log s k)]"
    and page_pos: "0 < page n"
    and fetch_rows: "inv s \<Longrightarrow> valid k \<Longrightarrow> 0 \<le> a \<Longrightarrow> a \<le> I64_MAX \<Longrightarrow>
      fetch s k a n = take (page n) (filter (\<lambda>r. a < sq r) (log s k))"
begin

lemma nth_seq: "inv s \<Longrightarrow> i < length (log s k) \<Longrightarrow> sq (log s k ! i) = 1 + int i"
  using arg_cong[OF dense, of s "\<lambda>xs. xs ! i" k] by simp

lemma filter_after:
  assumes "inv s"
  shows "filter (\<lambda>r. int a < sq r) (log s k) = drop a (log s k)"
proof -
  have "map sq xs = map (\<lambda>i. 1 + int i) [0..<length xs] \<Longrightarrow> filter (\<lambda>r. int a < sq r) xs = drop a xs" for xs
    by (induction xs rule: rev_induct) auto
  then show ?thesis using dense[OF assms] by blast
qed

lemma fetch_drop:
  assumes "inv s" and "valid k" and "int a \<le> I64_MAX"
  shows "fetch s k (int a) n = take (page n) (drop a (log s k))"
  using assms by (simp add: fetch_rows filter_after)

text \<open>Page after page, a reader gets every row once and in order, whatever the page size.\<close>

lemma follow_all:
  assumes inv: "inv s" and key: "valid k" and len: "int (length (log s k)) \<le> I64_MAX"
  shows "length (log s k) - a \<le> fuel \<Longrightarrow> int a \<le> I64_MAX \<Longrightarrow>
    follow fuel sq (\<lambda>x. fetch s k x n) (int a) = drop a (log s k)"
proof (induction fuel arbitrary: a)
  case 0
  then show ?case by simp
next
  case (Suc fuel)
  let ?L = "log s k" and ?p = "page n"
  show ?case
  proof (cases "a < length ?L")
    case False
    then show ?thesis using Suc.prems by (simp add: fetch_drop[OF inv key])
  next
    case True
    define m where "m = min ?p (length ?L - a)"
    have m: "0 < m" "a + m \<le> length ?L" "length (take ?p (drop a ?L)) = m"
      using True page_pos[of n] by (simp_all add: m_def)
    have page: "fetch s k (int a) n = take ?p (drop a ?L)" by (rule fetch_drop[OF inv key Suc.prems(2)])
    have ne: "take ?p (drop a ?L) \<noteq> []" using True page_pos[of n] by simp
    have "last (take ?p (drop a ?L)) = take ?p (drop a ?L) ! (m - 1)"
      using ne m(3) by (simp add: last_conv_nth)
    also have "\<dots> = ?L ! (a + (m - 1))"
    proof -
      have "m - 1 < ?p" "a + (m - 1) < length ?L" using m(1,2) by (auto simp: m_def)
      then show ?thesis by simp
    qed
    also have "sq \<dots> = int (a + m)"
      using nth_seq[OF inv, of "a + (m - 1)" k] m by simp
    finally have "follow (Suc fuel) sq (\<lambda>x. fetch s k x n) (int a)
        = take ?p (drop a ?L) @ follow fuel sq (\<lambda>x. fetch s k x n) (int (a + m))"
      using ne by (simp add: page)
    also have "follow fuel sq (\<lambda>x. fetch s k x n) (int (a + m)) = drop (a + m) ?L"
      by (rule Suc.IH) (use Suc.prems m len in auto)
    also have "drop (a + m) ?L = drop ?p (drop a ?L)"
      using m by (cases "?p \<le> length ?L - a") (simp_all add: m_def min_def add.commute)
    finally show ?thesis by (simp only: append_take_drop_id)
  qed
qed

end

section \<open>The timeline of a thread\<close>

definition thread_rows :: "ledger \<Rightarrow> str \<Rightarrow> timeline_row list" where
  "thread_rows st t = filter (\<lambda>r. t_thread r = t) (timeline st)"

definition page_limit :: "nat \<Rightarrow> nat" where
  "page_limit n = nat (clamp 1 500 (int n))"

definition timeline_after :: "ledger \<Rightarrow> str \<Rightarrow> int \<Rightarrow> nat \<Rightarrow> timeline_row list" where
  "timeline_after st t a n =
     (case control_timeline_page st st t (Some a) None False (int n) of
        Inr (Some p) \<Rightarrow> pg_items p | _ \<Rightarrow> [])"

lemma thread_rows_dense:
  assumes "ledger_ok st"
  shows "map t_seq (thread_rows st t) = map (\<lambda>i. 1 + int i) [0..<length (thread_rows st t)]"
  using assms gaplessD[of t_thread t_seq 1 "timeline st" t]
  by (simp add: ledger_ok_def timeline_ok_def thread_rows_def count_where_def)

lemma sorted_dense: "sorted (map (\<lambda>i. 1 + int i) [0..<n])"
  by (simp add: sorted_iff_nth_mono)

lemma thread_log_rows:
  assumes ok: "ledger_ok st" and c: "control_of st t = Some c"
  shows "thread_log st t (c_epoch c) = thread_rows st t"
proof -
  have "filter (\<lambda>r. t_thread r = t \<and> t_epoch r = c_epoch c) (timeline st) = thread_rows st t"
    using control_epoch[of "controls st" "timeline st" c] control_of_Some[OF c] ok
    by (auto simp: thread_rows_def ledger_ok_def controls_ok_def intro!: filter_cong)
  then show ?thesis
    using sorted_dense thread_rows_dense[OF ok, of t]
    by (simp add: thread_log_def order_by_def sort_key_id_if_sorted)
qed

lemma thread_rows_count: "length (thread_rows st t) = count_where (\<lambda>r. t_thread r = t) (timeline st)"
  by (simp add: thread_rows_def count_where_def)

lemma thread_rows_bound:
  assumes ok: "ledger_ok st" and c: "control_of st t = Some c"
  shows "int (length (thread_rows st t)) \<le> I64_MAX"
    and "c_next_seq c = min (int (length (thread_rows st t)) + 1) I64_MAX"
  using ok control_of_Some[OF c]
  by (auto simp: ledger_ok_def next_seq_ok_def Let_def thread_rows_count)

lemma no_control_no_rows: "ledger_ok st \<Longrightarrow> control_of st t = None \<Longrightarrow> thread_rows st t = []"
  by (force simp: ledger_ok_def epochs_ok_def thread_rows_def control_of_def row_where_None
      filter_empty_conv)

lemma thread_rows_pos: "ledger_ok st \<Longrightarrow> r \<in> set (thread_rows st t) \<Longrightarrow> 1 \<le> t_seq r"
proof -
  assume ok: "ledger_ok st" and r: "r \<in> set (thread_rows st t)"
  then have "t_seq r \<in> set (map t_seq (thread_rows st t))" by simp
  then show "1 \<le> t_seq r" unfolding thread_rows_dense[OF ok] by auto
qed

lemma timeline_from_row_id:
  "ledger_ok st \<Longrightarrow> set rs \<subseteq> set (thread_rows st t) \<Longrightarrow> map timeline_from_row rs = rs"
  using thread_rows_pos by (intro map_idI) (force simp: timeline_from_row_def)

text \<open>The bounds and flags of a page, from the rows it holds.\<close>

lemma foldl_min_run: "foldl min b (map (\<lambda>i. b + int i) [Suc 0..<Suc n]) = b"
  by (induction n) auto

lemma sql_min_run: "sql_min (map (\<lambda>i. 1 + int i) [0..<n]) = (if n = 0 then None else Some 1)"
proof (cases n)
  case 0
  then show ?thesis by (simp add: sql_min_def)
next
  case (Suc m)
  have "[0..<n] = 0 # [Suc 0..<Suc m]" using Suc by (simp add: upt_conv_Cons del: upt_Suc)
  then show ?thesis
    using foldl_min_run[of 1 m] Suc by (simp add: sql_min_def del: upt_Suc)
qed

lemma page_of_slice:
  assumes ok: "ledger_ok st" and rows: "rows = take n (drop a (thread_rows st t))"
  shows "page_of_rows ep (thread_rows st t) rows = Inr (Some
     \<lparr>pg_epoch = ep,
      pg_first = (if rows = [] then None else Some (int a + 1)),
      pg_last = (if rows = [] then None else Some (int (a + length rows))),
      pg_older = (rows \<noteq> [] \<and> 0 < a),
      pg_newer = (rows \<noteq> [] \<and> a + length rows < length (thread_rows st t)),
      pg_items = rows\<rparr>)"
proof -
  let ?L = "thread_rows st t"
  have sub: "set rows \<subseteq> set ?L" using rows by (metis set_drop_subset set_take_subset subset_trans)
  have items: "map timeline_from_row rows = rows" by (rule timeline_from_row_id[OF ok sub])
  have lo: "sql_min (map t_seq ?L) = (if ?L = [] then None else Some 1)"
    and hi: "sql_max (map t_seq ?L) = (if ?L = [] then None else Some (int (length ?L)))"
    unfolding thread_rows_dense[OF ok] by (simp_all add: sql_min_run sql_max_run)
  show ?thesis
  proof (cases "rows = []")
    case True
    then show ?thesis by (simp add: page_of_rows_def items split: option.split)
  next
    case False
    have "t_seq (?L ! i) = 1 + int i" if "i < length ?L" for i
      using arg_cong[OF thread_rows_dense[OF ok, of t], of "\<lambda>xs. xs ! i"] that by simp
    note nth = this
    have len: "length rows = min n (length ?L - a)" by (simp add: rows)
    have "length rows \<noteq> 0" using False by simp
    with len have bound: "a + length rows \<le> length ?L" "0 < length rows"
      unfolding len by linarith+
    have f: "t_seq (hd rows) = int a + 1"
      using False nth[of a] by (simp add: rows hd_take hd_drop_conv_nth)
    have l: "t_seq (last rows) = int (a + length rows)"
    proof -
      have "last rows = rows ! (length rows - 1)" using False by (rule last_conv_nth)
      also have "\<dots> = ?L ! (a + (length rows - 1))"
        using bound unfolding rows by (subst nth_take) (simp_all add: min_def split: if_splits)
      finally have last: "last rows = ?L ! (a + (length rows - 1))" .
      have "a + (length rows - 1) < length ?L" using bound by linarith
      then have "t_seq (last rows) = 1 + int (a + (length rows - 1))" unfolding last by (rule nth)
      moreover obtain k where "length rows = Suc k" using bound(2) gr0_conv_Suc by blast
      ultimately show ?thesis by simp
    qed
    have hd_case: "(case rows of [] \<Rightarrow> None | r # _ \<Rightarrow> Some (t_seq r)) = Some (int a + 1)"
      using False f by (cases rows) auto
    have last_case: "(case rev rows of [] \<Rightarrow> None | r # _ \<Rightarrow> Some (t_seq r)) = Some (int (a + length rows))"
      using False l by (cases rows rule: rev_cases) auto
    have "?L \<noteq> []" using bound by auto
    then show ?thesis
      using False by (auto simp: page_of_rows_def items hd_case last_case lo hi i64_to_u64_def)
  qed
qed

lemma query_after:
  assumes ok: "ledger_ok st" and c: "control_of st t = Some c" and a: "int a \<le> I64_MAX"
  shows "query_control_timeline_page st t (Some (int a)) before tail (int n) =
    page_of_rows (c_epoch c) (thread_rows st t) (take n (drop a (thread_rows st t)))"
proof -
  have "map t_seq xs = map (\<lambda>i. 1 + int i) [0..<length xs]
      \<Longrightarrow> filter (\<lambda>r. int a < t_seq r) xs = drop a xs" for xs
    by (induction xs rule: rev_induct) auto
  then have "filter (\<lambda>r. int a < t_seq r) (thread_rows st t) = drop a (thread_rows st t)"
    using thread_rows_dense[OF ok] by blast
  then show ?thesis
    using a by (simp add: query_control_timeline_page_def c thread_log_rows[OF ok c] limit_rows_def
        u64_to_i64_def Let_def)
qed

lemma query_tail:
  assumes ok: "ledger_ok st" and c: "control_of st t = Some c"
  shows "query_control_timeline_page st t None None True (int n) =
    page_of_rows (c_epoch c) (thread_rows st t)
      (take n (drop (length (thread_rows st t) - n) (thread_rows st t)))"
  by (simp add: query_control_timeline_page_def c thread_log_rows[OF ok c] last_rows_def
      limit_rows_def take_rev Let_def)

lemma page_limit_pos: "0 < page_limit n"
  by (simp add: page_limit_def clamp_def)

lemma clamp_page_limit: "clamp 1 500 (int n) = int (page_limit n)"
  by (simp add: page_limit_def clamp_def)

lemma page_after:
  assumes ok: "ledger_ok st" and c: "control_of st (trim t) = Some c" and a: "int a \<le> I64_MAX"
    and t: "trim t \<noteq> []"
  shows "control_timeline_page st st' t (Some (int a)) None tail (int n) =
    page_of_rows (c_epoch c) (thread_rows st (trim t))
      (take (page_limit n) (drop a (thread_rows st (trim t))))"
  using query_after[OF ok c a] page_of_slice[OF ok refl] t
  by (simp add: control_timeline_page_def required_control_text_def clamp_page_limit Let_def)

interpretation timeline_log: event_log ledger_ok "\<lambda>st t. thread_rows st (trim t)" t_seq
  "\<lambda>t. trim t \<noteq> []" page_limit timeline_after
proof
  fix st t
  assume ok: "ledger_ok st"
  then show "map t_seq (thread_rows st (trim t)) = map (\<lambda>i. 1 + int i) [0..<length (thread_rows st (trim t))]"
    by (rule thread_rows_dense)
next
  show "0 < page_limit n" for n by (rule page_limit_pos)
next
  fix st t and a :: int and n :: nat
  assume ok: "ledger_ok st" and t: "trim t \<noteq> []" and a: "0 \<le> a" "a \<le> I64_MAX"
  show "timeline_after st t a n = take (page_limit n) (filter (\<lambda>r. a < t_seq r) (thread_rows st (trim t)))"
  proof (cases "control_of st (trim t)")
    case None
    then show ?thesis
      using no_control_no_rows[OF ok] t
      by (simp add: timeline_after_def control_timeline_page_def required_control_text_def
          query_control_timeline_page_def Let_def)
  next
    case (Some c)
    obtain k where k: "a = int k" using a nonneg_int_cases by blast
    have "map t_seq xs = map (\<lambda>i. 1 + int i) [0..<length xs]
        \<Longrightarrow> filter (\<lambda>r. int k < t_seq r) xs = drop k xs" for xs
      by (induction xs rule: rev_induct) auto
    then have "filter (\<lambda>r. a < t_seq r) (thread_rows st (trim t)) = drop k (thread_rows st (trim t))"
      using thread_rows_dense[OF ok] k by blast
    then show ?thesis
      using a page_after[OF ok Some _ t, of k] page_of_slice[OF ok refl]
      by (simp add: timeline_after_def k)
  qed
qed

section \<open>The event log of a run\<close>

definition event_rows :: "ledger \<Rightarrow> str \<Rightarrow> event_row list" where
  "event_rows st r = filter (\<lambda>v. e_run v = r) (run_events st)"

definition events_after :: "ledger \<Rightarrow> str \<Rightarrow> int \<Rightarrow> nat \<Rightarrow> event_row list" where
  "events_after st r a n =
     (case control_run_events st r (Some a) (int n) of Inr vs \<Rightarrow> vs | _ \<Rightarrow> [])"

interpretation run_log: event_log ledger_ok "\<lambda>st r. event_rows st (trim r)" e_seq
  "\<lambda>r. trim r \<noteq> []" page_limit events_after
proof
  fix st r
  assume ok: "ledger_ok st"
  then show "map e_seq (event_rows st (trim r)) = map (\<lambda>i. 1 + int i) [0..<length (event_rows st (trim r))]"
    using gaplessD[of e_run e_seq 1 "run_events st" "trim r"]
    by (simp add: ledger_ok_def run_events_ok_def event_rows_def count_where_def)
next
  show "0 < page_limit n" for n by (rule page_limit_pos)
next
  fix st r and a :: int and n :: nat
  assume ok: "ledger_ok st" and r: "trim r \<noteq> []" and a: "0 \<le> a" "a \<le> I64_MAX"
  have d: "map e_seq (event_rows st (trim r)) = map (\<lambda>i. 1 + int i) [0..<length (event_rows st (trim r))]"
    using ok gaplessD[of e_run e_seq 1 "run_events st" "trim r"]
    by (simp add: ledger_ok_def run_events_ok_def event_rows_def count_where_def)
  have f: "filter (\<lambda>v. e_run v = trim r \<and> a < e_seq v) (run_events st)
      = filter (\<lambda>v. a < e_seq v) (event_rows st (trim r))"
    by (simp add: event_rows_def conj_commute)
  have "sorted (map e_seq (event_rows st (trim r)))"
    unfolding d by (rule sorted_dense)
  then have "sorted (map e_seq (filter (\<lambda>v. a < e_seq v) (event_rows st (trim r))))"
    by (rule sorted_filter)
  then show "events_after st r a n = take (page_limit n) (filter (\<lambda>v. a < e_seq v) (event_rows st (trim r)))"
    using r a by (simp add: events_after_def control_run_events_def required_control_text_def
        u64_to_i64_def coalesce_def f order_by_def limit_rows_def sort_key_id_if_sorted clamp_page_limit)
qed

section \<open>Claiming waiting work\<close>

text \<open>A claim hands out some of the waiting ids, each once, and takes them off the waiting set; one
  that fails hands out nothing.\<close>

fun claim_all :: "('c \<Rightarrow> 's \<Rightarrow> 'i list \<times> 's) \<Rightarrow> 'c list \<Rightarrow> 's \<Rightarrow> 'i list" where
  "claim_all claim [] s = []"
| "claim_all claim (c # cs) s = fst (claim c s) @ claim_all claim cs (snd (claim c s))"

locale claim_source =
  fixes inv :: "'s \<Rightarrow> bool"
    and waiting :: "'s \<Rightarrow> 'i set"
    and claim :: "'c \<Rightarrow> 's \<Rightarrow> 'i list \<times> 's"
  assumes claim_inv: "inv s \<Longrightarrow> inv (snd (claim c s))"
    and claim_distinct: "inv s \<Longrightarrow> distinct (fst (claim c s))"
    and claim_waiting: "inv s \<Longrightarrow> set (fst (claim c s)) \<subseteq> waiting s"
    and claim_takes: "inv s \<Longrightarrow> waiting (snd (claim c s)) = waiting s - set (fst (claim c s))"
begin

lemma claim_all_waiting: "inv s \<Longrightarrow> set (claim_all claim cs s) \<subseteq> waiting s"
proof (induction cs arbitrary: s)
  case Nil
  then show ?case by simp
next
  case (Cons c cs)
  from Cons.IH[OF claim_inv[OF Cons.prems]] claim_waiting[OF Cons.prems] claim_takes[OF Cons.prems]
  show ?case by auto
qed

text \<open>Whoever claims, and however often: no id is handed out twice.\<close>

lemma claim_all_distinct: "inv s \<Longrightarrow> distinct (claim_all claim cs s)"
proof (induction cs arbitrary: s)
  case Nil
  then show ?case by simp
next
  case (Cons c cs)
  note next_inv = claim_inv[OF Cons.prems]
  from claim_all_waiting[OF next_inv, of cs] claim_takes[OF Cons.prems]
  have "set (fst (claim c s)) \<inter> set (claim_all claim cs (snd (claim c s))) = {}" by auto
  then show ?case
    using Cons.IH[OF next_inv] claim_distinct[OF Cons.prems] by simp
qed

end

subsection \<open>The inbox\<close>

definition inbox_waiting :: "ledger \<Rightarrow> str set" where
  "inbox_waiting st =
     i_id ` {i \<in> set (inbox st). i_state i = ''pending'' \<and> (i_kind i = ''steer'' \<or> i_kind i = ''inject'')}"

definition inbox_claim :: "env \<times> str \<times> str \<Rightarrow> ledger \<Rightarrow> str list \<times> ledger" where
  "inbox_claim c st =
     (case c of (e, t, r) \<Rightarrow>
      case control_claim_step_inputs e t r st of
        (Inl err, st') \<Rightarrow> ([], st') | (Inr items, st') \<Rightarrow> (map i_id items, st'))"

lemma inbox_claim_cases:
  obtains (none) "inbox_claim (e, t, r) st = ([], st)"
  | (some) t' r' where "inbox_claim (e, t, r) st =
      (map i_id (inbox_order (filter (step_input t' r') (inbox st))),
       claim_rows (now e) (inbox_order (filter (step_input t' r') (inbox st))) st)"
proof (cases "fst (control_claim_step_inputs e t r st)")
  case (Inl err)
  then have "snd (control_claim_step_inputs e t r st) = st"
    using inbox_ops_atomic(5)[of e t r st] by (simp add: atomic_def)
  with Inl have "control_claim_step_inputs e t r st = (Inl err, st)" by (metis prod.collapse)
  then have "inbox_claim (e, t, r) st = ([], st)" by (simp add: inbox_claim_def)
  then show thesis by (rule none)
next
  case (Inr items)
  then obtain st' where ok: "control_claim_step_inputs e t r st = (Inr items, st')"
    by (metis prod.collapse)
  then obtain t' r' where "transact e (claim_step_inputs_body e t' r') st = (Inr items, st')"
    by (auto simp: control_claim_step_inputs_def checked_ok)
  then have b: "claim_step_inputs_body e t' r' st = Inr (items, st')"
    by (simp add: transact_ok)
  then have "map i_id items = map i_id (inbox_order (filter (step_input t' r') (inbox st)))"
    by (auto simp: claim_step_inputs_body_def Let_def inbox_from_row_def comp_def)
  with b ok have "inbox_claim (e, t, r) st =
      (map i_id (inbox_order (filter (step_input t' r') (inbox st))),
       claim_rows (now e) (inbox_order (filter (step_input t' r') (inbox st))) st)"
    by (auto simp: inbox_claim_def claim_step_inputs_body_def Let_def)
  then show thesis by (rule some)
qed

lemma distinct_map_order: "distinct (map f xs) \<Longrightarrow> distinct (map f (order_by k xs))"
  by (metis distinct_map distinct_sort order_by_def set_sort)

lemma row_by_id:
  "distinct (map key rs) \<Longrightarrow> x \<in> set rs \<Longrightarrow> y \<in> set rs \<Longrightarrow> key x = key y \<Longrightarrow> x = y"
  by (metis distinct_map inj_onD)

lemma inbox_claim_laws:
  assumes ok: "ledger_ok st"
  shows "ledger_ok (snd (inbox_claim c st))"
    and "distinct (fst (inbox_claim c st))"
    and "set (fst (inbox_claim c st)) \<subseteq> inbox_waiting st"
    and "inbox_waiting (snd (inbox_claim c st)) = inbox_waiting st - set (fst (inbox_claim c st))"
proof -
  obtain e t r where c: "c = (e, t, r)" by (cases c)
  show "ledger_ok (snd (inbox_claim c st))"
    using inbox_ops_keep(5)[OF ok, of e t r]
    by (auto simp: c inbox_claim_def split: prod.splits sum.splits)
  have ids: "distinct (map i_id (inbox st))" using ok by (simp add: ledger_ok_def inbox_ok_def)
  have "distinct (fst (inbox_claim c st)) \<and> set (fst (inbox_claim c st)) \<subseteq> inbox_waiting st \<and>
    inbox_waiting (snd (inbox_claim c st)) = inbox_waiting st - set (fst (inbox_claim c st))"
  proof (cases rule: inbox_claim_cases[of e t r st])
    case none
    then show ?thesis by (simp add: c)
  next
    case (some t' r')
    let ?xs = "filter (step_input t' r') (inbox st)"
    let ?p = "\<lambda>i. i_id i \<in> i_id ` set ?xs \<and> i_state i = ''pending''"
    have "distinct (map i_id (inbox_order ?xs))"
      unfolding inbox_order_def
      by (rule distinct_map_order) (use ids in \<open>simp add: distinct_map_filter\<close>)
    moreover have "i_id ` set ?xs \<subseteq> inbox_waiting st"
      by (auto simp: inbox_waiting_def step_input_def)
    moreover have "inbox_waiting (claim_rows (now e) (inbox_order ?xs) st)
        = inbox_waiting st - i_id ` set ?xs"
    proof -
      have "inbox_waiting (claim_rows (now e) (inbox_order ?xs) st)
          = i_id ` {i \<in> set (inbox st). \<not> ?p i \<and> i_state i = ''pending''
                     \<and> (i_kind i = ''steer'' \<or> i_kind i = ''inject'')}"
        by (auto simp: inbox_waiting_def claim_rows_eq set_inbox_def set_set_where inbox_order_def
            order_by_def image_iff split: if_splits)
      also have "\<dots> = inbox_waiting st - i_id ` set ?xs"
        using row_by_id[OF ids] by (auto simp: inbox_waiting_def)
      finally show ?thesis .
    qed
    ultimately show ?thesis
      by (simp add: c some inbox_order_def order_by_def)
  qed
  then show "distinct (fst (inbox_claim c st))" "set (fst (inbox_claim c st)) \<subseteq> inbox_waiting st"
    "inbox_waiting (snd (inbox_claim c st)) = inbox_waiting st - set (fst (inbox_claim c st))"
    by blast+
qed

interpretation inbox_source: claim_source ledger_ok inbox_waiting inbox_claim
  by unfold_locales (fact inbox_claim_laws)+

subsection \<open>The mailbox\<close>

definition reply_ids :: "ledger \<Rightarrow> str set" where
  "reply_ids st = mb_id ` {m \<in> set (mailbox st). is_answered m \<and> mb_consumed m = None}"

definition mailbox_claim :: "env \<times> str \<times> str \<times> int \<Rightarrow> ledger \<Rightarrow> str list \<times> ledger" where
  "mailbox_claim c st =
     (case c of (e, t, r, n) \<Rightarrow>
      case control_claim_mailbox_replies e t r n st of
        (Inl err, st') \<Rightarrow> ([], st') | (Inr items, st') \<Rightarrow> (map mb_id items, st'))"

definition reply_batch :: "ledger \<Rightarrow> str \<Rightarrow> int \<Rightarrow> mailbox_row list" where
  "reply_batch st t n =
     limit_rows (clamp 1 50 n) (mailbox_order (filter (reply_waiting t) (mailbox st)))"

lemma mailbox_claim_cases:
  obtains (none) "mailbox_claim (e, t, r, n) st = ([], st)"
  | (some) t' r' where "mailbox_claim (e, t, r, n) st =
      (map mb_id (reply_batch st t' n), consume_rows (now e) r' (reply_batch st t' n) st)"
proof (cases "fst (control_claim_mailbox_replies e t r n st)")
  case (Inl err)
  then have "snd (control_claim_mailbox_replies e t r n st) = st"
    using mailbox_ops_atomic(5)[of e t r n st] by (simp add: atomic_def)
  with Inl have "control_claim_mailbox_replies e t r n st = (Inl err, st)" by (metis prod.collapse)
  then have "mailbox_claim (e, t, r, n) st = ([], st)" by (simp add: mailbox_claim_def)
  then show thesis by (rule none)
next
  case (Inr items)
  then obtain st' where ok: "control_claim_mailbox_replies e t r n st = (Inr items, st')"
    by (metis prod.collapse)
  then obtain t' r' where "transact e (claim_mailbox_body e t' r' n) st = (Inr items, st')"
    by (auto simp: control_claim_mailbox_replies_def checked_ok)
  then have b: "claim_mailbox_body e t' r' n st = Inr (items, st')"
    by (simp add: transact_ok)
  then have "map mb_id items = map mb_id (reply_batch st t' n)"
    by (auto simp: claim_mailbox_body_def Let_def reply_batch_def comp_def)
  with b ok have "mailbox_claim (e, t, r, n) st =
      (map mb_id (reply_batch st t' n), consume_rows (now e) r' (reply_batch st t' n) st)"
    by (auto simp: mailbox_claim_def claim_mailbox_body_def Let_def reply_batch_def)
  then show thesis by (rule some)
qed

lemma reply_batch_sub: "set (reply_batch st t n) \<subseteq> {m \<in> set (mailbox st). reply_waiting t m}"
  using set_take_subset[of "nat (clamp 1 50 n)" "mailbox_order (filter (reply_waiting t) (mailbox st))"]
  by (auto simp: reply_batch_def limit_rows_def mailbox_order_def order_by_def)

lemma mailbox_claim_laws:
  assumes ok: "ledger_ok st"
  shows "ledger_ok (snd (mailbox_claim c st))"
    and "distinct (fst (mailbox_claim c st))"
    and "set (fst (mailbox_claim c st)) \<subseteq> reply_ids st"
    and "reply_ids (snd (mailbox_claim c st)) = reply_ids st - set (fst (mailbox_claim c st))"
proof -
  obtain e t r n where c: "c = (e, t, r, n)" by (cases c)
  show "ledger_ok (snd (mailbox_claim c st))"
    using mailbox_ops_keep(6)[OF ok, of e t r n]
    by (auto simp: c mailbox_claim_def split: prod.splits sum.splits)
  have ids: "distinct (map mb_id (mailbox st))" using ok by (simp add: ledger_ok_def mailbox_ok_def)
  have "distinct (fst (mailbox_claim c st)) \<and> set (fst (mailbox_claim c st)) \<subseteq> reply_ids st \<and>
    reply_ids (snd (mailbox_claim c st)) = reply_ids st - set (fst (mailbox_claim c st))"
  proof (cases rule: mailbox_claim_cases[of e t r n st])
    case none
    then show ?thesis by (simp add: c)
  next
    case (some t' r')
    let ?xs = "reply_batch st t' n"
    let ?p = "\<lambda>m. mb_id m \<in> mb_id ` set ?xs \<and> mb_consumed m = None"
    have "distinct (map mb_id (mailbox_order (filter (reply_waiting t') (mailbox st))))"
      unfolding mailbox_order_def
      by (rule distinct_map_order) (use ids in \<open>simp add: distinct_map_filter\<close>)
    then have "distinct (map mb_id ?xs)"
      by (simp add: reply_batch_def limit_rows_def take_map[symmetric])
    moreover have "mb_id ` set ?xs \<subseteq> reply_ids st"
      using reply_batch_sub[of st t' n] by (auto simp: reply_ids_def reply_waiting_def)
    moreover have "reply_ids (consume_rows (now e) r' ?xs st) = reply_ids st - mb_id ` set ?xs"
    proof -
      have "reply_ids (consume_rows (now e) r' ?xs st)
          = mb_id ` {m \<in> set (mailbox st). \<not> ?p m \<and> is_answered m \<and> mb_consumed m = None}"
        by (auto simp: reply_ids_def consume_rows_eq set_mailbox_def set_set_where image_iff
            split: if_splits)
      also have "\<dots> = reply_ids st - mb_id ` set ?xs"
        using row_by_id[OF ids] by (auto simp: reply_ids_def)
      finally show ?thesis .
    qed
    ultimately show ?thesis by (simp add: c some)
  qed
  then show "distinct (fst (mailbox_claim c st))" "set (fst (mailbox_claim c st)) \<subseteq> reply_ids st"
    "reply_ids (snd (mailbox_claim c st)) = reply_ids st - set (fst (mailbox_claim c st))"
    by blast+
qed

interpretation mailbox_source: claim_source ledger_ok reply_ids mailbox_claim
  by unfold_locales (fact mailbox_claim_laws)+

end
