(* ===== verification/Ledger_Queue.thy ===== *)
theory Ledger_Queue
  imports Ledger_Log "HOL-Library.Multiset"
begin

text \<open>
  The order of a thread's queue: what \<open>control_move_queued_turn\<close> makes of it, and that nothing but
  the order changes.
\<close>

section \<open>Renumbering\<close>

definition position :: "'a list \<Rightarrow> 'a \<Rightarrow> nat" where
  "position xs x = length (takeWhile (\<lambda>y. y \<noteq> x) xs)"

lemma position_nth: "distinct xs \<Longrightarrow> j < length xs \<Longrightarrow> position xs (xs ! j) = j"
proof (induction xs arbitrary: j)
  case Nil
  then show ?case by simp
next
  case (Cons x xs)
  then show ?case by (cases j) (auto simp: position_def)
qed

definition renumbered :: "int \<Rightarrow> nat \<Rightarrow> str list \<Rightarrow> inbox_row \<Rightarrow> inbox_row" where
  "renumbered base k ids i =
     (if is_queued i \<and> i_id i \<in> set ids
      then i\<lparr>i_sort := Some (i64_sat_add base (int (k + position ids (i_id i))))\<rparr> else i)"

lemma renumber_inbox:
  "distinct ids \<Longrightarrow> renumber base k ids st = st\<lparr>inbox := map (renumbered base k ids) (inbox st)\<rparr>"
proof (induction base k ids st rule: renumber.induct)
  case (1 base k st)
  have "renumbered base k [] = (\<lambda>i. i)" by (auto simp: renumbered_def)
  then show ?case by simp
next
  case (2 base k q qs st)
  let ?g = "\<lambda>i :: inbox_row. i\<lparr>i_sort := Some (i64_sat_add base (int k))\<rparr>"
  have step: "renumbered base (Suc k) qs (if i_id i = q \<and> is_queued i then ?g i else i)
      = renumbered base k (q # qs) i" for i
  proof (cases "i_id i = q")
    case True
    then have "i_id i \<notin> set qs" using 2(2) by simp
    then show ?thesis by (simp add: True renumbered_def position_def is_queued_def)
  next
    case False
    then show ?thesis by (simp add: renumbered_def position_def)
  qed
  have "renumber base k (q # qs) st =
      (set_inbox (\<lambda>i. i_id i = q \<and> is_queued i) ?g st)
        \<lparr>inbox := map (renumbered base (Suc k) qs)
           (inbox (set_inbox (\<lambda>i. i_id i = q \<and> is_queued i) ?g st))\<rparr>"
    using 2 by simp
  also have "\<dots> = st\<lparr>inbox := map (renumbered base k (q # qs)) (inbox st)\<rparr>"
    by (simp add: set_inbox_def set_where_def step comp_def)
  finally show ?case .
qed

lemma renumbered_simps [simp]:
  "i_id (renumbered base k ids i) = i_id i"
  "i_thread (renumbered base k ids i) = i_thread i"
  "is_queued (renumbered base k ids i) = is_queued i"
  "i_created (renumbered base k ids i) = i_created i"
  by (simp_all add: renumbered_def is_queued_def)

section \<open>Sorting by the new keys\<close>

lemma sort_to_ids:
  fixes K :: "'r \<Rightarrow> 'k :: linorder"
  assumes dist: "distinct (map key Q)" and perm: "mset ids = mset (map key Q)"
    and mono: "\<And>r s. r \<in> set Q \<Longrightarrow> s \<in> set Q \<Longrightarrow>
      position ids (key r) < position ids (key s) \<Longrightarrow> K r < K s"
  shows "map key (sort_key K Q) = ids"
proof -
  define row where "row x = the (List.find (\<lambda>r. key r = x) Q)" for x
  have row: "row (key r) = r" if "r \<in> set Q" for r
  proof -
    have "List.find (\<lambda>s. key s = key r) Q \<noteq> None"
      using that by (auto simp: find_None_iff)
    then obtain s where s: "List.find (\<lambda>s. key s = key r) Q = Some s" by blast
    then have "s \<in> set Q" "key s = key r" by (auto simp: find_Some_iff)
    then have "s = r" using row_by_id[OF dist _ that] by blast
    with s show ?thesis by (simp add: row_def)
  qed
  have ids: "distinct ids" "set ids = key ` set Q"
    using perm dist by (metis mset_eq_imp_distinct_iff, metis list.set_map mset_eq_setD)
  define ys where "ys = map row ids"
  have key_ys: "map key ys = ids"
    using ids(2) row by (auto simp: ys_def intro!: map_idI)
  have "set ys = set Q" using ids(2) row by (force simp: ys_def)
  moreover have "distinct ys" using key_ys ids(1) by (metis distinct_map)
  moreover have "distinct Q" using dist by (simp add: distinct_map)
  ultimately have "mset Q = mset ys" by (metis set_eq_iff_mset_eq_distinct)
  have less: "K (ys ! i) < K (ys ! j)" if "i < j" "j < length ys" for i j
  proof (rule mono)
    show "ys ! i \<in> set Q" "ys ! j \<in> set Q" using that \<open>set ys = set Q\<close> nth_mem by fastforce+
    have "key (ys ! i) = ids ! i" "key (ys ! j) = ids ! j"
      using that key_ys by (metis length_map nth_map less_trans)+
    then show "position ids (key (ys ! i)) < position ids (key (ys ! j))"
      using that ids(1) by (simp add: position_nth ys_def)
  qed
  then have "sorted (map K ys)"
    by (auto simp: sorted_iff_nth_mono_less intro: less_imp_le)
  moreover note \<open>mset Q = mset ys\<close>
  moreover have "inj_on K (set Q)"
  proof (rule inj_onI)
    fix r s assume rs: "r \<in> set Q" "s \<in> set Q" "K r = K s"
    then have "\<not> position ids (key r) < position ids (key s)" "\<not> position ids (key s) < position ids (key r)"
      using mono by force+
    then have p: "position ids (key r) = position ids (key s)" by simp
    obtain i j where "i < length ids" "ids ! i = key r" "j < length ids" "ids ! j = key s"
      using ids(2) rs by (metis imageI in_set_conv_nth)
    with p ids(1) have "key r = key s" by (metis position_nth)
    with row rs show "r = s" by metis
  qed
  ultimately have "sort_key K Q = ys"
    using sort_key_inj_key_eq by blast
  with key_ys show ?thesis by simp
qed

section \<open>Moving a turn\<close>

lemma moved_ids_spec:
  assumes "moved_ids ids i target after = Some ids'" and "i \<noteq> target"
  obtains xs ys where "remove1 i ids = xs @ target # ys"
    and "ids' = (if after then xs @ target # i # ys else xs @ i # target # ys)"
    and "i \<in> set ids"
proof -
  define rest where "rest = remove1 i ids"
  define xs where "xs = takeWhile (\<lambda>x. x \<noteq> target) rest"
  from assms have mem: "i \<in> set ids" "target \<in> set ids" by (auto simp: moved_ids_def split: if_splits)
  then have "target \<in> set rest" using assms(2) by (simp add: rest_def)
  then have "dropWhile (\<lambda>x. x \<noteq> target) rest \<noteq> []" by (simp add: dropWhile_eq_Nil_conv)
  then obtain y ys where "dropWhile (\<lambda>x. x \<noteq> target) rest = y # ys" by (meson list.exhaust)
  then have split: "rest = xs @ target # ys"
    unfolding dropWhile_eq_Cons_conv xs_def by blast
  have "ids' = take (length xs + (if after then 1 else 0)) rest @ [i]
      @ drop (length xs + (if after then 1 else 0)) rest"
    using assms(1) mem unfolding moved_ids_def Let_def xs_def rest_def by (simp split: if_splits)
  then have "ids' = (if after then xs @ target # i # ys else xs @ i # target # ys)"
    by (simp add: split)
  from that[OF split[unfolded rest_def] this mem(1)] show thesis .
qed

lemma moved_ids_mset:
  assumes "moved_ids ids i target after = Some ids'"
  shows "mset ids' = mset ids"
proof -
  from assms have i: "i \<in> set ids" by (auto simp: moved_ids_def split: if_splits)
  from assms obtain k where "ids' = take k (remove1 i ids) @ [i] @ drop k (remove1 i ids)"
    by (auto simp: moved_ids_def Let_def split: if_splits)
  moreover have "mset (take k xs @ [i] @ drop k xs) = add_mset i (mset xs)" for xs
    by (metis append_take_drop_id mset_append add_mset_add_single union_mset_add_mset_right
        mset.simps(2) append_Cons append_Nil)
  ultimately have "mset ids' = add_mset i (mset (remove1 i ids))" by simp
  then show ?thesis using i by simp
qed

definition queue_rows :: "ledger \<Rightarrow> str \<Rightarrow> inbox_row list" where
  "queue_rows st t = filter (\<lambda>i. is_queued i \<and> i_thread i = t) (inbox st)"

lemma queue_ids_rows: "queue_ids st t = map i_id (queue_order (queue_rows st t))"
  by (simp add: queue_ids_def queue_rows_def)

lemma queue_rows_distinct: "ledger_ok st \<Longrightarrow> distinct (map i_id (queue_rows st t))"
  by (simp add: ledger_ok_def inbox_ok_def queue_rows_def distinct_map_filter)

lemma queue_ids_mset: "mset (queue_ids st t) = mset (map i_id (queue_rows st t))"
  by (simp add: queue_ids_rows queue_order_def order_by_def)

lemma move_result:
  assumes ok: "ledger_ok st" and clock: "0 \<le> now e" "now e \<le> I64_MAX"
    and small: "int (length (inbox st)) \<le> I64_MAX"
    and body: "move_queued_body e t i target after st = Inr (True, st')"
  obtains ids where "moved_ids (queue_ids st t) i target after = Some ids"
    and "queue_ids st' t = ids"
    and "st' = st\<lparr>inbox := map (renumbered (now e - int (length ids)) 0 ids) (inbox st)\<rparr>"
proof -
  from body obtain ids where m: "moved_ids (queue_ids st t) i target after = Some ids"
    and st': "st' = renumber (i64_sat_sub (now e) (int (length ids))) 0 ids st"
    by (auto simp: move_queued_body_def split: option.splits)
  have ms: "mset ids = mset (map i_id (queue_rows st t))"
    using moved_ids_mset[OF m] queue_ids_mset by simp
  have di: "distinct ids" using ms queue_rows_distinct[OF ok] mset_eq_imp_distinct_iff by blast
  have len: "length ids \<le> length (inbox st)"
  proof -
    have "length ids = length (map i_id (queue_rows st t))" by (rule mset_eq_length[OF ms])
    then show ?thesis by (simp add: queue_rows_def)
  qed
  have base: "i64_sat_sub (now e) (int (length ids)) = now e - int (length ids)"
    using clock len small by (simp add: i64_sat_sub_def I64_MAX_def I64_MIN_def)
  let ?f = "renumbered (now e - int (length ids)) 0 ids"
  have eq: "st' = st\<lparr>inbox := map ?f (inbox st)\<rparr>"
    unfolding st' base by (rule renumber_inbox[OF di])
  have rows: "queue_rows st' t = map ?f (queue_rows st t)"
    by (simp add: queue_rows_def eq filter_map comp_def)
  have mem: "i_id r \<in> set ids" "is_queued r" if "r \<in> set (queue_rows st t)" for r
    using that ms by (metis list.set_map mset_eq_setD image_eqI, simp add: queue_rows_def)
  have key: "i_sort (?f r) = Some (now e - int (length ids) + int (position ids (i_id r)))"
    if "r \<in> set (queue_rows st t)" for r
  proof -
    have "position ids (i_id r) \<le> length ids" by (simp add: position_def length_takeWhile_le)
    then show ?thesis
      using mem[OF that] clock len small
      by (simp add: renumbered_def i64_sat_add_def I64_MAX_def I64_MIN_def)
  qed
  have "map i_id (sort_key (\<lambda>i. (coalesce (i_sort i) (i_created i), i_created i, i_id i)) (queue_rows st' t)) = ids"
  proof (rule sort_to_ids)
    show "distinct (map i_id (queue_rows st' t))"
      using queue_rows_distinct[OF ok] by (simp add: rows comp_def)
    show "mset ids = mset (map i_id (queue_rows st' t))" by (simp add: ms rows comp_def)
    show "(coalesce (i_sort r) (i_created r), i_created r, i_id r)
        < (coalesce (i_sort s) (i_created s), i_created s, i_id s)"
      if "r \<in> set (queue_rows st' t)" "s \<in> set (queue_rows st' t)"
        "position ids (i_id r) < position ids (i_id s)" for r s
      using that key by (auto simp: rows less_prod_def)
  qed
  then have "queue_ids st' t = ids" by (simp add: queue_ids_rows queue_order_def order_by_def)
  from that[OF m this eq] show thesis .
qed

end
