(* ===== verification/Ledger_Facts.thy ===== *)
theory Ledger_Facts
  imports Ledger_Queue
begin

text \<open>
  What single operations of the ledger achieve, stated over the rows they leave behind: the
  lemmas the ledger's properties rest on.
\<close>

section \<open>Frames\<close>

lemma append_locked_frame:
  assumes "append_control_timeline_locked e t item run ty data at st = Inr (r, st')"
  shows "runs st' = runs st \<and> approvals st' = approvals st \<and> inbox st' = inbox st \<and>
    mailbox st' = mailbox st \<and> timeline st' = timeline st @ [r] \<and> t_item r = item"
  using assms by (cases rule: append_locked_ok) (auto simp: insert_timeline_ok advance_defs)

lemma append_once_frame:
  assumes "append_control_timeline_once_locked e t item run ty data at st = Inr st'"
  shows "runs st' = runs st \<and> approvals st' = approvals st \<and> inbox st' = inbox st \<and>
    mailbox st' = mailbox st \<and> (\<exists>rs. timeline st' = timeline st @ rs)"
  using assms append_locked_frame
  by (fastforce simp: append_control_timeline_once_locked_def Let_def split: if_splits)

lemma append_once_item:
  assumes "append_control_timeline_once_locked e t item run ty data at st = Inr st'"
    and "list_ex (\<lambda>c. c_thread c = t) (controls st)" and "list_ex (\<lambda>r. t_thread r = t) (timeline st)"
  shows "item \<in> t_item ` set (timeline st')"
  using assms append_locked_frame
  by (fastforce simp: append_control_timeline_once_locked_def Let_def list_ex_iff split: if_splits)

lemma append_locked_controls:
  assumes "append_control_timeline_locked e t item run ty data at st = Inr (r, st')"
  shows "c_thread ` set (controls st') = c_thread ` set (controls st)"
  using assms by (cases rule: append_locked_ok) (simp add: insert_timeline_ok advance_defs)

lemma append_once_controls:
  assumes "append_control_timeline_once_locked e t item run ty data at st = Inr st'"
  shows "c_thread ` set (controls st') = c_thread ` set (controls st)"
proof (cases "st' = st")
  case False
  with assms obtain r where "append_control_timeline_locked e t item run ty data at st = Inr (r, st')"
    by (auto simp: append_control_timeline_once_locked_def Let_def split: if_splits)
  then show ?thesis by (rule append_locked_controls)
qed simp

text \<open>What the restart items leave as it is, and what they add.\<close>

definition restart_frame :: "ledger \<Rightarrow> ledger \<Rightarrow> bool" where
  "restart_frame st s \<longleftrightarrow>
     runs s = runs st \<and> approvals s = approvals st \<and> inbox s = inbox st \<and> mailbox s = mailbox st \<and>
     c_thread ` set (controls s) = c_thread ` set (controls st) \<and>
     (\<exists>rs. timeline s = timeline st @ rs)"

lemma restart_frame_refl [simp]: "restart_frame st st"
  by (simp add: restart_frame_def)

lemma restart_frame_trans: "restart_frame a b \<Longrightarrow> restart_frame b c \<Longrightarrow> restart_frame a c"
  by (auto simp: restart_frame_def)

lemma append_once_restart_frame:
  "append_control_timeline_once_locked e t item run ty data at s = Inr s' \<Longrightarrow> restart_frame s s'"
  using append_once_frame append_once_controls by (fastforce simp: restart_frame_def)

lemma efold_restart_frame:
  assumes "\<And>x s s'. f x s = Inr s' \<Longrightarrow> restart_frame s s'" and "efold f xs st = Inr st'"
  shows "restart_frame st st'"
  by (rule efold_invariant[where P = "restart_frame st", OF _ _ assms(2)])
     (use assms(1) restart_frame_trans in \<open>auto\<close>)

lemma restart_items_frame:
  shows "approval_restart_item e at x s = Inr s' \<Longrightarrow> restart_frame s s'"
    and "run_restart_item e at y s = Inr s' \<Longrightarrow> restart_frame s s'"
  by (auto simp: approval_restart_item_def run_restart_item_def split: prod.splits
      intro: append_once_restart_frame)

lemma efold_run_items:
  assumes "efold (run_restart_item e at) rs st = Inr st'" and "(r, t, err) \<in> set rs"
    and "t \<in> c_thread ` set (controls st)" and "t \<in> t_thread ` set (timeline st)"
  shows "''run-interrupted:'' @ r \<in> t_item ` set (timeline st')"
  using assms
proof (induction rs arbitrary: st)
  case Nil
  then show ?case by simp
next
  case (Cons x rs)
  from Cons.prems(1) obtain s where s: "run_restart_item e at x st = Inr s"
    and rest: "efold (run_restart_item e at) rs s = Inr st'" by auto
  have fr: "restart_frame st s" "restart_frame s st'"
    using restart_items_frame(2)[OF s] efold_restart_frame[OF restart_items_frame(2) rest] by auto
  show ?case
  proof (cases "x = (r, t, err)")
    case True
    have "''run-interrupted:'' @ r \<in> t_item ` set (timeline s)"
      using s Cons.prems(3,4)
      by (auto simp: True run_restart_item_def list_ex_iff intro!: append_once_item[rotated, rotated])
    with fr(2) show ?thesis by (auto simp: restart_frame_def)
  next
    case False
    with Cons.prems(2) have "(r, t, err) \<in> set rs" by auto
    moreover have "t \<in> c_thread ` set (controls s)" "t \<in> t_thread ` set (timeline s)"
      using fr(1) Cons.prems(3,4) by (auto simp: restart_frame_def)
    ultimately show ?thesis using Cons.IH[OF rest] by blast
  qed
qed

section \<open>Reconciliation\<close>

lemma reconcile_result:
  assumes "reconcile_control_startup_locked e st = Inr ((n, k), st')"
  shows "n = count_where is_active (runs st)"
    and "k = count_where (\<lambda>a. a_status a = ''pending'') (approvals st)"
    and "\<forall>r \<in> set (runs st'). \<not> is_active r"
    and "\<forall>a \<in> set (approvals st'). a_status a \<noteq> ''pending''"
    and "\<forall>i \<in> set (inbox st'). \<not> (i_kind i = ''steer'' \<and> i_state i = ''pending'')"
    and "\<forall>m \<in> set (mailbox st'). \<not> lost_mailbox st' m"
    and "\<forall>r \<in> set (runs st). is_active r \<and> r_thread r \<in> c_thread ` set (controls st) \<and>
      r_thread r \<in> t_thread ` set (timeline st) \<longrightarrow>
      ''run-interrupted:'' @ r_id r \<in> t_item ` set (timeline st')"
proof -
  let ?s1 = "interrupt_approvals e (interrupt_runs e st)"
  let ?s = "fail_mailboxes e (requeue_steers ?s1)"
  from assms have nk: "n = count_where is_active (runs st)"
      "k = count_where (\<lambda>a. a_status a = ''pending'') (approvals st)"
    and tl': "append_control_restart_timeline_locked e (interrupted_runs st)
      (interrupted_approvals st) (now e) ?s = Inr st'"
    by (auto simp: reconcile_control_startup_locked_def Let_def)
  then obtain s2 where s2: "efold (approval_restart_item e (now e)) (interrupted_approvals st) ?s = Inr s2"
    and s3: "efold (run_restart_item e (now e)) (interrupted_runs st) s2 = Inr st'"
    by (auto simp: append_control_restart_timeline_locked_def)
  have f2: "restart_frame ?s s2" by (rule efold_restart_frame[OF restart_items_frame(1) s2])
  have f3: "restart_frame s2 st'" by (rule efold_restart_frame[OF restart_items_frame(2) s3])
  have fr: "restart_frame ?s st'" by (rule restart_frame_trans[OF f2 f3])
  show "n = count_where is_active (runs st)"
    and "k = count_where (\<lambda>a. a_status a = ''pending'') (approvals st)" by (fact nk)+
  have quiet: "\<forall>r \<in> set (runs ?s1). \<not> is_active r"
    by (auto simp: interrupt_approvals_def set_approvals_def interrupt_runs_def set_runs_def
        ball_set_where is_active_def)
  have runs: "runs st' = runs ?s1"
    using fr by (simp add: restart_frame_def fail_mailboxes_def requeue_steers_def set_mailbox_def
        set_inbox_def)
  show "\<forall>r \<in> set (runs st'). \<not> is_active r" using quiet runs by simp
  have "approvals st' = approvals ?s1"
    using fr by (simp add: restart_frame_def fail_mailboxes_def requeue_steers_def set_mailbox_def
        set_inbox_def)
  then show "\<forall>a \<in> set (approvals st'). a_status a \<noteq> ''pending''"
    by (auto simp: interrupt_approvals_def set_approvals_def ball_set_where)
  have "inbox st' = set_where (orphan_steer ?s1) (\<lambda>i. i\<lparr>i_kind := ''followup'', i_target := None\<rparr>) (inbox ?s1)"
    using fr by (simp add: restart_frame_def fail_mailboxes_def requeue_steers_def set_mailbox_def
        set_inbox_def)
  then show "\<forall>i \<in> set (inbox st'). \<not> (i_kind i = ''steer'' \<and> i_state i = ''pending'')"
    using quiet by (auto simp: ball_set_where orphan_steer_def list_ex_iff split: option.splits)
  have mb: "mailbox st' = set_where (lost_mailbox (requeue_steers ?s1))
      (\<lambda>m. m\<lparr>mb_status := ''failed'', mb_updated := now e,
            mb_reply := Some (coalesce (mb_reply m) restart_reply)\<rparr>) (mailbox (requeue_steers ?s1))"
    using fr by (simp add: restart_frame_def fail_mailboxes_def set_mailbox_def)
  have "lost_mailbox st' m = lost_mailbox (requeue_steers ?s1) m" for m
    using runs by (simp add: lost_mailbox_def requeue_steers_def set_inbox_def split: option.split)
  then show "\<forall>m \<in> set (mailbox st'). \<not> lost_mailbox st' m"
    by (auto simp: mb ball_set_where lost_mailbox_def)
  show "\<forall>r \<in> set (runs st). is_active r \<and> r_thread r \<in> c_thread ` set (controls st) \<and>
      r_thread r \<in> t_thread ` set (timeline st) \<longrightarrow>
      ''run-interrupted:'' @ r_id r \<in> t_item ` set (timeline st')"
  proof (intro ballI impI)
    fix r assume r: "r \<in> set (runs st)" "is_active r \<and> r_thread r \<in> c_thread ` set (controls st) \<and>
      r_thread r \<in> t_thread ` set (timeline st)"
    have tabs: "controls ?s = controls st" "timeline ?s = timeline st"
      by (simp_all add: fail_mailboxes_def requeue_steers_def interrupt_approvals_def
          interrupt_runs_def set_mailbox_def set_inbox_def set_approvals_def set_runs_def)
    have "(r_id r, r_thread r, coalesce (r_error r) CONTROL_RESTART_RUN_ERROR) \<in> set (interrupted_runs st)"
      using r by (auto simp: interrupted_runs_def order_by_def)
    moreover have "r_thread r \<in> c_thread ` set (controls s2)" "r_thread r \<in> t_thread ` set (timeline s2)"
      using r(2) f2 by (auto simp: restart_frame_def tabs simp del: image_iff)
    ultimately show "''run-interrupted:'' @ r_id r \<in> t_item ` set (timeline st')"
      by (rule efold_run_items[OF s3])
  qed
qed

lemma count_where_none: "(\<forall>r \<in> set t. \<not> p r) \<Longrightarrow> count_where p t = 0"
  by (simp add: count_where_zero)

lemma filter_none: "(\<forall>r \<in> set t. \<not> p r) \<Longrightarrow> filter p t = []"
  by (simp add: filter_empty_conv)

text \<open>On a ledger with no active run, no pending approval, no pending steer and no lost mailbox
  request, reconciliation does nothing.\<close>

lemma reconcile_quiet:
  assumes "\<forall>r \<in> set (runs st). \<not> is_active r"
    and "\<forall>a \<in> set (approvals st). a_status a \<noteq> ''pending''"
    and "\<forall>i \<in> set (inbox st). \<not> (i_kind i = ''steer'' \<and> i_state i = ''pending'')"
    and "\<forall>m \<in> set (mailbox st). \<not> lost_mailbox st m"
  shows "reconcile_control_startup_locked e st = Inr ((0, 0), st)"
proof -
  have 1: "interrupt_runs e st = st"
    using assms(1) by (simp add: interrupt_runs_def set_runs_def set_where_none count_where_none)
  have 2: "interrupt_approvals e st = st"
    using assms(2) by (simp add: interrupt_approvals_def set_approvals_def set_where_none count_where_none)
  have "\<forall>i \<in> set (inbox st). \<not> orphan_steer st i" using assms(3) by (auto simp: orphan_steer_def)
  then have 3: "requeue_steers st = st"
    by (simp add: requeue_steers_def set_inbox_def set_where_none count_where_none)
  have 4: "fail_mailboxes e st = st"
    using assms(4) by (simp add: fail_mailboxes_def set_mailbox_def set_where_none count_where_none)
  show ?thesis
    using assms(1,2)
    by (simp add: reconcile_control_startup_locked_def interrupted_runs_def interrupted_approvals_def
        1 2 3 4 filter_none count_where_none order_by_def append_control_restart_timeline_locked_def)
qed

section \<open>Timeline writes\<close>

lemma control_of_set_where:
  "(\<And>c. c_thread (f c) = c_thread c) \<Longrightarrow>
     row_where (\<lambda>c. c_thread c = t) (set_where p f cs)
       = map_option (\<lambda>c. if p c then f c else c) (row_where (\<lambda>c. c_thread c = t) cs)"
  by (induction cs) (auto simp: row_where_def set_where_def)

lemma control_of_advance:
  "control_of (advance_control t sq d at st) u =
     map_option (\<lambda>c. if c_thread c = t
       then c\<lparr>c_next_seq := sq, c_revision := c_revision c + d, c_updated := at\<rparr> else c) (control_of st u)"
  by (simp add: control_of_def advance_control_def control_of_set_where)

lemma control_of_touch [simp]: "control_of (touch_session t at st) u = control_of st u"
  by (simp add: control_of_def touch_session_def)

lemma control_of_messages [simp]:
  "control_of (st\<lparr>messages := ms\<rparr>) u = control_of st u"
  "control_of (st\<lparr>timeline := tm\<rparr>) u = control_of st u"
  "control_of (st\<lparr>run_events := ev\<rparr>) u = control_of st u"
  by (simp_all add: control_of_def)

lemma thread_rows_append:
  "timeline st' = timeline st @ [r] \<Longrightarrow>
     thread_rows st' u = (if t_thread r = u then thread_rows st u @ [r] else thread_rows st u)"
  by (simp add: thread_rows_def)

lemma append_timeline_result:
  assumes ok: "ledger_ok st" and run: "control_append_timeline e t i r ty d st = (Inr row, st')"
  shows "t_thread row = trim t \<and> t_item row = trim i \<and> t_type row = trim ty \<and> t_data row = d
      \<and> t_run row = r"
    and "t_seq row = int (length (thread_rows st (trim t))) + 1"
    and "timeline st' = timeline st @ [row]"
    and "map_option c_revision (control_of st' (trim t))
           = map_option (\<lambda>c. c_revision c + 1) (control_of st (trim t))"
proof -
  from run obtain c st1 where c: "control_of st (trim t) = Some c"
    and row: "row = \<lparr>t_thread = trim t, t_epoch = c_epoch c, t_seq = c_next_seq c, t_item = trim i,
                     t_run = r, t_type = trim ty, t_data = d, t_created = now e\<rparr>"
    and ins: "insert_timeline row st = Inr st1"
    and st': "st' = advance_control (trim t) (i64_sat_add (c_next_seq c) 1) 1 (now e) st1"
    by (auto simp: control_append_timeline_def checked_ok transact_ok required_control_text_ok Let_def
        split: option.splits)
  show "t_thread row = trim t \<and> t_item row = trim i \<and> t_type row = trim ty \<and> t_data row = d
      \<and> t_run row = r" by (simp add: row)
  show "t_seq row = int (length (thread_rows st (trim t))) + 1"
    using timeline_step_ok(2)[OF ok c _ _ _ ins] by (simp add: row thread_rows_count)
  have st1: "st1 = st\<lparr>timeline := timeline st @ [row]\<rparr>" using ins by (simp add: insert_timeline_ok)
  show "timeline st' = timeline st @ [row]" by (simp add: st' st1 advance_control_def)
  show "map_option c_revision (control_of st' (trim t))
           = map_option (\<lambda>c. c_revision c + 1) (control_of st (trim t))"
    using control_of_Some[OF c] by (simp add: st' st1 control_of_advance c)
qed

lemma write_projection_row:
  assumes "write_projection e adopt t item msg st = Inr st1"
  shows "\<exists>m \<in> set (messages st1). m_session m = t \<and> m_json m = msg"
proof (cases "if adopt
    then List.find (\<lambda>m. m_session m = t \<and> json_text e (m_json m) ''id'' = Some item)
           (order_by m_index (messages st))
    else None")
  case None
  with assms show ?thesis by (auto simp: write_projection_def insert_message_ok)
next
  case (Some m)
  then have "m \<in> set (order_by m_index (messages st))" "m_session m = t"
    by (auto simp: find_Some_iff split: if_splits)
  then have "m \<in> set (messages st)" "m_session m = t" by (simp_all add: order_by_def)
  then have "m\<lparr>m_json := msg\<rparr> \<in> set (set_where (\<lambda>x. m_session x = t \<and> m_index x = m_index m)
      (\<lambda>x. x\<lparr>m_json := msg\<rparr>) (messages st))"
    by (force simp: set_set_where)
  moreover have "st1 = st\<lparr>messages := set_where (\<lambda>x. m_session x = t \<and> m_index x = m_index m)
      (\<lambda>x. x\<lparr>m_json := msg\<rparr>) (messages st)\<rparr>"
    using assms unfolding write_projection_def Some by simp
  ultimately show ?thesis
    using \<open>m_session m = t\<close> by (intro bexI[of _ "m\<lparr>m_json := msg\<rparr>"]) simp_all
qed

lemma commit_result:
  assumes ok: "ledger_ok st"
    and run: "commit_message_inner e t r i m ev step ty d adopt st = (Inr (tr, er), st')"
  shows "timeline st' = timeline st @ [tr] \<and> run_events st' = run_events st @ [er]"
    and "t_thread tr = trim t \<and> t_run tr = Some (trim r) \<and> t_item tr = trim i \<and>
      t_type tr = ''message'' \<and> t_data tr = m \<and> e_run er = trim r \<and> e_id er = trim ev"
    and "t_seq tr = int (length (thread_rows st (trim t))) + 1"
    and "e_seq er = int (length (event_rows st (trim r))) + 1"
    and "\<exists>x \<in> set (messages st'). m_session x = trim t \<and> m_json x = m"
    and "map_option c_revision (control_of st' (trim t))
           = map_option (\<lambda>c. c_revision c + 2) (control_of st (trim t))"
proof -
  from run have b: "commit_message_body e (trim t) (trim r) (trim i) m (trim ev) step (trim ty) d adopt st
      = Inr ((tr, er), st')"
    by (auto simp: commit_message_inner_def checked_ok transact_ok required_control_text_ok)
  have "(timeline st' = timeline st @ [tr] \<and> run_events st' = run_events st @ [er]) \<and>
    (t_thread tr = trim t \<and> t_run tr = Some (trim r) \<and> t_item tr = trim i \<and>
      t_type tr = ''message'' \<and> t_data tr = m \<and> e_run er = trim r \<and> e_id er = trim ev) \<and>
    t_seq tr = int (length (thread_rows st (trim t))) + 1 \<and>
    e_seq er = int (length (event_rows st (trim r))) + 1 \<and>
    (\<exists>x \<in> set (messages st'). m_session x = trim t \<and> m_json x = m) \<and>
    map_option c_revision (control_of st' (trim t))
           = map_option (\<lambda>c. c_revision c + 2) (control_of st (trim t))"
    using b
  proof (cases rule: commit_body_ok)
    case (1 st1 st2 st3 c)
    obtain ms where st1: "st1 = st\<lparr>messages := ms\<rparr>" by (rule write_projection_frame[OF 1(1)])
    have ok1: "ledger_ok st1" by (rule write_projection_ok[OF ok 1(1)])
    have st2: "st2 = st1\<lparr>timeline := timeline st @ [tr]\<rparr>" using 1(4) st1 by (simp add: insert_timeline_ok)
    have st3: "st3 = st2\<lparr>run_events := run_events st @ [er]\<rparr>"
      using 1(6) st2 st1 by (simp add: insert_run_event_ok)
    have sq: "t_seq tr = int (length (thread_rows st (trim t))) + 1"
      using timeline_step_ok(2)[OF ok1 1(2) _ _ _ 1(4)] by (simp add: 1(3) thread_rows_count st1)
    have g: "gapless e_run e_seq 1 (run_events st)" using ok by (simp add: ledger_ok_def run_events_ok_def)
    have esq: "e_seq er = int (length (event_rows st (trim r))) + 1"
      using gapless_next[OF g, of "trim r"]
      by (simp add: 1(5) next_event_seq_def st2 st1 event_rows_def count_where_def)
    have msgs: "\<exists>x \<in> set (messages st'). m_session x = trim t \<and> m_json x = m"
      using write_projection_row[OF 1(1)]
      by (simp add: 1(7) st3 st2 advance_defs)
    have ctl: "control_of st (trim t) = Some c" using 1(2) by (simp add: st1)
    have rev: "map_option c_revision (control_of st' (trim t))
           = map_option (\<lambda>c. c_revision c + 2) (control_of st (trim t))"
      using control_of_Some[OF ctl] by (simp add: 1(7) st3 st2 st1 control_of_advance ctl)
    show ?thesis
      using sq esq msgs rev by (auto simp: 1(3,5,7) st3 st2 st1 advance_defs)
  qed
  then show "timeline st' = timeline st @ [tr] \<and> run_events st' = run_events st @ [er]"
    "t_thread tr = trim t \<and> t_run tr = Some (trim r) \<and> t_item tr = trim i \<and>
      t_type tr = ''message'' \<and> t_data tr = m \<and> e_run er = trim r \<and> e_id er = trim ev"
    "t_seq tr = int (length (thread_rows st (trim t))) + 1"
    "e_seq er = int (length (event_rows st (trim r))) + 1"
    "\<exists>x \<in> set (messages st'). m_session x = trim t \<and> m_json x = m"
    "map_option c_revision (control_of st' (trim t))
           = map_option (\<lambda>c. c_revision c + 2) (control_of st (trim t))"
    by blast+
qed

end
