(* ===== verification/Ledger_Effects.thy ===== *)
theory Ledger_Effects
  imports Ledger_Facts
begin

text \<open>
  More of what single operations achieve: the fold that rebuilds the transcript against a map
  and an order, the deletion of a message, the two compare-and-set operations, approvals,
  receipts, artifacts, and the deletion of a thread.
\<close>

section \<open>The projected transcript\<close>

text \<open>The same transcript as a map from message ids to their last text, and the order of the ids.\<close>

definition row_message :: "env \<Rightarrow> timeline_row \<Rightarrow> str option" where
  "row_message e r =
     (case env_parse e (t_data r) of Inl _ \<Rightarrow> None
      | Inr v \<Rightarrow> Option.bind (jget (if t_type r = ''message'' then ''id'' else ''message_id'') v) as_str)"

fun transcript_text :: "env \<Rightarrow> timeline_row list \<Rightarrow> (str \<rightharpoonup> str) \<Rightarrow> (str \<rightharpoonup> str)" where
  "transcript_text e [] m = m"
| "transcript_text e (r # rs) m =
     transcript_text e rs
       (case row_message e r of None \<Rightarrow> m
        | Some i \<Rightarrow> m(i := if t_type r = ''message'' then Some (t_data r) else None))"

fun transcript_ids :: "env \<Rightarrow> timeline_row list \<Rightarrow> str list \<Rightarrow> str list" where
  "transcript_ids e [] ids = ids"
| "transcript_ids e (r # rs) ids =
     transcript_ids e rs
       (case row_message e r of None \<Rightarrow> ids
        | Some i \<Rightarrow> if t_type r = ''message'' then (if i \<in> set ids then ids else ids @ [i])
                    else removeAll i ids)"

declare project_step.simps [simp del]

lemma map_of_put: "map_of (put_projected i d ms) = (map_of ms)(i \<mapsto> d)"
  by (induction i d ms rule: put_projected.induct) auto

lemma ids_of_put:
  "map fst (put_projected i d ms) = (if i \<in> fst ` set ms then map fst ms else map fst ms @ [i])"
  by (induction i d ms rule: put_projected.induct) auto

lemma map_of_filter_key: "map_of (filter (\<lambda>m. fst m \<noteq> i) ms) = (map_of ms)(i := None)"
  by (induction ms) auto

lemma ids_of_filter: "map fst (filter (\<lambda>m. fst m \<noteq> i) ms) = removeAll i (map fst ms)"
  by (induction ms) auto

lemma project_step_ok:
  "project_step e r ms = Inr ms' \<Longrightarrow>
     ms' = (case row_message e r of None \<Rightarrow> ms
       | Some i \<Rightarrow> if t_type r = ''message'' then put_projected i (t_data r) ms
                   else filter (\<lambda>m. fst m \<noteq> i) ms)"
  by (simp add: project_step.simps row_message_def split: sum.splits option.splits if_splits)

lemma project_step_map:
  assumes "project_step e r ms = Inr ms'"
  shows "map_of ms' = (case row_message e r of None \<Rightarrow> map_of ms
      | Some i \<Rightarrow> (map_of ms)(i := if t_type r = ''message'' then Some (t_data r) else None))"
    and "map fst ms' = (case row_message e r of None \<Rightarrow> map fst ms
      | Some i \<Rightarrow> if t_type r = ''message''
          then (if i \<in> set (map fst ms) then map fst ms else map fst ms @ [i])
          else removeAll i (map fst ms))"
  unfolding project_step_ok[OF assms]
  by (simp_all add: map_of_put ids_of_put map_of_filter_key ids_of_filter split: option.split)

lemma project_fold:
  "efold (project_step e) rs ms = Inr ms' \<Longrightarrow>
     map_of ms' = transcript_text e rs (map_of ms) \<and> map fst ms' = transcript_ids e rs (map fst ms)"
proof (induction rs arbitrary: ms)
  case Nil
  then show ?case by simp
next
  case (Cons r rs)
  then obtain m1 where "project_step e r ms = Inr m1" "efold (project_step e) rs m1 = Inr ms'" by auto
  with Cons.IH[OF this(2)] project_step_map[OF this(1)] show ?case by simp
qed

lemma transcript_ids_distinct: "distinct ids \<Longrightarrow> distinct (transcript_ids e rs ids)"
proof (induction e rs ids rule: transcript_ids.induct)
  case (1 e ids)
  then show ?case by simp
next
  case (2 e r rs ids)
  show ?case
    using 2(2) unfolding transcript_ids.simps
    by (intro 2(1)) (auto split: option.split simp: distinct_removeAll)
qed

lemma projected_rows:
  assumes ok: "ledger_ok st"
  shows "order_by t_seq (filter (\<lambda>r. t_thread r = t \<and> p r) (timeline st)) = filter p (thread_rows st t)"
proof -
  have "filter (\<lambda>r. t_thread r = t \<and> p r) (timeline st) = filter p (thread_rows st t)"
    by (simp add: thread_rows_def conj_commute)
  moreover have "sorted (map t_seq (thread_rows st t))"
    unfolding thread_rows_dense[OF ok] by (rule sorted_dense)
  then have "sorted (map t_seq (filter p (thread_rows st t)))" by (rule sorted_filter)
  ultimately show ?thesis by (simp add: order_by_def sort_key_id_if_sorted)
qed

definition is_transcript_row :: "timeline_row \<Rightarrow> bool" where
  "is_transcript_row r \<longleftrightarrow> t_type r = ''message'' \<or> t_type r = ''message_deleted''"

lemma projected_refines:
  assumes ok: "ledger_ok st" and run: "control_projected_messages e st t = Inr texts"
  shows "texts = map (\<lambda>i. the (transcript_text e (filter is_transcript_row (thread_rows st (trim t))) Map.empty i))
      (transcript_ids e (filter is_transcript_row (thread_rows st (trim t))) [])"
proof -
  let ?rs = "filter is_transcript_row (thread_rows st (trim t))"
  have rows: "order_by t_seq (filter (\<lambda>r. t_thread r = trim t
      \<and> (t_type r = ''message'' \<or> t_type r = ''message_deleted'')) (timeline st)) = ?rs"
    using projected_rows[OF ok, where t = "trim t" and p = is_transcript_row] by (simp add: is_transcript_row_def)
  from run obtain ms where ms: "efold (project_step e) ?rs [] = Inr ms" and texts: "texts = map snd ms"
    by (auto simp: control_projected_messages_def required_control_text_ok rows)
  from project_fold[OF ms] have m: "map_of ms = transcript_text e ?rs Map.empty"
    and ids: "map fst ms = transcript_ids e ?rs []" by simp_all
  have d: "distinct (map fst ms)" unfolding ids by (rule transcript_ids_distinct) simp
  have "map snd ms = map (\<lambda>i. the (map_of ms i)) (map fst ms)"
    using d by (auto simp: map_of_eq_Some_iff)
  then show ?thesis by (simp add: texts m ids)
qed

section \<open>Deleting a message\<close>

text \<open>The message rows of a thread in index order, as \<open>control_messages\<close> reads them.\<close>

definition message_rows :: "ledger \<Rightarrow> str \<Rightarrow> message_row list" where
  "message_rows st t = filter (\<lambda>m. m_session m = t) (messages st)"

lemma message_rows_sorted:
  assumes ok: "ledger_ok st"
  shows "order_by m_index (message_rows st t) = message_rows st t"
    and "map m_index (message_rows st t) = map int [0..<length (message_rows st t)]"
proof -
  show ix: "map m_index (message_rows st t) = map int [0..<length (message_rows st t)]"
    using ok gaplessD[of m_session m_index 0 "messages st" t]
    by (simp add: ledger_ok_def messages_ok_def message_rows_def count_where_def)
  have "sorted (map m_index (message_rows st t))"
    unfolding ix by (simp add: sorted_iff_nth_mono)
  then show "order_by m_index (message_rows st t) = message_rows st t"
    by (simp add: order_by_def sort_key_id_if_sorted)
qed

lemma control_messages_rows:
  "ledger_ok st \<Longrightarrow> control_messages st t = Inr texts \<longleftrightarrow>
     trim t \<noteq> [] \<and> texts = map m_json (message_rows st (trim t))"
  using message_rows_sorted(1)[of st "trim t"]
  by (auto simp: control_messages_def required_control_text_def message_rows_def)

lemma remove_message_rows:
  "map m_json (message_rows (remove_message t k st) u)
     = map m_json (filter (\<lambda>m. \<not> (m_session m = t \<and> m_index m = k)) (message_rows st u))"
proof -
  have "map m_json (filter (\<lambda>m. m_session m = u)
      (set_where (\<lambda>m. m_session m = t \<and> k < m_index m) (\<lambda>m. m\<lparr>m_index := m_index m - 1\<rparr>)
         (drop_where (\<lambda>m. m_session m = t \<and> m_index m = k) ms)))
    = map m_json (filter (\<lambda>m. \<not> (m_session m = t \<and> m_index m = k)) (filter (\<lambda>m. m_session m = u) ms))"
    for ms
    by (induction ms) (auto simp: set_where_def drop_where_def)
  then show ?thesis by (simp add: message_rows_def remove_message_def)
qed

lemma find_split:
  "List.find p xs = Some x \<Longrightarrow> \<exists>as bs. xs = as @ x # bs \<and> p x \<and> (\<forall>y \<in> set as. \<not> p y)"
  by (induction xs) (auto split: if_splits intro: exI[of _ "[]"] dest!: spec[of _ "_ # _"],
    metis append_Cons set_ConsD)

lemma delete_message_result:
  assumes ok: "ledger_ok st" and run: "control_delete_message e t i st = (Inr found, st')"
  shows "if found
    then (\<exists>xs m ys. message_rows st (trim t) = xs @ m # ys \<and> stable_message_id e (m_json m) = Some (trim i)
            \<and> (\<forall>x \<in> set xs. stable_message_id e (m_json x) \<noteq> Some (trim i))
            \<and> map m_json (message_rows st' (trim t)) = map m_json (xs @ ys))
         \<and> (\<forall>u. u \<noteq> trim t \<longrightarrow> message_rows st' u = message_rows st u)
    else st' = st \<and> (\<forall>m \<in> set (message_rows st (trim t)). stable_message_id e (m_json m) \<noteq> Some (trim i))"
proof -
  let ?p = "\<lambda>m. stable_message_id e (m_json m) = Some (trim i)"
  note rows = message_rows_sorted(1)[OF ok, of "trim t"]
  have body: "(case List.find ?p (message_rows st (trim t)) of
      None \<Rightarrow> Inr (False, st)
    | Some m \<Rightarrow> ebind (bump_thread_revision_locked e (trim t) (remove_message (trim t) (m_index m) st))
                  (\<lambda>s. Inr (True, s))) = Inr (found, st')"
    using run by (auto simp: control_delete_message_def checked_ok transact_ok required_control_text_ok
        rows message_rows_def[symmetric])
  show ?thesis
  proof (cases "List.find ?p (message_rows st (trim t))")
    case None
    with body show ?thesis by (auto simp: find_None_iff)
  next
    case (Some m)
    then obtain s where s: "bump_thread_revision_locked e (trim t) (remove_message (trim t) (m_index m) st)
        = Inr s" and fin: "found" "st' = s" using body by auto
    have msgs: "message_rows st' u = message_rows (remove_message (trim t) (m_index m) st) u" for u
      using s fin by (auto simp: bump_thread_revision_locked_def message_rows_def touch_session_def
          split: if_splits)
    from find_split[OF Some] obtain xs ys where split: "message_rows st (trim t) = xs @ m # ys"
      and m: "?p m" and first: "\<forall>x \<in> set xs. \<not> ?p x" by blast
    have "distinct (map m_index (message_rows st (trim t)))"
      unfolding message_rows_sorted(2)[OF ok] by (simp add: distinct_map)
    then have "filter (\<lambda>x. m_index x \<noteq> m_index m) xs = xs" "filter (\<lambda>x. m_index x \<noteq> m_index m) ys = ys"
      by (auto simp: split filter_id_conv image_iff)
    then have "filter (\<lambda>x. m_index x \<noteq> m_index m) (message_rows st (trim t)) = xs @ ys"
      by (simp add: split)
    moreover have "filter (\<lambda>x. \<not> (m_session x = trim t \<and> m_index x = m_index m)) (message_rows st (trim t))
        = filter (\<lambda>x. m_index x \<noteq> m_index m) (message_rows st (trim t))"
      by (rule filter_cong) (auto simp: message_rows_def)
    ultimately have "map m_json (message_rows st' (trim t)) = map m_json (xs @ ys)"
      unfolding msgs remove_message_rows by simp
    moreover have "message_rows st' u = message_rows st u" if "u \<noteq> trim t" for u
      unfolding msgs using that
      by (subst (1) message_rows_def, simp add: remove_message_def, subst filter_set_where_other)
         (auto simp: message_rows_def drop_where_def intro: filter_cong)
    ultimately show ?thesis using split m first fin by auto
  qed
qed

section \<open>Revision-checked updates\<close>

lemma control_of_write_revision [simp]:
  "control_of (write_revision t n at st) u =
     map_option (\<lambda>c. if c_thread c = t then c\<lparr>c_revision := n, c_updated := at\<rparr> else c) (control_of st u)"
  by (simp add: control_of_def write_revision_def control_of_set_where)

lemma control_of_write_session [simp]: "control_of (write_session t sj at st) u = control_of st u"
  by (simp add: control_of_def write_session_def)

lemma session_of_write_session:
  "session_of (write_session t sj at st) u =
     map_option (\<lambda>s. if s_id s = t then s\<lparr>s_json := sj, s_updated := at\<rparr> else s) (session_of st u)"
proof -
  have "row_where (\<lambda>s. s_id s = u) (set_where (\<lambda>s. s_id s = t) (\<lambda>s. s\<lparr>s_json := sj, s_updated := at\<rparr>) ss)
      = map_option (\<lambda>s. if s_id s = t then s\<lparr>s_json := sj, s_updated := at\<rparr> else s)
          (row_where (\<lambda>s. s_id s = u) ss)" for ss
    by (induction ss) (auto simp: row_where_def set_where_def)
  then show ?thesis by (simp add: session_of_def write_session_def)
qed

lemma session_of_write_revision [simp]: "session_of (write_revision t n at st) u = session_of st u"
  by (simp add: session_of_def write_revision_def)

lemma thread_row_Some:
  "thread_row st t = Some cur \<longleftrightarrow>
     (\<exists>s c. session_of st t = Some s \<and> control_of st t = Some c \<and> cur = control_thread_from_row s c)"
  by (auto simp: thread_row_def split: option.splits)

lemma thread_row_written:
  assumes "thread_row st t = Some cur" and "0 \<le> n"
  shows "thread_row (write_revision t n at (write_session t sj at st)) t
    = Some (cur\<lparr>th_revision := n, th_json := sj, th_updated := at\<rparr>)"
proof -
  from assms(1) obtain s c where s: "session_of st t = Some s" and c: "control_of st t = Some c"
    and cur: "cur = control_thread_from_row s c" by (auto simp: thread_row_Some)
  have "s_id s = t" "c_thread c = t"
    using s c by (auto simp: session_of_def control_of_def dest!: row_where_Some)
  then show ?thesis
    using assms(2) by (simp add: thread_row_def session_of_write_session s c cur control_thread_from_row_def)
qed

lemma thread_row_appended:
  assumes "append_control_timeline_locked e t i run ty d at st = Inr (r, st')"
    and "thread_row st t = Some cur" and "0 \<le> th_revision cur" and "c_revision (the (control_of st t)) = th_revision cur"
  shows "thread_row st' t = Some (cur\<lparr>th_revision := th_revision cur + 1, th_updated := at\<rparr>)"
  using assms(1)
proof (cases rule: append_locked_ok)
  case (1 c st1)
  from assms(2) obtain s where s: "session_of st t = Some s" and cur: "cur = control_thread_from_row s c"
    using 1(1) by (auto simp: thread_row_Some)
  have keys: "s_id s = t" "c_thread c = t"
    using s 1(1) by (auto simp: session_of_def control_of_def dest!: row_where_Some)
  have touched: "session_of (touch_session t at u) t = map_option (\<lambda>s. s\<lparr>s_updated := at\<rparr>) (session_of u t)" for u
  proof -
    have "row_where (\<lambda>s. s_id s = t) (set_where (\<lambda>s. s_id s = t) (\<lambda>s. s\<lparr>s_updated := at\<rparr>) ss)
        = map_option (\<lambda>s. s\<lparr>s_updated := at\<rparr>) (row_where (\<lambda>s. s_id s = t) ss)" for ss
      by (induction ss) (auto simp: row_where_def set_where_def)
    then show ?thesis by (simp add: session_of_def touch_session_def)
  qed
  have "session_of st1 t = Some s" "control_of st1 t = Some c"
    using 1 s by (simp_all add: insert_timeline_ok session_of_def)
  moreover have "session_of (advance_control t a b at st1) t = session_of st1 t" for a b
    by (simp add: session_of_def advance_control_def)
  ultimately show ?thesis
    using 1 assms(3,4) keys
    by (simp add: thread_row_def touched control_of_advance cur control_thread_from_row_def)
qed

lemma control_of_written:
  "thread_row st t = Some cur \<Longrightarrow>
     c_revision (the (control_of (write_revision t n at (write_session t sj at st)) t)) = n"
  using control_of_Some by (auto simp: thread_row_Some)

lemma update_thread_result:
  assumes cur: "thread_row st (trim t) = Some cur"
    and run: "control_update_thread e t sj expected item st = (res, st')"
  shows "case res of
      Inl err \<Rightarrow> st' = st
    | Inr None \<Rightarrow> False
    | Inr (Some (new, row)) \<Rightarrow>
        (expected = None \<or> expected = Some (th_revision cur)) \<and>
        th_json new = sj \<and> thread_row st' (trim t) = Some new \<and>
        (item = None) = (row = None) \<and>
        th_revision new = th_revision cur + (if item = None then 1 else 2)"
proof (cases res)
  case (Inl err)
  then show ?thesis
    using run thread_ops_atomic(5)[of e t sj expected item st] by (simp add: atomic_def)
next
  case (Inr out)
  with run have body: "update_thread_body e (trim t) sj expected item st = Inr (out, st')"
    by (auto simp: control_update_thread_def checked_ok transact_ok required_control_text_ok)
  let ?rev = "u64_sat_add (th_revision cur) 1"
  let ?st2 = "write_revision (trim t) ?rev (now e) (write_session (trim t) sj (now e) st)"
  let ?new = "cur\<lparr>th_revision := ?rev, th_json := sj, th_updated := now e\<rparr>"
  from body cur have ex: "expected = None \<or> expected = Some (th_revision cur)"
    and small: "?rev \<le> I64_MAX"
    by (auto simp: update_thread_body_def Let_def u64_to_i64_def split: option.splits if_splits)
  have "0 \<le> th_revision cur" using cur by (auto simp: thread_row_Some control_thread_from_row_def)
  then have rev: "?rev = th_revision cur + 1" "0 \<le> ?rev" "u64_sat_add ?rev 1 = th_revision cur + 2"
    using small by (auto simp: u64_sat_add_def U64_MAX_def I64_MAX_def)
  note written = thread_row_written[OF cur rev(2), of "now e" sj]
  show ?thesis
  proof (cases item)
    case None
    with body cur ex small have "out = Some (?new, None)" "st' = ?st2"
      by (auto simp: update_thread_body_def Let_def u64_to_i64_def split: if_splits)
    then show ?thesis using ex written None rev by (simp add: Inr)
  next
    case (Some it)
    obtain i ty d where it: "it = (i, ty, d)" by (cases it)
    from body cur ex small Some it obtain r where
      app: "append_control_timeline_locked e (trim t) i None ty d (now e) ?st2 = Inr (r, st')"
      and out: "out = Some (?new\<lparr>th_revision := u64_sat_add ?rev 1\<rparr>, Some r)"
      by (auto simp: update_thread_body_def Let_def u64_to_i64_def split: if_splits)
    have "thread_row st' (trim t) = Some (?new\<lparr>th_revision := th_revision ?new + 1, th_updated := now e\<rparr>)"
      by (rule thread_row_appended[OF app written]) (use rev control_of_written[OF cur] in simp_all)
    then show ?thesis using ex out Some rev by (simp add: Inr)
  qed
qed

section \<open>Account-runtime bindings\<close>

lemma synced_field_differs: "runtime_last_synced_field f = Some sy \<Longrightarrow> f \<noteq> sy"
  by (auto simp: runtime_last_synced_field_def runtime_fields_def Option.bind_eq_Some_conv
      strip_prefix_iff split: if_splits)

lemma trim_nonempty_idem [simp]: "trim_nonempty (trim_nonempty v) = trim_nonempty v"
  by (simp add: trim_nonempty_def split: option.split)

lemma trim_nonempty_Some: "trim_nonempty v = Some s \<Longrightarrow> trim_nonempty (Some s) = Some s"
  by (metis trim_nonempty_idem)

lemma runtime_text_insert_runtime:
  "runtime_text (obj_insert ''accountRuntime'' (JObj rt) root) g
     = trim_nonempty (Option.bind (map_of rt g) as_str)"
  by (simp add: runtime_text_def account_runtime_def)

lemma runtime_edit_result:
  assumes "runtime_edit root f sy existing nx cu = Inr root'" and "f \<noteq> sy"
    and "trim_nonempty nx = nx"
  shows "runtime_text root' f = nx"
    and "g \<noteq> f \<Longrightarrow> g \<noteq> sy \<Longrightarrow> runtime_text root' g = runtime_text root g"
    and "k \<noteq> ''accountRuntime'' \<Longrightarrow> map_of root' k = map_of root k"
proof -
  have "runtime_text root' f = nx \<and>
    (g \<noteq> f \<longrightarrow> g \<noteq> sy \<longrightarrow> runtime_text root' g = runtime_text root g) \<and>
    (k \<noteq> ''accountRuntime'' \<longrightarrow> map_of root' k = map_of root k)"
  proof (cases nx)
    case (Some sid)
    with assms obtain rt where
      rt: "(case map_of root ''accountRuntime'' of None \<Rightarrow> Some [] | Some v \<Rightarrow> as_object v) = Some rt"
      and root': "root' = obj_insert ''accountRuntime'' (JObj (case cu of
          Some c \<Rightarrow> obj_insert sy (JStr c) (obj_insert f (JStr sid) rt)
        | None \<Rightarrow> if existing \<noteq> nx then obj_remove sy (obj_insert f (JStr sid) rt)
                  else obj_insert f (JStr sid) rt)) root"
      by (auto simp: runtime_edit_def Let_def split: option.splits)
    have old: "runtime_text root g = trim_nonempty (Option.bind (map_of rt g) as_str)"
      using rt by (auto simp: runtime_text_def account_runtime_def split: option.splits)
    show ?thesis
      using assms(2,3) Some unfolding root' old runtime_text_insert_runtime
      by (auto split: option.split)
  next
    case None
    show ?thesis
    proof (cases "account_runtime root")
      case None
      with \<open>nx = None\<close> assms(1) show ?thesis
        by (auto simp: runtime_edit_def runtime_text_def trim_nonempty_def)
    next
      case (Some rt)
      let ?rt = "obj_remove sy (obj_remove f rt)"
      from Some \<open>nx = None\<close> assms(1) have root': "root' = (if ?rt = []
          then obj_remove ''accountRuntime'' root else obj_insert ''accountRuntime'' (JObj ?rt) root)"
        by (auto simp: runtime_edit_def Let_def)
      have m: "map_of ?rt = (map_of rt)(f := None, sy := None)" by simp
      have "runtime_text root' h = trim_nonempty (Option.bind (map_of ?rt h) as_str)" for h
      proof (cases "?rt = []")
        case True
        then show ?thesis by (simp add: root' runtime_text_def account_runtime_def)
      next
        case False
        then show ?thesis by (simp add: root' runtime_text_insert_runtime)
      qed
      moreover have "runtime_text root g = trim_nonempty (Option.bind (map_of rt g) as_str)"
        by (simp add: runtime_text_def Some)
      ultimately show ?thesis
        unfolding m using \<open>nx = None\<close> by (auto simp: root' trim_nonempty_def)
    qed
  qed
  then show "runtime_text root' f = nx"
    "g \<noteq> f \<Longrightarrow> g \<noteq> sy \<Longrightarrow> runtime_text root' g = runtime_text root g"
    "k \<noteq> ''accountRuntime'' \<Longrightarrow> map_of root' k = map_of root k" by blast+
qed

lemma runtime_text_other:
  "k \<noteq> ''accountRuntime'' \<Longrightarrow> runtime_text (obj_insert k v root) g = runtime_text root g"
  by (simp add: runtime_text_def account_runtime_def)

text \<open>What a compare-and-set of a runtime binding did: the outcome, stated over the stored session.\<close>

definition binding_written ::
  "env \<Rightarrow> (str \<times> json) list \<Rightarrow> str \<Rightarrow> str \<Rightarrow> str option \<Rightarrow> str \<Rightarrow> bool" where
  "binding_written e root f sy nx text \<longleftrightarrow>
     (\<exists>root'. text = env_show e (JObj root') \<and> runtime_text root' f = nx
        \<and> (\<forall>g. g \<noteq> f \<longrightarrow> g \<noteq> sy \<longrightarrow> runtime_text root' g = runtime_text root g)
        \<and> (\<forall>k. k \<noteq> ''accountRuntime'' \<longrightarrow> k \<noteq> ''updatedAt'' \<longrightarrow> map_of root' k = map_of root k))"

lemma binding_writtenI:
  assumes "runtime_edit root f sy existing nx cu = Inr root1" and "f \<noteq> sy" and "trim_nonempty nx = nx"
  shows "binding_written e root f sy nx (env_show e (JObj (obj_insert ''updatedAt'' v root1)))"
  unfolding binding_written_def
  using runtime_edit_result[OF assms]
  by (intro exI[of _ "obj_insert ''updatedAt'' v root1"]) (simp add: runtime_text_other)

lemma runtime_cas_result:
  assumes cur: "thread_row st (trim t) = Some cur"
    and parse: "env_parse e (th_json cur) = Inr (JObj root)"
    and sy: "runtime_last_synced_field f = Some sy"
    and run: "control_compare_and_set_runtime_session e t f expected nxt cursor st = (res, st')"
  shows "case res of
      Inl err \<Rightarrow> st' = st
    | Inr None \<Rightarrow> runtime_text root f \<noteq> trim_nonempty expected \<and> st' = st
    | Inr (Some new) \<Rightarrow>
        runtime_text root f = trim_nonempty expected \<and> thread_row st' (trim t) = Some new \<and>
        (st' = st \<and> new = cur \<and> runtime_text root f = trim_nonempty nxt \<or>
         th_revision new = th_revision cur + 1 \<and>
         binding_written e root f sy (trim_nonempty nxt) (th_json new))"
proof (cases res)
  case (Inl err)
  then show ?thesis
    using run thread_ops_atomic(6)[of e t f expected nxt cursor st] by (simp add: atomic_def)
next
  case (Inr out)
  let ?ex = "trim_nonempty expected" and ?nx = "trim_nonempty nxt" and ?cu = "trim_nonempty cursor"
  from run sy Inr have body: "compare_and_set_body e (trim t) f sy ?ex ?nx ?cu st = Inr (out, st')"
    by (auto simp: control_compare_and_set_runtime_session_def checked_ok transact_ok required_control_text_ok)
  note b = body[unfolded compare_and_set_body_def cur option.case parse sum.case as_object.simps Let_def]
  show ?thesis
  proof (cases "runtime_text root f = ?ex")
    case False
    with b show ?thesis by (simp add: Inr)
  next
    case True
    show ?thesis
    proof (cases "?ex = ?nx \<and> (case ?cu of None \<Rightarrow> True | Some c \<Rightarrow> runtime_text root sy = Some c)")
      case idle: True
      with b True have "out = Some cur" "st' = st" by (auto split: if_splits)
      with idle True cur show ?thesis by (simp add: Inr)
    next
      case False
      let ?rev = "u64_sat_add (th_revision cur) 1"
      from b True False obtain root1 where
        edit: "runtime_edit root f sy ?ex ?nx ?cu = Inr root1" and small: "?rev \<le> I64_MAX"
        and out: "out = Some (cur\<lparr>th_revision := ?rev,
            th_json := env_show e (JObj (obj_insert ''updatedAt'' (JInt (now e)) root1)), th_updated := now e\<rparr>)"
        and st': "st' = write_revision (trim t) ?rev (now e) (write_session (trim t)
            (env_show e (JObj (obj_insert ''updatedAt'' (JInt (now e)) root1))) (now e) st)"
        by (auto simp: u64_to_i64_def split: if_splits)
      have "0 \<le> th_revision cur" using cur by (auto simp: thread_row_Some control_thread_from_row_def)
      then have rev: "?rev = th_revision cur + 1" "0 \<le> ?rev"
        using small by (auto simp: u64_sat_add_def U64_MAX_def I64_MAX_def)
      note written = thread_row_written[OF cur rev(2), unfolded rev(1)]
      have "binding_written e root f sy ?nx (env_show e (JObj (obj_insert ''updatedAt'' (JInt (now e)) root1)))"
        by (rule binding_writtenI[OF edit synced_field_differs[OF sy]]) simp
      then show ?thesis using True rev by (simp add: Inr out st' written)
    qed
  qed
qed

section \<open>Command receipts\<close>


lemma insert_receipt_ok:
  "insert_receipt r st = Inr st' \<longleftrightarrow>
     rc_command r \<notin> rc_command ` set (receipts st) \<and> st' = st\<lparr>receipts := receipts st @ [r]\<rparr>"
  by (auto simp: insert_receipt_def ebind_Inr_iff insert_row_key)

lemma insert_receipt_duplicate:
  "rc_command r \<in> rc_command ` set (receipts st) \<Longrightarrow> insert_receipt r st = Inl (Sqlite UniqueViolation)"
  by (force simp: insert_receipt_def insert_row_def list_ex_iff)

text \<open>The receipts the insert finds: all, or when a pruning is due the ones within their lifetime.\<close>

definition receipts_kept :: "env \<Rightarrow> ledger \<Rightarrow> receipt_row list" where
  "receipts_kept e st =
     (if next_prune st \<le> now e
      then drop_where (\<lambda>x. rc_created x < i64_sat_sub (now e) CONTROL_COMMAND_RECEIPT_TTL_MS) (receipts st)
      else receipts st)"

definition prune_after :: "env \<Rightarrow> ledger \<Rightarrow> int" where
  "prune_after e st =
     (if next_prune st \<le> now e then i64_sat_add (now e) CONTROL_COMMAND_RECEIPT_PRUNE_INTERVAL_MS
      else next_prune st)"

lemma put_receipt_ok:
  assumes "control_put_command_receipt e r st = (Inr u, st')"
  shows "commit_ok e \<and> is_ok (validate_control_json e (rc_request r) ''command request'')
      \<and> is_ok (validate_control_json e (rc_result r) ''command result'')
      \<and> rc_command r \<notin> rc_command ` set (receipts_kept e st)
      \<and> st' = st\<lparr>receipts := receipts_kept e st @ [r], next_prune := prune_after e st\<rparr>"
  using assms
  by (auto simp: control_put_command_receipt_def checked_ok transact_ok prune_command_receipts_locked_def
      insert_receipt_ok receipts_kept_def prune_after_def transact_def finish_control_transaction_def
      split: if_splits sum.splits prod.splits)

lemma put_receipt_again:
  assumes "control_put_command_receipt e r st = (Inr u, st')" and "now e < I64_MAX" "0 \<le> now e"
  shows "control_put_command_receipt e r st' = (Inl (Sqlite UniqueViolation), st')"
proof -
  note p = put_receipt_ok[OF assms(1)]
  have later: "\<not> prune_after e st \<le> now e"
    using assms(2,3) by (auto simp: prune_after_def i64_sat_add_def I64_MIN_def I64_MAX_def
        min_def CONTROL_COMMAND_RECEIPT_PRUNE_INTERVAL_MS_def)
  have dup: "insert_receipt r st' = Inl (Sqlite UniqueViolation)"
    using p by (intro insert_receipt_duplicate) simp
  have v: "ebind (validate_control_json e (rc_request r) ''command request'')
      (\<lambda>_. validate_control_json e (rc_result r) ''command result'') = Inr ()"
    using p by (auto simp: is_ok_def split: sum.splits)
  show ?thesis
    using p later dup unfolding control_put_command_receipt_def v
    by (simp add: transact_def finish_control_transaction_def)
qed

lemma receipt_found:
  assumes "control_put_command_receipt e r st = (Inr u, st')" and "trim c \<noteq> []"
  shows "control_command_receipt st' c =
    Inr (if rc_command r = trim c then Some r
         else row_where (\<lambda>x. rc_command x = trim c) (receipts_kept e st))"
proof -
  note p = put_receipt_ok[OF assms(1)]
  from p have "rc_command r \<notin> rc_command ` set (receipts_kept e st)" by blast
  then have "\<forall>x \<in> set (receipts_kept e st). rc_command x \<noteq> rc_command r" by (metis imageI)
  then have none: "row_where (\<lambda>x. rc_command x = rc_command r) (receipts_kept e st) = None"
    by (simp add: row_where_None)
  show ?thesis
    using p none assms(2)
    by (auto simp: control_command_receipt_def required_control_text_def row_where_append row_where_Cons
        split: option.split)
      (auto simp: row_where_def)
qed

end
