(* ===== verification/Ledger_Blobs.thy ===== *)
theory Ledger_Blobs
  imports Ledger_Effects
begin

text \<open>
  Reading artifacts back: what a stored blob decodes to, what a later write leaves of it, and what
  the deletion of a thread does to the blobs other threads refer to.
\<close>

section \<open>Decoding\<close>

text \<open>\<open>zstd\<close> gives back what it was given.\<close>

definition zstd_inverse :: "codec \<Rightarrow> bool" where
  "zstd_inverse c \<longleftrightarrow> (\<forall>x z. zstd_encode c x = Inr z \<longrightarrow> zstd_decode c z = Inr x)"

lemma blob_of_append: "blobs st' = blobs st @ bs \<Longrightarrow> blob_of st d = Some b \<Longrightarrow> blob_of st' d = Some b"
  by (simp add: blob_of_def row_where_append)

lemma no_blob_row: "\<not> has_blob st d \<Longrightarrow> row_where (\<lambda>b. b_digest b = d) (blobs st) = None"
  by (auto simp: has_blob_def list_ex_iff row_where_None)

text \<open>The bytes a blob stands for, given how its base is read.\<close>

definition blob_bytes :: "codec \<Rightarrow> (str \<Rightarrow> error + str) \<Rightarrow> blob_row \<Rightarrow> str \<Rightarrow> bool" where
  "blob_bytes c read b x \<longleftrightarrow>
     b_encoding b = ''json-v1'' \<and> x = b_payload b \<or>
     b_encoding b = ''zstd-json-v1'' \<and> zstd_decode c (b_payload b) = Inr x \<or>
     b_encoding b = ''prefix-delta-zstd-v1'' \<and>
       (\<exists>bd base delta. b_base b = Some bd \<and> read bd = Inr base \<and>
          zstd_decode c (b_payload b) = Inr delta \<and> apply_prefix_delta base delta = Inr x)"

lemma zstd_result_ok: "zstd_result w r = Inr x \<longleftrightarrow> r = Inr x"
  by (auto simp: zstd_result_def split: sum.splits)

lemma decode_ok:
  "decode_run_artifact_blob_locked c st d k = Inr x \<longleftrightarrow>
     k \<le> RUN_ARTIFACT_MAX_DELTA_DEPTH \<and>
     (\<exists>b. blob_of st d = Some b \<and> blob_bytes c (\<lambda>bd. decode_run_artifact_blob_locked c st bd (Suc k)) b x \<and>
        int (length x) = b_len b \<and> verify_artifact_digest c d x = Inr ())"
proof (cases "blob_of st d")
  case None
  then show ?thesis by (subst decode_run_artifact_blob_locked.simps) simp
next
  case (Some b)
  have fin: "(if b_len b < 0 then Inl e1 else if int (length y) \<noteq> b_len b then Inl e2
      else ebind (verify_artifact_digest c d y) (\<lambda>_. Inr y)) = Inr x \<longleftrightarrow>
      y = x \<and> int (length x) = b_len b \<and> verify_artifact_digest c d x = Inr ()" for y e1 e2
    by (auto simp: ebind_Inr_iff)
  have raw: "(if b_encoding b = ''json-v1'' then Inr (b_payload b)
        else if b_encoding b = ''zstd-json-v1'' then zstd_result w1 (zstd_decode c (b_payload b))
        else if b_encoding b = ''prefix-delta-zstd-v1''
        then (case b_base b of None \<Rightarrow> Inl e1
              | Some bd \<Rightarrow> ebind (read bd) (\<lambda>base. ebind (zstd_result w2 (zstd_decode c (b_payload b)))
                  (apply_prefix_delta base)))
        else Inl e2) = Inr y \<longleftrightarrow> blob_bytes c read b y" for w1 w2 e1 e2 read y
    by (auto simp: blob_bytes_def zstd_result_ok ebind_Inr_iff split: option.split)
  show ?thesis
    by (subst decode_run_artifact_blob_locked.simps) (auto simp: Some fin raw ebind_Inr_iff[of "if _ then _ else _"])
qed

text \<open>What decodes at some depth decodes to the same at a smaller depth and beside more blobs.\<close>

lemma decode_mono:
  "decode_run_artifact_blob_locked c st d k = Inr x \<Longrightarrow> blobs st' = blobs st @ bs \<Longrightarrow> j \<le> k \<Longrightarrow>
     decode_run_artifact_blob_locked c st' d j = Inr x"
proof (induction "Suc RUN_ARTIFACT_MAX_DELTA_DEPTH - k" arbitrary: d k j x)
  case 0
  then show ?case by (simp add: decode_ok)
next
  case (Suc n)
  from Suc.prems(1) have k: "k \<le> RUN_ARTIFACT_MAX_DELTA_DEPTH" by (simp add: decode_ok)
  have deeper: "decode_run_artifact_blob_locked c st bd (Suc k) = Inr y \<Longrightarrow>
      decode_run_artifact_blob_locked c st' bd (Suc j) = Inr y" for bd y
    by (rule Suc.hyps(1)) (use Suc.hyps(2) k Suc.prems(2,3) in auto)
  from Suc.prems(1) obtain b where b: "blob_of st d = Some b" "int (length x) = b_len b"
    "verify_artifact_digest c d x = Inr ()"
    and bytes: "blob_bytes c (\<lambda>bd. decode_run_artifact_blob_locked c st bd (Suc k)) b x"
    unfolding decode_ok[of c st d k] by blast
  have "blob_bytes c (\<lambda>bd. decode_run_artifact_blob_locked c st' bd (Suc j)) b x"
    using bytes deeper unfolding blob_bytes_def by blast
  then show ?case
    using k Suc.prems(3) b blob_of_append[OF Suc.prems(2) b(1)] unfolding decode_ok[of c _ d j] by auto
qed

lemma decode_depth:
  "decode_run_artifact_blob_locked c st d k = Inr x \<Longrightarrow> j \<le> k \<Longrightarrow>
     decode_run_artifact_blob_locked c st d j = Inr x"
  by (rule decode_mono[where bs = "[]"]) simp_all

text \<open>The chain under a run's next delta: its last request, read one level down.\<close>

definition base_readable :: "codec \<Rightarrow> ledger \<Rightarrow> str \<Rightarrow> bool" where
  "base_readable c st r \<longleftrightarrow>
     (\<forall>d. delta_base st r = Some d \<longrightarrow>
        (\<exists>base. decode_run_artifact_blob_locked c st d 1 = Inr base \<and> length base < 2 ^ 63))"

lemma compress_decodes:
  assumes "zstd_inverse c" and "compress_artifact c data = Inr (enc, payload)"
  shows "enc = ''json-v1'' \<and> payload = data \<or>
    enc = ''zstd-json-v1'' \<and> zstd_decode c payload = Inr data"
  using assms by (auto simp: compress_artifact_def zstd_inverse_def zstd_result_def
      split: if_splits sum.splits)

lemma encode_cases:
  assumes "encode_run_artifact_locked c st a = Inr b"
  obtains (plain) enc payload where "compress_artifact c (af_data a) = Inr (enc, payload)"
    "verify_artifact_digest c (af_digest a) (af_data a) = Inr ()"
    "b = \<lparr>b_digest = af_digest a, b_encoding = enc, b_base = None, b_payload = payload,
          b_len = int (length (af_data a))\<rparr>"
  | (delta) bd base z where "delta_base st (af_run a) = Some bd"
    "decode_run_artifact_blob_locked c st bd 0 = Inr base"
    "zstd_encode c (prefix_delta base (af_data a)) = Inr z"
    "verify_artifact_digest c (af_digest a) (af_data a) = Inr ()"
    "b = \<lparr>b_digest = af_digest a, b_encoding = ''prefix-delta-zstd-v1'', b_base = Some bd,
          b_payload = z, b_len = int (length (af_data a))\<rparr>"
proof -
  from assms obtain enc payload where v: "verify_artifact_digest c (af_digest a) (af_data a) = Inr ()"
    and cmp: "compress_artifact c (af_data a) = Inr (enc, payload)"
    by (auto simp: encode_run_artifact_locked_def Let_def)
  show thesis
  proof (cases "b_encoding b = ''prefix-delta-zstd-v1'' \<and> b_base b \<noteq> None")
    case True
    with assms v cmp show thesis
      by (auto simp: encode_run_artifact_locked_def Let_def zstd_result_def
          split: if_splits option.splits sum.splits intro: delta)
  next
    case False
    with assms v cmp show thesis
      by (auto simp: encode_run_artifact_locked_def Let_def split: if_splits option.splits intro: plain)
  qed
qed

lemma put_blob_fresh:
  assumes inv: "zstd_inverse c" and base: "base_readable c st (af_run a)"
    and fresh: "\<not> has_blob st (af_digest a)" and put: "put_blob c a st = Inr st1"
  obtains b where "st1 = st\<lparr>blobs := blobs st @ [b]\<rparr>" "b_digest b = af_digest a"
    "b_len b = int (length (af_data a))"
    "decode_run_artifact_blob_locked c st1 (af_digest a) 0 = Inr (af_data a)"
proof -
  from put fresh obtain b where enc: "encode_run_artifact_locked c st a = Inr b"
    and small: "b_len b \<le> I64_MAX" and ins: "insert_blob b st = Inr st1"
    by (auto simp: put_blob_def u64_to_i64_def split: if_splits)
  from enc have dig: "b_digest b = af_digest a" and len: "b_len b = int (length (af_data a))"
    and ver: "verify_artifact_digest c (af_digest a) (af_data a) = Inr ()"
    by (cases rule: encode_cases; simp)+
  from ins have st1: "st1 = st\<lparr>blobs := blobs st @ [b]\<rparr>"
    by (auto simp: insert_blob_def insert_row_key)
  have b: "blob_of st1 (af_digest a) = Some b"
    using no_blob_row[OF fresh] by (simp add: blob_of_def st1 row_where_append row_where_Cons dig)
  have "blob_bytes c (\<lambda>bd. decode_run_artifact_blob_locked c st1 bd (Suc 0)) b (af_data a)"
    using enc
  proof (cases rule: encode_cases)
    case (plain enc' payload)
    then show ?thesis using compress_decodes[OF inv plain(1)] by (auto simp: blob_bytes_def)
  next
    case (delta bd base z)
    from base delta(1) obtain base' where base': "decode_run_artifact_blob_locked c st bd 1 = Inr base'"
      "length base' < 2 ^ 63" by (auto simp: base_readable_def)
    have "base' = base" using decode_depth[OF base'(1), of 0] delta(2) by simp
    moreover have "length (af_data a) < 2 ^ 63" using small by (simp add: len I64_MAX_def)
    ultimately have "apply_prefix_delta base (prefix_delta base (af_data a)) = Inr (af_data a)"
      using base'(2) by (intro prefix_delta_sound) simp_all
    moreover have "decode_run_artifact_blob_locked c st1 bd (Suc 0) = Inr base"
      using base'(1) unfolding \<open>base' = base\<close>
      by (rule decode_mono[where bs = "[b]"]) (simp_all add: st1)
    moreover have "zstd_decode c z = Inr (prefix_delta base (af_data a))"
      using inv delta(3) by (simp add: zstd_inverse_def)
    ultimately show ?thesis using delta(5) by (simp add: blob_bytes_def)
  qed
  then have "decode_run_artifact_blob_locked c st1 (af_digest a) 0 = Inr (af_data a)"
    unfolding decode_ok[of c st1 "af_digest a" 0] using b len ver by simp
  from that[OF st1 dig len this] show thesis .
qed

section \<open>Storing an artifact\<close>

lemma put_ref_ok:
  "put_ref a st = Inr st' \<Longrightarrow>
     if list_ex (\<lambda>x. f_run x = af_run a \<and> f_digest x = af_digest a) (refs st) then st' = st
     else st' = st\<lparr>refs := refs st @ [\<lparr>f_run = af_run a, f_digest = af_digest a,
                     f_kind = af_kind a, f_created = af_created a\<rparr>]\<rparr>"
  by (auto simp: put_ref_def insert_ref_or_ignore_def split: if_splits)

lemma put_artifact_steps:
  assumes "control_put_run_artifact e c a st = (Inr u, st')"
  obtains st1 where "put_blob c a st = Inr st1" "put_ref a st1 = Inr st'"
  using assms
  by (auto simp: control_put_run_artifact_def checked_ok transact_ok split: sum.splits prod.splits)

lemma artifact_roundtrip_lemma:
  assumes ok: "ledger_ok st" and inv: "zstd_inverse c" and base: "base_readable c st (af_run a)"
    and fresh: "\<not> has_blob st (af_digest a)" and utf8: "utf8_check c (af_data a) = Inr ()"
    and ids: "trim (af_run a) = af_run a" "af_run a \<noteq> []" "trim (af_digest a) = af_digest a"
      "af_digest a \<noteq> []"
    and run: "control_put_run_artifact e c a st = (Inr u, st')"
  shows "control_run_artifact c st' (af_run a) (af_digest a)
    = Inr (Some (a\<lparr>af_len := int (length (af_data a))\<rparr>))"
proof -
  from put_artifact_steps[OF run] obtain st1 where pb: "put_blob c a st = Inr st1"
    and pr: "put_ref a st1 = Inr st'" by blast
  from put_blob_fresh[OF inv base fresh pb] obtain b where st1: "st1 = st\<lparr>blobs := blobs st @ [b]\<rparr>"
    and b: "b_digest b = af_digest a" "b_len b = int (length (af_data a))"
    and dec: "decode_run_artifact_blob_locked c st1 (af_digest a) 0 = Inr (af_data a)" by blast
  have none: "\<forall>f \<in> set (refs st). f_digest f \<noteq> af_digest a"
    using ok fresh unfolding ledger_ok_def refs_ok_def has_blob_iff by metis
  let ?f = "\<lparr>f_run = af_run a, f_digest = af_digest a, f_kind = af_kind a, f_created = af_created a\<rparr>"
  have st': "st' = st1\<lparr>refs := refs st @ [?f]\<rparr>"
  proof -
    have "\<not> list_ex (\<lambda>x. f_run x = af_run a \<and> f_digest x = af_digest a) (refs st1)"
      using none by (auto simp: list_ex_iff st1)
    then show ?thesis using put_ref_ok[OF pr] by (simp add: st1)
  qed
  have f: "row_where (\<lambda>f. f_run f = af_run a \<and> f_digest f = af_digest a) (refs st') = Some ?f"
  proof -
    have "row_where (\<lambda>f. f_run f = af_run a \<and> f_digest f = af_digest a) (refs st) = None"
      using none by (auto simp: row_where_None)
    then show ?thesis by (simp add: st' row_where_append row_where_Cons)
  qed
  have blob: "blob_of st' (af_digest a) = Some b"
    using no_blob_row[OF fresh] by (simp add: blob_of_def st' st1 row_where_append row_where_Cons b)
  have "decode_run_artifact_blob_locked c st' (af_digest a) 0 = Inr (af_data a)"
    by (rule decode_mono[OF dec, where bs = "[]"]) (simp_all add: st')
  then show ?thesis
    using ids utf8 f blob b
    by (simp add: control_run_artifact_def required_control_text_def utf8_result_def)
qed

text \<open>Writing an artifact only adds blobs and references.\<close>

definition blobs_grow :: "ledger \<Rightarrow> ledger \<Rightarrow> bool" where
  "blobs_grow st st' \<longleftrightarrow> (\<exists>bs. blobs st' = blobs st @ bs) \<and> (\<exists>fs. refs st' = refs st @ fs)"

lemma blobs_grow_refl [simp]: "blobs_grow st st"
  by (simp add: blobs_grow_def)

lemma blobs_grow_trans: "blobs_grow a b \<Longrightarrow> blobs_grow b c \<Longrightarrow> blobs_grow a c"
  by (auto simp: blobs_grow_def)

lemma put_steps_grow:
  shows "put_blob c a st = Inr st1 \<Longrightarrow> blobs_grow st st1"
    and "put_ref a st = Inr st1 \<Longrightarrow> blobs_grow st st1"
  by (auto simp: put_blob_def insert_blob_def insert_row_key blobs_grow_def dest!: put_ref_ok
      split: if_splits)

lemma put_artifact_grows: "blobs_grow st (snd (control_put_run_artifact e c a st))"
proof -
  let ?b = "transact e (\<lambda>s. ebind (put_blob c a s) (\<lambda>s'. Inr ((), s')))"
  let ?r = "transact e (\<lambda>s. ebind (put_ref a s) (\<lambda>s'. Inr ((), s')))"
  have b: "blobs_grow st (snd (?b st))"
    by (rule transact_keeps[where P = "blobs_grow st"]) (auto intro: put_steps_grow)
  have r: "blobs_grow s (snd (?r s))" for s
    by (rule transact_keeps[where P = "blobs_grow s"]) (auto intro: put_steps_grow)
  show ?thesis
    unfolding control_put_run_artifact_def
    by (rule checked_keeps[where P = "blobs_grow st"])
       (use b in \<open>auto split: prod.splits sum.splits intro: blobs_grow_trans[OF _ r]\<close>)
qed

lemma row_where_ex: "list_ex p xs \<Longrightarrow> \<exists>x. row_where p xs = Some x"
  by (metis list_ex_iff not_None_eq row_where_None)

lemma put_artifact_keeps_reads:
  assumes ok: "ledger_ok st" and run: "control_put_run_artifact e c a st = (res, st')"
    and ref: "list_ex (\<lambda>f. f_run f = trim r \<and> f_digest f = trim d) (refs st)"
    and read: "control_run_artifact c st r d = Inr (Some x)"
  shows "control_run_artifact c st' r d = Inr (Some x)"
proof -
  from put_artifact_grows[of st e c a] obtain bs fs
    where st': "blobs st' = blobs st @ bs" "refs st' = refs st @ fs"
    by (auto simp: run blobs_grow_def)
  from row_where_ex[OF ref] obtain f where
    f: "row_where (\<lambda>f. f_run f = trim r \<and> f_digest f = trim d) (refs st) = Some f" ..
  have "f_digest f = trim d" "f \<in> set (refs st)" using row_where_Some[OF f] by simp_all
  then have "has_blob st (trim d)"
    using ok unfolding ledger_ok_def refs_ok_def has_blob_iff by metis
  then obtain b where b: "blob_of st (trim d) = Some b"
    unfolding has_blob_def blob_of_def by (blast dest: row_where_ex)
  have f': "row_where (\<lambda>f. f_run f = trim r \<and> f_digest f = trim d) (refs st') = Some f"
    by (simp add: st' row_where_append f)
  have b': "blob_of st' (trim d) = Some b" by (rule blob_of_append[OF _ b]) (simp add: st')
  from read f b obtain data where "decode_run_artifact_blob_locked c st (trim d) 0 = Inr data"
    by (auto simp: control_run_artifact_def required_control_text_ok)
  then have "decode_run_artifact_blob_locked c st (trim d) 0 = Inr data"
    "decode_run_artifact_blob_locked c st' (trim d) 0 = Inr data"
    by (simp, rule decode_mono[where bs = bs and st = st and k = 0]) (simp_all add: st')
  with read f b f' b' show ?thesis
    by (auto simp: control_run_artifact_def required_control_text_def split: if_splits)
qed

section \<open>Deleting a thread\<close>

lemma delete_thread_ok:
  "control_delete_thread e t st = (Inr b, st') \<Longrightarrow>
     st' = delete_session_rows (trim t) st \<and> b = has_session st (trim t) \<and> trim t \<noteq> []"
  by (auto simp: control_delete_thread_def checked_ok transact_ok required_control_text_ok)

text \<open>No row of any table still belongs to the thread.\<close>

definition forgotten :: "str \<Rightarrow> ledger \<Rightarrow> bool" where
  "forgotten t st \<longleftrightarrow>
     (\<forall>s \<in> set (sessions st). s_id s \<noteq> t) \<and> (\<forall>c \<in> set (controls st). c_thread c \<noteq> t) \<and>
     (\<forall>m \<in> set (messages st). m_session m \<noteq> t) \<and> (\<forall>r \<in> set (timeline st). t_thread r \<noteq> t) \<and>
     (\<forall>r \<in> set (runs st). r_thread r \<noteq> t) \<and> (\<forall>i \<in> set (inbox st). i_thread i \<noteq> t) \<and>
     (\<forall>l \<in> set (links st). l_owner l \<noteq> t \<and> l_target l \<noteq> t) \<and>
     (\<forall>m \<in> set (mailbox st). mb_origin m \<noteq> t \<and> mb_target m \<noteq> t) \<and>
     (\<forall>a \<in> set (approvals st). a_thread a \<noteq> t)"

text \<open>What another thread keeps: its messages, its timeline but for the run a row came from, its runs
  and their events.\<close>

definition same_thread :: "str \<Rightarrow> ledger \<Rightarrow> ledger \<Rightarrow> bool" where
  "same_thread u st st' \<longleftrightarrow>
     session_of st' u = session_of st u \<and> control_of st' u = control_of st u \<and>
     message_rows st' u = message_rows st u \<and>
     map (\<lambda>r. r\<lparr>t_run := None\<rparr>) (thread_rows st' u) = map (\<lambda>r. r\<lparr>t_run := None\<rparr>) (thread_rows st u) \<and>
     runs_of st' u = runs_of st u \<and>
     (\<forall>r \<in> set (runs_of st u). event_rows st' r = event_rows st r)"

lemma filter_drop_where:
  "(\<And>x. q x \<Longrightarrow> \<not> p x) \<Longrightarrow> filter q (drop_where p xs) = filter q xs"
  by (induction xs) (auto simp: drop_where_def)

lemma row_where_drop_where:
  "(\<And>x. q x \<Longrightarrow> \<not> p x) \<Longrightarrow> row_where q (drop_where p xs) = row_where q xs"
  by (induction xs) (auto simp: drop_where_def row_where_def)

lemma delete_forgets: "forgotten t (delete_session_rows t st)"
  by (simp add: forgotten_def delete_session_rows_def Let_def)

lemma delete_keeps_others:
  assumes ok: "ledger_ok st" and u: "u \<noteq> t"
  shows "same_thread u st (delete_session_rows t st)"
proof -
  let ?gone = "runs_of st t"
  have tl: "map (\<lambda>r. r\<lparr>t_run := None\<rparr>) (filter (\<lambda>r. t_thread r = u)
        (map (\<lambda>r. r\<lparr>t_run := null_run ?gone (t_run r)\<rparr>) (drop_where (\<lambda>r. t_thread r = t) tm)))
      = map (\<lambda>r. r\<lparr>t_run := None\<rparr>) (filter (\<lambda>r. t_thread r = u) tm)" for tm
    using u by (induction tm) (auto simp: drop_where_def)
  have "r \<notin> set ?gone" if "r \<in> set (runs_of st u)" for r
    using that u ok by (auto simp: runs_of_def ledger_ok_def runs_ok_def distinct_map dest: inj_onD)
  then have ev: "event_rows (delete_session_rows t st) r = event_rows st r"
    if "r \<in> set (runs_of st u)" for r
    using that by (auto simp: event_rows_def delete_session_rows_def Let_def intro!: filter_drop_where)
  have "runs_of (delete_session_rows t st) u = runs_of st u"
    using u by (auto simp: runs_of_def delete_session_rows_def Let_def
        intro!: arg_cong[of _ _ "map r_id"] filter_drop_where)
  moreover have "session_of (delete_session_rows t st) u = session_of st u"
    "control_of (delete_session_rows t st) u = control_of st u"
    "message_rows (delete_session_rows t st) u = message_rows st u"
    using u by (auto simp: session_of_def control_of_def message_rows_def delete_session_rows_def
        Let_def intro!: row_where_drop_where filter_drop_where)
  ultimately show ?thesis
    using tl ev by (simp add: same_thread_def thread_rows_def delete_session_rows_def Let_def)
qed

text \<open>A delta whose base only the deleted thread referred to is lost to the threads that share it.\<close>

lemma delete_loses_base:
  assumes f: "row_where (\<lambda>f. f_run f = r \<and> f_digest f = d) (refs st) = Some f"
    and b: "blob_of st d = Some b" "b_encoding b = ''prefix-delta-zstd-v1''" "b_base b = Some d0"
    and r: "r \<notin> set (runs_of st t)"
    and base: "\<exists>g \<in> set (refs st). f_digest g = d0" "\<forall>g \<in> set (refs st). f_digest g = d0 \<longrightarrow> f_run g \<in> set (runs_of st t)"
    and ids: "trim r = r" "r \<noteq> []" "trim d = d" "d \<noteq> []"
  shows "control_run_artifact c (delete_session_rows t st) r d
    = Inl (Other (''run artifact blob '' @ d0 @ '' is missing''))"
proof -
  let ?st = "delete_session_rows t st"
  let ?kept = "drop_where (\<lambda>f. f_run f \<in> set (runs_of st t)) (refs st)"
  let ?dropped = "map f_digest (filter (\<lambda>f. f_run f \<in> set (runs_of st t)) (refs st))"
  have blobs: "blobs ?st = drop_where (\<lambda>b. b_digest b \<in> set ?dropped
      \<and> \<not> list_ex (\<lambda>f. f_digest f = b_digest b) ?kept) (blobs st)" and refs: "refs ?st = ?kept"
    by (simp_all add: delete_session_rows_def Let_def)
  have f': "row_where (\<lambda>f. f_run f = r \<and> f_digest f = d) (refs ?st) = Some f"
    using r f unfolding refs by (subst row_where_drop_where) auto
  have "list_ex (\<lambda>f. f_digest f = d) ?kept"
    using row_where_Some[OF f'] by (auto simp: refs list_ex_iff)
  then have b': "blob_of ?st d = Some b"
    using b(1) unfolding blob_of_def blobs by (subst row_where_drop_where) auto
  have "\<not> list_ex (\<lambda>f. f_digest f = d0) ?kept" "d0 \<in> set ?dropped"
    using base by (auto simp: list_ex_iff)
  then have "blob_of ?st d0 = None"
    unfolding blob_of_def blobs row_where_None by auto
  then have "decode_run_artifact_blob_locked c ?st d0 1 = Inl (Other (''run artifact blob '' @ d0 @ '' is missing''))"
    by (subst decode_run_artifact_blob_locked.simps) (simp add: RUN_ARTIFACT_MAX_DELTA_DEPTH_def)
  then have "decode_run_artifact_blob_locked c ?st d 0 = Inl (Other (''run artifact blob '' @ d0 @ '' is missing''))"
    using b by (subst decode_run_artifact_blob_locked.simps) (simp add: b' RUN_ARTIFACT_MAX_DELTA_DEPTH_def)
  then show ?thesis
    using ids f' b' by (simp add: control_run_artifact_def required_control_text_def)
qed

end
