(* ===== verification/Ledger_Example.thy ===== *)
theory Ledger_Example
  imports Ledger_Blobs
begin

text \<open>
  A small ledger on which the properties are evaluated: two linked threads, one of them with an
  active run, a queue, a steer, an answered mailbox request and a pending approval.
\<close>

definition demo_parse :: "str \<Rightarrow> str + json" where
  "demo_parse s =
     (if s = ''bad'' then Inl ''expected value''
      else if s = ''S'' then Inr (JObj [(''id'', JStr ''c''), (''messages'', JArr [JObj [(''id'', JStr ''x'')]])])
      else Inr (JObj [(''accountRuntime'', JObj [(''codexThreadId'', JStr ''k1''), (''piSessionId'', JStr ''p1'')]),
                      (''id'', JStr s), (''message_id'', JStr s)]))"

definition demo_env :: env where
  "demo_env = \<lparr>now = 1000, commit_ok = True, random_epoch = (\<lambda>t. ''ep-'' @ t),
               env_parse = demo_parse, env_show = (\<lambda>_. ''{}'')\<rparr>"

definition demo_codec :: codec where
  "demo_codec = \<lparr>artifact_digest = (\<lambda>d. ''sha256:'' @ d), zstd_encode = (\<lambda>d. Inr d),
                 zstd_decode = (\<lambda>d. Inr d), utf8_check = (\<lambda>_. Inr ())\<rparr>"

lemma demo_bounded: "vec_bounded demo_env"
  by (auto simp: vec_bounded_def demo_env_def demo_parse_def I64_MAX_def split: if_splits)

definition demo_turn :: "str \<Rightarrow> int \<Rightarrow> inbox_row" where
  "demo_turn i at =
     \<lparr>i_id = i, i_thread = ''a'', i_target = None, i_command = Some (''cmd-'' @ i),
      i_kind = ''followup'', i_state = ''pending'', i_payload = ''p'', i_created = at,
      i_claimed = None, i_resolved = None, i_sort = None\<rparr>"

definition demo_item :: "int \<Rightarrow> str \<Rightarrow> str \<Rightarrow> str \<Rightarrow> timeline_row" where
  "demo_item n item ty data =
     \<lparr>t_thread = ''a'', t_epoch = ''ep-a'', t_seq = n, t_item = item, t_run = Some ''r1'',
      t_type = ty, t_data = data, t_created = 10 + n\<rparr>"

definition demo_ledger :: ledger where
  "demo_ledger =
     \<lparr>sessions = [\<lparr>s_id = ''a'', s_json = ''sa'', s_order = 0, s_updated = 1\<rparr>,
                  \<lparr>s_id = ''b'', s_json = ''sb'', s_order = 1, s_updated = 2\<rparr>],
      messages = [\<lparr>m_session = ''a'', m_index = 0, m_json = ''m1''\<rparr>,
                  \<lparr>m_session = ''a'', m_index = 1, m_json = ''m2''\<rparr>],
      controls = [\<lparr>c_thread = ''a'', c_epoch = ''ep-a'', c_revision = 4, c_next_seq = 4, c_updated = 1\<rparr>,
                  \<lparr>c_thread = ''b'', c_epoch = ''ep-b'', c_revision = 1, c_next_seq = 1, c_updated = 2\<rparr>],
      runs = [\<lparr>r_id = ''r1'', r_thread = ''a'', r_status = ''running'', r_adapter = ''native'',
               r_request = ''q'', r_snapshot = None, r_native = None, r_created = 3, r_updated = 4,
               r_completed = None, r_error = None\<rparr>],
      timeline = [demo_item 1 ''m1'' ''message'' ''m1'', demo_item 2 ''m2'' ''message'' ''m2'',
                  demo_item 3 ''d1'' ''message_deleted'' ''m1''],
      run_events = [\<lparr>e_run = ''r1'', e_seq = 1, e_id = ''v1'', e_step = None, e_type = ''started'',
                     e_data = ''d'', e_created = 5\<rparr>],
      inbox = [demo_turn ''q1'' 20, demo_turn ''q2'' 21, demo_turn ''q3'' 22,
               (demo_turn ''s1'' 23)\<lparr>i_kind := ''steer'', i_target := Some ''r1''\<rparr>],
      links = [\<lparr>l_owner = ''a'', l_target = ''b'', l_created = 6\<rparr>,
               \<lparr>l_owner = ''b'', l_target = ''a'', l_created = 6\<rparr>],
      mailbox = [\<lparr>mb_id = ''x1'', mb_origin = ''a'', mb_target = ''b'', mb_origin_run = None,
                  mb_target_run = None, mb_status = ''replied'', mb_request = ''q'',
                  mb_reply = Some ''r'', mb_created = 7, mb_updated = 8, mb_consumed = None,
                  mb_projected = None\<rparr>],
      approvals = [\<lparr>a_id = ''p1'', a_run = ''r1'', a_thread = ''a'', a_kind = ''shell'',
                    a_request = ''q'', a_status = ''pending'', a_decision = None, a_created = 9,
                    a_resolved = None\<rparr>],
      receipts = [], artifacts = [], blobs = [], refs = [], next_prune = 0\<rparr>"

lemma demo_ok: "ledger_ok demo_ledger"
  by code_simp

lemma ok_result: "is_ok (fst p) \<Longrightarrow> \<exists>x s. p = (Inr x, s)"
  by (cases p) (auto simp: is_ok_def split: sum.splits)

text \<open>A history that builds a thread from nothing.\<close>

definition demo_history :: "(env \<times> op) list" where
  "demo_history =
     [(demo_env, Threads (OpCreateThread '' c '' ''S'' '' ep '')),
      (demo_env, Timeline (OpAppendTimeline ''c'' ''i1'' None ''note'' ''n1'')),
      (demo_env, Timeline (OpAppendTimeline ''c'' ''i2'' None ''note'' ''bad''))]"

end
