(* ===== verification/Ledger_Properties.thy ===== *)
theory Ledger_Properties
  imports Ledger_Example
begin


section \<open>The whole ledger\<close>



text \<open>C3. An operation that runs in one transaction and returns an error leaves the ledger exactly as
  it was, whatever failed: validation, a constraint of the schema, or \<open>COMMIT\<close>.\<close>

theorem failed_operation_changes_nothing:
  assumes "single_transaction x" and "fst (exec e c x st) = Some err"
  shows "snd (exec e c x st) = st"
  using assms by (rule exec_atomic)

theorem failed_operation_changes_nothing_witness:
  "snd (exec demo_env demo_codec (Timeline (OpCommitMessage False ''a'' ''r1'' ''m3'' ''m3'' ''v1'' None ''t'' ''d''))
     demo_ledger) = demo_ledger"
proof (rule failed_operation_changes_nothing[where err = "Sqlite UniqueViolation"])
  show "single_transaction (Timeline (OpCommitMessage False ''a'' ''r1'' ''m3'' ''m3'' ''v1'' None ''t'' ''d''))"
    by simp
  show "fst (exec demo_env demo_codec (Timeline (OpCommitMessage False ''a'' ''r1'' ''m3'' ''m3'' ''v1'' None
      ''t'' ''d'')) demo_ledger) = Some (Sqlite UniqueViolation)"
    by code_simp
qed

section \<open>The timeline\<close>





text \<open>An item appended to a thread becomes the last row of the timeline, with the trimmed ids the
  caller gave and the number after all rows of its thread, and the thread's revision grows by one.\<close>

theorem appended_item:
  assumes "ledger_ok st" and "control_append_timeline e t i r ty d st = (Inr row, st')"
  shows "timeline st' = timeline st @ [row]
    \<and> t_thread row = trim t \<and> t_item row = trim i \<and> t_type row = trim ty \<and> t_data row = d \<and> t_run row = r
    \<and> t_seq row = int (length (thread_rows st (trim t))) + 1
    \<and> map_option c_revision (control_of st' (trim t))
        = map_option (\<lambda>c. c_revision c + 1) (control_of st (trim t))"
  using append_timeline_result[OF assms] by blast

theorem appended_item_witness:
  "\<exists>row st'. control_append_timeline demo_env '' a'' ''i4'' None ''note'' ''n'' demo_ledger = (Inr row, st')
     \<and> t_seq row = 4 \<and> map_option c_revision (control_of st' ''a'') = Some 5"
proof -
  have "is_ok (fst (control_append_timeline demo_env '' a'' ''i4'' None ''note'' ''n'' demo_ledger))"
    by code_simp
  from ok_result[OF this] obtain row st' where
    run: "control_append_timeline demo_env '' a'' ''i4'' None ''note'' ''n'' demo_ledger = (Inr row, st')"
    by blast
  have "trim '' a'' = ''a''" "length (thread_rows demo_ledger ''a'') = 3"
    "map_option (\<lambda>c. c_revision c + 1) (control_of demo_ledger ''a'') = Some 5" by code_simp+
  with appended_item[OF demo_ok run] run show ?thesis by auto
qed

text \<open>Reading the timeline after a cursor gives the rows that follow it in order, at most the
  limit clamped to 1..500, and says truthfully whether older and newer rows exist. A pooled reader
  that knows the thread answers from its snapshot; the writer is not asked.\<close>

theorem timeline_page_after_cursor:
  assumes "ledger_ok snap" and "control_of snap (trim t) = Some c" and "int a \<le> I64_MAX" and "trim t \<noteq> []"
  shows "control_timeline_page snap st t (Some (int a)) None tail (int n) =
    (let all = thread_rows snap (trim t); rows = take (page_limit n) (drop a all)
     in Inr (Some \<lparr>pg_epoch = c_epoch c,
          pg_first = (if rows = [] then None else Some (int a + 1)),
          pg_last = (if rows = [] then None else Some (int (a + length rows))),
          pg_older = (rows \<noteq> [] \<and> 0 < a),
          pg_newer = (rows \<noteq> [] \<and> a + length rows < length all),
          pg_items = rows\<rparr>))"
  unfolding page_after[OF assms] page_of_slice[OF assms(1) refl] Let_def ..

theorem timeline_page_after_cursor_witness:
  "\<exists>p. control_timeline_page demo_ledger empty_ledger ''a'' (Some 1) None False 1 = Inr (Some p)
     \<and> map t_item (pg_items p) = [''m2''] \<and> pg_older p \<and> pg_newer p"
proof -
  have "control_of demo_ledger (trim ''a'') \<noteq> None" "trim ''a'' \<noteq> []" by code_simp+
  moreover have "map t_item (take (page_limit 1) (drop 1 (thread_rows demo_ledger (trim ''a'')))) = [''m2'']"
    "length (thread_rows demo_ledger (trim ''a'')) = 3" by code_simp+
  ultimately show ?thesis
    using timeline_page_after_cursor[OF demo_ok, of "''a''" _ 1 empty_ledger False 1]
    by (auto simp: Let_def I64_MAX_def page_limit_def clamp_def)
qed

text \<open>C24. A reader that follows a thread's timeline from a cursor, asking each time for what comes
  after the last sequence number it has seen, gets every later row once and in order, whatever the
  page size.\<close>

theorem timeline_followed:
  assumes "ledger_ok st" and "trim t \<noteq> []" and "control_of st (trim t) \<noteq> None"
    and "int a \<le> I64_MAX" and "length (thread_rows st (trim t)) - a \<le> fuel"
  shows "follow fuel t_seq (\<lambda>x. timeline_after st t x n) (int a) = drop a (thread_rows st (trim t))"
proof -
  from assms(3) obtain c where "control_of st (trim t) = Some c" by blast
  from timeline_log.follow_all[OF assms(1,2) thread_rows_bound(1)[OF assms(1) this] assms(5,4)]
  show ?thesis .
qed

theorem timeline_followed_witness:
  "map t_item (follow 5 t_seq (\<lambda>x. timeline_after demo_ledger ''a'' x 2) 0) = [''m1'', ''m2'', ''d1'']"
proof -
  have "follow 5 t_seq (\<lambda>x. timeline_after demo_ledger ''a'' x 2) (int 0)
      = drop 0 (thread_rows demo_ledger (trim ''a''))"
  proof (rule timeline_followed[OF demo_ok])
    show "trim ''a'' \<noteq> []" "control_of demo_ledger (trim ''a'') \<noteq> None" by code_simp+
    have "length (thread_rows demo_ledger (trim ''a'')) = 3" by code_simp
    then show "length (thread_rows demo_ledger (trim ''a'')) - 0 \<le> 5" by simp
  qed (simp add: I64_MAX_def)
  moreover have "map t_item (drop 0 (thread_rows demo_ledger (trim ''a''))) = [''m1'', ''m2'', ''d1'']"
    by code_simp
  ultimately show ?thesis by simp
qed

text \<open>The same for the event log of a run.\<close>

theorem run_events_followed:
  assumes "ledger_ok st" and "trim r \<noteq> []" and "int (length (event_rows st (trim r))) \<le> I64_MAX"
    and "int a \<le> I64_MAX" and "length (event_rows st (trim r)) - a \<le> fuel"
  shows "follow fuel e_seq (\<lambda>x. events_after st r x n) (int a) = drop a (event_rows st (trim r))"
  by (rule run_log.follow_all) (use assms in auto)

theorem run_events_followed_witness:
  "map e_id (follow 5 e_seq (\<lambda>x. events_after demo_ledger ''r1'' x 2) 0) = [''v1'']"
proof -
  have l: "length (event_rows demo_ledger (trim ''r1'')) = 1" by code_simp
  have "follow 5 e_seq (\<lambda>x. events_after demo_ledger ''r1'' x 2) (int 0)
      = drop 0 (event_rows demo_ledger (trim ''r1''))"
  proof (rule run_events_followed[OF demo_ok])
    show "trim ''r1'' \<noteq> []" by code_simp
  qed (simp_all add: l I64_MAX_def)
  moreover have "map e_id (drop 0 (event_rows demo_ledger (trim ''r1''))) = [''v1'']" by code_simp
  ultimately show ?thesis by simp
qed

section \<open>Messages and threads\<close>

text \<open>C9. Committing a message writes its projection, its timeline item and its run event together,
  each under the next number of its log, and moves the thread's revision by two.\<close>

theorem committed_message:
  assumes "ledger_ok st"
    and "commit_message_inner e t r i m ev step ty d adopt st = (Inr (tr, er), st')"
  shows "timeline st' = timeline st @ [tr] \<and> run_events st' = run_events st @ [er]
    \<and> t_thread tr = trim t \<and> t_run tr = Some (trim r) \<and> t_item tr = trim i \<and> t_type tr = ''message''
    \<and> t_data tr = m \<and> e_run er = trim r \<and> e_id er = trim ev
    \<and> t_seq tr = int (length (thread_rows st (trim t))) + 1
    \<and> e_seq er = int (length (event_rows st (trim r))) + 1
    \<and> (\<exists>x \<in> set (messages st'). m_session x = trim t \<and> m_json x = m)
    \<and> map_option c_revision (control_of st' (trim t))
        = map_option (\<lambda>c. c_revision c + 2) (control_of st (trim t))"
  using commit_result[OF assms] by blast

theorem committed_message_witness:
  "\<exists>tr er st'. commit_message_inner demo_env ''a'' ''r1'' ''m3'' ''m3'' ''v2'' None ''message'' ''d'' False demo_ledger
       = (Inr (tr, er), st')
     \<and> t_seq tr = 4 \<and> e_seq er = 2 \<and> map_option c_revision (control_of st' ''a'') = Some 6"
proof -
  let ?run = "commit_message_inner demo_env ''a'' ''r1'' ''m3'' ''m3'' ''v2'' None ''message'' ''d'' False demo_ledger"
  have "is_ok (fst ?run)" by code_simp
  from ok_result[OF this] obtain tr er st' where run: "?run = (Inr (tr, er), st')" by auto
  have "trim ''a'' = ''a''" "trim ''r1'' = ''r1''" "length (thread_rows demo_ledger ''a'') = 3"
    "length (event_rows demo_ledger ''r1'') = 1"
    "map_option (\<lambda>c. c_revision c + 2) (control_of demo_ledger ''a'') = Some 6" by code_simp+
  with committed_message[OF demo_ok run] run show ?thesis by auto
qed

text \<open>Deleting a message by its id removes the first message of the thread that carries the id,
  keeps the order and the text of the others, and leaves the messages of other threads alone; with
  no such message nothing changes.\<close>

theorem deleted_message:
  assumes "ledger_ok st" and "control_delete_message e t i st = (Inr found, st')"
  shows "if found
    then (\<exists>xs m ys. message_rows st (trim t) = xs @ m # ys \<and> stable_message_id e (m_json m) = Some (trim i)
            \<and> (\<forall>x \<in> set xs. stable_message_id e (m_json x) \<noteq> Some (trim i))
            \<and> map m_json (message_rows st' (trim t)) = map m_json (xs @ ys))
         \<and> (\<forall>u. u \<noteq> trim t \<longrightarrow> message_rows st' u = message_rows st u)
    else st' = st \<and> (\<forall>m \<in> set (message_rows st (trim t)). stable_message_id e (m_json m) \<noteq> Some (trim i))"
  using assms by (rule delete_message_result)

theorem deleted_message_witness:
  "\<exists>st'. control_delete_message demo_env ''a'' ''m1'' demo_ledger = (Inr True, st')
     \<and> map m_json (message_rows st' ''a'') = [''m2'']"
proof -
  let ?run = "control_delete_message demo_env ''a'' ''m1'' demo_ledger"
  have "fst ?run = Inr True" by code_simp
  then obtain st' where run: "?run = (Inr True, st')" by (metis prod.collapse)
  have rows: "trim ''a'' = ''a''" "trim ''m1'' = ''m1''"
    "map m_json (message_rows demo_ledger ''a'') = [''m1'', ''m2'']"
    "stable_message_id demo_env ''m2'' = Some ''m2''" by code_simp+
  from deleted_message[OF demo_ok run] rows(1,2) obtain xs m ys where
    split: "message_rows demo_ledger ''a'' = xs @ m # ys" and m: "stable_message_id demo_env (m_json m) = Some ''m1''"
    and left: "map m_json (message_rows st' ''a'') = map m_json (xs @ ys)" by auto
  have "map m_json (xs @ m # ys) = [''m1'', ''m2'']" using rows(3) split by simp
  then have "map m_json (xs @ ys) = [''m2'']"
    using m rows(4) by (cases xs) (auto simp: Cons_eq_append_conv append_eq_Cons_conv)
  with run left show ?thesis by simp
qed

text \<open>C8. The transcript rebuilt from the timeline is the map from message ids to the text last
  written under them, with the ids deleted since gone, in the order in which the ids first appeared
  after their last deletion.\<close>

theorem transcript_refines_map:
  assumes "ledger_ok st" and "control_projected_messages e st t = Inr texts"
  shows "texts = (let rows = filter is_transcript_row (thread_rows st (trim t))
    in map (\<lambda>i. the (transcript_text e rows Map.empty i)) (transcript_ids e rows []))"
  unfolding Let_def using assms by (rule projected_refines)

theorem transcript_refines_map_witness:
  "control_projected_messages demo_env demo_ledger ''a'' = Inr [''m2'']"
proof -
  let ?rows = "filter is_transcript_row (thread_rows demo_ledger (trim ''a''))"
  have "is_ok (control_projected_messages demo_env demo_ledger ''a'')" by code_simp
  then obtain texts where run: "control_projected_messages demo_env demo_ledger ''a'' = Inr texts"
    by (auto simp: is_ok_def split: sum.splits)
  have "map (\<lambda>i. the (transcript_text demo_env ?rows Map.empty i)) (transcript_ids demo_env ?rows []) = [''m2'']"
    by code_simp
  with transcript_refines_map[OF demo_ok run] run show ?thesis by (simp add: Let_def)
qed

text \<open>C18. Updating a thread is a compare-and-set on its revision: with a stale expected revision it
  fails and changes nothing, otherwise the thread read back afterwards is the record returned, with
  the new JSON and a revision one higher, two with a timeline item.\<close>

theorem thread_update_compare_and_set:
  assumes "thread_row st (trim t) = Some cur"
    and "control_update_thread e t sj expected item st = (res, st')"
  shows "case res of
      Inl err \<Rightarrow> st' = st
    | Inr None \<Rightarrow> False
    | Inr (Some (new, row)) \<Rightarrow>
        (expected = None \<or> expected = Some (th_revision cur)) \<and>
        th_json new = sj \<and> thread_row st' (trim t) = Some new \<and>
        (item = None) = (row = None) \<and>
        th_revision new = th_revision cur + (if item = None then 1 else 2)"
  using assms by (rule update_thread_result)

theorem thread_update_compare_and_set_witness:
  "snd (control_update_thread demo_env ''a'' ''s2'' (Some 3) None demo_ledger) = demo_ledger \<and>
   (\<exists>new row st'. control_update_thread demo_env ''a'' ''s2'' (Some 4) (Some (''i4'', ''note'', ''n'')) demo_ledger
      = (Inr (Some (new, row)), st') \<and> th_revision new = 6 \<and> thread_row st' ''a'' = Some new)"
proof
  have "thread_row demo_ledger (trim ''a'') \<noteq> None"
    "map_option th_revision (thread_row demo_ledger (trim ''a'')) = Some 4" by code_simp+
  then obtain cur where cur: "thread_row demo_ledger (trim ''a'') = Some cur" "th_revision cur = 4" by auto
  have "\<not> is_ok (fst (control_update_thread demo_env ''a'' ''s2'' (Some 3) None demo_ledger))" by code_simp
  with thread_update_compare_and_set[OF cur(1), of demo_env "''s2''" "Some 3" None]
  show "snd (control_update_thread demo_env ''a'' ''s2'' (Some 3) None demo_ledger) = demo_ledger"
    by (cases "control_update_thread demo_env ''a'' ''s2'' (Some 3) None demo_ledger")
       (auto split: sum.splits option.splits)
  let ?run = "control_update_thread demo_env ''a'' ''s2'' (Some 4) (Some (''i4'', ''note'', ''n'')) demo_ledger"
  have "is_ok (fst ?run)" by code_simp
  from ok_result[OF this] obtain x st' where run: "?run = (Inr x, st')" by blast
  have "trim ''a'' = ''a''" by code_simp
  with thread_update_compare_and_set[OF cur(1) run] run cur(2)
  show "\<exists>new row st'. ?run = (Inr (Some (new, row)), st') \<and> th_revision new = 6 \<and> thread_row st' ''a'' = Some new"
    by (cases x) auto
qed

text \<open>Setting an account-runtime session is a compare-and-set on the stored binding: when the
  stored session is not the expected one nothing changes and the caller learns it lost; otherwise the
  written session JSON binds the field to the new session, and leaves the bindings of every other
  runtime and every other key of the session but \<open>updatedAt\<close> as they were.\<close>

theorem runtime_session_compare_and_set:
  assumes "thread_row st (trim t) = Some cur" and "env_parse e (th_json cur) = Inr (JObj root)"
    and "runtime_last_synced_field f = Some sy"
    and "control_compare_and_set_runtime_session e t f expected nxt cursor st = (res, st')"
  shows "case res of
      Inl err \<Rightarrow> st' = st
    | Inr None \<Rightarrow> runtime_text root f \<noteq> trim_nonempty expected \<and> st' = st
    | Inr (Some new) \<Rightarrow>
        runtime_text root f = trim_nonempty expected \<and> thread_row st' (trim t) = Some new \<and>
        (st' = st \<and> new = cur \<and> runtime_text root f = trim_nonempty nxt \<or>
         th_revision new = th_revision cur + 1 \<and>
         binding_written e root f sy (trim_nonempty nxt) (th_json new))"
  using assms by (rule runtime_cas_result)

theorem runtime_session_compare_and_set_witness:
  "\<exists>new st'. control_compare_and_set_runtime_session demo_env ''a'' ''codexThreadId'' (Some ''k1'') (Some ''k2'') None
       demo_ledger = (Inr (Some new), st') \<and> thread_row st' ''a'' = Some new \<and> th_revision new = 5"
proof -
  let ?run = "control_compare_and_set_runtime_session demo_env ''a'' ''codexThreadId'' (Some ''k1'') (Some ''k2'') None
       demo_ledger"
  have "thread_row demo_ledger (trim ''a'') \<noteq> None"
    "map_option th_revision (thread_row demo_ledger (trim ''a'')) = Some 4"
    "map_option th_json (thread_row demo_ledger (trim ''a'')) = Some ''sa''" by code_simp+
  then obtain cur where cur: "thread_row demo_ledger (trim ''a'') = Some cur" "th_revision cur = 4"
    "th_json cur = ''sa''" by auto
  let ?root = "[(''accountRuntime'', JObj [(''codexThreadId'', JStr ''k1''), (''piSessionId'', JStr ''p1'')]),
                (''id'', JStr ''sa''), (''message_id'', JStr ''sa'')]"
  have parse: "env_parse demo_env (th_json cur) = Inr (JObj ?root)" unfolding cur(3) by code_simp
  have sy: "runtime_last_synced_field ''codexThreadId'' = Some ''codexLastSyncedMessageId''" by code_simp
  have ran: "is_ok (fst ?run)" "fst ?run \<noteq> Inr None"
    "map c_revision (controls (snd ?run)) \<noteq> map c_revision (controls demo_ledger)" by code_simp+
  from ok_result[OF ran(1)] obtain x st' where x: "?run = (Inr x, st')" by blast
  with ran(2) obtain new where run: "?run = (Inr (Some new), st')" by (cases x) auto
  with ran(3) have "st' \<noteq> demo_ledger" by auto
  have "trim ''a'' = ''a''" by code_simp
  with \<open>st' \<noteq> demo_ledger\<close> runtime_session_compare_and_set[OF cur(1) parse sy run] run cur(2)
  show ?thesis by auto
qed

text \<open>C25. Links between threads are mutual: adding a link adds both directions and no other, removing
  one removes both, and the relation is symmetric before and after.\<close>

theorem links_symmetric:
  assumes "ledger_ok st"
  shows "sym (link_set (links st))
    \<and> (\<forall>rs st'. control_add_thread_link e a b i st = (Inr rs, st') \<longrightarrow>
         link_set (links st') = link_set (links st) \<union> {(trim a, trim b), (trim b, trim a)})
    \<and> (\<forall>rs st'. control_remove_thread_link e a b i st = (Inr rs, st') \<longrightarrow>
         link_set (links st') = link_set (links st) - {(trim a, trim b), (trim b, trim a)})"
proof (intro conjI allI impI)
  show "sym (link_set (links st))" using assms by (simp add: ledger_ok_def reciprocal_iff)
  fix rs st'
  show "link_set (links st') = link_set (links st) \<union> {(trim a, trim b), (trim b, trim a)}"
    if "control_add_thread_link e a b i st = (Inr rs, st')"
    by (rule add_link_ok(2)[OF assms])
       (use that in \<open>auto simp: control_add_thread_link_def checked_ok transact_ok required_control_text_ok
          split: if_splits\<close>)
  show "link_set (links st') = link_set (links st) - {(trim a, trim b), (trim b, trim a)}"
    if "control_remove_thread_link e a b i st = (Inr rs, st')"
    by (rule remove_link_ok(2)[OF assms])
       (use that in \<open>auto simp: control_remove_thread_link_def checked_ok transact_ok required_control_text_ok\<close>)
qed

theorem links_symmetric_witness:
  "\<exists>rs st'. control_remove_thread_link demo_env ''b'' ''a'' ''u1'' demo_ledger = (Inr rs, st')
     \<and> link_set (links st') = {}"
proof -
  have "is_ok (fst (control_remove_thread_link demo_env ''b'' ''a'' ''u1'' demo_ledger))" by code_simp
  from ok_result[OF this] obtain rs st' where
    run: "control_remove_thread_link demo_env ''b'' ''a'' ''u1'' demo_ledger = (Inr rs, st')" by blast
  have "link_set (links demo_ledger) - {(trim ''b'', trim ''a''), (trim ''a'', trim ''b'')} = {}"
    by code_simp
  with links_symmetric[OF demo_ok, of demo_env "''b''" "''a''" "''u1''"] run show ?thesis by metis
qed

section \<open>Waiting work\<close>

text \<open>Moving a queued turn next to another puts it directly before or after it and leaves the
  order of all other turns of the queue as it was; no row of the inbox changes in anything but its
  sort key.\<close>

theorem queued_turn_moved:
  assumes "ledger_ok st" and "0 \<le> now e" and "now e \<le> I64_MAX"
    and "int (length (inbox st)) \<le> I64_MAX"
    and "control_move_queued_turn e t i target after st = (Inr True, st')"
  shows "\<exists>xs ys. remove1 (trim i) (queue_ids st (trim t)) = xs @ trim target # ys
    \<and> queue_ids st' (trim t) = (if after then xs @ trim target # trim i # ys else xs @ trim i # trim target # ys)
    \<and> map (\<lambda>r. r\<lparr>i_sort := None\<rparr>) (inbox st') = map (\<lambda>r. r\<lparr>i_sort := None\<rparr>) (inbox st)"
proof -
  from assms(5) have body: "move_queued_body e (trim t) (trim i) (trim target) after st = Inr (True, st')"
    and ne: "trim i \<noteq> trim target"
    by (auto simp: control_move_queued_turn_def checked_ok transact_ok required_control_text_ok split: if_splits)
  from move_result[OF assms(1-4) body] obtain ids where
    m: "moved_ids (queue_ids st (trim t)) (trim i) (trim target) after = Some ids"
    and new: "queue_ids st' (trim t) = ids"
    and st': "st' = st\<lparr>inbox := map (renumbered (now e - int (length ids)) 0 ids) (inbox st)\<rparr>" by blast
  have "map (\<lambda>r. r\<lparr>i_sort := None\<rparr>) (inbox st') = map (\<lambda>r. r\<lparr>i_sort := None\<rparr>) (inbox st)"
    by (simp add: st' renumbered_def)
  with moved_ids_spec[OF m ne] new show ?thesis by metis
qed

theorem queued_turn_moved_witness:
  "\<exists>st'. control_move_queued_turn demo_env ''a'' ''q3'' ''q1'' False demo_ledger = (Inr True, st')
     \<and> queue_ids st' ''a'' = [''q3'', ''q1'', ''q2'']"
proof -
  let ?run = "control_move_queued_turn demo_env ''a'' ''q3'' ''q1'' False demo_ledger"
  have "fst ?run = Inr True" by code_simp
  then obtain st' where run: "?run = (Inr True, st')" by (metis prod.collapse)
  have facts: "trim ''a'' = ''a''" "trim ''q3'' = ''q3''" "trim ''q1'' = ''q1''"
    "remove1 ''q3'' (queue_ids demo_ledger ''a'') = [''q1'', ''q2'']"
    "0 \<le> now demo_env" "now demo_env \<le> I64_MAX" "int (length (inbox demo_ledger)) \<le> I64_MAX" by code_simp+
  from queued_turn_moved[OF demo_ok facts(5-7) run] facts(1-4) obtain xs ys where
    "xs @ ''q1'' # ys = [''q1'', ''q2'']" "queue_ids st' ''a'' = xs @ ''q3'' # ''q1'' # ys" by auto
  then have "queue_ids st' ''a'' = [''q3'', ''q1'', ''q2'']"
    by (auto simp: append_eq_Cons_conv Cons_eq_append_conv)
  with run show ?thesis by blast
qed

text \<open>C26. However often and by whichever runs the waiting steers and injections are claimed, no inbox
  item is handed to two claims, and nothing is handed out that was not waiting.\<close>

theorem inbox_claimed_once:
  assumes "ledger_ok st"
  shows "distinct (claim_all inbox_claim cs st) \<and> set (claim_all inbox_claim cs st) \<subseteq> inbox_waiting st"
  using inbox_source.claim_all_distinct[OF assms] inbox_source.claim_all_waiting[OF assms] by blast

theorem inbox_claimed_once_witness:
  "claim_all inbox_claim [(demo_env, ''a'', ''r1''), (demo_env, ''a'', ''r1'')] demo_ledger = [''s1''] \<and>
   distinct (claim_all inbox_claim [(demo_env, ''a'', ''r1''), (demo_env, ''a'', ''r1'')] demo_ledger)"
proof
  show "claim_all inbox_claim [(demo_env, ''a'', ''r1''), (demo_env, ''a'', ''r1'')] demo_ledger = [''s1'']"
    by code_simp
  show "distinct (claim_all inbox_claim [(demo_env, ''a'', ''r1''), (demo_env, ''a'', ''r1'')] demo_ledger)"
    using inbox_claimed_once[OF demo_ok] by blast
qed

text \<open>The same for the replies of the mailbox, whatever the batch sizes.\<close>

theorem replies_claimed_once:
  assumes "ledger_ok st"
  shows "distinct (claim_all mailbox_claim cs st) \<and> set (claim_all mailbox_claim cs st) \<subseteq> reply_ids st"
  using mailbox_source.claim_all_distinct[OF assms] mailbox_source.claim_all_waiting[OF assms] by blast

theorem replies_claimed_once_witness:
  "claim_all mailbox_claim [(demo_env, ''a'', ''r1'', 5), (demo_env, ''a'', ''r1'', 5)] demo_ledger = [''x1''] \<and>
   distinct (claim_all mailbox_claim [(demo_env, ''a'', ''r1'', 5), (demo_env, ''a'', ''r1'', 5)] demo_ledger)"
proof
  show "claim_all mailbox_claim [(demo_env, ''a'', ''r1'', 5), (demo_env, ''a'', ''r1'', 5)] demo_ledger = [''x1'']"
    by code_simp
  show "distinct (claim_all mailbox_claim [(demo_env, ''a'', ''r1'', 5), (demo_env, ''a'', ''r1'', 5)] demo_ledger)"
    using replies_claimed_once[OF demo_ok] by blast
qed

section \<open>Restart\<close>



text \<open>Reconciling once more, at any later time, changes nothing and reports nothing.\<close>

theorem restart_idempotent:
  assumes "reconcile_control_startup e st = (Inr (n, k), st')" and "commit_ok e'"
  shows "reconcile_control_startup e' st' = (Inr (0, 0), st')"
proof -
  from assms(1) have "reconcile_control_startup_locked e st = Inr ((n, k), st')"
    by (simp add: reconcile_control_startup_def transact_ok)
  note r = reconcile_result[OF this]
  from reconcile_quiet[OF r(3-6)] assms(2) show ?thesis
    by (simp add: reconcile_control_startup_def)
qed

theorem restart_idempotent_witness:
  "reconcile_control_startup demo_env (snd (reconcile_control_startup demo_env demo_ledger))
     = (Inr (0, 0), snd (reconcile_control_startup demo_env demo_ledger))"
proof -
  have "is_ok (fst (reconcile_control_startup demo_env demo_ledger))" by code_simp
  from ok_result[OF this] obtain n k st' where
    run: "reconcile_control_startup demo_env demo_ledger = (Inr (n, k), st')" by auto
  have "commit_ok demo_env" by code_simp
  from restart_idempotent[OF run this] run show ?thesis by simp
qed

section \<open>Receipts and approvals\<close>

text \<open>Once a receipt is stored under a trimmed command id, a lookup of that id, with or without
  white space around it, finds it, a second receipt under the id is refused and changes nothing, and
  no receipt younger than the thirty-day lifetime was pruned.\<close>

theorem receipt_stored:
  assumes "control_put_command_receipt e r st = (Inr u, st')"
    and "trim (rc_command r) = rc_command r" and "0 \<le> now e" and "now e < I64_MAX"
    and "trim c = rc_command r" and "rc_command r \<noteq> []"
  shows "control_command_receipt st' c = Inr (Some r)
    \<and> control_put_command_receipt e r st' = (Inl (Sqlite UniqueViolation), st')
    \<and> (\<forall>x \<in> set (receipts st). now e - CONTROL_COMMAND_RECEIPT_TTL_MS \<le> rc_created x \<longrightarrow> x \<in> set (receipts st'))"
proof -
  have "i64_sat_sub (now e) CONTROL_COMMAND_RECEIPT_TTL_MS = now e - CONTROL_COMMAND_RECEIPT_TTL_MS"
    using assms(3,4) by (simp add: i64_sat_sub_def I64_MAX_def I64_MIN_def CONTROL_COMMAND_RECEIPT_TTL_MS_def)
  then have "\<forall>x \<in> set (receipts st). now e - CONTROL_COMMAND_RECEIPT_TTL_MS \<le> rc_created x
      \<longrightarrow> x \<in> set (receipts_kept e st)"
    by (auto simp: receipts_kept_def)
  then show ?thesis
    using receipt_found[OF assms(1), of c] put_receipt_again[OF assms(1,4,3)] put_receipt_ok[OF assms(1)] assms(5,6)
    by auto
qed

definition demo_receipt :: "str \<Rightarrow> receipt_row" where
  "demo_receipt c = \<lparr>rc_command = c, rc_device = None, rc_thread = Some ''a'', rc_kind = ''turn.send'',
                     rc_request = ''q'', rc_result = ''r'', rc_created = 1000\<rparr>"

theorem receipt_stored_witness:
  "\<exists>st'. control_put_command_receipt demo_env (demo_receipt ''c1'') demo_ledger = (Inr (), st')
     \<and> control_command_receipt st' '' c1 '' = Inr (Some (demo_receipt ''c1''))"
proof -
  have "is_ok (fst (control_put_command_receipt demo_env (demo_receipt ''c1'') demo_ledger))" by code_simp
  from ok_result[OF this] obtain st' where
    run: "control_put_command_receipt demo_env (demo_receipt ''c1'') demo_ledger = (Inr (), st')" by auto
  have "trim (rc_command (demo_receipt ''c1'')) = rc_command (demo_receipt ''c1'')" "0 \<le> now demo_env"
    "now demo_env < I64_MAX" "trim '' c1 '' = rc_command (demo_receipt ''c1'')"
    "rc_command (demo_receipt ''c1'') \<noteq> []" by code_simp+
  from receipt_stored[OF run this] run show ?thesis by blast
qed

text \<open>A receipt stored under a command id with white space around it is never found again: the
  lookup trims the id, the insert does not. A retry of the command is therefore not recognised, and
  its own receipt is refused because the id is taken.\<close>

theorem untrimmed_receipt_lost:
  assumes "control_put_command_receipt e r st = (Inr u, st')"
    and "trim (rc_command r) \<noteq> rc_command r" and "trim (rc_command r) \<noteq> []"
    and "\<forall>x \<in> set (receipts st). rc_command x \<noteq> trim (rc_command r)"
    and "0 \<le> now e" and "now e < I64_MAX"
  shows "control_command_receipt st' (rc_command r) = Inr None
    \<and> control_put_command_receipt e r st' = (Inl (Sqlite UniqueViolation), st')"
proof -
  have "row_where (\<lambda>x. rc_command x = trim (rc_command r)) (receipts_kept e st) = None"
    using assms(4) by (auto simp: row_where_None receipts_kept_def)
  then show ?thesis
    using receipt_found[OF assms(1,3)] put_receipt_again[OF assms(1,6,5)] assms(2) by simp
qed

theorem untrimmed_receipt_lost_witness:
  "\<exists>st'. control_put_command_receipt demo_env (demo_receipt '' c1'') demo_ledger = (Inr (), st')
     \<and> control_command_receipt st' '' c1'' = Inr None"
proof -
  have "is_ok (fst (control_put_command_receipt demo_env (demo_receipt '' c1'') demo_ledger))" by code_simp
  from ok_result[OF this] obtain st' where
    run: "control_put_command_receipt demo_env (demo_receipt '' c1'') demo_ledger = (Inr (), st')" by auto
  have "trim (rc_command (demo_receipt '' c1'')) \<noteq> rc_command (demo_receipt '' c1'')"
    "trim (rc_command (demo_receipt '' c1'')) \<noteq> []"
    "\<forall>x \<in> set (receipts demo_ledger). rc_command x \<noteq> trim (rc_command (demo_receipt '' c1''))"
    "0 \<le> now demo_env" "now demo_env < I64_MAX" by code_simp+
  from untrimmed_receipt_lost[OF run this] run show ?thesis by (auto simp: demo_receipt_def)
qed

text \<open>Cancelling the approvals of a run resolves exactly its pending ones: they get the decision,
  they are returned oldest first, and no other approval changes.\<close>

theorem run_approvals_cancelled:
  assumes "control_cancel_run_approvals e r decision st = (Inr cancelled, st')"
  shows "map a_id cancelled = map a_id (order_by a_created (filter (run_approval_pending (trim r)) (approvals st)))
    \<and> (\<forall>a \<in> set cancelled. a_status a = ''cancelled'' \<and> a_decision a = Some decision \<and> a_resolved a = Some (now e))
    \<and> filter (run_approval_pending (trim r)) (approvals st') = []
    \<and> filter (\<lambda>a. a_id a \<notin> set (map a_id cancelled)) (approvals st')
        = filter (\<lambda>a. a_id a \<notin> set (map a_id cancelled)) (approvals st)"
proof -
  let ?p = "run_approval_pending (trim r)"
  let ?f = "\<lambda>a. a\<lparr>a_status := ''cancelled'', a_decision := Some decision, a_resolved := Some (now e)\<rparr>"
  from assms have c: "cancelled = map ?f (order_by a_created (filter ?p (approvals st)))"
    and st': "approvals st' = set_where ?p ?f (approvals st)"
    by (auto simp: control_cancel_run_approvals_def checked_ok transact_ok required_control_text_ok
        set_approvals_def Let_def)
  have ids: "set (map a_id cancelled) = a_id ` set (filter ?p (approvals st))"
    by (auto simp: c order_by_def)
  have "filter (\<lambda>a. a_id a \<notin> a_id ` S) (set_where ?p ?f xs) = filter (\<lambda>a. a_id a \<notin> a_id ` S) xs"
    if "set (filter ?p xs) \<subseteq> S" for xs S
    using that by (induction xs) (auto simp: set_where_Cons set_where_def)
  from this[of "approvals st" "set (filter ?p (approvals st))"]
  have "filter (\<lambda>a. a_id a \<notin> set (map a_id cancelled)) (approvals st')
      = filter (\<lambda>a. a_id a \<notin> set (map a_id cancelled)) (approvals st)"
    unfolding st' ids by simp
  moreover have "filter ?p (approvals st') = []"
    by (auto simp: st' filter_empty_conv set_set_where run_approval_pending_def)
  ultimately show ?thesis by (auto simp: c comp_def order_by_def)
qed

theorem run_approvals_cancelled_witness:
  "\<exists>cancelled st'. control_cancel_run_approvals demo_env ''r1'' ''d'' demo_ledger = (Inr cancelled, st')
     \<and> map a_id cancelled = [''p1'']"
proof -
  have "is_ok (fst (control_cancel_run_approvals demo_env ''r1'' ''d'' demo_ledger))" by code_simp
  from ok_result[OF this] obtain cancelled st' where
    run: "control_cancel_run_approvals demo_env ''r1'' ''d'' demo_ledger = (Inr cancelled, st')" by blast
  have "map a_id (order_by a_created (filter (run_approval_pending (trim ''r1'')) (approvals demo_ledger))) = [''p1'']"
    by code_simp
  with run_approvals_cancelled[OF run] run show ?thesis by auto
qed

section \<open>Artifacts\<close>

text \<open>A prefix/suffix delta applied to the base it was made from gives back the bytes it encodes,
  for all byte strings a 64-bit machine can hold.\<close>

theorem delta_roundtrip:
  assumes "length base < 2 ^ 63" and "length nxt < 2 ^ 63"
  shows "apply_prefix_delta base (prefix_delta base nxt) = Inr nxt"
  using assms by (rule prefix_delta_sound)

theorem delta_roundtrip_witness:
  "apply_prefix_delta ''abcdef'' (prefix_delta ''abcdef'' ''abXYef'') = Inr ''abXYef''"
  by (rule delta_roundtrip) simp_all


definition demo_artifact :: "str \<Rightarrow> str \<Rightarrow> artifact_row" where
  "demo_artifact d x = \<lparr>af_run = ''r1'', af_digest = d, af_kind = ''provider_request'', af_data = x,
                        af_len = 0, af_created = 50\<rparr>"


text \<open>Whatever a later artifact write does, fails included: an artifact a run refers to and that
  could be read still reads the same.\<close>

theorem artifact_write_keeps_reads:
  assumes "ledger_ok st" and "control_put_run_artifact e c a st = (res, st')"
    and "list_ex (\<lambda>f. f_run f = trim r \<and> f_digest f = trim d) (refs st)"
    and "control_run_artifact c st r d = Inr (Some x)"
  shows "control_run_artifact c st' r d = Inr (Some x)"
  using assms by (rule put_artifact_keeps_reads)

definition demo_stored :: ledger where
  "demo_stored = snd (control_put_run_artifact demo_env demo_codec (demo_artifact ''d1'' ''xyz'') demo_ledger)"

theorem artifact_write_keeps_reads_witness:
  "map_option af_data (case control_run_artifact demo_codec
      (snd (control_put_run_artifact demo_env demo_codec (demo_artifact ''d2'' ''uvw'') demo_stored)) ''r1'' ''d1'' of
      Inr x \<Rightarrow> x | Inl _ \<Rightarrow> None) = Some ''xyz''"
proof -
  obtain res st' where run: "control_put_run_artifact demo_env demo_codec (demo_artifact ''d2'' ''uvw'') demo_stored
    = (res, st')" by fastforce
  have ok: "ledger_ok demo_stored" by code_simp
  have ref: "list_ex (\<lambda>f. f_run f = trim ''r1'' \<and> f_digest f = trim ''d1'') (refs demo_stored)" by code_simp
  have read: "control_run_artifact demo_codec demo_stored ''r1'' ''d1''
      = Inr (Some ((demo_artifact ''d1'' ''xyz'')\<lparr>af_len := 3\<rparr>))" by code_simp
  have "control_run_artifact demo_codec st' ''r1'' ''d1''
      = Inr (Some ((demo_artifact ''d1'' ''xyz'')\<lparr>af_len := 3\<rparr>))"
    by (rule artifact_write_keeps_reads[OF ok run ref read])
  then show ?thesis unfolding run by (simp add: demo_artifact_def)
qed

section \<open>Deleting a thread\<close>

text \<open>Deleting a thread leaves no row of any table that belongs to it, and takes nothing from
  another thread: its session, control row, messages, timeline, runs and run events stay, but for
  the reference of a timeline row to a run that is gone.\<close>

theorem deleted_thread_forgotten:
  assumes "ledger_ok st" and "control_delete_thread e t st = (Inr existed, st')"
  shows "existed = has_session st (trim t) \<and> forgotten (trim t) st'
    \<and> (\<forall>u. u \<noteq> trim t \<longrightarrow> same_thread u st st')"
  using delete_thread_ok[OF assms(2)] delete_forgets delete_keeps_others[OF assms(1)] by blast

theorem deleted_thread_forgotten_witness:
  "\<exists>st'. control_delete_thread demo_env ''a'' demo_ledger = (Inr True, st') \<and> forgotten ''a'' st'
     \<and> same_thread ''b'' demo_ledger st'"
proof -
  have "fst (control_delete_thread demo_env ''a'' demo_ledger) = Inr True" by code_simp
  then obtain st' where run: "control_delete_thread demo_env ''a'' demo_ledger = (Inr True, st')"
    by (metis prod.collapse)
  have "trim ''a'' = ''a''" by code_simp
  with deleted_thread_forgotten[OF demo_ok run] run show ?thesis by auto
qed

text \<open>C29. Deleting a thread can lose an artifact of another thread: when a run shares a delta blob
  whose base only the deleted thread's runs referred to, the base goes with them, and the artifact
  the surviving run still refers to can no longer be read.\<close>

theorem shared_delta_lost:
  assumes "row_where (\<lambda>f. f_run f = r \<and> f_digest f = d) (refs st) = Some f"
    and "blob_of st d = Some b" and "b_encoding b = ''prefix-delta-zstd-v1''" and "b_base b = Some d0"
    and "r \<notin> set (runs_of st (trim t))"
    and "\<exists>g \<in> set (refs st). f_digest g = d0"
    and "\<forall>g \<in> set (refs st). f_digest g = d0 \<longrightarrow> f_run g \<in> set (runs_of st (trim t))"
    and "trim r = r" and "r \<noteq> []" and "trim d = d" and "d \<noteq> []"
    and "control_delete_thread e t st = (Inr existed, st')"
  shows "control_run_artifact c st' r d = Inl (Other (''run artifact blob '' @ d0 @ '' is missing''))"
proof -
  have "st' = delete_session_rows (trim t) st" using delete_thread_ok[OF assms(12)] by blast
  then show ?thesis using delete_loses_base[OF assms(1-11)] by simp
qed

text \<open>Run \<open>r1\<close> of thread \<open>a\<close> stored a request and a delta against it; run \<open>r2\<close> of thread \<open>b\<close> stored the
  second request too, and shares its blob.\<close>

definition demo_shared :: ledger where
  "demo_shared = demo_ledger
     \<lparr>runs := runs demo_ledger @ [(hd (runs demo_ledger))\<lparr>r_id := ''r2'', r_thread := ''b''\<rparr>],
      blobs := [\<lparr>b_digest = ''d0'', b_encoding = ''json-v1'', b_base = None, b_payload = ''abcdef'', b_len = 6\<rparr>,
                \<lparr>b_digest = ''d1'', b_encoding = ''prefix-delta-zstd-v1'', b_base = Some ''d0'',
                 b_payload = prefix_delta ''abcdef'' ''abXYef'', b_len = 6\<rparr>],
      refs := [\<lparr>f_run = ''r1'', f_digest = ''d0'', f_kind = ''provider_request'', f_created = 1\<rparr>,
               \<lparr>f_run = ''r1'', f_digest = ''d1'', f_kind = ''provider_request'', f_created = 2\<rparr>,
               \<lparr>f_run = ''r2'', f_digest = ''d1'', f_kind = ''provider_request'', f_created = 3\<rparr>]\<rparr>"

lemma demo_shared_readable:
  "decode_run_artifact_blob_locked demo_codec demo_shared ''d1'' 0 = Inr ''abXYef''"
proof -
  have d0: "blob_of demo_shared ''d0'' = Some \<lparr>b_digest = ''d0'', b_encoding = ''json-v1'', b_base = None,
      b_payload = ''abcdef'', b_len = 6\<rparr>"
    and d1: "blob_of demo_shared ''d1'' = Some \<lparr>b_digest = ''d1'', b_encoding = ''prefix-delta-zstd-v1'',
      b_base = Some ''d0'', b_payload = prefix_delta ''abcdef'' ''abXYef'', b_len = 6\<rparr>"
    by (simp_all add: blob_of_def demo_shared_def row_where_def)
  have v: "verify_artifact_digest demo_codec ''d0'' x = Inr ()" "verify_artifact_digest demo_codec ''d1'' x = Inr ()" for x
    by (simp_all add: verify_artifact_digest_def starts_with_def)
  have "decode_run_artifact_blob_locked demo_codec demo_shared ''d0'' 1 = Inr ''abcdef''"
    unfolding decode_ok using d0 v by (simp add: blob_bytes_def RUN_ARTIFACT_MAX_DELTA_DEPTH_def)
  moreover have "apply_prefix_delta ''abcdef'' (prefix_delta ''abcdef'' ''abXYef'') = Inr ''abXYef''"
    by (rule prefix_delta_sound) simp_all
  ultimately show ?thesis
    unfolding decode_ok[of _ _ "''d1''"] using d1 v
    by (simp add: blob_bytes_def RUN_ARTIFACT_MAX_DELTA_DEPTH_def demo_codec_def)
qed

theorem shared_delta_lost_witness:
  "ledger_ok demo_shared \<and>
   decode_run_artifact_blob_locked demo_codec demo_shared ''d1'' 0 = Inr ''abXYef'' \<and>
   control_run_artifact demo_codec (snd (control_delete_thread demo_env ''a'' demo_shared)) ''r2'' ''d1''
     = Inl (Other ''run artifact blob d0 is missing'')"
proof (intro conjI)
  show "ledger_ok demo_shared" by code_simp
  show "decode_run_artifact_blob_locked demo_codec demo_shared ''d1'' 0 = Inr ''abXYef''"
    by (rule demo_shared_readable)
  have ne: "row_where (\<lambda>f. f_run f = ''r2'' \<and> f_digest f = ''d1'') (refs demo_shared) \<noteq> None"
    "blob_of demo_shared ''d1'' \<noteq> None" "is_ok (fst (control_delete_thread demo_env ''a'' demo_shared))"
    "map_option b_encoding (blob_of demo_shared ''d1'') = Some ''prefix-delta-zstd-v1''"
    "Option.bind (blob_of demo_shared ''d1'') b_base = Some ''d0''" by code_simp+
  from ne(1) obtain f where f: "row_where (\<lambda>f. f_run f = ''r2'' \<and> f_digest f = ''d1'') (refs demo_shared) = Some f"
    by blast
  from ne(2) obtain b where b1: "blob_of demo_shared ''d1'' = Some b" by blast
  with ne(4,5) have b: "blob_of demo_shared ''d1'' = Some b" "b_encoding b = ''prefix-delta-zstd-v1''"
    "b_base b = Some ''d0''" by simp_all
  from ok_result[OF ne(3)] obtain x st' where run: "control_delete_thread demo_env ''a'' demo_shared = (Inr x, st')"
    by blast
  have rest: "''r2'' \<notin> set (runs_of demo_shared (trim ''a''))" "\<exists>g \<in> set (refs demo_shared). f_digest g = ''d0''"
    "\<forall>g \<in> set (refs demo_shared). f_digest g = ''d0'' \<longrightarrow> f_run g \<in> set (runs_of demo_shared (trim ''a''))"
    "trim ''r2'' = ''r2''" "''r2'' \<noteq> []" "trim ''d1'' = ''d1''" "''d1'' \<noteq> []" by code_simp+
  show "control_run_artifact demo_codec (snd (control_delete_thread demo_env ''a'' demo_shared)) ''r2'' ''d1''
     = Inl (Other ''run artifact blob d0 is missing'')"
    unfolding run snd_conv shared_delta_lost[OF f b rest run] by simp
qed

end
