(* ===== verification/Shell_Command.thy ===== *)
theory Shell_Command
  imports Prelude
begin

text \<open>
  The analysis of shell command lines behind the approval policy
  (crates/milim-tools/src/shell_command.rs): the strict tokenizer, the split into segments, the
  table of read-only programs, and the prefix match of a granted command.

  The tokenizer reads \<open>char\<close>s; here it reads the bytes of the UTF-8 text. The two agree: every
  delimiter is one ASCII byte, a character that is pushed on a word pushes all its bytes, and the
  only test on a wider character, \<open>is_whitespace\<close>, is \<open>ws_len\<close>, which no continuation byte starts.
\<close>

section \<open>Tokens\<close>

datatype dialect = Posix | PowerShell

datatype token = Word str | Separator

text \<open>The local variables of \<open>tokenize\<close>: what was emitted and the word being read.\<close>

record lexer =
  tokens :: "token list"
  word :: str
  in_word :: bool

definition start_lexer :: lexer where
  "start_lexer = \<lparr>tokens = [], word = [], in_word = False\<rparr>"

definition flush :: "lexer \<Rightarrow> lexer" where
  "flush s = (if in_word s then s\<lparr>tokens := tokens s @ [Word (word s)], word := [], in_word := False\<rparr>
              else s)"

definition push :: "str \<Rightarrow> lexer \<Rightarrow> lexer" where
  "push w s = s\<lparr>word := word s @ w, in_word := True\<rparr>"

definition separate :: "lexer \<Rightarrow> lexer" where
  "separate s = (let s' = flush s in s'\<lparr>tokens := tokens s' @ [Separator]\<rparr>)"

text \<open>\<open>matches!(chars.peek(), Some('(') | Some('{'))\<close>: the opening of a substitution.\<close>

fun opens :: "str \<Rightarrow> bool" where
  "opens [] = False"
| "opens (c # _) = (c = CHR ''('' \<or> c = CHR ''{'')"

text \<open>The loops over a quoted stretch: what they read, and what is left after the closing
  quote; \<open>None\<close> is the early return.\<close>

fun single_quoted :: "str \<Rightarrow> (str \<times> str) option" where
  "single_quoted [] = None"
| "single_quoted (c # cs) =
     (if c = CHR 0x27 then Some ([], cs)
      else map_option (\<lambda>(w, r). (c # w, r)) (single_quoted cs))"

fun double_quoted :: "dialect \<Rightarrow> str \<Rightarrow> (str \<times> str) option" where
  "double_quoted d [] = None"
| "double_quoted d (c # cs) =
     (if c = CHR 0x22 then Some ([], cs)
      else if c = CHR 0x60 then None
      else if c = CHR ''$'' \<and> opens cs then None
      else if c = CHR 0x5C \<and> d = Posix then
        (case cs of
           [] \<Rightarrow> None
         | e # es \<Rightarrow> map_option (\<lambda>(w, r). (e # w, r)) (double_quoted d es))
      else map_option (\<lambda>(w, r). (c # w, r)) (double_quoted d cs))"

text \<open>The target of a redirection and what follows it. Only the null devices are accepted.\<close>

fun take_target :: "str \<Rightarrow> str \<times> str" where
  "take_target [] = ([], [])"
| "take_target (c # cs) =
     (if ws_len (c # cs) \<noteq> 0 \<or> c \<in> set ''|&;'' then ([], c # cs)
      else (let (t, r) = take_target cs in (c # t, r)))"

definition discards :: "str \<Rightarrow> bool" where
  "discards t \<longleftrightarrow> t \<in> set [''/dev/null'', ''$null'', ''nul'', ''NUL'']"

definition redirection :: "str \<Rightarrow> str option" where
  "redirection cs = (case cs of
       [] \<Rightarrow> None
     | c # r \<Rightarrow>
         (if c = CHR ''&'' then
            (case r of [] \<Rightarrow> None | e # r' \<Rightarrow> (if e = CHR ''1'' \<or> e = CHR ''2'' then Some r' else None))
          else
            (let (t, r) = take_target (dropWhile (\<lambda>x. x = CHR '' '') cs)
             in if discards t then Some r else None)))"

definition drop_descriptor :: "lexer \<Rightarrow> lexer" where
  "drop_descriptor s =
     (if in_word s \<and> (word s = ''1'' \<or> word s = ''2'') then s\<lparr>word := [], in_word := False\<rparr>
      else flush s)"

definition next_if_eq :: "char \<Rightarrow> str \<Rightarrow> str option" where
  "next_if_eq x cs = (case cs of [] \<Rightarrow> None | c # r \<Rightarrow> (if c = x then Some r else None))"

lemma single_quoted_split:
  "single_quoted cs = Some (w, r) \<longleftrightarrow> cs = w @ CHR 0x27 # r \<and> CHR 0x27 \<notin> set w"
proof (induction cs arbitrary: w)
  case (Cons c cs)
  show ?case
  proof (cases w)
    case Nil
    then show ?thesis by (auto simp del: char.inject)
  next
    case w: (Cons a w')
    show ?thesis
    proof (cases "c = CHR 0x27")
      case True
      then show ?thesis using w by (auto simp del: char.inject)
    next
      case False
      have "single_quoted (c # cs) = Some (w, r) \<longleftrightarrow> a = c \<and> single_quoted cs = Some (w', r)"
        using False w by (cases "single_quoted cs") (auto simp del: char.inject)
      then show ?thesis using False w Cons.IH[of w'] by (auto simp del: char.inject)
    qed
  qed
qed simp

lemma double_quoted_shorter: "double_quoted d cs = Some (w, r) \<Longrightarrow> length r < length cs"
proof (induction d cs arbitrary: w rule: double_quoted.induct)
  case (2 d c cs)
  show ?case
  proof (cases "c = CHR 0x22")
    case True
    then show ?thesis using "2.prems" by simp
  next
    case plain: False
    show ?thesis
    proof (cases "c = CHR 0x5C \<and> d = Posix")
      case True
      then obtain e es w' where "cs = e # es" "double_quoted d es = Some (w', r)"
        using "2.prems" by (auto split: list.splits)
      then show ?thesis using "2.IH"(1) plain True by fastforce
    next
      case False
      then obtain w' where "double_quoted d cs = Some (w', r)" "c \<noteq> CHR 0x60"
          "\<not> (c = CHR ''$'' \<and> opens cs)"
        using "2.prems" plain by (auto split: if_splits)
      then show ?thesis using "2.IH"(2) plain False by fastforce
    qed
  qed
qed simp

lemma take_target_append: "take_target cs = (t, r) \<Longrightarrow> cs = t @ r"
  by (induction cs arbitrary: t) (auto split: if_splits prod.splits)

lemma take_target_shorter: "take_target cs = (t, r) \<Longrightarrow> length r \<le> length cs"
  by (drule take_target_append) simp

lemma redirection_shorter: "redirection cs = Some r \<Longrightarrow> length r \<le> length cs"
proof (cases cs)
  case (Cons c cs')
  assume red: "redirection cs = Some r"
  show ?thesis
  proof (cases "c = CHR ''&''")
    case True
    then show ?thesis using red Cons by (auto simp: redirection_def split: list.splits if_splits)
  next
    case False
    then obtain t where "take_target (dropWhile (\<lambda>x. x = CHR '' '') cs) = (t, r)"
      using red Cons by (auto simp: redirection_def split: prod.splits if_splits)
    then show ?thesis
      using take_target_shorter length_dropWhile_le le_trans by blast
  qed
qed (simp add: redirection_def)

lemma next_if_eq_Some: "next_if_eq x cs = Some r \<longleftrightarrow> cs = x # r"
  by (auto simp: next_if_eq_def split: list.splits)

section \<open>The tokenizer\<close>

text \<open>One pass of the \<open>while let Some(ch)\<close> loop per equation, its arms in the order of the source.\<close>

function lex :: "dialect \<Rightarrow> lexer \<Rightarrow> str \<Rightarrow> lexer option" where
  "lex d s [] = Some s"
| "lex d s (c # cs) =
     (if c = CHR 0x60 then None
      else if c = CHR 0x27 then
        (case single_quoted cs of None \<Rightarrow> None | Some (w, r) \<Rightarrow> lex d (push w s) r)
      else if c = CHR 0x22 then
        (case double_quoted d cs of None \<Rightarrow> None | Some (w, r) \<Rightarrow> lex d (push w s) r)
      else if c = CHR 0x5C \<and> d = Posix then
        (case cs of
           [] \<Rightarrow> None
         | e # r \<Rightarrow> (if e = CHR 0x0A then lex d (push [] s) r else lex d (push [e] s) r))
      else if c = CHR ''$'' \<and> opens cs then None
      else if c \<in> set ''(){}<'' then None
      else if c = CHR ''>'' then
        (case redirection cs of None \<Rightarrow> None | Some r \<Rightarrow> lex d (drop_descriptor s) r)
      else if c = CHR ''|'' then
        (case next_if_eq (CHR ''|'') cs of
           None \<Rightarrow> lex d (separate s) cs
         | Some r \<Rightarrow> lex d (separate s) r)
      else if c = CHR ''&'' then
        (case next_if_eq (CHR ''&'') cs of None \<Rightarrow> None | Some r \<Rightarrow> lex d (separate s) r)
      else if c = CHR '';'' \<or> c = CHR 0x0A then lex d (separate s) cs
      else if ws_len (c # cs) \<noteq> 0 then lex d (flush s) (drop (ws_len (c # cs)) (c # cs))
      else lex d (push [c] s) cs)"
  by pat_completeness auto
termination
  by (relation "measure (\<lambda>(d, s, cs). length cs)")
     (auto simp: single_quoted_split next_if_eq_Some simp del: ws_len.simps
       dest: double_quoted_shorter redirection_shorter)

declare lex.simps(2) [simp del] ws_len.simps(2) [simp del]

definition tokenize :: "str \<Rightarrow> dialect \<Rightarrow> token list option" where
  "tokenize command d = map_option (\<lambda>s. tokens (flush s)) (lex d start_lexer command)"

text \<open>\<open>segments\<close>: the words between separators, no segment empty.\<close>

fun segments_from :: "str list \<Rightarrow> token list \<Rightarrow> str list list" where
  "segments_from cur [] = (if cur = [] then [] else [cur])"
| "segments_from cur (Word w # ts) = segments_from (cur @ [w]) ts"
| "segments_from cur (Separator # ts) =
     (if cur = [] then segments_from [] ts else cur # segments_from [] ts)"

definition segments :: "token list \<Rightarrow> str list list" where
  "segments ts = segments_from [] ts"

definition simple_words :: "str \<Rightarrow> dialect \<Rightarrow> str list option" where
  "simple_words command d = (case tokenize command d of
       None \<Rightarrow> None
     | Some ts \<Rightarrow>
         (if Separator \<in> set ts then None
          else case segments ts of [] \<Rightarrow> None | ws # _ \<Rightarrow> Some ws))"

definition prefix_matches :: "str \<Rightarrow> str \<Rightarrow> dialect \<Rightarrow> bool" where
  "prefix_matches pre command d = (case (simple_words pre d, simple_words command d) of
       (Some p, Some c) \<Rightarrow> p \<noteq> [] \<and> length p \<le> length c \<and> take (length p) c = p
     | _ \<Rightarrow> False)"

section \<open>The read-only table\<close>

text \<open>\<open>word.rsplit(['/', '\\']).next()\<close>: what follows the last path separator.\<close>

definition base_name :: "str \<Rightarrow> str" where
  "base_name w = rev (takeWhile (\<lambda>c. c \<noteq> CHR ''/'' \<and> c \<noteq> CHR 0x5C) (rev w))"

definition program_name :: "str \<Rightarrow> str" where
  "program_name w =
     (let b = base_name w
      in to_ascii_lowercase (case strip_suffix ''.exe'' b of None \<Rightarrow> b | Some b' \<Rightarrow> b'))"

definition has_flag :: "str list \<Rightarrow> str list \<Rightarrow> bool" where
  "has_flag args flags \<longleftrightarrow>
     (\<exists>a \<in> set args. \<exists>f \<in> set flags.
        a = f \<or> starts_with ''--'' f \<and> starts_with (f @ ''='') a)"

definition positional :: "str list \<Rightarrow> str list" where
  "positional args = filter (\<lambda>a. \<not> starts_with ''-'' a) args"

definition plain_readers :: "str list" where
  "plain_readers =
     [''ls'', ''dir'', ''cat'', ''head'', ''tail'', ''wc'', ''pwd'', ''echo'', ''printf'', ''which'',
      ''where'', ''whoami'', ''uname'', ''file'', ''stat'', ''du'', ''df'', ''grep'', ''egrep'',
      ''fgrep'', ''diff'', ''cmp'', ''basename'', ''dirname'', ''realpath'', ''readlink'', ''cut'',
      ''tr'', ''nl'', ''jq'', ''true'', ''false'', ''id'', ''seq'', ''sha256sum'', ''sha1sum'',
      ''shasum'', ''md5sum'', ''md5'', ''column'', ''fold'', ''type'', ''get-childitem'', ''gci'',
      ''get-content'', ''gc'', ''select-string'', ''sls'', ''get-location'', ''gl'', ''test-path'',
      ''resolve-path'', ''get-item'', ''gi'', ''get-command'', ''gcm'', ''measure-object'',
      ''measure'', ''select-object'', ''format-table'', ''ft'', ''format-list'', ''fl'',
      ''out-string'']"

definition git_readers :: "str list" where
  "git_readers =
     [''status'', ''rev-parse'', ''ls-files'', ''ls-tree'', ''blame'', ''describe'', ''shortlog'',
      ''grep'', ''cat-file'', ''count-objects'', ''merge-base'', ''name-rev'', ''for-each-ref'',
      ''show-ref'', ''rev-list'']"

fun skip_git_options :: "str list \<Rightarrow> str list" where
  "skip_git_options [] = []"
| "skip_git_options (a # rest) =
     (if a = ''--no-pager'' then skip_git_options rest
      else if a = ''-C'' then (case rest of [] \<Rightarrow> [a] | _ # rest' \<Rightarrow> skip_git_options rest')
      else a # rest)"

definition first_is :: "str \<Rightarrow> str list \<Rightarrow> bool" where
  "first_is w args = (case args of [] \<Rightarrow> False | a # _ \<Rightarrow> a = w)"

definition branch_writers :: "str list" where
  "branch_writers =
     [''-d'', ''-D'', ''-m'', ''-M'', ''-c'', ''-C'', ''-f'', ''--delete'', ''--move'', ''--copy'',
      ''--force'', ''--set-upstream-to'', ''-u'', ''--unset-upstream'', ''--edit-description'']"

definition git_is_read_only :: "str list \<Rightarrow> bool" where
  "git_is_read_only all = (case skip_git_options all of
       [] \<Rightarrow> False
     | sub # args \<Rightarrow>
         (if sub \<in> set git_readers then True
          else if sub \<in> set [''diff'', ''log'', ''show''] then
            \<not> has_flag args [''--output'', ''--ext-diff'']
          else if sub = ''branch'' then \<not> has_flag args branch_writers \<and> positional args = []
          else if sub = ''tag'' then
            args = [] \<or> has_flag args [''-l'', ''--list''] \<and> \<not> has_flag args [''-d'', ''--delete'']
          else if sub = ''remote'' then args = [] \<or> (\<forall>a \<in> set args. a = ''-v'' \<or> a = ''--verbose'')
          else if sub = ''config'' then
            has_flag args [''--get'', ''--get-all'', ''--list'', ''-l'', ''--get-regexp'']
          else if sub = ''stash'' \<or> sub = ''worktree'' then first_is ''list'' args
          else if sub = ''reflog'' then args = [] \<or> first_is ''show'' args
          else if sub = ''symbolic-ref'' then length (positional args) \<le> 1
          else False))"

definition find_writers :: "str list" where
  "find_writers =
     [''-exec'', ''-execdir'', ''-ok'', ''-okdir'', ''-delete'', ''-fprint'', ''-fprint0'',
      ''-fprintf'', ''-fls'']"

definition segment_is_read_only :: "str list \<Rightarrow> bool" where
  "segment_is_read_only ws = (case ws of
       [] \<Rightarrow> False
     | first # args \<Rightarrow>
         (if contains ''$'' first \<or> contains ''='' first then False
          else
            (let p = program_name first
             in if p \<in> set plain_readers then True
                else if p = ''rg'' then \<not> has_flag args [''--pre'']
                else if p = ''sort'' \<or> p = ''sort-object'' then \<not> has_flag args [''-o'', ''--output'']
                else if p = ''uniq'' then length (positional args) \<le> 1
                else if p = ''tree'' then \<not> has_flag args [''-o'']
                else if p = ''date'' then \<not> has_flag args [''-s'', ''--set'']
                else if p = ''hostname'' then args = []
                else if p = ''find'' then \<not> has_flag args find_writers
                else if p = ''git'' then git_is_read_only args
                else False)))"

definition is_read_only :: "str \<Rightarrow> dialect \<Rightarrow> bool" where
  "is_read_only command d = (case tokenize command d of
       None \<Rightarrow> False
     | Some ts \<Rightarrow> segments ts \<noteq> [] \<and> (\<forall>ws \<in> set (segments ts). segment_is_read_only ws))"

end
