(* ===== verification/Shell_Facts.thy ===== *)
theory Shell_Facts
  imports Shell_Command
begin

text \<open>
  What the tokenizer guarantees, stated against a quoting automaton that knows nothing of words or
  tokens; how it reads joined and quoted lines; and what its table of read-only programs lets
  through.
\<close>

section \<open>Quoting\<close>

text \<open>The state a shell's reader is in before a character: outside quotes, between single or
  double quotes, or right after an escaping backslash.\<close>

datatype quoting = Unquoted | InSingle | InDouble | Escaped | EscapedInDouble

fun quote_step :: "dialect \<Rightarrow> quoting \<Rightarrow> char \<Rightarrow> quoting" where
  "quote_step d Unquoted c =
     (if c = CHR 0x27 then InSingle else if c = CHR 0x22 then InDouble
      else if c = CHR 0x5C \<and> d = Posix then Escaped else Unquoted)"
| "quote_step d InSingle c = (if c = CHR 0x27 then Unquoted else InSingle)"
| "quote_step d InDouble c =
     (if c = CHR 0x22 then Unquoted else if c = CHR 0x5C \<and> d = Posix then EscapedInDouble
      else InDouble)"
| "quote_step d Escaped c = Unquoted"
| "quote_step d EscapedInDouble c = InDouble"

definition quoting_at :: "dialect \<Rightarrow> str \<Rightarrow> nat \<Rightarrow> quoting" where
  "quoting_at d c i = foldl (quote_step d) Unquoted (take i c)"

text \<open>What a character must not do where it stands: \<open>p\<close> is the character before it, \<open>r\<close> what
  follows; without \<open>chain\<close> the line holds one command.\<close>

definition harmless :: "bool \<Rightarrow> quoting \<Rightarrow> char \<Rightarrow> char \<Rightarrow> str \<Rightarrow> bool" where
  "harmless chain q p c r \<longleftrightarrow>
     (case q of
        Unquoted \<Rightarrow>
          c \<notin> set [CHR 0x60, CHR ''('', CHR '')'', CHR ''{'', CHR ''}'', CHR ''<''] \<and>
          \<not> (c = CHR ''$'' \<and> opens r) \<and> (c = CHR ''>'' \<longrightarrow> redirection r \<noteq> None) \<and>
          (c = CHR ''&'' \<longrightarrow> p = CHR ''>'' \<or> chain \<and> (p = CHR ''&'' \<or> starts_with ''&'' r)) \<and>
          (\<not> chain \<longrightarrow> c \<notin> set [CHR '';'', CHR ''|'', CHR 0x0A])
      | InDouble \<Rightarrow> c \<noteq> CHR 0x60 \<and> \<not> (c = CHR ''$'' \<and> opens r)
      | _ \<Rightarrow> True)"

fun harmless_from :: "bool \<Rightarrow> dialect \<Rightarrow> quoting \<Rightarrow> char \<Rightarrow> str \<Rightarrow> bool" where
  "harmless_from chain d q p [] \<longleftrightarrow> q = Unquoted"
| "harmless_from chain d q p (c # r) \<longleftrightarrow>
     harmless chain q p c r \<and> harmless_from chain d (quote_step d q c) c r"

lemma harmless_from_nth:
  "harmless_from chain d q p cs \<Longrightarrow> i < length cs \<Longrightarrow>
     harmless chain (foldl (quote_step d) q (take i cs)) (if i = 0 then p else cs ! (i - 1)) (cs ! i)
       (drop (Suc i) cs)"
proof (induction cs arbitrary: q p i)
  case (Cons c cs)
  then show ?case by (cases i) (auto split: if_splits simp: nth_Cons')
qed simp

lemma harmless_from_end: "harmless_from chain d q p cs \<Longrightarrow> foldl (quote_step d) q cs = Unquoted"
  by (induction cs arbitrary: q p) auto

lemma harmless_single:
  "CHR 0x27 \<notin> set w \<Longrightarrow> (\<And>p. harmless_from chain d Unquoted p r) \<Longrightarrow>
     harmless_from chain d InSingle p (w @ CHR 0x27 # r)"
  by (induction w arbitrary: p) (auto simp: harmless_def)

lemma harmless_double:
  "double_quoted d cs = Some (w, r) \<Longrightarrow> (\<And>p. harmless_from chain d Unquoted p r) \<Longrightarrow>
     harmless_from chain d InDouble p cs"
proof (induction d cs arbitrary: w p rule: double_quoted.induct)
  case (2 d c cs)
  show ?case
  proof (cases "c = CHR 0x22")
    case True
    then show ?thesis using "2.prems" by (simp add: harmless_def)
  next
    case plain: False
    then have ok: "c \<noteq> CHR 0x60" "\<not> (c = CHR ''$'' \<and> opens cs)"
      using "2.prems"(1) by (auto split: if_splits)
    show ?thesis
    proof (cases "c = CHR 0x5C \<and> d = Posix")
      case True
      then obtain e es w' where e: "cs = e # es" "double_quoted d es = Some (w', r)"
        using "2.prems"(1) by (auto split: list.splits)
      then have "harmless_from chain d InDouble e es"
        using "2.IH"(1)[OF plain ok True e(1) e(2)] "2.prems"(2) by blast
      then show ?thesis using e True by (simp add: harmless_def)
    next
      case False
      then obtain w' where w': "double_quoted d cs = Some (w', r)"
        using "2.prems"(1) plain ok by (auto split: if_splits)
      have "harmless_from chain d InDouble c cs"
        by (rule "2.IH"(2)[OF plain ok False w' "2.prems"(2)])
      then show ?thesis using plain ok False by (auto simp: harmless_def)
    qed
  qed
qed simp

text \<open>Characters that are nothing to the automaton and harmless wherever they stand.\<close>

definition inert :: "char \<Rightarrow> bool" where
  "inert c \<longleftrightarrow> c \<notin> set [CHR 0x60, CHR 0x27, CHR 0x22, CHR 0x5C, CHR ''$'', CHR ''('', CHR '')'',
      CHR ''{'', CHR ''}'', CHR ''<'', CHR ''>'', CHR ''&'', CHR '';'', CHR ''|'', CHR 0x0A]"

lemma harmless_inert:
  "\<forall>c \<in> set w. inert c \<Longrightarrow> (\<And>p. harmless_from chain d Unquoted p r) \<Longrightarrow>
     harmless_from chain d Unquoted p (w @ r)"
  by (induction w arbitrary: p) (auto simp: harmless_def inert_def)

section \<open>The grammar of accepted lines\<close>

text \<open>\<open>reads d s cs s'\<close>: from the lexer state \<open>s\<close> the line \<open>cs\<close> is accepted and leaves \<open>s'\<close>. One
  rule per construct the tokenizer supports; what no rule covers is rejected.\<close>

definition special :: "dialect \<Rightarrow> char \<Rightarrow> bool" where
  "special d c \<longleftrightarrow> c \<in> set [CHR 0x60, CHR 0x27, CHR 0x22, CHR ''('', CHR '')'', CHR ''{'', CHR ''}'',
      CHR ''<'', CHR ''>'', CHR ''|'', CHR ''&'', CHR '';'', CHR 0x0A] \<or> c = CHR 0x5C \<and> d = Posix"

inductive reads :: "dialect \<Rightarrow> lexer \<Rightarrow> str \<Rightarrow> lexer \<Rightarrow> bool" for d where
  reads_end: "reads d s [] s"
| reads_single: "CHR 0x27 \<notin> set w \<Longrightarrow> reads d (push w s) r s' \<Longrightarrow>
     reads d s (CHR 0x27 # w @ CHR 0x27 # r) s'"
| reads_double: "double_quoted d cs = Some (w, r) \<Longrightarrow> reads d (push w s) r s' \<Longrightarrow>
     reads d s (CHR 0x22 # cs) s'"
| reads_continuation: "d = Posix \<Longrightarrow> reads d (push [] s) r s' \<Longrightarrow>
     reads d s (CHR 0x5C # CHR 0x0A # r) s'"
| reads_escape: "d = Posix \<Longrightarrow> e \<noteq> CHR 0x0A \<Longrightarrow> reads d (push [e] s) r s' \<Longrightarrow>
     reads d s (CHR 0x5C # e # r) s'"
| reads_redirect: "redirection cs = Some r \<Longrightarrow> reads d (drop_descriptor s) r s' \<Longrightarrow>
     reads d s (CHR ''>'' # cs) s'"
| reads_pipe: "\<not> starts_with ''|'' cs \<Longrightarrow> reads d (separate s) cs s' \<Longrightarrow>
     reads d s (CHR ''|'' # cs) s'"
| reads_or: "reads d (separate s) r s' \<Longrightarrow> reads d s (CHR ''|'' # CHR ''|'' # r) s'"
| reads_and: "reads d (separate s) r s' \<Longrightarrow> reads d s (CHR ''&'' # CHR ''&'' # r) s'"
| reads_semicolon: "c = CHR '';'' \<or> c = CHR 0x0A \<Longrightarrow> reads d (separate s) r s' \<Longrightarrow>
     reads d s (c # r) s'"
| reads_space: "\<not> special d c \<Longrightarrow> \<not> (c = CHR ''$'' \<and> opens cs) \<Longrightarrow> ws_len (c # cs) \<noteq> 0 \<Longrightarrow>
     reads d (flush s) (drop (ws_len (c # cs)) (c # cs)) s' \<Longrightarrow> reads d s (c # cs) s'"
| reads_plain: "\<not> special d c \<Longrightarrow> \<not> (c = CHR ''$'' \<and> opens cs) \<Longrightarrow> ws_len (c # cs) = 0 \<Longrightarrow>
     reads d (push [c] s) cs s' \<Longrightarrow> reads d s (c # cs) s'"

lemma starts_with_single: "starts_with [x] cs \<longleftrightarrow> (\<exists>r. cs = x # r)"
  by (simp add: starts_with_iff)

lemma next_if_eq_None: "next_if_eq x cs = None \<longleftrightarrow> \<not> starts_with [x] cs"
  by (auto simp: next_if_eq_def starts_with_single split: list.splits)

lemma lex_neutral:
  assumes "\<not> special d c" and opens: "\<not> (c = CHR ''$'' \<and> opens cs)"
  shows "lex d s (c # cs) =
    (if ws_len (c # cs) \<noteq> 0 then lex d (flush s) (drop (ws_len (c # cs)) (c # cs))
     else lex d (push [c] s) cs)"
proof -
  have neq: "c \<noteq> CHR 0x60" "c \<noteq> CHR 0x27" "c \<noteq> CHR 0x22" "\<not> (c = CHR 0x5C \<and> d = Posix)"
      "c \<notin> set ''(){}<''" "c \<noteq> CHR ''>''" "c \<noteq> CHR ''|''" "c \<noteq> CHR ''&''"
      "\<not> (c = CHR '';'' \<or> c = CHR 0x0A)"
    using assms(1) by (simp_all add: special_def)
  show ?thesis
    unfolding lex.simps(2) if_not_P[OF neq(1)] if_not_P[OF neq(2)] if_not_P[OF neq(3)]
      if_not_P[OF neq(4)] if_not_P[OF opens] if_not_P[OF neq(5)] if_not_P[OF neq(6)]
      if_not_P[OF neq(7)] if_not_P[OF neq(8)] if_not_P[OF neq(9)] ..
qed

lemma lex_reads: "lex d s cs = Some s' \<Longrightarrow> reads d s cs s'"
proof (induction d s cs rule: lex.induct)
  case (2 d s c cs)
  note lex = "2.prems"[unfolded lex.simps(2)]
  show ?case
  proof (cases "special d c")
    case special: True
    then consider "c = CHR 0x27" | "c = CHR 0x22" | "c = CHR 0x5C" "d = Posix" | "c = CHR ''>''"
      | "c = CHR ''|''" | "c = CHR ''&''" | "c = CHR '';''" | "c = CHR 0x0A"
      using lex unfolding special_def by (force split: if_splits)
    then show ?thesis
    proof cases
      case 1
      then obtain w r where "single_quoted cs = Some (w, r)" "reads d (push w s) r s'"
        using lex "2.IH"(1) by (auto split: option.splits)
      then show ?thesis using 1 by (auto simp: single_quoted_split intro: reads_single)
    next
      case 2
      then obtain w r where "double_quoted d cs = Some (w, r)" "reads d (push w s) r s'"
        using lex "2.IH"(2) by (auto split: option.splits)
      then show ?thesis using 2 by (auto intro: reads_double)
    next
      case 3
      then obtain e r where "cs = e # r" "e = CHR 0x0A \<and> reads d (push [] s) r s'
          \<or> e \<noteq> CHR 0x0A \<and> reads d (push [e] s) r s'"
        using lex "2.IH"(3,4) by (auto split: list.splits if_splits)
      then show ?thesis using 3 reads_continuation reads_escape by auto
    next
      case 4
      then obtain r where "redirection cs = Some r" "reads d (drop_descriptor s) r s'"
        using lex "2.IH"(5) by (auto split: option.splits)
      then show ?thesis using 4 by (auto intro: reads_redirect)
    next
      case 5
      show ?thesis
      proof (cases "next_if_eq (CHR ''|'') cs")
        case None
        then have "reads d (separate s) cs s'" using lex 5 "2.IH"(6) by auto
        then show ?thesis using None 5 by (auto simp: next_if_eq_None intro: reads_pipe)
      next
        case (Some r)
        then have "reads d (separate s) r s'" using lex 5 "2.IH"(7) by auto
        then show ?thesis using Some 5 by (auto simp: next_if_eq_Some intro: reads_or)
      qed
    next
      case 6
      then obtain r where "next_if_eq (CHR ''&'') cs = Some r" "reads d (separate s) r s'"
        using lex "2.IH"(8) by (auto split: option.splits)
      then show ?thesis using 6 by (auto simp: next_if_eq_Some intro: reads_and)
    next
      case 7
      then have "reads d (separate s) cs s'" using lex "2.IH"(9) by auto
      then show ?thesis using 7 by (auto intro: reads_semicolon)
    next
      case 8
      then have "reads d (separate s) cs s'" using lex "2.IH"(9) by auto
      then show ?thesis using 8 by (auto intro: reads_semicolon)
    qed
  next
    case False
    then have neq: "c \<noteq> CHR 0x60" "c \<noteq> CHR 0x27" "c \<noteq> CHR 0x22" "\<not> (c = CHR 0x5C \<and> d = Posix)"
        "c \<notin> set ''(){}<''" "c \<noteq> CHR ''>''" "c \<noteq> CHR ''|''" "c \<noteq> CHR ''&''"
        "\<not> (c = CHR '';'' \<or> c = CHR 0x0A)"
      by (simp_all add: special_def)
    then have opens: "\<not> (c = CHR ''$'' \<and> opens cs)"
      using lex by (simp split: if_splits)
    show ?thesis
    proof (cases "ws_len (c # cs) = 0")
      case True
      have "lex d (push [c] s) cs = Some s'"
        using "2.prems" by (simp add: lex_neutral[OF False opens] True)
      then have "reads d (push [c] s) cs s'"
        using "2.IH"(11)[OF neq(1-4) opens neq(5-9)] True by simp
      then show ?thesis using False opens True by (rule reads_plain[rotated -1])
    next
      case ws: False
      have "lex d (flush s) (drop (ws_len (c # cs)) (c # cs)) = Some s'"
        using "2.prems" by (simp add: lex_neutral[OF False opens] ws)
      then have "reads d (flush s) (drop (ws_len (c # cs)) (c # cs)) s'"
        using "2.IH"(10)[OF neq(1-4) opens neq(5-9)] ws by simp
      then show ?thesis using False opens ws by (rule reads_space[rotated -1])
    qed
  qed
qed (simp add: reads_end)

lemma reads_lex: "reads d s cs s' \<Longrightarrow> lex d s cs = Some s'"
proof (induction rule: reads.induct)
  case (reads_single w s r s')
  then show ?case by (simp add: lex.simps(2) single_quoted_split[THEN iffD2])
next
  case (reads_pipe cs s s')
  then have "next_if_eq (CHR ''|'') cs = None" by (simp add: next_if_eq_None)
  then show ?case using reads_pipe by (simp add: lex.simps(2))
next
  case (reads_space c cs s s')
  then show ?case by (simp add: lex_neutral)
next
  case (reads_plain c cs s s')
  then show ?case by (simp add: lex_neutral)
next
  case (reads_semicolon c s r s')
  then show ?case by (elim disjE) (simp_all add: lex.simps(2))
qed (simp_all add: lex.simps(2) next_if_eq_def)

lemma lex_iff_reads: "lex d s cs = Some s' \<longleftrightarrow> reads d s cs s'"
  using lex_reads reads_lex by blast

section \<open>Accepted lines are harmless\<close>

lemma reads_tokens: "reads d s cs s' \<Longrightarrow> set (tokens s) \<subseteq> set (tokens s')"
  by (induction rule: reads.induct)
     (auto simp: push_def flush_def separate_def drop_descriptor_def Let_def split: if_splits)

lemma separate_separator: "Separator \<in> set (tokens (separate s))"
  by (simp add: separate_def Let_def)

lemma redirection_cases:
  assumes "redirection cs = Some r"
  obtains e where "cs = CHR ''&'' # e # r" "e = CHR ''1'' \<or> e = CHR ''2''"
  | c cs' t where "cs = c # cs'" "c \<noteq> CHR ''&''" "discards t"
      "take_target (dropWhile (\<lambda>x. x = CHR '' '') cs) = (t, r)"
proof (cases cs)
  case Nil
  then show thesis using assms by (simp add: redirection_def)
next
  case (Cons c cs')
  show thesis
  proof (cases "c = CHR ''&''")
    case True
    then show thesis
      using assms Cons that(1) by (auto simp: redirection_def split: list.splits if_splits)
  next
    case False
    obtain t u where "take_target (dropWhile (\<lambda>x. x = CHR '' '') cs) = (t, u)" by fastforce
    then show thesis using assms Cons False that(2) by (simp add: redirection_def split: if_splits)
  qed
qed

lemma harmless_redirection:
  assumes "redirection cs = Some r" and r: "\<And>p. harmless_from chain d Unquoted p r"
  shows "harmless_from chain d Unquoted (CHR ''>'') cs"
  using assms(1)
proof (cases rule: redirection_cases)
  case (1 e)
  then show ?thesis using r by (auto simp: harmless_def)
next
  case (2 c cs' t)
  have "cs = takeWhile (\<lambda>x. x = CHR '' '') cs @ t @ r"
    using take_target_append[OF 2(4)] by (metis takeWhile_dropWhile_id)
  moreover have "\<And>p. harmless_from chain d Unquoted p (t @ r)"
    using 2(3) r by (auto simp: discards_def harmless_def)
  moreover have "\<forall>c \<in> set (takeWhile (\<lambda>x. x = CHR '' '') cs). inert c"
    by (auto simp: inert_def dest!: set_takeWhileD)
  ultimately show ?thesis by (metis harmless_inert)
qed

lemma ws_len_cases:
  assumes "ws_len (c # cs) \<noteq> 0"
  obtains "ascii_ws c" "take (ws_len (c # cs)) (c # cs) = [c]"
  | b r where "c = CHR 0xC2" "b = CHR 0x85 \<or> b = CHR 0xA0" "cs = b # r"
      "take (ws_len (c # cs)) (c # cs) = [c, b]"
  | b e r where "wide_ws c b e" "cs = b # e # r" "take (ws_len (c # cs)) (c # cs) = [c, b, e]"
proof (cases "ascii_ws c")
  case True
  then show thesis using that(1) by (simp add: ws_len.simps(2))
next
  case ascii: False
  with assms obtain b r where cs: "cs = b # r"
    by (cases cs) (simp_all add: ws_len.simps(2))
  show thesis
  proof (cases "c = CHR 0xC2 \<and> (b = CHR 0x85 \<or> b = CHR 0xA0)")
    case True
    then have "ws_len (c # cs) = 2"
      using ascii cs by (cases r) (simp_all add: ws_len.simps(2) del: char.inject)
    then have "take (ws_len (c # cs)) (c # cs) = [c, b]" using cs by simp
    then show thesis using True cs that(2) by blast
  next
    case False
    with assms ascii cs obtain e r' where "r = e # r'" "wide_ws c b e"
      by (cases r) (auto simp: ws_len.simps(2) simp del: char.inject split: if_splits)
    moreover from this have "ws_len (c # cs) = 3"
      using ascii cs False by (simp add: ws_len.simps(2) del: char.inject)
    ultimately show thesis using cs that(3) by (simp add: numeral_3_eq_3)
  qed
qed

lemma wide_ws_inert: "wide_ws a b c \<Longrightarrow> inert a \<and> inert b \<and> inert c"
  unfolding wide_ws_def by (elim disjE conjE) (auto simp: inert_def)

lemma ws_len_inert:
  assumes "ws_len (c # cs) \<noteq> 0" and "c \<noteq> CHR 0x0A"
  shows "\<forall>x \<in> set (take (ws_len (c # cs)) (c # cs)). inert x"
  using assms(1)
proof (cases rule: ws_len_cases)
  case 1
  then show ?thesis using assms(2) by (auto simp: ascii_ws_def inert_def)
next
  case (2 b r)
  then show ?thesis by (auto simp: inert_def)
next
  case (3 b e r)
  then show ?thesis by (simp add: wide_ws_inert)
qed

lemma reads_harmless:
  "reads d s cs s' \<Longrightarrow> chain \<or> Separator \<notin> set (tokens s') \<Longrightarrow> harmless_from chain d Unquoted p cs"
proof (induction arbitrary: p rule: reads.induct)
  case (reads_single w s r s')
  then show ?case by (simp add: harmless_single harmless_def)
next
  case (reads_double cs w r s s')
  then show ?case by (simp add: harmless_double harmless_def)
next
  case (reads_redirect cs r s s')
  then show ?case by (simp add: harmless_redirection harmless_def)
next
  case (reads_pipe cs s s')
  then have chain using reads_tokens separate_separator by blast
  with reads_pipe show ?case by (simp add: harmless_def)
next
  case (reads_or s r s')
  then have chain using reads_tokens separate_separator by blast
  with reads_or show ?case by (simp add: harmless_def)
next
  case (reads_and s r s')
  then have chain using reads_tokens separate_separator by blast
  with reads_and show ?case by (simp add: harmless_def starts_with_single)
next
  case (reads_semicolon c s r s')
  then have chain using reads_tokens separate_separator by blast
  with reads_semicolon show ?case by (auto simp: harmless_def)
next
  case (reads_space c cs s s')
  then have "\<forall>x \<in> set (take (ws_len (c # cs)) (c # cs)). inert x"
    by (intro ws_len_inert) (auto simp: special_def)
  with reads_space show ?case
    by (metis append_take_drop_id harmless_inert)
next
  case (reads_plain c cs s s')
  then show ?case by (auto simp: harmless_def special_def)
qed (simp_all add: harmless_def)

lemma tokenize_harmless:
  assumes "tokenize c d = Some ts" and "chain \<or> Separator \<notin> set ts"
  shows "harmless_from chain d Unquoted p c"
proof -
  obtain s where s: "lex d start_lexer c = Some s" "ts = tokens (flush s)"
    using assms(1) by (auto simp: tokenize_def)
  then have "set (tokens s) \<subseteq> set ts" by (auto simp: flush_def)
  then show ?thesis using reads_harmless[OF lex_reads[OF s(1)]] assms(2) by blast
qed

section \<open>Joined lines\<close>

text \<open>A word in single quotes, and words written out one after the other.\<close>

definition shell_quote :: "str \<Rightarrow> str" where
  "shell_quote w = CHR 0x27 # w @ [CHR 0x27]"

fun quoted_line :: "str list \<Rightarrow> str" where
  "quoted_line [] = []"
| "quoted_line (w # ws) = shell_quote w @ (if ws = [] then [] else CHR '' '' # quoted_line ws)"

definition fresh :: "lexer \<Rightarrow> bool" where
  "fresh s \<longleftrightarrow> word s = [] \<and> \<not> in_word s"

lemma fresh_flush: "fresh s \<Longrightarrow> flush s = s"
  by (simp add: fresh_def flush_def)

lemma lex_single_quoted:
  "CHR 0x27 \<notin> set w \<Longrightarrow> lex d s (CHR 0x27 # w @ CHR 0x27 # r) = lex d (push w s) r"
  by (simp add: lex.simps(2) single_quoted_split[THEN iffD2])

lemma lex_blank: "ascii_ws c \<Longrightarrow> c \<noteq> CHR 0x0A \<Longrightarrow> lex d s (c # r) = lex d (flush s) r"
  by (subst lex_neutral) (auto simp: ascii_ws_def special_def ws_len.simps(2))

lemma lex_and: "lex d s (CHR ''&'' # CHR ''&'' # r) = lex d (separate s) r"
  by (simp add: lex.simps(2) next_if_eq_def)

lemma flush_push: "fresh s \<Longrightarrow> flush (push w s) = s\<lparr>tokens := tokens s @ [Word w]\<rparr>"
  by (simp add: flush_def push_def fresh_def)

lemma lex_quoted_line:
  assumes "\<forall>w \<in> set ws. CHR 0x27 \<notin> set w" and "fresh s"
  shows "\<exists>s'. lex d s (quoted_line ws) = Some s' \<and> flush s' = s\<lparr>tokens := tokens s @ map Word ws\<rparr>"
  using assms
proof (induction ws arbitrary: s)
  case Nil
  then show ?case by (simp add: fresh_flush)
next
  case (Cons w ws)
  show ?case
  proof (cases "ws = []")
    case True
    then show ?thesis
      using Cons.prems by (simp add: shell_quote_def lex_single_quoted flush_push)
  next
    case False
    let ?s = "s\<lparr>tokens := tokens s @ [Word w]\<rparr>"
    have "lex d s (quoted_line (w # ws)) = lex d ?s (quoted_line ws)"
      using Cons.prems False
      by (simp add: shell_quote_def lex_single_quoted lex_blank ascii_ws_def flush_push)
    then show ?thesis using Cons.IH[of ?s] Cons.prems by (auto simp: fresh_def)
  qed
qed

lemma lex_quoted_line_blank:
  assumes "\<forall>w \<in> set ws. CHR 0x27 \<notin> set w" and "ws \<noteq> []" and "fresh s" and "ascii_ws x" and "x \<noteq> CHR 0x0A"
  shows "lex d s (quoted_line ws @ x # r) = lex d (s\<lparr>tokens := tokens s @ map Word ws\<rparr>) r"
  using assms(1-3)
proof (induction ws arbitrary: s)
  case (Cons w ws)
  let ?s = "s\<lparr>tokens := tokens s @ [Word w]\<rparr>"
  show ?case
  proof (cases "ws = []")
    case True
    then show ?thesis
      using Cons.prems assms(4,5)
      by (simp add: shell_quote_def lex_single_quoted lex_blank flush_push)
  next
    case False
    have "lex d s (quoted_line (w # ws) @ x # r) = lex d ?s (quoted_line ws @ x # r)"
      using Cons.prems False
      by (simp add: shell_quote_def lex_single_quoted lex_blank ascii_ws_def flush_push)
    then show ?thesis using Cons.IH[of ?s] Cons.prems False by (simp add: fresh_def)
  qed
qed simp

lemma fresh_start [simp]: "fresh start_lexer" "tokens start_lexer = []"
  by (simp_all add: fresh_def start_lexer_def)

lemma tokenize_quoted_line:
  "\<forall>w \<in> set ws. CHR 0x27 \<notin> set w \<Longrightarrow> tokenize (quoted_line ws) d = Some (map Word ws)"
  using lex_quoted_line[of ws start_lexer d] by (auto simp: tokenize_def)

lemma segments_from_words: "segments_from cur (map Word ws) = (if cur @ ws = [] then [] else [cur @ ws])"
  by (induction ws arbitrary: cur) auto

lemma segments_words: "segments (map Word ws) = (if ws = [] then [] else [ws])"
  by (simp add: segments_def segments_from_words)

lemma segments_from_separator:
  "segments_from cur (ts @ Separator # us) = segments_from cur ts @ segments_from [] us"
  by (induction cur ts rule: segments_from.induct) auto

lemma segments_separator: "segments (ts @ Separator # us) = segments ts @ segments us"
  by (simp add: segments_def segments_from_separator)

lemma segments_words_only: "Separator \<notin> set ts \<Longrightarrow> \<exists>ws. ts = map Word ws"
proof (induction ts)
  case (Cons t ts)
  then obtain ws where "ts = map Word ws" by auto
  then show ?case using Cons.prems by (cases t) (auto intro: exI[of _ "_ # ws"])
qed simp

lemma simple_words_iff:
  "simple_words c d = Some ws \<longleftrightarrow> ws \<noteq> [] \<and> tokenize c d = Some (map Word ws)"
proof
  assume "simple_words c d = Some ws"
  then obtain ts where ts: "tokenize c d = Some ts" "Separator \<notin> set ts"
      "(case segments ts of [] \<Rightarrow> None | ws # _ \<Rightarrow> Some ws) = Some ws"
    by (auto simp: simple_words_def split: option.splits if_splits)
  moreover obtain vs where "ts = map Word vs" using segments_words_only ts(2) by blast
  ultimately show "ws \<noteq> [] \<and> tokenize c d = Some (map Word ws)"
    by (auto simp: segments_words split: if_splits)
next
  assume "ws \<noteq> [] \<and> tokenize c d = Some (map Word ws)"
  then show "simple_words c d = Some ws"
    by (auto simp: simple_words_def segments_words)
qed

lemma prefix_matches_iff:
  "prefix_matches p c d \<longleftrightarrow> (\<exists>ws r. simple_words p d = Some ws \<and> simple_words c d = Some (ws @ r))"
proof
  assume "prefix_matches p c d"
  then obtain ws vs where "simple_words p d = Some ws" "simple_words c d = Some vs"
      "take (length ws) vs = ws"
    by (auto simp: prefix_matches_def split: option.splits)
  then show "\<exists>ws r. simple_words p d = Some ws \<and> simple_words c d = Some (ws @ r)"
    by (metis append_take_drop_id)
next
  assume "\<exists>ws r. simple_words p d = Some ws \<and> simple_words c d = Some (ws @ r)"
  then obtain ws r where "simple_words p d = Some ws" "simple_words c d = Some (ws @ r)" by blast
  moreover from this(1) have "ws \<noteq> []" by (simp add: simple_words_iff)
  ultimately show "prefix_matches p c d" by (simp add: prefix_matches_def)
qed

section \<open>Chained lines\<close>

text \<open>What an accepted line leaves does not depend on a blank and more text that follow it.\<close>

lemma opens_append: "cs \<noteq> [] \<Longrightarrow> opens (cs @ x) = opens cs"
  by (cases cs) simp_all

lemma opens_blank [simp]: "opens (cs @ CHR '' '' # x) = opens cs"
  by (cases cs) simp_all

lemma starts_with_blank [simp]: "c \<noteq> CHR '' '' \<Longrightarrow> starts_with [c] (cs @ CHR '' '' # x) = starts_with [c] cs"
  by (cases cs) (auto simp: starts_with_single)

lemma wide_ws_blank: "\<not> wide_ws a b (CHR '' '')" "\<not> wide_ws a (CHR '' '') b"
  by (auto simp: wide_ws_def)

lemma ws_len_blank [simp]: "ws_len (c # cs @ CHR '' '' # x) = ws_len (c # cs)"
  by (cases cs; cases "tl cs") (auto simp: ws_len.simps(2) wide_ws_blank split: list.splits)

lemma ws_len_space: "ws_len (CHR '' '' # x) = 1"
  by (simp add: ws_len.simps(2) ascii_ws_def)

lemma double_quoted_blank:
  "double_quoted d cs = Some (w, r) \<Longrightarrow>
     double_quoted d (cs @ CHR '' '' # x) = Some (w, r @ CHR '' '' # x)"
proof (induction d cs arbitrary: w rule: double_quoted.induct)
  case (2 d c cs)
  show ?case
  proof (cases "c = CHR 0x22")
    case True
    then show ?thesis using "2.prems" by simp
  next
    case plain: False
    then have ok: "c \<noteq> CHR 0x60" "\<not> (c = CHR ''$'' \<and> opens cs)"
      using "2.prems"(1) by (auto split: if_splits)
    show ?thesis
    proof (cases "c = CHR 0x5C \<and> d = Posix")
      case True
      then obtain e es w' where e: "cs = e # es" "double_quoted d es = Some (w', r)" "w = e # w'"
        using "2.prems"(1) by (auto split: list.splits)
      have "double_quoted d (es @ CHR '' '' # x) = Some (w', r @ CHR '' '' # x)"
        by (rule "2.IH"(1)[OF plain ok True e(1) e(2)])
      then show ?thesis using e True by simp
    next
      case False
      then obtain w' where w': "double_quoted d cs = Some (w', r)" "w = c # w'"
        using "2.prems"(1) plain ok by (auto split: if_splits)
      have "double_quoted d (cs @ CHR '' '' # x) = Some (w', r @ CHR '' '' # x)"
        by (rule "2.IH"(2)[OF plain ok False w'(1)])
      then show ?thesis using plain ok False w' by auto
    qed
  qed
qed simp

lemma take_target_blank:
  "take_target cs = (t, r) \<Longrightarrow> take_target (cs @ CHR '' '' # x) = (t, r @ CHR '' '' # x)"
  by (induction cs arbitrary: t) (auto simp: ws_len_space split: prod.splits if_splits)

lemma dropWhile_append_nonempty: "dropWhile P xs \<noteq> [] \<Longrightarrow> dropWhile P (xs @ ys) = dropWhile P xs @ ys"
  by (induction xs) auto

lemma redirection_blank:
  assumes "redirection cs = Some r"
  shows "redirection (cs @ CHR '' '' # x) = Some (r @ CHR '' '' # x)"
  using assms
proof (cases rule: redirection_cases)
  case (1 e)
  then show ?thesis by (simp add: redirection_def)
next
  case (2 c cs' t)
  have "t \<noteq> []" using 2(3) by (auto simp: discards_def)
  then have "dropWhile (\<lambda>x. x = CHR '' '') cs \<noteq> []"
    using take_target_append[OF 2(4)] by (metis append_is_Nil_conv)
  then have "dropWhile (\<lambda>x. x = CHR '' '') (cs @ CHR '' '' # x)
      = dropWhile (\<lambda>x. x = CHR '' '') cs @ CHR '' '' # x"
    by (rule dropWhile_append_nonempty)
  then have target: "take_target (dropWhile (\<lambda>x. x = CHR '' '') (cs @ CHR '' '' # x))
      = (t, r @ CHR '' '' # x)"
    using take_target_blank[OF 2(4)] by simp
  then show ?thesis using 2(1-3) by (simp add: redirection_def)
qed

lemma reads_blank:
  "reads d s cs s' \<Longrightarrow> lex d s (cs @ CHR '' '' # x) = lex d s' (CHR '' '' # x)"
proof (induction rule: reads.induct)
  case (reads_single w s r s')
  then show ?case by (simp add: lex_single_quoted)
next
  case (reads_double cs w r s s')
  then show ?case by (simp add: lex.simps(2) double_quoted_blank)
next
  case (reads_redirect cs r s s')
  then show ?case by (simp add: lex.simps(2) redirection_blank)
next
  case (reads_pipe cs s s')
  then have "next_if_eq (CHR ''|'') (cs @ CHR '' '' # x) = None" by (simp add: next_if_eq_None)
  with reads_pipe show ?case by (simp add: lex.simps(2))
next
  case (reads_semicolon c s r s')
  then show ?case by (elim disjE) (simp_all add: lex.simps(2))
next
  case (reads_space c cs s s')
  have "drop (ws_len (c # cs)) (c # cs @ CHR '' '' # x)
      = drop (ws_len (c # cs)) (c # cs) @ CHR '' '' # x"
    using ws_len_le[of "c # cs"] drop_append[of "ws_len (c # cs)" "c # cs"] by simp
  with reads_space show ?case by (simp add: lex_neutral)
next
  case (reads_plain c cs s s')
  then show ?case by (simp add: lex_neutral)
qed (simp_all add: lex.simps(2) next_if_eq_def)

text \<open>What was emitted before has no influence on what is read next.\<close>

definition after :: "token list \<Rightarrow> lexer \<Rightarrow> lexer" where
  "after ts s = s\<lparr>tokens := ts @ tokens s\<rparr>"

lemma after_step:
  "push w (after ts s) = after ts (push w s)" "flush (after ts s) = after ts (flush s)"
  "separate (after ts s) = after ts (separate s)"
  "drop_descriptor (after ts s) = after ts (drop_descriptor s)"
  by (simp_all add: after_def push_def flush_def separate_def drop_descriptor_def Let_def)

lemma reads_after: "reads d s cs s' \<Longrightarrow> reads d (after ts s) cs (after ts s')"
  by (induction rule: reads.induct) (auto intro: reads.intros simp: after_step)

lemma reads_word: "reads d s cs s' \<Longrightarrow> \<not> in_word s \<longrightarrow> word s = [] \<Longrightarrow> \<not> in_word s' \<longrightarrow> word s' = []"
  by (induction rule: reads.induct)
     (auto simp: push_def flush_def separate_def drop_descriptor_def Let_def split: if_splits)

lemma lex_space: "lex d s (CHR '' '' # r) = lex d (flush s) r"
  by (rule lex_blank) (simp_all add: ascii_ws_def)

lemma lex_and_blank: "lex d s ('' && '' @ b) = lex d (flush (separate (flush s))) b"
proof -
  have "lex d s ('' && '' @ b) = lex d (flush s) (CHR ''&'' # CHR ''&'' # CHR '' '' # b)"
    using lex_space[of d s "CHR ''&'' # CHR ''&'' # CHR '' '' # b"] by simp
  then show ?thesis by (simp only: lex_and lex_space)
qed

lemma tokenize_and:
  assumes a: "tokenize a d = Some ta" and b: "tokenize b d = Some tb"
  shows "tokenize (a @ '' && '' @ b) d = Some (ta @ Separator # tb)"
proof -
  obtain sa sb where sa: "lex d start_lexer a = Some sa" "ta = tokens (flush sa)"
    and sb: "lex d start_lexer b = Some sb" "tb = tokens (flush sb)"
    using a b by (auto simp: tokenize_def)
  have "separate (flush sa) = after (ta @ [Separator]) start_lexer"
    using sa(2) reads_word[OF lex_reads[OF sa(1)]]
    by (auto simp: separate_def flush_def after_def start_lexer_def)
  then have sep: "flush (separate (flush sa)) = after (ta @ [Separator]) start_lexer"
    by (simp add: after_step fresh_flush)
  have "lex d start_lexer (a @ '' && '' @ b) = lex d sa ('' && '' @ b)"
    using reads_blank[OF lex_reads[OF sa(1)], of "''&& '' @ b"] by simp
  also have "\<dots> = lex d (flush (separate (flush sa))) b"
    by (rule lex_and_blank)
  also have "\<dots> = Some (after (ta @ [Separator]) sb)"
    unfolding sep by (rule reads_lex[OF reads_after[OF lex_reads[OF sb(1)]]])
  finally have "tokenize (a @ '' && '' @ b) d = Some (tokens (after (ta @ [Separator]) (flush sb)))"
    by (simp only: tokenize_def after_step option.map)
  then show ?thesis by (simp add: after_def sb(2))
qed

end
