(* ===== verification/Shell_Properties.thy ===== *)
theory Shell_Properties
  imports Shell_Facts
begin

text \<open>
  What the approval policy may rely on when it asks whether a command line is read-only or is
  covered by a granted prefix, and two spellings it misjudges.
\<close>





text \<open>Quoting round-trips: words written in single quotes and joined by blanks are read back
  as those words, whatever else they contain, so the line is one simple command and is covered by
  the quoted line of each of its leading parts.\<close>

theorem quoted_words_roundtrip:
  assumes "\<forall>w \<in> set (ps @ qs). CHR 0x27 \<notin> set w" and "ps \<noteq> []"
  shows "simple_words (quoted_line (ps @ qs)) d = Some (ps @ qs) \<and>
    prefix_matches (quoted_line ps) (quoted_line (ps @ qs)) d"
  using assms tokenize_quoted_line[of "ps @ qs" d] tokenize_quoted_line[of ps d]
  by (auto simp: prefix_matches_iff simple_words_iff)

theorem quoted_words_roundtrip_witness:
  "simple_words (quoted_line [''rm'', ''a; b && $(c)'']) PowerShell = Some [''rm'', ''a; b && $(c)'']"
  using quoted_words_roundtrip[of "[''rm'']" "[''a; b && $(c)'']" PowerShell] by simp

text \<open>Chaining is judged command by command: two accepted lines joined by \<open>&&\<close> are
  read-only exactly when both are, and no granted prefix covers the joined line.\<close>

theorem chained_lines_judged_apart:
  assumes "tokenize a d = Some ta" and "tokenize b d = Some tb"
    and "segments ta \<noteq> []" and "segments tb \<noteq> []"
  shows "(is_read_only (a @ '' && '' @ b) d \<longleftrightarrow> is_read_only a d \<and> is_read_only b d) \<and>
    \<not> prefix_matches p (a @ '' && '' @ b) d"
proof
  note joined = tokenize_and[OF assms(1,2)]
  show "is_read_only (a @ '' && '' @ b) d \<longleftrightarrow> is_read_only a d \<and> is_read_only b d"
    unfolding is_read_only_def joined assms(1,2) option.case segments_separator
    using assms(3,4) by auto
  show "\<not> prefix_matches p (a @ '' && '' @ b) d"
  proof
    assume "prefix_matches p (a @ '' && '' @ b) d"
    then obtain ws where "tokenize (a @ '' && '' @ b) d = Some (map Word ws)"
      unfolding prefix_matches_iff simple_words_iff by blast
    then have "ta @ Separator # tb = map Word ws" unfolding joined by simp
    then have "Separator \<in> set (map Word ws)" by (metis in_set_conv_decomp)
    then show False by auto
  qed
qed

theorem chained_lines_judged_apart_witness:
  "\<not> is_read_only (''ls -la'' @ '' && '' @ ''rm x'') Posix"
proof -
  have "tokenize ''ls -la'' Posix = Some [Word ''ls'', Word ''-la'']"
    and "tokenize ''rm x'' Posix = Some [Word ''rm'', Word ''x'']"
    and "segments [Word ''ls'', Word ''-la''] \<noteq> []" and "segments [Word ''rm'', Word ''x''] \<noteq> []"
    by code_simp+
  note apart = chained_lines_judged_apart[OF this]
  have "\<not> is_read_only ''rm x'' Posix" by code_simp
  with apart show ?thesis by blast
qed

text \<open>The check for a writing flag compares whole words, so a flag with its value attached
  passes it: \<open>sort -oFILE\<close> is read-only for every \<open>FILE\<close>, although \<open>sort -o FILE\<close> is not.\<close>

theorem attached_output_flag_passes:
  assumes "f \<noteq> []" and "CHR 0x27 \<notin> set f" and "CHR 0x27 \<notin> set a" and "\<not> starts_with ''-'' a"
  shows "is_read_only (quoted_line [''sort'', ''-o'' @ f, a]) d \<and>
    \<not> is_read_only (quoted_line [''sort'', ''-o'', f, a]) d"
proof -
  have sort: "\<not> contains ''$'' ''sort'' \<and> \<not> contains ''='' ''sort''" "program_name ''sort'' = ''sort''"
      "''sort'' \<notin> set plain_readers"
    by code_simp+
  have "a \<noteq> ''-o'' \<and> a \<noteq> ''--output'' \<and> \<not> starts_with ''--output='' a"
    using assms(4) by (auto simp: starts_with_iff)
  then have "\<not> has_flag [''-o'' @ f, a] [''-o'', ''--output'']"
    using assms(1) by (auto simp: has_flag_def starts_with_iff)
  then have "segment_is_read_only [''sort'', ''-o'' @ f, a]"
    using sort by (simp add: segment_is_read_only_def)
  moreover have "\<not> segment_is_read_only [''sort'', ''-o'', f, a]"
    using sort by (simp add: segment_is_read_only_def has_flag_def)
  moreover have "tokenize (quoted_line [''sort'', ''-o'' @ f, a]) d = Some (map Word [''sort'', ''-o'' @ f, a])"
      "tokenize (quoted_line [''sort'', ''-o'', f, a]) d = Some (map Word [''sort'', ''-o'', f, a])"
    using assms(2,3) by (intro tokenize_quoted_line; simp)+
  ultimately show ?thesis
    unfolding is_read_only_def by (simp add: segments_words[of "_ # _"] del: list.map)
qed

theorem attached_output_flag_passes_witness:
  "is_read_only (quoted_line [''sort'', ''-onotes.txt'', ''a'']) Posix"
  using attached_output_flag_passes[of "''notes.txt''" "''a''" Posix] by (simp add: starts_with_def)

text \<open>Every ASCII white space but the new line joins words, the carriage return too, at
  which PowerShell ends a command: a granted prefix covers its own line followed by a carriage
  return and any other command.\<close>

theorem carriage_return_extends_grant:
  assumes "\<forall>w \<in> set (ps @ qs). CHR 0x27 \<notin> set w" and "ps \<noteq> []"
  shows "prefix_matches (quoted_line ps) (quoted_line ps @ CHR 0x0D # quoted_line qs) PowerShell"
proof -
  let ?s = "start_lexer\<lparr>tokens := map Word ps\<rparr>"
  have "lex PowerShell start_lexer (quoted_line ps @ CHR 0x0D # quoted_line qs)
      = lex PowerShell ?s (quoted_line qs)"
    using lex_quoted_line_blank[of ps start_lexer "CHR 0x0D" PowerShell "quoted_line qs"] assms
    by (simp add: ascii_ws_def)
  moreover obtain s' where "lex PowerShell ?s (quoted_line qs) = Some s'"
      "flush s' = ?s\<lparr>tokens := tokens ?s @ map Word qs\<rparr>"
    using lex_quoted_line[of qs ?s PowerShell] assms(1) by (auto simp: fresh_def start_lexer_def)
  ultimately have "tokenize (quoted_line ps @ CHR 0x0D # quoted_line qs) PowerShell
      = Some (map Word (ps @ qs))"
    by (simp add: tokenize_def)
  then show ?thesis
    using assms tokenize_quoted_line[of ps PowerShell]
    by (auto simp: prefix_matches_iff simple_words_iff)
qed

theorem carriage_return_extends_grant_witness:
  "prefix_matches (quoted_line [''cargo'', ''test''])
     (quoted_line [''cargo'', ''test''] @ CHR 0x0D # quoted_line [''Remove-Item'', ''x'']) PowerShell"
  using carriage_return_extends_grant[of "[''cargo'', ''test'']" "[''Remove-Item'', ''x'']"] by simp

end
