(* ===== verification/Allowances.thy ===== *)
theory Allowances
  imports Shell_Facts Ledger_Schema
begin

text \<open>
  The per-thread ``Allow for this chat'' rules (crates/milim-server/src/approval_allowances.rs): which
  rule a request would create, which stored rule covers a later request, and the stored list with
  its cap. The rules of a thread are one entry of the \<open>user_json_state\<close> table, a map from keys to
  JSON text. \<open>serde_json\<close> is the parser and printer of \<open>env\<close>; the code derived from the struct's
  \<open>Serialize\<close> and \<open>Deserialize\<close> attributes is \<open>rule_json\<close> and \<open>decode_rule\<close>.
\<close>

section \<open>Requests and rules\<close>

record allowance =
  al_key :: str
  al_tool :: str
  al_command :: "str option"
  al_prefix :: "str option"
  al_created :: int

definition MAX_ALLOWANCES_PER_THREAD :: nat where "MAX_ALLOWANCES_PER_THREAD = 64"
definition MAX_COMMAND_CHARS :: nat where "MAX_COMMAND_CHARS = 4096"

definition SHELL_TOOL_NAMES :: "str list" where
  "SHELL_TOOL_NAMES =
     [''shell'', ''bash'', ''command'', ''sh'', ''zsh'', ''powershell'', ''terminal'', ''exec'',
      ''exec_command'', ''run_command'', ''run_shell'', ''shell_command'', ''execute_command'',
      ''local_shell'']"

definition PREFIX_COMMANDS :: "(str \<times> str list) list" where
  "PREFIX_COMMANDS =
     [(''cargo'', [''bench'', ''build'', ''check'', ''clippy'', ''doc'', ''fmt'', ''nextest'', ''test'', ''tree'']),
      (''npm'', [''run'', ''test'']),
      (''pnpm'', [''build'', ''lint'', ''run'', ''test'']),
      (''yarn'', [''build'', ''lint'', ''run'', ''test'']),
      (''bun'', [''run'', ''test'']),
      (''go'', [''build'', ''test'', ''vet'']),
      (''dotnet'', [''build'', ''test'']),
      (''git'', [''diff'', ''log'', ''show'', ''status''])]"

definition WRAPPER_SHELLS :: "str list" where
  "WRAPPER_SHELLS = [''bash'', ''sh'', ''zsh'']"

definition scope_supported :: "str \<Rightarrow> bool" where
  "scope_supported kind \<longleftrightarrow> kind = ''command'' \<or> kind = ''file_change''"

definition is_shell_like :: "str \<Rightarrow> bool" where
  "is_shell_like name \<longleftrightarrow>
     contains ''shell'' name \<or> contains ''bash'' name \<or> contains ''terminal'' name"

text \<open>The value of the command in a request's arguments: \<open>command\<close>, else \<open>cmd\<close>, else
  \<open>/input/command\<close>.\<close>

definition command_value :: "env \<Rightarrow> str \<Rightarrow> json option" where
  "command_value e arguments = (case env_parse e arguments of
       Inl _ \<Rightarrow> None
     | Inr v \<Rightarrow>
         (case jget ''command'' v of
            Some c \<Rightarrow> Some c
          | None \<Rightarrow>
              (case jget ''cmd'' v of
                 Some c \<Rightarrow> Some c
               | None \<Rightarrow> Option.bind (jget ''input'' v) (jget ''command''))))"

definition command_string :: "env \<Rightarrow> str \<Rightarrow> str option" where
  "command_string e arguments =
     Option.bind (command_value e arguments) (\<lambda>v.
     Option.bind (as_str v) (\<lambda>s.
       let text = trim s in if text = [] then None else Some text))"

definition all_strings :: "json list \<Rightarrow> bool" where
  "all_strings parts \<longleftrightarrow> (\<forall>p \<in> set parts. as_str p \<noteq> None)"

definition command_text :: "env \<Rightarrow> str \<Rightarrow> str option" where
  "command_text e arguments =
     Option.bind (command_value e arguments) (\<lambda>v.
       (case v of
          JStr s \<Rightarrow> (let text = trim s in if text = [] then None else Some text)
        | JArr parts \<Rightarrow>
            (if parts \<noteq> [] \<and> all_strings parts
             then (let text = env_show e (JArr parts) in if text = [] then None else Some text)
             else None)
        | _ \<Rightarrow> None))"

definition allowance_for :: "env \<Rightarrow> str \<Rightarrow> str \<Rightarrow> str \<Rightarrow> allowance option" where
  "allowance_for e kind name arguments =
     (if \<not> scope_supported kind then None
      else let tool = trim name in
        if tool = [] then None
        else case command_text e arguments of
          Some c \<Rightarrow>
            (if char_count c > MAX_COMMAND_CHARS then None
             else Some \<lparr>al_key = ''command:'' @ c, al_tool = tool, al_command = Some c,
                        al_prefix = None, al_created = 0\<rparr>)
        | None \<Rightarrow>
            (let lowered = to_ascii_lowercase tool in
             if lowered \<in> set SHELL_TOOL_NAMES \<or> is_shell_like lowered then None
             else Some \<lparr>al_key = ''tool:'' @ lowered, al_tool = tool, al_command = None,
                        al_prefix = None, al_created = 0\<rparr>))"

text \<open>\<open>split_whitespace().next()\<close>: the first run of characters that are not white space.\<close>

fun until_ws :: "str \<Rightarrow> str" where
  "until_ws [] = []"
| "until_ws (c # s) = (if ws_len (c # s) \<noteq> 0 then [] else c # until_ws s)"

definition starts_with_wrapper_shell :: "str \<Rightarrow> bool" where
  "starts_with_wrapper_shell command \<longleftrightarrow>
     (let first = until_ws (trim_start command)
      in first \<noteq> [] \<and> base_name first \<in> set WRAPPER_SHELLS)"

text \<open>\<open>host\<close> is \<open>ShellDialect::host()\<close>, fixed when the program is built.\<close>

definition dialect_for :: "dialect \<Rightarrow> str \<Rightarrow> str \<Rightarrow> dialect" where
  "dialect_for host tool command =
     (let lowered = to_ascii_lowercase tool in
      if contains ''powershell'' lowered then PowerShell
      else if lowered = ''bash'' \<or> starts_with_wrapper_shell command then Posix
      else host)"

definition after_slash :: "str \<Rightarrow> str" where
  "after_slash w = rev (takeWhile (\<lambda>c. c \<noteq> CHR ''/'') (rev w))"

definition effective_command :: "str \<Rightarrow> dialect \<Rightarrow> str" where
  "effective_command command d =
     (if d = Posix then
        (case simple_words command d of
           Some [shell, flag, script] \<Rightarrow>
             (if after_slash shell \<in> set WRAPPER_SHELLS \<and> (flag = ''-c'' \<or> flag = ''-lc'')
              then script else command)
         | _ \<Rightarrow> command)
      else command)"

definition is_prefix_command :: "str \<Rightarrow> str \<Rightarrow> bool" where
  "is_prefix_command program subcommand \<longleftrightarrow>
     list_ex (\<lambda>(c, subs). c = program \<and> subcommand \<in> set subs) PREFIX_COMMANDS"

definition prefix_allowance_for :: "env \<Rightarrow> dialect \<Rightarrow> str \<Rightarrow> str \<Rightarrow> str \<Rightarrow> allowance option" where
  "prefix_allowance_for e host kind name arguments =
     (if kind \<noteq> ''command'' then None
      else Option.bind (command_string e arguments) (\<lambda>command.
        let tool = trim name in
        if tool = [] \<or> char_count command > MAX_COMMAND_CHARS then None
        else let d = dialect_for host tool command in
          (case simple_words (effective_command command d) d of
             Some (program # subcommand # _) \<Rightarrow>
               (if is_prefix_command program subcommand
                then (let p = program @ '' '' @ subcommand in
                  Some \<lparr>al_key = ''prefix:'' @ p, al_tool = tool, al_command = None,
                        al_prefix = Some p, al_created = 0\<rparr>)
                else None)
           | _ \<Rightarrow> None)))"

text \<open>The rule that pre-approves a request: the first with the key the request would create,
  else, for a command, the first whose prefix covers it.\<close>

definition covers :: "str \<Rightarrow> dialect \<Rightarrow> allowance \<Rightarrow> bool" where
  "covers command d r \<longleftrightarrow> (case al_prefix r of None \<Rightarrow> False | Some p \<Rightarrow> prefix_matches p command d)"

definition matching :: "env \<Rightarrow> dialect \<Rightarrow> allowance list \<Rightarrow> str \<Rightarrow> str \<Rightarrow> str \<Rightarrow> allowance option" where
  "matching e host rules kind name arguments =
     Option.bind (allowance_for e kind name arguments) (\<lambda>candidate.
       case find (\<lambda>r. al_key r = al_key candidate) rules of
         Some exact \<Rightarrow> Some exact
       | None \<Rightarrow>
           (if kind \<noteq> ''command'' then None
            else Option.bind (command_string e arguments) (\<lambda>command.
              let d = dialect_for host (trim name) command;
                  c = effective_command command d
              in find (covers c d) rules)))"

section \<open>The stored list\<close>

definition opt_member :: "str \<Rightarrow> str option \<Rightarrow> (str \<times> json) list" where
  "opt_member k v = (case v of None \<Rightarrow> [] | Some s \<Rightarrow> [(k, JStr s)])"

definition rule_json :: "allowance \<Rightarrow> json" where
  "rule_json r = mk_obj
     ([(''key'', JStr (al_key r)), (''tool'', JStr (al_tool r))]
      @ opt_member ''command'' (al_command r) @ opt_member ''prefix'' (al_prefix r)
      @ [(''created_at_ms'', JInt (al_created r))])"

text \<open>An optional member that is missing or null is \<open>None\<close>; any other value must be a string.\<close>

definition opt_field :: "str \<Rightarrow> json \<Rightarrow> str option option" where
  "opt_field k v = (case jget k v of
       None \<Rightarrow> Some None
     | Some JNull \<Rightarrow> Some None
     | Some (JStr s) \<Rightarrow> Some (Some s)
     | Some _ \<Rightarrow> None)"

definition decode_rule :: "json \<Rightarrow> allowance option" where
  "decode_rule v =
     Option.bind (Option.bind (jget ''key'' v) as_str) (\<lambda>key.
     Option.bind (Option.bind (jget ''tool'' v) as_str) (\<lambda>tool.
     Option.bind (opt_field ''command'' v) (\<lambda>command.
     Option.bind (opt_field ''prefix'' v) (\<lambda>pre.
     Option.bind (Option.bind (jget ''created_at_ms'' v) as_i64) (\<lambda>created.
       Some \<lparr>al_key = key, al_tool = tool, al_command = command, al_prefix = pre,
             al_created = created\<rparr>)))))"

fun decode_all :: "json list \<Rightarrow> allowance list option" where
  "decode_all [] = Some []"
| "decode_all (v # vs) =
     Option.bind (decode_rule v) (\<lambda>r. map_option ((#) r) (decode_all vs))"

definition rules_json :: "allowance list \<Rightarrow> json" where
  "rules_json rs = JArr (map rule_json rs)"

definition decode_rules :: "json \<Rightarrow> allowance list option" where
  "decode_rules v = Option.bind (as_array v) decode_all"

text \<open>The \<open>user_json_state\<close> table.\<close>

type_synonym json_state = "str \<rightharpoonup> str"

definition set_json :: "env \<Rightarrow> str \<Rightarrow> str \<Rightarrow> json_state \<Rightarrow> (error + unit) \<times> json_state" where
  "set_json e key v m = (case env_parse e v of
       Inl err \<Rightarrow> (Inl (InvalidRequest (''invalid JSON for '' @ key @ '': '' @ err)), m)
     | Inr _ \<Rightarrow> (Inr (), m(key \<mapsto> v)))"

definition state_key :: "str \<Rightarrow> str" where
  "state_key thread_id = ''milim.approvalAllowances.'' @ thread_id"

definition load_rules :: "env \<Rightarrow> str \<Rightarrow> json_state \<Rightarrow> allowance list" where
  "load_rules e thread_id m = (case m (state_key thread_id) of
       None \<Rightarrow> []
     | Some text \<Rightarrow>
         (case env_parse e text of
            Inl _ \<Rightarrow> []
          | Inr v \<Rightarrow> (case decode_rules v of None \<Rightarrow> [] | Some rs \<Rightarrow> rs)))"

definition save_rules :: "env \<Rightarrow> str \<Rightarrow> allowance list \<Rightarrow> json_state \<Rightarrow> (error + unit) \<times> json_state" where
  "save_rules e thread_id rs m =
     (if rs = [] then (Inr (), m(state_key thread_id := None))
      else set_json e (state_key thread_id) (env_show e (rules_json rs)) m)"

definition push_rule :: "allowance \<Rightarrow> allowance list \<Rightarrow> allowance list" where
  "push_rule r rs =
     (let all = rs @ [r] in drop (length all - MAX_ALLOWANCES_PER_THREAD) all)"

definition record_rule ::
  "env \<Rightarrow> str \<Rightarrow> allowance \<Rightarrow> int \<Rightarrow> json_state \<Rightarrow> (error + allowance list option) \<times> json_state" where
  "record_rule e thread_id r now_ms m =
     (let rules = load_rules e thread_id m in
      if list_ex (\<lambda>x. al_key x = al_key r) rules then (Inr None, m)
      else let rules' = push_rule (r\<lparr>al_created := now_ms\<rparr>) rules
        in case save_rules e thread_id rules' m of
             (Inl err, m') \<Rightarrow> (Inl err, m')
           | (Inr _, m') \<Rightarrow> (Inr (Some rules'), m'))"

definition revoke_rules ::
  "env \<Rightarrow> str \<Rightarrow> str list option \<Rightarrow> json_state \<Rightarrow> (error + allowance list) \<times> json_state" where
  "revoke_rules e thread_id keys m =
     (let rules = load_rules e thread_id m;
          rules' = (case keys of
              None \<Rightarrow> []
            | Some ks \<Rightarrow> filter (\<lambda>r. al_key r \<notin> set ks) rules)
      in case save_rules e thread_id rules' m of
           (Inl err, m') \<Rightarrow> (Inl err, m')
         | (Inr _, m') \<Rightarrow> (Inr rules', m'))"

end
