(* ===== verification/Allowance_Facts.thy ===== *)
theory Allowance_Facts
  imports Allowances
begin

text \<open>
  What a stored rule can look like, that every history of grants and revocations keeps the rules
  of every thread in that shape, and what a match of a stored rule says about the request.
\<close>

section \<open>Well-formed rules\<close>

definition command_rule :: "allowance \<Rightarrow> bool" where
  "command_rule r \<longleftrightarrow> al_prefix r = None \<and> (\<exists>c. al_command r = Some c \<and> al_key r = ''command:'' @ c)"

definition prefix_rule :: "allowance \<Rightarrow> bool" where
  "prefix_rule r \<longleftrightarrow> al_command r = None \<and>
     (\<exists>p s. is_prefix_command p s \<and> al_prefix r = Some (p @ '' '' @ s) \<and>
        al_key r = ''prefix:'' @ p @ '' '' @ s)"

definition shell_name :: "str \<Rightarrow> bool" where
  "shell_name lowered \<longleftrightarrow> lowered \<in> set SHELL_TOOL_NAMES \<or> is_shell_like lowered"

definition tool_rule :: "allowance \<Rightarrow> bool" where
  "tool_rule r \<longleftrightarrow> al_command r = None \<and> al_prefix r = None \<and>
     (\<exists>t. al_key r = ''tool:'' @ t \<and> \<not> shell_name t)"

definition rule_ok :: "allowance \<Rightarrow> bool" where
  "rule_ok r \<longleftrightarrow> (command_rule r \<or> prefix_rule r \<or> tool_rule r) \<and>
     I64_MIN \<le> al_created r \<and> al_created r \<le> I64_MAX"

definition rules_ok :: "allowance list \<Rightarrow> bool" where
  "rules_ok rs \<longleftrightarrow> (\<forall>r \<in> set rs. rule_ok r) \<and> distinct (map al_key rs) \<and>
     length rs \<le> MAX_ALLOWANCES_PER_THREAD"

lemmas rule_kind_defs = command_rule_def prefix_rule_def tool_rule_def

lemma rules_ok_Nil [simp]: "rules_ok []"
  by (simp add: rules_ok_def)

lemma allowance_for_SomeE:
  assumes "allowance_for e kind name args = Some r"
  obtains (command) c where "command_text e args = Some c" "al_key r = ''command:'' @ c"
      "al_command r = Some c" "al_prefix r = None" "al_created r = 0"
  | (tool) "command_text e args = None" "al_key r = ''tool:'' @ to_ascii_lowercase (trim name)"
      "\<not> shell_name (to_ascii_lowercase (trim name))"
      "al_command r = None" "al_prefix r = None" "al_created r = 0"
  using assms
  by (auto simp: allowance_for_def Let_def shell_name_def split: if_splits option.splits)

lemma prefix_allowance_for_SomeE:
  assumes "prefix_allowance_for e host kind name args = Some r"
  obtains p s where "is_prefix_command p s" "al_prefix r = Some (p @ '' '' @ s)"
      "al_key r = ''prefix:'' @ p @ '' '' @ s" "al_command r = None" "al_created r = 0"
  using assms
  by (auto simp: prefix_allowance_for_def Let_def bind_eq_Some_conv
      split: if_splits option.splits list.splits)

definition grants :: "env \<Rightarrow> dialect \<Rightarrow> allowance \<Rightarrow> bool" where
  "grants e host r \<longleftrightarrow> (\<exists>kind name args.
     allowance_for e kind name args = Some r \<or> prefix_allowance_for e host kind name args = Some r)"

lemma granted_rule_ok:
  assumes "grants e host r" and "I64_MIN \<le> t" and "t \<le> I64_MAX"
  shows "rule_ok (r\<lparr>al_created := t\<rparr>)"
  using assms unfolding grants_def
proof (elim exE disjE)
  fix kind name args
  assume "allowance_for e kind name args = Some r"
  then show ?thesis
    using assms(2,3) by (cases rule: allowance_for_SomeE) (auto simp: rule_ok_def rule_kind_defs)
next
  fix kind name args
  assume "prefix_allowance_for e host kind name args = Some r"
  then show ?thesis
    using assms(2,3)
    by (cases rule: prefix_allowance_for_SomeE) (auto simp: rule_ok_def rule_kind_defs)
qed

text \<open>The kinds of keys are apart, so a key determines what the rule may cover.\<close>

lemma rule_of_command_key:
  "rule_ok r \<Longrightarrow> al_key r = ''command:'' @ c \<Longrightarrow> al_command r = Some c \<and> al_prefix r = None"
  by (auto simp: rule_ok_def rule_kind_defs)

section \<open>The stored list\<close>

lemma obj_insert_new: "obj_insert k v [] = [(k, v)]" by simp

lemma jget_mk_obj: "jget k (mk_obj kvs) = map_of (rev kvs) k"
proof -
  have "map_of (foldl (\<lambda>m kv. obj_insert (fst kv) (snd kv) m) acc kvs) = map_of acc ++ map_of (rev kvs)"
    for acc
    by (induction kvs arbitrary: acc) (auto simp: map_add_def fun_eq_iff split: option.splits)
  then show ?thesis by (simp add: mk_obj_def)
qed

lemma decode_rule_json:
  "I64_MIN \<le> al_created r \<Longrightarrow> al_created r \<le> I64_MAX \<Longrightarrow> decode_rule (rule_json r) = Some r"
  by (cases "al_command r"; cases "al_prefix r")
     (simp_all add: decode_rule_def rule_json_def jget_mk_obj opt_member_def opt_field_def)

lemma decode_rules_json:
  "\<forall>r \<in> set rs. rule_ok r \<Longrightarrow> decode_rules (rules_json rs) = Some rs"
proof -
  have "\<forall>r \<in> set rs. rule_ok r \<Longrightarrow> decode_all (map rule_json rs) = Some rs"
    by (induction rs) (auto simp: decode_rule_json rule_ok_def)
  then show "\<forall>r \<in> set rs. rule_ok r \<Longrightarrow> ?thesis" by (simp add: decode_rules_def rules_json_def)
qed

text \<open>What is relied on of \<open>serde_json\<close>: it reads back the text it printed for a list of rules.\<close>

definition rules_text_ok :: "env \<Rightarrow> bool" where
  "rules_text_ok e \<longleftrightarrow> (\<forall>rs. env_parse e (env_show e (rules_json rs)) = Inr (rules_json rs))"

lemma state_key_inj [simp]: "state_key t = state_key u \<longleftrightarrow> t = u"
  by (simp add: state_key_def)

lemma saved_rules:
  assumes "rules_text_ok e" and "\<forall>r \<in> set rs. rule_ok r"
  shows "fst (save_rules e t rs m) = Inr ()"
    and "load_rules e u (snd (save_rules e t rs m)) = (if u = t then rs else load_rules e u m)"
  using assms decode_rules_json[of rs]
  by (auto simp: save_rules_def set_json_def rules_text_ok_def load_rules_def)

lemma push_rule_set: "set (push_rule r rs) \<subseteq> insert r (set rs)"
  by (auto simp: push_rule_def Let_def dest!: in_set_dropD)

lemma push_rule_last: "\<exists>kept. push_rule r rs = kept @ [r]"
  by (auto simp: push_rule_def Let_def MAX_ALLOWANCES_PER_THREAD_def)

lemma push_rule_ok:
  assumes "rules_ok rs" and "rule_ok r" and "al_key r \<notin> al_key ` set rs"
  shows "rules_ok (push_rule r rs)"
proof -
  have "distinct (map al_key (rs @ [r]))" using assms by (auto simp: rules_ok_def)
  then have "distinct (map al_key (push_rule r rs))"
    by (simp only: push_rule_def Let_def drop_map[symmetric] distinct_drop)
  moreover have "length (push_rule r rs) \<le> MAX_ALLOWANCES_PER_THREAD"
    by (simp add: push_rule_def Let_def MAX_ALLOWANCES_PER_THREAD_def)
  ultimately show ?thesis
    using assms push_rule_set[of r rs] by (auto simp: rules_ok_def)
qed

lemma record_rule_load:
  assumes "rules_text_ok e" and "rules_ok (load_rules e t m)" and "rule_ok (r\<lparr>al_created := now_ms\<rparr>)"
  shows "load_rules e u (snd (record_rule e t r now_ms m)) =
    (if u = t \<and> al_key r \<notin> al_key ` set (load_rules e t m)
     then push_rule (r\<lparr>al_created := now_ms\<rparr>) (load_rules e t m) else load_rules e u m)"
proof (cases "al_key r \<in> al_key ` set (load_rules e t m)")
  case True
  then have "list_ex (\<lambda>x. al_key x = al_key r) (load_rules e t m)" by (auto simp: list_ex_iff)
  then show ?thesis using True by (simp add: record_rule_def)
next
  case False
  let ?rs = "push_rule (r\<lparr>al_created := now_ms\<rparr>) (load_rules e t m)"
  have ok: "\<forall>r \<in> set ?rs. rule_ok r"
    using push_rule_set assms(2,3) unfolding rules_ok_def by blast
  have "\<not> list_ex (\<lambda>x. al_key x = al_key r) (load_rules e t m)"
    using False unfolding list_ex_iff by (metis image_eqI)
  then have "snd (record_rule e t r now_ms m) = snd (save_rules e t ?rs m)"
    by (auto simp: record_rule_def Let_def split: prod.splits sum.splits)
  then show ?thesis using saved_rules(2)[OF assms(1) ok, of u t m] False by simp
qed

lemma revoke_rules_load:
  assumes "rules_text_ok e" and "rules_ok (load_rules e t m)"
  shows "load_rules e u (snd (revoke_rules e t keys m)) =
    (if u = t then (case keys of None \<Rightarrow> [] | Some ks \<Rightarrow> filter (\<lambda>r. al_key r \<notin> set ks) (load_rules e t m))
     else load_rules e u m)"
proof -
  let ?rs = "case keys of None \<Rightarrow> [] | Some ks \<Rightarrow> filter (\<lambda>r. al_key r \<notin> set ks) (load_rules e t m)"
  have ok: "\<forall>r \<in> set ?rs. rule_ok r"
    using assms(2) by (auto simp: rules_ok_def split: option.splits)
  have "snd (revoke_rules e t keys m) = snd (save_rules e t ?rs m)"
    by (auto simp: revoke_rules_def Let_def split: prod.splits sum.splits)
  then show ?thesis using saved_rules(2)[OF assms(1) ok, of u t m] by simp
qed

section \<open>Histories\<close>

text \<open>The states a table without rules reaches by grants and revocations on any threads.\<close>

inductive rules_reachable :: "env \<Rightarrow> dialect \<Rightarrow> json_state \<Rightarrow> bool" for e host where
  no_rules: "\<forall>t. m (state_key t) = None \<Longrightarrow> rules_reachable e host m"
| granted: "rules_reachable e host m \<Longrightarrow> grants e host r \<Longrightarrow> I64_MIN \<le> now_ms \<Longrightarrow> now_ms \<le> I64_MAX \<Longrightarrow>
     rules_reachable e host (snd (record_rule e t r now_ms m))"
| revoked: "rules_reachable e host m \<Longrightarrow> rules_reachable e host (snd (revoke_rules e t keys m))"

lemma reachable_rules_ok:
  assumes "rules_text_ok e" and "rules_reachable e host m"
  shows "rules_ok (load_rules e t m)"
  using assms(2)
proof (induction arbitrary: t)
  case (no_rules m)
  then show ?case by (simp add: load_rules_def)
next
  case (granted m r now_ms u)
  note ok = granted_rule_ok[OF granted.hyps(2-4)]
  show ?case
    using granted.IH push_rule_ok[OF granted.IH ok]
    by (simp add: record_rule_load[OF assms(1) granted.IH ok])
next
  case (revoked m u keys)
  then show ?case
    by (auto simp: revoke_rules_load[OF assms(1) revoked.IH] rules_ok_def distinct_map_filter
        intro: le_trans[OF length_filter_le] split: option.splits)
qed

section \<open>What a match says\<close>

lemma prefix_command_words:
  assumes "is_prefix_command p s"
  shows "simple_words (p @ '' '' @ s) d = Some [p, s]"
proof -
  have "list_all (\<lambda>(c, subs). list_all (\<lambda>x. simple_words (c @ '' '' @ x) Posix = Some [c, x]
      \<and> simple_words (c @ '' '' @ x) PowerShell = Some [c, x]) subs) PREFIX_COMMANDS"
    by code_simp
  then show ?thesis
    using assms by (cases d) (auto simp: is_prefix_command_def list_ex_iff list_all_iff)
qed

lemma covers_words:
  assumes "rule_ok r" and "covers c d r"
  obtains p s ws where "is_prefix_command p s" "al_prefix r = Some (p @ '' '' @ s)"
    "al_key r = ''prefix:'' @ p @ '' '' @ s" "simple_words c d = Some (p # s # ws)"
proof -
  obtain pre where pre: "al_prefix r = Some pre" "prefix_matches pre c d"
    using assms(2) by (auto simp: covers_def split: option.splits)
  then obtain p s where p: "is_prefix_command p s" "pre = p @ '' '' @ s" "al_key r = ''prefix:'' @ p @ '' '' @ s"
    using assms(1) by (auto simp: rule_ok_def rule_kind_defs)
  then show thesis
    using pre that prefix_command_words[OF p(1), of d] by (auto simp: prefix_matches_iff)
qed

lemma matching_Nil: "matching e host [] kind name args = None"
  by (cases "allowance_for e kind name args"; cases "command_string e args")
     (simp_all add: matching_def Let_def)

lemma matching_known_key:
  assumes "allowance_for e kind name args = Some r" and "\<exists>x \<in> set rs. al_key x = al_key r"
  shows "\<exists>q. matching e host rs kind name args = Some q \<and> al_key q = al_key r"
proof -
  obtain q where q: "find (\<lambda>x. al_key x = al_key r) rs = Some q"
    using assms(2) by (metis (mono_tags, lifting) find_None_iff not_None_eq)
  then have "al_key q = al_key r" by (auto simp: find_Some_iff)
  then show ?thesis using assms(1) q by (simp add: matching_def)
qed

lemma matching_cases:
  assumes "matching e host rs kind name args = Some r"
  obtains (exact) q where "r \<in> set rs" "allowance_for e kind name args = Some q" "al_key r = al_key q"
  | (prefix) c d where "r \<in> set rs" "kind = ''command''" "command_string e args = Some c"
      "d = dialect_for host (trim name) c" "covers (effective_command c d) d r"
proof -
  obtain q where q: "allowance_for e kind name args = Some q"
    using assms by (auto simp: matching_def bind_eq_Some_conv)
  show thesis
  proof (cases "find (\<lambda>r. al_key r = al_key q) rs")
    case (Some r')
    then have "r' = r" using assms q by (simp add: matching_def)
    then show thesis using Some q exact by (auto simp: find_Some_iff)
  next
    case None
    then obtain c where "kind = ''command''" "command_string e args = Some c"
        "find (covers (effective_command c (dialect_for host (trim name) c))
          (dialect_for host (trim name) c)) rs = Some r"
      using assms q by (auto simp: matching_def Let_def bind_eq_Some_conv split: if_splits)
    then show thesis using prefix[of c] by (auto simp: find_Some_iff)
  qed
qed

end
