(* ===== verification/Allowance_Properties.thy ===== *)
theory Allowance_Properties
  imports Allowance_Facts "HOL-Library.Countable"
begin

text \<open>
  What ``Allow for this chat'' may and may not approve. The witnesses use a parser and printer that
  write a JSON value as its number in a fixed enumeration, in unary.
\<close>

section \<open>A concrete parser and printer\<close>

instance json :: countable
  by countable_datatype

definition unary_env :: env where
  "unary_env = \<lparr>now = 0, commit_ok = True, random_epoch = (\<lambda>s. s),
     env_parse = (\<lambda>s. Inr (from_nat (length s))),
     env_show = (\<lambda>v. replicate (to_nat v) (CHR ''x''))\<rparr>"

lemma unary_env_text [simp]: "env_parse unary_env (env_show unary_env v) = Inr v"
  by (simp add: unary_env_def)

lemma unary_rules_text: "rules_text_ok unary_env"
  by (simp add: rules_text_ok_def)

definition test_args :: str where
  "test_args = env_show unary_env (JObj [(''command'', JStr ''cargo test'')])"

definition test_rule :: allowance where
  "test_rule = \<lparr>al_key = ''command:cargo test'', al_tool = ''shell'', al_command = Some ''cargo test'',
     al_prefix = None, al_created = 0\<rparr>"

lemma test_command: "command_text unary_env test_args = Some ''cargo test''"
proof -
  have "trim ''cargo test'' = ''cargo test''" by code_simp
  then show ?thesis
    by (simp add: command_text_def command_value_def test_args_def Let_def)
qed

lemma test_allowance: "allowance_for unary_env ''command'' ''shell'' test_args = Some test_rule"
proof -
  have "trim ''shell'' = ''shell''" "\<not> char_count ''cargo test'' > MAX_COMMAND_CHARS"
    by code_simp+
  then show ?thesis
    by (simp add: allowance_for_def test_command scope_supported_def test_rule_def Let_def)
qed

definition test_state :: json_state where
  "test_state = snd (record_rule unary_env ''t'' test_rule 5 Map.empty)"

lemma test_reachable: "rules_reachable unary_env Posix test_state"
  unfolding test_state_def
  using test_allowance
  by (intro granted no_rules) (auto simp: grants_def I64_MIN_def I64_MAX_def)

lemma test_load: "load_rules unary_env ''t'' test_state = [test_rule\<lparr>al_created := 5\<rparr>]"
proof -
  have none: "load_rules unary_env ''t'' Map.empty = []" by (simp add: load_rules_def)
  have "rule_ok (test_rule\<lparr>al_created := 5\<rparr>)"
    by (rule granted_rule_ok[of unary_env Posix])
       (use test_allowance in \<open>auto simp: grants_def I64_MIN_def I64_MAX_def\<close>)
  then show ?thesis
    using record_rule_load[OF unary_rules_text, of "''t''" Map.empty 5 test_rule "''t''"]
    by (simp add: none test_state_def push_rule_def MAX_ALLOWANCES_PER_THREAD_def)
qed

section \<open>Properties\<close>

text \<open>C30. A shell tool is never allowed as such. In every history, a rule that pre-approves a
  request of a shell-like tool either holds the exact command the request carries, or is a prefix
  rule of a listed developer tool and the request is one simple command that starts with its two
  words.\<close>

theorem shell_request_backed_by_command:
  assumes "rules_text_ok e" and "rules_reachable e host m"
    and "matching e host (load_rules e t m) kind name args = Some r"
    and "shell_name (to_ascii_lowercase (trim name))"
  shows "(\<exists>c. command_text e args = Some c \<and> al_command r = Some c) \<or>
    (\<exists>c p s ws. command_string e args = Some c \<and> is_prefix_command p s \<and>
       al_prefix r = Some (p @ '' '' @ s) \<and>
       simple_words (effective_command c (dialect_for host (trim name) c))
         (dialect_for host (trim name) c) = Some (p # s # ws))"
proof -
  have ok: "\<forall>r \<in> set (load_rules e t m). rule_ok r"
    using reachable_rules_ok[OF assms(1,2), of t] by (simp add: rules_ok_def)
  from assms(3) show ?thesis
  proof (cases rule: matching_cases)
    case (exact q)
    from exact(2) show ?thesis
    proof (cases rule: allowance_for_SomeE)
      case (command c)
      then have "al_command r = Some c"
        using rule_of_command_key[of r c] ok exact by simp
      then show ?thesis using command(1) by blast
    next
      case tool
      then show ?thesis using assms(4) by blast
    qed
  next
    case (prefix c d)
    then show ?thesis using covers_words[of r] ok by metis
  qed
qed

theorem shell_request_backed_by_command_witness:
  "\<exists>r. matching unary_env Posix (load_rules unary_env ''t'' test_state) ''command'' ''shell'' test_args
      = Some r \<and> al_command r = Some ''cargo test''"
proof -
  let ?r = "test_rule\<lparr>al_created := 5\<rparr>"
  have m: "matching unary_env Posix (load_rules unary_env ''t'' test_state) ''command'' ''shell'' test_args
      = Some ?r"
    by (simp add: matching_def test_allowance test_load)
  have "shell_name (to_ascii_lowercase (trim ''shell''))" by code_simp
  from shell_request_backed_by_command[OF unary_rules_text test_reachable m this]
  have "al_command ?r = Some ''cargo test''"
    by (auto simp: test_command test_rule_def)
  then show ?thesis using m by blast
qed

text \<open>C31. Grants are bounded: after any history of grants and revocations every thread has at
  most 64 rules, no two with one key, and each rule covers what its key names: one exact command,
  the first two words of a listed developer tool, or one tool that is not a shell.\<close>

theorem allowances_bounded:
  assumes "rules_text_ok e" and "rules_reachable e host m"
  shows "length (load_rules e t m) \<le> 64 \<and> distinct (map al_key (load_rules e t m)) \<and>
    list_all (\<lambda>r. command_rule r \<or> prefix_rule r \<or> tool_rule r) (load_rules e t m)"
  using reachable_rules_ok[OF assms, of t]
  by (auto simp: rules_ok_def rule_ok_def list_all_iff MAX_ALLOWANCES_PER_THREAD_def)

theorem allowances_bounded_witness: "length (load_rules unary_env ''t'' test_state) \<le> 64"
  using allowances_bounded[OF unary_rules_text test_reachable, of "''t''"] by blast

text \<open>A grant lasts until it is revoked: once the rule a request would create is recorded,
  the same request is pre-approved by a rule with its key, other threads keep their rules, and
  after a revocation of all rules nothing is pre-approved in that thread.\<close>

theorem granted_until_revoked:
  assumes "rules_text_ok e" and "rules_reachable e host m"
    and "allowance_for e kind name args = Some r" and "I64_MIN \<le> now_ms" and "now_ms \<le> I64_MAX"
  shows "(\<exists>q. matching e host (load_rules e t (snd (record_rule e t r now_ms m))) kind name args = Some q
        \<and> al_key q = al_key r) \<and>
    (\<forall>u. u \<noteq> t \<longrightarrow> load_rules e u (snd (record_rule e t r now_ms m)) = load_rules e u m) \<and>
    (\<forall>k n a. matching e host (load_rules e t (snd (revoke_rules e t None m))) k n a = None)"
proof (intro conjI allI impI)
  note ok = reachable_rules_ok[OF assms(1,2)]
  have r: "rule_ok (r\<lparr>al_created := now_ms\<rparr>)"
    using granted_rule_ok[of e host r] assms(3-5) by (auto simp: grants_def)
  note load = record_rule_load[OF assms(1) ok r]
  have "\<exists>x \<in> set (load_rules e t (snd (record_rule e t r now_ms m))). al_key x = al_key r"
  proof (cases "al_key r \<in> al_key ` set (load_rules e t m)")
    case True
    then show ?thesis by (auto simp: load)
  next
    case False
    obtain kept where "push_rule (r\<lparr>al_created := now_ms\<rparr>) (load_rules e t m)
        = kept @ [r\<lparr>al_created := now_ms\<rparr>]"
      using push_rule_last by blast
    then show ?thesis using False by (simp add: load)
  qed
  then show "\<exists>q. matching e host (load_rules e t (snd (record_rule e t r now_ms m))) kind name args = Some q
      \<and> al_key q = al_key r"
    by (rule matching_known_key[OF assms(3)])
  show "load_rules e u (snd (record_rule e t r now_ms m)) = load_rules e u m" if "u \<noteq> t" for u
    using that by (simp add: load)
  show "matching e host (load_rules e t (snd (revoke_rules e t None m))) k n a = None" for k n a
    by (simp add: revoke_rules_load[OF assms(1) ok] matching_Nil)
qed

theorem granted_until_revoked_witness:
  "\<exists>q. matching unary_env Posix (load_rules unary_env ''t''
      (snd (record_rule unary_env ''t'' test_rule 5 Map.empty))) ''command'' ''shell'' test_args = Some q
      \<and> al_key q = ''command:cargo test''"
proof -
  have "rules_reachable unary_env Posix Map.empty" by (rule no_rules) simp
  from granted_until_revoked[OF unary_rules_text this test_allowance, of 5 "''t''"]
  show ?thesis by (simp add: I64_MIN_def I64_MAX_def test_rule_def)
qed

end
