(* ===== verification/Approval_Broker.thy ===== *)
theory Approval_Broker
  imports Prelude
begin

text \<open>
  \<open>ToolApprovalBroker\<close> (crates/milim-agents/src/lib.rs): the table of approvals a run waits for, the
  one-shot channel each answer goes through, and the notices sent to observers.

  Each mutex section of the code is one function on the broker's state; the methods compose the
  sections in the code's order. The \<open>watch\<close> channel of an entry always holds the entry's snapshot
  (it is created with it and replaced in \<open>transition_entry\<close>) and has no field of its own. The
  receiving end of the one-shot channel, with the value sent, is the \<open>PendingApproval\<close> handle.
  \<open>DefaultHasher\<close>'s digest of a response is the parameter \<open>fp\<close>.
\<close>

section \<open>State\<close>

datatype approval_state = Requested | Decided | Delivered | Acknowledged | Failed | Canceled

datatype approval_scope = Once | ThreadScope

datatype approval_resolve = Resolved | AlreadyResolved | Conflict | ResolveFailed | Missing

datatype tool_effect = ReadOnly | Mutating | Command | Unknown

record approval_snapshot =
  sn_id :: str
  sn_state :: approval_state
  sn_decision :: "str option"
  sn_error :: "str option"
  sn_created :: int
  sn_updated :: int

record approval_decision =
  approved :: bool
  response :: "json option"
  scope :: approval_scope

record approval_entry =
  en_sender :: bool
  en_decision :: "bool option"
  en_fingerprint :: "nat option"
  en_snapshot :: approval_snapshot

record external_meta =
  xm_id :: str
  xm_run :: str
  xm_call :: "str option"
  xm_name :: str
  xm_arguments :: str
  xm_effect :: tool_effect

record approval_notice =
  nt_id :: str
  nt_meta :: external_meta
  nt_state :: approval_state
  nt_decision :: "str option"
  nt_error :: "str option"

record handle =
  h_id :: str
  h_value :: "approval_decision option"

record broker =
  pending :: "approval_entry list"
  external :: "external_meta list"
  handles :: "handle list"
  notices :: "approval_notice list"

definition empty_broker :: broker where
  "empty_broker = \<lparr>pending = [], external = [], handles = [], notices = []\<rparr>"

definition en_id :: "approval_entry \<Rightarrow> str" where "en_id x = sn_id (en_snapshot x)"
definition en_state :: "approval_entry \<Rightarrow> approval_state" where "en_state x = sn_state (en_snapshot x)"

definition entry_of :: "str \<Rightarrow> broker \<Rightarrow> approval_entry option" where
  "entry_of i b = row_where (\<lambda>x. en_id x = i) (pending b)"

definition approval_state_terminal :: "approval_state \<Rightarrow> bool" where
  "approval_state_terminal s \<longleftrightarrow> s \<in> {Acknowledged, Failed, Canceled}"

definition set_entry :: "str \<Rightarrow> (approval_entry \<Rightarrow> approval_entry) \<Rightarrow> broker \<Rightarrow> broker" where
  "set_entry i f b = b\<lparr>pending := set_where (\<lambda>x. en_id x = i) f (pending b)\<rparr>"

definition decision_name :: "bool \<Rightarrow> str" where
  "decision_name a = (if a then ''approve'' else ''deny'')"

definition transition_entry :: "int \<Rightarrow> approval_state \<Rightarrow> str option \<Rightarrow> approval_entry \<Rightarrow> approval_entry" where
  "transition_entry now_ms s err x = x\<lparr>en_snapshot := (en_snapshot x)\<lparr>sn_state := s,
     sn_decision := map_option decision_name (en_decision x), sn_error := err, sn_updated := now_ms\<rparr>\<rparr>"

section \<open>Requests\<close>

definition MAX_PENDING :: nat where "MAX_PENDING = 2048"

text \<open>The terminal entries are dropped, with what is known of them outside, when the table is full.\<close>

definition prune_terminal :: "broker \<Rightarrow> broker" where
  "prune_terminal b =
     (if length (pending b) \<ge> MAX_PENDING then
        (let removed = map en_id (filter (\<lambda>x. approval_state_terminal (en_state x)) (pending b))
         in b\<lparr>pending := drop_where (\<lambda>x. en_id x \<in> set removed) (pending b),
              external := drop_where (\<lambda>m. xm_id m \<in> set removed) (external b)\<rparr>)
      else b)"

definition new_entry :: "int \<Rightarrow> str \<Rightarrow> approval_entry" where
  "new_entry now_ms i = \<lparr>en_sender = True, en_decision = None, en_fingerprint = None,
     en_snapshot = \<lparr>sn_id = i, sn_state = Requested, sn_decision = None, sn_error = None,
       sn_created = now_ms, sn_updated = now_ms\<rparr>\<rparr>"

text \<open>\<open>i\<close> is the new uuid.\<close>

definition request :: "int \<Rightarrow> str \<Rightarrow> broker \<Rightarrow> broker" where
  "request now_ms i b =
     (let b' = prune_terminal b
      in b'\<lparr>pending := drop_where (\<lambda>x. en_id x = i) (pending b') @ [new_entry now_ms i],
            handles := handles b' @ [\<lparr>h_id = i, h_value = None\<rparr>]\<rparr>)"

definition notice_of :: "external_meta \<Rightarrow> approval_snapshot \<Rightarrow> approval_notice" where
  "notice_of m sn = \<lparr>nt_id = sn_id sn, nt_meta = m, nt_state = sn_state sn,
     nt_decision = sn_decision sn, nt_error = sn_error sn\<rparr>"

definition requested_notice :: "external_meta \<Rightarrow> approval_notice" where
  "requested_notice m = \<lparr>nt_id = xm_id m, nt_meta = m, nt_state = Requested, nt_decision = None,
     nt_error = None\<rparr>"

definition register :: "external_meta \<Rightarrow> broker \<Rightarrow> broker" where
  "register m b = b\<lparr>external := drop_where (\<lambda>x. xm_id x = xm_id m) (external b) @ [m]\<rparr>"

definition send_notice :: "approval_notice \<Rightarrow> broker \<Rightarrow> broker" where
  "send_notice n b = b\<lparr>notices := notices b @ [n]\<rparr>"

definition request_external :: "int \<Rightarrow> external_meta \<Rightarrow> broker \<Rightarrow> broker" where
  "request_external now_ms m b =
     send_notice (requested_notice m) (register m (request now_ms (xm_id m) b))"

definition snapshot_of :: "str \<Rightarrow> broker \<Rightarrow> approval_snapshot option" where
  "snapshot_of i b = map_option en_snapshot (entry_of i b)"

section \<open>Notices\<close>

text \<open>The section on \<open>external\<close> of \<open>publish_notice\<close>, then the send.\<close>

definition take_meta :: "approval_snapshot \<Rightarrow> broker \<Rightarrow> external_meta option \<times> broker" where
  "take_meta sn b =
     (row_where (\<lambda>m. xm_id m = sn_id sn) (external b),
      if approval_state_terminal (sn_state sn)
      then b\<lparr>external := drop_where (\<lambda>m. xm_id m = sn_id sn) (external b)\<rparr> else b)"

definition publish_notice :: "approval_snapshot \<Rightarrow> broker \<Rightarrow> broker" where
  "publish_notice sn b = (case take_meta sn b of
       (None, b') \<Rightarrow> b'
     | (Some m, b') \<Rightarrow> send_notice (notice_of m sn) b')"

section \<open>Resolving\<close>

text \<open>\<open>sender.send\<close> hands the value to the handle and fails when the handle is gone.\<close>

definition has_handle :: "str \<Rightarrow> broker \<Rightarrow> bool" where
  "has_handle i b \<longleftrightarrow> list_ex (\<lambda>h. h_id h = i) (handles b)"

definition fill_handle :: "str \<Rightarrow> approval_decision \<Rightarrow> broker \<Rightarrow> broker" where
  "fill_handle i d b = b\<lparr>handles := set_where (\<lambda>h. h_id h = i) (\<lambda>h. h\<lparr>h_value := Some d\<rparr>) (handles b)\<rparr>"

definition decide :: "bool \<Rightarrow> nat \<Rightarrow> approval_entry \<Rightarrow> approval_entry" where
  "decide a f x = x\<lparr>en_sender := False, en_decision := Some a, en_fingerprint := Some f\<rparr>"

text \<open>The section on \<open>pending\<close> of \<open>resolve_with_scope\<close>: the answer, the snapshot to publish if the
  entry changed, and the new state.\<close>

definition resolve_entry ::
  "(json option \<Rightarrow> nat) \<Rightarrow> int \<Rightarrow> str \<Rightarrow> bool \<Rightarrow> json option \<Rightarrow> approval_scope \<Rightarrow> broker \<Rightarrow>
     approval_resolve \<times> approval_snapshot option \<times> broker" where
  "resolve_entry fp now_ms i a resp sc b =
     (let fingerprint = fp resp;
          d = \<lparr>approved = a, response = resp, scope = (if a then sc else Once)\<rparr>
      in case entry_of i b of
        None \<Rightarrow> (Missing, None, b)
      | Some x \<Rightarrow>
          (if en_state x \<noteq> Requested then
             (if en_decision x = Some a \<and> en_fingerprint x = Some fingerprint then AlreadyResolved
              else if en_state x = Failed \<or> en_state x = Canceled then ResolveFailed
              else Conflict, None, b)
           else if \<not> en_sender x then (ResolveFailed, None, b)
           else if has_handle i b then
             (let x' = transition_entry now_ms Decided None (decide a fingerprint x)
              in (Resolved, Some (en_snapshot x'),
                  fill_handle i d (set_entry i (\<lambda>_. x') b)))
           else
             (let x' = transition_entry now_ms Failed
                  (Some ''approval receiver disconnected before delivery'') (decide a fingerprint x)
              in (ResolveFailed, Some (en_snapshot x'), set_entry i (\<lambda>_. x') b))))"

definition resolve_with_scope ::
  "(json option \<Rightarrow> nat) \<Rightarrow> int \<Rightarrow> str \<Rightarrow> bool \<Rightarrow> json option \<Rightarrow> approval_scope \<Rightarrow> broker \<Rightarrow>
     approval_resolve \<times> broker" where
  "resolve_with_scope fp now_ms i a resp sc b = (case resolve_entry fp now_ms i a resp sc b of
       (r, None, b') \<Rightarrow> (r, b')
     | (r, Some sn, b') \<Rightarrow> (r, publish_notice sn b'))"

section \<open>Transitions\<close>

definition allowed :: "approval_state \<Rightarrow> approval_state \<Rightarrow> bool" where
  "allowed from to = (case to of
       Delivered \<Rightarrow> from = Decided
     | Acknowledged \<Rightarrow> from = Delivered
     | Failed \<Rightarrow> \<not> approval_state_terminal from
     | Canceled \<Rightarrow> \<not> approval_state_terminal from
     | Requested \<Rightarrow> False
     | Decided \<Rightarrow> False)"

text \<open>The section on \<open>pending\<close> of \<open>transition\<close>: the entry's snapshot, whether it changed, and the
  new state.\<close>

definition move_entry ::
  "int \<Rightarrow> str \<Rightarrow> approval_state \<Rightarrow> str option \<Rightarrow> broker \<Rightarrow>
     (approval_snapshot \<times> bool) option \<times> broker" where
  "move_entry now_ms i s err b = (case entry_of i b of
       None \<Rightarrow> (None, b)
     | Some x \<Rightarrow>
         (if \<not> allowed (en_state x) s then (Some (en_snapshot x, False), b)
          else let y = (if s = Failed \<or> s = Canceled then x\<lparr>en_sender := False\<rparr> else x);
                   x' = transition_entry now_ms s err y
            in (Some (en_snapshot x', True), set_entry i (\<lambda>_. x') b)))"

definition transition ::
  "int \<Rightarrow> str \<Rightarrow> approval_state \<Rightarrow> str option \<Rightarrow> broker \<Rightarrow> approval_snapshot option \<times> broker" where
  "transition now_ms i s err b = (case move_entry now_ms i s err b of
       (None, b') \<Rightarrow> (None, b')
     | (Some (sn, False), b') \<Rightarrow> (Some sn, b')
     | (Some (sn, True), b') \<Rightarrow> (Some sn, publish_notice sn b'))"

definition mark_delivered :: "int \<Rightarrow> str \<Rightarrow> broker \<Rightarrow> approval_snapshot option \<times> broker" where
  "mark_delivered now_ms i = transition now_ms i Delivered None"

definition acknowledge :: "int \<Rightarrow> str \<Rightarrow> broker \<Rightarrow> approval_snapshot option \<times> broker" where
  "acknowledge now_ms i = transition now_ms i Acknowledged None"

definition fail_approval :: "int \<Rightarrow> str \<Rightarrow> str \<Rightarrow> broker \<Rightarrow> approval_snapshot option \<times> broker" where
  "fail_approval now_ms i err = transition now_ms i Failed (Some err)"

section \<open>Runs\<close>

definition external_ids :: "str \<Rightarrow> broker \<Rightarrow> str list" where
  "external_ids r b = map xm_id (filter (\<lambda>m. xm_run m = r) (external b))"

definition acknowledge_one :: "int \<Rightarrow> str \<Rightarrow> broker \<Rightarrow> broker" where
  "acknowledge_one now_ms i b = (case snapshot_of i b of
       None \<Rightarrow> b
     | Some sn \<Rightarrow> (if sn_state sn = Delivered then snd (acknowledge now_ms i b) else b))"

definition acknowledge_run :: "int \<Rightarrow> str \<Rightarrow> broker \<Rightarrow> broker" where
  "acknowledge_run now_ms r b = foldl (\<lambda>b i. acknowledge_one now_ms i b) b (external_ids r b)"

definition fail_one :: "int \<Rightarrow> str \<Rightarrow> str \<Rightarrow> broker \<Rightarrow> broker" where
  "fail_one now_ms err i b = (case snapshot_of i b of
       None \<Rightarrow> b
     | Some sn \<Rightarrow> (if approval_state_terminal (sn_state sn) then b
                  else snd (fail_approval now_ms i err b)))"

definition fail_run :: "int \<Rightarrow> str \<Rightarrow> str \<Rightarrow> broker \<Rightarrow> broker" where
  "fail_run now_ms r err b = foldl (\<lambda>b i. fail_one now_ms err i b) b (external_ids r b)"

section \<open>The handle\<close>

text \<open>\<open>wait\<close> returns the decision in the channel; it is still waiting (\<open>None\<close>) while the sender is
  there; a sender that went away without a decision is a denial.\<close>

definition denial :: approval_decision where
  "denial = \<lparr>approved = False, response = None, scope = Once\<rparr>"

definition sender_alive :: "str \<Rightarrow> broker \<Rightarrow> bool" where
  "sender_alive i b \<longleftrightarrow> (case entry_of i b of None \<Rightarrow> False | Some x \<Rightarrow> en_sender x)"

definition wait_approval :: "int \<Rightarrow> handle \<Rightarrow> broker \<Rightarrow> (approval_decision \<times> broker) option" where
  "wait_approval now_ms h b = (case h_value h of
       Some d \<Rightarrow> Some (d, b)
     | None \<Rightarrow>
         (if sender_alive (h_id h) b then None
          else Some (denial, snd (fail_approval now_ms (h_id h) ''approval request was canceled'' b))))"

definition deliver :: "int \<Rightarrow> str \<Rightarrow> broker \<Rightarrow> (str + approval_snapshot) \<times> broker" where
  "deliver now_ms i b = (case mark_delivered now_ms i b of
       (None, b') \<Rightarrow> (Inl ''approval transaction expired'', b')
     | (Some sn, b') \<Rightarrow>
         (if sn_state sn = Delivered \<or> sn_state sn = Acknowledged then Inr sn
          else Inl (case sn_error sn of None \<Rightarrow> ''approval decision is no longer deliverable'' | Some err \<Rightarrow> err),
          b'))"

definition remove_handle :: "str \<Rightarrow> broker \<Rightarrow> broker" where
  "remove_handle i b = b\<lparr>handles := drop_where (\<lambda>h. h_id h = i) (handles b)\<rparr>"

definition drop_pending :: "int \<Rightarrow> str \<Rightarrow> broker \<Rightarrow> broker" where
  "drop_pending now_ms i b = remove_handle i
     (case map_option sn_state (snapshot_of i b) of
        Some Requested \<Rightarrow>
          snd (transition now_ms i Canceled (Some ''approval request was abandoned'') b)
      | Some Decided \<Rightarrow> snd (fail_approval now_ms i ''approval delivery was interrupted'' b)
      | _ \<Rightarrow> b)"

text \<open>\<open>wait_for_delivery\<close> after its wait: the snapshot it saw last, or the failure it records when
  the deadline passed first.\<close>

definition delivery_settled :: "approval_state \<Rightarrow> bool" where
  "delivery_settled s \<longleftrightarrow> s \<in> {Delivered, Acknowledged, Failed, Canceled}"

definition wait_for_delivery :: "int \<Rightarrow> str \<Rightarrow> broker \<Rightarrow> approval_snapshot option \<times> broker" where
  "wait_for_delivery now_ms i b = (case snapshot_of i b of
       None \<Rightarrow> (None, b)
     | Some sn \<Rightarrow>
         (if delivery_settled (sn_state sn) then (Some sn, b)
          else let b' = snd (fail_approval now_ms i ''runtime did not accept the approval decision in time'' b)
            in (snapshot_of i b', b')))"

end
