(* ===== verification/Broker_Steps.thy ===== *)
theory Broker_Steps
  imports Approval_Broker
begin

text \<open>
  The broker under concurrent use. A step is one mutex section, so a call of the code is a sequence
  of steps with the steps of other calls in between: after its section on \<open>pending\<close> a call still has
  to take the metadata from \<open>external\<close>, and after that still has to send the notice.
\<close>

section \<open>Steps\<close>

text \<open>\<open>to_publish\<close> holds the snapshots whose call has not reached \<open>external\<close> yet, \<open>to_send\<close> the
  notices not sent yet, \<open>used\<close> the uuids given out.\<close>

record system =
  sys :: broker
  to_publish :: "approval_snapshot list"
  to_send :: "approval_notice list"
  used :: "str set"

definition queue_publish :: "approval_snapshot option \<Rightarrow> system \<Rightarrow> system" where
  "queue_publish sn s = (case sn of None \<Rightarrow> s | Some x \<Rightarrow> s\<lparr>to_publish := x # to_publish s\<rparr>)"

definition queue_send :: "approval_notice option \<Rightarrow> system \<Rightarrow> system" where
  "queue_send n s = (case n of None \<Rightarrow> s | Some x \<Rightarrow> s\<lparr>to_send := x # to_send s\<rparr>)"

definition changed_snapshot :: "(approval_snapshot \<times> bool) option \<Rightarrow> approval_snapshot option" where
  "changed_snapshot r = (case r of Some (sn, True) \<Rightarrow> Some sn | _ \<Rightarrow> None)"

text \<open>A new uuid is one never given out. A caller registers only the approval it has just requested,
  whose id nobody else has yet. A handle goes away only after \<open>drop\<close> has seen to it that its approval
  is no longer open.\<close>

inductive broker_step :: "(json option \<Rightarrow> nat) \<Rightarrow> system \<Rightarrow> system \<Rightarrow> bool" for fp where
  step_request: "i \<notin> used s \<Longrightarrow>
     broker_step fp s (s\<lparr>sys := request t i (sys s), used := insert i (used s)\<rparr>)"
| step_register: "entry_of (xm_id m) (sys s) = Some x \<Longrightarrow> en_state x = Requested \<Longrightarrow>
     \<forall>n \<in> set (notices (sys s) @ to_send s). nt_id n \<noteq> xm_id m \<Longrightarrow>
     broker_step fp s (queue_send (Some (requested_notice m)) (s\<lparr>sys := register m (sys s)\<rparr>))"
| step_resolve: "resolve_entry fp t i a resp sc (sys s) = (r, sn, b) \<Longrightarrow>
     broker_step fp s (queue_publish sn (s\<lparr>sys := b\<rparr>))"
| step_move: "move_entry t i st err (sys s) = (r, b) \<Longrightarrow>
     broker_step fp s (queue_publish (changed_snapshot r) (s\<lparr>sys := b\<rparr>))"
| step_publish: "to_publish s = ps @ sn # qs \<Longrightarrow> take_meta sn (sys s) = (m, b) \<Longrightarrow>
     broker_step fp s (queue_send (map_option (\<lambda>m. notice_of m sn) m)
        (s\<lparr>sys := b, to_publish := ps @ qs\<rparr>))"
| step_send: "to_send s = ps @ n # qs \<Longrightarrow>
     broker_step fp s (s\<lparr>sys := send_notice n (sys s), to_send := ps @ qs\<rparr>)"
| step_drop: "\<forall>x. entry_of i (sys s) = Some x \<longrightarrow> en_state x \<noteq> Requested \<Longrightarrow>
     broker_step fp s (s\<lparr>sys := remove_handle i (sys s)\<rparr>)"

definition start_system :: system where
  "start_system = \<lparr>sys = empty_broker, to_publish = [], to_send = [], used = {}\<rparr>"

inductive broker_reachable :: "(json option \<Rightarrow> nat) \<Rightarrow> system \<Rightarrow> bool" for fp where
  reach_start: "broker_reachable fp start_system"
| reach_step: "broker_reachable fp s \<Longrightarrow> broker_step fp s s' \<Longrightarrow> broker_reachable fp s'"

section \<open>Entries\<close>

definition entry_ok :: "approval_entry \<Rightarrow> bool" where
  "entry_ok x \<longleftrightarrow>
     (en_sender x \<longleftrightarrow> en_state x = Requested) \<and>
     (en_decision x = None \<longleftrightarrow> en_fingerprint x = None) \<and>
     (en_state x = Requested \<longrightarrow> en_decision x = None) \<and>
     (en_state x \<in> {Decided, Delivered, Acknowledged} \<longrightarrow> en_decision x \<noteq> None) \<and>
     sn_decision (en_snapshot x) = map_option decision_name (en_decision x)"

definition table_ok :: "broker \<Rightarrow> bool" where
  "table_ok b \<longleftrightarrow> distinct (map en_id (pending b)) \<and> (\<forall>x \<in> set (pending b). entry_ok x)"

text \<open>How an entry may evolve: forward along the states, keeping a decision once made; a terminal
  entry is final.\<close>

definition forward :: "approval_state \<Rightarrow> approval_state \<Rightarrow> bool" where
  "forward s t \<longleftrightarrow> s = t \<or> (case s of
       Requested \<Rightarrow> t \<noteq> Requested
     | Decided \<Rightarrow> t \<notin> {Requested, Decided}
     | Delivered \<Rightarrow> approval_state_terminal t
     | _ \<Rightarrow> False)"

definition evolves :: "approval_entry \<Rightarrow> approval_entry \<Rightarrow> bool" where
  "evolves x y \<longleftrightarrow> en_id y = en_id x \<and> forward (en_state x) (en_state y) \<and>
     (en_decision x \<noteq> None \<longrightarrow> en_decision y = en_decision x \<and> en_fingerprint y = en_fingerprint x) \<and>
     (approval_state_terminal (en_state x) \<longrightarrow> y = x) \<and> (en_state y = en_state x \<longrightarrow> y = x)"

lemma forward_refl [simp]: "forward s s"
  by (simp add: forward_def)

lemma forward_trans: "forward s t \<Longrightarrow> forward t u \<Longrightarrow> forward s u"
  by (auto simp: forward_def approval_state_terminal_def split: approval_state.splits)

lemma forward_antisym: "forward s t \<Longrightarrow> forward t s \<Longrightarrow> s = t"
  by (auto simp: forward_def approval_state_terminal_def split: approval_state.splits)

lemma forward_terminal: "forward s t \<Longrightarrow> approval_state_terminal s \<Longrightarrow> t = s"
  by (auto simp: forward_def approval_state_terminal_def split: approval_state.splits)

lemma evolves_refl [simp]: "evolves x x"
  by (simp add: evolves_def)

lemma evolves_trans: "evolves x y \<Longrightarrow> evolves y z \<Longrightarrow> evolves x z"
  by (auto simp: evolves_def dest: forward_trans intro: forward_antisym)

lemma transition_entry_simps [simp]:
  "en_id (transition_entry t s err x) = en_id x"
  "en_state (transition_entry t s err x) = s"
  "en_sender (transition_entry t s err x) = en_sender x"
  "en_decision (transition_entry t s err x) = en_decision x"
  "en_fingerprint (transition_entry t s err x) = en_fingerprint x"
  "sn_decision (en_snapshot (transition_entry t s err x)) = map_option decision_name (en_decision x)"
  "sn_state (en_snapshot (transition_entry t s err x)) = s"
  "sn_id (en_snapshot (transition_entry t s err x)) = en_id x"
  by (simp_all add: transition_entry_def en_id_def en_state_def)

lemma decide_simps [simp]:
  "en_id (decide a f x) = en_id x" "en_state (decide a f x) = en_state x"
  "en_sender (decide a f x) = False" "en_decision (decide a f x) = Some a"
  "en_fingerprint (decide a f x) = Some f" "en_snapshot (decide a f x) = en_snapshot x"
  by (simp_all add: decide_def en_id_def en_state_def)

lemma no_sender_simps [simp]:
  "en_id (x\<lparr>en_sender := v\<rparr>) = en_id x" "en_state (x\<lparr>en_sender := v\<rparr>) = en_state x"
  by (simp_all add: en_id_def en_state_def)

lemma decided_entry_ok:
  "s \<in> {Decided, Failed} \<Longrightarrow> entry_ok (transition_entry t s err (decide a f x))"
  by (auto simp: entry_ok_def)

lemma decided_evolves:
  "entry_ok x \<Longrightarrow> en_state x = Requested \<Longrightarrow> s \<in> {Decided, Failed} \<Longrightarrow>
     evolves x (transition_entry t s err (decide a f x))"
  by (auto simp: evolves_def forward_def entry_ok_def approval_state_terminal_def)

lemma moved_entry:
  assumes "entry_ok x" and "allowed (en_state x) s"
  shows "entry_ok (transition_entry t s err (if s = Failed \<or> s = Canceled then x\<lparr>en_sender := False\<rparr> else x))"
    and "evolves x (transition_entry t s err (if s = Failed \<or> s = Canceled then x\<lparr>en_sender := False\<rparr> else x))"
  using assms
  by (auto simp: entry_ok_def evolves_def forward_def allowed_def approval_state_terminal_def
      split: approval_state.splits)

section \<open>The table of entries\<close>

lemma entry_of_Some: "entry_of i b = Some x \<Longrightarrow> x \<in> set (pending b) \<and> en_id x = i"
  by (auto simp: entry_of_def dest: row_where_Some)

lemma entry_of_in: "distinct (map en_id (pending b)) \<Longrightarrow> x \<in> set (pending b) \<Longrightarrow> entry_of (en_id x) b = Some x"
  using row_where_unique[of en_id "pending b" x x] by (simp add: entry_of_def)

lemma set_where_const_ids:
  "en_id y = i \<Longrightarrow> map en_id (set_where (\<lambda>x. en_id x = i) (\<lambda>_. y) t) = map en_id t"
  by (rule set_where_keeps) simp

lemma set_entry_ids: "en_id y = i \<Longrightarrow> map en_id (pending (set_entry i (\<lambda>_. y) b)) = map en_id (pending b)"
  by (simp add: set_entry_def set_where_const_ids)

lemma set_entry_set:
  "x \<in> set (pending (set_entry i (\<lambda>_. y) b)) \<Longrightarrow> x = y \<or> x \<in> set (pending b) \<and> en_id x \<noteq> i"
  by (auto simp: set_entry_def set_set_where split: if_splits)

lemma row_where_const:
  "en_id y = i \<Longrightarrow> row_where (\<lambda>x. en_id x = k) (set_where (\<lambda>x. en_id x = i) (\<lambda>_. y) t) =
     (if k = i then map_option (\<lambda>_. y) (row_where (\<lambda>x. en_id x = i) t)
      else row_where (\<lambda>x. en_id x = k) t)"
  by (induction t) (auto simp: set_where_def row_where_def)

lemma entry_of_set_entry:
  assumes "en_id y = i" and "entry_of i b = Some x"
  shows "entry_of k (set_entry i (\<lambda>_. y) b) = (if k = i then Some y else entry_of k b)"
  using assms by (simp add: entry_of_def set_entry_def row_where_const)

lemma set_entry_fields [simp]:
  "external (set_entry i f b) = external b" "handles (set_entry i f b) = handles b"
  "notices (set_entry i f b) = notices b"
  by (simp_all add: set_entry_def)

lemma fill_handle_fields [simp]:
  "external (fill_handle i d b) = external b" "pending (fill_handle i d b) = pending b"
  "notices (fill_handle i d b) = notices b" "entry_of k (fill_handle i d b) = entry_of k b"
  by (simp_all add: fill_handle_def entry_of_def)

lemma table_ok_set_entry: "table_ok b \<Longrightarrow> entry_ok y \<Longrightarrow> en_id y = i \<Longrightarrow> table_ok (set_entry i (\<lambda>_. y) b)"
  unfolding table_ok_def using set_entry_ids[of y i b] set_entry_set[of _ i y b] by metis

text \<open>What the two sections that write an entry do, in one form: nothing, or the entry replaced by
  one it may evolve to, together with its snapshot.\<close>

lemma resolve_entry_cases:
  assumes "resolve_entry fp t i a resp sc b = (r, sn, b')" and "table_ok b"
  obtains (unchanged) "sn = None" "b' = b" "r \<noteq> Resolved"
  | (sent) x y where "entry_of i b = Some x" "en_state x = Requested" "evolves x y" "entry_ok y"
      "en_state y = Decided" "en_decision y = Some a" "en_fingerprint y = Some (fp resp)"
      "sn = Some (en_snapshot y)" "r = Resolved" "has_handle i b"
      "b' = fill_handle i \<lparr>approved = a, response = resp, scope = (if a then sc else Once)\<rparr>
              (set_entry i (\<lambda>_. y) b)"
  | (lost) x y where "entry_of i b = Some x" "en_state x = Requested" "evolves x y" "entry_ok y"
      "en_state y = Failed" "sn = Some (en_snapshot y)" "r = ResolveFailed" "\<not> has_handle i b"
      "b' = set_entry i (\<lambda>_. y) b"
proof (cases "entry_of i b")
  case None
  then show thesis using assms(1) unchanged by (auto simp: resolve_entry_def)
next
  case (Some x)
  have ok: "entry_ok x" using entry_of_Some[OF Some] assms(2) by (simp add: table_ok_def)
  show thesis
  proof (cases "en_state x = Requested \<and> en_sender x")
    case False
    then show thesis
      using assms(1) Some ok unchanged
      by (auto simp: resolve_entry_def Let_def entry_ok_def split: if_splits)
  next
    case True
    show thesis
    proof (cases "has_handle i b")
      case h: True
      let ?y = "transition_entry t Decided None (decide a (fp resp) x)"
      have eq: "sn = Some (en_snapshot ?y)" "r = Resolved"
          "b' = fill_handle i \<lparr>approved = a, response = resp, scope = (if a then sc else Once)\<rparr>
              (set_entry i (\<lambda>_. ?y) b)"
        using assms(1) Some True h by (auto simp: resolve_entry_def Let_def)
      show thesis
        by (rule sent[of x ?y]) (use Some True h ok decided_entry_ok decided_evolves eq in auto)
    next
      case h: False
      let ?y = "transition_entry t Failed (Some ''approval receiver disconnected before delivery'')
          (decide a (fp resp) x)"
      have eq: "sn = Some (en_snapshot ?y)" "r = ResolveFailed" "b' = set_entry i (\<lambda>_. ?y) b"
        using assms(1) Some True h by (auto simp: resolve_entry_def Let_def)
      show thesis
        by (rule lost[of x ?y]) (use Some True h ok decided_entry_ok decided_evolves eq in auto)
    qed
  qed
qed

lemma move_entry_cases:
  assumes "move_entry t i s err b = (r, b')" and "table_ok b"
  obtains (unchanged) "changed_snapshot r = None" "b' = b"
  | (moved) x y where "entry_of i b = Some x" "allowed (en_state x) s" "evolves x y" "entry_ok y"
      "en_state y = s" "en_state x \<noteq> s" "en_decision y = en_decision x"
      "r = Some (en_snapshot y, True)" "b' = set_entry i (\<lambda>_. y) b"
proof (cases "entry_of i b")
  case None
  then show thesis using assms(1) unchanged by (auto simp: move_entry_def changed_snapshot_def)
next
  case (Some x)
  have ok: "entry_ok x" using entry_of_Some[OF Some] assms(2) by (simp add: table_ok_def)
  show thesis
  proof (cases "allowed (en_state x) s")
    case False
    then show thesis
      using assms(1) Some unchanged by (auto simp: move_entry_def changed_snapshot_def)
  next
    case True
    let ?y = "transition_entry t s err (if s = Failed \<or> s = Canceled then x\<lparr>en_sender := False\<rparr> else x)"
    have "r = Some (en_snapshot ?y, True)" "b' = set_entry i (\<lambda>_. ?y) b"
      using assms(1) Some True by (auto simp: move_entry_def Let_def)
    moreover have "en_state x \<noteq> s"
      using True by (auto simp: allowed_def approval_state_terminal_def split: approval_state.splits)
    ultimately show thesis using moved[of x ?y] Some True moved_entry[OF ok True] by simp
  qed
qed

section \<open>Requests and pruning\<close>

lemma prune_pending: "set (pending (prune_terminal b)) \<subseteq> set (pending b)"
  by (auto simp: prune_terminal_def Let_def)

lemma prune_fields [simp]:
  "handles (prune_terminal b) = handles b" "notices (prune_terminal b) = notices b"
  by (simp_all add: prune_terminal_def Let_def)

lemma prune_keeps_open:
  "x \<in> set (pending b) \<Longrightarrow> distinct (map en_id (pending b)) \<Longrightarrow> \<not> approval_state_terminal (en_state x) \<Longrightarrow>
     x \<in> set (pending (prune_terminal b))"
  by (auto simp: prune_terminal_def Let_def dest: distinct_map[THEN iffD1] inj_onD)

lemma prune_table_ok: "table_ok b \<Longrightarrow> table_ok (prune_terminal b)"
  by (auto simp: table_ok_def prune_terminal_def Let_def intro: distinct_drop_where)

lemma entry_of_prune: "table_ok b \<Longrightarrow> entry_of i (prune_terminal b) = Some x \<Longrightarrow> entry_of i b = Some x"
  using entry_of_Some[of i "prune_terminal b" x] prune_pending[of b] entry_of_in[of b x]
  by (auto simp: table_ok_def)

lemma new_entry_simps [simp]:
  "en_id (new_entry t i) = i" "en_state (new_entry t i) = Requested" "entry_ok (new_entry t i)"
  by (simp_all add: new_entry_def en_id_def en_state_def entry_ok_def)

lemma request_pending:
  assumes "i \<notin> en_id ` set (pending b)"
  shows "pending (request t i b) = pending (prune_terminal b) @ [new_entry t i]"
proof -
  have "drop_where (\<lambda>x. en_id x = i) (pending (prune_terminal b)) = pending (prune_terminal b)"
    using assms prune_pending[of b] by (auto simp: drop_where_def filter_id_conv)
  then show ?thesis by (simp add: request_def Let_def)
qed

lemma request_fields [simp]:
  "external (request t i b) = external (prune_terminal b)" "notices (request t i b) = notices b"
  "handles (request t i b) = handles b @ [\<lparr>h_id = i, h_value = None\<rparr>]"
  by (simp_all add: request_def Let_def)

lemma request_table_ok:
  assumes "table_ok b" and "i \<notin> en_id ` set (pending b)"
  shows "table_ok (request t i b)"
  using prune_table_ok[OF assms(1)] assms(2) prune_pending[of b]
  by (auto simp: table_ok_def request_pending[OF assms(2)])

lemma entry_of_request:
  assumes "i \<notin> en_id ` set (pending b)"
  shows "entry_of k (request t i b) = (if k = i then Some (new_entry t i) else entry_of k (prune_terminal b))"
proof -
  have "row_where (\<lambda>x. en_id x = i) (pending (prune_terminal b)) = None"
    using assms prune_pending[of b] by (auto simp: row_where_None)
  then show ?thesis
    by (auto simp: entry_of_def request_pending[OF assms] row_where_append row_where_Cons
        row_where_def[of _ "[]"] split: option.splits)
qed

section \<open>The table in every reachable state\<close>

definition mentioned :: "system \<Rightarrow> str set" where
  "mentioned s = en_id ` set (pending (sys s)) \<union> h_id ` set (handles (sys s)) \<union>
     xm_id ` set (external (sys s)) \<union> nt_id ` set (notices (sys s) @ to_send s) \<union>
     sn_id ` set (to_publish s)"

definition base_ok :: "system \<Rightarrow> bool" where
  "base_ok s \<longleftrightarrow> table_ok (sys s) \<and> mentioned s \<subseteq> used s"

lemma queue_simps [simp]:
  "sys (queue_publish sn s) = sys s" "sys (queue_send n s) = sys s"
  "used (queue_publish sn s) = used s" "used (queue_send n s) = used s"
  "to_send (queue_publish sn s) = to_send s" "to_publish (queue_send n s) = to_publish s"
  "set (to_publish (queue_publish sn s)) = set_option sn \<union> set (to_publish s)"
  "set (to_send (queue_send n s)) = set_option n \<union> set (to_send s)"
  by (auto simp: queue_publish_def queue_send_def split: option.splits)

lemma take_meta_eq:
  "take_meta sn b = (m, b') \<Longrightarrow> pending b' = pending b \<and> handles b' = handles b \<and> notices b' = notices b \<and>
     set (external b') \<subseteq> set (external b) \<and> m = row_where (\<lambda>m. xm_id m = sn_id sn) (external b)"
  by (cases "approval_state_terminal (sn_state sn)") (auto simp: take_meta_def)

lemma requested_notice_simps [simp]: "nt_id (requested_notice m) = xm_id m" "nt_state (requested_notice m) = Requested"
  by (simp_all add: requested_notice_def)

lemma notice_of_simps [simp]: "nt_id (notice_of m sn) = sn_id sn" "nt_state (notice_of m sn) = sn_state sn"
  by (simp_all add: notice_of_def)

lemma register_fields [simp]:
  "pending (register m b) = pending b" "handles (register m b) = handles b"
  "notices (register m b) = notices b" "entry_of i (register m b) = entry_of i b"
  "set (external (register m b)) = insert m {x \<in> set (external b). xm_id x \<noteq> xm_id m}"
  by (auto simp: register_def entry_of_def)

lemma send_fields [simp]:
  "pending (send_notice n b) = pending b" "handles (send_notice n b) = handles b"
  "external (send_notice n b) = external b" "notices (send_notice n b) = notices b @ [n]"
  "entry_of i (send_notice n b) = entry_of i b"
  by (simp_all add: send_notice_def entry_of_def)

lemma remove_fields [simp]:
  "pending (remove_handle i b) = pending b" "external (remove_handle i b) = external b"
  "notices (remove_handle i b) = notices b" "entry_of k (remove_handle i b) = entry_of k b"
  "handles (remove_handle i b) = drop_where (\<lambda>h. h_id h = i) (handles b)"
  by (simp_all add: remove_handle_def entry_of_def)

lemma pending_cong: "pending b = pending b' \<Longrightarrow> table_ok b = table_ok b'"
  by (simp add: table_ok_def)

lemma entry_of_cong: "pending b = pending b' \<Longrightarrow> entry_of i b = entry_of i b'"
  by (simp add: entry_of_def)

text \<open>What one step does to the entries.\<close>

lemma step_entries:
  assumes "broker_step fp s s'" and "base_ok s"
  shows "table_ok (sys s') \<and>
    (\<forall>i x y. entry_of i (sys s) = Some x \<longrightarrow> entry_of i (sys s') = Some y \<longrightarrow> evolves x y)"
  using assms
proof (induction rule: broker_step.induct)
  case (step_request i s t)
  then have i: "i \<notin> en_id ` set (pending (sys s))" by (auto simp: base_ok_def mentioned_def)
  have "entry_of i (sys s) = None" using i by (auto simp: entry_of_def row_where_None)
  then show ?case
    using step_request request_table_ok[OF _ i] entry_of_prune
    by (auto simp: base_ok_def entry_of_request[OF i] dest!: entry_of_prune split: if_splits)
next
  case (step_resolve t i a resp sc s r sn b)
  then have ok: "table_ok (sys s)" by (simp add: base_ok_def)
  from step_resolve(1) ok show ?case
  proof (cases rule: resolve_entry_cases)
    case (sent x y)
    then have id: "en_id y = i" using entry_of_Some by (auto simp: evolves_def)
    have "table_ok (set_entry i (\<lambda>_. y) (sys s))" by (rule table_ok_set_entry[OF ok sent(4) id])
    then show ?thesis
      using sent entry_of_set_entry[OF id sent(1)] by (auto simp: table_ok_def)
  next
    case (lost x y)
    then have id: "en_id y = i" using entry_of_Some by (auto simp: evolves_def)
    have "table_ok (set_entry i (\<lambda>_. y) (sys s))" by (rule table_ok_set_entry[OF ok lost(4) id])
    then show ?thesis using lost entry_of_set_entry[OF id lost(1)] by auto
  qed (use ok in auto)
next
  case (step_move t i st err s r b)
  then have ok: "table_ok (sys s)" by (simp add: base_ok_def)
  from step_move(1) ok show ?case
  proof (cases rule: move_entry_cases)
    case (moved x y)
    then have id: "en_id y = i" using entry_of_Some by (auto simp: evolves_def)
    have "table_ok (set_entry i (\<lambda>_. y) (sys s))" by (rule table_ok_set_entry[OF ok moved(4) id])
    then show ?thesis using moved entry_of_set_entry[OF id moved(1)] by auto
  qed (use ok in auto)
next
  case (step_publish s ps sn qs m b)
  have "pending b = pending (sys s)" using take_meta_eq[OF step_publish(2)] by simp
  then show ?case
    using step_publish(3) entry_of_cong[of b "sys s"] pending_cong[of b "sys s"] by (simp add: base_ok_def)
qed (simp_all add: base_ok_def table_ok_def)

end
