(* ===== verification/Broker_Invariant.thy ===== *)
theory Broker_Invariant
  imports Broker_Steps
begin

text \<open>
  The invariants of the approval broker in every state its steps reach: the handles and the answers
  in them, the metadata kept for observers, and the notices announced so far.
\<close>

section \<open>Ids\<close>

lemma snapshot_simps [simp]: "sn_id (en_snapshot x) = en_id x" "sn_state (en_snapshot x) = en_state x"
  by (simp_all add: en_id_def en_state_def)

lemma set_entry_id_set:
  assumes "entry_of i b = Some x" and "evolves x y"
  shows "en_id ` set (pending (set_entry i (\<lambda>_. y) b)) = en_id ` set (pending b)"
    and "en_id y = i" and "i \<in> en_id ` set (pending b)"
proof -
  show id: "en_id y = i" using assms entry_of_Some[of i b x] by (simp add: evolves_def)
  show "en_id ` set (pending (set_entry i (\<lambda>_. y) b)) = en_id ` set (pending b)"
    using set_entry_ids[OF id, of b] by (metis image_set)
  show "i \<in> en_id ` set (pending b)" using entry_of_Some[OF assms(1)] by auto
qed

lemma fill_handle_ids: "map h_id (handles (fill_handle i d b)) = map h_id (handles b)"
  by (simp add: fill_handle_def)

lemma fill_handle_id_set: "h_id ` set (handles (fill_handle i d b)) = h_id ` set (handles b)"
  using fill_handle_ids[of i d b] by (metis image_set)

lemma resolved_ids:
  assumes "resolve_entry fp t i a resp sc b = (r, sn, b')" and "table_ok b"
  shows "en_id ` set (pending b') = en_id ` set (pending b) \<and> h_id ` set (handles b') = h_id ` set (handles b) \<and>
     external b' = external b \<and> notices b' = notices b \<and>
     (\<forall>x \<in> set_option sn. sn_id x \<in> en_id ` set (pending b) \<and> sn_state x \<noteq> Requested)"
  using assms
proof (cases rule: resolve_entry_cases)
  case (sent x y)
  then show ?thesis
    by (simp add: set_entry_id_set[OF sent(1,3)] fill_handle_id_set)
next
  case (lost x y)
  then show ?thesis
    by (simp add: set_entry_id_set[OF lost(1,3)])
qed auto

lemma moved_ids:
  assumes "move_entry t i st err b = (r, b')" and "table_ok b"
  shows "en_id ` set (pending b') = en_id ` set (pending b) \<and> handles b' = handles b \<and>
     external b' = external b \<and> notices b' = notices b \<and>
     (\<forall>x \<in> set_option (changed_snapshot r). sn_id x \<in> en_id ` set (pending b) \<and> sn_state x \<noteq> Requested)"
  using assms
proof (cases rule: move_entry_cases)
  case (moved x y)
  moreover have "st \<noteq> Requested" using moved(2) by (auto simp: allowed_def)
  ultimately show ?thesis
    by (simp add: set_entry_id_set[OF moved(1,3)] changed_snapshot_def)
qed auto

lemma prune_external: "set (external (prune_terminal b)) \<subseteq> set (external b)"
  by (auto simp: prune_terminal_def Let_def)

lemma step_mentioned:
  assumes "broker_step fp s s'" and "base_ok s"
  shows "mentioned s' \<subseteq> used s'"
  using assms
proof (induction rule: broker_step.induct)
  case (step_request i s t)
  then have i: "i \<notin> en_id ` set (pending (sys s))" by (auto simp: base_ok_def mentioned_def)
  have "xm_id ` set (external (prune_terminal (sys s))) \<subseteq> used s"
      "en_id ` set (pending (prune_terminal (sys s))) \<subseteq> used s"
    using step_request(2) image_mono[OF prune_external, of xm_id "sys s"]
      image_mono[OF prune_pending, of en_id "sys s"]
    unfolding base_ok_def mentioned_def by (meson le_sup_iff order_trans)+
  then show ?case
    using step_request by (auto simp: base_ok_def mentioned_def request_pending[OF i])
next
  case (step_register m s x)
  have "xm_id m \<in> en_id ` set (pending (sys s))" 
    using entry_of_Some[OF step_register(1)] by (metis image_eqI)
  then show ?case using step_register by (auto simp: base_ok_def mentioned_def)
next
  case (step_resolve t i a resp sc s r sn b)
  then have "table_ok (sys s)" by (simp add: base_ok_def)
  from resolved_ids[OF step_resolve(1) this] step_resolve(2) show ?case
    by (auto simp: base_ok_def mentioned_def)
next
  case (step_move t i st err s r b)
  then have "table_ok (sys s)" by (simp add: base_ok_def)
  from moved_ids[OF step_move(1) this] step_move(2) show ?case
    by (auto simp: base_ok_def mentioned_def)
next
  case (step_publish s ps sn qs m b)
  note b = take_meta_eq[OF step_publish(2)]
  have "xm_id ` set (external b) \<subseteq> used s"
    using step_publish(3) b image_mono[of "set (external b)" "set (external (sys s))" xm_id]
    unfolding base_ok_def mentioned_def by (meson le_sup_iff order_trans)
  then show ?case
    using b step_publish(1,3) by (auto simp: base_ok_def mentioned_def)
next
  case (step_send s ps n qs)
  then show ?case by (auto simp: base_ok_def mentioned_def)
next
  case (step_drop i s)
  then show ?case by (auto simp: base_ok_def mentioned_def)
qed

lemma step_base_ok: "broker_step fp s s' \<Longrightarrow> base_ok s \<Longrightarrow> base_ok s'"
  using step_entries step_mentioned by (auto simp: base_ok_def)

lemma reachable_base_ok: "broker_reachable fp s \<Longrightarrow> base_ok s"
proof (induction rule: broker_reachable.induct)
  case reach_start
  show ?case
    by (simp add: base_ok_def start_system_def empty_broker_def table_ok_def mentioned_def)
next
  case (reach_step s s')
  then show ?case using step_base_ok by blast
qed

section \<open>Handles\<close>

text \<open>An open approval is waited for, and its handle is empty; an answer in a handle is the
  decision of the entry; a denial is one-shot.\<close>

definition handles_ok :: "broker \<Rightarrow> bool" where
  "handles_ok b \<longleftrightarrow> distinct (map h_id (handles b)) \<and>
     (\<forall>x \<in> set (pending b). en_state x = Requested \<longrightarrow> has_handle (en_id x) b) \<and>
     (\<forall>h \<in> set (handles b). \<forall>d. h_value h = Some d \<longrightarrow>
        (\<not> approved d \<longrightarrow> scope d = Once) \<and>
        (\<forall>x. entry_of (h_id h) b = Some x \<longrightarrow> en_decision x = Some (approved d)))"

lemma has_handle_iff: "has_handle i b \<longleftrightarrow> i \<in> h_id ` set (handles b)"
  by (auto simp: has_handle_def list_ex_iff)

lemma has_handle_fill [simp]: "has_handle k (fill_handle i d b) = has_handle k b"
  by (simp add: has_handle_iff fill_handle_id_set)

lemma has_handle_remove [simp]: "has_handle k (remove_handle i b) \<longleftrightarrow> k \<noteq> i \<and> has_handle k b"
  by (auto simp: has_handle_iff)

text \<open>An evolving entry keeps what the handles say of it.\<close>

lemma handles_ok_set_entry:
  assumes "handles_ok b" and "table_ok b" and "entry_of i b = Some x" and "evolves x y"
    and "en_state y \<noteq> Requested"
  shows "handles_ok (set_entry i (\<lambda>_. y) b)"
proof -
  have id: "en_id y = i" using assms(3,4) entry_of_Some by (auto simp: evolves_def)
  have "en_decision y = Some v" if "en_decision x = Some v" for v
    using assms(4) that by (auto simp: evolves_def)
  then show ?thesis
    using assms(1,3,5) entry_of_set_entry[OF id assms(3)]
    by (auto simp: handles_ok_def has_handle_iff dest!: set_entry_set)
qed

lemma handles_ok_fill:
  assumes "handles_ok b" and "entry_of i b = Some y" and "en_decision y = Some (approved d)"
    and "\<not> approved d \<longrightarrow> scope d = Once"
  shows "handles_ok (fill_handle i d b)"
  unfolding handles_ok_def
proof (intro conjI ballI allI impI)
  show "distinct (map h_id (handles (fill_handle i d b)))"
    using assms(1) by (simp add: handles_ok_def fill_handle_ids)
next
  fix h v
  assume h: "h \<in> set (handles (fill_handle i d b))" and v: "h_value h = Some v"
  from h consider "h \<in> set (handles b)" | "h_id h = i" "h_value h = Some d"
    by (auto simp: fill_handle_def set_set_where split: if_splits)
  then show "scope v = Once" if "\<not> approved v"
    by cases (use assms(1,4) v that in \<open>auto simp: handles_ok_def\<close>)
  from h consider "h \<in> set (handles b)" | "h_id h = i" "h_value h = Some d"
    by (auto simp: fill_handle_def set_set_where split: if_splits)
  then show "en_decision x = Some (approved v)" if "entry_of (h_id h) (fill_handle i d b) = Some x" for x
    by cases (use assms(1-3) v that in \<open>auto simp: handles_ok_def\<close>)
qed (use assms(1) in \<open>auto simp: handles_ok_def\<close>)

lemma step_handles_ok:
  assumes "broker_step fp s s'" and "base_ok s" and "handles_ok (sys s)"
  shows "handles_ok (sys s')"
  using assms
proof (induction rule: broker_step.induct)
  case (step_request i s t)
  then have i: "i \<notin> en_id ` set (pending (sys s))" and h: "i \<notin> h_id ` set (handles (sys s))"
    and ok: "table_ok (sys s)"
    by (auto simp: base_ok_def mentioned_def)
  then show ?case
    using step_request(3) prune_pending[of "sys s"]
    by (auto simp: handles_ok_def has_handle_iff request_pending[OF i] entry_of_request[OF i]
        dest: entry_of_prune split: if_splits)
next
  case (step_resolve t i a resp sc s r sn b)
  then have ok: "table_ok (sys s)" by (simp add: base_ok_def)
  from step_resolve(1) ok show ?case
  proof (cases rule: resolve_entry_cases)
    case (sent x y)
    then have id: "en_id y = i" using entry_of_Some by (auto simp: evolves_def)
    have "handles_ok (set_entry i (\<lambda>_. y) (sys s))"
      using handles_ok_set_entry[OF step_resolve(3) ok sent(1,3)] sent(5) by simp
    then show ?thesis
      using sent entry_of_set_entry[OF id sent(1), of i] by (simp add: handles_ok_fill)
  next
    case (lost x y)
    then show ?thesis
      using handles_ok_set_entry[OF step_resolve(3) ok lost(1,3)] by simp
  qed (use step_resolve(3) in auto)
next
  case (step_move t i st err s r b)
  then have ok: "table_ok (sys s)" by (simp add: base_ok_def)
  from step_move(1) ok show ?case
  proof (cases rule: move_entry_cases)
    case (moved x y)
    have "en_state y \<noteq> Requested" using moved(2,5) by (auto simp: allowed_def)
    then show ?thesis
      using handles_ok_set_entry[OF step_move(3) ok moved(1,3)] moved by simp
  qed (use step_move(3) in auto)
next
  case (step_publish s ps sn qs m b)
  note b = take_meta_eq[OF step_publish(2)]
  then have "entry_of k b = entry_of k (sys s)" for k by (simp add: entry_of_def)
  then show ?case using step_publish(4) b by (auto simp: handles_ok_def has_handle_iff)
next
  case (step_drop i s)
  have "en_id x \<noteq> i" if "x \<in> set (pending (sys s))" "en_state x = Requested" for x
    using step_drop(1,2) that entry_of_in[of "sys s" x] by (auto simp: base_ok_def table_ok_def)
  then show ?case
    using step_drop(3) by (auto simp: handles_ok_def intro: distinct_drop_where)
qed (auto simp: handles_ok_def has_handle_iff)

lemma reachable_handles_ok: "broker_reachable fp s \<Longrightarrow> handles_ok (sys s)"
proof (induction rule: broker_reachable.induct)
  case reach_start
  show ?case by (simp add: handles_ok_def start_system_def empty_broker_def)
next
  case (reach_step s s')
  then show ?case using step_handles_ok reachable_base_ok by blast
qed

section \<open>Announcements\<close>

text \<open>What has been announced, or is on its way to being, as (id, state).\<close>

definition notice_key :: "approval_notice \<Rightarrow> str \<times> approval_state" where
  "notice_key n = (nt_id n, nt_state n)"

definition snapshot_key :: "approval_snapshot \<Rightarrow> str \<times> approval_state" where
  "snapshot_key sn = (sn_id sn, sn_state sn)"

definition announced :: "system \<Rightarrow> (str \<times> approval_state) list" where
  "announced s = map notice_key (notices (sys s)) @ map notice_key (to_send s) @ map snapshot_key (to_publish s)"

definition announced_ok :: "system \<Rightarrow> bool" where
  "announced_ok s \<longleftrightarrow> distinct (announced s) \<and> (\<forall>sn \<in> set (to_publish s). sn_state sn \<noteq> Requested) \<and>
     (\<forall>i st x. (i, st) \<in> set (announced s) \<longrightarrow> entry_of i (sys s) = Some x \<longrightarrow> forward st (en_state x))"

lemma key_simps [simp]:
  "notice_key (notice_of m sn) = snapshot_key sn" "notice_key (requested_notice m) = (xm_id m, Requested)"
  "snapshot_key (en_snapshot x) = (en_id x, en_state x)"
  by (simp_all add: notice_key_def snapshot_key_def)

lemma announced_used: "base_ok s \<Longrightarrow> (i, st) \<in> set (announced s) \<Longrightarrow> i \<in> used s"
  by (auto simp: base_ok_def mentioned_def announced_def notice_key_def snapshot_key_def image_subset_iff)

lemma queue_publish_fields [simp]:
  "to_publish (queue_publish (Some sn) s) = sn # to_publish s" "queue_publish None s = s"
  by (simp_all add: queue_publish_def)

lemma queue_send_fields [simp]:
  "to_send (queue_send (Some n) s) = n # to_send s" "queue_send None s = s"
  by (simp_all add: queue_send_def)

text \<open>An entry that moves to a new state announces a state never announced for it.\<close>

lemma announced_ok_moved:
  assumes ok: "announced_ok s" and entry: "entry_of i (sys s) = Some x" and evo: "evolves x y"
    and new: "en_state y \<noteq> en_state x" "en_state y \<noteq> Requested"
    and b: "\<And>k. entry_of k b = entry_of k (set_entry i (\<lambda>_. y) (sys s))" "notices b = notices (sys s)"
  shows "announced_ok (queue_publish (Some (en_snapshot y)) (s\<lparr>sys := b\<rparr>))"
proof -
  have id: "en_id y = i" using entry evo entry_of_Some by (auto simp: evolves_def)
  have of: "entry_of k b = (if k = i then Some y else entry_of k (sys s))" for k
    by (simp add: b entry_of_set_entry[OF id entry])
  have fwd: "forward st (en_state x)" if "(i, st) \<in> set (announced s)" for st
    using ok entry that by (auto simp: announced_ok_def)
  have xy: "forward (en_state x) (en_state y)" using evo by (simp add: evolves_def)
  have fresh: "(i, en_state y) \<notin> set (announced s)"
    using fwd[of "en_state y"] xy new(1) forward_antisym by blast
  have ann: "announced (queue_publish (Some (en_snapshot y)) (s\<lparr>sys := b\<rparr>))
      = map notice_key (notices (sys s)) @ map notice_key (to_send s) @ (i, en_state y) # map snapshot_key (to_publish s)"
    by (simp add: announced_def b id)
  have fwd': "forward st (en_state y)" if "(i, st) \<in> set (announced s)" for st
    using fwd[OF that] xy by (rule forward_trans)
  show ?thesis
    unfolding announced_ok_def
  proof (intro conjI)
    show "distinct (announced (queue_publish (Some (en_snapshot y)) (s\<lparr>sys := b\<rparr>)))"
      using ok fresh unfolding ann by (auto simp: announced_ok_def announced_def)
    show "\<forall>sn \<in> set (to_publish (queue_publish (Some (en_snapshot y)) (s\<lparr>sys := b\<rparr>))). sn_state sn \<noteq> Requested"
      using ok new(2) by (auto simp: announced_ok_def)
    have "set (announced (queue_publish (Some (en_snapshot y)) (s\<lparr>sys := b\<rparr>)))
        = insert (i, en_state y) (set (announced s))"
      unfolding ann by (auto simp: announced_def)
    then show "\<forall>k st z. (k, st) \<in> set (announced (queue_publish (Some (en_snapshot y)) (s\<lparr>sys := b\<rparr>))) \<longrightarrow>
        entry_of k (sys (queue_publish (Some (en_snapshot y)) (s\<lparr>sys := b\<rparr>))) = Some z \<longrightarrow> forward st (en_state z)"
      using ok fwd' by (auto simp: of announced_ok_def split: if_splits)
  qed
qed

lemma announced_ok_same_entries:
  assumes "announced_ok s" and "set (announced s') \<subseteq> set (announced s)" and "distinct (announced s')"
    and "set (to_publish s') \<subseteq> set (to_publish s)"
    and "\<And>k x. entry_of k (sys s') = Some x \<Longrightarrow> k \<in> fst ` set (announced s') \<Longrightarrow> entry_of k (sys s) = Some x"
  shows "announced_ok s'"
  unfolding announced_ok_def
proof (intro conjI allI impI)
  fix i st x
  assume a: "(i, st) \<in> set (announced s')" and x: "entry_of i (sys s') = Some x"
  have "i \<in> fst ` set (announced s')" using a by force
  then show "forward st (en_state x)"
    using assms(1,2,5) a x unfolding announced_ok_def by blast
qed (use assms in \<open>auto simp: announced_ok_def\<close>)

lemma step_announced_ok:
  assumes "broker_step fp s s'" and "base_ok s" and "announced_ok s"
  shows "announced_ok s'"
  using assms
proof (induction rule: broker_step.induct)
  case (step_request i s t)
  then have i: "i \<notin> en_id ` set (pending (sys s))" and ok: "table_ok (sys s)"
    by (auto simp: base_ok_def mentioned_def)
  have same: "announced (s\<lparr>sys := request t i (sys s), used := insert i (used s)\<rparr>) = announced s"
    by (simp add: announced_def)
  show ?case
  proof (rule announced_ok_same_entries[OF step_request(3)])
    fix k x
    assume k: "entry_of k (sys (s\<lparr>sys := request t i (sys s), used := insert i (used s)\<rparr>)) = Some x"
      and "k \<in> fst ` set (announced (s\<lparr>sys := request t i (sys s), used := insert i (used s)\<rparr>))"
    then have "k \<noteq> i" using announced_used[OF step_request(2)] step_request(1) unfolding same by auto
    then show "entry_of k (sys s) = Some x"
      using k entry_of_prune[OF ok] by (simp add: entry_of_request[OF i])
  qed (use step_request(3) in \<open>auto simp: same announced_ok_def\<close>)
next
  case (step_register m s x)
  have "(xm_id m, Requested) \<notin> set (announced s)"
    using step_register(3,5) by (auto simp: announced_def announced_ok_def notice_key_def snapshot_key_def)
  moreover have "forward Requested (en_state z)" for z
    by (auto simp: forward_def)
  ultimately show ?case
    using step_register(5) by (auto simp: announced_ok_def announced_def)
next
  case (step_resolve t i a resp sc s r sn b)
  then have ok: "table_ok (sys s)" by (simp add: base_ok_def)
  from step_resolve(1) ok show ?case
  proof (cases rule: resolve_entry_cases)
    case unchanged
    then show ?thesis using step_resolve(3) by simp
  next
    case (sent x y)
    then show ?thesis
      using announced_ok_moved[OF step_resolve(3) sent(1,3), of b] by simp
  next
    case (lost x y)
    then show ?thesis
      using announced_ok_moved[OF step_resolve(3) lost(1,3), of b] by simp
  qed
next
  case (step_move t i st err s r b)
  then have ok: "table_ok (sys s)" by (simp add: base_ok_def)
  from step_move(1) ok show ?case
  proof (cases rule: move_entry_cases)
    case unchanged
    then show ?thesis using step_move(3) by simp
  next
    case (moved x y)
    have "en_state y \<noteq> Requested" using moved(2,5) by (auto simp: allowed_def)
    then show ?thesis
      using announced_ok_moved[OF step_move(3) moved(1,3), of b] moved by (simp add: changed_snapshot_def)
  qed
next
  case (step_publish s ps sn qs m b)
  note b = take_meta_eq[OF step_publish(2)]
  let ?s' = "queue_send (map_option (\<lambda>m. notice_of m sn) m) (s\<lparr>sys := b, to_publish := ps @ qs\<rparr>)"
  have ann: "announced ?s' = map notice_key (notices (sys s)) @ (case m of None \<Rightarrow> [] | Some _ \<Rightarrow> [snapshot_key sn])
      @ map notice_key (to_send s) @ map snapshot_key (ps @ qs)"
    using b by (simp add: announced_def split: option.splits)
  show ?case
  proof (rule announced_ok_same_entries[OF step_publish(4)])
    show "set (announced ?s') \<subseteq> set (announced s)"
      using step_publish(1) unfolding ann by (auto simp: announced_def split: option.splits)
    show "distinct (announced ?s')"
      using step_publish(1,4) unfolding ann by (auto simp: announced_def announced_ok_def split: option.splits)
    show "set (to_publish ?s') \<subseteq> set (to_publish s)" using step_publish(1) by auto
    show "entry_of k (sys s) = Some x" if "entry_of k (sys ?s') = Some x" for k x
      using that b entry_of_cong[of b "sys s"] by simp
  qed
next
  case (step_send s ps n qs)
  then show ?case
    by (intro announced_ok_same_entries[OF step_send(3)]) (auto simp: announced_def announced_ok_def)
next
  case (step_drop i s)
  then show ?case by (simp add: announced_ok_def announced_def)
qed

lemma reachable_announced_ok: "broker_reachable fp s \<Longrightarrow> announced_ok s"
proof (induction rule: broker_reachable.induct)
  case reach_start
  show ?case by (simp add: announced_ok_def announced_def start_system_def empty_broker_def)
next
  case (reach_step s s')
  then show ?case using step_announced_ok reachable_base_ok by blast
qed

section \<open>Metadata for observers\<close>

text \<open>Metadata is kept for an approval in the table that is open, or whose last notice is still on
  its way.\<close>

definition metas_ok :: "system \<Rightarrow> bool" where
  "metas_ok s \<longleftrightarrow> (\<forall>m \<in> set (external (sys s)). \<exists>x. entry_of (xm_id m) (sys s) = Some x \<and>
     (approval_state_terminal (en_state x) \<longrightarrow>
        (\<exists>sn \<in> set (to_publish s). sn_id sn = xm_id m \<and> approval_state_terminal (sn_state sn))))"

lemma metas_ok_moved:
  assumes "metas_ok s" and entry: "entry_of i (sys s) = Some x" and evo: "evolves x y"
    and b: "\<And>k. entry_of k b = entry_of k (set_entry i (\<lambda>_. y) (sys s))" "external b = external (sys s)"
  shows "metas_ok (queue_publish (Some (en_snapshot y)) (s\<lparr>sys := b\<rparr>))"
proof -
  have id: "en_id y = i" using entry evo entry_of_Some by (auto simp: evolves_def)
  show ?thesis
    using assms(1) unfolding metas_ok_def
    by (fastforce simp: b entry_of_set_entry[OF id entry] id)
qed

lemma step_metas_ok:
  assumes "broker_step fp s s'" and "base_ok s" and "metas_ok s"
  shows "metas_ok s'"
  using assms
proof (induction rule: broker_step.induct)
  case (step_request i s t)
  then have i: "i \<notin> en_id ` set (pending (sys s))" and ok: "table_ok (sys s)"
    by (auto simp: base_ok_def mentioned_def)
  have "entry_of (xm_id m) (prune_terminal (sys s)) = Some x"
    if m: "m \<in> set (external (prune_terminal (sys s)))" and x: "entry_of (xm_id m) (sys s) = Some x" for m x
  proof -
    have x': "x \<in> set (pending (sys s))" "en_id x = xm_id m" using entry_of_Some[OF x] by auto
    then have "x \<in> set (pending (prune_terminal (sys s)))"
      using m by (auto simp: prune_terminal_def Let_def image_iff split: if_splits)
    then show ?thesis
      using entry_of_in[of "prune_terminal (sys s)" x] prune_table_ok[OF ok] x'(2) by (simp add: table_ok_def)
  qed
  note kept = this
  show ?case
    unfolding metas_ok_def
  proof
    fix m
    assume "m \<in> set (external (sys (s\<lparr>sys := request t i (sys s), used := insert i (used s)\<rparr>)))"
    then have m: "m \<in> set (external (prune_terminal (sys s)))" by simp
    then obtain x where x: "entry_of (xm_id m) (sys s) = Some x" "approval_state_terminal (en_state x) \<longrightarrow>
        (\<exists>sn \<in> set (to_publish s). sn_id sn = xm_id m \<and> approval_state_terminal (sn_state sn))"
      using step_request(3) prune_external[of "sys s"] unfolding metas_ok_def by blast
    have "xm_id m \<noteq> i" using i entry_of_Some[OF x(1)] by (metis image_eqI)
    then show "\<exists>x. entry_of (xm_id m) (sys (s\<lparr>sys := request t i (sys s), used := insert i (used s)\<rparr>)) = Some x \<and>
        (approval_state_terminal (en_state x) \<longrightarrow>
          (\<exists>sn \<in> set (to_publish (s\<lparr>sys := request t i (sys s), used := insert i (used s)\<rparr>)).
             sn_id sn = xm_id m \<and> approval_state_terminal (sn_state sn)))"
      using x kept[OF m x(1)] by (simp add: entry_of_request[OF i])
  qed
next
  case (step_register m s x)
  then show ?case by (auto simp: metas_ok_def approval_state_terminal_def)
next
  case (step_resolve t i a resp sc s r sn b)
  then have ok: "table_ok (sys s)" by (simp add: base_ok_def)
  from step_resolve(1) ok show ?case
  proof (cases rule: resolve_entry_cases)
    case unchanged
    then show ?thesis using step_resolve(3) by simp
  next
    case (sent x y)
    then show ?thesis using metas_ok_moved[OF step_resolve(3) sent(1,3), of b] by simp
  next
    case (lost x y)
    then show ?thesis using metas_ok_moved[OF step_resolve(3) lost(1,3), of b] by simp
  qed
next
  case (step_move t i st err s r b)
  then have ok: "table_ok (sys s)" by (simp add: base_ok_def)
  from step_move(1) ok show ?case
  proof (cases rule: move_entry_cases)
    case unchanged
    then show ?thesis using step_move(3) by simp
  next
    case (moved x y)
    then show ?thesis
      using metas_ok_moved[OF step_move(3) moved(1,3), of b] by (simp add: changed_snapshot_def)
  qed
next
  case (step_publish s ps sn qs m b)
  note b = take_meta_eq[OF step_publish(2)]
  have of: "entry_of k b = entry_of k (sys s)" for k using b entry_of_cong[of b "sys s"] by simp
  show ?case
    unfolding metas_ok_def
  proof
    fix k
    assume "k \<in> set (external (sys (queue_send (map_option (\<lambda>m. notice_of m sn) m)
        (s\<lparr>sys := b, to_publish := ps @ qs\<rparr>))))"
    then have k: "k \<in> set (external b)" by simp
    then obtain x where x: "entry_of (xm_id k) (sys s) = Some x" "approval_state_terminal (en_state x) \<longrightarrow>
        (\<exists>sn \<in> set (to_publish s). sn_id sn = xm_id k \<and> approval_state_terminal (sn_state sn))"
      using step_publish(4) b unfolding metas_ok_def by blast
    have "approval_state_terminal (sn_state sn) \<Longrightarrow> xm_id k \<noteq> sn_id sn"
      using step_publish(2) k by (auto simp: take_meta_def)
    then show "\<exists>x. entry_of (xm_id k) (sys (queue_send (map_option (\<lambda>m. notice_of m sn) m)
        (s\<lparr>sys := b, to_publish := ps @ qs\<rparr>))) = Some x \<and> (approval_state_terminal (en_state x) \<longrightarrow>
          (\<exists>sn \<in> set (to_publish (queue_send (map_option (\<lambda>m. notice_of m sn) m)
             (s\<lparr>sys := b, to_publish := ps @ qs\<rparr>))). sn_id sn = xm_id k \<and> approval_state_terminal (sn_state sn)))"
      using x step_publish(1) by (auto simp: of)
  qed
next
  case (step_drop i s)
  then show ?case by (simp add: metas_ok_def)
qed (simp add: metas_ok_def)

lemma reachable_metas_ok: "broker_reachable fp s \<Longrightarrow> metas_ok s"
proof (induction rule: broker_reachable.induct)
  case reach_start
  show ?case by (simp add: metas_ok_def start_system_def empty_broker_def)
next
  case (reach_step s s')
  then show ?case using step_metas_ok reachable_base_ok by blast
qed

section \<open>Runs\<close>

lemma reachable_run: "broker_reachable fp s \<Longrightarrow> (broker_step fp)\<^sup>*\<^sup>* s t \<Longrightarrow> broker_reachable fp t"
  by (rotate_tac, induction rule: rtranclp_induct) (auto intro: reach_step)

text \<open>A pruned approval does not come back: its id has been given out.\<close>

lemma step_absent:
  assumes "broker_step fp s s'" and "base_ok s" and "i \<in> used s" and "entry_of i (sys s) = None"
  shows "i \<in> used s' \<and> entry_of i (sys s') = None"
  using assms
proof (induction rule: broker_step.induct)
  case (step_request k s t)
  then have k: "k \<notin> en_id ` set (pending (sys s))" and ok: "table_ok (sys s)" and "i \<noteq> k"
    by (auto simp: base_ok_def mentioned_def)
  then show ?case
    using step_request(3,4) entry_of_prune[OF ok, of i] by (auto simp: entry_of_request[OF k])
next
  case (step_resolve t k a resp sc s r sn b)
  then have ok: "table_ok (sys s)" by (simp add: base_ok_def)
  from step_resolve(1) ok show ?case
  proof (cases rule: resolve_entry_cases)
    case (sent x y)
    note id = set_entry_id_set(2)[OF sent(1,3)]
    show ?thesis using sent step_resolve(3,4) entry_of_set_entry[OF id sent(1), of i] by auto
  next
    case (lost x y)
    note id = set_entry_id_set(2)[OF lost(1,3)]
    show ?thesis using lost step_resolve(3,4) entry_of_set_entry[OF id lost(1), of i] by auto
  qed (use step_resolve in auto)
next
  case (step_move t k st err s r b)
  then have ok: "table_ok (sys s)" by (simp add: base_ok_def)
  from step_move(1) ok show ?case
  proof (cases rule: move_entry_cases)
    case (moved x y)
    note id = set_entry_id_set(2)[OF moved(1,3)]
    show ?thesis using moved step_move(3,4) entry_of_set_entry[OF id moved(1), of i] by auto
  qed (use step_move in auto)
next
  case (step_publish s ps sn qs m b)
  then show ?case using take_meta_eq[OF step_publish(2)] entry_of_cong[of b "sys s"] by simp
qed simp_all

lemma run_evolves:
  assumes "broker_reachable fp s" and "(broker_step fp)\<^sup>*\<^sup>* s t" and "entry_of i (sys s) = Some x"
    and "entry_of i (sys t) = Some y"
  shows "evolves x y"
proof -
  have "i \<in> used t \<and> (case entry_of i (sys t) of None \<Rightarrow> True | Some y \<Rightarrow> evolves x y)"
    using assms(2)
  proof (induction rule: rtranclp_induct)
    case base
    have "i \<in> mentioned s" using entry_of_Some[OF assms(3)] by (auto simp: mentioned_def)
    then show ?case using reachable_base_ok[OF assms(1)] assms(3) by (auto simp: base_ok_def)
  next
    case (step u v)
    have ok: "base_ok u" by (rule reachable_base_ok[OF reachable_run[OF assms(1) step(1)]])
    have "i \<in> used v" using step(2,3) by (cases rule: broker_step.cases) auto
    moreover have "case entry_of i (sys v) of None \<Rightarrow> True | Some y \<Rightarrow> evolves x y"
      using step_entries[OF step(2) ok] step_absent[OF step(2) ok] step(3) evolves_trans
      by (cases "entry_of i (sys u)"; cases "entry_of i (sys v)") auto
    ultimately show ?case by blast
  qed
  then show ?thesis using assms(4) by simp
qed

lemma evolves_closed: "evolves x y \<Longrightarrow> en_state x \<noteq> Requested \<Longrightarrow> en_state y \<noteq> Requested"
  by (cases "en_state x"; cases "en_state y")
     (simp_all add: evolves_def forward_def approval_state_terminal_def)

text \<open>An answer stays in its handle.\<close>

lemma step_handle_value:
  assumes "broker_step fp s s'" and "base_ok s" and "handles_ok (sys s)"
    and "\<forall>h \<in> set (handles (sys s)). h_id h = i \<longrightarrow> h_value h = Some d" and "i \<in> used s"
    and "\<forall>x. entry_of i (sys s) = Some x \<longrightarrow> en_state x \<noteq> Requested"
  shows "\<forall>h \<in> set (handles (sys s')). h_id h = i \<longrightarrow> h_value h = Some d"
  using assms
proof (induction rule: broker_step.induct)
  case (step_resolve t k a resp sc s r sn b)
  then have ok: "table_ok (sys s)" by (simp add: base_ok_def)
  from step_resolve(1) ok show ?case
  proof (cases rule: resolve_entry_cases)
    case (sent x y)
    then have "k \<noteq> i" using step_resolve(6) by auto
    then show ?thesis
      using sent step_resolve(4) by (auto simp: fill_handle_def set_set_where split: if_splits)
  next
    case (lost x y)
    then show ?thesis using step_resolve(4) by simp
  qed (use step_resolve in auto)
next
  case (step_move t k st err s r b)
  then have ok: "table_ok (sys s)" by (simp add: base_ok_def)
  show ?case using moved_ids[OF step_move(1) ok] step_move(4) by simp
next
  case (step_publish s ps sn qs m b)
  then show ?case using take_meta_eq[OF step_publish(2)] by simp
qed auto

lemma run_handle_value:
  assumes "broker_reachable fp s" and "(broker_step fp)\<^sup>*\<^sup>* s t" and "entry_of i (sys s) = Some x"
    and "en_state x \<noteq> Requested"
    and "\<forall>h \<in> set (handles (sys s)). h_id h = i \<longrightarrow> h_value h = Some d"
  shows "\<forall>h \<in> set (handles (sys t)). h_id h = i \<longrightarrow> h_value h = Some d"
proof -
  have "i \<in> used t \<and> (\<forall>y. entry_of i (sys t) = Some y \<longrightarrow> en_state y \<noteq> Requested) \<and>
      (\<forall>h \<in> set (handles (sys t)). h_id h = i \<longrightarrow> h_value h = Some d)"
    using assms(2)
  proof (induction rule: rtranclp_induct)
    case base
    have "i \<in> mentioned s" using entry_of_Some[OF assms(3)] by (auto simp: mentioned_def)
    then show ?case using reachable_base_ok[OF assms(1)] assms(3-5) by (auto simp: base_ok_def)
  next
    case (step u v)
    note reach = reachable_run[OF assms(1) step(1)]
    have "i \<in> used v" using step(2,3) by (cases rule: broker_step.cases) auto
    moreover have "\<forall>y. entry_of i (sys v) = Some y \<longrightarrow> en_state y \<noteq> Requested"
      using run_evolves[OF assms(1) rtranclp.rtrancl_into_rtrancl[OF step(1,2)] assms(3)]
        evolves_closed assms(4) by blast
    moreover have "\<forall>h \<in> set (handles (sys v)). h_id h = i \<longrightarrow> h_value h = Some d"
      using step_handle_value[OF step(2) reachable_base_ok[OF reach] reachable_handles_ok[OF reach]] step(3)
      by blast
    ultimately show ?case by blast
  qed
  then show ?thesis by blast
qed

section \<open>Methods as runs\<close>

text \<open>A method that runs alone is a sequence of steps, so what holds in every reachable state holds
  between calls.\<close>

definition quiet :: "system \<Rightarrow> bool" where
  "quiet s \<longleftrightarrow> to_publish s = [] \<and> to_send s = []"

lemma quiet_same:
  assumes "quiet s"
  shows "s\<lparr>sys := b, to_publish := []\<rparr> = s\<lparr>sys := b\<rparr>" and "s\<lparr>sys := b, to_send := []\<rparr> = s\<lparr>sys := b\<rparr>"
    and "s\<lparr>sys := b, used := u, to_send := []\<rparr> = s\<lparr>sys := b, used := u\<rparr>"
  using assms by (cases s; simp add: quiet_def)+

lemma publish_run:
  assumes "quiet s"
  shows "(broker_step fp)\<^sup>*\<^sup>* (s\<lparr>sys := b, to_publish := [sn]\<rparr>) (s\<lparr>sys := publish_notice sn b\<rparr>)"
proof -
  obtain m b' where m: "take_meta sn b = (m, b')" by fastforce
  let ?s1 = "queue_send (map_option (\<lambda>m. notice_of m sn) m) (s\<lparr>sys := b'\<rparr>)"
  have step: "broker_step fp (s\<lparr>sys := b, to_publish := [sn]\<rparr>) ?s1"
    using step_publish[of "s\<lparr>sys := b, to_publish := [sn]\<rparr>" "[]" sn "[]" m b' fp] m
    by (simp add: quiet_same[OF assms])
  show ?thesis
  proof (cases m)
    case None
    then show ?thesis using step m by (simp add: publish_notice_def r_into_rtranclp)
  next
    case (Some x)
    have "broker_step fp ?s1 (s\<lparr>sys := send_notice (notice_of x sn) b'\<rparr>)"
      using step_send[of ?s1 "[]" "notice_of x sn" "[]" fp] Some assms
      by (simp add: quiet_def queue_send_def quiet_same[OF assms])
    then show ?thesis
      using step m Some by (simp add: publish_notice_def converse_rtranclp_into_rtranclp)
  qed
qed

lemma transition_run:
  assumes "quiet s"
  shows "(broker_step fp)\<^sup>*\<^sup>* s (s\<lparr>sys := snd (transition t i st err (sys s))\<rparr>)"
proof -
  obtain r b where r: "move_entry t i st err (sys s) = (r, b)" by fastforce
  have step: "broker_step fp s (queue_publish (changed_snapshot r) (s\<lparr>sys := b\<rparr>))"
    by (rule step_move[OF r])
  show ?thesis
  proof (cases "changed_snapshot r")
    case None
    then have "snd (transition t i st err (sys s)) = b"
      using r by (auto simp: transition_def changed_snapshot_def split: option.splits prod.splits bool.splits)
    then show ?thesis using step None by (simp add: r_into_rtranclp)
  next
    case (Some sn)
    then have tr: "snd (transition t i st err (sys s)) = publish_notice sn b"
      using r by (auto simp: transition_def changed_snapshot_def split: option.splits prod.splits bool.splits)
    have "queue_publish (Some sn) (s\<lparr>sys := b\<rparr>) = s\<lparr>sys := b, to_publish := [sn]\<rparr>"
      using assms by (simp add: queue_publish_def quiet_def)
    then show ?thesis
      using step publish_run[OF assms, of fp sn b] Some tr by (simp add: converse_rtranclp_into_rtranclp)
  qed
qed

lemma resolve_run:
  assumes "quiet s"
  shows "(broker_step fp)\<^sup>*\<^sup>* s (s\<lparr>sys := snd (resolve_with_scope fp t i a resp sc (sys s))\<rparr>)"
proof -
  obtain r sn b where r: "resolve_entry fp t i a resp sc (sys s) = (r, sn, b)" by (metis prod_cases3)
  have step: "broker_step fp s (queue_publish sn (s\<lparr>sys := b\<rparr>))" by (rule step_resolve[OF r])
  show ?thesis
  proof (cases sn)
    case None
    then show ?thesis using step r by (simp add: resolve_with_scope_def r_into_rtranclp)
  next
    case (Some x)
    have "queue_publish (Some x) (s\<lparr>sys := b\<rparr>) = s\<lparr>sys := b, to_publish := [x]\<rparr>"
      using assms by (simp add: queue_publish_def quiet_def)
    then show ?thesis
      using step publish_run[OF assms, of fp x b] Some r
      by (simp add: resolve_with_scope_def converse_rtranclp_into_rtranclp)
  qed
qed

lemma request_external_run:
  assumes "quiet s" and "xm_id m \<notin> used s" and "base_ok s"
  shows "(broker_step fp)\<^sup>*\<^sup>* s
    (s\<lparr>sys := request_external t m (sys s), used := insert (xm_id m) (used s)\<rparr>)"
proof -
  let ?s1 = "s\<lparr>sys := request t (xm_id m) (sys s), used := insert (xm_id m) (used s)\<rparr>"
  let ?s2 = "?s1\<lparr>sys := register m (request t (xm_id m) (sys s)), to_send := [requested_notice m]\<rparr>"
  have i: "xm_id m \<notin> en_id ` set (pending (sys s))" and n: "xm_id m \<notin> nt_id ` set (notices (sys s))"
    using assms(2,3) by (auto simp: base_ok_def mentioned_def)
  have "broker_step fp s ?s1" by (rule step_request[OF assms(2)])
  moreover have "broker_step fp ?s1 ?s2"
  proof -
    have "entry_of (xm_id m) (sys ?s1) = Some (new_entry t (xm_id m))"
      by (simp add: entry_of_request[OF i])
    moreover have "\<forall>k \<in> set (notices (sys ?s1) @ to_send ?s1). nt_id k \<noteq> xm_id m"
      using assms(1) n unfolding quiet_def by (auto, metis image_eqI)
    moreover have "queue_send (Some (requested_notice m)) (?s1\<lparr>sys := register m (sys ?s1)\<rparr>) = ?s2"
      using assms(1) by (simp add: queue_send_def quiet_def)
    ultimately show ?thesis using step_register[of m ?s1 "new_entry t (xm_id m)" fp] by simp
  qed
  moreover have "broker_step fp ?s2
      (s\<lparr>sys := request_external t m (sys s), used := insert (xm_id m) (used s)\<rparr>)"
  proof -
    have "?s2\<lparr>sys := send_notice (requested_notice m) (sys ?s2), to_send := []\<rparr>
        = s\<lparr>sys := request_external t m (sys s), used := insert (xm_id m) (used s)\<rparr>"
      using assms(1) by (cases s) (simp add: quiet_def request_external_def)
    then show ?thesis using step_send[of ?s2 "[]" "requested_notice m" "[]" fp] by simp
  qed
  ultimately show ?thesis by (meson converse_rtranclp_into_rtranclp r_into_rtranclp)
qed

end
