(* ===== verification/Broker_Properties.thy ===== *)
theory Broker_Properties
  imports Broker_Invariant
begin

text \<open>
  What the approval broker guarantees under any interleaving of its callers, and a race it leaves
  open.
\<close>

section \<open>Examples\<close>

definition test_meta :: external_meta where
  "test_meta = \<lparr>xm_id = ''a'', xm_run = ''r'', xm_call = None, xm_name = ''shell'',
     xm_arguments = ''{}'', xm_effect = Command\<rparr>"

definition test_fp :: "json option \<Rightarrow> nat" where
  "test_fp r = (case r of None \<Rightarrow> 0 | Some _ \<Rightarrow> 1)"

definition asked :: system where
  "asked = start_system\<lparr>sys := request_external 1 test_meta (sys start_system), used := {''a''}\<rparr>"

lemma asked_reachable: "broker_reachable test_fp asked"
proof -
  have "broker_reachable test_fp start_system" by (rule reach_start)
  moreover have "quiet start_system" by (simp add: quiet_def start_system_def)
  moreover have "xm_id test_meta \<notin> used start_system" by (simp add: start_system_def)
  ultimately show ?thesis
    using reachable_run[OF _ request_external_run[of start_system test_meta test_fp 1]] reachable_base_ok
    by (simp add: asked_def test_meta_def start_system_def)
qed

definition asked_entry :: approval_entry where
  "asked_entry = new_entry 1 ''a''"

lemma asked_entry_of: "entry_of ''a'' (sys asked) = Some asked_entry"
  by code_simp

lemma asked_quiet: "quiet asked"
  by (simp add: asked_def quiet_def start_system_def)

definition answered :: system where
  "answered = asked\<lparr>sys := snd (resolve_with_scope test_fp 2 ''a'' False None ThreadScope (sys asked))\<rparr>"

lemma answered_run: "(broker_step test_fp)\<^sup>*\<^sup>* asked answered"
  unfolding answered_def by (rule resolve_run[OF asked_quiet])

definition answered_entry :: approval_entry where
  "answered_entry = transition_entry 2 Decided None (decide False 0 asked_entry)"

lemma answered_entry_of: "entry_of ''a'' (sys answered) = Some answered_entry"
  by code_simp

lemma answered_first: "fst (resolve_entry test_fp 2 ''a'' False None ThreadScope (sys asked)) = Resolved"
  by code_simp

lemma answered_second:
  "entry_of ''a'' (snd (snd (resolve_entry test_fp 2 ''a'' False None ThreadScope (sys asked)))) = Some answered_entry"
  by code_simp

section \<open>Properties\<close>

text \<open>C21. Approvals only progress. Whatever callers do meanwhile, an approval that is still in the
  table has moved forward along requested, decided, delivered, acknowledged, or has left to failed
  or canceled; a terminal approval is unchanged, and a decision once made is kept.\<close>

theorem approvals_only_progress:
  assumes "broker_reachable fp s" and "(broker_step fp)\<^sup>*\<^sup>* s t"
    and "entry_of i (sys s) = Some x" and "entry_of i (sys t) = Some y"
  shows "forward (en_state x) (en_state y) \<and>
    (approval_state_terminal (en_state x) \<longrightarrow> y = x) \<and>
    (\<forall>a. en_decision x = Some a \<longrightarrow> en_decision y = Some a) \<and>
    sn_decision (en_snapshot y) = map_option decision_name (en_decision y)"
proof -
  have "evolves x y" by (rule run_evolves[OF assms])
  moreover have "entry_ok y"
    using reachable_base_ok[OF reachable_run[OF assms(1,2)]] entry_of_Some[OF assms(4)]
    by (simp add: base_ok_def table_ok_def)
  ultimately show ?thesis by (auto simp: evolves_def entry_ok_def)
qed

theorem approvals_only_progress_witness: "forward (en_state asked_entry) (en_state answered_entry)"
  using approvals_only_progress[OF asked_reachable answered_run asked_entry_of answered_entry_of] by blast

text \<open>The first answer wins. Once an answer is accepted, whatever happens later, the handle
  that waits for it holds that answer, a denial always one-shot; the same answer given again is
  reported as already resolved, any other as a conflict or a failure, and neither changes
  anything.\<close>

theorem first_answer_wins:
  assumes "broker_reachable fp s"
    and "resolve_entry fp now_ms i a resp sc (sys s) = (Resolved, sn, b)"
    and "(broker_step fp)\<^sup>*\<^sup>* (queue_publish sn (s\<lparr>sys := b\<rparr>)) t"
    and "entry_of i (sys t) = Some y"
  shows "(\<forall>h \<in> set (handles (sys t)). h_id h = i \<longrightarrow>
       h_value h = Some \<lparr>approved = a, response = resp, scope = (if a then sc else Once)\<rparr>) \<and>
    resolve_entry fp t' i a' resp' sc' (sys t) =
      (if a' = a \<and> fp resp' = fp resp then AlreadyResolved
       else if en_state y = Failed \<or> en_state y = Canceled then ResolveFailed else Conflict, None, sys t)"
proof -
  let ?s1 = "queue_publish sn (s\<lparr>sys := b\<rparr>)"
  let ?d = "\<lparr>approved = a, response = resp, scope = (if a then sc else Once)\<rparr>"
  have reach: "broker_reachable fp ?s1" by (rule reach_step[OF assms(1) step_resolve[OF assms(2)]])
  have "table_ok (sys s)" using reachable_base_ok[OF assms(1)] by (simp add: base_ok_def)
  with assms(2) obtain x z where x: "entry_of i (sys s) = Some x" "evolves x z" "en_state z = Decided"
    and z: "en_decision z = Some a" "en_fingerprint z = Some (fp resp)"
    and b: "b = fill_handle i ?d (set_entry i (\<lambda>_. z) (sys s))"
    by (cases rule: resolve_entry_cases) auto
  have of: "entry_of i (sys ?s1) = Some z"
    using entry_of_set_entry[OF set_entry_id_set(2)[OF x(1,2)] x(1), of i] by (simp add: b)
  have evo: "evolves z y" by (rule run_evolves[OF reach assms(3) of assms(4)])
  have y: "en_state y \<noteq> Requested" "en_decision y = Some a" "en_fingerprint y = Some (fp resp)"
    using evolves_closed[OF evo] x(3) evo z by (simp_all add: evolves_def)
  have "handles (sys ?s1) = set_where (\<lambda>h. h_id h = i) (\<lambda>h. h\<lparr>h_value := Some ?d\<rparr>) (handles (sys s))"
    by (simp add: b fill_handle_def)
  then have "\<forall>h \<in> set (handles (sys ?s1)). h_id h = i \<longrightarrow> h_value h = Some ?d"
    by (simp only: ball_set_where) simp
  then have "\<forall>h \<in> set (handles (sys t)). h_id h = i \<longrightarrow> h_value h = Some ?d"
    by (intro run_handle_value[OF reach assms(3) of]) (use x(3) in simp)
  moreover have "resolve_entry fp t' i a' resp' sc' (sys t) =
      (if a' = a \<and> fp resp' = fp resp then AlreadyResolved
       else if en_state y = Failed \<or> en_state y = Canceled then ResolveFailed else Conflict, None, sys t)"
    unfolding resolve_entry_def assms(4) Let_def option.case using y by auto
  ultimately show ?thesis ..
qed

theorem first_answer_wins_witness:
  "resolve_entry test_fp 3 ''a'' True None Once
     (snd (snd (resolve_entry test_fp 2 ''a'' False None ThreadScope (sys asked)))) =
   (Conflict, None, snd (snd (resolve_entry test_fp 2 ''a'' False None ThreadScope (sys asked))))"
proof -
  obtain sn b where b: "resolve_entry test_fp 2 ''a'' False None ThreadScope (sys asked) = (Resolved, sn, b)"
    by (metis (no_types, lifting) answered_first prod.exhaust_sel)
  have of: "entry_of ''a'' b = Some answered_entry" using answered_second[unfolded b] by simp
  have "en_state answered_entry = Decided" by (simp add: answered_entry_def)
  then show ?thesis
    using first_answer_wins[OF asked_reachable b rtranclp.rtrancl_refl, of answered_entry 3 True None Once] of b
    by simp
qed

text \<open>Observers see each approval in each state at most once. In every reachable state no
  two notices agree in id and state, a notice names a state its approval has passed through, and
  an approval that is still open is waited for. When no call is under way, metadata is kept only for
  approvals that are not finished.\<close>

theorem notices_once:
  assumes "broker_reachable fp s"
  shows "distinct (map notice_key (notices (sys s))) \<and>
    (\<forall>n \<in> set (notices (sys s)). \<forall>x. entry_of (nt_id n) (sys s) = Some x \<longrightarrow>
       forward (nt_state n) (en_state x)) \<and>
    (\<forall>x \<in> set (pending (sys s)). en_state x = Requested \<longrightarrow> has_handle (en_id x) (sys s)) \<and>
    (quiet s \<longrightarrow> (\<forall>m \<in> set (external (sys s)). \<exists>x. entry_of (xm_id m) (sys s) = Some x \<and>
       \<not> approval_state_terminal (en_state x)))"
proof -
  have ann: "announced_ok s" by (rule reachable_announced_ok[OF assms])
  have "forward (nt_state n) (en_state x)"
    if "n \<in> set (notices (sys s))" "entry_of (nt_id n) (sys s) = Some x" for n x
  proof -
    have "(nt_id n, nt_state n) \<in> set (announced s)"
      using that(1) by (force simp: announced_def notice_key_def)
    then show ?thesis using ann that(2) unfolding announced_ok_def by blast
  qed
  moreover have "distinct (map notice_key (notices (sys s)))"
    using ann by (simp add: announced_ok_def announced_def)
  ultimately show ?thesis
    using reachable_handles_ok[OF assms] reachable_metas_ok[OF assms]
    by (auto simp: handles_ok_def metas_ok_def quiet_def)
qed

theorem notices_once_witness: "distinct (map notice_key (notices (sys answered)))"
  using notices_once[OF reachable_run[OF asked_reachable answered_run]] by blast

text \<open>A request can be announced after its own failure. \<open>request_external\<close> makes the
  approval visible to \<open>fail_run\<close> before it sends the first notice, so a run that ends in between
  leaves observers with a failure followed by a request nobody can answer.\<close>

theorem request_announced_after_failure:
  "\<exists>s. broker_reachable fp s \<and> quiet s \<and>
     map notice_key (notices (sys s)) = [(''a'', Failed), (''a'', Requested)] \<and>
     (\<exists>x. entry_of ''a'' (sys s) = Some x \<and> approval_state_terminal (en_state x))"
proof -
  let ?b1 = "request 1 ''a'' empty_broker"
  let ?b2 = "register test_meta ?b1"
  let ?n = "requested_notice test_meta"
  let ?x = "transition_entry 2 Failed (Some ''run ended'') ((new_entry 1 ''a'')\<lparr>en_sender := False\<rparr>)"
  let ?b3 = "set_entry ''a'' (\<lambda>_. ?x) ?b2"
  let ?f = "notice_of test_meta (en_snapshot ?x)"
  let ?b4 = "snd (take_meta (en_snapshot ?x) ?b3)"
  define s1 where "s1 = start_system\<lparr>sys := ?b1, used := {''a''}\<rparr>"
  define s2 where "s2 = s1\<lparr>sys := ?b2, to_send := [?n]\<rparr>"
  define s3 where "s3 = s2\<lparr>sys := ?b3, to_publish := [en_snapshot ?x]\<rparr>"
  define s4 where "s4 = s2\<lparr>sys := ?b4, to_send := [?f, ?n]\<rparr>"
  define s5 where "s5 = s2\<lparr>sys := send_notice ?f ?b4, to_send := [?n]\<rparr>"
  define s6 where "s6 = s2\<lparr>sys := send_notice ?n (send_notice ?f ?b4), to_send := []\<rparr>"
  have e1: "entry_of ''a'' ?b1 = Some (new_entry 1 ''a'')" by code_simp
  have r1: "broker_reachable fp s1"
    using reach_step[OF reach_start step_request[of "''a''" start_system fp 1]]
    by (simp add: s1_def start_system_def)
  have st2: "broker_step fp s1 s2"
    using step_register[of test_meta s1 "new_entry 1 ''a''" fp] e1
    by (simp add: s1_def s2_def start_system_def test_meta_def queue_send_def empty_broker_def)
  have st3: "broker_step fp s2 s3"
  proof -
    have "move_entry 2 ''a'' Failed (Some ''run ended'') (sys s2) = (Some (en_snapshot ?x, True), ?b3)"
      using e1 by (simp add: s2_def move_entry_def allowed_def approval_state_terminal_def Let_def)
    then show ?thesis
      using step_move[of 2 "''a''" Failed "Some ''run ended''" s2 "Some (en_snapshot ?x, True)" ?b3 fp]
      by (simp add: s3_def s2_def s1_def start_system_def changed_snapshot_def queue_publish_def)
  qed
  have "take_meta (en_snapshot ?x) ?b3 = (Some test_meta, ?b4)"
    by code_simp
  then have st4: "broker_step fp s3 s4"
    using step_publish[of s3 "[]" "en_snapshot ?x" "[]" "Some test_meta" ?b4 fp]
    by (simp add: s3_def s4_def s2_def s1_def start_system_def queue_send_def)
  have st5: "broker_step fp s4 s5"
    using step_send[of s4 "[]" ?f "[?n]" fp] by (simp add: s4_def s5_def s2_def)
  have st6: "broker_step fp s5 s6"
    using step_send[of s5 "[]" ?n "[]" fp] by (simp add: s5_def s6_def s2_def)
  have "broker_reachable fp s6"
    by (rule reach_step[OF reach_step[OF reach_step[OF reach_step[OF reach_step[OF r1 st2] st3] st4] st5] st6])
  moreover have "quiet s6" by (simp add: quiet_def s6_def s2_def s1_def start_system_def)
  moreover have "map notice_key (notices (sys s6)) = [(''a'', Failed), (''a'', Requested)]"
    by (simp add: s6_def) code_simp
  moreover have "entry_of ''a'' (sys s6) = Some ?x" by (simp add: s6_def) code_simp
  ultimately show ?thesis by (auto simp: approval_state_terminal_def)
qed

end
