(* ===== verification/Control_Approvals.thy ===== *)
theory Control_Approvals
  imports Ledger_Runs Allowances Approval_Broker
begin

text \<open>
  \<open>RunManager\<close>'s approval commands (crates/milim-server/src/control/approvals.rs): the composition of
  the ledger's approval rows, the broker and the per-thread rules. The three stores and the events
  emitted to clients are one record; an error leaves the effects of the calls before it, as in the
  code.
\<close>

section \<open>State\<close>

datatype live_event =
    TimelineAppended timeline_row
  | AllowancesUpdated str "allowance list"

record control =
  ct_ledger :: ledger
  ct_broker :: broker
  ct_rules :: json_state
  ct_live :: "live_event list"

text \<open>What the manager takes from outside beside the store's \<open>env\<close>: the shell of the host, the digest
  of a response, and a new uuid per call.\<close>

record control_env =
  ce_env :: env
  ce_host :: dialect
  ce_fp :: "json option \<Rightarrow> nat"
  ce_uuid :: str

type_synonym 'a control_op = "control \<Rightarrow> (error + 'a) \<times> control"

definition cbind :: "'a control_op \<Rightarrow> ('a \<Rightarrow> 'b control_op) \<Rightarrow> 'b control_op" where
  "cbind m f c = (case m c of (Inl err, c') \<Rightarrow> (Inl err, c') | (Inr x, c') \<Rightarrow> f x c')"

definition creturn :: "error + 'a \<Rightarrow> 'a control_op" where
  "creturn r c = (r, c)"

definition on_ledger :: "(ledger \<Rightarrow> (error + 'a) \<times> ledger) \<Rightarrow> 'a control_op" where
  "on_ledger f c = (case f (ct_ledger c) of (r, st) \<Rightarrow> (r, c\<lparr>ct_ledger := st\<rparr>))"

definition on_broker :: "(broker \<Rightarrow> 'a \<times> broker) \<Rightarrow> 'a control_op" where
  "on_broker f c = (case f (ct_broker c) of (r, b) \<Rightarrow> (Inr r, c\<lparr>ct_broker := b\<rparr>))"

definition on_rules :: "(json_state \<Rightarrow> (error + 'a) \<times> json_state) \<Rightarrow> 'a control_op" where
  "on_rules f c = (case f (ct_rules c) of (r, m) \<Rightarrow> (r, c\<lparr>ct_rules := m\<rparr>))"

definition emit :: "live_event \<Rightarrow> unit control_op" where
  "emit ev c = (Inr (), c\<lparr>ct_live := ct_live c @ [ev]\<rparr>)"

text \<open>The timeline row is appended first; then the event is built from it, which parses its data.\<close>

definition persist_and_emit ::
  "control_env \<Rightarrow> str \<Rightarrow> str option \<Rightarrow> str \<Rightarrow> json \<Rightarrow> timeline_row control_op" where
  "persist_and_emit e thread run ty data =
     cbind (on_ledger (control_append_timeline (ce_env e) thread (ce_uuid e) run ty (env_show (ce_env e) data)))
       (\<lambda>r. case env_parse (ce_env e) (t_data r) of
          Inl err \<Rightarrow> creturn (Inl (Other err))
        | Inr _ \<Rightarrow> cbind (emit (TimelineAppended r)) (\<lambda>_. creturn (Inr r)))"

section \<open>Commands\<close>

definition required_payload_string :: "json \<Rightarrow> str \<Rightarrow> error + str" where
  "required_payload_string payload key =
     (case Option.bind (jget key payload) as_str of
        None \<Rightarrow> Inl (InvalidRequest (''payload.'' @ key @ '' must be a non-empty string''))
      | Some s \<Rightarrow>
          (if trim s = [] then Inl (InvalidRequest (''payload.'' @ key @ '' must be a non-empty string''))
           else Inr (trim s)))"

datatype command_status = Applied | ConflictStatus

record command_result =
  cr_command :: str
  cr_status :: command_status
  cr_thread :: "str option"
  cr_run :: "str option"
  cr_message :: "str option"
  cr_data :: json

text \<open>The rule an approved answer for the whole chat would create; \<open>unwrap_or_default\<close> reads a missing
  or ill-typed member as the empty string.\<close>

definition text_member :: "str \<Rightarrow> json \<Rightarrow> str" where
  "text_member k v = (case Option.bind (jget k v) as_str of None \<Rightarrow> [] | Some s \<Rightarrow> s)"

definition thread_allowance_for_approval :: "control_env \<Rightarrow> approval_row \<Rightarrow> bool \<Rightarrow> error + allowance" where
  "thread_allowance_for_approval e durable pre =
     (let r = (case env_parse (ce_env e) (a_request durable) of Inl _ \<Rightarrow> JNull | Inr v \<Rightarrow> v);
          name = text_member ''name'' r;
          args = text_member ''arguments'' r;
          by_prefix = (if pre then prefix_allowance_for (ce_env e) (ce_host e) (a_kind durable) name args else None)
      in case by_prefix of
           Some rule \<Rightarrow> Inr rule
         | None \<Rightarrow>
             (case allowance_for (ce_env e) (a_kind durable) name args of
                Some rule \<Rightarrow> Inr rule
              | None \<Rightarrow> Inl (InvalidRequest
                  ''this approval cannot be allowed for the whole chat; approve it once instead'')))"

definition emit_approval_allowances :: "str \<Rightarrow> allowance list \<Rightarrow> unit control_op" where
  "emit_approval_allowances thread rules = emit (AllowancesUpdated thread rules)"

definition record_approval_allowance :: "control_env \<Rightarrow> str \<Rightarrow> allowance \<Rightarrow> unit control_op" where
  "record_approval_allowance e thread rule =
     cbind (on_rules (record_rule (ce_env e) thread rule (now (ce_env e))))
       (\<lambda>changed. case changed of
          None \<Rightarrow> creturn (Inr ())
        | Some rules \<Rightarrow> emit_approval_allowances thread rules)"

definition revoke_approval_allowances :: "control_env \<Rightarrow> str \<Rightarrow> str list option \<Rightarrow> allowance list control_op" where
  "revoke_approval_allowances e thread keys =
     cbind (on_rules (revoke_rules (ce_env e) thread keys))
       (\<lambda>rules. cbind (emit_approval_allowances thread rules) (\<lambda>_. creturn (Inr rules)))"

definition parse_decision :: "json \<Rightarrow> error + (str \<times> bool)" where
  "parse_decision payload =
     ebind (required_payload_string payload ''decision'') (\<lambda>d.
       if d = ''approve'' then Inr (d, True)
       else if d = ''deny'' then Inr (d, False)
       else Inl (InvalidRequest ''payload.decision must be approve or deny''))"

definition parse_match :: "json \<Rightarrow> error + bool" where
  "parse_match payload =
     (case Option.bind (jget ''allowance_match'' payload) as_str of
        None \<Rightarrow> Inr False
      | Some s \<Rightarrow>
          (if s = ''exact'' then Inr False
           else if s = ''prefix'' then Inr True
           else Inl (InvalidRequest ''payload.allowance_match must be exact or prefix'')))"

definition parse_scope :: "control_env \<Rightarrow> json \<Rightarrow> approval_row \<Rightarrow> bool \<Rightarrow> bool \<Rightarrow> error + allowance option" where
  "parse_scope e payload durable a pre =
     (case Option.bind (jget ''scope'' payload) as_str of
        None \<Rightarrow> Inr None
      | Some s \<Rightarrow>
          (if s = ''once'' then Inr None
           else if s = ''thread'' then
             (if a then ebind (thread_allowance_for_approval e durable pre) (\<lambda>rule. Inr (Some rule))
              else Inr None)
           else Inl (InvalidRequest ''payload.scope must be once or thread'')))"

definition state_name :: "approval_state \<Rightarrow> str" where
  "state_name s = (case s of Requested \<Rightarrow> ''requested'' | Decided \<Rightarrow> ''decided''
     | Delivered \<Rightarrow> ''delivered'' | Acknowledged \<Rightarrow> ''acknowledged'' | Failed \<Rightarrow> ''failed''
     | Canceled \<Rightarrow> ''canceled'')"

definition opt_json :: "str option \<Rightarrow> json" where
  "opt_json v = (case v of None \<Rightarrow> JNull | Some s \<Rightarrow> JStr s)"

definition snapshot_members :: "approval_snapshot \<Rightarrow> (str \<times> json) list" where
  "snapshot_members sn =
     [(''approval_id'', JStr (sn_id sn)), (''state'', JStr (state_name (sn_state sn))),
      (''decision'', opt_json (sn_decision sn)), (''error'', opt_json (sn_error sn)),
      (''created_at_ms'', JInt (sn_created sn)), (''updated_at_ms'', JInt (sn_updated sn))]"

definition scope_name :: "allowance option \<Rightarrow> str" where
  "scope_name rule = (if rule = None then ''once'' else ''thread'')"

definition answered_row :: "control_env \<Rightarrow> str \<Rightarrow> bool \<Rightarrow> allowance option \<Rightarrow> approval_row \<Rightarrow> approval_row" where
  "answered_row e decision a rule durable = durable\<lparr>
     a_status := (if a then ''approved'' else ''denied''),
     a_decision := Some (env_show (ce_env e) (mk_obj
       [(''decision'', JStr decision), (''scope'', JStr (scope_name rule)),
        (''allowance'', opt_json (map_option al_key rule))])),
     a_resolved := Some (now (ce_env e))\<rparr>"

definition resolved_item :: "str \<Rightarrow> str \<Rightarrow> approval_snapshot \<Rightarrow> allowance option \<Rightarrow> json" where
  "resolved_item approval_id decision sn rule = mk_obj
     [(''approval_id'', JStr approval_id), (''decision'', JStr decision),
      (''status'', JStr (state_name (sn_state sn))), (''scope'', JStr (scope_name rule))]"

definition applied_result ::
  "str \<Rightarrow> approval_row \<Rightarrow> approval_snapshot \<Rightarrow> allowance option \<Rightarrow> command_result" where
  "applied_result command_id row sn rule =
     \<lparr>cr_command = command_id, cr_status = Applied, cr_thread = Some (a_thread row),
      cr_run = Some (a_run row), cr_message = None,
      cr_data = mk_obj (snapshot_members sn @ [(''scope'', JStr (scope_name rule))]
        @ (case rule of None \<Rightarrow> [] | Some r \<Rightarrow> [(''allowance'', rule_json r)]))\<rparr>"

definition record_granted :: "control_env \<Rightarrow> str \<Rightarrow> allowance option \<Rightarrow> unit control_op" where
  "record_granted e thread rule =
     (case rule of None \<Rightarrow> creturn (Inr ()) | Some r \<Rightarrow> record_approval_allowance e thread r)"

text \<open>After the wait for delivery: the row, the rule, the timeline item and the result.\<close>

definition finish_resolve ::
  "control_env \<Rightarrow> str \<Rightarrow> str \<Rightarrow> str \<Rightarrow> bool \<Rightarrow> allowance option \<Rightarrow> approval_row \<Rightarrow> approval_snapshot
     \<Rightarrow> command_result control_op" where
  "finish_resolve e command_id approval_id decision a rule durable sn =
     (if sn_state sn \<noteq> Delivered \<and> sn_state sn \<noteq> Acknowledged then
        creturn (Inl (Upstream (case sn_error sn of None \<Rightarrow> ''approval delivery failed'' | Some err \<Rightarrow> err)))
      else
        cbind (on_ledger (control_put_approval (ce_env e) (answered_row e decision a rule durable))) (\<lambda>_.
        cbind (record_granted e (a_thread durable) rule) (\<lambda>_.
        cbind (persist_and_emit e (a_thread durable) (Some (a_run durable)) ''approval_resolved''
                 (resolved_item approval_id decision sn rule)) (\<lambda>_.
        creturn (Inr (applied_result command_id durable sn rule))))))"

text \<open>The wait itself. \<open>meanwhile\<close> is what other tasks do until this one goes on.\<close>

definition await_delivery ::
  "control_env \<Rightarrow> (control \<Rightarrow> control) \<Rightarrow> str \<Rightarrow> str \<Rightarrow> str \<Rightarrow> bool \<Rightarrow> allowance option \<Rightarrow> approval_row
     \<Rightarrow> command_result control_op" where
  "await_delivery e meanwhile command_id approval_id decision a rule durable =
     cbind (\<lambda>c. (Inr (), meanwhile c)) (\<lambda>_.
     cbind (on_broker (wait_for_delivery (now (ce_env e)) approval_id)) (\<lambda>waited. case waited of
         None \<Rightarrow> creturn (Inl (NotFound (''approval '' @ approval_id)))
       | Some sn \<Rightarrow> finish_resolve e command_id approval_id decision a rule durable sn))"

definition conflict_result :: "str \<Rightarrow> approval_row \<Rightarrow> command_result" where
  "conflict_result command_id durable =
     \<lparr>cr_command = command_id, cr_status = ConflictStatus, cr_thread = Some (a_thread durable),
      cr_run = Some (a_run durable),
      cr_message = Some ''approval was already resolved with a different decision'', cr_data = JNull\<rparr>"

definition answer_broker ::
  "control_env \<Rightarrow> (control \<Rightarrow> control) \<Rightarrow> str \<Rightarrow> json \<Rightarrow> str \<Rightarrow> str \<Rightarrow> bool \<Rightarrow> allowance option \<Rightarrow> approval_row
     \<Rightarrow> command_result control_op" where
  "answer_broker e meanwhile command_id payload approval_id decision a rule durable =
     cbind (on_broker (resolve_with_scope (ce_fp e) (now (ce_env e)) approval_id a (jget ''response'' payload)
              (if rule = None then Once else ThreadScope))) (\<lambda>resolved.
       if resolved = Conflict then creturn (Inr (conflict_result command_id durable))
       else if resolved = Missing \<or> resolved = ResolveFailed then
         creturn (Inl (InvalidRequest ''approval is no longer deliverable to its runtime''))
       else await_delivery e meanwhile command_id approval_id decision a rule durable)"

text \<open>\<open>approval.resolve\<close>.\<close>

definition resolve_approval ::
  "control_env \<Rightarrow> (control \<Rightarrow> control) \<Rightarrow> str \<Rightarrow> json \<Rightarrow> command_result control_op" where
  "resolve_approval e meanwhile command_id payload =
     cbind (creturn (required_payload_string payload ''approval_id'')) (\<lambda>approval_id.
     cbind (creturn (parse_decision payload)) (\<lambda>(decision, a).
     cbind (on_ledger (\<lambda>st. (control_approval st approval_id, st))) (\<lambda>found. case found of
         None \<Rightarrow> creturn (Inl (NotFound (''approval '' @ approval_id)))
       | Some durable \<Rightarrow>
           cbind (creturn (parse_match payload)) (\<lambda>pre.
           cbind (creturn (parse_scope e payload durable a pre)) (\<lambda>rule.
           answer_broker e meanwhile command_id payload approval_id decision a rule durable)))))"

section \<open>Automatic approval and closing\<close>

definition auto_resolve_allowed_approval ::
  "control_env \<Rightarrow> str \<Rightarrow> str \<Rightarrow> str \<Rightarrow> str \<Rightarrow> str \<Rightarrow> str option control_op" where
  "auto_resolve_allowed_approval e thread approval_id kind name args c =
     (case matching (ce_env e) (ce_host e) (load_rules (ce_env e) thread (ct_rules c)) kind name args of
        None \<Rightarrow> (Inr None, c)
      | Some rule \<Rightarrow>
          cbind (on_broker (resolve_with_scope (ce_fp e) (now (ce_env e)) approval_id True None ThreadScope))
            (\<lambda>resolved.
               if resolved \<noteq> Resolved then creturn (Inr None)
               else
                 cbind (on_ledger (\<lambda>st. (control_approval st approval_id, st))) (\<lambda>found.
                 cbind (case found of
                     None \<Rightarrow> creturn (Inr ())
                   | Some durable \<Rightarrow>
                       on_ledger (control_put_approval (ce_env e) (durable\<lparr>a_status := ''approved'',
                         a_decision := Some (env_show (ce_env e) (mk_obj
                           [(''decision'', JStr ''approve''), (''scope'', JStr ''thread''),
                            (''allowance'', JStr (al_key rule)), (''automatic'', JBool True)])),
                         a_resolved := Some (now (ce_env e))\<rparr>)))
                   (\<lambda>_. creturn (Inr (Some (al_key rule)))))) c)"

text \<open>The approvals a finished run left pending are closed in the ledger, failed in the broker, and
  resolved in the timeline, one after the other; the first error stops.\<close>

fun close_each :: "control_env \<Rightarrow> str \<Rightarrow> str \<Rightarrow> approval_row list \<Rightarrow> unit control_op" where
  "close_each e thread run [] c = (Inr (), c)"
| "close_each e thread run (a # rest) c =
     cbind (on_broker (fail_approval (now (ce_env e)) (a_id a)
              ''the run ended before this approval was resolved'')) (\<lambda>_.
     cbind (persist_and_emit e thread (Some run) ''approval_resolved'' (mk_obj
              [(''approval_id'', JStr (a_id a)), (''decision'', JStr ''deny''),
               (''status'', JStr ''cancelled''), (''reason'', JStr ''run_ended'')])) (\<lambda>_.
     close_each e thread run rest)) c"

definition cancel_run_approvals :: "control_env \<Rightarrow> str \<Rightarrow> str \<Rightarrow> str \<Rightarrow> unit control_op" where
  "cancel_run_approvals e thread run run_status =
     cbind (on_ledger (control_cancel_run_approvals (ce_env e) run (env_show (ce_env e) (mk_obj
              [(''decision'', JStr ''deny''), (''reason'', JStr ''run_ended''),
               (''run_status'', JStr run_status)]))))
       (close_each e thread run)"

definition fail_pending_approval :: "control_env \<Rightarrow> str \<Rightarrow> str \<Rightarrow> unit control_op" where
  "fail_pending_approval e approval_id message =
     cbind (on_ledger (\<lambda>st. (control_approval st approval_id, st))) (\<lambda>found. case found of
         None \<Rightarrow> creturn (Inr ())
       | Some durable \<Rightarrow>
           (if a_status durable = ''pending'' then
              on_ledger (control_put_approval (ce_env e) (durable\<lparr>a_status := ''failed'',
                a_decision := Some (env_show (ce_env e) (mk_obj
                  [(''decision'', JStr ''deny''), (''reason'', JStr message)])),
                a_resolved := Some (now (ce_env e))\<rparr>))
            else creturn (Inr ())))"

end
