(* ===== verification/Control_Properties.thy ===== *)
theory Control_Properties
  imports Control_Approvals Broker_Steps Allowance_Facts
begin

text \<open>
  What the composition of ledger, broker and rules guarantees: an approval nobody was asked about is
  backed by a rule of its thread, and a rule exists only for an answer its runtime received.
\<close>

section \<open>Sequencing\<close>

lemma cbind_iff:
  "cbind m f c = (r, c') \<longleftrightarrow>
     (\<exists>err. m c = (Inl err, c') \<and> r = Inl err) \<or> (\<exists>x c1. m c = (Inr x, c1) \<and> f x c1 = (r, c'))"
  by (auto simp: cbind_def split: prod.splits sum.splits)

lemma cbind_InrE:
  assumes "cbind m f c = (Inr y, c')"
  obtains x c1 where "m c = (Inr x, c1)" and "f x c1 = (Inr y, c')"
  using assms by (auto simp: cbind_iff)

lemma creturn_iff [simp]: "creturn r c = (r', c') \<longleftrightarrow> r = r' \<and> c = c'"
  by (simp add: creturn_def)

lemma on_ledger_iff:
  "on_ledger f c = (r, c') \<longleftrightarrow> (\<exists>st. f (ct_ledger c) = (r, st) \<and> c' = c\<lparr>ct_ledger := st\<rparr>)"
  by (auto simp: on_ledger_def split: prod.splits)

lemma on_broker_iff:
  "on_broker f c = (r, c') \<longleftrightarrow> (\<exists>x b. f (ct_broker c) = (x, b) \<and> r = Inr x \<and> c' = c\<lparr>ct_broker := b\<rparr>)"
  by (auto simp: on_broker_def split: prod.splits)

lemma on_rules_iff:
  "on_rules f c = (r, c') \<longleftrightarrow> (\<exists>m. f (ct_rules c) = (r, m) \<and> c' = c\<lparr>ct_rules := m\<rparr>)"
  by (auto simp: on_rules_def split: prod.splits)

lemma emit_iff: "emit ev c = (r, c') \<longleftrightarrow> r = Inr () \<and> c' = c\<lparr>ct_live := ct_live c @ [ev]\<rparr>"
  by (auto simp: emit_def)

lemma persist_rules: "persist_and_emit e t run ty data c = (r, c') \<Longrightarrow> ct_rules c' = ct_rules c"
proof -
  assume "persist_and_emit e t run ty data c = (r, c')"
  then consider err where "on_ledger (control_append_timeline (ce_env e) t (ce_uuid e) run ty
        (env_show (ce_env e) data)) c = (Inl err, c')"
    | x c1 where "on_ledger (control_append_timeline (ce_env e) t (ce_uuid e) run ty
        (env_show (ce_env e) data)) c = (Inr x, c1)"
      "(case env_parse (ce_env e) (t_data x) of Inl err \<Rightarrow> creturn (Inl (Other err))
        | Inr _ \<Rightarrow> cbind (emit (TimelineAppended x)) (\<lambda>_. creturn (Inr x))) c1 = (r, c')"
    unfolding persist_and_emit_def cbind_iff by blast
  then show ?thesis
  proof cases
    case 1
    then show ?thesis by (auto simp: on_ledger_iff)
  next
    case (2 x c1)
    then show ?thesis
      by (cases "env_parse (ce_env e) (t_data x)") (auto simp: on_ledger_iff cbind_iff emit_iff)
  qed
qed

lemma publish_entry [simp]: "entry_of i (publish_notice sn b) = entry_of i b"
proof -
  have "entry_of i (snd (take_meta sn b)) = entry_of i b" by (simp add: take_meta_def entry_of_def)
  then show ?thesis
    by (cases "take_meta sn b") (auto simp: publish_notice_def send_notice_def entry_of_def split: option.splits)
qed

text \<open>An accepted answer decides an open entry.\<close>

lemma resolved_entry:
  assumes "resolve_with_scope fp t i a resp sc b = (Resolved, b')" and "table_ok b"
  obtains x y where "entry_of i b = Some x" "en_state x = Requested" "entry_of i b' = Some y"
    "en_state y = Decided" "en_decision y = Some a"
proof -
  obtain r sn b1 where r: "resolve_entry fp t i a resp sc b = (r, sn, b1)" by (metis prod_cases3)
  then have rs: "r = Resolved" "b' = (case sn of None \<Rightarrow> b1 | Some x \<Rightarrow> publish_notice x b1)"
    using assms(1) by (auto simp: resolve_with_scope_def split: option.splits)
  from r assms(2) show thesis
  proof (cases rule: resolve_entry_cases)
    case (sent x y)
    have "en_id y = i" using sent(1,3) entry_of_Some by (auto simp: evolves_def)
    then have "entry_of i b' = Some y"
      using sent rs(2) entry_of_set_entry[of y i b x i] by simp
    then show thesis using that sent by blast
  qed (use rs in auto)
qed

section \<open>Rows\<close>

lemma row_where_set_where:
  "(\<And>r. p r \<Longrightarrow> p (f r)) \<Longrightarrow> row_where p (set_where p f t) = map_option f (row_where p t)"
  by (induction t) (auto simp: row_where_def set_where_def)

text \<open>Writing back an approval that was read shows the new status under its id.\<close>

lemma put_approval_status:
  assumes found: "control_approval st i = Inr (Some durable)"
    and put: "control_put_approval e (durable\<lparr>a_status := s, a_decision := d, a_resolved := t\<rparr>) st = (Inr x, st')"
  shows "\<exists>row. control_approval st' i = Inr (Some row) \<and> a_status row = s \<and> a_decision row = d"
proof -
  obtain k where k: "required_control_text i ''approval id'' = Inr k"
    and row: "row_where (\<lambda>a. a_id a = k) (approvals st) = Some durable"
    using found by (auto simp: control_approval_def)
  have id: "a_id durable = k" "durable \<in> set (approvals st)" using row_where_Some[OF row] by auto
  then have "list_ex (\<lambda>x. a_id x = a_id durable) (approvals st)" by (auto simp: list_ex_iff)
  then have "st' = set_approvals (\<lambda>x. a_id x = k)
      (\<lambda>x. x\<lparr>a_status := s, a_decision := d, a_resolved := t\<rparr>) st"
    using put id(1)
    by (auto simp: control_put_approval_def checked_def transact_def finish_control_transaction_def
        split: sum.splits if_splits)
  then have "row_where (\<lambda>a. a_id a = k) (approvals st')
      = map_option (\<lambda>x. x\<lparr>a_status := s, a_decision := d, a_resolved := t\<rparr>) (Some durable)"
    using row row_where_set_where[of "\<lambda>a. a_id a = k"
        "\<lambda>x. x\<lparr>a_status := s, a_decision := d, a_resolved := t\<rparr>" "approvals st"]
    by (simp add: set_approvals_def)
  then show ?thesis using k by (simp add: control_approval_def)
qed

section \<open>Which calls touch the rules\<close>

lemma record_approval_rules:
  "record_approval_allowance e t rule c = (r, c') \<Longrightarrow>
     ct_rules c' = snd (record_rule (ce_env e) t rule (now (ce_env e)) (ct_rules c))"
  by (auto simp: record_approval_allowance_def cbind_iff on_rules_iff emit_approval_allowances_def emit_iff
      split: option.splits)

definition keeps_rules :: "'a control_op \<Rightarrow> bool" where
  "keeps_rules m \<longleftrightarrow> (\<forall>c r c'. m c = (r, c') \<longrightarrow> ct_rules c' = ct_rules c)"

lemma keeps_rules_ops [simp, intro]:
  "keeps_rules (creturn r)" "keeps_rules (on_ledger f)" "keeps_rules (on_broker g)" "keeps_rules (emit ev)"
  "keeps_rules (persist_and_emit e t run ty data)"
  by (auto simp: keeps_rules_def on_ledger_iff on_broker_iff emit_iff dest: persist_rules)

lemma keeps_rules_cbind: "keeps_rules m \<Longrightarrow> (\<And>x. keeps_rules (f x)) \<Longrightarrow> keeps_rules (cbind m f)"
  unfolding keeps_rules_def cbind_iff by metis

text \<open>A sequence that changes the rules got past every call that does not.\<close>

lemma changed_later:
  assumes "cbind m f c = (r, c')" and "ct_rules c' \<noteq> ct_rules c" and "keeps_rules m"
  obtains x c1 where "m c = (Inr x, c1)" "f x c1 = (r, c')" "ct_rules c1 = ct_rules c"
  using assms unfolding cbind_iff keeps_rules_def by metis

lemma changed_after_return:
  assumes "cbind (creturn v) f c = (r, c')" and "ct_rules c' \<noteq> ct_rules c"
  obtains x where "v = Inr x" "f x c = (r, c')"
  using changed_later[OF assms] by (auto simp: creturn_def)

lemma changed_before:
  assumes "cbind m f c = (r, c')" and "\<And>x. keeps_rules (f x)"
  obtains r1 c1 where "m c = (r1, c1)" "ct_rules c' = ct_rules c1"
  using assms unfolding cbind_iff keeps_rules_def by metis

lemma finish_resolve_rules:
  assumes "finish_resolve e cmd i decision a rule durable sn c = (r, c')" and "ct_rules c' \<noteq> ct_rules c"
  shows "sn_state sn \<in> {Delivered, Acknowledged} \<and>
    (\<exists>rl. rule = Some rl \<and>
       ct_rules c' = snd (record_rule (ce_env e) (a_thread durable) rl (now (ce_env e)) (ct_rules c)))"
proof -
  have sn: "sn_state sn \<in> {Delivered, Acknowledged}"
    using assms by (auto simp: finish_resolve_def)
  then have "\<not> (sn_state sn \<noteq> Delivered \<and> sn_state sn \<noteq> Acknowledged)" by blast
  note unf = assms(1)[unfolded finish_resolve_def Let_def if_not_P[OF this]]
  from unf assms(2) obtain c1 where c1: "ct_rules c1 = ct_rules c" and
    rest: "cbind (record_granted e (a_thread durable) rule) (\<lambda>_.
      cbind (persist_and_emit e (a_thread durable) (Some (a_run durable)) ''approval_resolved''
        (resolved_item i decision sn rule)) (\<lambda>_. creturn (Inr (applied_result cmd durable sn rule)))) c1 = (r, c')"
    by (rule changed_later) auto
  obtain r2 c2 where c2: "record_granted e (a_thread durable) rule c1 = (r2, c2)" "ct_rules c' = ct_rules c2"
    by (rule changed_before[OF rest]) (auto intro: keeps_rules_cbind)
  show ?thesis
  proof (cases rule)
    case None
    then show ?thesis using c2 c1 assms(2) by (simp add: record_granted_def)
  next
    case (Some rl)
    then have "record_approval_allowance e (a_thread durable) rl c1 = (r2, c2)"
      using c2(1) by (simp add: record_granted_def)
    from record_approval_rules[OF this] show ?thesis using sn Some c1 c2(2) by simp
  qed
qed

lemma answer_broker_rules:
  assumes "answer_broker e meanwhile cmd payload i decision a rule durable c = (r, c')"
    and same: "\<forall>d. ct_rules (meanwhile d) = ct_rules d" and changed: "ct_rules c' \<noteq> ct_rules c"
  shows "\<exists>rl resolved b sn b'. rule = Some rl \<and>
    resolve_with_scope (ce_fp e) (now (ce_env e)) i a (jget ''response'' payload) ThreadScope (ct_broker c)
      = (resolved, b) \<and> resolved \<in> {Resolved, AlreadyResolved} \<and>
    wait_for_delivery (now (ce_env e)) i (ct_broker (meanwhile (c\<lparr>ct_broker := b\<rparr>))) = (Some sn, b') \<and>
    sn_state sn \<in> {Delivered, Acknowledged} \<and>
    ct_rules c' = snd (record_rule (ce_env e) (a_thread durable) rl (now (ce_env e)) (ct_rules c))"
proof -
  obtain resolved b where b: "resolve_with_scope (ce_fp e) (now (ce_env e)) i a (jget ''response'' payload)
      (if rule = None then Once else ThreadScope) (ct_broker c) = (resolved, b)" by fastforce
  let ?c1 = "c\<lparr>ct_broker := b\<rparr>"
  have "(if resolved = Conflict then creturn (Inr (conflict_result cmd durable))
       else if resolved = Missing \<or> resolved = ResolveFailed then
         creturn (Inl (InvalidRequest ''approval is no longer deliverable to its runtime''))
       else await_delivery e meanwhile cmd i decision a rule durable) ?c1 = (r, c')"
    using assms(1) b by (simp add: answer_broker_def cbind_def on_broker_def)
  then have resolved: "resolved \<in> {Resolved, AlreadyResolved}"
    and rest: "await_delivery e meanwhile cmd i decision a rule durable ?c1 = (r, c')"
    using changed by (cases resolved; auto)+
  obtain waited b' where w: "wait_for_delivery (now (ce_env e)) i (ct_broker (meanwhile ?c1)) = (waited, b')"
    by fastforce
  let ?c2 = "(meanwhile ?c1)\<lparr>ct_broker := b'\<rparr>"
  have fin: "(case waited of None \<Rightarrow> creturn (Inl (NotFound (''approval '' @ i)))
       | Some sn \<Rightarrow> finish_resolve e cmd i decision a rule durable sn) ?c2 = (r, c')"
    using rest w by (cases waited) (simp_all add: await_delivery_def cbind_def on_broker_def)
  have rules: "ct_rules ?c2 = ct_rules c" using same by simp
  then obtain sn where sn: "waited = Some sn" "finish_resolve e cmd i decision a rule durable sn ?c2 = (r, c')"
    using fin changed by (cases waited) auto
  obtain rl where "sn_state sn \<in> {Delivered, Acknowledged}" "rule = Some rl"
      "ct_rules c' = snd (record_rule (ce_env e) (a_thread durable) rl (now (ce_env e)) (ct_rules c))"
    using finish_resolve_rules[OF sn(2)] changed rules by auto
  then show ?thesis using b resolved w sn(1) by auto
qed

section \<open>Examples\<close>

text \<open>A parser of four texts, enough for one request of one command.\<close>

definition ls_rule :: allowance where
  "ls_rule = \<lparr>al_key = ''command:ls'', al_tool = ''shell'', al_command = Some ''ls'', al_prefix = None,
     al_created = 7\<rparr>"

definition table_parse :: "str \<Rightarrow> str + json" where
  "table_parse s =
     (if s = ''args'' then Inr (JObj [(''command'', JStr ''ls'')])
      else if s = ''request'' then Inr (JObj [(''arguments'', JStr ''args''), (''name'', JStr ''shell'')])
      else if s = ''rules'' then Inr (rules_json [ls_rule])
      else if s = ''json'' then Inr JNull
      else Inl ''expected value'')"

definition table_env :: control_env where
  "table_env = \<lparr>ce_env = \<lparr>now = 7, commit_ok = True, random_epoch = (\<lambda>s. s), env_parse = table_parse,
       env_show = (\<lambda>_. ''json'')\<rparr>,
     ce_host = Posix, ce_fp = (\<lambda>_. 0), ce_uuid = ''item''\<rparr>"

definition ls_meta :: external_meta where
  "ls_meta = \<lparr>xm_id = ''a'', xm_run = ''r'', xm_call = None, xm_name = ''shell'',
     xm_arguments = ''args'', xm_effect = Command\<rparr>"

definition ls_request :: approval_row where
  "ls_request = \<lparr>a_id = ''a'', a_run = ''r'', a_thread = ''t'', a_kind = ''command'',
     a_request = ''request'', a_status = ''pending'', a_decision = None, a_created = 1, a_resolved = None\<rparr>"

definition ls_control :: control where
  "ls_control = \<lparr>ct_ledger = empty_ledger\<lparr>approvals := [ls_request]\<rparr>,
     ct_broker = request_external 1 ls_meta empty_broker, ct_rules = Map.empty, ct_live = []\<rparr>"

definition runtime_delivers :: "control \<Rightarrow> control" where
  "runtime_delivers c = c\<lparr>ct_broker := snd (mark_delivered 8 ''a'' (ct_broker c))\<rparr>"

definition allow_for_chat :: json where
  "allow_for_chat = JObj [(''approval_id'', JStr ''a''), (''decision'', JStr ''approve''),
     (''scope'', JStr ''thread'')]"

section \<open>Properties\<close>

text \<open>C32. An automatic approval is backed by a rule of its thread: the rule returned is stored for
  the thread and matches the request, the approval was open and is now decided in favour, the
  rules are as before, and the stored approval, if any, reads approved.\<close>

theorem automatic_approval_backed:
  assumes "auto_resolve_allowed_approval e thread i kind name args c = (Inr (Some key), c')"
    and "table_ok (ct_broker c)"
  shows "(\<exists>rule. rule \<in> set (load_rules (ce_env e) thread (ct_rules c)) \<and> al_key rule = key \<and>
       matching (ce_env e) (ce_host e) (load_rules (ce_env e) thread (ct_rules c)) kind name args = Some rule) \<and>
    (\<exists>x y. entry_of i (ct_broker c) = Some x \<and> en_state x = Requested \<and>
       entry_of i (ct_broker c') = Some y \<and> en_state y = Decided \<and> en_decision y = Some True) \<and>
    ct_rules c' = ct_rules c \<and>
    (\<forall>row. control_approval (ct_ledger c') i = Inr (Some row) \<longrightarrow> a_status row = ''approved'')"
proof -
  obtain rule where rule: "matching (ce_env e) (ce_host e) (load_rules (ce_env e) thread (ct_rules c)) kind name args = Some rule"
    using assms(1) by (auto simp: auto_resolve_allowed_approval_def split: option.splits)
  then have "rule \<in> set (load_rules (ce_env e) thread (ct_rules c))"
    by (cases rule: matching_cases) simp_all
  moreover obtain b found where b: "resolve_with_scope (ce_fp e) (now (ce_env e)) i True None ThreadScope (ct_broker c)
      = (Resolved, b)" and found: "control_approval (ct_ledger c) i = Inr found" and key: "key = al_key rule"
    and put: "(case found of None \<Rightarrow> creturn (Inr ()) | Some durable \<Rightarrow>
         on_ledger (control_put_approval (ce_env e) (durable\<lparr>a_status := ''approved'',
           a_decision := Some (env_show (ce_env e) (mk_obj
             [(''decision'', JStr ''approve''), (''scope'', JStr ''thread''),
              (''allowance'', JStr (al_key rule)), (''automatic'', JBool True)])),
           a_resolved := Some (now (ce_env e))\<rparr>))) (c\<lparr>ct_broker := b\<rparr>) = (Inr (), c')"
    using assms(1) rule
    by (auto simp: auto_resolve_allowed_approval_def cbind_iff on_broker_iff on_ledger_iff split: if_splits)
  have row: "ct_broker c' = b \<and> ct_rules c' = ct_rules c \<and>
      (\<forall>row. control_approval (ct_ledger c') i = Inr (Some row) \<longrightarrow> a_status row = ''approved'')"
  proof (cases found)
    case None
    then show ?thesis using put found by auto
  next
    case (Some durable)
    then show ?thesis
      using put put_approval_status[OF found[unfolded Some]] by (fastforce simp: on_ledger_iff)
  qed
  obtain x y where "entry_of i (ct_broker c) = Some x" "en_state x = Requested" "entry_of i b = Some y"
      "en_state y = Decided" "en_decision y = Some True"
    using resolved_entry[OF b assms(2)] by blast
  ultimately show ?thesis using rule key row by auto
qed

theorem automatic_approval_backed_witness:
  "\<exists>y. entry_of ''a'' (ct_broker (snd (auto_resolve_allowed_approval table_env ''t'' ''a'' ''command'' ''shell'' ''args''
      (ls_control\<lparr>ct_rules := [state_key ''t'' \<mapsto> ''rules'']\<rparr>)))) = Some y \<and> en_decision y = Some True"
proof -
  let ?c = "ls_control\<lparr>ct_rules := [state_key ''t'' \<mapsto> ''rules'']\<rparr>"
  have "fst (auto_resolve_allowed_approval table_env ''t'' ''a'' ''command'' ''shell'' ''args'' ?c)
      = Inr (Some ''command:ls'')"
    by code_simp
  then have "auto_resolve_allowed_approval table_env ''t'' ''a'' ''command'' ''shell'' ''args'' ?c
      = (Inr (Some ''command:ls''), snd (auto_resolve_allowed_approval table_env ''t'' ''a'' ''command'' ''shell'' ''args'' ?c))"
    by (metis prod.collapse)
  moreover have "table_ok (ct_broker ?c)" by code_simp
  ultimately show ?thesis using automatic_approval_backed by blast
qed

text \<open>C33. A rule for the whole chat comes only from an answer that reached its runtime. When
  resolving an approval changes the stored rules, the answer was an approval with scope \<open>thread\<close>,
  the broker accepted it (or had accepted the same answer before), its decision was delivered or
  acknowledged, and the change is the recording of the rule the stored request gives.\<close>

theorem rule_recorded_after_delivery:
  assumes "resolve_approval e meanwhile cmd payload c = (r, c')"
    and "\<forall>d. ct_rules (meanwhile d) = ct_rules d" and "ct_rules c' \<noteq> ct_rules c"
  shows "\<exists>i durable pre rule resolved b sn b'.
    required_payload_string payload ''approval_id'' = Inr i \<and>
    parse_decision payload = Inr (''approve'', True) \<and>
    Option.bind (jget ''scope'' payload) as_str = Some ''thread'' \<and>
    control_approval (ct_ledger c) i = Inr (Some durable) \<and>
    thread_allowance_for_approval e durable pre = Inr rule \<and>
    resolve_with_scope (ce_fp e) (now (ce_env e)) i True (jget ''response'' payload) ThreadScope (ct_broker c)
      = (resolved, b) \<and> resolved \<in> {Resolved, AlreadyResolved} \<and>
    wait_for_delivery (now (ce_env e)) i (ct_broker (meanwhile (c\<lparr>ct_broker := b\<rparr>))) = (Some sn, b') \<and>
    sn_state sn \<in> {Delivered, Acknowledged} \<and>
    ct_rules c' = snd (record_rule (ce_env e) (a_thread durable) rule (now (ce_env e)) (ct_rules c))"
proof -
  note changed = assms(3)
  note unf = assms(1)[unfolded resolve_approval_def]
  from unf changed obtain i where i: "required_payload_string payload ''approval_id'' = Inr i" and
    u1: "cbind (creturn (parse_decision payload)) (\<lambda>(decision, a).
      cbind (on_ledger (\<lambda>st. (control_approval st i, st))) (\<lambda>found. case found of
          None \<Rightarrow> creturn (Inl (NotFound (''approval '' @ i)))
        | Some durable \<Rightarrow>
            cbind (creturn (parse_match payload)) (\<lambda>pre.
            cbind (creturn (parse_scope e payload durable a pre)) (\<lambda>rule.
            answer_broker e meanwhile cmd payload i decision a rule durable)))) c = (r, c')"
    by (rule changed_after_return)
  from u1 changed obtain decision a where d: "parse_decision payload = Inr (decision, a)" and
    u2: "cbind (on_ledger (\<lambda>st. (control_approval st i, st))) (\<lambda>found. case found of
          None \<Rightarrow> creturn (Inl (NotFound (''approval '' @ i)))
        | Some durable \<Rightarrow>
            cbind (creturn (parse_match payload)) (\<lambda>pre.
            cbind (creturn (parse_scope e payload durable a pre)) (\<lambda>rule.
            answer_broker e meanwhile cmd payload i decision a rule durable))) c = (r, c')"
    by (rule changed_after_return) auto
  obtain durable where durable: "control_approval (ct_ledger c) i = Inr (Some durable)" and
    u3: "cbind (creturn (parse_match payload)) (\<lambda>pre.
            cbind (creturn (parse_scope e payload durable a pre)) (\<lambda>rule.
            answer_broker e meanwhile cmd payload i decision a rule durable)) c = (r, c')"
  proof (rule changed_later[OF u2 changed])
    fix found c1
    assume "on_ledger (\<lambda>st. (control_approval st i, st)) c = (Inr found, c1)"
      and "(case found of None \<Rightarrow> creturn (Inl (NotFound (''approval '' @ i)))
        | Some durable \<Rightarrow> cbind (creturn (parse_match payload)) (\<lambda>pre.
            cbind (creturn (parse_scope e payload durable a pre)) (\<lambda>rule.
            answer_broker e meanwhile cmd payload i decision a rule durable))) c1 = (r, c')"
    then show thesis using changed that by (cases found) (auto simp: on_ledger_iff)
  qed auto
  from u3 changed obtain pre where
    u4: "cbind (creturn (parse_scope e payload durable a pre)) (\<lambda>rule.
            answer_broker e meanwhile cmd payload i decision a rule durable) c = (r, c')"
    by (rule changed_after_return)
  from u4 changed obtain rule where rule: "parse_scope e payload durable a pre = Inr rule" and
    u5: "answer_broker e meanwhile cmd payload i decision a rule durable c = (r, c')"
    by (rule changed_after_return)
  obtain rl resolved b sn b' where rl: "rule = Some rl"
    and res: "resolve_with_scope (ce_fp e) (now (ce_env e)) i a (jget ''response'' payload) ThreadScope
        (ct_broker c) = (resolved, b)" "resolved \<in> {Resolved, AlreadyResolved}"
      "wait_for_delivery (now (ce_env e)) i (ct_broker (meanwhile (c\<lparr>ct_broker := b\<rparr>))) = (Some sn, b')"
      "sn_state sn \<in> {Delivered, Acknowledged}"
      "ct_rules c' = snd (record_rule (ce_env e) (a_thread durable) rl (now (ce_env e)) (ct_rules c))"
    using answer_broker_rules[OF u5 assms(2) changed] by blast
  have "Option.bind (jget ''scope'' payload) as_str = Some ''thread''" and a: "a"
    and "thread_allowance_for_approval e durable pre = Inr rl"
    using rule rl by (auto simp: parse_scope_def split: option.splits if_splits)
  moreover have "decision = ''approve''"
    using d a by (auto simp: parse_decision_def split: if_splits)
  ultimately show ?thesis
    using i d durable res a
    by (intro exI[of _ i] exI[of _ durable] exI[of _ pre] exI[of _ rl] exI[of _ resolved] exI[of _ b]
        exI[of _ sn] exI[of _ b'] conjI) simp_all
qed

theorem rule_recorded_after_delivery_witness:
  "thread_allowance_for_approval table_env ls_request False = Inr (ls_rule\<lparr>al_created := 0\<rparr>) \<and>
   (\<exists>durable. control_approval (ct_ledger ls_control) ''a'' = Inr (Some durable))"
proof
  show "thread_allowance_for_approval table_env ls_request False = Inr (ls_rule\<lparr>al_created := 0\<rparr>)"
    by code_simp
  let ?r = "resolve_approval table_env runtime_delivers ''cmd'' allow_for_chat ls_control"
  have "ct_rules (snd ?r) (state_key ''t'') = Some ''json''" by code_simp
  moreover have "ct_rules ls_control (state_key ''t'') = None" by code_simp
  ultimately have "ct_rules (snd ?r) \<noteq> ct_rules ls_control" by auto
  moreover have "\<forall>d. ct_rules (runtime_delivers d) = ct_rules d" by (simp add: runtime_delivers_def)
  moreover have "?r = (fst ?r, snd ?r)" by simp
  ultimately have "\<exists>i durable. required_payload_string allow_for_chat ''approval_id'' = Inr i \<and>
      control_approval (ct_ledger ls_control) i = Inr (Some durable)"
    using rule_recorded_after_delivery by blast
  moreover have "required_payload_string allow_for_chat ''approval_id'' = Inr ''a''" by code_simp
  ultimately show "\<exists>durable. control_approval (ct_ledger ls_control) ''a'' = Inr (Some durable)" by simp
qed

end
