(* ===== verification/Provider_Errors.thy ===== *)
theory Provider_Errors
  imports Prelude
begin

text \<open>
  Classification of provider failures from their text (crates/milim-core/src/provider_error.rs) and
  the texts the HTTP adapters build. A \<open>u16\<close> status is \<open>nat\<close>: every value is a parsed number of three
  digits. The two readings of a decimal fraction as a number of seconds (\<open>parse::<f64>\<close> and what is
  computed from it) are parameters.
\<close>

section \<open>Searching text\<close>

text \<open>\<open>text[index + marker.len()..]\<close> for \<open>index = text.find(marker)\<close>.\<close>

fun after_first :: "str \<Rightarrow> str \<Rightarrow> str option" where
  "after_first m [] = (if m = [] then Some [] else None)"
| "after_first m (c # s) =
     (case strip_prefix m (c # s) of Some r \<Rightarrow> Some r | None \<Rightarrow> after_first m s)"

lemma after_first_length: "after_first m s = Some r \<Longrightarrow> length r + length m \<le> length s"
proof (induction m s rule: after_first.induct)
  case (2 m c s)
  then show ?case by (auto simp: strip_prefix_iff split: option.splits dest: arg_cong[of _ _ length])
qed (simp split: if_splits)

text \<open>The first occurrence of a marker whose first character is nowhere before it.\<close>

lemma after_first_fresh:
  "c \<notin> set p \<Longrightarrow> after_first (c # m) (p @ c # m @ s) = Some s"
proof (induction p)
  case Nil
  have "strip_prefix (c # m) (c # m @ s) = Some s" by (simp add: strip_prefix_iff)
  then show ?case by simp
qed auto

definition is_digit :: "char \<Rightarrow> bool" where
  "is_digit c \<longleftrightarrow> (let n = (of_char c :: nat) in 48 \<le> n \<and> n \<le> 57)"

definition digits_value :: "str \<Rightarrow> nat" where
  "digits_value s = foldl (\<lambda>n c. 10 * n + (of_char c - 48)) 0 s"

definition has_any :: "str \<Rightarrow> str list \<Rightarrow> bool" where
  "has_any text needles \<longleftrightarrow> list_ex (\<lambda>needle. contains needle text) needles"

section \<open>Status and delay\<close>

text \<open>The first three-digit status after an occurrence of the marker; a marker is never empty.\<close>

function status_after :: "str \<Rightarrow> str \<Rightarrow> nat option" where
  "status_after m text =
     (case (if m = [] then None else after_first m text) of
        None \<Rightarrow> None
      | Some rest \<Rightarrow>
          (let digits = takeWhile is_digit rest; n = digits_value digits
           in if length digits = 3 \<and> 400 \<le> n \<and> n < 600 then Some n else status_after m rest))"
  by pat_completeness auto
termination
proof (relation "measure (\<lambda>(m, t). length t)")
  fix m t rest and digits :: str and n :: nat
  assume "(if m = [] then None else after_first m t) = Some rest"
  then have "m \<noteq> []" and "length rest + length m \<le> length t"
    by (auto dest: after_first_length split: if_splits)
  then show "((m, rest), m, t) \<in> measure (\<lambda>(m, t). length t)" by (cases m) auto
qed simp

declare status_after.simps [simp del]

definition http_status :: "str \<Rightarrow> nat option" where
  "http_status text =
     first_some (\<lambda>m. status_after m text)
       [''-> '', ''http '', ''status code '', ''status: '', ''status '']"

text \<open>An occurrence of \<open>limit: 0\<close> that no digit and no dot continues. Two occurrences cannot
  overlap, so looking at every position finds the matches of \<open>match_indices\<close>.\<close>

fun zero_limit :: "str \<Rightarrow> bool" where
  "zero_limit [] = False"
| "zero_limit (c # s) =
     ((case strip_prefix ''limit: 0'' (c # s) of
         Some [] \<Rightarrow> True
       | Some (d # _) \<Rightarrow> \<not> (is_digit d \<or> d = CHR ''.'')
       | None \<Rightarrow> False) \<or> zero_limit s)"

definition has_zero_quota_limit :: "str \<Rightarrow> bool" where
  "has_zero_quota_limit text \<longleftrightarrow> contains ''quota'' text \<and> zero_limit text"

datatype delay_unit = Millis | Minutes | Seconds

text \<open>\<open>delay_secs\<close>: the whole seconds, at least one, of a number in a unit, \<open>None\<close> when the text is
  not a number. \<open>header_secs\<close>: the same of a header value that is no integer.\<close>

record float_env =
  delay_secs :: "str \<Rightarrow> delay_unit \<Rightarrow> nat option"
  header_secs :: "str \<Rightarrow> nat option"

definition delay_unit_of :: "str \<Rightarrow> delay_unit" where
  "delay_unit_of unit =
     (if starts_with ''ms'' unit then Millis
      else if starts_with ''min'' unit \<or> starts_with ''m'' unit then Minutes
      else Seconds)"

definition skip_delay_punctuation :: "str \<Rightarrow> str" where
  "skip_delay_punctuation =
     strip_ws (\<lambda>s. case s of [] \<Rightarrow> 0 | c # _ \<Rightarrow> if c = CHR 0x22 \<or> c = CHR '':'' then 1 else ws_len s)"

definition delay_at :: "float_env \<Rightarrow> str \<Rightarrow> str \<Rightarrow> nat option" where
  "delay_at e text marker =
     (case after_first marker text of
        None \<Rightarrow> None
      | Some found \<Rightarrow>
          (let rest = skip_delay_punctuation found;
               number = takeWhile (\<lambda>c. is_digit c \<or> c = CHR ''.'') rest
           in delay_secs e number (delay_unit_of (trim_start (drop (length number) rest)))))"

definition retry_after_secs :: "float_env \<Rightarrow> str \<Rightarrow> nat option" where
  "retry_after_secs e text =
     first_some (delay_at e text)
       [''retry after '', ''retry-after: '', ''retry-after '', ''retrydelay'', ''retry in '', ''try again in '']"

section \<open>Classification\<close>

datatype provider_error_kind =
  Auth | RateLimited | ContextLength | NoSuchModel | ProviderUnavailable | Quota | Unknown

record provider_error_info =
  pe_kind :: provider_error_kind
  pe_status :: "nat option"
  pe_retry_after :: "nat option"

definition says_quota :: "str \<Rightarrow> bool" where
  "says_quota text \<longleftrightarrow> has_any text
     [''insufficient_quota'', ''credit balance'', ''insufficient credit'', ''insufficient balance'',
      ''payment required'', ''out of credits'', ''billing_error'', ''enforced_spend_limit_reached'',
      ''reached your api usage limits'', ''reached your specified api usage limits'',
      ''reached your specified workspace api usage limits'']
   \<or> has_zero_quota_limit text"

definition says_exceeded :: "str \<Rightarrow> bool" where
  "says_exceeded text \<longleftrightarrow> has_any text [''exceeded your current quota'', ''quota exceeded'', ''billing'']"

definition says_context :: "str \<Rightarrow> bool" where
  "says_context text \<longleftrightarrow> has_any text
     [''context_length_exceeded'', ''context length'', ''context window'', ''context limit'',
      ''context size'', ''exceed_context_size'', ''maximum context'', ''maximum prompt length'',
      ''prompt is too long'', ''prompt too long'', ''too many tokens'', ''reduce the length'',
      ''input is too long'', ''exceeds the model's maximum'', ''maximum number of tokens allowed'']
   \<or> contains ''input token count'' text \<and> contains ''exceeds'' text"

definition says_auth :: "str \<Rightarrow> bool" where
  "says_auth text \<longleftrightarrow> has_any text
     [''invalid api key'', ''invalid_api_key'', ''incorrect api key'', ''invalid x-api-key'',
      ''api key not valid'', ''authentication_error'', ''unauthorized'', ''permission_denied'']"

definition says_no_model :: "str \<Rightarrow> bool" where
  "says_no_model text \<longleftrightarrow> has_any text
     [''model_not_found'', ''model not found'', ''unknown model'', ''no such model'', ''invalid model'']"

definition says_rate_limit :: "str \<Rightarrow> bool" where
  "says_rate_limit text \<longleftrightarrow> has_any text
     [''rate limit'', ''rate_limit'', ''ratelimit'', ''too many requests'', ''usage limit'',
      ''resource_exhausted'']"

definition says_unavailable :: "str \<Rightarrow> bool" where
  "says_unavailable text \<longleftrightarrow> has_any text
     [''overloaded'', ''service unavailable'', ''bad gateway'', ''gateway timeout'', ''timed out'',
      ''connection refused'', ''connection reset'', ''error sending request'', ''stream interrupted'',
      ''dns error'', ''failed to lookup address'']"

definition classify_provider_error :: "float_env \<Rightarrow> str \<Rightarrow> provider_error_info" where
  "classify_provider_error e message =
     (let text = to_ascii_lowercase message;
          status = http_status text;
          retry_after = retry_after_secs e text;
          info = (\<lambda>k r. \<lparr>pe_kind = k, pe_status = status, pe_retry_after = r\<rparr>)
      in if status = Some 402 \<or> says_quota text then info Quota None
         else if status \<noteq> Some 429 \<and> says_exceeded text then info Quota None
         else if status = Some 413 \<or> says_context text then info ContextLength None
         else if status = Some 401 \<or> status = Some 403 \<or> says_auth text then info Auth None
         else if says_no_model text \<or> status = Some 404 \<and> contains ''model'' text then info NoSuchModel None
         else if status = Some 429 \<or> says_rate_limit text then info RateLimited retry_after
         else if (case status of Some s \<Rightarrow> 500 \<le> s | None \<Rightarrow> False) \<or> says_unavailable text
           then info ProviderUnavailable retry_after
         else info Unknown None)"

section \<open>Texts of the adapters\<close>

text \<open>\<open>parse::<u64>\<close>: an optional plus sign and digits whose value fits.\<close>

definition parse_u64 :: "str \<Rightarrow> nat option" where
  "parse_u64 s =
     (let digits = (case s of CHR ''+'' # rest \<Rightarrow> rest | _ \<Rightarrow> s)
      in if digits \<noteq> [] \<and> list_all is_digit digits \<and> int (digits_value digits) \<le> U64_MAX
         then Some (digits_value digits) else None)"

definition parse_retry_after_header :: "float_env \<Rightarrow> str \<Rightarrow> nat option" where
  "parse_retry_after_header e value =
     (case parse_u64 (trim value) of Some s \<Rightarrow> Some s | None \<Rightarrow> header_secs e (trim value))"

text \<open>The message of the \<open>Error::Upstream\<close> built. \<open>status\<close> is the text the status displays as.\<close>

definition upstream_http_error ::
  "float_env \<Rightarrow> str \<Rightarrow> str \<Rightarrow> str \<Rightarrow> str option \<Rightarrow> str \<Rightarrow> str" where
  "upstream_http_error e label operation status retry_after body =
     label @ '' '' @ operation @ '' -> '' @ status @ '': '' @ trim body @
     (case (case retry_after of None \<Rightarrow> None | Some v \<Rightarrow> parse_retry_after_header e v) of
        Some seconds \<Rightarrow> '' (retry after '' @ show_nat seconds @ ''s)''
      | None \<Rightarrow> [])"

definition status_table :: "(str list \<times> nat) list" where
  "status_table =
     [([''invalid_request_error'', ''invalid_argument'', ''failed_precondition''], 400),
      ([''authentication_error'', ''unauthenticated'', ''invalid_api_key''], 401),
      ([''billing_error''], 402),
      ([''permission_error'', ''permission_denied''], 403),
      ([''not_found_error'', ''not_found'', ''model_not_found''], 404),
      ([''request_too_large''], 413),
      ([''rate_limit_error'', ''rate_limit_exceeded'', ''resource_exhausted'', ''insufficient_quota'',
        ''tokens'', ''requests''], 429),
      ([''api_error'', ''server_error'', ''internal'', ''internal_error'', ''internal_server_error''], 500),
      ([''unavailable'', ''service_unavailable''], 503),
      ([''timeout_error'', ''deadline_exceeded''], 504),
      ([''overloaded_error'', ''overloaded''], 529)]"

definition stream_error_status :: "str \<Rightarrow> nat option" where
  "stream_error_status error_type =
     (let name = to_ascii_lowercase (trim error_type)
      in map_option snd (find (\<lambda>(names, _). name \<in> set names) status_table))"

definition upstream_stream_error :: "str \<Rightarrow> str \<Rightarrow> nat option \<Rightarrow> str option \<Rightarrow> str \<Rightarrow> str" where
  "upstream_stream_error label operation status error_type message =
     (let error_type = (case error_type of
            Some k \<Rightarrow> if trim k \<noteq> [] then Some (trim k) else None | None \<Rightarrow> None);
          status = (case status of
            Some s \<Rightarrow> if 400 \<le> s \<and> s < 600 then Some s
                      else (case error_type of Some k \<Rightarrow> stream_error_status k | None \<Rightarrow> None)
          | None \<Rightarrow> (case error_type of Some k \<Rightarrow> stream_error_status k | None \<Rightarrow> None));
          message = trim message;
          detail = (case error_type of
            Some kind \<Rightarrow> if message \<noteq> [] then kind @ '': '' @ message else kind
          | None \<Rightarrow> if message \<noteq> [] then message else ''provider stream error'')
      in label @ '' '' @ operation @
         (case status of
            Some s \<Rightarrow> '' stream -> '' @ show_nat s @ '' '' @ detail
          | None \<Rightarrow> '' stream error: '' @ detail))"

text \<open>\<open>Display\<close> of \<open>Error::Upstream\<close>.\<close>

definition upstream_text :: "str \<Rightarrow> str" where
  "upstream_text message = ''upstream error: '' @ message"

end
