(* ===== verification/Provider_Retry.thy ===== *)
theory Provider_Retry
  imports Provider_Errors
begin

text \<open>
  The retry policy of the agent loop (crates/milim-agents/src/retry.rs) and the model call made under
  it (\<open>complete_with_retry\<close> in lib.rs). A \<open>Duration\<close> is its number of nanoseconds.
\<close>

section \<open>Durations\<close>

definition secs :: "nat \<Rightarrow> nat" where "secs n = n * 1000000000"
definition millis :: "nat \<Rightarrow> nat" where "millis n = n * 1000000"

definition DURATION_MAX :: nat where "DURATION_MAX = 18446744073709551615 * 1000000000 + 999999999"

definition saturating_mul :: "nat \<Rightarrow> nat \<Rightarrow> nat" where
  "saturating_mul d n = min DURATION_MAX (d * n)"

definition MAX_PROVIDER_RETRIES :: nat where "MAX_PROVIDER_RETRIES = 4"
definition MAX_BACKOFF :: nat where "MAX_BACKOFF = secs 30"
definition MAX_RETRY_AFTER :: nat where "MAX_RETRY_AFTER = secs 60"

section \<open>What is retried\<close>

record retryable_error =
  re_reason :: str
  re_after :: "nat option"

definition with_status :: "nat option \<Rightarrow> str \<Rightarrow> str" where
  "with_status status label =
     (case status of Some s \<Rightarrow> label @ '' ('' @ show_nat s @ '')'' | None \<Rightarrow> label)"

definition connection_phrases :: "str list" where
  "connection_phrases =
     [''connection closed'', ''connection aborted'', ''broken pipe'', ''unexpected eof'',
      ''error decoding response body'', ''incomplete message'', ''timeout'']"

definition retryable :: "float_env \<Rightarrow> str \<Rightarrow> retryable_error option" where
  "retryable e message =
     (let info = classify_provider_error e message;
          after = map_option (\<lambda>s. min (secs s) MAX_RETRY_AFTER) (pe_retry_after info);
          status = pe_status info;
          final = None;
          again = (\<lambda>reason after. Some \<lparr>re_reason = reason, re_after = after\<rparr>);
          text = to_ascii_lowercase message
      in case pe_kind info of
           Auth \<Rightarrow> final | Quota \<Rightarrow> final | ContextLength \<Rightarrow> final | NoSuchModel \<Rightarrow> final
         | RateLimited \<Rightarrow> again (with_status status ''rate limited'') after
         | ProviderUnavailable \<Rightarrow>
             again (with_status status
               (if status = Some 529 \<or> contains ''overloaded'' text then ''provider overloaded''
                else if status \<noteq> None then ''provider error'' else ''connection error'')) after
         | Unknown \<Rightarrow>
             (case status of
                Some s \<Rightarrow>
                  (if s = 408 then again (with_status status ''request timeout'') after
                   else if s = 409 then again (with_status status ''request conflict'') after
                   else final)
              | None \<Rightarrow>
                  (if contains ''stream ended before'' text then again ''incomplete stream'' None
                   else if has_any text connection_phrases then again ''connection error'' None
                   else final)))"

definition context_overflow :: "float_env \<Rightarrow> str \<Rightarrow> bool" where
  "context_overflow e message \<longleftrightarrow> pe_kind (classify_provider_error e message) = ContextLength"

definition context_overflow_finish :: "str \<Rightarrow> bool" where
  "context_overflow_finish reason \<longleftrightarrow>
     to_ascii_lowercase reason \<in> set [''model_context_window_exceeded'', ''context_window_exceeded'',
       ''context_length_exceeded'']"

section \<open>How long it waits\<close>

text \<open>\<open>exponential\<close> is the delay before the jitter; \<open>random\<close> the 64 random bits drawn.\<close>

definition exponential :: "nat \<Rightarrow> nat \<Rightarrow> nat" where
  "exponential base attempt = min (saturating_mul base (2 ^ min (attempt - 1) 16)) MAX_BACKOFF"

definition backoff_delay :: "nat \<Rightarrow> nat \<Rightarrow> nat \<Rightarrow> nat option \<Rightarrow> nat" where
  "backoff_delay random base attempt retry_after =
     (case retry_after of
        Some after \<Rightarrow> min after MAX_RETRY_AFTER
      | None \<Rightarrow>
          (let half = exponential base attempt div 2;
               jitter_ms = half div millis 1;
               jitter = (if jitter_ms = 0 then 0 else millis (random mod (jitter_ms + 1)))
           in half + jitter))"

section \<open>A model call under the policy\<close>

text \<open>\<open>answer n\<close> is what the service returns to attempt \<open>n\<close>, with the error as its text;
  \<open>random n\<close> the bits drawn after it. The result comes with the delays slept, one before each
  attempt after the first.\<close>

record 'a service =
  answer :: "nat \<Rightarrow> str + 'a"
  random :: "nat \<Rightarrow> nat"
  floats :: float_env

function attempt_from :: "'a service \<Rightarrow> nat \<Rightarrow> nat \<Rightarrow> (str + 'a) \<times> nat list" where
  "attempt_from s base attempts =
     (case answer s attempts of
        Inr out \<Rightarrow> (Inr out, [])
      | Inl error \<Rightarrow>
          (case (if attempts \<le> MAX_PROVIDER_RETRIES then retryable (floats s) error else None) of
             None \<Rightarrow> (Inl error, [])
           | Some retry \<Rightarrow>
               (case attempt_from s base (attempts + 1) of
                  (r, delays) \<Rightarrow>
                    (r, backoff_delay (random s attempts) base attempts (re_after retry) # delays))))"
  by pat_completeness auto
termination
  by (relation "measure (\<lambda>(s, base, attempts). Suc MAX_PROVIDER_RETRIES - attempts)")
     (auto split: if_splits)

declare attempt_from.simps [simp del]

definition complete_with_retry :: "'a service \<Rightarrow> nat \<Rightarrow> (str + 'a) \<times> nat list" where
  "complete_with_retry s base = attempt_from s base 1"

end
