(* ===== verification/Run_Budget.thy ===== *)
theory Run_Budget
  imports Provider_Retry
begin

text \<open>
  The usage a run adds up and the limits it is checked against (crates/milim-agents/src/limits.rs,
  \<open>add_usage\<close> in lib.rs and \<open>Usage\<close> in milim-core). A dollar amount is the bits of its double, and
  what is computed with such amounts is a parameter; an \<open>Instant\<close> is a number of nanoseconds.
\<close>

section \<open>Usage\<close>

record usage =
  us_prompt :: nat
  us_completion :: nat
  us_total :: nat
  us_cost :: "nat option"
  us_cache_read :: "nat option"
  us_cache_write :: "nat option"

definition no_usage :: usage where
  "no_usage = \<lparr>us_prompt = 0, us_completion = 0, us_total = 0, us_cost = None,
     us_cache_read = None, us_cache_write = None\<rparr>"

text \<open>\<open>u32\<close> addition of the release build.\<close>

definition u32_add :: "nat \<Rightarrow> nat \<Rightarrow> nat" where
  "u32_add a b = (a + b) mod 2 ^ 32"

text \<open>\<open>usable\<close>: finite and not negative; \<open>price_estimate\<close>: the price table's estimate; the last two
  print an amount with two and with four decimals.\<close>

record money =
  plus_usd :: "nat \<Rightarrow> nat \<Rightarrow> nat"
  reaches :: "nat \<Rightarrow> nat \<Rightarrow> bool"
  usable :: "nat \<Rightarrow> bool"
  price_estimate :: "usage \<Rightarrow> nat option"
  cents :: "nat \<Rightarrow> str"
  fine_cents :: "nat \<Rightarrow> str"

definition sum_cache :: "nat option \<Rightarrow> nat option \<Rightarrow> nat option" where
  "sum_cache a b =
     (if a = None \<and> b = None then None
      else Some (u32_add (case a of None \<Rightarrow> 0 | Some n \<Rightarrow> n) (case b of None \<Rightarrow> 0 | Some n \<Rightarrow> n)))"

definition add_usage :: "money \<Rightarrow> usage \<Rightarrow> usage \<Rightarrow> usage" where
  "add_usage m tot u =
     (let had_usage = us_prompt tot > 0 \<or> us_completion tot > 0 \<or> us_total tot > 0 \<or>
            us_cost tot \<noteq> None
      in \<lparr>us_prompt = u32_add (us_prompt tot) (us_prompt u),
          us_completion = u32_add (us_completion tot) (us_completion u),
          us_total = u32_add (us_total tot) (us_total u),
          us_cost = (if had_usage then (case (us_cost tot, us_cost u) of
              (Some current, Some n) \<Rightarrow> Some (plus_usd m current n) | _ \<Rightarrow> None) else us_cost u),
          us_cache_read = sum_cache (us_cache_read tot) (us_cache_read u),
          us_cache_write = sum_cache (us_cache_write tot) (us_cache_write u)\<rparr>)"

section \<open>Limits\<close>

record run_limits =
  max_duration :: "nat option"
  max_cost :: "nat option"
  max_tokens :: "nat option"

record run_budget =
  rb_started :: nat
  rb_paused :: nat
  rb_paused_since :: "nat option"
  rb_limits :: run_limits
  rb_cost :: nat
  rb_cost_unknown :: bool
  rb_tokens :: nat

definition new_budget :: "nat \<Rightarrow> run_limits \<Rightarrow> run_budget" where
  "new_budget now limits = \<lparr>rb_started = now, rb_paused = 0, rb_paused_since = None, rb_limits = limits,
     rb_cost = 0, rb_cost_unknown = False, rb_tokens = 0\<rparr>"

definition step_cost :: "money \<Rightarrow> usage \<Rightarrow> nat option" where
  "step_cost m u =
     (case us_cost u of
        Some c \<Rightarrow> if usable m c then Some c
                  else if us_prompt u = 0 \<and> us_completion u = 0 then None else price_estimate m u
      | None \<Rightarrow> if us_prompt u = 0 \<and> us_completion u = 0 then None else price_estimate m u)"

definition record_usage :: "money \<Rightarrow> usage \<Rightarrow> run_budget \<Rightarrow> run_budget" where
  "record_usage m u b =
     (let b = b\<lparr>rb_tokens := rb_tokens b + us_prompt u + us_completion u\<rparr>
      in case step_cost m u of
           Some c \<Rightarrow> b\<lparr>rb_cost := plus_usd m (rb_cost b) c\<rparr>
         | None \<Rightarrow> b\<lparr>rb_cost_unknown := True\<rparr>)"

text \<open>\<open>elapsed\<close> and \<open>saturating_sub\<close> stop at zero, as subtraction on \<open>nat\<close> does.\<close>

definition run_time :: "nat \<Rightarrow> run_budget \<Rightarrow> nat" where
  "run_time now b =
     (let paused = rb_paused b + (case rb_paused_since b of None \<Rightarrow> 0 | Some since \<Rightarrow> now - since)
      in now - rb_started b - paused)"

definition reason_at :: "money \<Rightarrow> nat \<Rightarrow> run_budget \<Rightarrow> str option" where
  "reason_at m elapsed b =
     (let l = rb_limits b
      in if (case max_duration l of None \<Rightarrow> False | Some d \<Rightarrow> d \<le> elapsed) then
           Some ''Paused at the run time limit.''
         else case (case max_tokens l of None \<Rightarrow> None | Some n \<Rightarrow> if n \<le> rb_tokens b then Some n else None) of
           Some n \<Rightarrow> Some (''Paused at the '' @ show_nat n @ ''-token run budget ('' @ show_nat (rb_tokens b) @
             '' tokens used).'')
         | None \<Rightarrow>
             (case max_cost l of
                None \<Rightarrow> None
              | Some c \<Rightarrow>
                  (if rb_cost_unknown b then
                     Some ''Paused because this model did not report cost and no usable price estimate is available for the spend limit.''
                   else if reaches m (rb_cost b) c then
                     Some (''Paused at the $'' @ cents m c @ '' run spend threshold (reported or estimated cost: $'' @
                       fine_cents m (rb_cost b) @ '').'')
                   else None)))"

definition budget_reason :: "money \<Rightarrow> nat \<Rightarrow> run_budget \<Rightarrow> str option" where
  "budget_reason m now b = reason_at m (run_time now b) b"

definition remaining_time :: "nat \<Rightarrow> run_budget \<Rightarrow> nat option" where
  "remaining_time now b = map_option (\<lambda>limit. limit - run_time now b) (max_duration (rb_limits b))"

definition pause_clock :: "nat \<Rightarrow> run_budget \<Rightarrow> run_budget" where
  "pause_clock now b =
     (case rb_paused_since b of None \<Rightarrow> b\<lparr>rb_paused_since := Some now\<rparr> | Some _ \<Rightarrow> b)"

definition resume_clock :: "nat \<Rightarrow> run_budget \<Rightarrow> run_budget" where
  "resume_clock now b =
     (case rb_paused_since b of
        None \<Rightarrow> b
      | Some since \<Rightarrow> b\<lparr>rb_paused := rb_paused b + (now - since), rb_paused_since := None\<rparr>)"

section \<open>The clock\<close>

text \<open>While paused, the run does not age; resumed, it goes on from where it was.\<close>

lemma run_time_paused:
  assumes "rb_paused_since b = None" and "rb_started b + rb_paused b \<le> t" and "t \<le> u"
  shows "run_time u (pause_clock t b) = run_time t b"
    and "u \<le> v \<Longrightarrow> run_time v (resume_clock u (pause_clock t b)) = run_time t b + (v - u)"
  using assms by (simp_all add: run_time_def pause_clock_def resume_clock_def Let_def)

end
