(* ===== verification/Context_Compaction.thy ===== *)
theory Context_Compaction
  imports Run_Budget
begin

text \<open>
  Keeping a run's messages inside the model's context window (crates/milim-agents/src/context.rs and
  \<open>compact_context\<close> in lib.rs): the size estimate, the elision of old tool results, the choice of
  the span to summarize, the requests for the summary and its replacement. \<open>usize\<close> is \<open>nat\<close>: every
  value is a length of data in memory or a token count. The share of the window a threshold gives,
  computed in floating point, and the answers of the model service are parameters.
\<close>

section \<open>Messages\<close>

datatype content_part = PText str | PImage str "str option" | PAudio json | PUnknown

datatype msg_content = CText str | CParts "content_part list"

record tool_call =
  tc_id :: "str option"
  tc_kind :: str
  tc_name :: str
  tc_arguments :: str

record chat_message =
  mg_role :: str
  mg_content :: "msg_content option"
  mg_name :: "str option"
  mg_calls :: "tool_call list option"
  mg_call_id :: "str option"
  mg_reasoning :: "str option"
  mg_provider :: "json option"

definition text_message :: "str \<Rightarrow> str \<Rightarrow> chat_message" where
  "text_message role text = \<lparr>mg_role = role, mg_content = Some (CText text), mg_name = None,
     mg_calls = None, mg_call_id = None, mg_reasoning = None, mg_provider = None\<rparr>"

fun part_text :: "content_part \<Rightarrow> str" where
  "part_text (PText t) = t"
| "part_text _ = []"

definition text_content :: "chat_message \<Rightarrow> str" where
  "text_content m = (case mg_content m of
       None \<Rightarrow> []
     | Some (CText t) \<Rightarrow> t
     | Some (CParts ps) \<Rightarrow> concat (map part_text ps))"

definition calls_of :: "chat_message \<Rightarrow> tool_call list" where
  "calls_of m = (case mg_calls m of None \<Rightarrow> [] | Some cs \<Rightarrow> cs)"

section \<open>The estimate\<close>

definition IMAGE_TOKENS :: nat where "IMAGE_TOKENS = 1000"
definition MESSAGE_OVERHEAD_TOKENS :: nat where "MESSAGE_OVERHEAD_TOKENS = 4"

definition message_chars :: "chat_message \<Rightarrow> nat" where
  "message_chars m =
     (case mg_content m of
        None \<Rightarrow> 0
      | Some (CText t) \<Rightarrow> char_count t
      | Some (CParts ps) \<Rightarrow> sum_list (map (\<lambda>p. char_count (part_text p)) ps))
     + (case mg_reasoning m of None \<Rightarrow> 0 | Some r \<Rightarrow> char_count r)
     + sum_list (map (\<lambda>c. length (tc_name c) + char_count (tc_arguments c)) (calls_of m))"

fun is_image :: "content_part \<Rightarrow> bool" where
  "is_image (PImage _ _) = True"
| "is_image _ = False"

definition message_images :: "chat_message \<Rightarrow> nat" where
  "message_images m = (case mg_content m of
       Some (CParts ps) \<Rightarrow> length (filter is_image ps)
     | _ \<Rightarrow> 0)"

definition div_ceil :: "nat \<Rightarrow> nat \<Rightarrow> nat" where
  "div_ceil a b = (a + b - 1) div b"

text \<open>\<open>tools_chars\<close> is the length of the tools' JSON text.\<close>

definition estimate_tokens :: "chat_message list \<Rightarrow> nat \<Rightarrow> nat" where
  "estimate_tokens msgs tools_chars =
     div_ceil (sum_list (map message_chars msgs) + tools_chars) 4
     + sum_list (map message_images msgs) * IMAGE_TOKENS + length msgs * MESSAGE_OVERHEAD_TOKENS"

record context_window =
  cw_tokens :: "nat option"
  cw_calibration :: "(nat \<times> nat) option"

definition new_window :: "nat option \<Rightarrow> context_window" where
  "new_window t = \<lparr>cw_tokens = (case t of Some n \<Rightarrow> if n > 0 then Some n else None | None \<Rightarrow> None),
     cw_calibration = None\<rparr>"

definition estimate :: "context_window \<Rightarrow> chat_message list \<Rightarrow> nat \<Rightarrow> nat" where
  "estimate w msgs tools_chars =
     (let raw = estimate_tokens msgs tools_chars in
      case cw_calibration w of
        Some (real, estimated) \<Rightarrow> max raw ((real + raw) - estimated)
      | None \<Rightarrow> raw)"

definition calibrate :: "nat \<Rightarrow> nat \<Rightarrow> context_window \<Rightarrow> context_window" where
  "calibrate raw_estimate prompt_tokens w =
     (if prompt_tokens > 0 then w\<lparr>cw_calibration := Some (prompt_tokens, raw_estimate)\<rparr> else w)"

definition lower :: "nat \<Rightarrow> context_window \<Rightarrow> context_window" where
  "lower overflowing w =
     (let o' = max overflowing 1
      in w\<lparr>cw_tokens := Some (case cw_tokens w of None \<Rightarrow> o' | Some t \<Rightarrow> min t o')\<rparr>)"

section \<open>Eliding old tool results\<close>

definition elided_stub :: "str \<Rightarrow> str" where
  "elided_stub tool =
     ''[output of '' @ tool @ '' elided to save context; re-run the tool if you need it]''"

text \<open>The calls before the result, the messages latest first, the calls of one message in order.\<close>

definition tool_name_for :: "chat_message list \<Rightarrow> nat \<Rightarrow> str option" where
  "tool_name_for msgs i = (case mg_call_id (msgs ! i) of
       None \<Rightarrow> None
     | Some call_id \<Rightarrow>
         map_option tc_name
           (find (\<lambda>c. tc_id c = Some call_id) (concat (map calls_of (rev (take i msgs))))))"

definition elide_one :: "nat \<Rightarrow> chat_message list \<times> nat \<Rightarrow> chat_message list \<times> nat" where
  "elide_one i st = (case st of (msgs, elided) \<Rightarrow>
     (let name = (case tool_name_for msgs i of None \<Rightarrow> ''tool'' | Some n \<Rightarrow> n);
          stub = elided_stub name;
          current = text_content (msgs ! i)
      in if starts_with ''[output of '' current \<or> length current \<le> length stub then (msgs, elided)
         else (msgs[i := (msgs ! i)\<lparr>mg_content := Some (CText stub)\<rparr>], Suc elided)))"

definition has_calls :: "chat_message \<Rightarrow> bool" where
  "has_calls m \<longleftrightarrow> mg_role m = ''assistant'' \<and> mg_calls m \<noteq> None"

definition is_tool :: "chat_message \<Rightarrow> bool" where
  "is_tool m \<longleftrightarrow> mg_role m = ''tool''"

definition prunable_indexes :: "chat_message list \<Rightarrow> nat \<Rightarrow> nat list" where
  "prunable_indexes msgs keep =
     (let latest_turn = (case last_index has_calls msgs of None \<Rightarrow> length msgs | Some i \<Rightarrow> i);
          tool_indexes = filter (\<lambda>i. is_tool (msgs ! i)) [0..<latest_turn];
          keep_from = length (filter is_tool (drop latest_turn msgs))
      in take (length tool_indexes - (keep - keep_from)) tool_indexes)"

definition elide_old_tool_results :: "chat_message list \<Rightarrow> nat \<Rightarrow> chat_message list \<times> nat" where
  "elide_old_tool_results msgs keep =
     foldl (\<lambda>st i. elide_one i st) (msgs, 0) (prunable_indexes msgs keep)"

section \<open>Summaries\<close>

definition SUMMARY_PREFIX :: str where
  "SUMMARY_PREFIX = ''Summary of the earlier conversation (older turns were condensed to save context; re-run tools if you need exact output):''"

definition is_summary :: "chat_message \<Rightarrow> bool" where
  "is_summary m \<longleftrightarrow> mg_role m = ''system'' \<and>
     (case mg_content m of Some (CText t) \<Rightarrow> starts_with SUMMARY_PREFIX t | _ \<Rightarrow> False)"

definition summary_message :: "str \<Rightarrow> chat_message" where
  "summary_message summary =
     text_message ''system'' (SUMMARY_PREFIX @ CHR 0x0A # trim summary)"

text \<open>Two ranges of indexes, \<open>start\<close> inclusive, \<open>end\<close> exclusive.\<close>

record summary_plan =
  before_start :: nat
  before_end :: nat
  after_start :: nat
  after_end :: nat

definition slice :: "nat \<Rightarrow> nat \<Rightarrow> 'a list \<Rightarrow> 'a list" where
  "slice s e xs = take (e - s) (drop s xs)"

definition after_empty :: "summary_plan \<Rightarrow> bool" where
  "after_empty p \<longleftrightarrow> \<not> after_start p < after_end p"

definition plan_messages :: "summary_plan \<Rightarrow> chat_message list \<Rightarrow> chat_message list" where
  "plan_messages p msgs =
     slice (before_start p) (before_end p) msgs @ slice (after_start p) (after_end p) msgs"

definition is_turn :: "chat_message \<Rightarrow> bool" where
  "is_turn m \<longleftrightarrow> mg_role m = ''assistant'' \<or> mg_role m = ''user''"

definition span_head :: "chat_message list \<Rightarrow> nat option" where
  "span_head msgs = first_index (\<lambda>m. mg_role m \<noteq> ''system'' \<or> is_summary m) msgs"

definition span_anchor :: "chat_message list \<Rightarrow> nat \<Rightarrow> nat option \<Rightarrow> nat option" where
  "span_anchor msgs head anchor =
     (case anchor of
        Some a \<Rightarrow>
          (if head \<le> a \<and> a < length msgs \<and> mg_role (msgs ! a) = ''user'' then Some a
           else map_option (\<lambda>i. head + i) (first_index (\<lambda>m. mg_role m = ''user'') (drop head msgs)))
      | None \<Rightarrow> map_option (\<lambda>i. head + i) (first_index (\<lambda>m. mg_role m = ''user'') (drop head msgs)))"

definition plan_for :: "chat_message list \<Rightarrow> nat \<Rightarrow> nat option \<Rightarrow> nat \<Rightarrow> summary_plan" where
  "plan_for msgs head anchor recent =
     (let history =
        (let e = (case find (\<lambda>i. mg_role (msgs ! i) = ''user'') [recent..<length msgs] of
             None \<Rightarrow> recent | Some i \<Rightarrow> i)
         in \<lparr>before_start = head, before_end = e, after_start = e, after_end = e\<rparr>)
      in case anchor of
           Some a \<Rightarrow>
             (if a < recent
              then \<lparr>before_start = head, before_end = a, after_start = a + 1, after_end = recent\<rparr>
              else history)
         | None \<Rightarrow> history)"

definition summary_span :: "chat_message list \<Rightarrow> nat option \<Rightarrow> nat \<Rightarrow> summary_plan option" where
  "summary_span msgs anchor keep_turns =
     (case span_head msgs of
        None \<Rightarrow> None
      | Some head \<Rightarrow>
          (let turn_starts = filter (\<lambda>i. is_turn (msgs ! i)) [head..<length msgs];
               keep = max keep_turns 1
           in if length turn_starts \<le> keep then None
              else
                (let latest_assistant = (case last_index (\<lambda>m. mg_role m = ''assistant'') msgs of
                       None \<Rightarrow> length msgs | Some i \<Rightarrow> i);
                     recent = min (turn_starts ! (length turn_starts - keep)) latest_assistant;
                     p = plan_for msgs head (span_anchor msgs head anchor) recent
                 in if list_ex (\<lambda>m. mg_role m \<noteq> ''system'') (plan_messages p msgs)
                    then Some p else None)))"

definition kept_system :: "chat_message list \<Rightarrow> chat_message list" where
  "kept_system ms = filter (\<lambda>m. mg_role m = ''system'' \<and> \<not> is_summary m) ms"

definition splice :: "nat \<Rightarrow> nat \<Rightarrow> 'a list \<Rightarrow> 'a list \<Rightarrow> 'a list" where
  "splice s e new xs = take s xs @ new @ drop e xs"

definition apply_summary ::
  "summary_plan \<Rightarrow> str \<Rightarrow> chat_message list \<Rightarrow> nat option \<Rightarrow> chat_message list \<times> nat option \<times> nat" where
  "apply_summary p summary msgs anchor =
     (let kept_before = kept_system (slice (before_start p) (before_end p) msgs);
          kept_after = kept_system (slice (after_start p) (after_end p) msgs);
          folded = (before_end p - before_start p) - length kept_before
                 + ((after_end p - after_start p) - length kept_after);
          s = summary_message summary;
          (msgs', replacement) =
            (if after_empty p
             then (splice (before_start p) (before_end p) (s # kept_before) msgs, length kept_before + 1)
             else (splice (before_start p) (before_end p) kept_before
                     (splice (after_start p) (after_end p) (s # kept_after) msgs), length kept_before));
          anchor' = (case anchor of
              Some i \<Rightarrow>
                Some (if before_end p \<le> i then i + replacement - (before_end p - before_start p) else i)
            | None \<Rightarrow> None)
      in (msgs', anchor', folded))"

section \<open>Asking for the summary\<close>

definition TRANSCRIPT_MESSAGE_MAX_CHARS :: nat where "TRANSCRIPT_MESSAGE_MAX_CHARS = 4000"
definition TRANSCRIPT_MESSAGE_MIN_CHARS :: nat where "TRANSCRIPT_MESSAGE_MIN_CHARS = 300"

text \<open>\<open>chars().take(n)\<close>: a continuation byte belongs to the character before it.\<close>

fun take_chars :: "nat \<Rightarrow> str \<Rightarrow> str" where
  "take_chars n [] = []"
| "take_chars n (c # s) =
     (if is_cont c then c # take_chars n s
      else case n of 0 \<Rightarrow> [] | Suc m \<Rightarrow> c # take_chars m s)"

definition append_call :: "str \<Rightarrow> tool_call \<Rightarrow> str" where
  "append_call t c = t @ (if t = [] then [] else [CHR 0x0A]) @
     ''[called '' @ tc_name c @ '' with '' @ tc_arguments c @ '']''"

definition transcript_entry :: "nat \<Rightarrow> chat_message \<Rightarrow> str" where
  "transcript_entry max_chars m =
     (if is_summary m then
        (let t = text_content m
         in ''### earlier summary'' @ CHR 0x0A #
              trim (case strip_prefix SUMMARY_PREFIX t of Some r \<Rightarrow> r | None \<Rightarrow> t) @ [CHR 0x0A, CHR 0x0A])
      else
        (let t = foldl append_call (text_content m) (calls_of m);
             t' = (if max_chars < char_count t
                   then take_chars max_chars t @ '' ['' @ [CHR 0xE2, CHR 0x80, CHR 0xA6] @ '']'' else t)
         in ''### '' @ mg_role m @ CHR 0x0A # trim_end t' @ [CHR 0x0A, CHR 0x0A]))"

definition transcript :: "chat_message list \<Rightarrow> nat \<Rightarrow> str" where
  "transcript msgs max_chars = concat (map (transcript_entry max_chars) msgs)"

text \<open>\<open>share_prune\<close>, \<open>share_summarize\<close> and \<open>share_transcript\<close> give 0.60, 0.85 and 0.5 of a window as
  whole tokens; \<open>ask\<close> is the service's behaviour on a request with the given messages, with the
  run's tools or none.\<close>

record compaction_env =
  share_prune :: "nat \<Rightarrow> nat"
  share_summarize :: "nat \<Rightarrow> nat"
  share_transcript :: "nat \<Rightarrow> nat"
  tools_chars :: nat
  ask :: "chat_message list \<Rightarrow> bool \<Rightarrow> (chat_message \<times> usage) service"
  backoff :: nat
  env_floats :: float_env
  env_money :: money

definition summary_transcript ::
  "compaction_env \<Rightarrow> chat_message list \<Rightarrow> summary_plan \<Rightarrow> nat option \<Rightarrow> str" where
  "summary_transcript e msgs p window =
     (let count = max (length (plan_messages p msgs)) 1;
          per_message = (case window of
              None \<Rightarrow> TRANSCRIPT_MESSAGE_MAX_CHARS
            | Some tokens \<Rightarrow>
                max TRANSCRIPT_MESSAGE_MIN_CHARS
                  (min TRANSCRIPT_MESSAGE_MAX_CHARS (share_transcript e tokens * 4 div count)))
      in transcript (plan_messages p msgs) per_message)"

definition SUMMARY_INSTRUCTIONS :: str where
  "SUMMARY_INSTRUCTIONS = ''Condense the earlier part of an agent's working session so it can continue with less context. Write a concise summary that preserves: the goals and constraints the user stated, decisions made, files and commands touched with their key results, errors hit and how they were resolved, and any open threads. When the earlier part starts with an earlier summary, fold its content into yours. Use short bullet points. Do not invent details and do not address the user.''"

definition SUMMARY_REQUEST_MARKER :: str where
  "SUMMARY_REQUEST_MARKER = ''[Context compaction request]''"

definition summary_request_message :: chat_message where
  "summary_request_message = text_message ''user''
     (SUMMARY_REQUEST_MARKER @ CHR 0x0A #
      ''Pause the task. Summarize the conversation above, from the first message after the system prompt up to this request. '' @
      SUMMARY_INSTRUCTIONS @ '' Reply with the summary only; do not call tools.'')"

definition plan_end :: "summary_plan \<Rightarrow> nat" where
  "plan_end p = (if after_empty p then before_end p else after_end p)"

definition summary_prefix ::
  "compaction_env \<Rightarrow> context_window \<Rightarrow> chat_message list option \<Rightarrow> chat_message list \<Rightarrow> summary_plan
     \<Rightarrow> chat_message list option" where
  "summary_prefix e w sent compacted p =
     first_some
       (\<lambda>msgs. if length msgs < plan_end p then None
               else
                 (let prefix = take (plan_end p) msgs @ [summary_request_message]
                  in if (case cw_tokens w of
                           None \<Rightarrow> True
                         | Some t \<Rightarrow> estimate w prefix (tools_chars e) \<le> share_summarize e t)
                     then Some prefix else None))
       ((case sent of None \<Rightarrow> [] | Some msgs \<Rightarrow> [msgs]) @ [compacted])"

definition summary_text :: "chat_message \<Rightarrow> str option" where
  "summary_text out =
     (if calls_of out \<noteq> [] then None
      else (let summary = text_content out in if trim summary \<noteq> [] then Some summary else None))"

definition standalone_request :: "str \<Rightarrow> chat_message list" where
  "standalone_request t =
     [text_message ''system'' SUMMARY_INSTRUCTIONS,
      text_message ''user''
        (''Summarize this earlier part of the session:'' @ [CHR 0x0A, CHR 0x0A] @ t)]"

text \<open>The usage \<open>spent\<close> on a first request without a summary is added to that of the second.\<close>

definition ask_standalone :: "compaction_env \<Rightarrow> str \<Rightarrow> usage \<Rightarrow> str + (str \<times> usage)" where
  "ask_standalone e t spent =
     (case fst (complete_with_retry (ask e (standalone_request t) False) (backoff e)) of
        Inl error \<Rightarrow> Inl error
      | Inr (out, u) \<Rightarrow>
          (case summary_text out of
             Some summary \<Rightarrow>
               Inr (summary, if spent \<noteq> no_usage then add_usage (env_money e) u spent else u)
           | None \<Rightarrow> Inl ''inference error: context summary was empty''))"

definition summarize_messages ::
  "compaction_env \<Rightarrow> chat_message list option \<Rightarrow> str \<Rightarrow> str + (str \<times> usage)" where
  "summarize_messages e prefix t =
     (case prefix of
        None \<Rightarrow> ask_standalone e t no_usage
      | Some msgs \<Rightarrow>
          (case fst (complete_with_retry (ask e msgs True) (backoff e)) of
             Inr (out, u) \<Rightarrow>
               (case summary_text out of Some summary \<Rightarrow> Inr (summary, u) | None \<Rightarrow> ask_standalone e t u)
           | Inl error \<Rightarrow>
               (if retryable (env_floats e) error = None then ask_standalone e t no_usage else Inl error)))"

section \<open>Compaction\<close>

record retention =
  keep_results :: nat
  keep_turns :: nat

definition RETAIN :: retention where "RETAIN = \<lparr>keep_results = 6, keep_turns = 4\<rparr>"
definition RETAIN_FORCED :: retention where "RETAIN_FORCED = \<lparr>keep_results = 0, keep_turns = 2\<rparr>"

record compacted =
  co_elided :: nat
  co_summarized :: nat
  co_before :: nat
  co_after :: nat
  co_usage :: "usage option"
  co_error :: "str option"

definition over :: "context_window \<Rightarrow> (nat \<Rightarrow> nat) \<Rightarrow> nat \<Rightarrow> bool" where
  "over w share n \<longleftrightarrow> (case cw_tokens w of None \<Rightarrow> False | Some t \<Rightarrow> share t < n)"

definition compact_context ::
  "compaction_env \<Rightarrow> context_window \<Rightarrow> bool \<Rightarrow> bool \<Rightarrow> chat_message list \<Rightarrow> nat option
     \<Rightarrow> chat_message list \<times> nat option \<times> compacted option" where
  "compact_context e w force may_summarize msgs anchor =
     (let before_tokens = estimate w msgs (tools_chars e) in
      if \<not> force \<and> \<not> over w (share_prune e) before_tokens then (msgs, anchor, None)
      else
        (let retain = (if force then RETAIN_FORCED else RETAIN);
             sent = (if may_summarize \<and> (force \<or> over w (share_summarize e) before_tokens) then Some msgs else None);
             (msgs1, elided) = elide_old_tool_results msgs (keep_results retain);
             after1 = estimate w msgs1 (tools_chars e);
             (msgs2, anchor2, elided2, summarized, spent, err) =
               (if may_summarize \<and> (force \<or> over w (share_summarize e) after1) then
                  (case summary_span msgs1 anchor (keep_turns retain) of
                     None \<Rightarrow> (msgs1, anchor, elided, 0, None, None)
                   | Some p \<Rightarrow>
                       (case summarize_messages e (summary_prefix e w sent msgs1 p)
                               (summary_transcript e msgs1 p (cw_tokens w)) of
                          Inr (summary, u) \<Rightarrow>
                            (case apply_summary p summary msgs1 anchor of
                               (ms, a, n) \<Rightarrow> (ms, a, elided, n, Some u, None))
                        | Inl error \<Rightarrow>
                            (case elide_old_tool_results msgs1 0 of
                               (ms, n) \<Rightarrow> (ms, anchor, elided + n, 0, None, Some error))))
                else (msgs1, anchor, elided, 0, None, None))
         in (msgs2, anchor2,
             if elided2 > 0 \<or> summarized > 0 \<or> err \<noteq> None
             then Some \<lparr>co_elided = elided2, co_summarized = summarized, co_before = before_tokens,
                        co_after = estimate w msgs2 (tools_chars e), co_usage = spent,
                        co_error = err\<rparr>
             else None)))"

end
