(* ===== verification/Context_Facts.thy ===== *)
theory Context_Facts
  imports Context_Compaction
begin

text \<open>
  That compaction keeps the conversation well-formed and the request that started the run: the
  pairing of tool calls with their results is a state machine over the messages, and the summarized
  spans start and end where it is idle.
\<close>

section \<open>Pairing of calls and results\<close>

definition call_ids :: "chat_message \<Rightarrow> str list" where
  "call_ids m = List.map_filter tc_id (calls_of m)"

text \<open>\<open>pending\<close> holds the calls of the current turn that have no result yet. A turn starts only when
  every call has its result, and a result answers a pending call.\<close>

fun coherent_from :: "str list \<Rightarrow> chat_message list \<Rightarrow> bool" where
  "coherent_from p [] = True"
| "coherent_from p (m # ms) =
     (if is_turn m then p = [] \<and> coherent_from (if mg_role m = ''assistant'' then call_ids m else []) ms
      else if is_tool m then
        (case mg_call_id m of
           Some c \<Rightarrow> c \<in> set p \<and> coherent_from (remove1 c p) ms
         | None \<Rightarrow> coherent_from p ms)
      else coherent_from p ms)"

fun pending_after :: "str list \<Rightarrow> chat_message list \<Rightarrow> str list" where
  "pending_after p [] = p"
| "pending_after p (m # ms) =
     pending_after
       (if is_turn m then (if mg_role m = ''assistant'' then call_ids m else [])
        else if is_tool m then (case mg_call_id m of Some c \<Rightarrow> remove1 c p | None \<Rightarrow> p)
        else p) ms"

definition coherent :: "chat_message list \<Rightarrow> bool" where
  "coherent ms \<longleftrightarrow> coherent_from [] ms"

definition is_system :: "chat_message \<Rightarrow> bool" where
  "is_system m \<longleftrightarrow> mg_role m = ''system''"

lemma role_disjoint: "is_system m \<Longrightarrow> \<not> is_turn m \<and> \<not> is_tool m"
  by (simp add: is_system_def is_turn_def is_tool_def)

lemma coherent_append:
  "coherent_from p (xs @ ys) \<longleftrightarrow> coherent_from p xs \<and> coherent_from (pending_after p xs) ys"
  by (induction p xs rule: coherent_from.induct) (auto split: option.splits)

lemma coherent_system:
  "\<forall>m \<in> set ks. is_system m \<Longrightarrow> coherent_from p ks \<and> pending_after p ks = p"
  by (induction ks) (auto dest: role_disjoint)

lemma coherent_system_append [simp]:
  "\<forall>m \<in> set ks. is_system m \<Longrightarrow> coherent_from p (ks @ ys) = coherent_from p ys"
  by (simp add: coherent_append coherent_system)

lemma coherent_turn: "coherent_from p (m # ms) \<Longrightarrow> is_turn m \<Longrightarrow> p = []"
  by simp

text \<open>From a message that starts a turn on, the rest is coherent by itself.\<close>

lemma coherent_drop_turn:
  assumes "coherent ms" and "i < length ms" and "is_turn (ms ! i)"
  shows "coherent_from [] (drop i ms)"
proof -
  have "coherent_from [] (take i ms @ drop i ms)" using assms(1) by (simp add: coherent_def)
  then have "coherent_from (pending_after [] (take i ms)) (drop i ms)"
    unfolding coherent_append by blast
  moreover have "drop i ms = ms ! i # drop (Suc i) ms" using assms(2) by (simp add: Cons_nth_drop_Suc)
  ultimately show ?thesis using coherent_turn assms(3) by metis
qed

section \<open>Elision\<close>

text \<open>Two conversations that differ in the text of tool results only.\<close>

definition same_frame :: "chat_message \<Rightarrow> chat_message \<Rightarrow> bool" where
  "same_frame m n \<longleftrightarrow> (\<exists>c. n = m\<lparr>mg_content := c\<rparr>) \<and> (\<not> is_tool m \<longrightarrow> n = m)"

lemma same_frame_refl [simp]: "same_frame m m"
  by (auto simp: same_frame_def intro: exI[of _ "mg_content m"])

lemma same_frame_fields:
  "same_frame m n \<Longrightarrow> mg_role n = mg_role m \<and> mg_calls n = mg_calls m \<and> mg_call_id n = mg_call_id m"
  by (auto simp: same_frame_def)

lemma same_frame_trans: "same_frame k m \<Longrightarrow> same_frame m n \<Longrightarrow> same_frame k n"
  by (auto simp: same_frame_def is_tool_def)

lemma coherent_same_frame: "list_all2 same_frame ms ns \<Longrightarrow> coherent_from p ms = coherent_from p ns"
proof (induction arbitrary: p rule: list_all2_induct)
  case (Cons m ms n ns)
  then show ?case
    using same_frame_fields[OF Cons(1)]
    by (simp add: is_turn_def is_tool_def call_ids_def calls_of_def split: option.splits)
qed simp

lemma tool_name_frame:
  assumes "list_all2 same_frame ms ns" and "i < length ms"
  shows "tool_name_for ns i = tool_name_for ms i"
proof -
  have fields: "\<forall>j < length ms. mg_calls (ns ! j) = mg_calls (ms ! j) \<and> mg_call_id (ns ! j) = mg_call_id (ms ! j)"
    and len: "length ns = length ms"
    using assms(1) by (auto simp: list_all2_conv_all_nth dest: same_frame_fields)
  have "map calls_of (take i ns) = map calls_of (take i ms)"
    using fields len assms(2) by (auto simp: list_eq_iff_nth_eq calls_of_def)
  then have "concat (map calls_of (rev (take i ns))) = concat (map calls_of (rev (take i ms)))"
    by (simp add: rev_map[symmetric])
  moreover have "mg_call_id (ns ! i) = mg_call_id (ms ! i)" using fields assms(2) by blast
  ultimately show ?thesis unfolding tool_name_for_def by presburger
qed

definition stub_for :: "chat_message list \<Rightarrow> nat \<Rightarrow> str" where
  "stub_for ms i = elided_stub (case tool_name_for ms i of None \<Rightarrow> ''tool'' | Some n \<Rightarrow> n)"

text \<open>What one elision may do to message \<open>i\<close>: nothing, or replace a longer text by the stub.\<close>

definition elided_at :: "chat_message list \<Rightarrow> nat \<Rightarrow> chat_message" where
  "elided_at ms i =
     (if starts_with ''[output of '' (text_content (ms ! i)) \<or>
         length (text_content (ms ! i)) \<le> length (stub_for ms i) then ms ! i
      else (ms ! i)\<lparr>mg_content := Some (CText (stub_for ms i))\<rparr>)"

lemma elide_one_eq: "fst (elide_one i (ms, n)) = ms[i := elided_at ms i]"
  by (simp add: elide_one_def elided_at_def stub_for_def Let_def)

lemma elide_one_count: "snd (elide_one i (ms, n)) = (if elided_at ms i = ms ! i then n else Suc n)"
proof (cases "starts_with ''[output of '' (text_content (ms ! i)) \<or>
    length (text_content (ms ! i)) \<le> length (stub_for ms i)")
  case True
  then show ?thesis by (simp add: elide_one_def elided_at_def stub_for_def Let_def)
next
  case False
  then have "text_content (elided_at ms i) \<noteq> text_content (ms ! i)"
    by (auto simp: elided_at_def text_content_def)
  then have "elided_at ms i \<noteq> ms ! i" by metis
  then show ?thesis using False by (simp add: elide_one_def stub_for_def Let_def)
qed

lemma elided_at_frame: "is_tool (ms ! i) \<Longrightarrow> same_frame (ms ! i) (elided_at ms i)"
  by (auto simp: elided_at_def same_frame_def intro: exI[of _ "mg_content (ms ! i)"])

lemma stub_starts: "starts_with ''[output of '' (elided_stub t)"
  by (auto simp: elided_stub_def starts_with_iff)

lemma elided_at_stable:
  assumes "list_all2 same_frame ms ns" and "i < length ms" and "ns ! i = elided_at ms i"
  shows "elided_at ns i = ns ! i"
proof -
  have "stub_for ns i = stub_for ms i" using tool_name_frame[OF assms(1,2)] by (simp add: stub_for_def)
  then show ?thesis
    using assms(3) stub_starts by (auto simp: elided_at_def text_content_def stub_for_def)
qed

lemma elide_fold:
  assumes "distinct js" and "\<forall>i \<in> set js. i < length ms \<and> is_tool (ms ! i)"
    and "list_all2 same_frame ms ns" and "\<forall>i \<in> set js. ns ! i = ms ! i"
  shows "\<exists>k. foldl (\<lambda>st i. elide_one i st) (ns, n) js =
      (map (\<lambda>i. if i \<in> set js then elided_at ms i else ns ! i) [0..<length ns], k) \<and>
    (k = n \<longleftrightarrow> (\<forall>i \<in> set js. elided_at ms i = ms ! i)) \<and> n \<le> k"
  using assms
proof (induction js arbitrary: ns n)
  case Nil
  then show ?case by (simp add: map_nth)
next
  case (Cons j js)
  have len: "length ns = length ms" using Cons.prems(3) by (simp add: list_all2_lengthD)
  have j: "j < length ms" "is_tool (ms ! j)" "ns ! j = ms ! j" using Cons.prems by auto
  have eq: "elided_at ns j = elided_at ms j"
    using tool_name_frame[OF Cons.prems(3) j(1)] j(3) by (simp add: elided_at_def stub_for_def)
  let ?ns = "ns[j := elided_at ms j]"
  have frame: "list_all2 same_frame ms ?ns"
    unfolding list_all2_conv_all_nth
  proof (intro conjI allI impI)
    fix i assume "i < length ms"
    then show "same_frame (ms ! i) (?ns ! i)"
      using Cons.prems(3) elided_at_frame[OF j(2)] len
      by (cases "i = j") (simp_all add: list_all2_conv_all_nth)
  qed (simp add: len)
  have same: "\<forall>i \<in> set js. ?ns ! i = ms ! i" using Cons.prems(1,4) by (metis distinct.simps(2) list.set_intros(2) nth_list_update_neq)
  let ?n = "snd (elide_one j (ns, n))"
  have js: "distinct js" "\<forall>i \<in> set js. i < length ms \<and> is_tool (ms ! i)"
    using Cons.prems(1,2) by simp_all
  have n: "?n = (if elided_at ms j = ms ! j then n else Suc n)"
    by (simp add: elide_one_count eq j(3))
  obtain k where k: "foldl (\<lambda>st i. elide_one i st) (?ns, ?n) js =
      (map (\<lambda>i. if i \<in> set js then elided_at ms i else ?ns ! i) [0..<length ?ns], k)"
    "k = ?n \<longleftrightarrow> (\<forall>i \<in> set js. elided_at ms i = ms ! i)" "?n \<le> k"
    using Cons.IH[OF js frame same, of ?n] by blast
  have step: "elide_one j (ns, n) = (?ns, ?n)" using elide_one_eq[of j ns n] eq by (metis prod.collapse)
  have "map (\<lambda>i. if i \<in> set js then elided_at ms i else ?ns ! i) [0..<length ?ns]
      = map (\<lambda>i. if i \<in> set (j # js) then elided_at ms i else ns ! i) [0..<length ns]"
    using j(1) len by (auto simp: nth_list_update)
  moreover have "k = n \<longleftrightarrow> (\<forall>i \<in> set (j # js). elided_at ms i = ms ! i)" "n \<le> k"
    using k(2,3) n by (auto split: if_splits)
  ultimately show ?case using k(1) step by simp
qed

lemma prunable_ok:
  "distinct (prunable_indexes ms keep) \<and>
   (\<forall>i \<in> set (prunable_indexes ms keep). i < length ms \<and> is_tool (ms ! i))"
  by (auto simp: prunable_indexes_def Let_def distinct_take split: option.splits
      dest!: in_set_takeD last_index_Some)

lemma elide_result:
  obtains k where "elide_old_tool_results ms keep =
      (map (\<lambda>i. if i \<in> set (prunable_indexes ms keep) then elided_at ms i else ms ! i) [0..<length ms], k)"
    "k = 0 \<longleftrightarrow> (\<forall>i \<in> set (prunable_indexes ms keep). elided_at ms i = ms ! i)"
  using elide_fold[of "prunable_indexes ms keep" ms ms 0] prunable_ok[of ms keep]
  by (auto simp: elide_old_tool_results_def list.rel_refl)

lemma elide_frame: "list_all2 same_frame ms (fst (elide_old_tool_results ms keep))"
proof -
  obtain k where k: "elide_old_tool_results ms keep =
      (map (\<lambda>i. if i \<in> set (prunable_indexes ms keep) then elided_at ms i else ms ! i) [0..<length ms], k)"
    by (rule elide_result)
  show ?thesis
    using prunable_ok[of ms keep] by (auto simp: k list_all2_conv_all_nth elided_at_frame)
qed

section \<open>The summarized span\<close>

lemma kept_system_system: "\<forall>m \<in> set (kept_system ms). is_system m"
  by (simp add: kept_system_def is_system_def)

lemma summary_system [simp]: "is_system (summary_message t)"
  by (simp add: summary_message_def text_message_def is_system_def)

lemma span_head_Some:
  assumes "span_head ms = Some h"
  shows "h < length ms" and "\<forall>m \<in> set (take h ms). is_system m"
    and "\<not> is_system (ms ! i) \<Longrightarrow> h \<le> i"
proof -
  from assms have h: "h < length ms" "\<forall>j < h. mg_role (ms ! j) = ''system''"
    by (auto simp: span_head_def first_index_Some)
  show "h < length ms" by (fact h(1))
  show "\<forall>m \<in> set (take h ms). is_system m"
    using h by (auto simp: is_system_def in_set_conv_nth)
  show "\<not> is_system (ms ! i) \<Longrightarrow> h \<le> i"
    using h by (auto simp: is_system_def not_less[symmetric])
qed

text \<open>The shape of a plan: the history ends where a turn starts; when turns of the run are folded
  too, they lie between the kept request and the start of a later turn.\<close>

definition plan_ok :: "chat_message list \<Rightarrow> summary_plan \<Rightarrow> bool" where
  "plan_ok ms p \<longleftrightarrow>
     (\<forall>m \<in> set (take (before_start p) ms). is_system m) \<and>
     before_start p \<le> before_end p \<and> before_end p < length ms \<and> is_turn (ms ! before_end p) \<and>
     (after_empty p \<or>
        after_start p = Suc (before_end p) \<and> mg_role (ms ! before_end p) = ''user'' \<and>
        after_end p < length ms \<and> is_turn (ms ! after_end p))"

lemma recent_turn:
  assumes "span_head ms = Some h" and ts: "ts = filter (\<lambda>i. is_turn (ms ! i)) [h..<length ms]"
    and "keep < length ts" and "0 < keep"
    and la: "la = (case last_index (\<lambda>m. mg_role m = ''assistant'') ms of None \<Rightarrow> length ms | Some i \<Rightarrow> i)"
    and r: "r = min (ts ! (length ts - keep)) la"
  shows "h \<le> r \<and> r < length ms \<and> is_turn (ms ! r)"
proof -
  have "ts ! (length ts - keep) \<in> set ts" using assms(3,4) by (intro nth_mem) simp
  then have t: "h \<le> ts ! (length ts - keep)" "ts ! (length ts - keep) < length ms"
      "is_turn (ms ! (ts ! (length ts - keep)))"
    by (auto simp: ts)
  show ?thesis
  proof (cases "la < ts ! (length ts - keep)")
    case False
    then show ?thesis using t r by (simp add: min_def not_less)
  next
    case True
    then have la': "la < length ms" using t(2) by simp
    then have "mg_role (ms ! la) = ''assistant''"
      using la by (auto split: option.splits dest: last_index_Some)
    moreover then have "\<not> is_system (ms ! la)" by (simp add: is_system_def)
    ultimately show ?thesis
      using True la' r span_head_Some(3)[OF assms(1), of la] by (simp add: is_turn_def)
  qed
qed

lemma plan_for_ok:
  assumes "span_head ms = Some h" and "h \<le> r" "r < length ms" "is_turn (ms ! r)"
    and anchor: "\<And>a. anchor = Some a \<Longrightarrow> h \<le> a \<and> a < length ms \<and> mg_role (ms ! a) = ''user''"
  shows "plan_ok ms (plan_for ms h anchor r)"
proof (cases "\<exists>a. anchor = Some a \<and> a < r")
  case True
  then obtain a where a: "anchor = Some a" "a < r" by blast
  then show ?thesis
    using anchor[OF a(1)] span_head_Some(2)[OF assms(1)] assms(3,4)
    by (simp add: plan_for_def plan_ok_def is_turn_def Let_def)
next
  case False
  let ?e = "case find (\<lambda>i. mg_role (ms ! i) = ''user'') [r..<length ms] of None \<Rightarrow> r | Some i \<Rightarrow> i"
  have e: "r \<le> ?e \<and> ?e < length ms \<and> is_turn (ms ! ?e)"
    using assms(3,4) by (auto simp: find_Some_iff is_turn_def split: option.splits)
  have "plan_for ms h anchor r =
      \<lparr>before_start = h, before_end = ?e, after_start = ?e, after_end = ?e\<rparr>"
    using False by (auto simp: plan_for_def Let_def split: option.splits)
  then show ?thesis
    using e assms(2) span_head_Some(2)[OF assms(1)] by (simp add: plan_ok_def after_empty_def)
qed

text \<open>A known request is the anchor, and no plan folds it.\<close>

lemma find_user_le:
  assumes "r \<le> a" and "a < length ms" and "mg_role (ms ! a) = ''user''"
  shows "(case find (\<lambda>i. mg_role (ms ! i) = ''user'') [r..<length ms] of None \<Rightarrow> r | Some i \<Rightarrow> i) \<le> a"
proof (cases "find (\<lambda>i. mg_role (ms ! i) = ''user'') [r..<length ms]")
  case (Some i)
  then obtain k where k: "k < length ms - r" "i = r + k"
      "\<forall>j < k. mg_role (ms ! (r + j)) \<noteq> ''user''"
    by (auto simp: find_Some_iff)
  have "\<not> a - r < k"
  proof
    assume "a - r < k"
    then have "mg_role (ms ! (r + (a - r))) \<noteq> ''user''" using k(3) by blast
    then show False using assms(1,3) by simp
  qed
  then show ?thesis using k(2) Some assms(1) by simp
qed (use assms(1) in simp)

lemma plan_for_keeps:
  assumes "a < length ms" and "mg_role (ms ! a) = ''user''"
  shows "before_end (plan_for ms h (Some a) r) \<le> a \<and>
    (after_empty (plan_for ms h (Some a) r) \<or> before_end (plan_for ms h (Some a) r) = a)"
proof (cases "a < r")
  case True
  then show ?thesis by (simp add: plan_for_def Let_def)
next
  case False
  then show ?thesis
    using find_user_le[OF _ assms, of r] by (simp add: plan_for_def Let_def after_empty_def)
qed

lemma span_anchor_Some:
  assumes "span_anchor ms h anchor = Some a"
  shows "h \<le> a \<and> a < length ms \<and> mg_role (ms ! a) = ''user''"
  using assms
  by (auto simp: span_anchor_def first_index_Some split: option.splits if_splits)

lemma summary_span_ok:
  assumes "summary_span ms anchor keep = Some p"
  shows "plan_ok ms p"
proof -
  obtain h where h: "span_head ms = Some h"
    using assms by (auto simp: summary_span_def split: option.splits)
  define ts where "ts = filter (\<lambda>i. is_turn (ms ! i)) [h..<length ms]"
  define k where "k = max keep 1"
  define la where "la = (case last_index (\<lambda>m. mg_role m = ''assistant'') ms of None \<Rightarrow> length ms | Some i \<Rightarrow> i)"
  define r where "r = min (ts ! (length ts - k)) la"
  have k: "k < length ts" and p: "p = plan_for ms h (span_anchor ms h anchor) r"
    using assms by (auto simp: summary_span_def h ts_def k_def la_def r_def Let_def split: if_splits)
  have "h \<le> r \<and> r < length ms \<and> is_turn (ms ! r)"
    by (rule recent_turn[OF h ts_def k _ la_def r_def]) (simp add: k_def)
  then show ?thesis
    unfolding p using plan_for_ok[OF h] span_anchor_Some by blast
qed

lemma summary_span_keeps:
  assumes "summary_span ms (Some a) keep = Some p"
    and "a < length ms" and "mg_role (ms ! a) = ''user''"
  shows "before_end p \<le> a \<and> (after_empty p \<or> before_end p = a)"
proof -
  obtain h where h: "span_head ms = Some h"
    using assms(1) by (auto simp: summary_span_def split: option.splits)
  have "h \<le> a" using span_head_Some(3)[OF h, of a] assms(3) by (simp add: is_system_def)
  then have "span_anchor ms h (Some a) = Some a" using assms(2,3) by (simp add: span_anchor_def)
  then obtain r where "p = plan_for ms h (Some a) r"
    using assms(1) by (auto simp: summary_span_def h Let_def split: if_splits)
  then show ?thesis using plan_for_keeps[OF assms(2,3)] by simp
qed

section \<open>Applying the summary\<close>

text \<open>The conversation after the two replacements, written out.\<close>

lemma apply_summary_history:
  assumes "plan_ok ms p" and "after_empty p"
  shows "fst (apply_summary p t ms anchor) =
    take (before_start p) ms @ (summary_message t # kept_system (slice (before_start p) (before_end p) ms))
      @ drop (before_end p) ms"
  using assms by (simp add: apply_summary_def splice_def Let_def)

lemma apply_summary_turns:
  assumes "plan_ok ms p" and "\<not> after_empty p"
  shows "fst (apply_summary p t ms anchor) =
    take (before_start p) ms @ kept_system (slice (before_start p) (before_end p) ms) @
      ms ! before_end p # summary_message t # kept_system (slice (after_start p) (after_end p) ms) @
      drop (after_end p) ms"
proof -
  let ?tail = "summary_message t # kept_system (slice (after_start p) (after_end p) ms) @ drop (after_end p) ms"
  have p: "after_start p = Suc (before_end p)" "before_start p \<le> before_end p" "before_end p < length ms"
    using assms by (auto simp: plan_ok_def)
  have "take (Suc (before_end p)) ms = take (before_end p) ms @ [ms ! before_end p]"
    using p(3) by (simp add: take_Suc_conv_app_nth)
  then have "splice (after_start p) (after_end p)
      (summary_message t # kept_system (slice (after_start p) (after_end p) ms)) ms
    = take (before_end p) ms @ ms ! before_end p # ?tail"
    by (simp add: splice_def p(1))
  then show ?thesis
    using assms(2) p(2,3) by (simp add: apply_summary_def splice_def Let_def min_def)
qed

lemma apply_summary_coherent:
  assumes "coherent ms" and "plan_ok ms p"
  shows "coherent (fst (apply_summary p t ms anchor))"
proof (cases "after_empty p")
  case True
  have p: "\<forall>m \<in> set (take (before_start p) ms). is_system m" "before_end p < length ms"
      "is_turn (ms ! before_end p)"
    using assms(2) by (auto simp: plan_ok_def)
  have "coherent_from [] (drop (before_end p) ms)" by (rule coherent_drop_turn[OF assms(1) p(2,3)])
  then show ?thesis
    unfolding coherent_def apply_summary_history[OF assms(2) True]
    using kept_system_system by (simp add: p(1) role_disjoint)
next
  case False
  have p: "\<forall>m \<in> set (take (before_start p) ms). is_system m" "mg_role (ms ! before_end p) = ''user''"
      "after_end p < length ms" "is_turn (ms ! after_end p)"
    using assms(2) False by (auto simp: plan_ok_def)
  have "coherent_from [] (drop (after_end p) ms)" by (rule coherent_drop_turn[OF assms(1) p(3,4)])
  then show ?thesis
    unfolding coherent_def apply_summary_turns[OF assms(2) False]
    using kept_system_system p(1,2) role_disjoint[OF summary_system] by (simp add: is_turn_def)
qed

lemma apply_summary_anchor:
  assumes "plan_ok ms p" and a: "a < length ms" "before_end p \<le> a" "after_empty p \<or> before_end p = a"
  shows "\<exists>b. fst (snd (apply_summary p t ms (Some a))) = Some b \<and>
    b < length (fst (apply_summary p t ms (Some a))) \<and>
    fst (apply_summary p t ms (Some a)) ! b = ms ! a"
proof (cases "after_empty p")
  case True
  have p: "before_start p \<le> before_end p" "before_end p < length ms"
    using assms(1) by (auto simp: plan_ok_def)
  let ?kept = "kept_system (slice (before_start p) (before_end p) ms)"
  have b: "fst (snd (apply_summary p t ms (Some a))) =
      Some (a + (length ?kept + 1) - (before_end p - before_start p))"
    using True a(2) by (simp add: apply_summary_def Let_def)
  let ?pre = "take (before_start p) ms @ summary_message t # ?kept"
  have eq: "a + (length ?kept + 1) - (before_end p - before_start p) = length ?pre + (a - before_end p)"
    using p a(2) by simp
  have ms': "fst (apply_summary p t ms (Some a)) = ?pre @ drop (before_end p) ms"
    by (simp add: apply_summary_history[OF assms(1) True])
  have "(?pre @ drop (before_end p) ms) ! (length ?pre + (a - before_end p)) = ms ! a"
    unfolding nth_append_length_plus using p a by simp
  moreover have "length ?pre + (a - before_end p) < length (?pre @ drop (before_end p) ms)"
    unfolding length_append using a by simp
  ultimately show ?thesis unfolding b ms' eq by blast
next
  case False
  have p: "before_start p \<le> before_end p" "before_end p < length ms"
    using assms(1) by (auto simp: plan_ok_def)
  let ?kept = "kept_system (slice (before_start p) (before_end p) ms)"
  have e: "before_end p = a" using False a(3) by blast
  have b: "fst (snd (apply_summary p t ms (Some a))) =
      Some (a + length ?kept - (before_end p - before_start p))"
    using False a(2) by (simp add: apply_summary_def Let_def)
  let ?pre = "take (before_start p) ms @ ?kept"
  let ?post = "summary_message t # kept_system (slice (after_start p) (after_end p) ms) @ drop (after_end p) ms"
  have eq: "a + length ?kept - (before_end p - before_start p) = length ?pre"
    using p e by simp
  have ms': "fst (apply_summary p t ms (Some a)) = ?pre @ ms ! a # ?post"
    by (simp add: apply_summary_turns[OF assms(1) False] e)
  have "(?pre @ ms ! a # ?post) ! length ?pre = ms ! a" by (rule nth_append_length)
  moreover have "length ?pre < length (?pre @ ms ! a # ?post)"
    unfolding length_append by simp
  ultimately show ?thesis unfolding b ms' eq by blast
qed

end
