(* ===== verification/Provider_Properties.thy ===== *)
theory Provider_Properties
  imports Provider_Retry
begin

text \<open>
  That a model call ends after five attempts with the last answer, how long it waits, and what the
  classification recovers from the text an adapter built.
\<close>

section \<open>Waiting\<close>

lemma exponential_le: "exponential base attempt \<le> secs 30"
  by (simp add: exponential_def MAX_BACKOFF_def)

lemma backoff_no_hint:
  "exponential base attempt div 2 \<le> backoff_delay bits base attempt None \<and>
   backoff_delay bits base attempt None \<le> exponential base attempt"
proof -
  let ?half = "exponential base attempt div 2"
  have "bits mod (?half div millis 1 + 1) \<le> ?half div millis 1"
    using mod_less_divisor[of "?half div millis 1 + 1" bits] by linarith
  then have "millis (bits mod (?half div millis 1 + 1)) \<le> millis (?half div millis 1)"
    by (simp add: millis_def)
  also have "\<dots> \<le> ?half" by (simp add: millis_def)
  finally have "millis (bits mod (?half div millis 1 + 1)) \<le> ?half" .
  then have "?half + millis (bits mod (?half div millis 1 + 1)) \<le> exponential base attempt" by linarith
  moreover have "?half \<le> exponential base attempt" by simp
  ultimately show ?thesis by (simp add: backoff_delay_def Let_def)
qed

lemma backoff_hint: "backoff_delay bits base attempt (Some d) = min d (secs 60)"
  by (simp add: backoff_delay_def MAX_RETRY_AFTER_def)

lemma backoff_le: "backoff_delay bits base attempt hint \<le> secs 60"
proof (cases hint)
  case None
  then show ?thesis
    using backoff_no_hint[of base attempt bits] exponential_le[of base attempt]
    by (simp add: secs_def)
qed (simp add: backoff_hint)

text \<open>Without a hint of the provider the wait before another attempt is at least half of the
  exponential delay and at most all of it, which never exceeds thirty seconds and doubles with every
  attempt until then; with a hint it is the hint, cut to a minute.\<close>

theorem backoff_delay_bounds:
  "exponential base attempt div 2 \<le> backoff_delay bits base attempt None \<and>
   backoff_delay bits base attempt None \<le> exponential base attempt \<and>
   exponential base attempt \<le> secs 30 \<and>
   (0 < n \<and> n \<le> 16 \<longrightarrow> exponential base (Suc n) = min (2 * exponential base n) (secs 30)) \<and>
   backoff_delay bits base attempt (Some hint) = min hint (secs 60)"
proof -
  have "exponential base (Suc n) = min (2 * exponential base n) (secs 30)" if "0 < n \<and> n \<le> 16"
  proof -
    obtain k where n: "n = Suc k" using \<open>0 < n \<and> n \<le> 16\<close> by (metis gr0_implies_Suc)
    with \<open>0 < n \<and> n \<le> 16\<close> have k: "n = Suc k" "k < 16" by simp_all
    have top: "secs 30 \<le> DURATION_MAX" by (simp add: secs_def DURATION_MAX_def)
    have "exponential base (Suc n) = min (base * (2 * 2 ^ k)) (secs 30)"
      using k top by (simp add: exponential_def saturating_mul_def MAX_BACKOFF_def min_def)
    moreover have "exponential base n = min (base * 2 ^ k) (secs 30)"
      using k top by (simp add: exponential_def saturating_mul_def MAX_BACKOFF_def min_def)
    ultimately show ?thesis by (simp add: min_def)
  qed
  then show ?thesis using backoff_no_hint exponential_le backoff_hint by blast
qed

section \<open>Attempts\<close>

lemma attempt_from_result:
  assumes "attempt_from s base k = (r, delays)" and "0 < k"
  shows "length delays \<le> Suc MAX_PROVIDER_RETRIES - k \<and> r = answer s (k + length delays) \<and>
    (\<forall>d \<in> set delays. d \<le> secs 60) \<and>
    (\<forall>i < length delays. \<exists>m. answer s (k + i) = Inl m \<and> retryable (floats s) m \<noteq> None) \<and>
    (\<forall>m. r = Inl m \<longrightarrow> retryable (floats s) m = None \<or> MAX_PROVIDER_RETRIES < k + length delays)"
  using assms
proof (induction s base k arbitrary: r delays rule: attempt_from.induct)
  case (1 s base k)
  show ?case
  proof (cases "\<exists>m again. answer s k = Inl m \<and> k \<le> MAX_PROVIDER_RETRIES \<and> retryable (floats s) m = Some again")
    case False
    have "(r = answer s k \<and> delays = []) \<and> (\<forall>m. r = Inl m \<longrightarrow> retryable (floats s) m = None \<or> MAX_PROVIDER_RETRIES < k)"
      using "1.prems"(1) False
      by (subst (asm) attempt_from.simps) (auto split: sum.splits if_splits option.splits prod.splits)
    then show ?thesis by auto
  next
    case True
    then obtain m again where m: "answer s k = Inl m" "k \<le> MAX_PROVIDER_RETRIES"
        "retryable (floats s) m = Some again" by blast
    obtain r' ds where rec: "attempt_from s base (k + 1) = (r', ds)" by fastforce
    have res: "r = r'" "delays = backoff_delay (random s k) base k (re_after again) # ds"
      using "1.prems"(1) m rec by (simp_all add: attempt_from.simps[of s base k])
    note ih = "1.IH"[OF m(1) _ rec]
    have ih: "length ds \<le> Suc MAX_PROVIDER_RETRIES - (k + 1) \<and> r' = answer s (k + 1 + length ds) \<and>
      (\<forall>d \<in> set ds. d \<le> secs 60) \<and>
      (\<forall>i < length ds. \<exists>m. answer s (k + 1 + i) = Inl m \<and> retryable (floats s) m \<noteq> None) \<and>
      (\<forall>m. r' = Inl m \<longrightarrow> retryable (floats s) m = None \<or> MAX_PROVIDER_RETRIES < k + 1 + length ds)"
      by (rule ih) (use m in simp_all)
    have "\<exists>m. answer s (k + i) = Inl m \<and> retryable (floats s) m \<noteq> None" if "i < length delays" for i
      using that ih m res by (cases i) auto
    then show ?thesis using ih m(2) res backoff_le by auto
  qed
qed

text \<open>A model call under the retry policy makes at most five attempts and sleeps at most a minute
  before each further one. Its result is the answer to the last attempt, every earlier answer was an
  error worth retrying, and an error it returns is final or the fifth.\<close>

theorem complete_with_retry_ends:
  "\<exists>r delays. complete_with_retry s base = (r, delays) \<and> length delays \<le> 4 \<and>
     (\<forall>d \<in> set delays. d \<le> secs 60) \<and> r = answer s (Suc (length delays)) \<and>
     (\<forall>i < length delays. \<exists>m. answer s (Suc i) = Inl m \<and> retryable (floats s) m \<noteq> None) \<and>
     (\<forall>m. r = Inl m \<longrightarrow> retryable (floats s) m = None \<or> length delays = 4)"
proof -
  obtain r delays where r: "attempt_from s base 1 = (r, delays)" by fastforce
  show ?thesis
    using attempt_from_result[OF r] r
    by (intro exI[of _ r] exI[of _ delays]) (auto simp: complete_with_retry_def MAX_PROVIDER_RETRIES_def)
qed

text \<open>A service whose connection breaks once.\<close>

definition no_floats :: float_env where
  "no_floats = \<lparr>delay_secs = (\<lambda>_ _. None), header_secs = (\<lambda>_. None)\<rparr>"

definition breaks_once :: "nat service" where
  "breaks_once = \<lparr>answer = (\<lambda>n. if n \<le> 1 then Inl ''broken pipe'' else Inr n), random = (\<lambda>_. 0),
     floats = no_floats\<rparr>"

lemma broken_pipe_kind: "classify_provider_error no_floats ''broken pipe'' =
    \<lparr>pe_kind = Unknown, pe_status = None, pe_retry_after = None\<rparr>"
proof -
  have lower: "to_ascii_lowercase ''broken pipe'' = ''broken pipe''" by code_simp
  have "http_status ''broken pipe'' = None" by code_simp
  then show ?thesis
    by (simp add: classify_provider_error_def Let_def lower has_any_def starts_with_def says_quota_def
        says_exceeded_def says_context_def says_auth_def says_no_model_def says_rate_limit_def
        says_unavailable_def has_zero_quota_limit_def)
qed

lemma broken_pipe_retried:
  "retryable no_floats ''broken pipe'' = Some \<lparr>re_reason = ''connection error'', re_after = None\<rparr>"
proof -
  have "to_ascii_lowercase ''broken pipe'' = ''broken pipe''" by code_simp
  then show ?thesis
    by (simp add: retryable_def broken_pipe_kind has_any_def connection_phrases_def starts_with_def)
qed

theorem complete_with_retry_ends_witness:
  "\<exists>d. complete_with_retry breaks_once 0 = (Inr 2, [d]) \<and> d \<le> secs 60"
proof -
  have "attempt_from breaks_once 0 2 = (Inr 2, [])"
    by (subst attempt_from.simps) (simp add: breaks_once_def)
  then have "attempt_from breaks_once 0 1 = (Inr 2, [backoff_delay 0 0 1 None])"
    by (subst attempt_from.simps) (simp add: breaks_once_def broken_pipe_retried MAX_PROVIDER_RETRIES_def numeral_2_eq_2)
  then show ?thesis
    using complete_with_retry_ends[of breaks_once 0] by (simp add: complete_with_retry_def)
qed

section \<open>What the text gives back\<close>

lemma ascii_lower_digit: "is_digit c \<Longrightarrow> ascii_lower c = c"
  by (auto simp: is_digit_def ascii_lower_def Let_def)

lemma ascii_lower_eq_iff:
  assumes "(of_char d :: nat) < 65" shows "ascii_lower c = d \<longleftrightarrow> c = d"
proof
  assume eq: "ascii_lower c = d"
  have "\<not> (65 \<le> (of_char c :: nat) \<and> (of_char c :: nat) \<le> 90)"
  proof
    assume "65 \<le> (of_char c :: nat) \<and> (of_char c :: nat) \<le> 90"
    then have "d = char_of ((of_char c :: nat) + 32)" using eq by (auto simp: ascii_lower_def Let_def)
    then have "(of_char d :: nat) = (of_char c + 32) mod 256" by (simp only: of_char_of)
    then show False using assms \<open>65 \<le> (of_char c :: nat) \<and> (of_char c :: nat) \<le> 90\<close> by simp
  qed
  then show "c = d" using eq by (auto simp: ascii_lower_def Let_def split: if_splits)
next
  assume "c = d"
  then show "ascii_lower c = d" using assms by (simp add: ascii_lower_def Let_def)
qed

lemma is_digit_lower [simp]: "is_digit (ascii_lower c) = is_digit c"
proof
  assume d: "is_digit (ascii_lower c)"
  then have "(of_char (ascii_lower c) :: nat) < 65" by (simp add: is_digit_def Let_def)
  then have "c = ascii_lower c" using ascii_lower_eq_iff by blast
  then show "is_digit c" using d by simp
qed (simp add: ascii_lower_digit)

lemma digit_char: "d < 10 \<Longrightarrow> (of_char (char_of (48 + d) :: char) :: nat) = 48 + d"
  by (simp only: of_char_of) simp

lemma show_status:
  assumes "400 \<le> n" and "n < 600"
  shows "length (show_nat n) = 3 \<and> list_all is_digit (show_nat n) \<and> digits_value (show_nat n) = n"
proof -
  define a b c where "a = n div 10 div 10" and "b = n div 10 mod 10" and "c = n mod 10"
  have n: "n = 100 * a + 10 * b + c" "a < 10" "b < 10" "c < 10" "0 < a"
  proof -
    show "b < 10" "c < 10" by (simp_all add: b_def c_def)
    have "n = 10 * (n div 10) + c" by (simp add: c_def)
    moreover have "n div 10 = 10 * a + b" unfolding a_def b_def by (metis mult_div_mod_eq)
    ultimately show n: "n = 100 * a + 10 * b + c" by simp
    show "a < 10" "0 < a" using n assms \<open>b < 10\<close> \<open>c < 10\<close> by linarith+
  qed
  have "digits_rev n = char_of (48 + c) # digits_rev (n div 10)"
    by (subst digits_rev.simps) (use assms in \<open>simp add: c_def\<close>)
  also have "digits_rev (n div 10) = char_of (48 + b) # digits_rev a"
  proof -
    have "\<not> n div 10 < 10" using assms(1) by linarith
    then show ?thesis by (subst digits_rev.simps) (simp add: a_def b_def)
  qed
  also have "digits_rev a = [char_of (48 + a)]"
    by (subst digits_rev.simps) (use n(2) in simp)
  finally have "show_nat n = [char_of (48 + a), char_of (48 + b), char_of (48 + c)]"
    by (simp add: show_nat_def)
  then show ?thesis
    using n digit_char[of a] digit_char[of b] digit_char[of c]
    by (simp add: is_digit_def digits_value_def Let_def)
qed

lemma status_after_found:
  assumes "400 \<le> n" "n < 600" and "rest = [] \<or> \<not> is_digit (hd rest)"
    and "CHR ''>'' \<notin> set p"
  shows "status_after ''-> '' (p @ '' -> '' @ show_nat n @ rest) = Some n"
proof -
  have first: "after_first ''-> '' (q @ ''-> '' @ t) = Some t" if "CHR ''>'' \<notin> set q" for q t
    using that
  proof (induction q)
    case Nil
    have "strip_prefix ''-> '' (''-> '' @ t) = Some t" by (simp only: strip_prefix_iff)
    then show ?case by simp
  next
    case (Cons c q)
    have "strip_prefix ''-> '' ((c # q) @ ''-> '' @ t) = None"
      using Cons.prems by (cases q) auto
    then show ?case using Cons by simp
  qed
  have after: "after_first ''-> '' (p @ '' -> '' @ show_nat n @ rest) = Some (show_nat n @ rest)"
    using first[of "p @ '' ''"  "show_nat n @ rest"] assms(4) by simp
  have digits: "takeWhile is_digit (show_nat n @ rest) = show_nat n"
  proof -
    have "takeWhile is_digit (show_nat n @ rest) = show_nat n @ takeWhile is_digit rest"
      using show_status[OF assms(1,2)] by (intro takeWhile_append2) (simp add: list_all_iff)
    moreover have "takeWhile is_digit rest = []" using assms(3) by (cases rest) auto
    ultimately show ?thesis by simp
  qed
  have "status_after ''-> '' (p @ '' -> '' @ show_nat n @ rest) =
      (let digits = takeWhile is_digit (show_nat n @ rest); k = digits_value digits
       in if length digits = 3 \<and> 400 \<le> k \<and> k < 600 then Some k
          else status_after ''-> '' (show_nat n @ rest))"
    by (subst status_after.simps) (simp only: after option.case if_False list.distinct simp_thms)
  then show ?thesis unfolding digits using show_status[OF assms(1,2)] assms(1,2) by simp
qed

lemma lower_append: "to_ascii_lowercase (xs @ ys) = to_ascii_lowercase xs @ to_ascii_lowercase ys"
  by (simp add: to_ascii_lowercase_def)

lemma lower_digits: "list_all is_digit s \<Longrightarrow> to_ascii_lowercase s = s"
  by (induction s) (simp_all add: to_ascii_lowercase_def ascii_lower_digit)

lemma lower_arrow: "to_ascii_lowercase '' -> '' = '' -> ''"
  by code_simp

lemma lower_upstream: "to_ascii_lowercase ''upstream error: '' = ''upstream error: ''"
  by code_simp

lemma lower_gt: "CHR ''>'' \<in> set (to_ascii_lowercase s) \<longleftrightarrow> CHR ''>'' \<in> set s"
proof -
  have "CHR ''>'' = ascii_lower c \<longleftrightarrow> c = CHR ''>''" for c
    using ascii_lower_eq_iff[of "CHR ''>''" c] by auto
  then show ?thesis by (simp add: to_ascii_lowercase_def image_iff)
qed

lemma classify_status: "pe_status (classify_provider_error e m) = http_status (to_ascii_lowercase m)"
  by (simp add: classify_provider_error_def Let_def)

lemma status_in_text:
  assumes "400 \<le> n" "n < 600" and "rest = [] \<or> \<not> is_digit (hd rest)" and "CHR ''>'' \<notin> set p"
  shows "pe_status (classify_provider_error e (upstream_text (p @ '' -> '' @ show_nat n @ rest))) = Some n"
proof -
  let ?q = "''upstream error: '' @ to_ascii_lowercase p"
  have "to_ascii_lowercase (upstream_text (p @ '' -> '' @ show_nat n @ rest))
      = ?q @ '' -> '' @ show_nat n @ to_ascii_lowercase rest"
    using show_status[OF assms(1,2)]
    unfolding upstream_text_def lower_append lower_arrow lower_upstream append_assoc
    by (simp only: lower_digits)
  moreover have "CHR ''>'' \<notin> set ?q" using assms(4) by (simp add: lower_gt)
  moreover have "to_ascii_lowercase rest = [] \<or> \<not> is_digit (hd (to_ascii_lowercase rest))"
    using assms(3) by (cases rest) (simp_all add: to_ascii_lowercase_def)
  ultimately have "status_after ''-> '' (to_ascii_lowercase (upstream_text (p @ '' -> '' @ show_nat n @ rest))) = Some n"
    using status_after_found[OF assms(1,2)] by presburger
  then have "http_status (to_ascii_lowercase (upstream_text (p @ '' -> '' @ show_nat n @ rest))) = Some n"
    by (simp only: http_status_def first_some.simps option.case)
  then show ?thesis unfolding classify_status .
qed

text \<open>The status of a failed response is read back from the text built of it, whatever the body
  says, when the names of provider and operation have no \<open>>\<close>; the same holds for a status reported
  inside a stream.\<close>

theorem upstream_status_recovered:
  assumes "400 \<le> n" and "n < 600" and "reason = [] \<or> \<not> is_digit (hd reason)"
    and "CHR ''>'' \<notin> set label" and "CHR ''>'' \<notin> set operation"
  shows "pe_status (classify_provider_error e (upstream_text
      (upstream_http_error e label operation (show_nat n @ reason) retry_after body))) = Some n \<and>
    pe_status (classify_provider_error e (upstream_text
      (upstream_stream_error label operation (Some n) error_type message))) = Some n"
proof -
  let ?tail = "'': '' @ trim body @
     (case (case retry_after of None \<Rightarrow> None | Some v \<Rightarrow> parse_retry_after_header e v) of
        Some seconds \<Rightarrow> '' (retry after '' @ show_nat seconds @ ''s)''
      | None \<Rightarrow> [])"
  have "reason @ ?tail = [] \<or> \<not> is_digit (hd (reason @ ?tail))"
    using assms(3) by (cases reason) (simp_all add: is_digit_def)
  from status_in_text[OF assms(1,2) this, of "label @ '' '' @ operation"]
  have http: "pe_status (classify_provider_error e (upstream_text
      (upstream_http_error e label operation (show_nat n @ reason) retry_after body))) = Some n"
    using assms(4,5) by (simp add: upstream_http_error_def)
  obtain detail where detail: "upstream_stream_error label operation (Some n) error_type message =
      (label @ '' '' @ operation @ '' stream'') @ '' -> '' @ show_nat n @ '' '' @ detail"
    using assms(1,2) by (simp add: upstream_stream_error_def Let_def)
  have "CHR ''>'' \<notin> set (label @ '' '' @ operation @ '' stream'')" using assms(4,5) by simp
  then have "pe_status (classify_provider_error e (upstream_text
      (upstream_stream_error label operation (Some n) error_type message))) = Some n"
    unfolding detail by (intro status_in_text assms(1,2)) (simp_all add: is_digit_def)
  then show ?thesis using http by blast
qed

text \<open>An environment that reads whole numbers, and no number in an empty text.\<close>

definition whole_numbers :: float_env where
  "whole_numbers = \<lparr>delay_secs = (\<lambda>s u. if s = [] then None else
       (case u of Seconds \<Rightarrow> Some (max 1 (digits_value s)) | Minutes \<Rightarrow> Some (60 * digits_value s)
        | Millis \<Rightarrow> Some (max 1 (digits_value s div 1000)))),
     header_secs = (\<lambda>_. None)\<rparr>"

theorem upstream_status_recovered_witness:
  "pe_status (classify_provider_error whole_numbers (upstream_text
      (upstream_http_error whole_numbers ''OpenAI'' ''chat'' (show_nat 503 @ '' Service Unavailable'') (Some ''7'')
        ''see -> 429 http 404''))) = Some 503"
  using upstream_status_recovered[of 503 "'' Service Unavailable''" "''OpenAI''" "''chat''" whole_numbers
      "Some ''7''" "''see -> 429 http 404''" None "[]"]
  by (simp add: is_digit_def)

section \<open>A hint that is lost\<close>

definition vague_body :: str where
  "vague_body = ''Please retry after some time.''"

definition throttled :: "str \<Rightarrow> str" where
  "throttled body =
     upstream_http_error whole_numbers ''OpenAI'' ''chat'' ''429 Too Many Requests'' (Some ''30'') body"

definition vague_text :: str where
  "vague_text =
     ''upstream error: openai chat -> 429 too many requests: please retry after some time. (retry after 30s)''"

definition plain_text :: str where
  "plain_text = ''upstream error: openai chat -> 429 too many requests: slow down. (retry after 30s)''"

lemma throttled_text:
  "to_ascii_lowercase (upstream_text (throttled vague_body)) = vague_text"
  "to_ascii_lowercase (upstream_text (throttled ''Slow down.'')) = plain_text"
  by code_simp+

lemmas phrase_defs = has_any_def starts_with_def vague_text_def plain_text_def

lemma quota_phrases: "\<not> says_quota vague_text" "\<not> says_quota plain_text"
  by (simp_all add: says_quota_def has_zero_quota_limit_def phrase_defs)

lemma context_phrases: "\<not> says_context vague_text" "\<not> says_context plain_text"
  by (simp_all add: says_context_def phrase_defs)

lemma auth_phrases: "\<not> says_auth vague_text" "\<not> says_auth plain_text"
  by (simp_all add: says_auth_def phrase_defs)

lemma model_phrases: "\<not> says_no_model vague_text" "\<not> says_no_model plain_text"
  by (simp_all add: says_no_model_def phrase_defs)

lemma throttled_status: "http_status vague_text = Some 429" "http_status plain_text = Some 429"
  by code_simp+

lemma throttled_delay:
  "retry_after_secs whole_numbers vague_text = None" "retry_after_secs whole_numbers plain_text = Some 30"
  by code_simp+

text \<open>A body that says \<open>retry after\<close> without a number hides the delay the provider sent in its
  \<open>Retry-After\<close> header, which the adapter appends to the text: the wait falls back to the jittered
  delay. With another body the header is honoured.\<close>

theorem retry_hint_hidden_by_body:
  "retryable whole_numbers (upstream_text (throttled vague_body)) =
     Some \<lparr>re_reason = ''rate limited (429)'', re_after = None\<rparr> \<and>
   retryable whole_numbers (upstream_text (throttled ''Slow down.'')) =
     Some \<lparr>re_reason = ''rate limited (429)'', re_after = Some (secs 30)\<rparr>"
proof -
  have label: "''rate limited'' @ '' ('' @ show_nat 429 @ '')'' = ''rate limited (429)''" by code_simp
  show ?thesis
    by (simp add: retryable_def classify_provider_error_def throttled_text throttled_status throttled_delay
        quota_phrases context_phrases auth_phrases model_phrases with_status_def label[simplified] Let_def
        MAX_RETRY_AFTER_def secs_def)
qed

end
