(* ===== verification/Context_Properties.thy ===== *)
theory Context_Properties
  imports Context_Facts Provider_Properties
begin

text \<open>
  What compaction keeps: the request that started the run, the pairing of tool calls with results, and
  everything an elision may not touch.
\<close>

section \<open>Elision as a whole\<close>

lemma prunable_frame:
  assumes "list_all2 same_frame ms ns"
  shows "prunable_indexes ns keep = prunable_indexes ms keep"
proof -
  have fields: "\<forall>j < length ms. has_calls (ns ! j) = has_calls (ms ! j) \<and> is_tool (ns ! j) = is_tool (ms ! j)"
    and len: "length ns = length ms"
    using assms same_frame_fields
    by (fastforce simp: list_all2_conv_all_nth has_calls_def is_tool_def)+
  then have "map has_calls ns = map has_calls ms" and tools: "map is_tool ns = map is_tool ms"
    by (auto simp: list_eq_iff_nth_eq)
  then have latest: "last_index has_calls ns = last_index has_calls ms"
    unfolding last_index_map[of has_calls] by simp
  have count: "length (filter is_tool (drop k ns)) = length (filter is_tool (drop k ms))" for k
  proof -
    have "map is_tool (drop k ns) = map is_tool (drop k ms)" using tools by (simp flip: drop_map)
    then have "length (filter id (map is_tool (drop k ns))) = length (filter id (map is_tool (drop k ms)))"
      by simp
    then show ?thesis by (simp add: filter_map comp_def)
  qed
  define k where "k = (case last_index has_calls ms of None \<Rightarrow> length ms | Some i \<Rightarrow> i)"
  have "k \<le> length ms" by (auto simp: k_def split: option.splits dest: last_index_Some)
  then have "filter (\<lambda>i. is_tool (ns ! i)) [0..<k] = filter (\<lambda>i. is_tool (ms ! i)) [0..<k]"
    using fields by (intro filter_cong) auto
  then show ?thesis
    unfolding prunable_indexes_def latest len Let_def k_def[symmetric] count by simp
qed

lemma prunable_old:
  assumes "i \<in> set (prunable_indexes ms keep)"
  shows "i < (case last_index has_calls ms of None \<Rightarrow> length ms | Some j \<Rightarrow> j)"
  using assms by (auto simp: prunable_indexes_def Let_def dest!: in_set_takeD)

lemma elide_nth:
  assumes "i < length ms"
  shows "fst (elide_old_tool_results ms keep) ! i =
    (if i \<in> set (prunable_indexes ms keep) then elided_at ms i else ms ! i)"
proof -
  obtain k where "elide_old_tool_results ms keep =
      (map (\<lambda>i. if i \<in> set (prunable_indexes ms keep) then elided_at ms i else ms ! i) [0..<length ms], k)"
    by (rule elide_result)
  then show ?thesis using assms by simp
qed

lemma elide_length: "length (fst (elide_old_tool_results ms keep)) = length ms"
  using elide_frame[of ms keep] by (simp add: list_all2_lengthD)

lemma elide_again:
  "elide_old_tool_results (fst (elide_old_tool_results ms keep)) keep =
     (fst (elide_old_tool_results ms keep), 0)"
proof -
  let ?ns = "fst (elide_old_tool_results ms keep)"
  have same: "prunable_indexes ?ns keep = prunable_indexes ms keep"
    by (rule prunable_frame[OF elide_frame])
  have stable: "elided_at ?ns i = ?ns ! i" if "i \<in> set (prunable_indexes ms keep)" for i
    using elided_at_stable[OF elide_frame] elide_nth that prunable_ok[of ms keep] by simp
  obtain k where k: "elide_old_tool_results ?ns keep =
      (map (\<lambda>i. if i \<in> set (prunable_indexes ?ns keep) then elided_at ?ns i else ?ns ! i) [0..<length ?ns], k)"
    "k = 0 \<longleftrightarrow> (\<forall>i \<in> set (prunable_indexes ?ns keep). elided_at ?ns i = ?ns ! i)"
    by (rule elide_result)
  have "map (\<lambda>i. if i \<in> set (prunable_indexes ?ns keep) then elided_at ?ns i else ?ns ! i) [0..<length ?ns]
      = map ((!) ?ns) [0..<length ?ns]"
    using same stable by (intro map_cong) auto
  then show ?thesis using k same stable by (simp add: map_nth)
qed

text \<open>Eliding changes messages in place: only results of tools before the latest assistant message
  with calls, and only by putting a stub in place of a text of more bytes; doing it again changes
  nothing and counts nothing.\<close>

theorem elision_in_place:
  assumes "elide_old_tool_results ms keep = (ms', n)"
  shows "length ms' = length ms \<and>
    (\<forall>i < length ms. ms' ! i = ms ! i \<or>
       is_tool (ms ! i) \<and> i < (case last_index has_calls ms of None \<Rightarrow> length ms | Some j \<Rightarrow> j) \<and>
       ms' ! i = (ms ! i)\<lparr>mg_content := Some (CText (stub_for ms i))\<rparr> \<and>
       length (stub_for ms i) < length (text_content (ms ! i))) \<and>
    elide_old_tool_results ms' keep = (ms', 0)"
proof -
  have ms': "ms' = fst (elide_old_tool_results ms keep)" using assms by simp
  have "ms' ! i = ms ! i \<or>
       is_tool (ms ! i) \<and> i < (case last_index has_calls ms of None \<Rightarrow> length ms | Some j \<Rightarrow> j) \<and>
       ms' ! i = (ms ! i)\<lparr>mg_content := Some (CText (stub_for ms i))\<rparr> \<and>
       length (stub_for ms i) < length (text_content (ms ! i))" if "i < length ms" for i
    using elide_nth[OF that, of keep] prunable_ok[of ms keep] prunable_old[of i ms keep]
    unfolding ms' elided_at_def by (auto split: if_splits)
  then show ?thesis using elide_length elide_again unfolding ms' by blast
qed

section \<open>Compaction\<close>

lemma coherent_elide:
  "coherent ms \<Longrightarrow> coherent (fst (elide_old_tool_results ms keep))"
  unfolding coherent_def using coherent_same_frame[OF elide_frame] by metis

lemma elide_user:
  assumes "a < length ms" and "mg_role (ms ! a) = ''user''"
  shows "fst (elide_old_tool_results ms keep) ! a = ms ! a"
proof -
  have "same_frame (ms ! a) (fst (elide_old_tool_results ms keep) ! a)"
    using elide_frame[of ms keep] assms(1) by (simp add: list_all2_conv_all_nth)
  then show ?thesis using assms(2) by (simp add: same_frame_def is_tool_def)
qed

text \<open>The conversations compaction may end with.\<close>

lemma compact_context_cases:
  assumes "compact_context e w force may ms anchor = (ms', anchor', r)"
  obtains "ms' = ms" "anchor' = anchor"
  | keep where "ms' = fst (elide_old_tool_results ms keep)" "anchor' = anchor"
  | keep keep' where
      "ms' = fst (elide_old_tool_results (fst (elide_old_tool_results ms keep)) keep')" "anchor' = anchor"
  | keep n p t where "summary_span (fst (elide_old_tool_results ms keep)) anchor n = Some p"
      "ms' = fst (apply_summary p t (fst (elide_old_tool_results ms keep)) anchor)"
      "anchor' = fst (snd (apply_summary p t (fst (elide_old_tool_results ms keep)) anchor))"
proof (cases "\<not> force \<and> \<not> over w (share_prune e) (estimate w ms (tools_chars e))")
  case True
  then show ?thesis using assms that(1) by (simp add: compact_context_def Let_def)
next
  case False
  define retain where "retain = (if force then RETAIN_FORCED else RETAIN)"
  obtain ms1 n1 where e1: "elide_old_tool_results ms (keep_results retain) = (ms1, n1)" by fastforce
  note step = assms[unfolded compact_context_def Let_def, folded retain_def, unfolded e1 prod.case, simplified False if_False]
  have ms1: "ms1 = fst (elide_old_tool_results ms (keep_results retain))" by (simp add: e1)
  show ?thesis
  proof (cases "may \<and> (force \<or> over w (share_summarize e) (estimate w ms1 (tools_chars e)))")
    case False
    then have "ms' = ms1" "anchor' = anchor" using step by (auto split: if_splits)
    then show ?thesis using that(2) ms1 by blast
  next
    case ask: True
    show ?thesis
    proof (cases "summary_span ms1 anchor (keep_turns retain)")
      case None
      then have "ms' = ms1" "anchor' = anchor" using step ask by (auto split: if_splits)
      then show ?thesis using that(2) ms1 by blast
    next
      case (Some p)
      define sent where "sent = (if may \<and> (force \<or> over w (share_summarize e) (estimate w ms (tools_chars e)))
        then Some ms else None)"
      show ?thesis
      proof (cases "summarize_messages e (summary_prefix e w sent ms1 p) (summary_transcript e ms1 p (cw_tokens w))")
        case (Inl err)
        then have "ms' = fst (elide_old_tool_results ms1 0)" "anchor' = anchor"
          using step ask Some unfolding sent_def by (auto split: if_splits prod.splits)
        then show ?thesis using that(3) ms1 by blast
      next
        case (Inr r')
        obtain t u where t: "r' = (t, u)" by fastforce
        then have "ms' = fst (apply_summary p t ms1 anchor)" "anchor' = fst (snd (apply_summary p t ms1 anchor))"
          using step ask Some Inr unfolding sent_def by (auto split: if_splits prod.splits)
        then show ?thesis using that(4) Some ms1 by blast
      qed
    qed
  qed
qed

lemma compaction_keeps:
  assumes "coherent ms" and "a < length ms" and "mg_role (ms ! a) = ''user''"
    and "compact_context e w force may ms (Some a) = (ms', anchor', r)"
  shows "coherent ms' \<and> (\<exists>b. anchor' = Some b \<and> b < length ms' \<and> ms' ! b = ms ! a)"
  using assms(4)
proof (cases rule: compact_context_cases)
  case 1
  then show ?thesis using assms by simp
next
  case (2 keep)
  then show ?thesis using assms coherent_elide elide_user elide_length by simp
next
  case (3 keep keep')
  then show ?thesis using assms coherent_elide elide_user elide_length by simp
next
  case (4 keep n p t)
  let ?ms = "fst (elide_old_tool_results ms keep)"
  have a: "a < length ?ms" "?ms ! a = ms ! a"
    using assms(2,3) elide_length elide_user by simp_all
  have p: "plan_ok ?ms p" by (rule summary_span_ok[OF 4(1)])
  have "before_end p \<le> a \<and> (after_empty p \<or> before_end p = a)"
    using summary_span_keeps[OF 4(1)] a assms(3) by simp
  then show ?thesis
    using apply_summary_anchor[OF p a(1), of t] apply_summary_coherent[OF coherent_elide[OF assms(1)] p] a(2) 4(2,3)
    by auto
qed

text \<open>C22. Compaction keeps a conversation well-formed: every tool result still answers a call of the
  turn it follows and every turn starts with all calls answered. The request that started the run
  stays, unchanged, where the anchor points afterwards.\<close>

theorem compaction_keeps_request_and_pairing:
  assumes "coherent ms" and "a < length ms" and "mg_role (ms ! a) = ''user''"
    and "compact_context e w force may ms (Some a) = (ms', anchor', r)"
  shows "coherent ms' \<and> (\<exists>b. anchor' = Some b \<and> b < length ms' \<and> ms' ! b = ms ! a)"
  by (rule compaction_keeps[OF assms])

section \<open>The request for a summary\<close>

lemma coherent_take_request:
  assumes "coherent ms" and "i < length ms" and "is_turn (ms ! i)"
  shows "coherent (take i ms @ [summary_request_message])"
proof -
  have "coherent_from [] (take i ms @ drop i ms)" using assms(1) by (simp add: coherent_def)
  then have "coherent_from [] (take i ms) \<and> coherent_from (pending_after [] (take i ms)) (drop i ms)"
    unfolding coherent_append .
  moreover have "drop i ms = ms ! i # drop (Suc i) ms" using assms(2) by (simp add: Cons_nth_drop_Suc)
  ultimately have "coherent_from [] (take i ms) \<and> pending_after [] (take i ms) = []"
    using coherent_turn assms(3) by metis
  moreover have "is_turn summary_request_message"
    by (simp add: summary_request_message_def text_message_def is_turn_def)
  ultimately show ?thesis by (simp add: coherent_def coherent_append)
qed

lemma plan_end_turn: "plan_ok ms p \<Longrightarrow> plan_end p < length ms \<and> is_turn (ms ! plan_end p)"
  by (auto simp: plan_ok_def plan_end_def)

text \<open>A request for a summary that reuses the run's own messages is well-formed in itself: it ends
  in the request message when no tool call is left without its result. It fits the share of the
  window left for a step, whether it takes the messages as last sent or as elided.\<close>

theorem summary_request_paired:
  assumes "coherent ms" and "elided = fst (elide_old_tool_results ms keep)"
    and "summary_span elided anchor n = Some p"
    and "sent = None \<or> sent = Some ms"
    and "summary_prefix e w sent elided p = Some req"
  shows "coherent req \<and> last req = summary_request_message \<and>
    (\<forall>t. cw_tokens w = Some t \<longrightarrow> estimate w req (tools_chars e) \<le> share_summarize e t)"
proof -
  obtain msgs where msgs: "msgs = ms \<or> msgs = elided"
      "req = take (plan_end p) msgs @ [summary_request_message]"
      "case cw_tokens w of None \<Rightarrow> True | Some t \<Rightarrow> estimate w req (tools_chars e) \<le> share_summarize e t"
    using assms(4) first_some_Some[OF assms(5)[unfolded summary_prefix_def]]
    by (auto simp: Let_def split: if_splits)
  have turn: "plan_end p < length elided \<and> is_turn (elided ! plan_end p)"
    by (rule plan_end_turn[OF summary_span_ok[OF assms(3)]])
  then have "plan_end p < length ms" using assms(2) elide_length by simp
  moreover have "mg_role (elided ! plan_end p) = mg_role (ms ! plan_end p)"
    using elide_frame[of ms keep] \<open>plan_end p < length ms\<close> unfolding assms(2)
    by (simp add: list_all2_conv_all_nth same_frame_fields)
  ultimately have "plan_end p < length msgs \<and> is_turn (msgs ! plan_end p) \<and> coherent msgs"
    using turn msgs(1) assms(1,2) coherent_elide by (auto simp: is_turn_def)
  then show ?thesis using coherent_take_request msgs(2,3) by (auto split: option.splits)
qed

section \<open>Applied to a conversation\<close>

definition demo_call :: "str \<Rightarrow> chat_message" where
  "demo_call i = (text_message ''assistant'' [])\<lparr>mg_content := None,
     mg_calls := Some [\<lparr>tc_id = Some i, tc_kind = ''function'', tc_name = ''ls'', tc_arguments = ''{}''\<rparr>]\<rparr>"

definition demo_result :: "str \<Rightarrow> str \<Rightarrow> chat_message" where
  "demo_result i t = (text_message ''tool'' t)\<lparr>mg_call_id := Some i\<rparr>"

text \<open>Thirty characters of three bytes each.\<close>

definition wide_output :: str where
  "wide_output = concat (replicate 30 [CHR 0xE2, CHR 0x82, CHR 0xAC])"

definition demo_conversation :: "chat_message list" where
  "demo_conversation =
     [text_message ''system'' ''s'', text_message ''user'' ''go'',
      demo_call ''1'', demo_result ''1'' wide_output, demo_call ''2'', demo_result ''2'' ''b'',
      demo_call ''3'', demo_result ''3'' ''c'']"

definition demo_service :: "(chat_message \<times> usage) service" where
  "demo_service = \<lparr>answer = (\<lambda>_. Inr (text_message ''assistant'' ''done so far'', no_usage)), random = (\<lambda>_. 0),
     floats = whole_numbers\<rparr>"

definition demo_money :: money where
  "demo_money = \<lparr>plus_usd = (+), reaches = (\<ge>), usable = (\<lambda>_. True), price_estimate = (\<lambda>_. Some 0),
     cents = show_nat, fine_cents = show_nat\<rparr>"

definition demo_compaction :: compaction_env where
  "demo_compaction = \<lparr>share_prune = (\<lambda>n. n * 3 div 5), share_summarize = (\<lambda>n. n * 17 div 20),
     share_transcript = (\<lambda>n. n div 2), tools_chars = 0, ask = (\<lambda>_ _. demo_service), backoff = 0,
     env_floats = whole_numbers, env_money = demo_money\<rparr>"

theorem elision_in_place_witness:
  "(case elide_old_tool_results demo_conversation 0 of (ms', n) \<Rightarrow>
      n = 1 \<and> length ms' = 8 \<and> elide_old_tool_results ms' 0 = (ms', 0))"
proof -
  obtain ms' n where e: "elide_old_tool_results demo_conversation 0 = (ms', n)" by fastforce
  have "snd (elide_old_tool_results demo_conversation 0) = 1" by code_simp
  moreover have "length demo_conversation = 8" by (simp add: demo_conversation_def)
  ultimately show ?thesis using elision_in_place[OF e] e by simp
qed

lemma demo_coherent: "coherent demo_conversation"
  by code_simp

theorem compaction_keeps_request_and_pairing_witness:
  "(case compact_context demo_compaction (new_window None) True True demo_conversation (Some 1) of
      (ms', anchor', r) \<Rightarrow> coherent ms' \<and> length ms' = 7 \<and>
        (\<exists>b. anchor' = Some b \<and> ms' ! b = text_message ''user'' ''go''))"
proof -
  obtain ms' anchor' r where c:
      "compact_context demo_compaction (new_window None) True True demo_conversation (Some 1) = (ms', anchor', r)"
    by (metis prod_cases3)
  have "length (fst (compact_context demo_compaction (new_window None) True True demo_conversation (Some 1))) = 7"
    by code_simp
  moreover have "1 < length demo_conversation" "demo_conversation ! 1 = text_message ''user'' ''go''"
      "mg_role (demo_conversation ! 1) = ''user''"
    by (simp_all add: demo_conversation_def text_message_def)
  ultimately show ?thesis
    using compaction_keeps_request_and_pairing[OF demo_coherent _ _ c] c by auto
qed

definition demo_plan :: summary_plan where
  "demo_plan = \<lparr>before_start = 1, before_end = 1, after_start = 2, after_end = 4\<rparr>"

lemma demo_span:
  "summary_span (fst (elide_old_tool_results demo_conversation 0)) (Some 1) 2 = Some demo_plan"
  by code_simp

theorem summary_request_paired_witness:
  "\<exists>req. summary_prefix demo_compaction (new_window None) (Some demo_conversation)
      (fst (elide_old_tool_results demo_conversation 0)) demo_plan = Some req \<and> coherent req"
proof -
  have "length demo_conversation = 8" by (simp add: demo_conversation_def)
  then obtain req where req: "summary_prefix demo_compaction (new_window None) (Some demo_conversation)
      (fst (elide_old_tool_results demo_conversation 0)) demo_plan = Some req"
    by (simp add: summary_prefix_def plan_end_def demo_plan_def after_empty_def new_window_def)
  then show ?thesis
    using summary_request_paired[OF demo_coherent refl demo_span _ req] by blast
qed

text \<open>Eliding can make the estimate larger: it compares bytes, the estimate counts characters.\<close>

theorem elision_can_grow_estimate:
  "snd (elide_old_tool_results demo_conversation 0) = 1 \<and>
   estimate_tokens demo_conversation 0 < estimate_tokens (fst (elide_old_tool_results demo_conversation 0)) 0"
  by code_simp

end
