(* ===== verification/Tool_Output.thy ===== *)
theory Tool_Output
  imports Prelude
begin

text \<open>
  What the model sees of a tool call (crates/milim-agents/src/tool_output.rs): parsing and checking the
  arguments before it runs, rendering the result, cutting it to a budget and saving the full text.
  Offsets and lengths are \<open>nat\<close>, counted in bytes. JSON parsing and printing, fresh UUIDs
  and the file system are parameters.
\<close>

definition TOOL_REPLAY_MAX_LINES :: nat where "TOOL_REPLAY_MAX_LINES = 2000"
definition TOOL_REPLAY_MAX_BYTES :: nat where "TOOL_REPLAY_MAX_BYTES = 50 * 1024"
definition STEP_REPLAY_MAX_BYTES :: nat where "STEP_REPLAY_MAX_BYTES = 100 * 1024"
definition STEP_REPLAY_MIN_BYTES :: nat where "STEP_REPLAY_MIN_BYTES = 2 * 1024"
definition TRUNCATION_NOTE_BYTES :: nat where "TRUNCATION_NOTE_BYTES = 512"

section \<open>Arguments\<close>

definition parse_tool_arguments :: "(str \<Rightarrow> str + json) \<Rightarrow> str \<Rightarrow> str + json" where
  "parse_tool_arguments parse arguments =
     (if trim arguments = [] then Inr (JObj []) else parse arguments)"

definition invalid_json_message :: "str \<Rightarrow> bool \<Rightarrow> str" where
  "invalid_json_message error truncated =
     (if truncated then
        ''Tool call arguments were not valid JSON ('' @ error @ ''). Your previous response was cut off at the output token limit, so the arguments were incomplete. Retry with smaller content, for example split a large write into several smaller edits.''
      else
        ''Tool call arguments were not valid JSON ('' @ error @ ''). Send the arguments as a single JSON object that matches the tool's input schema.'')"

fun json_type_name :: "json \<Rightarrow> str" where
  "json_type_name JNull = ''null''"
| "json_type_name (JBool _) = ''boolean''"
| "json_type_name (JInt _) = ''number''"
| "json_type_name (JFloat _) = ''number''"
| "json_type_name (JStr _) = ''string''"
| "json_type_name (JArr _) = ''array''"
| "json_type_name (JObj _) = ''object''"

text \<open>\<open>whole\<close> tells whether the double with the given bits has no fraction.\<close>

definition json_type_matches :: "(nat \<Rightarrow> bool) \<Rightarrow> str \<Rightarrow> json \<Rightarrow> bool" where
  "json_type_matches whole kind v \<longleftrightarrow>
     (if kind = ''string'' then as_str v \<noteq> None
      else if kind = ''number'' then (case v of JInt _ \<Rightarrow> True | JFloat _ \<Rightarrow> True | _ \<Rightarrow> False)
      else if kind = ''integer'' then (case v of JInt _ \<Rightarrow> True | JFloat b \<Rightarrow> whole b | _ \<Rightarrow> False)
      else if kind = ''boolean'' then as_bool v \<noteq> None
      else if kind = ''object'' then as_object v \<noteq> None
      else if kind = ''array'' then as_array v \<noteq> None
      else if kind = ''null'' then v = JNull
      else True)"

fun join :: "str \<Rightarrow> str list \<Rightarrow> str" where
  "join sep [] = []"
| "join sep [s] = s"
| "join sep (s # t # ss) = s @ sep @ join sep (t # ss)"

definition wants_object :: "json \<Rightarrow> bool" where
  "wants_object schema \<longleftrightarrow>
     Option.bind (jget ''type'' schema) as_str = Some ''object'' \<or> jget ''properties'' schema \<noteq> None"

definition required_names :: "json \<Rightarrow> str list" where
  "required_names schema =
     (case Option.bind (jget ''required'' schema) as_array of
        None \<Rightarrow> [] | Some xs \<Rightarrow> List.map_filter as_str xs)"

definition missing_message :: "str list \<Rightarrow> str" where
  "missing_message missing =
     ''Missing required argument'' @ (if length missing = 1 then [] else ''s'') @ '': '' @
       join '', '' (sort missing) @ ''.''"

text \<open>The type names a property allows; \<open>None\<close> when its type constrains nothing.\<close>

definition allowed_types :: "(str \<times> json) list \<Rightarrow> str \<Rightarrow> str list option" where
  "allowed_types properties name =
     (case Option.bind (map_of properties name) (jget ''type'') of
        Some (JStr kind) \<Rightarrow> Some [kind]
      | Some (JArr kinds) \<Rightarrow> Some (List.map_filter as_str kinds)
      | _ \<Rightarrow> None)"

fun check_types :: "(nat \<Rightarrow> bool) \<Rightarrow> (str \<times> json) list \<Rightarrow> (str \<times> json) list \<Rightarrow> str + unit" where
  "check_types whole properties [] = Inr ()"
| "check_types whole properties ((name, v) # rest) =
     (case allowed_types properties name of
        None \<Rightarrow> check_types whole properties rest
      | Some allowed \<Rightarrow>
          (if allowed = [] \<or> list_ex (\<lambda>kind. json_type_matches whole kind v) allowed
           then check_types whole properties rest
           else Inl (''Argument `'' @ name @ ''` must be '' @ join '' or '' allowed @ '', got '' @
                  json_type_name v @ ''.'')))"

definition validate_tool_arguments :: "(nat \<Rightarrow> bool) \<Rightarrow> json \<Rightarrow> json \<Rightarrow> str + unit" where
  "validate_tool_arguments whole schema args =
     (if \<not> wants_object schema then Inr ()
      else case as_object args of
        None \<Rightarrow> Inl (''Tool arguments must be a JSON object, got '' @ json_type_name args @ ''.'')
      | Some object \<Rightarrow>
          (let missing = filter (\<lambda>name. map_of object name = None) (required_names schema)
           in if missing \<noteq> [] then Inl (missing_message missing)
              else case Option.bind (jget ''properties'' schema) as_object of
                None \<Rightarrow> Inr ()
              | Some properties \<Rightarrow> check_types whole properties object))"

section \<open>Rendering\<close>

abbreviation newline :: char where "newline \<equiv> CHR 0x0A"

definition multiline :: "json \<Rightarrow> bool" where
  "multiline v \<longleftrightarrow> (case as_str v of None \<Rightarrow> False | Some t \<Rightarrow> newline \<in> set t)"

definition trim_newlines :: "str \<Rightarrow> str" where
  "trim_newlines t = rev (dropWhile (\<lambda>c. c = newline) (rev t))"

definition section_text :: "str \<times> json \<Rightarrow> str" where
  "section_text kv = ''--- '' @ fst kv @ '' ---'' @ newline #
     trim_newlines (case as_str (snd kv) of None \<Rightarrow> [] | Some t \<Rightarrow> t)"

definition render_tool_value :: "(json \<Rightarrow> str) \<Rightarrow> json \<Rightarrow> str" where
  "render_tool_value to_text v =
     (case v of
        JStr t \<Rightarrow> t
      | JObj object \<Rightarrow>
          (let long = filter (\<lambda>kv. multiline (snd kv)) object;
               rest = filter (\<lambda>kv. \<not> multiline (snd kv)) object
           in if long = [] then to_text v
              else join [newline, newline]
                     ((if rest = [] then [] else [to_text (JObj rest)]) @ map section_text long))
      | _ \<Rightarrow> to_text v)"

section \<open>Truncation\<close>

record truncated =
  tr_text :: str
  tr_lines :: nat
  tr_bytes :: nat

definition newlines :: "str \<Rightarrow> nat" where
  "newlines s = length (filter (\<lambda>c. c = newline) s)"

definition is_char_boundary :: "str \<Rightarrow> nat \<Rightarrow> bool" where
  "is_char_boundary t i \<longleftrightarrow> i = 0 \<or> i = length t \<or> (i < length t \<and> \<not> is_cont (t ! i))"

fun floor_from :: "str \<Rightarrow> nat \<Rightarrow> nat" where
  "floor_from t 0 = 0"
| "floor_from t (Suc i) = (if is_char_boundary t (Suc i) then Suc i else floor_from t i)"

definition floor_char_boundary :: "str \<Rightarrow> nat \<Rightarrow> nat" where
  "floor_char_boundary t i = floor_from t (min i (length t))"

function ceil_from :: "str \<Rightarrow> nat \<Rightarrow> nat" where
  "ceil_from t i = (if length t \<le> i \<or> is_char_boundary t i then i else ceil_from t (Suc i))"
  by pat_completeness auto
termination by (relation "measure (\<lambda>(t, i). length t - i)") auto

declare ceil_from.simps [simp del]

definition ceil_char_boundary :: "str \<Rightarrow> nat \<Rightarrow> nat" where
  "ceil_char_boundary t i = ceil_from t (min i (length t))"

text \<open>The two loops: \<open>kept\<close> lines taken so far and the offset reached, both returned.\<close>

function head_scan :: "str \<Rightarrow> nat \<Rightarrow> nat \<Rightarrow> nat \<Rightarrow> nat \<Rightarrow> nat \<times> nat" where
  "head_scan t half_lines half_bytes kept head_end =
     (if kept < half_lines then
        (case first_index (\<lambda>c. c = newline) (drop head_end t) of
           None \<Rightarrow> (kept, head_end)
         | Some offset \<Rightarrow>
             (let n = head_end + offset + 1
              in if half_bytes < n then (kept, head_end)
                 else head_scan t half_lines half_bytes (kept + 1) n))
      else (kept, head_end))"
  by pat_completeness auto
termination by (relation "measure (\<lambda>(t, half_lines, half_bytes, kept, head_end). half_lines - kept)") auto

declare head_scan.simps [simp del]

definition line_start :: "str \<Rightarrow> nat \<Rightarrow> nat" where
  "line_start t tail_start =
     (let search_end = (if tail_start = length t then tail_start else tail_start - 1)
      in case last_index (\<lambda>c. c = newline) (take search_end t) of None \<Rightarrow> 0 | Some i \<Rightarrow> i + 1)"

function tail_scan :: "str \<Rightarrow> nat \<Rightarrow> nat \<Rightarrow> nat \<Rightarrow> nat \<Rightarrow> nat \<Rightarrow> nat \<times> nat" where
  "tail_scan t half_lines half_bytes head_end kept tail_start =
     (if kept < half_lines \<and> head_end < tail_start then
        (let start = line_start t tail_start
         in if half_bytes < length t - start \<or> start < head_end then (kept, tail_start)
            else tail_scan t half_lines half_bytes head_end (kept + 1) start)
      else (kept, tail_start))"
  by pat_completeness auto
termination
  by (relation "measure (\<lambda>(t, half_lines, half_bytes, head_end, kept, tail_start). half_lines - kept)") auto

declare tail_scan.simps [simp del]

definition head_cut :: "str \<Rightarrow> nat \<Rightarrow> nat \<Rightarrow> nat" where
  "head_cut t half_lines half_bytes =
     (case head_scan t half_lines half_bytes 0 0 of
        (kept, head_end) \<Rightarrow> if kept = 0 then floor_char_boundary t half_bytes else head_end)"

definition tail_cut :: "str \<Rightarrow> nat \<Rightarrow> nat \<Rightarrow> nat \<Rightarrow> nat" where
  "tail_cut t half_lines half_bytes head_end =
     (case tail_scan t half_lines half_bytes head_end 0 (length t) of
        (kept, tail_start) \<Rightarrow>
          max (if kept = 0 then ceil_char_boundary t (length t - half_bytes) else tail_start) head_end)"

definition ellipsis :: str where "ellipsis = [CHR 0xE2, CHR 0x80, CHR 0xA6]"

definition omission_marker :: "nat \<Rightarrow> nat \<Rightarrow> str" where
  "omission_marker lines bytes =
     newline # ''['' @ ellipsis @ '' '' @ show_nat lines @ '' lines / '' @ show_nat bytes @
       '' bytes omitted '' @ ellipsis @ '']'' @ [newline]"

definition truncate_head_tail :: "str \<Rightarrow> nat \<Rightarrow> nat \<Rightarrow> truncated option" where
  "truncate_head_tail t max_lines max_bytes =
     (if newlines t + 1 \<le> max_lines \<and> length t \<le> max_bytes then None
      else
        (let half_lines = max (max_lines div 2) 1;
             half_bytes = max (max_bytes div 2) 1;
             head_end = head_cut t half_lines half_bytes;
             tail_start = tail_cut t half_lines half_bytes head_end;
             omitted = take (tail_start - head_end) (drop head_end t);
             head = (case strip_suffix [newline] (take head_end t) of
                       Some h \<Rightarrow> h | None \<Rightarrow> take head_end t)
         in Some \<lparr>tr_text = head @ omission_marker (newlines omitted) (length omitted) @ drop tail_start t,
                  tr_lines = newlines omitted, tr_bytes = length omitted\<rparr>))"

section \<open>Saving the full text\<close>

definition is_alphanumeric :: "char \<Rightarrow> bool" where
  "is_alphanumeric c \<longleftrightarrow> (let n = (of_char c :: nat) in
     48 \<le> n \<and> n \<le> 57 \<or> 65 \<le> n \<and> n \<le> 90 \<or> 97 \<le> n \<and> n \<le> 122)"

text \<open>One underscore for every other character: for its first byte, none for the rest.\<close>

definition sanitize_char :: "char \<Rightarrow> str" where
  "sanitize_char c =
     (if is_alphanumeric c \<or> c = CHR ''-'' \<or> c = CHR ''_'' \<or> c = CHR ''.'' then [c]
      else if is_cont c then [] else ''_'')"

definition sanitize_component :: "str \<Rightarrow> str" where
  "sanitize_component v =
     (let s = concat (map sanitize_char v)
      in rev (dropWhile (\<lambda>c. c = CHR ''.'') (rev (dropWhile (\<lambda>c. c = CHR ''.'') s))))"

text \<open>\<open>save\<close>, when a root is registered: creates the directory, writes the file and gives the
  path shown, \<open>None\<close> on an error; the path is that below the root.\<close>

record output_env =
  to_text :: "json \<Rightarrow> str"
  save :: "(str list \<Rightarrow> str \<Rightarrow> str option) option"
  uuids :: "nat \<Rightarrow> str"

definition spill_path :: "str \<Rightarrow> str option \<Rightarrow> str option \<Rightarrow> str list" where
  "spill_path uuid scope call_id =
     (let scope = (case scope of
            Some v \<Rightarrow> if sanitize_component v \<noteq> [] then Some (sanitize_component v) else None
          | None \<Rightarrow> None);
          file = (case (scope, map_option sanitize_component call_id) of
            (Some _, Some c) \<Rightarrow> if c \<noteq> [] then c else uuid
          | _ \<Rightarrow> uuid)
      in [case scope of Some v \<Rightarrow> v | None \<Rightarrow> ''run'', file @ ''.txt''])"

definition replay_text ::
  "output_env \<Rightarrow> str \<Rightarrow> str \<Rightarrow> str option \<Rightarrow> str option \<Rightarrow> nat \<Rightarrow> nat \<Rightarrow> str" where
  "replay_text e uuid t scope call_id max_lines max_bytes =
     (case truncate_head_tail t max_lines max_bytes of
        None \<Rightarrow> t
      | Some tr \<Rightarrow>
          (case (case save e of None \<Rightarrow> None | Some w \<Rightarrow> w (spill_path uuid scope call_id) t) of
             Some path \<Rightarrow>
               tr_text tr @ [newline, newline] @ ''[Full output ('' @ show_nat (newlines t + 1) @
                 '' lines, '' @ show_nat (length t) @ '' bytes) saved to '' @ path @
                 ''. Page through it with read_file using offset/limit, or search it with grep.]''
           | None \<Rightarrow>
               tr_text tr @ [newline, newline] @ ''[Output truncated for context: '' @
                 show_nat (tr_lines tr) @ '' lines / '' @ show_nat (tr_bytes tr) @
                 '' bytes omitted from the middle.]''))"

section \<open>The budget of a step\<close>

text \<open>The loop over the sizes in ascending order; the number of sizes left is part of the state.\<close>

fun fair_share :: "nat \<Rightarrow> nat \<Rightarrow> nat list \<Rightarrow> nat" where
  "fair_share remaining share [] = share"
| "fair_share remaining share (n # sizes) =
     (let share = remaining div (length sizes + 1)
      in if share < n then share else fair_share (remaining - n) share sizes)"

definition step_byte_caps :: "nat list \<Rightarrow> nat \<Rightarrow> nat list" where
  "step_byte_caps lengths budget =
     (let sizes = map (\<lambda>n. min n TOOL_REPLAY_MAX_BYTES) lengths
      in if sum_list sizes \<le> budget then replicate (length sizes) TOOL_REPLAY_MAX_BYTES
         else
           (let share = fair_share budget 0 (sort sizes);
                cap = max (share - TRUNCATION_NOTE_BYTES) STEP_REPLAY_MIN_BYTES
            in map (\<lambda>n. if share < n then cap else TOOL_REPLAY_MAX_BYTES) sizes))"

definition model_tool_contents ::
  "output_env \<Rightarrow> (str option \<times> json \<times> str option) list \<Rightarrow> str option \<Rightarrow> str list" where
  "model_tool_contents e results scope =
     (let texts = map (\<lambda>(model_text, visible, call_id).
            (case model_text of Some t \<Rightarrow> t | None \<Rightarrow> render_tool_value (to_text e) visible, call_id)) results;
          caps = step_byte_caps (map (\<lambda>x. length (fst x)) texts) STEP_REPLAY_MAX_BYTES
      in map (\<lambda>(i, (t, call_id), max_bytes).
           replay_text e (uuids e i) t scope call_id TOOL_REPLAY_MAX_LINES max_bytes)
           (zip [0..<length texts] (zip texts caps)))"

end
