(* ===== verification/Tool_Properties.thy ===== *)
theory Tool_Properties
  imports Tool_Output "HOL-Library.Multiset"
begin

text \<open>
  That a truncated result is both ends of the text around what it says was left out, within its
  budget, and when its end is lost; that the results of a step fit the step's budget; and that a saved
  result stays below the root.
\<close>

section \<open>Lines\<close>

lemma newlines_append [simp]: "newlines (a @ b) = newlines a + newlines b"
  by (simp add: newlines_def)

lemma newlines_simps [simp]: "newlines [] = 0" "newlines (c # s) = (if c = newline then Suc (newlines s) else newlines s)"
  by (simp_all add: newlines_def)

lemma newlines_0: "newlines s = 0 \<longleftrightarrow> newline \<notin> set s"
  by (induction s) auto

lemma newlines_none: "(\<And>i. i < length s \<Longrightarrow> s ! i \<noteq> newline) \<Longrightarrow> newlines s = 0"
  by (auto simp: newlines_0 in_set_conv_nth)

text \<open>In UTF-8 no continuation byte follows a line feed.\<close>

definition lines_ok :: "str \<Rightarrow> bool" where
  "lines_ok t \<longleftrightarrow> (\<forall>i. Suc i < length t \<longrightarrow> t ! i = newline \<longrightarrow> \<not> is_cont (t ! Suc i))"

definition line_boundary :: "str \<Rightarrow> nat \<Rightarrow> bool" where
  "line_boundary t i \<longleftrightarrow> i \<le> length t \<and> (i = 0 \<or> i = length t \<or> t ! (i - 1) = newline)"

lemma line_boundary_char: "lines_ok t \<Longrightarrow> line_boundary t i \<Longrightarrow> is_char_boundary t i"
  by (cases i) (auto simp: lines_ok_def line_boundary_def is_char_boundary_def)

section \<open>The cuts\<close>

lemma floor_from: "i \<le> length t \<Longrightarrow> floor_from t i \<le> i \<and> is_char_boundary t (floor_from t i)"
  by (induction t i rule: floor_from.induct) (auto simp: is_char_boundary_def)

lemma ceil_from: "i \<le> length t \<Longrightarrow> i \<le> ceil_from t i \<and> ceil_from t i \<le> length t \<and> is_char_boundary t (ceil_from t i)"
proof (induction t i rule: ceil_from.induct)
  case (1 t i)
  then show ?case
    by (cases "length t \<le> i \<or> is_char_boundary t i") (auto simp: ceil_from.simps[of t i] is_char_boundary_def)
qed

lemma head_scan_inv:
  assumes "head_scan t hl hb k h = (k', h')"
    and "line_boundary t h" and "h \<le> hb" and "newlines (take h t) \<le> k" and "k \<le> hl"
  shows "line_boundary t h' \<and> h' \<le> hb \<and> newlines (take h' t) \<le> k' \<and> k' \<le> hl \<and> k \<le> k'"
  using assms
proof (induction t hl hb k h rule: head_scan.induct)
  case (1 t hl hb k h)
  show ?case
  proof (cases "k < hl \<and> (\<exists>i. first_index (\<lambda>c. c = newline) (drop h t) = Some i \<and> h + i + 1 \<le> hb)")
    case False
    then have "k' = k" "h' = h"
      using "1.prems"(1) by (auto simp: head_scan.simps[of t hl hb k h] Let_def split: if_splits option.splits)
    then show ?thesis using "1.prems" by simp
  next
    case True
    then obtain i where i: "k < hl" "first_index (\<lambda>c. c = newline) (drop h t) = Some i" "h + i + 1 \<le> hb" by blast
    then have at: "h + i < length t" "t ! (h + i) = newline" "\<forall>j < i. t ! (h + j) \<noteq> newline"
      by (auto simp: first_index_Some)
    have "take (h + i + 1) t = take h t @ take i (drop h t) @ [newline]"
      using at by (simp add: take_add take_Suc_conv_app_nth)
    moreover have "newlines (take i (drop h t)) = 0" using at by (intro newlines_none) simp
    ultimately have "newlines (take (h + i + 1) t) \<le> k + 1" using "1.prems"(4) by simp
    moreover have "line_boundary t (h + i + 1)" using at by (simp add: line_boundary_def)
    moreover have "head_scan t hl hb (k + 1) (h + i + 1) = (k', h')"
      using "1.prems"(1) i by (simp add: head_scan.simps[of t hl hb k h])
    ultimately show ?thesis using "1.IH"[OF i(1,2) refl] i by simp
  qed
qed

lemma head_scan_none:
  assumes "head_scan t hl hb 0 0 = (0, h)" and "0 < hl"
  shows "h = 0 \<and> newlines (take hb t) = 0"
proof (cases "first_index (\<lambda>c. c = newline) t")
  case None
  then have "newline \<notin> set t" by (auto simp: first_index_None)
  then have "newline \<notin> set (take hb t)" by (meson in_set_takeD)
  then show ?thesis
    using assms None by (simp add: head_scan.simps[of t hl hb 0 0] newlines_0)
next
  case (Some i)
  have "\<not> i + 1 \<le> hb"
  proof
    assume le: "i + 1 \<le> hb"
    then have "head_scan t hl hb 1 (i + 1) = (0, h)"
      using assms Some by (simp add: head_scan.simps[of t hl hb 0 0])
    moreover have "newlines (take (i + 1) t) \<le> 1"
    proof -
      have "newlines (take i t) = 0" using Some by (intro newlines_none) (auto simp: first_index_Some)
      then show ?thesis using Some by (simp add: first_index_Some take_Suc_conv_app_nth)
    qed
    ultimately have "1 \<le> (0::nat)"
      using head_scan_inv[of t hl hb 1 "i + 1" 0 h] le assms(2) Some
      by (simp add: line_boundary_def first_index_Some)
    then show False by simp
  qed
  then have "newlines (take hb t) = 0" using Some by (intro newlines_none) (auto simp: first_index_Some)
  then show ?thesis using assms Some \<open>\<not> i + 1 \<le> hb\<close> by (simp add: head_scan.simps[of t hl hb 0 0])
qed

lemma newlines_segment:
  assumes "i \<le> j" and "j \<le> length t" and "\<And>k. i \<le> k \<Longrightarrow> k < j \<Longrightarrow> t ! k \<noteq> newline"
  shows "newlines (drop i t) = newlines (drop j t)"
proof -
  have "drop i t = take (j - i) (drop i t) @ drop j t"
    using assms(1) by (metis append_take_drop_id drop_drop le_add_diff_inverse2)
  moreover have "newlines (take (j - i) (drop i t)) = 0"
    using assms by (intro newlines_none) auto
  ultimately show ?thesis by (metis newlines_append plus_nat.add_0)
qed

lemma newlines_step: "0 < j \<Longrightarrow> newlines (drop (j - 1) t) \<le> Suc (newlines (drop j t))"
proof (cases "j - 1 < length t")
  case True
  assume "0 < j"
  then have "drop (j - 1) t = t ! (j - 1) # drop j t" using True by (simp add: Cons_nth_drop_Suc[symmetric])
  then show ?thesis by simp
qed simp

lemma line_start:
  assumes "j \<le> length t" and "0 < j"
  shows "line_start t j \<le> j" and "line_boundary t (line_start t j)"
    and "newlines (drop (line_start t j) t) \<le> Suc (newlines (drop j t))"
    and "j = length t \<Longrightarrow> newlines (drop (line_start t j) t) = 0"
proof -
  define e where "e = (if j = length t then j else j - 1)"
  have e: "e \<le> j" "e \<le> length t" using assms by (auto simp: e_def)
  have s: "line_start t j = (case last_index (\<lambda>c. c = newline) (take e t) of None \<Rightarrow> 0 | Some i \<Rightarrow> i + 1)"
    by (simp add: line_start_def e_def)
  have range: "line_start t j \<le> e \<and> line_boundary t (line_start t j)"
    using e by (auto simp: s line_boundary_def split: option.splits dest!: last_index_Some)
  show "line_start t j \<le> j" "line_boundary t (line_start t j)" using range e by auto
  have none: "t ! k \<noteq> newline" if "line_start t j \<le> k" "k < e" for k
  proof (cases "last_index (\<lambda>c. c = newline) (take e t)")
    case None
    moreover have "take e t ! k \<in> set (take e t)" using that e by (intro nth_mem) simp
    ultimately show ?thesis using that by (auto simp: last_index_None)
  next
    case (Some i)
    then show ?thesis using last_index_last[OF Some, of k] that e s by simp
  qed
  have eq: "newlines (drop (line_start t j) t) = newlines (drop e t)"
    using range e none by (intro newlines_segment) auto
  show "newlines (drop (line_start t j) t) \<le> Suc (newlines (drop j t))"
    unfolding eq using newlines_step[OF assms(2), of t] by (auto simp: e_def)
  show "j = length t \<Longrightarrow> newlines (drop (line_start t j) t) = 0"
    unfolding eq by (simp add: e_def)
qed

lemma tail_scan_inv:
  assumes "tail_scan t hl hb h k j = (k', j')"
    and "h \<le> length t" and "line_boundary t j" and "length t - j \<le> hb" and "newlines (drop j t) \<le> k" and "k \<le> hl"
  shows "line_boundary t j' \<and> length t - j' \<le> hb \<and> newlines (drop j' t) \<le> k' \<and> k' \<le> hl \<and> k \<le> k'"
  using assms
proof (induction t hl hb h k j rule: tail_scan.induct)
  case (1 t hl hb h k j)
  show ?case
  proof (cases "k < hl \<and> h < j \<and> \<not> (hb < length t - line_start t j \<or> line_start t j < h)")
    case False
    then have "k' = k" "j' = j"
      using "1.prems"(1) by (auto simp: tail_scan.simps[of t hl hb h k j] Let_def split: if_splits)
    then show ?thesis using "1.prems" by simp
  next
    case True
    have j: "j \<le> length t" "0 < j" using "1.prems"(3) True by (auto simp: line_boundary_def)
    have "tail_scan t hl hb h (k + 1) (line_start t j) = (k', j')"
      using "1.prems"(1) True by (simp add: tail_scan.simps[of t hl hb h k j])
    moreover have "newlines (drop (line_start t j) t) \<le> k + 1"
      using line_start(3)[OF j] "1.prems"(5) by simp
    ultimately show ?thesis
      using "1.IH"[OF _ refl] True line_start(2)[OF j] "1.prems" by simp
  qed
qed

lemma tail_scan_none:
  assumes "tail_scan t hl hb h 0 (length t) = (0, j)" and "0 < hl" and "h \<le> length t"
  shows "j = length t \<and> newlines (drop (max (length t - hb) h) t) = 0"
proof (cases "h < length t")
  case False
  then show ?thesis using assms by (simp add: tail_scan.simps[of t hl hb "length t" 0 "length t"])
next
  case True
  let ?s = "line_start t (length t)"
  have l: "length t \<le> length t" "0 < length t" using True by auto
  note s = line_start[OF l]
  have stop: "hb < length t - ?s \<or> ?s < h"
  proof (rule ccontr)
    assume go: "\<not> (hb < length t - ?s \<or> ?s < h)"
    then have "tail_scan t hl hb h 1 ?s = (0, j)"
      using assms True by (simp add: tail_scan.simps[of t hl hb h 0])
    then show False
      using tail_scan_inv[of t hl hb h 1 ?s 0 j] assms s go by simp
  qed
  then have "?s \<le> max (length t - hb) h" using s(1) by auto
  then have "newlines (drop (max (length t - hb) h) t) = 0"
    using s(4)[OF refl] by (auto simp: newlines_0 dest: set_drop_subset_set_drop[THEN subsetD])
  then show ?thesis using assms stop True by (auto simp: tail_scan.simps[of t hl hb h 0])
qed

section \<open>Truncation\<close>

lemma head_cut:
  assumes "0 < hl" and "0 < hb"
  shows "head_cut t hl hb \<le> length t \<and> head_cut t hl hb \<le> hb \<and> newlines (take (head_cut t hl hb) t) \<le> hl \<and>
    (lines_ok t \<longrightarrow> is_char_boundary t (head_cut t hl hb))"
proof -
  obtain k h where kh: "head_scan t hl hb 0 0 = (k, h)" by fastforce
  show ?thesis
  proof (cases "k = 0")
    case True
    have f: "floor_char_boundary t hb \<le> length t \<and> floor_char_boundary t hb \<le> hb \<and>
        is_char_boundary t (floor_char_boundary t hb)"
      using floor_from[of "min hb (length t)" t] by (simp add: floor_char_boundary_def)
    then have "newline \<notin> set (take (floor_char_boundary t hb) t)"
      using head_scan_none[of t hl hb h] kh True assms
      by (meson newlines_0 set_take_subset_set_take subsetD)
    then show ?thesis using f kh True by (simp add: head_cut_def newlines_0[symmetric])
  next
    case False
    then show ?thesis
      using head_scan_inv[OF kh] kh line_boundary_char[of t h]
      by (auto simp: head_cut_def line_boundary_def)
  qed
qed

lemma tail_cut:
  assumes "0 < hl" and "h \<le> length t" and "lines_ok t \<longrightarrow> is_char_boundary t h"
  shows "h \<le> tail_cut t hl hb h \<and> tail_cut t hl hb h \<le> length t \<and> length t - tail_cut t hl hb h \<le> hb \<and>
    newlines (drop (tail_cut t hl hb h) t) \<le> hl \<and> (lines_ok t \<longrightarrow> is_char_boundary t (tail_cut t hl hb h))"
proof -
  obtain k j where kj: "tail_scan t hl hb h 0 (length t) = (k, j)" by fastforce
  show ?thesis
  proof (cases "k = 0")
    case True
    let ?c = "ceil_char_boundary t (length t - hb)"
    have c: "length t - hb \<le> ?c \<and> ?c \<le> length t \<and> is_char_boundary t ?c"
      using ceil_from[of "length t - hb" t] by (simp add: ceil_char_boundary_def)
    have "set (drop (max ?c h) t) \<subseteq> set (drop (max (length t - hb) h) t)"
      by (intro set_drop_subset_set_drop) (use c in auto)
    then have "newlines (drop (max ?c h) t) = 0"
      using tail_scan_none[OF kj[unfolded True] assms(1,2)] by (auto simp: newlines_0)
    then show ?thesis using c kj True assms by (auto simp: tail_cut_def max_def)
  next
    case False
    have "line_boundary t j \<and> length t - j \<le> hb \<and> newlines (drop j t) \<le> k \<and> k \<le> hl"
      using tail_scan_inv[OF kj] assms(2) by (simp add: line_boundary_def)
    moreover have "newlines (drop (max j h) t) \<le> newlines (drop j t)"
      by (metis add_leE drop_drop le_add_diff_inverse2 max.cobounded1 newlines_append append_take_drop_id order_refl)
    ultimately show ?thesis
      using kj False assms line_boundary_char[of t j] by (auto simp: tail_cut_def line_boundary_def max_def)
  qed
qed

text \<open>The text of the head without the line feed that the marker starts with.\<close>

definition head_text :: "str \<Rightarrow> str" where
  "head_text h = (case strip_suffix [newline] h of Some s \<Rightarrow> s | None \<Rightarrow> h)"

lemma truncate_parts:
  assumes "truncate_head_tail t ml mb = Some r"
    and "hl = max (ml div 2) 1" and "hb = max (mb div 2) 1"
    and "h = head_cut t hl hb" and "j = tail_cut t hl hb h"
  shows "tr_text r = head_text (take h t) @
      omission_marker (newlines (take (j - h) (drop h t))) (length (take (j - h) (drop h t))) @ drop j t \<and>
    tr_lines r = newlines (take (j - h) (drop h t)) \<and> tr_bytes r = length (take (j - h) (drop h t))"
proof -
  from assms(1) have "r = (let mid = take (j - h) (drop h t) in
      \<lparr>tr_text = head_text (take h t) @ omission_marker (newlines mid) (length mid) @ drop j t,
       tr_lines = newlines mid, tr_bytes = length mid\<rparr>)"
    unfolding truncate_head_tail_def Let_def head_text_def assms(5) assms(4) assms(3) assms(2)
    by (simp only: option.inject option.distinct split: if_splits)
  then show ?thesis by (simp add: Let_def)
qed


lemma tail_scan_stuck:
  assumes "h < length t" and "last t = newline"
  shows "k \<le> hl \<Longrightarrow> tail_scan t hl hb h k (length t) = (hl, length t)"
proof (induction "hl - k" arbitrary: k)
  case 0
  then have "k = hl" by simp
  then show ?case by (subst tail_scan.simps) simp
next
  case (Suc n)
  have "line_start t (length t) = length t"
  proof -
    have "rev t \<noteq> []" and "hd (rev t) = newline" using assms by (auto simp: hd_rev)
    then have "first_index (\<lambda>c. c = newline) (rev t) = Some 0" by (cases "rev t") auto
    then show ?thesis using assms(1) by (simp add: line_start_def last_index_def)
  qed
  then have "tail_scan t hl hb h k (length t) = tail_scan t hl hb h (k + 1) (length t)"
  proof -
    have "k < hl" using Suc.hyps(2) by linarith
    with \<open>line_start t (length t) = length t\<close> show ?thesis
      using assms(1) by (subst tail_scan.simps) simp
  qed
  then show ?case using Suc by simp
qed

text \<open>When a text that ends with a line feed is cut, its whole end is lost: nothing follows the
  marker, and no more than half of the budget is kept.\<close>

theorem tail_lost_after_newline:
  assumes "truncate_head_tail (s @ [newline]) max_lines max_bytes = Some r"
  shows "\<exists>head mid. s @ [newline] = head @ mid \<and>
    tr_text r = head_text head @ omission_marker (newlines mid) (length mid) \<and>
    length head \<le> max (max_bytes div 2) 1"
proof -
  let ?t = "s @ [newline]"
  define hl hb where "hl = max (max_lines div 2) 1" and "hb = max (max_bytes div 2) 1"
  define h where "h = head_cut ?t hl hb"
  have pos: "0 < hl" "0 < hb" by (simp_all add: hl_def hb_def)
  have h: "h \<le> length ?t" "h \<le> hb" unfolding h_def using head_cut[OF pos] by blast+
  have j: "tail_cut ?t hl hb h = length ?t"
  proof (cases "h < length ?t")
    case True
    then show ?thesis using tail_scan_stuck[OF True, of 0 hl hb] pos by (simp add: tail_cut_def)
  next
    case False
    then have "h = length ?t" using h by simp
    moreover have "h \<le> tail_cut ?t hl hb h \<and> tail_cut ?t hl hb h \<le> length ?t"
      using tail_cut[OF pos(1) h(1)] head_cut[OF pos, of ?t] unfolding h_def by blast
    ultimately show ?thesis by simp
  qed
  have "tr_text r = head_text (take h ?t) @ omission_marker (newlines (drop h ?t)) (length (drop h ?t))"
    using truncate_parts[OF assms hl_def hb_def h_def refl] unfolding j by simp
  moreover have "?t = take h ?t @ drop h ?t" by (simp only: append_take_drop_id)
  moreover have "length (take h ?t) \<le> max (max_bytes div 2) 1" using h(2) by (simp add: hb_def)
  ultimately show ?thesis by blast
qed

text \<open>Six lines of which four may be kept.\<close>

definition six_lines :: str where
  "six_lines = concat (map (\<lambda>c. [c, newline]) ''abcde'') @ ''f''"


theorem tail_lost_after_newline_witness:
  "\<exists>r. truncate_head_tail (six_lines @ [newline]) 4 100 = Some r \<and>
     (\<exists>head mid. six_lines @ [newline] = head @ mid \<and>
        tr_text r = head_text head @ omission_marker (newlines mid) (length mid))"
proof -
  have "truncate_head_tail (six_lines @ [newline]) 4 100 \<noteq> None" by code_simp
  then obtain r where r: "truncate_head_tail (six_lines @ [newline]) 4 100 = Some r" by auto
  then show ?thesis using tail_lost_after_newline[OF r] by blast
qed

section \<open>The budget of a step\<close>

lemma fair_share_ge:
  assumes "xs = [] \<longrightarrow> c \<le> share" and "c * length xs \<le> r" and "sorted xs"
  shows "c \<le> fair_share r share xs"
  using assms
proof (induction r share xs rule: fair_share.induct)
  case (2 r share x xs)
  let ?s = "r div (length xs + 1)"
  have c: "c \<le> ?s" using "2.prems"(2) by (simp add: less_eq_div_iff_mult_less_eq)
  show ?case
  proof (cases "?s < x")
    case False
    have "?s * (length xs + 1) \<le> r" by (rule div_times_less_eq_dividend)
    then have "?s * length xs \<le> r - x" using False by (simp add: algebra_simps)
    then have "c * length xs \<le> r - x" using c by (meson mult_le_mono1 order_trans)
    moreover have "xs = [] \<longrightarrow> c \<le> ?s" using c by blast
    moreover have "sorted xs" using "2.prems"(3) by simp
    ultimately have "c \<le> fair_share (r - x) ?s xs" using "2.IH"[OF refl False] by blast
    then show ?thesis using False by (simp add: Let_def)
  qed (use c in \<open>simp add: Let_def\<close>)
qed simp

lemma fair_share_sum:
  assumes "sorted xs" and "xs \<noteq> []"
  shows "sum_list (map (\<lambda>x. min x (fair_share r share xs)) xs) \<le> r"
  using assms
proof (induction r share xs rule: fair_share.induct)
  case (2 r share x xs)
  let ?s = "r div (length xs + 1)"
  have le: "?s * (length xs + 1) \<le> r" by (rule div_times_less_eq_dividend)
  show ?case
  proof (cases "?s < x")
    case True
    then have "\<forall>y \<in> set (x # xs). min y ?s = ?s" using "2.prems"(1) by auto
    then have "map (\<lambda>y. min y ?s) (x # xs) = replicate (length (x # xs)) ?s"
      by (intro replicate_eqI) auto
    then show ?thesis using True le by (simp add: Let_def sum_list_replicate algebra_simps)
  next
    case False
    let ?f = "fair_share (r - x) ?s xs"
    have "?s * length xs \<le> r - x" using False le by (simp add: algebra_simps)
    then have "?s \<le> ?f" using "2.prems"(1) by (intro fair_share_ge) auto
    then have "min x ?f = x" using False by simp
    moreover have "sum_list (map (\<lambda>y. min y ?f) xs) \<le> r - x"
      using "2.IH"[OF refl False] "2.prems"(1) by (cases "xs = []") auto
    moreover have "x \<le> r" using False le by (simp add: algebra_simps)
    ultimately show ?thesis using False by (simp add: Let_def)
  qed
qed simp

lemma sum_list_sort: "sum_list (map f (sort xs)) = sum_list (map f (xs :: nat list) :: nat list)"
proof -
  have "mset (map f (sort xs)) = mset (map f xs)" by simp
  then show ?thesis by (metis sum_mset_sum_list)
qed

text \<open>What a result of \<open>n\<close> bytes with a cap adds for the model: a result cut by the step's budget
  also gains the marker and the note, for which an allowance is kept.\<close>

definition replayed :: "nat \<Rightarrow> nat \<Rightarrow> nat" where
  "replayed n cap =
     (if cap < TOOL_REPLAY_MAX_BYTES \<and> cap < n then cap + TRUNCATION_NOTE_BYTES else min n cap)"

lemmas replay_limits = TOOL_REPLAY_MAX_BYTES_def STEP_REPLAY_MAX_BYTES_def STEP_REPLAY_MIN_BYTES_def
  TRUNCATION_NOTE_BYTES_def

text \<open>The results of up to forty calls of one step fit the step's budget together with the notes
  of those it cuts. Every result has a cap of at least two and at most fifty kilobytes, and when
  all fit, each keeps the normal cap.\<close>

theorem step_results_within_budget:
  assumes "length lengths \<le> 40" and "caps = step_byte_caps lengths STEP_REPLAY_MAX_BYTES"
  shows "length caps = length lengths \<and>
    sum_list (map (\<lambda>(n, cap). replayed n cap) (zip lengths caps)) \<le> STEP_REPLAY_MAX_BYTES \<and>
    (\<forall>cap \<in> set caps. STEP_REPLAY_MIN_BYTES \<le> cap \<and> cap \<le> TOOL_REPLAY_MAX_BYTES) \<and>
    (sum_list lengths \<le> STEP_REPLAY_MAX_BYTES \<longrightarrow> set caps \<subseteq> {TOOL_REPLAY_MAX_BYTES})"
proof -
  let ?B = STEP_REPLAY_MAX_BYTES
  let ?T = TOOL_REPLAY_MAX_BYTES
  define sizes where "sizes = map (\<lambda>n. min n ?T) lengths"
  have caps: "caps = (if sum_list sizes \<le> ?B then replicate (length sizes) ?T
      else map (\<lambda>n. if fair_share ?B 0 (sort sizes) < n
        then max (fair_share ?B 0 (sort sizes) - TRUNCATION_NOTE_BYTES) STEP_REPLAY_MIN_BYTES else ?T) sizes)"
    unfolding assms(2) step_byte_caps_def Let_def sizes_def ..
  have smaller: "sum_list sizes \<le> sum_list lengths"
    unfolding sizes_def by (induction lengths) auto
  show ?thesis
  proof (cases "sum_list sizes \<le> ?B")
    case True
    then have c: "caps = map (\<lambda>_. ?T) lengths"
      unfolding caps by (simp add: sizes_def map_replicate_const)
    have "map (\<lambda>(n, cap). replayed n cap) (zip lengths caps) = sizes"
      unfolding c sizes_def by (simp add: zip_map2 zip_same_conv_map replayed_def comp_def)
    then show ?thesis using True by (auto simp: c replay_limits)
  next
    case False
    define share where "share = fair_share ?B 0 (sort sizes)"
    have ne: "sort sizes \<noteq> []" using False by (cases "sizes = []") (auto dest: arg_cong[of _ _ length])
    have "2560 \<le> share"
      unfolding share_def using assms(1) ne by (intro fair_share_ge) (auto simp: sizes_def replay_limits)
    then have c: "caps = map (\<lambda>n. if share < min n ?T then share - TRUNCATION_NOTE_BYTES else ?T) lengths"
      unfolding caps share_def[symmetric] using False by (simp add: sizes_def replay_limits comp_def)
    have each: "replayed n (if share < min n ?T then share - TRUNCATION_NOTE_BYTES else ?T) = min (min n ?T) share" for n
      using \<open>2560 \<le> share\<close> by (auto simp: replayed_def replay_limits)
    have "map (\<lambda>(n, cap). replayed n cap) (zip lengths caps) = map (\<lambda>x. min x share) sizes"
      unfolding c sizes_def by (simp only: zip_map2 zip_same_conv_map map_map comp_def prod.case each)
    also have "sum_list \<dots> = sum_list (map (\<lambda>x. min x share) (sort sizes))" by (rule sum_list_sort[symmetric])
    also have "\<dots> \<le> ?B" unfolding share_def by (rule fair_share_sum) (simp_all add: ne)
    finally have "sum_list (map (\<lambda>(n, cap). replayed n cap) (zip lengths caps)) \<le> ?B" .
    moreover have "length caps = length lengths" by (simp add: c)
    moreover have "\<forall>cap \<in> set caps. STEP_REPLAY_MIN_BYTES \<le> cap \<and> cap \<le> ?T"
      using \<open>2560 \<le> share\<close> by (auto simp: c replay_limits)
    ultimately show ?thesis using False smaller by simp
  qed
qed

theorem step_results_within_budget_witness:
  "sum_list (map (\<lambda>(n, cap). replayed n cap)
     (zip [90000, 100, 60000, 70000] (step_byte_caps [90000, 100, 60000, 70000] STEP_REPLAY_MAX_BYTES)))
   \<le> STEP_REPLAY_MAX_BYTES"
  using step_results_within_budget[of "[90000, 100, 60000, 70000]"] by simp

text \<open>With many more results the smallest cap breaks the budget.\<close>

lemma sixty_results_exceed_budget:
  "STEP_REPLAY_MAX_BYTES < sum_list (step_byte_caps (replicate 60 3000) STEP_REPLAY_MAX_BYTES)"
proof -
  have first: "replicate 60 (3000::nat) = 3000 # replicate 59 3000"
    by (simp only: replicate_Suc[symmetric]) simp
  have "fair_share STEP_REPLAY_MAX_BYTES 0 (replicate 60 3000) = 1706"
    unfolding first by (simp add: replay_limits)
  then have "step_byte_caps (replicate 60 3000) STEP_REPLAY_MAX_BYTES = replicate 60 2048"
    by (simp add: step_byte_caps_def sort_replicate sum_list_replicate replay_limits Let_def)
  then show ?thesis by (simp add: sum_list_replicate replay_limits)
qed

section \<open>Saved results\<close>

definition safe_char :: "char \<Rightarrow> bool" where
  "safe_char c \<longleftrightarrow> is_alphanumeric c \<or> c = CHR ''-'' \<or> c = CHR ''_'' \<or> c = CHR ''.''"

lemma sanitize_chars: "c \<in> set (sanitize_component v) \<Longrightarrow> safe_char c"
proof -
  assume "c \<in> set (sanitize_component v)"
  then have "c \<in> set (concat (map sanitize_char v))"
    unfolding sanitize_component_def Let_def by (auto dest!: set_dropWhileD)
  then show "safe_char c"
    by (auto simp: sanitize_char_def safe_char_def split: if_splits)
qed

lemma dropWhile_hd: "dropWhile P xs = y # ys \<Longrightarrow> \<not> P y"
  by (metis hd_dropWhile list.distinct(1) list.sel(1))

lemma sanitize_ends: "sanitize_component v \<noteq> [] \<Longrightarrow> last (sanitize_component v) \<noteq> CHR ''.''"
proof -
  assume ne: "sanitize_component v \<noteq> []"
  define xs where "xs = dropWhile (\<lambda>c. c = CHR ''.'') (rev (dropWhile (\<lambda>c. c = CHR ''.'') (concat (map sanitize_char v))))"
  have eq: "sanitize_component v = rev xs" by (simp add: sanitize_component_def xs_def Let_def)
  then obtain y ys where "xs = y # ys" using ne by (cases xs) auto
  then show ?thesis using dropWhile_hd[of _ _ y ys] eq xs_def by auto
qed

text \<open>The file a cut result is saved to lies in a directory below the root, whatever the names of
  the run and of the call: both components are made of harmless characters, neither is empty,
  \<open>.\<close> or \<open>..\<close>, and the file ends in \<open>.txt\<close>.\<close>

theorem spill_stays_below_root:
  assumes "\<forall>c \<in> set uuid. safe_char c"
  shows "\<exists>dir name. spill_path uuid scope call_id = [dir, name @ ''.txt''] \<and>
    (\<forall>c \<in> set (dir @ name). safe_char c \<and> c \<noteq> CHR ''/'' \<and> c \<noteq> CHR 0x5C) \<and>
    dir \<noteq> [] \<and> dir \<noteq> ''.'' \<and> dir \<noteq> ''..''"
proof -
  have safe: "safe_char c \<Longrightarrow> c \<noteq> CHR ''/'' \<and> c \<noteq> CHR 0x5C" for c
    by (auto simp: safe_char_def is_alphanumeric_def)
  define where_to where "where_to = (case scope of
      Some v \<Rightarrow> if sanitize_component v \<noteq> [] then Some (sanitize_component v) else None | None \<Rightarrow> None)"
  define dir where "dir = (case where_to of Some v \<Rightarrow> v | None \<Rightarrow> ''run'')"
  define name where "name = (case (where_to, map_option sanitize_component call_id) of
      (Some _, Some c) \<Rightarrow> if c \<noteq> [] then c else uuid | _ \<Rightarrow> uuid)"
  have path: "spill_path uuid scope call_id = [dir, name @ ''.txt'']"
    unfolding spill_path_def where_to_def dir_def name_def Let_def ..
  have name: "name = uuid \<or> (\<exists>v. name = sanitize_component v)"
    unfolding name_def by (auto split: option.splits)
  have dir: "dir = ''run'' \<or> (\<exists>v. dir = sanitize_component v \<and> sanitize_component v \<noteq> [])"
    unfolding dir_def where_to_def by (auto split: option.splits)
  then have "\<forall>c \<in> set dir. safe_char c"
    using sanitize_chars by (auto simp: safe_char_def is_alphanumeric_def)
  moreover have "\<forall>c \<in> set name. safe_char c" using name assms sanitize_chars by auto
  moreover have "dir \<noteq> [] \<and> dir \<noteq> ''.'' \<and> dir \<noteq> ''..''" using dir sanitize_ends by fastforce
  ultimately show ?thesis using path safe by auto
qed

theorem spill_stays_below_root_witness:
  "\<exists>name. spill_path ''0f3a'' (Some ''../../etc'') (Some ''/passwd'') = [''_.._etc'', name @ ''.txt''] \<and>
     CHR ''/'' \<notin> set name"
proof -
  have "\<forall>c \<in> set ''0f3a''. safe_char c" by code_simp
  from spill_stays_below_root[OF this, of "Some ''../../etc''" "Some ''/passwd''"]
  obtain dir name where p: "spill_path ''0f3a'' (Some ''../../etc'') (Some ''/passwd'') = [dir, name @ ''.txt'']"
      "\<forall>c \<in> set (dir @ name). safe_char c \<and> c \<noteq> CHR ''/'' \<and> c \<noteq> CHR 0x5C" by blast
  have "hd (spill_path ''0f3a'' (Some ''../../etc'') (Some ''/passwd'')) = ''_.._etc''" by code_simp
  then have "dir = ''_.._etc''" unfolding p(1) by (simp only: list.sel)
  then show ?thesis using p by auto
qed

section \<open>Checked arguments\<close>





end
