(* ===== verification/Repeats.thy ===== *)
theory Repeats
  imports Tool_Output Approval_Broker
begin

text \<open>
  Notes for a model that repeats itself (crates/milim-agents/src/repeats.rs): the history of answered
  calls a run keeps and the note a further call earns. JSON parsing and printing, the hash of the
  standard library and the effect a registered tool declares for a call are parameters.
\<close>

definition REPEAT_THRESHOLD :: nat where "REPEAT_THRESHOLD = 3"

definition APPROVAL_TIMEOUT_MESSAGE :: str where
  "APPROVAL_TIMEOUT_MESSAGE = ''approval request timed out''"

record repeat_env =
  read_json :: "str \<Rightarrow> str + json"
  show_json :: "json \<Rightarrow> str"
  hash_of :: "str \<Rightarrow> nat"
  effect_for_call :: "str \<Rightarrow> json \<Rightarrow> tool_effect option"

text \<open>A call as the model made it: the name of the tool and the text of the arguments.\<close>

type_synonym made_call = "str \<times> str"

section \<open>Identity of calls\<close>

function canonical_json :: "(json \<Rightarrow> str) \<Rightarrow> json \<Rightarrow> str" where
  "canonical_json sh v =
     (case v of
        JObj kvs \<Rightarrow>
          ''{'' @ join '','' (map (\<lambda>kv. sh (JStr (fst kv)) @ '':'' @ canonical_json sh (snd kv)) (sort_key fst kvs))
            @ ''}''
      | JArr vs \<Rightarrow> ''['' @ join '','' (map (canonical_json sh) vs) @ '']''
      | _ \<Rightarrow> sh v)"
  by pat_completeness auto
termination
proof (relation "measure (\<lambda>(sh, v). size v)")
  fix sh :: "json \<Rightarrow> str" and v kvs kv
  assume "v = JObj kvs" and "kv \<in> set (sort_key fst kvs)"
  then show "((sh, snd kv), sh, v) \<in> measure (\<lambda>(sh, v). size v)"
    using size_member[of kv kvs] by auto
next
  fix sh :: "json \<Rightarrow> str" and v vs w
  assume "v = JArr vs" and "w \<in> set vs"
  then show "((sh, w), sh, v) \<in> measure (\<lambda>(sh, v). size v)"
    using size_list_estimation'[of w vs "size w" size] by auto
qed simp

declare canonical_json.simps [simp del]

text \<open>The name and the canonical arguments, or the raw ones when they are not JSON.\<close>

type_synonym call_key = "str \<times> (str + str)"

definition new_call_key :: "repeat_env \<Rightarrow> made_call \<Rightarrow> call_key \<times> json option" where
  "new_call_key e call =
     (case parse_tool_arguments (read_json e) (snd call) of
        Inr args \<Rightarrow> ((fst call, Inr (canonical_json (show_json e) args)), Some args)
      | Inl _ \<Rightarrow> ((fst call, Inl (trim (snd call))), None))"

section \<open>The tracker\<close>

record repeat_tracker =
  failures :: "call_key \<Rightarrow> nat option"
  denials :: "call_key \<Rightarrow> str option"
  read_results :: "call_key \<Rightarrow> (nat \<times> nat) option"

definition new_tracker :: repeat_tracker where
  "new_tracker = \<lparr>failures = Map.empty, denials = Map.empty, read_results = Map.empty\<rparr>"

definition prior_denial :: "repeat_env \<Rightarrow> repeat_tracker \<Rightarrow> made_call \<Rightarrow> str option" where
  "prior_denial e st call = denials st (fst (new_call_key e call))"

definition fingerprint :: "repeat_env \<Rightarrow> json \<Rightarrow> nat" where
  "fingerprint e v = hash_of e (canonical_json (show_json e) v)"

definition DENIED_AGAIN_NOTE :: str where
  "DENIED_AGAIN_NOTE = ''This exact call was already denied earlier in this run, so it was not run or sent for approval again. Do not repeat it: change approach, or tell the user what you need and why.''"

definition failed_again_note :: "nat \<Rightarrow> str" where
  "failed_again_note count = ''This exact call has now failed '' @ show_nat count @
     '' times with the same arguments. Stop retrying it unchanged: read the error, inspect the relevant state, and change approach.''"

definition unchanged_read_note :: "nat \<Rightarrow> str" where
  "unchanged_read_note count = ''This exact read-only call has now returned the same result '' @ show_nat count @
     '' times with nothing changed in between. Use the output you already have instead of running it again.''"

definition observe_denied :: "call_key \<Rightarrow> json \<Rightarrow> repeat_tracker \<Rightarrow> str option \<times> repeat_tracker" where
  "observe_denied key visible st =
     (let reason = (case Option.bind (jget ''error'' visible) as_str of None \<Rightarrow> [] | Some r \<Rightarrow> r)
      in if reason = APPROVAL_TIMEOUT_MESSAGE then (None, st)
         else case denials st key of
           Some _ \<Rightarrow> (Some DENIED_AGAIN_NOTE, st)
         | None \<Rightarrow> (None, st\<lparr>denials := (denials st)(key \<mapsto> reason)\<rparr>))"

definition observe_failed :: "call_key \<Rightarrow> repeat_tracker \<Rightarrow> str option \<times> repeat_tracker" where
  "observe_failed key st =
     (let count = (case failures st key of None \<Rightarrow> 0 | Some n \<Rightarrow> n) + 1
      in (if REPEAT_THRESHOLD \<le> count then Some (failed_again_note count) else None,
          st\<lparr>failures := (failures st)(key \<mapsto> count)\<rparr>))"

definition observe_read :: "call_key \<Rightarrow> nat \<Rightarrow> repeat_tracker \<Rightarrow> str option \<times> repeat_tracker" where
  "observe_read key output st =
     (let seen = (case read_results st key of None \<Rightarrow> (output, 0) | Some s \<Rightarrow> s);
          seen = (if fst seen \<noteq> output then (output, 0) else seen);
          count = snd seen + 1
      in (if REPEAT_THRESHOLD \<le> count then Some (unchanged_read_note count) else None,
          st\<lparr>read_results := (read_results st)(key \<mapsto> (fst seen, count))\<rparr>))"

definition observe ::
  "repeat_env \<Rightarrow> made_call \<Rightarrow> json \<Rightarrow> repeat_tracker \<Rightarrow> str option \<times> repeat_tracker" where
  "observe e call visible st =
     (if jget ''skipped'' visible \<noteq> None then (None, st)
      else
        (case new_call_key e call of
           (key, args) \<Rightarrow>
             (if Option.bind (jget ''denied'' visible) as_bool = Some True then observe_denied key visible st
              else if jget ''error'' visible \<noteq> None then observe_failed key st
              else
                (let st = st\<lparr>failures := (failures st)(key := None)\<rparr>;
                     read_only = (Option.bind args (effect_for_call e (fst call)) = Some ReadOnly)
                 in if \<not> read_only
                    then (None, st\<lparr>failures := Map.empty, read_results := Map.empty\<rparr>)
                    else observe_read key (fingerprint e visible) st))))"

definition with_note :: "str \<Rightarrow> str \<Rightarrow> str" where
  "with_note content note = content @ [newline, newline] @ ''[milim] '' @ note"

text \<open>The answered calls of a run in order, and the notes they earn.\<close>

fun observe_all ::
  "repeat_env \<Rightarrow> (made_call \<times> json) list \<Rightarrow> repeat_tracker \<Rightarrow> str option list \<times> repeat_tracker" where
  "observe_all e [] st = ([], st)"
| "observe_all e ((call, visible) # rest) st =
     (case observe e call visible st of
        (note, st') \<Rightarrow> (case observe_all e rest st' of (notes, st'') \<Rightarrow> (note # notes, st'')))"

end
