(* ===== verification/Repeat_Properties.thy ===== *)
theory Repeat_Properties
  imports Repeats
begin

text \<open>
  The tracker against its meaning: what every answered call was, oldest last, and for each kind of
  note the condition on that history under which it is due.
\<close>

section \<open>The history\<close>

datatype answer_kind = Ignored | Refused str | Broken | Unchanging nat | Changing

definition kind_of :: "repeat_env \<Rightarrow> made_call \<times> json \<Rightarrow> answer_kind" where
  "kind_of e answered = (case answered of (call, visible) \<Rightarrow>
     if jget ''skipped'' visible \<noteq> None then Ignored
     else if Option.bind (jget ''denied'' visible) as_bool = Some True then
       (let reason = (case Option.bind (jget ''error'' visible) as_str of None \<Rightarrow> [] | Some r \<Rightarrow> r)
        in if reason = APPROVAL_TIMEOUT_MESSAGE then Ignored else Refused reason)
     else if jget ''error'' visible \<noteq> None then Broken
     else if Option.bind (snd (new_call_key e call)) (effect_for_call e (fst call)) = Some ReadOnly
       then Unchanging (fingerprint e visible)
     else Changing)"

type_synonym event = "call_key \<times> answer_kind"

definition event_of :: "repeat_env \<Rightarrow> made_call \<times> json \<Rightarrow> event" where
  "event_of e answered = (fst (new_call_key e (fst answered)), kind_of e answered)"

fun refusal :: "answer_kind \<Rightarrow> str option" where
  "refusal (Refused r) = Some r"
| "refusal _ = None"

fun read_of :: "answer_kind \<Rightarrow> nat option" where
  "read_of (Unchanging f) = Some f"
| "read_of _ = None"

text \<open>The first refusal of a call, its failures since it or anything changing succeeded, its results
  since anything changing succeeded.\<close>

definition refused :: "call_key \<Rightarrow> event list \<Rightarrow> str option" where
  "refused k h = first_some (\<lambda>ev. if fst ev = k then refusal (snd ev) else None) (rev h)"

definition failed :: "call_key \<Rightarrow> event list \<Rightarrow> nat" where
  "failed k h = length (filter (\<lambda>ev. ev = (k, Broken))
     (takeWhile (\<lambda>ev. snd ev \<noteq> Changing \<and> \<not> (fst ev = k \<and> read_of (snd ev) \<noteq> None)) h))"

definition results :: "call_key \<Rightarrow> event list \<Rightarrow> nat list" where
  "results k h = List.map_filter (\<lambda>ev. if fst ev = k then read_of (snd ev) else None)
     (takeWhile (\<lambda>ev. snd ev \<noteq> Changing) h)"

definition same_results :: "call_key \<Rightarrow> nat \<Rightarrow> event list \<Rightarrow> nat" where
  "same_results k f h = length (takeWhile (\<lambda>g. g = f) (results k h))"

text \<open>The note an answered call is due after the given history.\<close>

definition due_note :: "event list \<Rightarrow> event \<Rightarrow> str option" where
  "due_note h ev = (case snd ev of
       Refused _ \<Rightarrow> if refused (fst ev) h \<noteq> None then Some DENIED_AGAIN_NOTE else None
     | Broken \<Rightarrow>
         (let n = Suc (failed (fst ev) h) in if 3 \<le> n then Some (failed_again_note n) else None)
     | Unchanging f \<Rightarrow>
         (let n = Suc (same_results (fst ev) f h) in if 3 \<le> n then Some (unchanged_read_note n) else None)
     | _ \<Rightarrow> None)"

fun due_notes :: "event list \<Rightarrow> event list \<Rightarrow> str option list" where
  "due_notes h [] = []"
| "due_notes h (ev # evs) = due_note h ev # due_notes (ev # h) evs"

section \<open>One call\<close>

lemma first_some_append:
  "first_some f (xs @ ys) = (case first_some f xs of Some y \<Rightarrow> Some y | None \<Rightarrow> first_some f ys)"
  by (induction xs) (auto split: option.splits)

lemma refused_Cons:
  "refused k (ev # h) = (case refused k h of Some r \<Rightarrow> Some r
     | None \<Rightarrow> if fst ev = k then refusal (snd ev) else None)"
  by (auto simp: refused_def first_some_append split: option.splits)

lemma failed_Cons:
  "failed k (ev # h) =
     (if snd ev = Changing \<or> fst ev = k \<and> read_of (snd ev) \<noteq> None then 0
      else if ev = (k, Broken) then Suc (failed k h) else failed k h)"
  by (auto simp: failed_def)

lemma results_Cons:
  "results k (ev # h) =
     (if snd ev = Changing then []
      else case (if fst ev = k then read_of (snd ev) else None) of
        Some f \<Rightarrow> f # results k h | None \<Rightarrow> results k h)"
  by (auto simp: results_def map_filter_simps split: option.splits)

lemma same_results_Cons:
  "same_results k f (ev # h) =
     (if snd ev = Changing then 0
      else case (if fst ev = k then read_of (snd ev) else None) of
        Some g \<Rightarrow> if g = f then Suc (same_results k f h) else 0 | None \<Rightarrow> same_results k f h)"
  by (auto simp: same_results_def results_Cons split: option.splits)

lemma same_results_start:
  "results k h = [] \<Longrightarrow> same_results k f h = 0"
  "results k h = g # gs \<Longrightarrow> g \<noteq> f \<Longrightarrow> same_results k f h = 0"
  by (simp_all add: same_results_def)

text \<open>The tracker after a history.\<close>

definition tracks :: "event list \<Rightarrow> repeat_tracker \<Rightarrow> bool" where
  "tracks h st \<longleftrightarrow>
     (\<forall>k. denials st k = refused k h) \<and>
     (\<forall>k. failures st k = (if failed k h = 0 then None else Some (failed k h))) \<and>
     (\<forall>k. read_results st k =
        (case results k h of [] \<Rightarrow> None | f # _ \<Rightarrow> Some (f, same_results k f h)))"

lemma tracks_new: "tracks [] new_tracker"
  by (simp add: tracks_def new_tracker_def refused_def failed_def results_def map_filter_simps)

lemma observe_event:
  "observe e call visible st = (case event_of e (call, visible) of (key, out) \<Rightarrow>
     (case out of
        Ignored \<Rightarrow> (None, st)
      | Refused reason \<Rightarrow> (case denials st key of
            Some _ \<Rightarrow> (Some DENIED_AGAIN_NOTE, st)
          | None \<Rightarrow> (None, st\<lparr>denials := (denials st)(key \<mapsto> reason)\<rparr>))
      | Broken \<Rightarrow> observe_failed key st
      | Unchanging f \<Rightarrow> observe_read key f (st\<lparr>failures := (failures st)(key := None)\<rparr>)
      | Changing \<Rightarrow> (None, st\<lparr>failures := Map.empty, read_results := Map.empty\<rparr>)))"
proof -
  obtain key args where k: "new_call_key e call = (key, args)" by fastforce
  define reason where "reason = (case Option.bind (jget ''error'' visible) as_str of None \<Rightarrow> [] | Some r \<Rightarrow> r)"
  note defs = observe_def event_of_def kind_of_def observe_denied_def k reason_def[symmetric]
  show ?thesis
  proof (cases "jget ''skipped'' visible \<noteq> None")
    case True
    then show ?thesis by (simp add: defs)
  next
    case not_skipped: False
    show ?thesis
    proof (cases "Option.bind (jget ''denied'' visible) as_bool = Some True")
      case True
      with not_skipped show ?thesis by (cases "reason = APPROVAL_TIMEOUT_MESSAGE") (simp_all add: defs)
    next
      case False
      with not_skipped show ?thesis by (cases "jget ''error'' visible \<noteq> None") (simp_all add: defs Let_def)
    qed
  qed
qed

lemma observe_step:
  assumes "tracks h st"
  shows "fst (observe e call visible st) = due_note h (event_of e (call, visible)) \<and>
    tracks (event_of e (call, visible) # h) (snd (observe e call visible st))"
proof -
  obtain key out where ev: "event_of e (call, visible) = (key, out)" by fastforce
  have d: "denials st k = refused k h" for k using assms unfolding tracks_def by blast
  have f: "failures st k = (if failed k h = 0 then None else Some (failed k h))" for k
    using assms unfolding tracks_def by blast
  have r: "read_results st k = (case results k h of [] \<Rightarrow> None | f # _ \<Rightarrow> Some (f, same_results k f h))" for k
    using assms unfolding tracks_def by blast
  note step = observe_event[of e call visible st, unfolded ev prod.case]
  note Cons = refused_Cons failed_Cons results_Cons same_results_Cons
  show ?thesis
  proof (cases out)
    case Ignored
    then show ?thesis unfolding step ev
      using assms by (auto simp: tracks_def due_note_def Cons split: option.splits list.splits)
  next
    case (Refused reason)
    then show ?thesis unfolding step ev
      using assms by (auto simp: tracks_def due_note_def Cons d split: option.splits list.splits)
  next
    case Broken
    then show ?thesis unfolding step ev
      using assms by (auto simp: tracks_def due_note_def Cons observe_failed_def f Let_def REPEAT_THRESHOLD_def split: option.splits list.splits)
  next
    case (Unchanging g)
    have "tracks ((key, out) # h) (snd (observe e call visible st))"
      unfolding step Unchanging
      by (auto simp: tracks_def observe_read_def Let_def Cons d f r Unchanging same_results_start split: option.splits list.splits)
    moreover have "fst (observe e call visible st) = due_note h (key, out)"
      unfolding step Unchanging
      by (auto simp: due_note_def observe_read_def Let_def r REPEAT_THRESHOLD_def same_results_def split: list.splits)
    ultimately show ?thesis unfolding ev by blast
  next
    case Changing
    then show ?thesis unfolding step ev
      by (auto simp: tracks_def due_note_def Cons d split: option.splits list.splits)
  qed
qed

section \<open>A whole run\<close>

lemma observe_all_tracks:
  assumes "tracks h st"
  shows "fst (observe_all e calls st) = due_notes h (map (event_of e) calls) \<and>
    tracks (rev (map (event_of e) calls) @ h) (snd (observe_all e calls st))"
  using assms
proof (induction calls arbitrary: h st)
  case (Cons answered calls)
  obtain call visible where a: "answered = (call, visible)" by fastforce
  then show ?case
    using Cons.IH[OF observe_step[OF Cons.prems, of e call visible, THEN conjunct2]]
      observe_step[OF Cons.prems, of e call visible]
    by (simp add: split_beta)
qed simp

text \<open>C34. The hash maps of the tracker implement the history: over any run, a call earns exactly the
  note that is due by what was answered before. Denied again: the same call was denied, not merely
  timed out. Failed again: the third and every later failure since the call or any changing call
  succeeded. Unchanged: the third and every later equal result since a changing call succeeded.
  And the denial remembered for a call is its first one.\<close>

theorem repeat_notes_follow_history:
  "fst (observe_all e calls new_tracker) = due_notes [] (map (event_of e) calls) \<and>
   prior_denial e (snd (observe_all e calls new_tracker)) call =
     refused (fst (new_call_key e call)) (rev (map (event_of e) calls))"
proof -
  have "tracks (rev (map (event_of e) calls)) (snd (observe_all e calls new_tracker))"
    and due: "fst (observe_all e calls new_tracker) = due_notes [] (map (event_of e) calls)"
    using observe_all_tracks[OF tracks_new, of e calls] by simp_all
  then show ?thesis unfolding prior_denial_def tracks_def by blast
qed

end
