(* ===== verification/Streamed_Calls.thy ===== *)
theory Streamed_Calls
  imports Context_Compaction
begin

text \<open>
  One response of the model as a stream (crates/milim-inference/src/service.rs): the items of the
  stream and the tool calls put together from their fragments. The map of partial calls is a list
  of pairs in the order of the index, as \<open>BTreeMap\<close> keeps it.
\<close>

section \<open>Fragments\<close>

record delta_call =
  dc_index :: nat
  dc_id :: "str option"
  dc_name :: "str option"
  dc_arguments :: "str option"

record delta_event =
  de_content :: "str option"
  de_reasoning :: "str option"
  de_calls :: "delta_call list"
  de_state :: "json option"

datatype stream_item = Delta delta_event | StreamDone str usage | StreamError str

record partial_call =
  pa_id :: "str option"
  pa_name :: str
  pa_arguments :: str

definition empty_call :: partial_call where
  "empty_call = \<lparr>pa_id = None, pa_name = [], pa_arguments = []\<rparr>"

type_synonym accumulator = "(nat \<times> partial_call) list"

fun with_entry :: "nat \<Rightarrow> (partial_call \<Rightarrow> partial_call) \<Rightarrow> accumulator \<Rightarrow> accumulator" where
  "with_entry i f [] = [(i, f empty_call)]"
| "with_entry i f ((j, c) # acc) =
     (if i = j then (j, f c) # acc
      else if i < j then (i, f empty_call) # (j, c) # acc
      else (j, c) # with_entry i f acc)"

text \<open>Some servers repeat the name, or a growing prefix of it, with every fragment.\<close>

definition extend_name :: "str \<Rightarrow> str \<Rightarrow> str" where
  "extend_name known name = (if starts_with known name then name else known @ name)"

definition extend_call :: "delta_call \<Rightarrow> partial_call \<Rightarrow> partial_call" where
  "extend_call d c =
     \<lparr>pa_id = (case dc_id d of Some i \<Rightarrow> Some i | None \<Rightarrow> pa_id c),
      pa_name = (case dc_name d of Some n \<Rightarrow> extend_name (pa_name c) n | None \<Rightarrow> pa_name c),
      pa_arguments = pa_arguments c @ (case dc_arguments d of Some a \<Rightarrow> a | None \<Rightarrow> [])\<rparr>"

definition push_call :: "delta_call \<Rightarrow> accumulator \<Rightarrow> accumulator" where
  "push_call d acc = with_entry (dc_index d) (extend_call d) acc"

definition finish_call :: "nat \<times> partial_call \<Rightarrow> tool_call" where
  "finish_call p = (case p of (i, c) \<Rightarrow>
     \<lparr>tc_id = Some (case pa_id c of Some x \<Rightarrow> x | None \<Rightarrow> ''call_'' @ show_nat i),
      tc_kind = ''function'', tc_name = pa_name c, tc_arguments = pa_arguments c\<rparr>)"

definition finish_calls :: "accumulator \<Rightarrow> tool_call list" where
  "finish_calls acc = map finish_call acc"

lemma finish_calls_id: "c \<in> set (finish_calls acc) \<Longrightarrow> tc_id c \<noteq> None"
  by (auto simp: finish_calls_def finish_call_def)

section \<open>Reassembly\<close>

lemma map_of_with_entry:
  "map_of (with_entry i f acc) =
     (map_of acc)(i \<mapsto> f (case map_of acc i of Some c \<Rightarrow> c | None \<Rightarrow> empty_call))"
  if "sorted (map fst acc)" "distinct (map fst acc)"
  using that
proof (induction acc)
  case (Cons p acc)
  obtain j c where p: "p = (j, c)" by fastforce
  have "i < j \<Longrightarrow> map_of acc i = None"
    using Cons.prems p by (fastforce simp: map_of_eq_None_iff)
  then show ?case using Cons p by auto
qed simp

lemma set_with_entry: "fst ` set (with_entry i f acc) = insert i (fst ` set acc)"
  by (induction i f acc rule: with_entry.induct) (simp_all add: insert_commute)

lemma with_entry_keys:
  "sorted (map fst acc) \<and> distinct (map fst acc) \<Longrightarrow>
   sorted (map fst (with_entry i f acc)) \<and> distinct (map fst (with_entry i f acc))"
proof (induction acc)
  case (Cons p acc)
  obtain j c where p: "p = (j, c)" by fastforce
  have keys: "set (map fst (with_entry i f acc)) = insert i (set (map fst acc))"
    using set_with_entry[of i f acc] by simp
  show ?case
  proof (cases "i \<le> j")
    case True
    then show ?thesis using Cons.prems p by fastforce
  next
    case False
    then have "with_entry i f (p # acc) = p # with_entry i f acc" using p by simp
    then show ?thesis
      using Cons False keys p by (auto simp del: set_map simp: list.set_map[symmetric])
  qed
qed simp

text \<open>The fragments of one call, whatever comes between them.\<close>

definition fragments_of :: "nat \<Rightarrow> delta_call list \<Rightarrow> delta_call list" where
  "fragments_of i ds = filter (\<lambda>d. dc_index d = i) ds"

lemma push_calls_keys:
  "sorted (map fst (foldl (\<lambda>acc d. push_call d acc) [] ds)) \<and>
   distinct (map fst (foldl (\<lambda>acc d. push_call d acc) [] ds))"
  by (induction ds rule: rev_induct) (simp_all add: push_call_def with_entry_keys)

lemma push_calls:
  "map_of (foldl (\<lambda>acc d. push_call d acc) [] ds) i =
     (if fragments_of i ds = [] then None
      else Some (foldl (\<lambda>c d. extend_call d c) empty_call (fragments_of i ds)))"
proof (induction ds arbitrary: i rule: rev_induct)
  case (snoc d ds)
  let ?acc = "foldl (\<lambda>acc d. push_call d acc) [] ds"
  have acc: "sorted (map fst ?acc)" "distinct (map fst ?acc)" using push_calls_keys by blast+
  have "map_of (push_call d ?acc) i = ((map_of ?acc)(dc_index d \<mapsto>
      extend_call d (case map_of ?acc (dc_index d) of Some c \<Rightarrow> c | None \<Rightarrow> empty_call))) i"
    unfolding push_call_def[of d ?acc] map_of_with_entry[OF acc] ..
  then show ?case
    using snoc.IH[of i] snoc.IH[of "dc_index d"] by (auto simp: fragments_of_def)
qed (simp add: fragments_of_def)

end
