(* ===== verification/Agent_Run.thy ===== *)
theory Agent_Run
  imports Streamed_Calls Repeats
begin

text \<open>
  The state of an agent run and the effects of its loop (crates/milim-agents/src/lib.rs,
  \<open>agent_loop\<close>). The loop is an asynchronous stream: it yields events, waits for services and may
  return at any point. Here it is a computation on the state of the run that gives a value or
  nothing, when the stream has returned. What it waits for (clock, model service, step hook,
  interceptor, approvals, tools) are functions of an outside world \<open>'w\<close> that they also change. The
  trace records in order what the run yields, sends, commits and executes.
\<close>

section \<open>Events\<close>

datatype environment_policy =
  AccountRuntimeInherited | HostShellInherited | ConfiguredIntegrationSanitized | SandboxSanitized

record memory_notice =
  mn_id :: str
  mn_node_id :: str
  mn_scope_kind :: str
  mn_scope_label :: str
  mn_summary :: str
  mn_created_at :: str

text \<open>A thread, run or worker inside an event is the \<open>Value\<close> it is read from.\<close>

datatype agent_event =
    Start str
  | Token str
  | Reasoning str
  | Notice str
  | UsageDelta usage
  | ToolCallEvent tool_call "json option"
  | ToolApprovalRequired str tool_call tool_effect environment_policy
  | ToolApprovalResolved str "str option" bool "str option"
  | ProviderRetry nat nat str nat nat
  | ContextCompacted compacted
  | ToolResult "str option" str json "json option" "json option"
  | Hook json
  | MemoryRegistered memory_notice
  | ChildThreadStarted json
  | ChildThreadDone json
  | ChildThreadError json str
  | WorkerRunProposed json json
  | WorkerRunStarted json json
  | WorkerRunDone json json
  | WorkerRunError json json str
  | UserDecisionRequested "str option" str json
  | Final str
  | Done nat bool usage
  | RunError str

datatype loop_event =
    Event agent_event
  | Answer chat_message
  | Limited str nat usage
  | LoopFailed str str

datatype hook_call =
    CommitCatalog
  | CommitRequest nat "chat_message list"
  | CommitCompaction nat compacted "nat option"
  | CommitResponse nat str str "tool_call list" str usage "json option"
  | CommitToolResult nat "str option" str json str

text \<open>\<open>Sent\<close> is a streamed request of a step, \<open>Asked\<close> the wrap-up request, \<open>Committed\<close> a call of
  the step hook with its success, \<open>HookApproved\<close> the approval of a call by the interceptor.\<close>

datatype action =
    Yield loop_event
  | Sent "chat_message list"
  | Asked "chat_message list"
  | Committed hook_call bool
  | Completed nat str
  | HookApproved tool_call
  | Executed tool_call json

section \<open>The world\<close>

datatype tool_decision = Continue | Approve | Deny str

record invoked =
  in_result :: json
  in_model_text :: "str option"
  in_ui :: "json option"
  in_app_result :: "json option"

record executed =
  ex_visible :: json
  ex_model_text :: "str option"
  ex_image :: "str option"
  ex_ui :: "json option"
  ex_app_result :: "json option"
  ex_memory :: "agent_event option"
  ex_child :: "agent_event option"
  ex_worker :: "agent_event option"
  ex_decision :: "json option"
  ex_attempted :: bool

text \<open>The configuration of a run, the tools registered for it, and the world. \<open>decide ids\<close> gives the
  place in \<open>ids\<close> of the approval decided next, with its decision, \<open>None\<close> when it timed out. The
  three readers parse the structs of the notices of a tool result; that of a thread also gives the
  thread's error.\<close>

record 'w run_env =
  re_model :: str
  re_max_iterations :: nat
  re_backoff :: nat
  re_limits :: run_limits
  re_window :: "nat option"
  re_wrap_up :: bool
  re_interactive :: bool
  re_hooked :: bool
  re_intercepted :: bool
  re_has_tool :: "str \<Rightarrow> bool"
  re_tool_names :: "str list"
  re_schema :: "str \<Rightarrow> json option"
  re_proxy :: "str \<Rightarrow> str \<Rightarrow> (str \<times> str) option"
  re_tools_chars :: nat
  re_repeat :: repeat_env
  re_whole :: "nat \<Rightarrow> bool"
  re_text :: "json \<Rightarrow> str"
  re_scope :: "str option"
  re_lossy :: "str \<Rightarrow> str"
  re_ui :: "str \<Rightarrow> json option"
  re_policy :: "str \<Rightarrow> environment_policy option"
  re_thread :: "json \<Rightarrow> (json \<times> str option) option"
  re_worker_run :: "json \<Rightarrow> json option"
  re_workers :: "json \<Rightarrow> json option"
  re_floats :: float_env
  re_money :: money
  clock :: "'w \<Rightarrow> nat \<times> 'w"
  draw :: "'w \<Rightarrow> nat \<times> 'w"
  sleep :: "nat \<Rightarrow> 'w \<Rightarrow> unit \<times> 'w"
  stream :: "chat_message list \<Rightarrow> 'w \<Rightarrow> (str + stream_item list) \<times> 'w"
  services :: "'w \<Rightarrow> compaction_env \<times> 'w"
  hook :: "hook_call \<Rightarrow> 'w \<Rightarrow> (str + unit) \<times> 'w"
  prepare :: "nat \<Rightarrow> chat_message list \<Rightarrow> 'w \<Rightarrow> (str + chat_message list) \<times> 'w"
  before_turn :: "chat_message list \<Rightarrow> 'w \<Rightarrow> (json list \<times> str option \<times> str list) \<times> 'w"
  before_tool :: "tool_call \<Rightarrow> json \<Rightarrow> 'w \<Rightarrow> (json list \<times> tool_decision) \<times> 'w"
  after_tool :: "tool_call \<Rightarrow> json \<Rightarrow> json \<Rightarrow> 'w \<Rightarrow> (json list \<times> str list) \<times> 'w"
  on_stop :: "str \<Rightarrow> nat \<Rightarrow> 'w \<Rightarrow> (json list \<times> str option) \<times> 'w"
  new_approval :: "'w \<Rightarrow> str \<times> 'w"
  decide :: "str list \<Rightarrow> 'w \<Rightarrow> (nat \<times> bool option) \<times> 'w"
  outputs :: "'w \<Rightarrow> output_env \<times> 'w"
  call_for_agent :: "str \<Rightarrow> json \<Rightarrow> 'w \<Rightarrow> (str + invoked) \<times> 'w"

record 'w run =
  ru_messages :: "chat_message list"
  ru_anchor :: "nat option"
  ru_window :: context_window
  ru_usage :: usage
  ru_budget :: run_budget
  ru_notes :: "chat_message list"
  ru_length_recoveries :: nat
  ru_stops :: nat
  ru_repeats :: repeat_tracker
  ru_iteration :: nat
  ru_trace :: "action list"
  ru_world :: 'w

section \<open>Computations\<close>

type_synonym ('w, 'a) act = "'w run \<Rightarrow> 'a option \<times> 'w run"

definition give :: "'a \<Rightarrow> ('w, 'a) act" where
  "give x st = (Some x, st)"

definition return :: "('w, 'a) act" where
  "return st = (None, st)"

definition abind :: "('w, 'a) act \<Rightarrow> ('a \<Rightarrow> ('w, 'b) act) \<Rightarrow> ('w, 'b) act" where
  "abind m f st = (case m st of (None, st') \<Rightarrow> (None, st') | (Some x, st') \<Rightarrow> f x st')"

definition change :: "('w run \<Rightarrow> 'w run) \<Rightarrow> ('w, unit) act" where
  "change f st = (Some (), f st)"

definition look :: "('w run \<Rightarrow> 'a) \<Rightarrow> ('w, 'a) act" where
  "look f st = (Some (f st), st)"

definition outside :: "('w \<Rightarrow> 'a \<times> 'w) \<Rightarrow> ('w, 'a) act" where
  "outside f st = (case f (ru_world st) of (x, w) \<Rightarrow> (Some x, st\<lparr>ru_world := w\<rparr>))"

definition log_action :: "action \<Rightarrow> ('w, unit) act" where
  "log_action a = change (\<lambda>st. st\<lparr>ru_trace := ru_trace st @ [a]\<rparr>)"

definition yield :: "agent_event \<Rightarrow> ('w, unit) act" where
  "yield ev = log_action (Yield (Event ev))"

fun each :: "('x \<Rightarrow> ('w, unit) act) \<Rightarrow> 'x list \<Rightarrow> ('w, unit) act" where
  "each f [] = give ()"
| "each f (x # xs) = abind (f x) (\<lambda>_. each f xs)"

definition yield_hooks :: "json list \<Rightarrow> ('w, unit) act" where
  "yield_hooks = each (\<lambda>a. yield (Hook a))"

section \<open>Ends of a run\<close>

definition fail_with :: "str \<Rightarrow> str \<Rightarrow> ('w, 'a) act" where
  "fail_with error message = abind (log_action (Yield (LoopFailed error message))) (\<lambda>_. return)"

definition failed_run :: "str \<Rightarrow> ('w, 'a) act" where
  "failed_run error = fail_with error error"

definition limited :: "str \<Rightarrow> ('w, 'a) act" where
  "limited reason =
     abind (look (\<lambda>st. Limited reason (ru_iteration st) (ru_usage st))) (\<lambda>ev.
     abind (log_action (Yield ev)) (\<lambda>_. return))"

definition finish_run :: "nat \<Rightarrow> bool \<Rightarrow> ('w, 'a) act" where
  "finish_run iterations at_limit =
     abind (look ru_usage) (\<lambda>u. abind (yield (Done iterations at_limit u)) (\<lambda>_. return))"

section \<open>Small steps\<close>

definition reason_now :: "'w run_env \<Rightarrow> ('w, str option) act" where
  "reason_now c = abind (outside (clock c)) (\<lambda>now. look (\<lambda>st. budget_reason (re_money c) now (ru_budget st)))"

definition bill :: "'w run_env \<Rightarrow> usage \<Rightarrow> ('w, unit) act" where
  "bill c u = change (\<lambda>st. st\<lparr>ru_budget := record_usage (re_money c) u (ru_budget st)\<rparr>)"

definition count_usage :: "'w run_env \<Rightarrow> usage \<Rightarrow> ('w, unit) act" where
  "count_usage c u =
     abind (change (\<lambda>st. st\<lparr>ru_usage := add_usage (re_money c) (ru_usage st) u\<rparr>)) (\<lambda>_. yield (UsageDelta u))"

text \<open>A call of the step hook, when there is one, and the same with a failure ending the run.\<close>

definition try_commit :: "'w run_env \<Rightarrow> hook_call \<Rightarrow> ('w, str + unit) act" where
  "try_commit c h =
     (if re_hooked c then
        abind (outside (hook c h)) (\<lambda>r. abind (log_action (Committed h (case r of Inl _ \<Rightarrow> False | Inr _ \<Rightarrow> True))) (\<lambda>_. give r))
      else give (Inr ()))"

definition commit :: "'w run_env \<Rightarrow> hook_call \<Rightarrow> ('w, unit) act" where
  "commit c h = abind (try_commit c h) (\<lambda>r. case r of Inl error \<Rightarrow> failed_run error | Inr _ \<Rightarrow> give ())"

definition push_message :: "chat_message \<Rightarrow> ('w, unit) act" where
  "push_message m = change (\<lambda>st. st\<lparr>ru_messages := ru_messages st @ [m]\<rparr>)"

definition push_note :: "chat_message \<Rightarrow> ('w, unit) act" where
  "push_note m = change (\<lambda>st. st\<lparr>ru_notes := ru_notes st @ [m]\<rparr>)"

end
