(* ===== verification/Agent_Step.thy ===== *)
theory Agent_Step
  imports Agent_Run
begin

text \<open>
  The phases of one model step in the order the loop has them (crates/milim-agents/src/lib.rs,
  \<open>agent_loop\<close>): compaction, the committed request, its attempts, the end of a step without calls,
  and the calls of a step: announced, checked, approved, executed and answered. Execution keeps up
  to four calls in flight; here they run one after the other, in the order of their results.
\<close>

section \<open>The wrap-up\<close>

definition WRAP_UP_NOTE :: str where
  "WRAP_UP_NOTE = ''Stop working now and write your final report for whoever delegated this task: what you found or changed (with file paths), what you could not finish, and what remains. Reply with the report only; do not call tools.''"

definition wrap_up_request :: "chat_message list \<Rightarrow> str \<Rightarrow> chat_message list" where
  "wrap_up_request msgs reason = msgs @ [text_message ''user'' (reason @ '' '' @ WRAP_UP_NOTE)]"

text \<open>The pair in \<open>if let (true, Ok(out)) = (committed, ...)\<close> is evaluated as a whole, so the request
  is made whether or not it could be committed.\<close>

definition ask_service :: "'w run_env \<Rightarrow> chat_message list \<Rightarrow> ('w, str + chat_message \<times> usage) act" where
  "ask_service c req =
     abind (log_action (Asked req)) (\<lambda>_.
     abind (outside (services c)) (\<lambda>e.
     give (fst (complete_with_retry (ask e req True) (re_backoff c)))))"

definition report_run ::
  "'w run_env \<Rightarrow> str \<Rightarrow> nat \<Rightarrow> str + unit \<Rightarrow> str + chat_message \<times> usage \<Rightarrow> ('w, unit) act" where
  "report_run c reason iteration committed reply =
     (case (committed, reply) of
        (Inr _, Inr (out, u)) \<Rightarrow>
          abind (count_usage c u) (\<lambda>_.
          case summary_text out of
            Some report \<Rightarrow>
              abind (try_commit c (CommitResponse (iteration + 1) report [] [] ''stop'' u None)) (\<lambda>_.
              abind (log_action (Yield (Answer (text_message ''assistant'' report)))) (\<lambda>_.
              finish_run (iteration + 1) True))
          | None \<Rightarrow> limited reason)
      | _ \<Rightarrow> limited reason)"

definition wrap_up :: "'w run_env \<Rightarrow> str \<Rightarrow> ('w, unit) act" where
  "wrap_up c reason =
     (if re_wrap_up c then
        abind (look ru_iteration) (\<lambda>iteration.
        abind (look (\<lambda>st. wrap_up_request (ru_messages st) reason)) (\<lambda>req.
        abind (try_commit c (CommitRequest (iteration + 1) req)) (\<lambda>committed.
        abind (ask_service c req) (\<lambda>answer.
        report_run c reason iteration committed answer))))
      else limited reason)"

section \<open>Before the request\<close>

definition compact_phase :: "'w run_env \<Rightarrow> nat \<Rightarrow> bool \<Rightarrow> ('w, bool) act" where
  "compact_phase c step forced =
     abind (reason_now c) (\<lambda>reason.
     abind (outside (services c)) (\<lambda>e.
     abind (look (\<lambda>st. compact_context (e\<lparr>tools_chars := re_tools_chars c\<rparr>) (ru_window st) forced
                         (reason = None) (ru_messages st) (ru_anchor st))) (\<lambda>r.
       case r of (msgs, anchor, compaction) \<Rightarrow>
         abind (change (\<lambda>st. st\<lparr>ru_messages := msgs, ru_anchor := anchor\<rparr>)) (\<lambda>_.
         case compaction of
           None \<Rightarrow> give False
         | Some co \<Rightarrow>
             abind (case co_usage co of
                      None \<Rightarrow> give ()
                    | Some u \<Rightarrow> abind (bill c u) (\<lambda>_. count_usage c u)) (\<lambda>_.
             abind (commit c (CommitCompaction step co anchor)) (\<lambda>_.
             abind (yield (ContextCompacted co)) (\<lambda>_.
             give (0 < co_elided co \<or> 0 < co_summarized co))))))))"

section \<open>One request\<close>

record response =
  rp_content :: str
  rp_reasoning :: str
  rp_state :: "json option"
  rp_usage :: usage
  rp_finish :: str
  rp_calls :: accumulator
  rp_done :: bool

definition empty_response :: response where
  "empty_response = \<lparr>rp_content = [], rp_reasoning = [], rp_state = None, rp_usage = no_usage,
     rp_finish = [], rp_calls = [], rp_done = False\<rparr>"

definition receive :: "delta_event \<Rightarrow> response \<Rightarrow> response" where
  "receive d r = r\<lparr>rp_content := rp_content r @ (case de_content d of Some t \<Rightarrow> t | None \<Rightarrow> []),
     rp_reasoning := rp_reasoning r @ (case de_reasoning d of Some t \<Rightarrow> t | None \<Rightarrow> []),
     rp_calls := foldl (\<lambda>acc x. push_call x acc) (rp_calls r) (de_calls d),
     rp_state := (case de_state d of Some v \<Rightarrow> Some v | None \<Rightarrow> rp_state r)\<rparr>"

fun read_items :: "'w run_env \<Rightarrow> stream_item list \<Rightarrow> response \<Rightarrow> ('w, str option \<times> response) act" where
  "read_items c [] r = give (None, r)"
| "read_items c (Delta d # rest) r =
     abind (case de_content d of Some t \<Rightarrow> yield (Token t) | None \<Rightarrow> give ()) (\<lambda>_.
     abind (case de_reasoning d of Some t \<Rightarrow> yield (Reasoning t) | None \<Rightarrow> give ()) (\<lambda>_.
     read_items c rest (receive d r)))"
| "read_items c (StreamDone reason u # rest) r =
     abind (count_usage c u) (\<lambda>_.
     read_items c rest (r\<lparr>rp_done := True, rp_usage := u, rp_finish := reason\<rparr>))"
| "read_items c (StreamError error # _) r = give (Some error, r)"

definition STREAM_ENDED_EARLY :: str where
  "STREAM_ENDED_EARLY = ''provider stream ended before a completion event''"

definition send_request :: "'w run_env \<Rightarrow> chat_message list \<Rightarrow> ('w, str option \<times> response) act" where
  "send_request c req =
     abind (log_action (Sent req)) (\<lambda>_.
     abind (outside (stream c req)) (\<lambda>answer.
     abind (case answer of
              Inl error \<Rightarrow> give (Some error, empty_response)
            | Inr items \<Rightarrow> read_items c items empty_response) (\<lambda>(failure, r).
     give (if failure = None \<and> \<not> rp_done r then Some STREAM_ENDED_EARLY else failure, r))))"

datatype attempt_end = Finished response | Overflowed str

definition discard :: "nat \<Rightarrow> nat \<Rightarrow> str \<Rightarrow> response \<Rightarrow> ('w, unit) act" where
  "discard attempts delay_ms reason r =
     yield (ProviderRetry attempts delay_ms reason (length (rp_content r)) (length (rp_reasoning r)))"

definition bill_if_done :: "'w run_env \<Rightarrow> response \<Rightarrow> ('w, unit) act" where
  "bill_if_done c r = (if rp_done r then bill c (rp_usage r) else give ())"

definition overflow_error :: "str option \<Rightarrow> response \<Rightarrow> str option" where
  "overflow_error failure r = (case failure of
       Some error \<Rightarrow> Some error
     | None \<Rightarrow> Some (''inference error: the model's context window filled up (finish reason `'' @
         rp_finish r @ ''`)''))"

definition on_overflow ::
  "'w run_env \<Rightarrow> chat_message list \<Rightarrow> bool \<Rightarrow> nat \<Rightarrow> str \<Rightarrow> response \<Rightarrow> ('w, attempt_end \<times> nat) act" where
  "on_overflow c req recovered attempts error r =
     (if recovered then
        fail_with error (''The conversation no longer fits this model's context window, even after compacting older context: '' @ error)
      else
        abind (bill_if_done c r) (\<lambda>_.
        abind (change (\<lambda>st. st\<lparr>ru_window := lower (estimate (ru_window st) req (re_tools_chars c)) (ru_window st)\<rparr>)) (\<lambda>_.
        abind (discard attempts 0 ''context window exceeded'' r) (\<lambda>_.
        give (Overflowed error, attempts)))))"

text \<open>What happens after a failed attempt that may be repeated: nothing when the run has no time left
  for the wait or has reached a limit after it.\<close>

definition wait_to_retry ::
  "'w run_env \<Rightarrow> nat \<Rightarrow> nat \<Rightarrow> str \<Rightarrow> retryable_error \<Rightarrow> response \<Rightarrow> ('w, unit) act" where
  "wait_to_retry c attempts request_attempts message retry r =
     abind (bill_if_done c r) (\<lambda>_.
     abind (outside (draw c)) (\<lambda>bits.
     let delay = backoff_delay bits (re_backoff c) request_attempts (re_after retry) in
     abind (outside (clock c)) (\<lambda>now.
     abind (look (\<lambda>st. remaining_time now (ru_budget st))) (\<lambda>remaining.
     if (case remaining of None \<Rightarrow> False | Some left \<Rightarrow> left \<le> delay) then
       fail_with message (message @ '' (not retried: the run time limit would pass during the '' @
         show_nat (delay div millis 1) @ ''ms backoff)'')
     else
       abind (discard attempts (delay div millis 1) (re_reason retry) r) (\<lambda>_.
       abind (if delay = 0 then give () else outside (sleep c delay)) (\<lambda>_.
       abind (reason_now c) (\<lambda>reason.
       case reason of Some reason \<Rightarrow> limited reason | None \<Rightarrow> give ())))))))"

lemma abind_cong [fundef_cong]:
  "m = m' \<Longrightarrow> (\<And>x st. f x st = f' x st) \<Longrightarrow> abind m f = abind m' f'"
  by (rule ext) (simp add: abind_def split: prod.splits option.splits)

text \<open>\<open>attempts\<close> counts the attempts of the step, \<open>request_attempts\<close> those of the request.\<close>

function try_request ::
  "'w run_env \<Rightarrow> chat_message list \<Rightarrow> bool \<Rightarrow> nat \<Rightarrow> nat \<Rightarrow> ('w, attempt_end \<times> nat) act" where
  "try_request c req recovered attempts request_attempts =
     abind (send_request c req) (\<lambda>(failure, r).
       if (case failure of
             Some error \<Rightarrow> context_overflow (re_floats c) error
           | None \<Rightarrow> context_overflow_finish (rp_finish r)) then
         on_overflow c req recovered attempts (the (overflow_error failure r)) r
       else
         (case failure of
            None \<Rightarrow> give (Finished r, attempts)
          | Some message \<Rightarrow>
              (case (if request_attempts \<le> MAX_PROVIDER_RETRIES then retryable (re_floats c) message else None) of
                 None \<Rightarrow>
                   fail_with message
                     (if 1 < request_attempts
                      then message @ '' (gave up after '' @ show_nat request_attempts @ '' attempts)''
                      else message)
               | Some retry \<Rightarrow>
                   abind (wait_to_retry c attempts request_attempts message retry r) (\<lambda>_.
                   try_request c req recovered (attempts + 1) (request_attempts + 1)))))"
  by pat_completeness auto
termination
  by (relation "measure (\<lambda>(c, req, recovered, attempts, request_attempts). Suc MAX_PROVIDER_RETRIES - request_attempts)")
     (auto split: if_splits)

declare try_request.simps [simp del]

text \<open>One round of the request: compaction, the limits, the commit, the attempts. After an overflow the
  round compacts by force and must make the prompt smaller.\<close>

definition request_round ::
  "'w run_env \<Rightarrow> nat \<Rightarrow> str option \<Rightarrow> nat \<Rightarrow> ('w, (attempt_end \<times> nat) \<times> nat) act" where
  "request_round c step overflow attempts =
     abind (compact_phase c step (overflow \<noteq> None)) (\<lambda>shrank.
     case (if shrank then None else overflow) of
       Some error \<Rightarrow>
         fail_with error (''The conversation no longer fits this model's context window and there is no older context left to compact: '' @ error)
     | None \<Rightarrow>
         abind (look ru_messages) (\<lambda>req.
         abind (reason_now c) (\<lambda>reason.
         case reason of
           Some reason \<Rightarrow> limited reason
         | None \<Rightarrow>
             abind (commit c (CommitRequest step req)) (\<lambda>_.
             abind (try_request c req (overflow \<noteq> None) (attempts + 1) 1) (\<lambda>r.
             give (r, estimate_tokens req (re_tools_chars c)))))))"

text \<open>A second round follows an overflow of the first; in it an overflow ends the run, so no third one
  follows (the last branch is never taken).\<close>

definition request_loop :: "'w run_env \<Rightarrow> nat \<Rightarrow> ('w, response \<times> nat) act" where
  "request_loop c step =
     abind (request_round c step None 0) (\<lambda>((r, attempts), est).
     case r of
       Finished resp \<Rightarrow> give (resp, est)
     | Overflowed error \<Rightarrow>
         abind (request_round c step (Some error) attempts) (\<lambda>((r, _), est).
         case r of Finished resp \<Rightarrow> give (resp, est) | Overflowed _ \<Rightarrow> return))"

section \<open>The end of a step without calls\<close>

definition MAX_LENGTH_RECOVERIES :: nat where "MAX_LENGTH_RECOVERIES = 2"
definition MAX_STOP_CONTINUATIONS :: nat where "MAX_STOP_CONTINUATIONS = 3"

definition LENGTH_RECOVERY_NOTE :: str where
  "LENGTH_RECOVERY_NOTE = ''Your previous response was cut off at the output token limit. Continue from where you stopped, and keep individual tool calls smaller (for example, split a large file write into several edits).''"

definition normalize_finish_reason :: "str \<Rightarrow> str" where
  "normalize_finish_reason reason =
     (if reason \<in> set [''max_tokens'', ''max_output_tokens'', ''MAX_TOKENS''] then ''length'' else reason)"

definition assistant_message ::
  "msg_content option \<Rightarrow> tool_call list option \<Rightarrow> response \<Rightarrow> chat_message" where
  "assistant_message content calls r =
     \<lparr>mg_role = ''assistant'', mg_content = content, mg_name = None, mg_calls = calls, mg_call_id = None,
      mg_reasoning = (if rp_reasoning r = [] then None else Some (rp_reasoning r)), mg_provider = rp_state r\<rparr>"

definition stop_feedback_message :: "str \<Rightarrow> chat_message" where
  "stop_feedback_message feedback =
     text_message ''user'' (''[Stop hook feedback]'' @ newline # trim feedback)"

definition keep_text :: "response \<Rightarrow> ('w, unit) act" where
  "keep_text r =
     (if rp_content r = [] then give ()
      else push_message (assistant_message (Some (CText (rp_content r))) None r))"

definition answer_run :: "response \<Rightarrow> ('w, 'a) act" where
  "answer_run r =
     abind (log_action (Yield (Answer (assistant_message (Some (CText (rp_content r))) None r)))) (\<lambda>_.
     abind (look ru_iteration) (\<lambda>iteration. finish_run iteration False))"

definition max_iterations :: "'w run_env \<Rightarrow> nat" where
  "max_iterations c = max (re_max_iterations c) 1"

text \<open>The stop hook's feedback, if it may continue the run.\<close>

definition stop_feedback :: "'w run_env \<Rightarrow> str \<Rightarrow> ('w, str option) act" where
  "stop_feedback c content =
     (if re_intercepted c then
        abind (look ru_stops) (\<lambda>stops.
        abind (outside (on_stop c content stops)) (\<lambda>(activity, feedback).
        abind (yield_hooks activity) (\<lambda>_.
        look (\<lambda>st. if stops < MAX_STOP_CONTINUATIONS \<and> ru_iteration st < max_iterations c
                   then feedback else None))))
      else give None)"

definition no_calls :: "'w run_env \<Rightarrow> response \<Rightarrow> bool \<Rightarrow> ('w, unit) act" where
  "no_calls c r truncated =
     abind (reason_now c) (\<lambda>reason.
     case reason of
       Some reason \<Rightarrow> limited reason
     | None \<Rightarrow>
         abind (look (\<lambda>st. truncated \<and> ru_length_recoveries st < MAX_LENGTH_RECOVERIES \<and>
                           ru_iteration st < max_iterations c)) (\<lambda>recover.
         if recover then
           abind (change (\<lambda>st. st\<lparr>ru_length_recoveries := ru_length_recoveries st + 1\<rparr>)) (\<lambda>_.
           abind (keep_text r) (\<lambda>_.
           push_note (text_message ''user'' LENGTH_RECOVERY_NOTE)))
         else
           abind (stop_feedback c (rp_content r)) (\<lambda>feedback.
           case feedback of
             None \<Rightarrow> answer_run r
           | Some feedback \<Rightarrow>
               abind (change (\<lambda>st. st\<lparr>ru_stops := ru_stops st + 1\<rparr>)) (\<lambda>_.
               abind (keep_text r) (\<lambda>_.
               push_note (stop_feedback_message feedback))))))"

end
