(* ===== verification/Tool_Calls.thy ===== *)
theory Tool_Calls
  imports Agent_Run
begin

text \<open>
  What the loop makes of a tool call and of its result (crates/milim-agents/src/lib.rs and
  intercept.rs): the check of its arguments, the results of calls that were denied, skipped, failed
  or run, the events a result gives rise to, and the texts added to what the model sees.
\<close>

section \<open>Arguments\<close>

definition TOOL_SEARCH_TOOL :: str where "TOOL_SEARCH_TOOL = ''tool_search''"

definition made :: "tool_call \<Rightarrow> made_call" where
  "made call = (tc_name call, tc_arguments call)"

definition resolve_proxy_call :: "'w run_env \<Rightarrow> tool_call \<Rightarrow> tool_call" where
  "resolve_proxy_call c call =
     (case re_proxy c (tc_name call) (tc_arguments call) of
        Some (name, arguments) \<Rightarrow> call\<lparr>tc_name := name, tc_arguments := arguments\<rparr>
      | None \<Rightarrow> call)"

definition unknown_tool_message :: "'w run_env \<Rightarrow> str \<Rightarrow> str" where
  "unknown_tool_message c name =
     ''Unknown tool `'' @ name @
     (if re_tool_names c = [] then ''`. No tools are available in this run.''
      else if re_has_tool c TOOL_SEARCH_TOOL then
        ''`. Available tools: '' @ join '', '' (re_tool_names c) @ ''. Find deferred tools with `'' @
          TOOL_SEARCH_TOOL @ ''`.''
      else ''`. Available tools: '' @ join '', '' (re_tool_names c) @ ''.'')"

definition prepare_tool_arguments :: "'w run_env \<Rightarrow> str \<Rightarrow> str \<Rightarrow> bool \<Rightarrow> str + json" where
  "prepare_tool_arguments c name arguments truncated =
     (if \<not> re_has_tool c name then Inl (unknown_tool_message c name)
      else
        (case parse_tool_arguments (read_json (re_repeat c)) arguments of
           Inl error \<Rightarrow> Inl (invalid_json_message error truncated)
         | Inr args \<Rightarrow>
             (case re_schema c name of
                None \<Rightarrow> Inr args
              | Some schema \<Rightarrow>
                  (case validate_tool_arguments (re_whole c) schema args of
                     Inl message \<Rightarrow> Inl (''Invalid arguments for `'' @ name @ ''`: '' @ message)
                   | Inr _ \<Rightarrow> Inr args))))"

definition unparseable_call :: "'w run_env \<Rightarrow> tool_call \<Rightarrow> bool" where
  "unparseable_call c call =
     (\<not> is_ok (parse_tool_arguments (read_json (re_repeat c)) (tc_arguments call)))"

section \<open>Calls that do not run\<close>

definition not_run :: "'w run_env \<Rightarrow> str \<Rightarrow> json \<Rightarrow> executed" where
  "not_run c name visible =
     \<lparr>ex_visible = visible, ex_model_text = None, ex_image = None, ex_ui = re_ui c name,
      ex_app_result = None, ex_memory = None, ex_child = None, ex_worker = None, ex_decision = None,
      ex_attempted = False\<rparr>"

definition denied_tool_call :: "'w run_env \<Rightarrow> str \<Rightarrow> str option \<Rightarrow> executed" where
  "denied_tool_call c name reason =
     not_run c name
       (JObj [(''denied'', JBool True),
              (''error'', JStr (case reason of Some r \<Rightarrow> r | None \<Rightarrow> ''Tool call denied by user''))])"

definition skipped_tool_call :: "'w run_env \<Rightarrow> str \<Rightarrow> str \<Rightarrow> executed" where
  "skipped_tool_call c name reason =
     (denied_tool_call c name None)\<lparr>ex_visible := JObj [(''error'', JStr reason), (''skipped'', JBool True)]\<rparr>"

text \<open>An MCP App's view of a message.\<close>

definition app_error :: "str \<Rightarrow> json" where
  "app_error message =
     JObj [(''content'', JArr [JObj [(''text'', JStr message), (''type'', JStr ''text'')]]),
           (''isError'', JBool True)]"

definition tool_error_result :: "'w run_env \<Rightarrow> str \<Rightarrow> str \<Rightarrow> executed" where
  "tool_error_result c name message =
     (not_run c name (JObj [(''error'', JStr message)]))
       \<lparr>ex_app_result := map_option (\<lambda>_. app_error message) (re_ui c name), ex_attempted := True\<rparr>"

section \<open>Results of calls that run\<close>

definition text_field :: "str \<Rightarrow> json \<Rightarrow> str option" where
  "text_field key v = Option.bind (jget key v) as_str"

definition split_tool_image :: "json \<Rightarrow> json \<times> str option" where
  "split_tool_image result =
     (case result of
        JObj kvs \<Rightarrow>
          (case jget ''image'' result of
             None \<Rightarrow> (result, None)
           | Some img \<Rightarrow>
               (JObj (obj_remove ''image'' kvs),
                map_option (\<lambda>data. ''data:'' @
                  (case text_field ''mime'' img of Some mime \<Rightarrow> mime | None \<Rightarrow> ''image/png'') @
                  '';base64,'' @ data) (text_field ''data'' img)))
      | _ \<Rightarrow> (result, None))"

definition split_user_decision :: "json \<Rightarrow> json \<times> json option" where
  "split_user_decision result =
     (case result of
        JObj kvs \<Rightarrow>
          (JObj (obj_remove ''user_decision_notice'' kvs),
           case jget ''user_decision_notice'' result of Some (JObj d) \<Rightarrow> Some (JObj d) | _ \<Rightarrow> None)
      | _ \<Rightarrow> (result, None))"

definition notice_of :: "str \<Rightarrow> json \<Rightarrow> json option" where
  "notice_of key result =
     (case jget key result of Some (JObj kvs) \<Rightarrow> Some (JObj kvs) | _ \<Rightarrow> None)"

definition memory_registered_event :: "json \<Rightarrow> agent_event option" where
  "memory_registered_event result =
     Option.bind (notice_of ''memory_notice'' result) (\<lambda>n.
     Option.bind (text_field ''id'' n) (\<lambda>i.
     Option.bind (text_field ''node_id'' n) (\<lambda>node.
     Option.bind (text_field ''scope_kind'' n) (\<lambda>kind.
     Option.bind (text_field ''scope_label'' n) (\<lambda>label.
     Option.bind (text_field ''summary'' n) (\<lambda>summary.
     Option.bind (text_field ''created_at'' n) (\<lambda>created.
     Some (MemoryRegistered \<lparr>mn_id = i, mn_node_id = node, mn_scope_kind = kind, mn_scope_label = label,
       mn_summary = summary, mn_created_at = created\<rparr>))))))))"

definition child_thread_event :: "'w run_env \<Rightarrow> json \<Rightarrow> agent_event option" where
  "child_thread_event c result =
     Option.bind (notice_of ''child_thread_notice'' result) (\<lambda>n.
     Option.bind (Option.bind (jget ''thread'' n) (re_thread c)) (\<lambda>(thread, error).
     Option.bind (text_field ''event'' n) (\<lambda>event.
       if event = ''started'' then Some (ChildThreadStarted thread)
       else if event = ''done'' then Some (ChildThreadDone thread)
       else if event = ''error'' then
         Some (ChildThreadError thread
           (case text_field ''message'' n of
              Some m \<Rightarrow> m
            | None \<Rightarrow> (case error of Some m \<Rightarrow> m | None \<Rightarrow> ''child thread failed'')))
       else None)))"

definition worker_run_event :: "'w run_env \<Rightarrow> json \<Rightarrow> agent_event option" where
  "worker_run_event c result =
     Option.bind (notice_of ''worker_run_notice'' result) (\<lambda>n.
     Option.bind (Option.bind (jget ''run'' n) (re_worker_run c)) (\<lambda>wr.
     Option.bind (Option.bind (jget ''workers'' n) (re_workers c)) (\<lambda>workers.
     Option.bind (text_field ''event'' n) (\<lambda>event.
       if event = ''proposed'' then Some (WorkerRunProposed wr workers)
       else if event = ''started'' then Some (WorkerRunStarted wr workers)
       else if event = ''done'' then Some (WorkerRunDone wr workers)
       else if event = ''error'' then
         Some (WorkerRunError wr workers
           (case text_field ''message'' n of Some m \<Rightarrow> m | None \<Rightarrow> ''worker run failed''))
       else None))))"

definition MAX_VISIBLE_BYTES :: nat where "MAX_VISIBLE_BYTES = 1024 * 1024"

text \<open>Encoding a \<open>Value\<close> does not fail, so the error branches of the two limits are never taken.\<close>

definition limit_visible_tool_result :: "'w run_env \<Rightarrow> json \<Rightarrow> json" where
  "limit_visible_tool_result c result =
     (let encoded = re_text c result
      in if length encoded \<le> MAX_VISIBLE_BYTES then result
         else JObj [(''original_bytes'', JInt (int (length encoded))),
                    (''preview'', JStr (re_lossy c (take MAX_VISIBLE_BYTES encoded))),
                    (''truncated'', JBool True)])"

definition limit_app_tool_result :: "'w run_env \<Rightarrow> json \<Rightarrow> json" where
  "limit_app_tool_result c result =
     (let encoded = re_text c result
      in if length encoded \<le> MAX_VISIBLE_BYTES then result
         else app_error (''MCP App result exceeded the '' @ show_nat MAX_VISIBLE_BYTES @ ''-byte limit ('' @
                show_nat (length encoded) @ '' bytes)''))"

definition executed_result :: "'w run_env \<Rightarrow> str \<Rightarrow> str + invoked \<Rightarrow> executed" where
  "executed_result c name r =
     (case r of
        Inl error \<Rightarrow> tool_error_result c name error
      | Inr r \<Rightarrow>
          (case split_tool_image (in_result r) of (visible, uri) \<Rightarrow>
           case split_user_decision visible of (visible, decision) \<Rightarrow>
             \<lparr>ex_visible = limit_visible_tool_result c visible, ex_model_text = in_model_text r,
              ex_image = uri, ex_ui = in_ui r,
              ex_app_result = map_option (limit_app_tool_result c) (in_app_result r),
              ex_memory = memory_registered_event visible, ex_child = child_thread_event c visible,
              ex_worker = worker_run_event c visible, ex_decision = decision, ex_attempted = True\<rparr>))"

section \<open>Messages\<close>

definition image_user_message :: "str \<Rightarrow> str \<Rightarrow> chat_message" where
  "image_user_message tool uri =
     \<lparr>mg_role = ''user'',
      mg_content = Some (CParts [PText (''Image returned by the `'' @ tool @ ''` tool:''), PImage uri None]),
      mg_name = None, mg_calls = None, mg_call_id = None, mg_reasoning = None, mg_provider = None\<rparr>"

definition tool_message :: "str \<Rightarrow> str option \<Rightarrow> chat_message" where
  "tool_message content call_id = (text_message ''tool'' content)\<lparr>mg_call_id := call_id\<rparr>"

definition with_feedback :: "str \<Rightarrow> str list \<Rightarrow> str" where
  "with_feedback content feedback =
     content @ concat (map (\<lambda>t. [newline, newline] @ ''[hook] '' @ t) feedback)"

definition context_message :: "str list \<Rightarrow> chat_message option" where
  "context_message context =
     (let t = join [newline, newline] (filter (\<lambda>t. t \<noteq> []) (map trim context))
      in if t = [] then None
         else Some (text_message ''system''
           (''<system-reminder>'' @ newline # ''UserPromptSubmit hook context:'' @ newline # t @
            newline # ''</system-reminder>'')))"

definition blocked_turn_message :: "str \<Rightarrow> str" where
  "blocked_turn_message reason = ''UserPromptSubmit hook blocked this turn: '' @ trim reason"

definition limit_message_text :: "nat \<Rightarrow> str" where
  "limit_message_text n =
     ''Agent stopped after reaching the iteration limit ('' @ show_nat n @ '' model turns).''"

end
