(* ===== verification/Agent_Calls.thy ===== *)
theory Agent_Calls
  imports Agent_Step Tool_Calls
begin

text \<open>
  The calls of one step (crates/milim-agents/src/lib.rs, \<open>agent_loop\<close>): each call is announced and
  checked, approvals are asked for and awaited together, the calls run, and their results are noted,
  committed and put into the conversation in call order. Up to four calls that only read may be in
  flight together; here they run one after the other, in the order of their results.
\<close>

section \<open>Announcing\<close>

record prepared_call =
  pc_call :: tool_call
  pc_arguments :: "str + json"
  pc_approved :: bool
  pc_denial :: "str option"

text \<open>The interceptor's word on a call: whether it approves it, and why it is denied.\<close>

definition intercept_call ::
  "'w run_env \<Rightarrow> tool_call \<Rightarrow> str + json \<Rightarrow> str option \<Rightarrow> ('w, bool \<times> str option) act" where
  "intercept_call c call arguments refusal =
     abind (reason_now c) (\<lambda>reason.
     case (re_intercepted c, arguments, reason, refusal) of
       (True, Inr args, None, None) \<Rightarrow>
         abind (outside (before_tool c call args)) (\<lambda>(activity, decision).
         abind (yield_hooks activity) (\<lambda>_.
         case decision of
           Continue \<Rightarrow> give (False, None)
         | Approve \<Rightarrow> abind (log_action (HookApproved call)) (\<lambda>_. give (True, None))
         | Deny why \<Rightarrow> give (False, Some why)))
     | _ \<Rightarrow> give (False, refusal))"

definition call_effect :: "'w run_env \<Rightarrow> tool_call \<Rightarrow> json \<Rightarrow> tool_effect" where
  "call_effect c call args =
     (case effect_for_call (re_repeat c) (tc_name call) args of None \<Rightarrow> Unknown | Some eff \<Rightarrow> eff)"

definition call_policy :: "'w run_env \<Rightarrow> tool_call \<Rightarrow> environment_policy" where
  "call_policy c call = (case re_policy c (tc_name call) of None \<Rightarrow> HostShellInherited | Some p \<Rightarrow> p)"

text \<open>The approval a checked call needs: asked for, with the id of the request.\<close>

definition ask_approval ::
  "'w run_env \<Rightarrow> tool_call \<Rightarrow> str + json \<Rightarrow> bool \<Rightarrow> bool \<Rightarrow> ('w, bool \<times> str option) act" where
  "ask_approval c call arguments hook_approved granted =
     (case (granted, arguments) of
        (True, Inr args) \<Rightarrow>
          if re_interactive c \<and> call_effect c call args \<noteq> ReadOnly \<and> \<not> hook_approved then
            abind (outside (new_approval c)) (\<lambda>i.
            abind (yield (ToolApprovalRequired i call (call_effect c call args) (call_policy c call))) (\<lambda>_.
            give (False, Some i)))
          else give (True, None)
      | _ \<Rightarrow> give (granted, None))"

definition prepare_call ::
  "'w run_env \<Rightarrow> bool \<Rightarrow> tool_call \<Rightarrow> ('w, prepared_call \<times> str option) act" where
  "prepare_call c truncated call =
     abind (yield (ToolCallEvent call (re_ui c (tc_name call)))) (\<lambda>_.
     let arguments = prepare_tool_arguments c (tc_name call) (tc_arguments call) truncated in
     abind (look (\<lambda>st. prior_denial (re_repeat c) (ru_repeats st) (made call))) (\<lambda>refusal.
     abind (intercept_call c call arguments refusal) (\<lambda>(hook_approved, refusal).
     abind (reason_now c) (\<lambda>reason.
     abind (ask_approval c call arguments hook_approved (reason = None \<and> refusal = None)) (\<lambda>(granted, approval).
     give (\<lparr>pc_call = call, pc_arguments = arguments, pc_approved = granted, pc_denial = refusal\<rparr>,
           approval))))))"

fun collect :: "('x \<Rightarrow> ('w, 'a) act) \<Rightarrow> 'x list \<Rightarrow> ('w, 'a list) act" where
  "collect f [] = give []"
| "collect f (x # xs) = abind (f x) (\<lambda>y. abind (collect f xs) (\<lambda>ys. give (y # ys)))"

section \<open>Approvals\<close>

text \<open>The approvals asked for, with the place of their call.\<close>

definition asked_approvals :: "(prepared_call \<times> str option) list \<Rightarrow> (nat \<times> str) list" where
  "asked_approvals ps =
     List.map_filter (\<lambda>(i, _, approval). map_option (Pair i) approval) (zip [0..<length ps] ps)"

definition resolve_approval ::
  "nat \<times> str \<Rightarrow> bool option \<Rightarrow> prepared_call list \<Rightarrow> ('w, prepared_call list) act" where
  "resolve_approval a decision ps =
     (case a of (i, approval) \<Rightarrow>
        let p = ps ! i in
        case decision of
          Some ok \<Rightarrow>
            abind (yield (ToolApprovalResolved approval (tc_id (pc_call p)) ok None)) (\<lambda>_.
            give (ps[i := p\<lparr>pc_approved := ok\<rparr>]))
        | None \<Rightarrow>
            abind (yield (ToolApprovalResolved approval (tc_id (pc_call p)) False (Some ''timed_out''))) (\<lambda>_.
            give (ps[i := p\<lparr>pc_denial := Some APPROVAL_TIMEOUT_MESSAGE\<rparr>])))"

definition without_nth :: "nat \<Rightarrow> 'a list \<Rightarrow> 'a list" where
  "without_nth k xs = take k xs @ drop (Suc k) xs"

lemma length_without_nth [simp]: "k < length xs \<Longrightarrow> length (without_nth k xs) = length xs - 1"
  by (simp add: without_nth_def)

text \<open>The approvals still open are decided one after the other, in any order.\<close>

function await_decisions ::
  "'w run_env \<Rightarrow> (nat \<times> str) list \<Rightarrow> prepared_call list \<Rightarrow> ('w, prepared_call list) act" where
  "await_decisions c [] ps = give ps"
| "await_decisions c (a # as) ps =
     abind (outside (decide c (map snd (a # as)))) (\<lambda>(k, decision).
     abind (resolve_approval ((a # as) ! (k mod length (a # as))) decision ps) (\<lambda>ps.
     await_decisions c (without_nth (k mod length (a # as)) (a # as)) ps))"
  by pat_completeness auto
termination
  by (relation "measure (\<lambda>(c, as, ps). length as)") simp_all

declare await_decisions.simps(2) [simp del]

definition move_clock :: "'w run_env \<Rightarrow> (nat \<Rightarrow> run_budget \<Rightarrow> run_budget) \<Rightarrow> ('w, unit) act" where
  "move_clock c f =
     abind (outside (clock c)) (\<lambda>now. change (\<lambda>st. st\<lparr>ru_budget := f now (ru_budget st)\<rparr>))"

definition await_approvals ::
  "'w run_env \<Rightarrow> (prepared_call \<times> str option) list \<Rightarrow> ('w, prepared_call list) act" where
  "await_approvals c ps =
     (let approvals = asked_approvals ps in
      if approvals = [] then give (map fst ps)
      else
        abind (move_clock c pause_clock) (\<lambda>_.
        abind (await_decisions c approvals (map fst ps)) (\<lambda>ps.
        abind (move_clock c resume_clock) (\<lambda>_. give ps))))"

section \<open>Execution\<close>

definition run_call :: "'w run_env \<Rightarrow> prepared_call \<Rightarrow> ('w, tool_call \<times> executed) act" where
  "run_call c p =
     (let call = pc_call p in
      abind (reason_now c) (\<lambda>reason.
      case reason of
        Some reason \<Rightarrow> give (call, skipped_tool_call c (tc_name call) reason)
      | None \<Rightarrow>
          if \<not> pc_approved p then give (call, denied_tool_call c (tc_name call) (pc_denial p))
          else
            (case pc_arguments p of
               Inl message \<Rightarrow> give (call, tool_error_result c (tc_name call) message)
             | Inr args \<Rightarrow>
                 abind (log_action (Executed call args)) (\<lambda>_.
                 abind (outside (call_for_agent c (tc_name call) args)) (\<lambda>r.
                 give (call, executed_result c (tc_name call) r))))))"

section \<open>Results\<close>

definition after_call :: "'w run_env \<Rightarrow> tool_call \<Rightarrow> executed \<Rightarrow> str \<Rightarrow> ('w, str) act" where
  "after_call c call ex content =
     (if re_intercepted c \<and> ex_attempted ex then
        let args = (case parse_tool_arguments (read_json (re_repeat c)) (tc_arguments call) of
              Inr args \<Rightarrow> args | Inl _ \<Rightarrow> JNull) in
        abind (outside (after_tool c call args (ex_visible ex))) (\<lambda>(activity, feedback).
        abind (yield_hooks activity) (\<lambda>_. give (with_feedback content feedback)))
      else give content)"

definition note_repeat :: "'w run_env \<Rightarrow> tool_call \<Rightarrow> json \<Rightarrow> str \<Rightarrow> ('w, str) act" where
  "note_repeat c call visible content =
     abind (look (\<lambda>st. observe (re_repeat c) (made call) visible (ru_repeats st))) (\<lambda>(note, tracker).
     abind (change (\<lambda>st. st\<lparr>ru_repeats := tracker\<rparr>)) (\<lambda>_.
     give (case note of None \<Rightarrow> content | Some n \<Rightarrow> with_note content n)))"

definition yield_some :: "agent_event option \<Rightarrow> ('w, unit) act" where
  "yield_some ev = (case ev of None \<Rightarrow> give () | Some e \<Rightarrow> yield e)"

text \<open>A proposed worker run waits for the user, so the run ends on it.\<close>

definition worker_event :: "agent_event option \<Rightarrow> ('w, unit) act" where
  "worker_event ev =
     abind (yield_some ev) (\<lambda>_.
     case ev of
       Some (WorkerRunProposed _ _) \<Rightarrow> abind (look ru_iteration) (\<lambda>n. finish_run n False)
     | _ \<Rightarrow> give ())"

definition first_decision :: "tool_call \<Rightarrow> json option \<Rightarrow> bool \<Rightarrow> ('w, bool) act" where
  "first_decision call decision awaiting =
     (case (awaiting, decision) of
        (False, Some d) \<Rightarrow>
          abind (yield (UserDecisionRequested (tc_id call) (tc_name call) d)) (\<lambda>_. give True)
      | _ \<Rightarrow> give awaiting)"

definition answer_call ::
  "'w run_env \<Rightarrow> nat \<Rightarrow> tool_call \<Rightarrow> executed \<Rightarrow> str \<Rightarrow> bool \<Rightarrow> ('w, bool) act" where
  "answer_call c step call ex content awaiting =
     (let visible = ex_visible ex in
      abind (after_call c call ex content) (\<lambda>content.
      abind (note_repeat c call visible content) (\<lambda>content.
      abind (commit c (CommitToolResult step (tc_id call) (tc_name call) visible content)) (\<lambda>_.
      abind (yield (ToolResult (tc_id call) (tc_name call) visible (ex_ui ex) (ex_app_result ex))) (\<lambda>_.
      abind (yield_some (ex_memory ex)) (\<lambda>_.
      abind (yield_some (ex_child ex)) (\<lambda>_.
      abind (worker_event (ex_worker ex)) (\<lambda>_.
      abind (first_decision call (ex_decision ex) awaiting) (\<lambda>awaiting.
      abind (push_message (tool_message content (tc_id call))) (\<lambda>_.
      give awaiting))))))))))"

fun answer_calls ::
  "'w run_env \<Rightarrow> nat \<Rightarrow> ((tool_call \<times> executed) \<times> str) list \<Rightarrow> bool \<Rightarrow> ('w, bool) act" where
  "answer_calls c step [] awaiting = give awaiting"
| "answer_calls c step (((call, ex), content) # rest) awaiting =
     abind (answer_call c step call ex content awaiting) (\<lambda>awaiting. answer_calls c step rest awaiting)"

text \<open>The images of the results follow them as messages of the user.\<close>

definition result_images :: "(tool_call \<times> executed) list \<Rightarrow> chat_message list" where
  "result_images xs =
     List.map_filter (\<lambda>(call, ex). map_option (image_user_message (tc_name call)) (ex_image ex)) xs"

definition answer_results ::
  "'w run_env \<Rightarrow> nat \<Rightarrow> bool \<Rightarrow> (tool_call \<times> executed) list \<Rightarrow> ('w, unit) act" where
  "answer_results c step recover_length xs =
     abind (outside (outputs c)) (\<lambda>env.
     let contents = model_tool_contents env
           (map (\<lambda>(call, ex). (ex_model_text ex, ex_visible ex, tc_id call)) xs) (re_scope c) in
     abind (answer_calls c step (zip xs contents) False) (\<lambda>awaiting.
     abind (each push_message (result_images xs)) (\<lambda>_.
     if awaiting then abind (look ru_iteration) (\<lambda>n. finish_run n False)
     else if recover_length then push_note (text_message ''user'' LENGTH_RECOVERY_NOTE)
     else give ())))"

definition call_phase :: "'w run_env \<Rightarrow> nat \<Rightarrow> tool_call list \<Rightarrow> bool \<Rightarrow> bool \<Rightarrow> ('w, unit) act" where
  "call_phase c step calls truncated recover_length =
     abind (collect (\<lambda>call. prepare_call c truncated (resolve_proxy_call c call)) calls) (\<lambda>ps.
     abind (await_approvals c ps) (\<lambda>ps.
     abind (collect (run_call c) ps) (\<lambda>xs. answer_results c step recover_length xs)))"

end
