(* ===== verification/Agent_Rules.thy ===== *)
theory Agent_Rules
  imports Agent_Calls
begin

text \<open>
  Rules for the computations of the agent loop. \<open>does F K m\<close> bounds what \<open>m\<close> may do: it relates the
  states before and after by \<open>F\<close>, adds to the trace only actions of the kinds \<open>K\<close>, and ends the run
  exactly by a last action that tells the end. The rules for sequencing are proved once, for every
  frame \<open>F\<close>; the lemmas on the phases of a step then hold for each frame.
\<close>

section \<open>Kinds of actions\<close>

datatype action_kind = KEnd | KText | KRetry | KCall | KResult | KAsk | KAnswer | KOther
  | KSent | KAsked | KCommit | KCompleted | KHook | KExecuted

fun event_kind :: "agent_event \<Rightarrow> action_kind" where
  "event_kind (Token _) = KText"
| "event_kind (ProviderRetry _ _ _ _ _) = KRetry"
| "event_kind (ToolCallEvent _ _) = KCall"
| "event_kind (ToolResult _ _ _ _ _) = KResult"
| "event_kind (ToolApprovalRequired _ _ _ _) = KAsk"
| "event_kind (ToolApprovalResolved _ _ _ _) = KAnswer"
| "event_kind (Done _ _ _) = KEnd"
| "event_kind _ = KOther"

fun kind :: "action \<Rightarrow> action_kind" where
  "kind (Yield (Event ev)) = event_kind ev"
| "kind (Yield (Answer _)) = KOther"
| "kind (Yield (Limited _ _ _)) = KEnd"
| "kind (Yield (LoopFailed _ _)) = KEnd"
| "kind (Sent _) = KSent"
| "kind (Asked _) = KAsked"
| "kind (Committed _ _) = KCommit"
| "kind (Completed _ _) = KCompleted"
| "kind (HookApproved _) = KHook"
| "kind (Executed _ _) = KExecuted"

text \<open>A part of the trace that ends the run, or does not.\<close>

definition part :: "action_kind set \<Rightarrow> bool \<Rightarrow> action list \<Rightarrow> bool" where
  "part K ended t \<longleftrightarrow>
     (if ended then \<exists>u a. t = u @ [a] \<and> kind a = KEnd \<and> kind ` set u \<subseteq> K - {KEnd}
      else kind ` set t \<subseteq> K - {KEnd})"

lemma part_append: "part K False t \<Longrightarrow> part K e u \<Longrightarrow> part K e (t @ u)"
  by (auto simp: part_def image_Un split: if_splits intro: exI[of _ "t @ _"])

lemma part_mono:
  assumes "part J e t" and "J \<subseteq> K"
  shows "part K e t"
proof -
  have "X \<subseteq> J - {KEnd} \<Longrightarrow> X \<subseteq> K - {KEnd}" for X using assms(2) by blast
  then show ?thesis using assms(1) unfolding part_def by (cases e; simp; blast)
qed

section \<open>Values\<close>

definition gives :: "('a \<Rightarrow> bool) \<Rightarrow> ('w, 'a) act \<Rightarrow> bool" where
  "gives Q m \<longleftrightarrow> (\<forall>st x st'. m st = (Some x, st') \<longrightarrow> Q x)"

lemma gives_give [intro]: "Q x \<Longrightarrow> gives Q (give x)"
  by (simp add: gives_def give_def)

lemma gives_abind: "(\<And>x. gives Q (f x)) \<Longrightarrow> gives Q (abind m f)"
  unfolding gives_def abind_def by (auto split: prod.splits option.splits)

lemma gives_abind_value: "gives P m \<Longrightarrow> (\<And>x. P x \<Longrightarrow> gives Q (f x)) \<Longrightarrow> gives Q (abind m f)"
  unfolding gives_def abind_def by (auto split: prod.splits option.splits) blast

lemma gives_collect:
  assumes "\<And>x. x \<in> set xs \<Longrightarrow> gives (Q x) (f x)"
  shows "gives (list_all2 Q xs) (collect f xs)"
  using assms
proof (induction xs)
  case (Cons x xs)
  then have "gives (Q x) (f x)" and "gives (list_all2 Q xs) (collect f xs)" by simp_all
  then show ?case by (auto intro!: gives_abind_value gives_give)
qed auto

section \<open>Frames\<close>

text \<open>What the small effects change.\<close>

definition backstage :: "action list \<Rightarrow> 'w \<Rightarrow> usage \<Rightarrow> run_budget \<Rightarrow> context_window \<Rightarrow> repeat_tracker \<Rightarrow> 'w run \<Rightarrow> 'w run" where
  "backstage t w u b win rp st = st\<lparr>ru_trace := t, ru_world := w, ru_usage := u, ru_budget := b,
     ru_window := win, ru_repeats := rp\<rparr>"

locale frame =
  fixes F :: "'w run \<Rightarrow> 'w run \<Rightarrow> bool"
  assumes frame_refl: "F st st"
    and frame_trans: "F st st' \<Longrightarrow> F st' st'' \<Longrightarrow> F st st''"
    and frame_backstage: "F st (backstage t w u b win rp st)"
begin

definition does :: "action_kind set \<Rightarrow> ('w, 'a) act \<Rightarrow> bool" where
  "does K m \<longleftrightarrow> (\<forall>st. F st (snd (m st)) \<and>
     (\<exists>t. ru_trace (snd (m st)) = ru_trace st @ t \<and> part K (fst (m st) = None) t))"

lemma does_mono: "does J m \<Longrightarrow> J \<subseteq> K \<Longrightarrow> does K m"
  unfolding does_def by (meson part_mono)

lemma does_give [intro]: "does K (give x)"
  by (simp add: does_def give_def part_def frame_refl)

lemma does_look [intro]: "does K (look f)"
  by (simp add: does_def look_def part_def frame_refl)

lemma does_change:
  "(\<And>st. F st (f st)) \<Longrightarrow> (\<And>st. ru_trace (f st) = ru_trace st) \<Longrightarrow> does K (change f)"
  by (simp add: does_def change_def part_def)

lemma does_outside [intro]: "does K (outside f)"
proof -
  have "F st (st\<lparr>ru_world := w\<rparr>)" for st w
    using frame_backstage[of st "ru_trace st" w "ru_usage st" "ru_budget st" "ru_window st" "ru_repeats st"]
    by (simp add: backstage_def)
  then show ?thesis by (simp add: does_def outside_def part_def split: prod.split)
qed

lemma frame_log: "F st (st\<lparr>ru_trace := t\<rparr>)"
  using frame_backstage[of st t "ru_world st" "ru_usage st" "ru_budget st" "ru_window st" "ru_repeats st"]
  by (simp add: backstage_def)

lemma does_log: "kind a \<in> K \<Longrightarrow> kind a \<noteq> KEnd \<Longrightarrow> does K (log_action a)"
  by (simp add: does_def log_action_def change_def part_def frame_log)

lemma does_abind_value:
  assumes "does K m" and "gives Q m" and "\<And>x. Q x \<Longrightarrow> does K (f x)"
  shows "does K (abind m f)"
  unfolding does_def
proof
  fix st
  obtain t where t: "F st (snd (m st))" "ru_trace (snd (m st)) = ru_trace st @ t"
      "part K (fst (m st) = None) t"
    using assms(1) unfolding does_def by blast
  show "F st (snd (abind m f st)) \<and>
    (\<exists>t. ru_trace (snd (abind m f st)) = ru_trace st @ t \<and> part K (fst (abind m f st) = None) t)"
  proof (cases "m st")
    case (Pair r st')
    show ?thesis
    proof (cases r)
      case None
      then show ?thesis using t Pair by (simp add: abind_def)
    next
      case (Some x)
      have "Q x" using assms(2) Pair Some unfolding gives_def by blast
      then obtain u where "F st' (snd (f x st'))" "ru_trace (snd (f x st')) = ru_trace st' @ u"
          "part K (fst (f x st') = None) u"
        using assms(3)[of x] unfolding does_def by blast
      then show ?thesis
        using t Pair Some frame_trans by (auto simp: abind_def intro!: part_append)
    qed
  qed
qed

lemma does_abind: "does K m \<Longrightarrow> (\<And>x. does K (f x)) \<Longrightarrow> does K (abind m f)"
  by (rule does_abind_value[of K m "\<lambda>_. True"]) (simp_all add: gives_def)

lemma does_end:
  assumes "\<And>st. kind (h (g st)) = KEnd"
  shows "does K (abind (look g) (\<lambda>x. abind (log_action (h x)) (\<lambda>_. return)))"
  using assms by (simp add: does_def abind_def look_def log_action_def change_def return_def part_def frame_log)

lemma does_fail [intro]: "does K (fail_with error message)"
  by (simp add: does_def fail_with_def abind_def log_action_def change_def return_def part_def frame_log)

lemma does_failed [intro]: "does K (failed_run error)"
  unfolding failed_run_def by (rule does_fail)

lemma does_limited [intro]: "does K (limited reason)"
  unfolding limited_def by (rule does_end) simp

lemma does_finish [intro]: "does K (finish_run n l)"
  unfolding finish_run_def yield_def by (rule does_end) simp

lemma does_yield: "event_kind ev \<in> K \<Longrightarrow> event_kind ev \<noteq> KEnd \<Longrightarrow> does K (yield ev)"
  unfolding yield_def by (rule does_log) simp_all

lemma does_each: "(\<And>x. does K (f x)) \<Longrightarrow> does K (each f xs)"
  by (induction xs) (auto intro!: does_abind)

lemma does_collect: "(\<And>x. does K (f x)) \<Longrightarrow> does K (collect f xs)"
  by (induction xs) (auto intro!: does_abind)

lemmas does_rules = does_give does_look does_outside does_log does_yield does_fail does_failed
  does_limited does_finish does_each does_collect does_abind

section \<open>Small steps\<close>

lemma backstage_frames:
  "F st (st\<lparr>ru_budget := b\<rparr>)" "F st (st\<lparr>ru_usage := u\<rparr>)" "F st (st\<lparr>ru_window := win\<rparr>)"
  "F st (st\<lparr>ru_repeats := rp\<rparr>)"
  using frame_backstage[of st "ru_trace st" "ru_world st" "ru_usage st" b "ru_window st" "ru_repeats st"]
    frame_backstage[of st "ru_trace st" "ru_world st" u "ru_budget st" "ru_window st" "ru_repeats st"]
    frame_backstage[of st "ru_trace st" "ru_world st" "ru_usage st" "ru_budget st" win "ru_repeats st"]
    frame_backstage[of st "ru_trace st" "ru_world st" "ru_usage st" "ru_budget st" "ru_window st" rp]
  by (simp_all add: backstage_def)

lemma does_reason_now [intro]: "does K (reason_now c)"
  by (auto simp: reason_now_def intro!: does_rules)

lemma does_bill [intro]: "does K (bill c u)"
  unfolding bill_def by (rule does_change) (simp_all add: backstage_frames)

lemma does_count_usage [intro]: "KOther \<in> K \<Longrightarrow> does K (count_usage c u)"
  by (auto simp: count_usage_def intro!: does_rules does_change backstage_frames)

lemma does_yield_hooks [intro]: "KOther \<in> K \<Longrightarrow> does K (yield_hooks xs)"
  by (auto simp: yield_hooks_def intro!: does_rules)

lemma does_try_commit [intro]: "KCommit \<in> K \<Longrightarrow> does K (try_commit c h)"
  by (auto simp: try_commit_def intro!: does_rules)

lemma does_commit [intro]: "KCommit \<in> K \<Longrightarrow> does K (commit c h)"
  by (auto simp: commit_def intro!: does_rules does_try_commit split: sum.splits)

lemmas does_small = does_rules does_reason_now does_bill does_count_usage does_yield_hooks
  does_try_commit does_commit

section \<open>The phases of a request\<close>

lemma does_wrap_up [intro]: "{KOther, KAsked, KCommit} \<subseteq> K \<Longrightarrow> does K (wrap_up c reason)"
  by (auto simp: wrap_up_def report_run_def ask_service_def intro!: does_small split: sum.splits option.splits)

lemma does_read_items: "{KOther, KText} \<subseteq> K \<Longrightarrow> does K (read_items c items r)"
  by (induction c items r rule: read_items.induct) (auto intro!: does_small split: option.splits)

lemma does_send_request [intro]: "{KOther, KText, KSent} \<subseteq> K \<Longrightarrow> does K (send_request c req)"
  by (auto simp: send_request_def intro!: does_small does_read_items split: sum.splits)

lemma does_discard [intro]: "KRetry \<in> K \<Longrightarrow> does K (discard attempts delay reason r)"
  by (auto simp: discard_def intro!: does_small)

lemma does_bill_if_done [intro]: "does K (bill_if_done c r)"
  by (auto simp: bill_if_done_def)

lemma does_on_overflow: "{KOther, KRetry} \<subseteq> K \<Longrightarrow> does K (on_overflow c req recovered attempts error r)"
  by (auto simp: on_overflow_def intro!: does_small does_change backstage_frames)

lemma does_wait_to_retry:
  "{KOther, KRetry} \<subseteq> K \<Longrightarrow> does K (wait_to_retry c attempts n message retry r)"
  by (auto simp: wait_to_retry_def Let_def intro!: does_small split: option.splits)

lemma does_try_request:
  "{KOther, KText, KSent, KRetry} \<subseteq> K \<Longrightarrow> does K (try_request c req recovered attempts n)"
proof (induction c req recovered attempts n rule: try_request.induct)
  case (1 c req recovered attempts n)
  then show ?case
    by (subst try_request.simps)
      (auto intro!: does_small does_on_overflow does_wait_to_retry does_send_request split: option.splits)
qed

section \<open>The calls of a step\<close>

lemma does_intercept_call: "{KOther, KHook} \<subseteq> K \<Longrightarrow> does K (intercept_call c call arguments refusal)"
  by (auto simp: intercept_call_def intro!: does_small
      split: sum.splits option.splits bool.splits tool_decision.splits)

lemma does_ask_approval: "KAsk \<in> K \<Longrightarrow> does K (ask_approval c call arguments hook_approved granted)"
  by (auto simp: ask_approval_def intro!: does_small split: sum.splits bool.splits)

lemma does_prepare_call: "{KOther, KHook, KAsk, KCall} \<subseteq> K \<Longrightarrow> does K (prepare_call c truncated call)"
  by (auto simp: prepare_call_def Let_def intro!: does_small does_intercept_call does_ask_approval)

lemma does_resolve_approval: "KAnswer \<in> K \<Longrightarrow> does K (resolve_approval a decision ps)"
  by (auto simp: resolve_approval_def Let_def intro!: does_small split: option.splits prod.splits)

lemma does_await_decisions: "KAnswer \<in> K \<Longrightarrow> does K (await_decisions c as ps)"
  by (induction c as ps rule: await_decisions.induct)
    (auto simp: await_decisions.simps(2) intro!: does_small does_resolve_approval)

lemma does_move_clock: "does K (move_clock c f)"
  by (auto simp: move_clock_def intro!: does_small does_change backstage_frames)

lemma does_await_approvals: "KAnswer \<in> K \<Longrightarrow> does K (await_approvals c ps)"
  by (auto simp: await_approvals_def Let_def intro!: does_small does_move_clock does_await_decisions)

lemma does_run_call: "KExecuted \<in> K \<Longrightarrow> does K (run_call c p)"
  by (auto simp: run_call_def Let_def intro!: does_small split: option.splits sum.splits)

lemma does_after_call: "KOther \<in> K \<Longrightarrow> does K (after_call c call ex content)"
  by (auto simp: after_call_def Let_def intro!: does_small)

lemma does_note_repeat: "does K (note_repeat c call visible content)"
  by (auto simp: note_repeat_def intro!: does_small does_change backstage_frames)

lemma does_yield_some: "(\<And>e. ev = Some e \<Longrightarrow> event_kind e = KOther) \<Longrightarrow> KOther \<in> K \<Longrightarrow> does K (yield_some ev)"
  by (auto simp: yield_some_def intro!: does_small split: option.splits)

lemma does_first_decision: "KOther \<in> K \<Longrightarrow> does K (first_decision call decision awaiting)"
  by (auto simp: first_decision_def intro!: does_small split: option.splits bool.splits)

lemma does_worker_event:
  assumes "\<And>e. ev = Some e \<Longrightarrow> event_kind e = KOther" and "KOther \<in> K"
  shows "does K (worker_event ev)"
  using assms
  by (auto simp: worker_event_def intro!: does_small does_yield_some split: option.splits agent_event.splits)

lemma does_stop_feedback: "KOther \<in> K \<Longrightarrow> does K (stop_feedback c content)"
  by (auto simp: stop_feedback_def intro!: does_small)

end

section \<open>Results\<close>

text \<open>The events a tool result gives rise to are none of those the loop itself yields.\<close>

definition tidy :: "executed \<Rightarrow> bool" where
  "tidy ex \<longleftrightarrow> (\<forall>e. e \<in> set_option (ex_memory ex) \<union> set_option (ex_child ex) \<union> set_option (ex_worker ex) \<longrightarrow>
     event_kind e = KOther)"

lemma tidy_not_run [simp]:
  "tidy (not_run c name visible)" "tidy (denied_tool_call c name reason)"
  "tidy (skipped_tool_call c name r)" "tidy (tool_error_result c name message)"
  by (simp_all add: tidy_def not_run_def denied_tool_call_def skipped_tool_call_def tool_error_result_def)

lemma memory_event_kind: "memory_registered_event v = Some e \<Longrightarrow> event_kind e = KOther"
  by (auto simp: memory_registered_event_def Option.bind_eq_Some_conv)

lemma child_event_kind: "child_thread_event c v = Some e \<Longrightarrow> event_kind e = KOther"
  by (auto simp: child_thread_event_def Option.bind_eq_Some_conv split: if_splits)

lemma worker_event_kind: "worker_run_event c v = Some e \<Longrightarrow> event_kind e = KOther"
  by (auto simp: worker_run_event_def Option.bind_eq_Some_conv split: if_splits)

lemma tidy_executed: "tidy (executed_result c name r)"
proof (cases r)
  case (Inr v)
  then show ?thesis
    by (auto simp: executed_result_def tidy_def split: prod.splits
        dest: memory_event_kind child_event_kind worker_event_kind)
qed (simp add: executed_result_def)

text \<open>A call that has been run, or not: it is still the call that was prepared.\<close>

lemma gives_run_call: "gives (\<lambda>x. fst x = pc_call p \<and> tidy (snd x)) (run_call c p)"
  unfolding run_call_def Let_def
  by (auto intro!: gives_abind gives_give simp: tidy_executed split: option.splits sum.splits)

lemma gives_run_calls:
  "gives (\<lambda>xs. map fst xs = map pc_call ps \<and> (\<forall>x \<in> set xs. tidy (snd x))) (collect (run_call c) ps)"
proof -
  have "gives (list_all2 (\<lambda>p x. fst x = pc_call p \<and> tidy (snd x)) ps) (collect (run_call c) ps)"
    by (rule gives_collect) (rule gives_run_call)
  moreover have "list_all2 (\<lambda>p x. fst x = pc_call p \<and> tidy (snd x)) ps xs \<Longrightarrow>
      map fst xs = map pc_call ps \<and> (\<forall>x \<in> set xs. tidy (snd x))" for xs
    by (induction rule: list_all2_induct) auto
  ultimately show ?thesis unfolding gives_def by blast
qed

section \<open>Frames that do not mind the conversation\<close>

text \<open>What the phases that speak to the model change besides.\<close>

definition converse ::
  "chat_message list \<Rightarrow> nat option \<Rightarrow> chat_message list \<Rightarrow> nat \<Rightarrow> nat \<Rightarrow> 'w run \<Rightarrow> 'w run" where
  "converse ms a ns r s st = st\<lparr>ru_messages := ms, ru_anchor := a, ru_notes := ns,
     ru_length_recoveries := r, ru_stops := s\<rparr>"

locale loose_frame = frame F for F :: "'w run \<Rightarrow> 'w run \<Rightarrow> bool" +
  assumes frame_converse: "F st (converse ms a ns r s st)"
begin

lemma converse_frames:
  "F st (st\<lparr>ru_messages := ms, ru_anchor := a\<rparr>)" "F st (st\<lparr>ru_messages := ms\<rparr>)" "F st (st\<lparr>ru_notes := ns\<rparr>)"
  "F st (st\<lparr>ru_length_recoveries := r\<rparr>)" "F st (st\<lparr>ru_stops := s\<rparr>)"
  using frame_converse[of st ms a "ru_notes st" "ru_length_recoveries st" "ru_stops st"]
    frame_converse[of st ms "ru_anchor st" "ru_notes st" "ru_length_recoveries st" "ru_stops st"]
    frame_converse[of st "ru_messages st" "ru_anchor st" ns "ru_length_recoveries st" "ru_stops st"]
    frame_converse[of st "ru_messages st" "ru_anchor st" "ru_notes st" r "ru_stops st"]
    frame_converse[of st "ru_messages st" "ru_anchor st" "ru_notes st" "ru_length_recoveries st" s]
  by (simp_all add: converse_def)

lemmas converse_rules = does_small does_change converse_frames

lemma does_push_message [intro]: "does K (push_message m)"
  by (auto simp: push_message_def intro!: converse_rules)

lemma does_push_note [intro]: "does K (push_note m)"
  by (auto simp: push_note_def intro!: converse_rules)

lemma does_compact_phase: "{KOther, KCommit} \<subseteq> K \<Longrightarrow> does K (compact_phase c step forced)"
  by (auto simp: compact_phase_def intro!: converse_rules split: option.splits)

lemma does_request_round:
  "{KOther, KCommit, KText, KSent, KRetry} \<subseteq> K \<Longrightarrow> does K (request_round c step overflow attempts)"
  by (auto simp: request_round_def intro!: does_small does_compact_phase does_try_request split: option.splits)

lemma does_keep_text: "does K (keep_text r)"
  by (auto simp: keep_text_def)

lemma does_answer_run: "KOther \<in> K \<Longrightarrow> does K (answer_run r)"
  by (auto simp: answer_run_def intro!: does_small)

lemma does_no_calls: "KOther \<in> K \<Longrightarrow> does K (no_calls c r truncated)"
  by (auto simp: no_calls_def intro!: converse_rules does_keep_text does_answer_run does_stop_feedback does_push_note
      split: option.splits)

lemma does_answer_call:
  assumes "tidy ex" and "{KOther, KCommit, KResult} \<subseteq> K"
  shows "does K (answer_call c step call ex content awaiting)"
  using assms unfolding answer_call_def Let_def
  by (auto simp: tidy_def intro!: does_small does_after_call does_note_repeat does_yield_some
      does_worker_event does_first_decision does_push_message)

lemma does_answer_calls:
  assumes "\<forall>x \<in> set xs. tidy (snd (fst x))" and "{KOther, KCommit, KResult} \<subseteq> K"
  shows "does K (answer_calls c step xs awaiting)"
  using assms
  by (induction c step xs awaiting rule: answer_calls.induct)
    (auto intro!: does_abind does_answer_call)

lemma does_answer_results:
  assumes "\<forall>x \<in> set xs. tidy (snd x)" and "{KOther, KCommit, KResult} \<subseteq> K"
  shows "does K (answer_results c step recover_length xs)"
  unfolding answer_results_def Let_def
  by (auto intro!: does_small does_answer_calls does_push_message does_push_note simp: assms
      dest!: set_zip_leftD) (use assms in auto)

lemma does_call_phase:
  assumes "{KOther, KCommit, KResult, KExecuted, KCall, KAsk, KAnswer, KHook} \<subseteq> K"
  shows "does K (call_phase c step calls truncated recover_length)"
  unfolding call_phase_def
proof (rule does_abind[OF does_collect[OF does_prepare_call]], use assms in simp,
    rule does_abind[OF does_await_approvals], use assms in simp,
    rule does_abind_value[OF does_collect[OF does_run_call] gives_run_calls], use assms in simp)
  fix ps and xs :: "(tool_call \<times> executed) list"
  assume "map fst xs = map pc_call ps \<and> (\<forall>x \<in> set xs. tidy (snd x))"
  then show "does K (answer_results c step recover_length xs)"
    using assms by (intro does_answer_results) auto
qed

end

end
