(* ===== verification/Agent_Loop.thy ===== *)
theory Agent_Loop
  imports Agent_Rules
begin

text \<open>
  The agent loop put together (crates/milim-agents/src/lib.rs, \<open>agent_loop\<close>): its start, one step, the
  repetition of steps, and the two entry points that present its items, \<open>run_agent_stream_with_config\<close>
  and \<open>run_agent_with_config\<close>. The step and tool timings handed to the hook, whose failures are
  ignored, are left out.
\<close>

section \<open>One step\<close>

definition prepare_step :: "'w run_env \<Rightarrow> nat \<Rightarrow> ('w, unit) act" where
  "prepare_step c step =
     (if re_hooked c then
        abind (look ru_messages) (\<lambda>msgs.
        abind (outside (prepare c step msgs)) (\<lambda>r.
        case r of
          Inl error \<Rightarrow> failed_run error
        | Inr msgs \<Rightarrow> change (\<lambda>st. st\<lparr>ru_messages := msgs\<rparr>)))
      else give ())"

definition append_notes :: "('w, unit) act" where
  "append_notes = change (\<lambda>st. st\<lparr>ru_messages := ru_messages st @ ru_notes st, ru_notes := []\<rparr>)"

definition count_iteration :: "('w, unit) act" where
  "count_iteration = change (\<lambda>st. st\<lparr>ru_iteration := ru_iteration st + 1\<rparr>)"

definition limit_reason :: "'w run_env \<Rightarrow> ('w, str option) act" where
  "limit_reason c =
     abind (reason_now c) (\<lambda>reason.
     look (\<lambda>st. case reason of
         Some r \<Rightarrow> Some r
       | None \<Rightarrow> if max_iterations c \<le> ru_iteration st then Some (limit_message_text (max_iterations c)) else None))"

definition count_recovery :: "bool \<Rightarrow> ('w, bool) act" where
  "count_recovery unparseable =
     abind (look (\<lambda>st. unparseable \<and> ru_length_recoveries st < MAX_LENGTH_RECOVERIES)) (\<lambda>recover_length.
     abind (change (\<lambda>st. st\<lparr>ru_length_recoveries :=
         if recover_length then ru_length_recoveries st + 1
         else if \<not> unparseable then 0 else ru_length_recoveries st\<rparr>)) (\<lambda>_.
     give recover_length))"

definition with_calls :: "'w run_env \<Rightarrow> nat \<Rightarrow> response \<Rightarrow> tool_call list \<Rightarrow> bool \<Rightarrow> ('w, unit) act" where
  "with_calls c step r calls truncated =
     abind (limit_reason c) (\<lambda>reason.
     case reason of
       Some reason \<Rightarrow> wrap_up c reason
     | None \<Rightarrow>
         abind (count_recovery (truncated \<and> list_ex (unparseable_call c) calls)) (\<lambda>recover_length.
         abind (push_message (assistant_message
             (if rp_content r = [] then None else Some (CText (rp_content r))) (Some calls) r)) (\<lambda>_.
         call_phase c step calls truncated recover_length)))"

definition close_request :: "'w run_env \<Rightarrow> nat \<Rightarrow> response \<Rightarrow> nat \<Rightarrow> ('w, unit) act" where
  "close_request c step r est =
     abind (log_action (Completed step (rp_content r))) (\<lambda>_.
     abind (bill c (rp_usage r)) (\<lambda>_.
     abind (change (\<lambda>st. st\<lparr>ru_window := calibrate est (us_prompt (rp_usage r)) (ru_window st)\<rparr>)) (\<lambda>_.
     commit c (CommitResponse step (rp_content r) (rp_reasoning r) (finish_calls (rp_calls r))
       (normalize_finish_reason (rp_finish r)) (rp_usage r) (rp_state r)))))"

definition end_step :: "'w run_env \<Rightarrow> nat \<Rightarrow> response \<Rightarrow> ('w, unit) act" where
  "end_step c step r =
     (let calls = finish_calls (rp_calls r);
          truncated = (normalize_finish_reason (rp_finish r) = ''length'')
      in if calls = [] then no_calls c r truncated else with_calls c step r calls truncated)"

definition agent_step :: "'w run_env \<Rightarrow> ('w, unit) act" where
  "agent_step c =
     abind (look (\<lambda>st. ru_iteration st + 1)) (\<lambda>step.
     abind (reason_now c) (\<lambda>reason.
     case reason of
       Some reason \<Rightarrow> wrap_up c reason
     | None \<Rightarrow>
         abind (prepare_step c step) (\<lambda>_.
         abind append_notes (\<lambda>_.
         abind (request_loop c step) (\<lambda>(r, est).
         abind count_iteration (\<lambda>_.
         abind (close_request c step r est) (\<lambda>_.
         end_step c step r)))))))"

section \<open>Start\<close>

definition new_run :: "'w run_env \<Rightarrow> chat_message list \<Rightarrow> 'w \<Rightarrow> 'w run" where
  "new_run c msgs w =
     (case clock c w of (now, w) \<Rightarrow>
       \<lparr>ru_messages = msgs, ru_anchor = last_index (\<lambda>m. mg_role m = ''user'') msgs,
        ru_window = new_window (re_window c), ru_usage = no_usage, ru_budget = new_budget now (re_limits c),
        ru_notes = [], ru_length_recoveries = 0, ru_stops = 0, ru_repeats = new_tracker, ru_iteration = 0,
        ru_trace = [], ru_world = w\<rparr>)"

definition begin_run :: "'w run_env \<Rightarrow> ('w, unit) act" where
  "begin_run c =
     abind (commit c CommitCatalog) (\<lambda>_.
     abind (yield (Start (re_model c))) (\<lambda>_.
     if re_intercepted c then
       abind (look ru_messages) (\<lambda>msgs.
       abind (outside (before_turn c msgs)) (\<lambda>(activity, block, context).
       abind (yield_hooks activity) (\<lambda>_.
       case block of
         Some reason \<Rightarrow> fail_with (''invalid request: '' @ blocked_turn_message reason) (blocked_turn_message reason)
       | None \<Rightarrow> (case context_message context of None \<Rightarrow> give () | Some m \<Rightarrow> push_note m))))
     else give ()))"

section \<open>Progress\<close>

text \<open>Frames the loop is reasoned with: the count of steps, and the conversation.\<close>

definition same_iteration :: "'w run \<Rightarrow> 'w run \<Rightarrow> bool" where
  "same_iteration st st' \<longleftrightarrow> ru_iteration st' = ru_iteration st"

interpretation it: loose_frame same_iteration
  by unfold_locales (simp_all add: same_iteration_def backstage_def converse_def)

definition anything :: "'w run \<Rightarrow> 'w run \<Rightarrow> bool" where
  "anything st st' \<longleftrightarrow> True"

interpretation any: loose_frame anything
  by unfold_locales (simp_all add: anything_def)

definition same_conversation :: "'w run \<Rightarrow> 'w run \<Rightarrow> bool" where
  "same_conversation st st' \<longleftrightarrow> ru_iteration st' = ru_iteration st \<and> ru_messages st' = ru_messages st \<and>
     ru_anchor st' = ru_anchor st \<and> ru_notes st' = ru_notes st \<and>
     ru_length_recoveries st' = ru_length_recoveries st \<and> ru_stops st' = ru_stops st"

interpretation conv: frame same_conversation
  by unfold_locales (simp_all add: same_conversation_def backstage_def)

text \<open>A second round of a request does not overflow.\<close>

lemma gives_ends [intro]: "gives Q (fail_with e m)" "gives Q (limited reason)" "gives Q (finish_run n l)"
  by (simp_all add: gives_def fail_with_def limited_def finish_run_def yield_def abind_def return_def
      log_action_def change_def look_def)

lemma gives_on_overflow:
  "gives (\<lambda>x. recovered \<longrightarrow> (\<exists>r. fst x = Finished r)) (on_overflow c req recovered attempts error r)"
  by (cases recovered) (auto simp: on_overflow_def intro!: gives_abind gives_give)

lemma gives_try_request:
  "gives (\<lambda>x. recovered \<longrightarrow> (\<exists>r. fst x = Finished r)) (try_request c req recovered attempts n)"
proof (induction c req recovered attempts n rule: try_request.induct)
  case (1 c req recovered attempts n)
  then show ?case
    by (subst try_request.simps)
      (auto split: option.splits intro!: gives_abind gives_give gives_on_overflow gives_ends)
qed

lemma gives_request_round:
  "gives (\<lambda>x. overflow \<noteq> None \<longrightarrow> (\<exists>r. fst (fst x) = Finished r)) (request_round c step overflow attempts)"
  unfolding request_round_def
  by (auto intro!: gives_abind gives_ends gives_abind_value[OF gives_try_request] gives_give split: option.splits)

context loose_frame
begin

lemma does_request_loop:
  assumes "{KOther, KCommit, KText, KSent, KRetry} \<subseteq> K"
  shows "does K (request_loop c step)"
proof -
  have second: "does K (abind (request_round c step (Some error) attempts) (\<lambda>((r, _), est).
      case r of Finished resp \<Rightarrow> give (resp, est) | Overflowed _ \<Rightarrow> return))" for error attempts
    by (rule does_abind_value[OF _ gives_request_round])
      (use assms in \<open>auto intro!: does_request_round does_give split: prod.splits attempt_end.splits\<close>)
  show ?thesis
    unfolding request_loop_def
    by (rule does_abind) (use assms in \<open>auto intro!: does_request_round does_give second split: prod.splits attempt_end.splits\<close>)
qed

lemma does_prepare_step: "does K (prepare_step c step)"
  by (auto simp: prepare_step_def intro!: converse_rules split: sum.splits)

lemma does_append_notes: "does K append_notes"
proof -
  have "F st (st\<lparr>ru_messages := ms, ru_notes := ns\<rparr>)" for st ms ns
    using frame_converse[of st ms "ru_anchor st" ns "ru_length_recoveries st" "ru_stops st"]
    by (simp add: converse_def)
  then show ?thesis unfolding append_notes_def by (intro does_change) simp_all
qed

lemma does_limit_reason: "does K (limit_reason c)"
  by (auto simp: limit_reason_def intro!: does_small)

lemma does_count_recovery: "does K (count_recovery u)"
  by (auto simp: count_recovery_def intro!: converse_rules)

abbreviation call_kinds :: "action_kind set" where
  "call_kinds \<equiv> {KOther, KAsked, KCommit, KResult, KExecuted, KCall, KAsk, KAnswer, KHook}"

lemma does_with_calls: "call_kinds \<subseteq> K \<Longrightarrow> does K (with_calls c step r calls truncated)"
  by (auto simp: with_calls_def intro!: does_small does_limit_reason does_count_recovery does_push_message
      does_call_phase does_wrap_up split: option.splits)

lemma does_close_request: "{KCompleted, KCommit} \<subseteq> K \<Longrightarrow> does K (close_request c step r est)"
  by (auto simp: close_request_def intro!: does_small does_change backstage_frames)

lemma does_begin_run: "{KOther, KCommit} \<subseteq> K \<Longrightarrow> does K (begin_run c)"
  by (auto simp: begin_run_def intro!: does_small does_push_note split: option.splits)

end

lemma abind_SomeE [elim!]:
  assumes "abind m f st = (Some y, st'')"
  obtains x st' where "m st = (Some x, st')" and "f x st' = (Some y, st'')"
  using assms by (auto simp: abind_def split: prod.splits option.splits)

lemma same_iterationD: "it.does K m \<Longrightarrow> m st = (r, st') \<Longrightarrow> ru_iteration st' = ru_iteration st"
  unfolding it.does_def same_iteration_def by (metis snd_conv)

lemma look_Some [simp]: "look f st = (Some x, st') \<longleftrightarrow> x = f st \<and> st' = st"
  by (auto simp: look_def)

lemma never_Some [simp]:
  "fail_with e m st \<noteq> (Some x, st')" "failed_run e st \<noteq> (Some x, st')" "limited reason st \<noteq> (Some x, st')"
  "finish_run n l st \<noteq> (Some x, st')"
  by (simp_all add: fail_with_def failed_run_def limited_def finish_run_def yield_def abind_def return_def
      log_action_def change_def look_def)

lemma answer_run_never [simp]: "answer_run r st \<noteq> (Some x, st')"
  by (auto simp: answer_run_def)

lemma wrap_up_never [simp]: "wrap_up c reason st \<noteq> (Some x, st')"
  by (auto simp: wrap_up_def report_run_def split: if_splits sum.splits option.splits)

lemma stop_feedback_Some:
  assumes "stop_feedback c content st = (Some (Some feedback), st')"
  shows "ru_iteration st < max_iterations c"
  using assms same_iterationD[OF it.does_yield_hooks[of UNIV]]
  by (fastforce simp: stop_feedback_def give_def outside_def split: if_splits prod.splits)

lemma no_calls_Some:
  assumes "no_calls c r truncated st = (Some x, st')"
  shows "ru_iteration st < max_iterations c"
  using assms stop_feedback_Some same_iterationD[OF it.does_reason_now[of UNIV]]
  by (fastforce simp: no_calls_def split: if_splits option.splits)

lemma with_calls_Some:
  assumes "with_calls c step r calls truncated st = (Some x, st')"
  shows "ru_iteration st < max_iterations c"
  using assms same_iterationD[OF it.does_reason_now[of UNIV]]
  by (fastforce simp: with_calls_def limit_reason_def split: if_splits option.splits)

lemma end_step_Some:
  assumes "end_step c step r st = (Some x, st')"
  shows "ru_iteration st < max_iterations c \<and> ru_iteration st' = ru_iteration st"
  using assms same_iterationD[OF it.does_no_calls[of UNIV]] same_iterationD[OF it.does_with_calls[of UNIV]]
  by (auto simp: end_step_def Let_def split: if_splits dest: no_calls_Some with_calls_Some)

text \<open>A step that does not end the run has counted one iteration, and there is one left.\<close>

lemma step_progress:
  assumes "agent_step c st = (Some x, st')"
  shows "ru_iteration st' = ru_iteration st + 1 \<and> ru_iteration st' < max_iterations c"
proof -
  obtain s1 s2 s3 s4 s5 r est where
    s1: "reason_now c st = (Some None, s1)" and
    s2: "prepare_step c (ru_iteration st + 1) s1 = (Some (), s2)" and
    s3: "append_notes s2 = (Some (), s3)" and
    s4: "request_loop c (ru_iteration st + 1) s3 = (Some (r, est), s4)" and
    s5: "close_request c (ru_iteration st + 1) r est (s4\<lparr>ru_iteration := ru_iteration s4 + 1\<rparr>) = (Some (), s5)" and
    end_step: "end_step c (ru_iteration st + 1) r s5 = (Some x, st')"
    using assms
    by (auto simp: agent_step_def count_iteration_def change_def split: option.splits prod.splits)
  have "ru_iteration s5 = ru_iteration s4 + 1"
    using same_iterationD[OF it.does_close_request[of UNIV] s5] by simp
  moreover have "ru_iteration s4 = ru_iteration s3"
    by (rule same_iterationD[OF it.does_request_loop[of UNIV] s4]) simp
  moreover have "ru_iteration s3 = ru_iteration s2" by (rule same_iterationD[OF it.does_append_notes s3])
  moreover have "ru_iteration s2 = ru_iteration s1" by (rule same_iterationD[OF it.does_prepare_step s2])
  moreover have "ru_iteration s1 = ru_iteration st" by (rule same_iterationD[OF it.does_reason_now s1])
  ultimately show ?thesis using end_step_Some[OF end_step] by simp
qed

section \<open>The loop\<close>

function run_loop :: "'w run_env \<Rightarrow> 'w run \<Rightarrow> 'w run" where
  "run_loop c st = (case agent_step c st of (None, st') \<Rightarrow> st' | (Some _, st') \<Rightarrow> run_loop c st')"
  by pat_completeness auto
termination
proof (relation "measure (\<lambda>(c, st). max_iterations c - ru_iteration st)")
  fix c and st :: "'w run" and r x y st'
  assume step: "(r, st') = agent_step c st" and r: "r = Some y"
  have "ru_iteration st' = ru_iteration st + 1 \<and> ru_iteration st' < max_iterations c"
    by (rule step_progress) (simp add: step[symmetric] r)
  then show "((c, st'), c, st) \<in> measure (\<lambda>(c, st). max_iterations c - ru_iteration st)" by auto
qed simp

declare run_loop.simps [simp del]

definition agent_loop :: "'w run_env \<Rightarrow> chat_message list \<Rightarrow> 'w \<Rightarrow> 'w run" where
  "agent_loop c msgs w =
     (case begin_run c (new_run c msgs w) of (None, st) \<Rightarrow> st | (Some _, st) \<Rightarrow> run_loop c st)"

text \<open>What the stream yields.\<close>

fun yielded :: "action list \<Rightarrow> loop_event list" where
  "yielded [] = []"
| "yielded (Yield ev # t) = ev # yielded t"
| "yielded (_ # t) = yielded t"

section \<open>The entry points\<close>

definition CONTINUE_HINT :: str where
  "CONTINUE_HINT = ''Send Continue to start another bounded run in this thread.''"

fun stream_event :: "loop_event \<Rightarrow> agent_event list" where
  "stream_event (Event ev) = [ev]"
| "stream_event (Answer m) = [Final (text_content m)]"
| "stream_event (Limited reason iterations u) =
     [Notice ([newline, newline] @ reason @ '' '' @ CONTINUE_HINT), Done iterations True u]"
| "stream_event (LoopFailed _ m) = [RunError m]"

definition run_agent_stream :: "'w run_env \<Rightarrow> chat_message list \<Rightarrow> 'w \<Rightarrow> agent_event list" where
  "run_agent_stream c msgs w = concat (map stream_event (yielded (ru_trace (agent_loop c msgs w))))"

record tool_step =
  ts_name :: str
  ts_arguments :: str
  ts_result :: json
  ts_ui :: "json option"
  ts_app_result :: "json option"

record outcome =
  oc_message :: chat_message
  oc_steps :: "tool_step list"
  oc_iterations :: nat
  oc_at_limit :: bool

text \<open>The queue of announced arguments, the steps so far and the answer so far.\<close>

fun collect_outcome ::
  "loop_event list \<Rightarrow> str list \<Rightarrow> tool_step list \<Rightarrow> chat_message option \<Rightarrow> str + outcome" where
  "collect_outcome [] arguments steps reply = Inl ''agent loop ended without a terminal event''"
| "collect_outcome (ev # evs) arguments steps reply =
     (case ev of
        Event (ToolCallEvent call _) \<Rightarrow> collect_outcome evs (arguments @ [tc_arguments call]) steps reply
      | Event (ToolResult _ name result ui app) \<Rightarrow>
          collect_outcome evs (tl arguments)
            (steps @ [\<lparr>ts_name = name, ts_arguments = (if arguments = [] then [] else hd arguments),
               ts_result = result, ts_ui = ui, ts_app_result = app\<rparr>]) reply
      | Event (Done iterations at_limit _) \<Rightarrow>
          Inr \<lparr>oc_message = (case reply of Some m \<Rightarrow> m | None \<Rightarrow> text_message ''assistant'' []),
               oc_steps = steps, oc_iterations = iterations, oc_at_limit = at_limit\<rparr>
      | Event _ \<Rightarrow> collect_outcome evs arguments steps reply
      | Answer m \<Rightarrow> collect_outcome evs arguments steps (Some m)
      | Limited reason iterations _ \<Rightarrow>
          Inr \<lparr>oc_message = text_message ''assistant'' reason, oc_steps = steps, oc_iterations = iterations,
               oc_at_limit = True\<rparr>
      | LoopFailed error _ \<Rightarrow> Inl error)"

definition run_agent :: "'w run_env \<Rightarrow> chat_message list \<Rightarrow> 'w \<Rightarrow> str + outcome" where
  "run_agent c msgs w = collect_outcome (yielded (ru_trace (agent_loop c msgs w))) [] [] None"

end
