(* ===== verification/Agent_Facts.thy ===== *)
theory Agent_Facts
  imports Agent_Loop
begin

text \<open>
  Facts about whole runs: the induction over the steps of a run, how often each kind of action comes
  up, the order of commits, requests and executions inside a step, and the text a client shows.
\<close>

section \<open>Induction over the steps\<close>

lemma run_loop_rule:
  assumes "I st"
    and "\<And>st st'. I st \<Longrightarrow> agent_step c st = (Some (), st') \<Longrightarrow> I st'"
    and "\<And>st st'. I st \<Longrightarrow> agent_step c st = (None, st') \<Longrightarrow> Q st'"
  shows "Q (run_loop c st)"
  using assms
proof (induction c st rule: run_loop.induct)
  case (1 c st)
  show ?case
  proof (cases "agent_step c st")
    case (Pair r st')
    show ?thesis
    proof (cases r)
      case None
      then show ?thesis using 1 Pair by (simp add: run_loop.simps[of c st])
    next
      case (Some x)
      have "Q (run_loop c st')"
        by (rule "1.IH"[OF Pair[symmetric] Some]) (use 1 Pair Some in \<open>auto\<close>)
      then show ?thesis using Pair Some by (simp add: run_loop.simps[of c st])
    qed
  qed
qed

lemma agent_loop_rule:
  assumes "\<And>st'. begin_run c (new_run c msgs w) = (Some (), st') \<Longrightarrow> I st'"
    and "\<And>st'. begin_run c (new_run c msgs w) = (None, st') \<Longrightarrow> Q st'"
    and "\<And>st st'. I st \<Longrightarrow> agent_step c st = (Some (), st') \<Longrightarrow> I st'"
    and "\<And>st st'. I st \<Longrightarrow> agent_step c st = (None, st') \<Longrightarrow> Q st'"
  shows "Q (agent_loop c msgs w)"
proof (cases "begin_run c (new_run c msgs w)")
  case (Pair r st')
  then show ?thesis
    using assms(1,2) run_loop_rule[of I st' c Q, OF _ assms(3,4)]
    by (cases r) (simp_all add: agent_loop_def)
qed

section \<open>How a run ends\<close>

abbreviation all_kinds :: "action_kind set" where
  "all_kinds \<equiv> {KText, KRetry, KCall, KResult, KAsk, KAnswer, KOther, KSent, KAsked, KCommit, KCompleted,
     KHook, KExecuted}"

lemma does_count_iteration: "any.does K count_iteration"
  unfolding count_iteration_def by (rule any.does_change) (simp_all add: anything_def)

lemma does_end_step:
  "any.call_kinds \<subseteq> K \<Longrightarrow> any.does K (end_step c step r)"
  by (auto simp: end_step_def Let_def intro!: any.does_no_calls any.does_with_calls)

lemma does_agent_step: "any.does all_kinds (agent_step c)"
  by (auto simp: agent_step_def intro!: any.does_small any.does_prepare_step any.does_append_notes
      any.does_request_loop any.does_close_request does_count_iteration does_end_step any.does_wrap_up
      split: option.splits)

lemma doesD:
  assumes "any.does K m" and "m st = (r, st')"
  obtains t where "ru_trace st' = ru_trace st @ t" and "part K (r = None) t"
  using assms unfolding any.does_def by (metis fst_conv snd_conv)

lemma new_run_trace [simp]: "ru_trace (new_run c msgs w) = []" "ru_messages (new_run c msgs w) = msgs"
  "ru_notes (new_run c msgs w) = []" "ru_iteration (new_run c msgs w) = 0"
  "ru_anchor (new_run c msgs w) = last_index (\<lambda>m. mg_role m = ''user'') msgs"
  by (simp_all add: new_run_def split: prod.splits)

lemma agent_loop_part: "part all_kinds True (ru_trace (agent_loop c msgs w))"
proof (rule agent_loop_rule[where I = "\<lambda>st. part all_kinds False (ru_trace st)"])
  fix st' assume "begin_run c (new_run c msgs w) = (Some (), st')"
  then show "part all_kinds False (ru_trace st')"
    by (rule doesD[OF any.does_begin_run[of all_kinds], rotated]) auto
next
  fix st' assume "begin_run c (new_run c msgs w) = (None, st')"
  then show "part all_kinds True (ru_trace st')"
    by (rule doesD[OF any.does_begin_run[of all_kinds], rotated]) auto
next
  fix st :: "'a run" and st' assume "part all_kinds False (ru_trace st)" "agent_step c st = (Some (), st')"
  then show "part all_kinds False (ru_trace st')"
    by (elim doesD[OF does_agent_step]) (simp only: part_append option.distinct)
next
  fix st :: "'a run" and st' assume "part all_kinds False (ru_trace st)" "agent_step c st = (None, st')"
  then show "part all_kinds True (ru_trace st')"
    by (elim doesD[OF does_agent_step]) (simp add: part_append)
qed

section \<open>How often\<close>

definition occurs :: "action_kind \<Rightarrow> action list \<Rightarrow> nat" where
  "occurs k t = length (filter (\<lambda>a. kind a = k) t)"

lemma occurs_append [simp]: "occurs k (t @ u) = occurs k t + occurs k u"
  by (simp add: occurs_def)

lemma occurs_0: "k \<notin> kind ` set t \<Longrightarrow> occurs k t = 0"
  by (induction t) (auto simp: occurs_def)

lemma part_kinds: "part K e t \<Longrightarrow> kind ` set t \<subseteq> insert KEnd K"
  by (cases e) (auto simp: part_def image_subset_iff)

definition adds :: "action_kind \<Rightarrow> nat \<Rightarrow> ('w, 'a) act \<Rightarrow> bool" where
  "adds k n m \<longleftrightarrow> (\<forall>st. occurs k (ru_trace (snd (m st))) \<le> occurs k (ru_trace st) + n)"

lemma adds_none:
  assumes "any.does K m" and "k \<notin> K" and "k \<noteq> KEnd"
  shows "adds k n m"
  unfolding adds_def
proof
  fix st
  obtain r st' where m: "m st = (r, st')" by fastforce
  then obtain t where t: "ru_trace st' = ru_trace st @ t" "part K (r = None) t"
    by (rule doesD[OF assms(1)])
  then have "kind ` set t \<subseteq> insert KEnd K" by (simp add: part_kinds)
  then have "k \<notin> kind ` set t" using assms(2,3) by blast
  then show "occurs k (ru_trace (snd (m st))) \<le> occurs k (ru_trace st) + n" using t(1) m by (simp add: occurs_0)
qed

lemma adds_abind:
  assumes "adds k i m" and "\<And>x. adds k j (f x)" and "i + j \<le> n"
  shows "adds k n (abind m f)"
  unfolding adds_def
proof
  fix st
  obtain r st' where m: "m st = (r, st')" by fastforce
  have "occurs k (ru_trace st') \<le> occurs k (ru_trace st) + i" using assms(1) m unfolding adds_def by (metis snd_conv)
  moreover have "occurs k (ru_trace (snd (f x st'))) \<le> occurs k (ru_trace st') + j" for x
    using assms(2)[of x] by (simp add: adds_def)
  ultimately have "occurs k (ru_trace (snd (abind m f st))) \<le> occurs k (ru_trace st) + i + j"
    using m by (cases r) (auto simp: abind_def intro: le_trans add_right_mono trans_le_add1)
  then show "occurs k (ru_trace (snd (abind m f st))) \<le> occurs k (ru_trace st) + n" using assms(3) by simp
qed

text \<open>What does not add an action of a kind changes its count neither alone nor before something else.\<close>

abbreviation silent :: "action_kind \<Rightarrow> ('w, 'a) act \<Rightarrow> bool" where
  "silent k m \<equiv> any.does (UNIV - {k}) m"

lemma adds_silent: "silent k m \<Longrightarrow> k \<noteq> KEnd \<Longrightarrow> adds k n m"
  by (rule adds_none[of "UNIV - {k}"]) auto

lemma adds_after: "silent k m \<Longrightarrow> k \<noteq> KEnd \<Longrightarrow> (\<And>x. adds k n (f x)) \<Longrightarrow> adds k n (abind m f)"
  by (rule adds_abind[OF adds_silent, where i = 0 and j = n]) auto

lemmas adds_ends = any.does_give[THEN adds_silent] any.does_fail[THEN adds_silent]
  any.does_limited[THEN adds_silent] any.does_finish[THEN adds_silent]

lemma adds_log: "adds k 1 (log_action a)"
  by (simp add: adds_def log_action_def change_def occurs_def)

lemma adds_mono: "adds k i m \<Longrightarrow> i \<le> n \<Longrightarrow> adds k n m"
  unfolding adds_def by (meson add_left_mono order_trans)

lemma adds_Sent_send: "adds KSent 1 (send_request c req)"
  unfolding send_request_def
  by (rule adds_abind[OF adds_log, where j = 0])
    (auto intro!: adds_silent any.does_small any.does_read_items split: sum.splits)

text \<open>Induction over the attempts that are left.\<close>

lemma attempts_induct:
  assumes "\<And>attempts n. (n \<le> MAX_PROVIDER_RETRIES \<Longrightarrow> P (attempts + 1) (n + 1)) \<Longrightarrow> P attempts n"
  shows "P (attempts :: nat) (n :: nat)"
proof (induction "Suc MAX_PROVIDER_RETRIES - n" arbitrary: attempts n rule: less_induct)
  case less
  show ?case by (rule assms, rule less) simp
qed

lemma adds_Sent_try: "adds KSent (max 1 (Suc (Suc MAX_PROVIDER_RETRIES) - n)) (try_request c req recovered attempts n)"
proof (induction attempts n rule: attempts_induct)
  case (1 attempts n)
  let ?more = "max 1 (Suc (Suc MAX_PROVIDER_RETRIES) - n) - 1"
  have wait: "silent KSent (wait_to_retry c attempts n message retry r)" for message retry r
    by (rule any.does_wait_to_retry) simp
  have again: "adds KSent ?more (abind (wait_to_retry c attempts n message retry r) (\<lambda>_.
      try_request c req recovered (attempts + 1) (n + 1)))"
    if "n \<le> MAX_PROVIDER_RETRIES" for message retry r
    by (rule adds_after[OF wait], simp, rule adds_mono[OF 1]) (use that in auto)
  have over: "adds KSent k (on_overflow c req recovered attempts error r)" for k error r
    by (rule adds_silent, rule any.does_on_overflow) simp_all
  show ?case
    by (subst try_request.simps, rule adds_abind[OF adds_Sent_send, where j = "?more"])
      (auto intro!: adds_ends over again[simplified] split: option.splits if_splits)
qed

lemma adds_Sent_round: "adds KSent (Suc MAX_PROVIDER_RETRIES) (request_round c step overflow attempts)"
proof -
  have tried: "adds KSent (Suc MAX_PROVIDER_RETRIES)
      (abind (try_request c req recovered attempts (Suc 0)) (\<lambda>r. give (r, est)))" for req recovered attempts est
    by (rule adds_abind[OF adds_Sent_try, where j = 0]) (auto intro!: adds_ends)
  show ?thesis
    unfolding request_round_def
    by (auto intro!: adds_after adds_ends tried any.does_small any.does_compact_phase split: option.splits)
qed

lemma adds_Sent_request: "adds KSent (2 * Suc MAX_PROVIDER_RETRIES) (request_loop c step)"
proof -
  have second: "adds KSent (Suc MAX_PROVIDER_RETRIES) (abind (request_round c step (Some error) attempts) (\<lambda>((r, _), est).
      case r of Finished resp \<Rightarrow> give (resp, est) | Overflowed _ \<Rightarrow> return))" for error attempts
    by (rule adds_abind[OF adds_Sent_round, where j = 0])
      (auto simp: adds_def give_def return_def split: prod.splits attempt_end.splits)
  show ?thesis
    unfolding request_loop_def
    by (rule adds_abind[OF adds_Sent_round, where j = "Suc MAX_PROVIDER_RETRIES"])
      (auto intro!: second adds_ends split: prod.splits attempt_end.splits)
qed

text \<open>Per step, and with the ends of a run.\<close>

lemma adds_Sent_step: "adds KSent (2 * Suc MAX_PROVIDER_RETRIES) (agent_step c)"
proof -
  have rest: "adds KSent 0 (abind count_iteration (\<lambda>_. abind (close_request c step r est) (\<lambda>_. end_step c step r)))"
    for step r est
    by (rule adds_after, rule does_count_iteration, simp, rule adds_after, rule any.does_close_request, simp, simp,
        rule adds_silent, rule does_end_step) auto
  have tail: "adds KSent (2 * Suc MAX_PROVIDER_RETRIES) (abind (request_loop c step) (\<lambda>(r, est).
      abind count_iteration (\<lambda>_. abind (close_request c step r est) (\<lambda>_. end_step c step r))))" for step
    by (rule adds_abind[OF adds_Sent_request, where j = 0]) (auto intro: rest)
  show ?thesis
    unfolding agent_step_def
    by (auto intro!: adds_after tail[simplified] adds_silent[OF any.does_wrap_up]
        any.does_small any.does_prepare_step any.does_append_notes split: option.splits)
qed

lemma adds_Completed_step: "adds KCompleted 1 (agent_step c)"
proof -
  have close: "adds KCompleted 1 (close_request c step r est)" for step r est
    unfolding close_request_def
    by (rule adds_abind[OF adds_log, where j = 0])
      (auto intro!: adds_after adds_silent any.does_small any.does_change any.backstage_frames)
  have rest: "adds KCompleted 1 (abind (close_request c step r est) (\<lambda>_. end_step c step r))" for step r est
    by (rule adds_abind[OF close, where j = 0]) (auto intro!: adds_silent does_end_step)
  show ?thesis
    unfolding agent_step_def
    by (auto intro!: adds_after rest[simplified] adds_silent[OF any.does_wrap_up] any.does_small any.does_prepare_step
        any.does_append_notes any.does_request_loop does_count_iteration split: option.splits)
qed

lemma begin_iteration: "begin_run c (new_run c msgs w) = (Some (), st) \<Longrightarrow> ru_iteration st = 0"
  using same_iterationD[OF it.does_begin_run[of UNIV]] by fastforce

lemma begin_occurs:
  assumes "begin_run c (new_run c msgs w) = (r, st)" and "k \<notin> {KOther, KCommit, KEnd}"
  shows "occurs k (ru_trace st) = 0"
proof -
  obtain t where "ru_trace st = t" "part {KOther, KCommit} (r = None) t"
    using doesD[OF any.does_begin_run[of "{KOther, KCommit}"] assms(1)] by auto
  then have "kind ` set (ru_trace st) \<subseteq> {KEnd, KOther, KCommit}" using part_kinds by blast
  then show ?thesis using assms(2) by (intro occurs_0) blast
qed

lemma addsD: "adds k n m \<Longrightarrow> m st = (r, st') \<Longrightarrow> occurs k (ru_trace st') \<le> occurs k (ru_trace st) + n"
  unfolding adds_def by (metis snd_conv)

lemma agent_loop_occurs:
  assumes "adds k n (agent_step c)" and "k \<notin> {KOther, KCommit, KEnd}"
  shows "occurs k (ru_trace (agent_loop c msgs w)) \<le> n * max_iterations c"
proof (rule agent_loop_rule[where I = "\<lambda>st. occurs k (ru_trace st) \<le> n * ru_iteration st \<and> ru_iteration st < max_iterations c"])
  fix st' assume b: "begin_run c (new_run c msgs w) = (Some (), st')"
  show "occurs k (ru_trace st') \<le> n * ru_iteration st' \<and> ru_iteration st' < max_iterations c"
    using begin_occurs[OF b assms(2)] begin_iteration[OF b] by (simp add: max_iterations_def)
next
  fix st' assume b: "begin_run c (new_run c msgs w) = (None, st')"
  show "occurs k (ru_trace st') \<le> n * max_iterations c" using begin_occurs[OF b assms(2)] by simp
next
  fix st :: "'a run" and st'
  assume I: "occurs k (ru_trace st) \<le> n * ru_iteration st \<and> ru_iteration st < max_iterations c"
    and step: "agent_step c st = (Some (), st')"
  then show "occurs k (ru_trace st') \<le> n * ru_iteration st' \<and> ru_iteration st' < max_iterations c"
    using addsD[OF assms(1) step] step_progress[OF step] by simp
next
  fix st :: "'a run" and st'
  assume I: "occurs k (ru_trace st) \<le> n * ru_iteration st \<and> ru_iteration st < max_iterations c"
    and step: "agent_step c st = (None, st')"
  then have "occurs k (ru_trace st') \<le> n * Suc (ru_iteration st)" using addsD[OF assms(1) step] by simp
  also have "\<dots> \<le> n * max_iterations c" using I by (intro mult_le_mono2) simp
  finally show "occurs k (ru_trace st') \<le> n * max_iterations c" .
qed

section \<open>What the parts of a step leave in the trace\<close>

text \<open>\<open>leaves P m\<close>: whenever \<open>m\<close> gives a value, it and what \<open>m\<close> added to the trace satisfy \<open>P\<close>.\<close>

definition leaves :: "('a \<Rightarrow> action list \<Rightarrow> bool) \<Rightarrow> ('w, 'a) act \<Rightarrow> bool" where
  "leaves P m \<longleftrightarrow> (\<forall>st x st'. m st = (Some x, st') \<longrightarrow> (\<exists>t. ru_trace st' = ru_trace st @ t \<and> P x t))"

lemma leaves_abind:
  assumes "leaves P m" and "\<And>x t. P x t \<Longrightarrow> leaves (\<lambda>y u. Q y (t @ u)) (f x)"
  shows "leaves Q (abind m f)"
  unfolding leaves_def
proof (intro allI impI)
  fix st y st''
  assume "abind m f st = (Some y, st'')"
  then obtain x st' where m: "m st = (Some x, st')" and f: "f x st' = (Some y, st'')" by blast
  obtain t where t: "ru_trace st' = ru_trace st @ t" "P x t" using assms(1) m unfolding leaves_def by blast
  obtain u where "ru_trace st'' = ru_trace st' @ u" "Q y (t @ u)"
    using assms(2)[OF t(2)] f unfolding leaves_def by blast
  then show "\<exists>t. ru_trace st'' = ru_trace st @ t \<and> Q y t" using t(1) by auto
qed

lemma leaves_mono: "leaves P m \<Longrightarrow> (\<And>x t. P x t \<Longrightarrow> Q x t) \<Longrightarrow> leaves Q m"
  unfolding leaves_def by blast

lemma leaves_give [intro]: "P x [] \<Longrightarrow> leaves P (give x)"
  by (simp add: leaves_def give_def)

lemma leaves_log [intro]: "P () [a] \<Longrightarrow> leaves P (log_action a)"
  by (simp add: leaves_def log_action_def change_def)

lemma leaves_yield [intro]: "P () [Yield (Event ev)] \<Longrightarrow> leaves P (yield ev)"
  unfolding yield_def by (rule leaves_log)

lemma leaves_never [intro]: "leaves P (fail_with e m)" "leaves P (limited r)" "leaves P (finish_run n l)"
  "leaves P (failed_run e)"
  by (simp_all add: leaves_def)

lemma leaves_does:
  assumes "any.does K m"
  shows "leaves (\<lambda>_ t. kind ` set t \<subseteq> K - {KEnd}) m"
  unfolding leaves_def
proof (intro allI impI)
  fix st x st'
  assume m: "m st = (Some x, st')"
  obtain t where "ru_trace st' = ru_trace st @ t" "part K (Some x = None) t" by (rule doesD[OF assms m])
  then show "\<exists>t. ru_trace st' = ru_trace st @ t \<and> kind ` set t \<subseteq> K - {KEnd}" by (auto simp: part_def)
qed

lemma leaves_conj: "leaves P m \<Longrightarrow> leaves Q m \<Longrightarrow> leaves (\<lambda>x t. P x t \<and> Q x t) m"
  unfolding leaves_def by (metis same_append_eq)

end
