(* ===== verification/Agent_Order.thy ===== *)
theory Agent_Order
  imports Agent_Facts
begin

text \<open>
  The order of the actions of a run: an action is judged by what came before it. \<open>since\<close> is the part
  of a trace that belongs to the step under way, from its last completed response on.
\<close>

section \<open>Actions judged by what came before\<close>

definition since :: "action list \<Rightarrow> action list" where
  "since t = rev (takeWhile (\<lambda>a. kind a \<noteq> KCompleted) (rev t))"

lemma since_Nil [simp]: "since [] = []"
  by (simp add: since_def)

lemma since_Completed [simp]: "since (t @ [Completed n s]) = []"
  by (simp add: since_def)

lemma since_append: "KCompleted \<notin> kind ` set u \<Longrightarrow> since (t @ u) = since t @ u"
proof -
  assume "KCompleted \<notin> kind ` set u"
  then have "x \<in> set (rev u) \<Longrightarrow> kind x \<noteq> KCompleted" for x by (metis image_eqI set_rev)
  then have "takeWhile (\<lambda>a. kind a \<noteq> KCompleted) (rev u @ rev t) = rev u @ takeWhile (\<lambda>a. kind a \<noteq> KCompleted) (rev t)"
    by (rule takeWhile_append2)
  then show ?thesis by (simp add: since_def)
qed

text \<open>\<open>guarded P q m\<close>: after the trace \<open>q\<close>, every action that \<open>m\<close> adds satisfies \<open>P\<close> of what precedes it.\<close>

definition judged :: "(action list \<Rightarrow> action \<Rightarrow> bool) \<Rightarrow> action list \<Rightarrow> action list \<Rightarrow> bool" where
  "judged P q t \<longleftrightarrow> (\<forall>pre a post. t = pre @ a # post \<longrightarrow> P (q @ pre) a)"

definition guarded :: "(action list \<Rightarrow> action \<Rightarrow> bool) \<Rightarrow> action list \<Rightarrow> ('w, 'a) act \<Rightarrow> bool" where
  "guarded P q m \<longleftrightarrow> (\<forall>st. \<exists>t. ru_trace (snd (m st)) = ru_trace st @ t \<and> judged P q t)"

lemma judged_Nil [simp]: "judged P q []"
  by (simp add: judged_def)

lemma judged_append: "judged P q (t @ u) \<longleftrightarrow> judged P q t \<and> judged P (q @ t) u"
proof
  assume "judged P q (t @ u)"
  moreover have "t @ u = pre @ a # (post @ u)" if "t = pre @ a # post" for pre a post using that by simp
  moreover have "t @ u = (t @ pre) @ a # post" if "u = pre @ a # post" for pre a post using that by simp
  ultimately show "judged P q t \<and> judged P (q @ t) u" unfolding judged_def by (metis append_assoc)
next
  assume *: "judged P q t \<and> judged P (q @ t) u"
  show "judged P q (t @ u)"
    unfolding judged_def
  proof (intro allI impI)
    fix pre a post
    assume "t @ u = pre @ a # post"
    then consider (left) post' where "t = pre @ a # post'" | (right) pre' where "pre = t @ pre'" "u = pre' @ a # post"
      by (auto simp: append_eq_append_conv2 append_eq_Cons_conv Cons_eq_append_conv)
    then show "P (q @ pre) a" using * by cases (auto simp: judged_def)
  qed
qed

lemma judged_Cons: "judged P q (a # t) \<longleftrightarrow> P q a \<and> judged P (q @ [a]) t"
  using judged_append[of P q "[a]" t] by (auto simp: judged_def Cons_eq_append_conv)

lemma judged_kinds:
  assumes "kind ` set t \<subseteq> K" and "\<And>q a. kind a \<in> K \<Longrightarrow> P q a"
  shows "judged P q t"
  using assms(1) by (induction t arbitrary: q) (auto simp: judged_Cons assms(2))

lemma guarded_does:
  assumes "any.does K m" and "\<And>q a. kind a \<in> insert KEnd K \<Longrightarrow> P q a"
  shows "guarded P q m"
  unfolding guarded_def
proof
  fix st
  obtain r st' where m: "m st = (r, st')" by fastforce
  obtain t where t: "ru_trace st' = ru_trace st @ t" "part K (r = None) t" by (rule doesD[OF assms(1) m])
  have "judged P q t" by (rule judged_kinds[OF part_kinds[OF t(2)] assms(2)])
  then show "\<exists>t. ru_trace (snd (m st)) = ru_trace st @ t \<and> judged P q t" using t(1) m by auto
qed

lemma guarded_abind:
  assumes "guarded P q m" and "leaves L m" and "\<And>x t. L x t \<Longrightarrow> guarded P (q @ t) (f x)"
  shows "guarded P q (abind m f)"
  unfolding guarded_def
proof
  fix st
  obtain r st' where m: "m st = (r, st')" by fastforce
  obtain t where t: "ru_trace st' = ru_trace st @ t" "judged P q t"
    using assms(1) m unfolding guarded_def by (metis snd_conv)
  show "\<exists>t. ru_trace (snd (abind m f st)) = ru_trace st @ t \<and> judged P q t"
  proof (cases r)
    case None
    then show ?thesis using t m by (auto simp: abind_def)
  next
    case (Some x)
    then have "L x t" using assms(2) m t(1) unfolding leaves_def by (metis same_append_eq)
    then obtain u where u: "ru_trace (snd (f x st')) = ru_trace st' @ u" "judged P (q @ t) u"
      using assms(3)[of x t] unfolding guarded_def by blast
    then have "ru_trace (snd (abind m f st)) = ru_trace st @ (t @ u)" "judged P q (t @ u)"
      using t m Some by (auto simp: abind_def judged_append)
    then show ?thesis by blast
  qed
qed

text \<open>Sequencing with something that adds nothing that matters.\<close>

lemma guarded_seq:
  assumes "any.does K m" and "\<And>q a. kind a \<in> insert KEnd K \<Longrightarrow> P q a"
    and "\<And>x t. kind ` set t \<subseteq> K - {KEnd} \<Longrightarrow> guarded P (q @ t) (f x)"
  shows "guarded P q (abind m f)"
  by (rule guarded_abind[OF guarded_does[OF assms(1,2)] leaves_does[OF assms(1)] assms(3)])

lemma guarded_log: "P q a \<Longrightarrow> guarded P q (log_action a)"
  by (auto simp: guarded_def log_action_def change_def judged_Cons intro!: exI[of _ "[a]"])

section \<open>Induction over a run\<close>

lemma guardedD:
  assumes "guarded P q m" and "m st = (r, st')"
  obtains t where "ru_trace st' = ru_trace st @ t" and "judged P q t"
  using assms unfolding guarded_def by (metis snd_conv)

text \<open>\<open>C\<close> holds of the trace between the steps.\<close>

lemma run_judged:
  assumes start: "\<And>q. guarded P q (begin_run c :: ('w, unit) act)" "\<And>t. kind ` set t \<subseteq> {KOther, KCommit} \<Longrightarrow> C t"
    and step: "\<And>q. C q \<Longrightarrow> guarded P q (agent_step c :: ('w, unit) act)"
    and further: "\<And>q. C q \<Longrightarrow> leaves (\<lambda>_ t. C (q @ t)) (agent_step c :: ('w, unit) act)"
  shows "judged P [] (ru_trace (agent_loop c msgs (w :: 'w)))"
proof (rule agent_loop_rule[where I = "\<lambda>st. judged P [] (ru_trace st) \<and> C (ru_trace st)"])
  fix st' :: "'w run" assume b: "begin_run c (new_run c msgs w) = (Some (), st')"
  obtain t where t: "ru_trace st' = t" "part {KOther, KCommit} (Some () = None) t"
    using doesD[OF any.does_begin_run[of "{KOther, KCommit}"] b] by auto
  then have "C (ru_trace st')" by (intro start(2)) (auto simp: part_def)
  moreover have "judged P [] (ru_trace st')" using guardedD[OF start(1) b] by auto
  ultimately show "judged P [] (ru_trace st') \<and> C (ru_trace st')" by blast
next
  fix st' :: "'w run" assume b: "begin_run c (new_run c msgs w) = (None, st')"
  show "judged P [] (ru_trace st')" using guardedD[OF start(1) b] by auto
next
  fix st st' :: "'w run"
  assume I: "judged P [] (ru_trace st) \<and> C (ru_trace st)" and s: "agent_step c st = (Some (), st')"
  obtain t where t: "ru_trace st' = ru_trace st @ t" "judged P (ru_trace st) t"
    by (rule guardedD[OF step s]) (use I in auto)
  moreover have "C (ru_trace st @ t)"
    using further[of "ru_trace st"] I s t(1) unfolding leaves_def by (metis same_append_eq)
  ultimately show "judged P [] (ru_trace st') \<and> C (ru_trace st')" using I by (simp add: judged_append)
next
  fix st st' :: "'w run"
  assume I: "judged P [] (ru_trace st) \<and> C (ru_trace st)" and s: "agent_step c st = (None, st')"
  obtain t where "ru_trace st' = ru_trace st @ t" "judged P (ru_trace st) t"
    by (rule guardedD[OF step s]) (use I in auto)
  then show "judged P [] (ru_trace st')" using I by (simp add: judged_append)
qed

lemma judgedD: "judged P [] t \<Longrightarrow> t = pre @ a # post \<Longrightarrow> P pre a"
  by (auto simp: judged_def)

end
