(* ===== verification/Agent_Requests.thy ===== *)
theory Agent_Requests
  imports Agent_Order
begin

text \<open>
  The requests of a run: each was committed before it went out, and what a client shows of the
  streamed text is, at the end of every response, that response.
\<close>

section \<open>Requests are committed first\<close>

definition committed_first :: "action list \<Rightarrow> action \<Rightarrow> bool" where
  "committed_first q a \<longleftrightarrow>
     (\<forall>req. a = Sent req \<longrightarrow> (\<exists>n. Committed (CommitRequest n req) True \<in> set (since q)))"

lemma committed_first_other: "kind a \<noteq> KSent \<Longrightarrow> committed_first q a"
  by (auto simp: committed_first_def)

definition holds_commit :: "chat_message list \<Rightarrow> action list \<Rightarrow> bool" where
  "holds_commit req q \<longleftrightarrow> (\<exists>n. Committed (CommitRequest n req) True \<in> set (since q))"

lemma holds_commit_append: "holds_commit req q \<Longrightarrow> KCompleted \<notin> kind ` set t \<Longrightarrow> holds_commit req (q @ t)"
  by (auto simp: holds_commit_def since_append)

lemma holds_commit_does: "holds_commit req q \<Longrightarrow> kind ` set t \<subseteq> K - {KEnd} \<Longrightarrow> KCompleted \<notin> K \<Longrightarrow> holds_commit req (q @ t)"
  by (rule holds_commit_append) auto

lemma guarded_quiet: "any.does K m \<Longrightarrow> KSent \<notin> K \<Longrightarrow> guarded committed_first q m"
  by (rule guarded_does) (auto intro: committed_first_other)

lemma committed_ends [intro]:
  "guarded committed_first q (give x)" "guarded committed_first q (fail_with e m)"
  "guarded committed_first q (limited r)" "guarded committed_first q return"
  by (auto intro: guarded_quiet[of "{}"]) (simp add: guarded_def return_def)

lemma guarded_send:
  assumes "holds_commit req q"
  shows "guarded committed_first q (send_request c req)"
  unfolding send_request_def
proof (rule guarded_abind[OF guarded_log leaves_log[of "\<lambda>_ _. True"]])
  show "committed_first q (Sent req)" using assms by (simp add: committed_first_def holds_commit_def)
next
  fix x :: unit and t
  show "guarded committed_first (q @ t) (abind (outside (stream c req)) (\<lambda>answer.
     abind (case answer of Inl error \<Rightarrow> give (Some error, empty_response)
            | Inr items \<Rightarrow> read_items c items empty_response) (\<lambda>(failure, r).
     give (if failure = None \<and> \<not> rp_done r then Some STREAM_ENDED_EARLY else failure, r))))"
    by (rule guarded_quiet[of "{KOther, KText}"])
      (auto intro!: any.does_small any.does_read_items split: sum.splits)
qed simp

lemma guarded_try:
  "holds_commit req q \<Longrightarrow> guarded committed_first q (try_request c req recovered attempts n)"
proof (induction attempts n arbitrary: q rule: attempts_induct)
  case (1 attempts n)
  have again: "guarded committed_first q (abind (wait_to_retry c attempts n message retry r) (\<lambda>_.
      try_request c req recovered (attempts + 1) (n + 1)))"
    if "holds_commit req q" "n \<le> MAX_PROVIDER_RETRIES" for message retry r q
  proof (rule guarded_seq[OF any.does_wait_to_retry[of "{KOther, KRetry}"]])
    fix t assume "kind ` set t \<subseteq> {KOther, KRetry} - {KEnd}"
    then have "holds_commit req (q @ t)" by (rule holds_commit_does[OF that(1)]) simp
    then show "guarded committed_first (q @ t) (try_request c req recovered (attempts + 1) (n + 1))"
      by (rule 1(1)[OF that(2)])
  qed (auto intro: committed_first_other)
  have over: "guarded committed_first q (on_overflow c req recovered attempts error r)" for q error r
    by (rule guarded_quiet[OF any.does_on_overflow[of "{KOther, KRetry}"]]) simp_all
  show ?case
  proof (subst try_request.simps, rule guarded_abind[OF guarded_send[OF 1(2)]
        leaves_does[OF any.does_send_request[of "{KOther, KText, KSent}"]]])
    fix x :: "str option \<times> response" and t
    assume "kind ` set t \<subseteq> {KOther, KText, KSent} - {KEnd}"
    then have "holds_commit req (q @ t)" by (rule holds_commit_does[OF 1(2)]) simp
    then show "guarded committed_first (q @ t) (case x of (failure, r) \<Rightarrow>
       if (case failure of
             Some error \<Rightarrow> context_overflow (re_floats c) error
           | None \<Rightarrow> context_overflow_finish (rp_finish r)) then
         on_overflow c req recovered attempts (the (overflow_error failure r)) r
       else
         (case failure of
            None \<Rightarrow> give (Finished r, attempts)
          | Some message \<Rightarrow>
              (case (if n \<le> MAX_PROVIDER_RETRIES then retryable (re_floats c) message else None) of
                 None \<Rightarrow>
                   fail_with message
                     (if 1 < n then message @ '' (gave up after '' @ show_nat n @ '' attempts)'' else message)
               | Some retry \<Rightarrow>
                   abind (wait_to_retry c attempts n message retry r) (\<lambda>_.
                   try_request c req recovered (attempts + 1) (n + 1)))))"
      by (cases x) (auto intro!: over again[simplified] split: option.splits if_splits)
  qed simp
qed

lemma leaves_commit: "leaves (\<lambda>_ t. t = (if re_hooked c then [Committed h True] else [])) (commit c h)"
  unfolding commit_def try_commit_def
  by (auto simp: leaves_def give_def outside_def log_action_def change_def split: if_splits sum.splits prod.splits)

lemma guarded_round:
  assumes "re_hooked c"
  shows "guarded committed_first q (request_round c step overflow attempts)"
proof -
  have other: "kind a \<in> insert KEnd {KOther, KCommit} \<Longrightarrow> committed_first q a" for q a
    by (rule committed_first_other) auto
  have tried: "guarded committed_first q (abind (commit c (CommitRequest step req)) (\<lambda>_.
      abind (try_request c req recovered n m) (\<lambda>r. give (r, est))))" for q req recovered n m est
  proof (rule guarded_abind[OF guarded_does[OF any.does_commit[of "{KOther, KCommit}"] other] leaves_commit])
    fix x and t assume "t = (if re_hooked c then [Committed (CommitRequest step req) True] else [])"
    then have "holds_commit req (q @ t)" using assms by (auto simp: holds_commit_def since_append)
    then show "guarded committed_first (q @ t) (abind (try_request c req recovered n m) (\<lambda>r. give (r, est)))"
      by (rule guarded_abind[OF guarded_try, where L = "\<lambda>_ _. True"])
        (auto intro: leaves_mono[OF leaves_does[OF any.does_try_request[of "{KOther, KText, KSent, KRetry}"]]])
  qed simp_all
  have choose: "guarded committed_first q (case reason of Some reason \<Rightarrow> limited reason | None \<Rightarrow> f)"
    if "guarded committed_first q f" for q reason and f :: "('a, (attempt_end \<times> nat) \<times> nat) act"
    using that by (auto split: option.splits)
  show ?thesis
    unfolding request_round_def
    by (rule guarded_seq[OF any.does_compact_phase[of "{KOther, KCommit}"]])
      (auto intro!: other choose tried guarded_seq[OF any.does_reason_now[of "{}"]]
        guarded_seq[OF any.does_look[of "{}"]] committed_first_other split: option.splits)
qed

lemma guarded_request:
  assumes "re_hooked c"
  shows "guarded committed_first q (request_loop c step)"
proof -
  have rounds: "leaves (\<lambda>_ _. True) (request_round c step overflow attempts)" for overflow attempts
    by (rule leaves_mono[OF leaves_does[OF any.does_request_round[of all_kinds]]]) auto
  have second: "guarded committed_first q (abind (request_round c step (Some error) attempts) (\<lambda>((r, _), est).
      case r of Finished resp \<Rightarrow> give (resp, est) | Overflowed _ \<Rightarrow> return))" for q error attempts
    by (rule guarded_abind[OF guarded_round[OF assms] rounds])
      (auto split: attempt_end.splits)
  show ?thesis
    unfolding request_loop_def
    by (rule guarded_abind[OF guarded_round[OF assms] rounds])
      (auto intro: second split: attempt_end.splits)
qed

lemma guarded_step:
  assumes "re_hooked c"
  shows "guarded committed_first q (agent_step c)"
proof -
  have other: "kind a \<in> insert KEnd (all_kinds - {KSent}) \<Longrightarrow> committed_first q a" for q a
    by (rule committed_first_other) auto
  have requests: "leaves (\<lambda>_ _. True) (request_loop c step)" for step
    by (rule leaves_mono[OF leaves_does[OF any.does_request_loop[of all_kinds]]]) auto
  have tail: "guarded committed_first q (abind (request_loop c step) (\<lambda>(r, est).
      abind count_iteration (\<lambda>_. abind (close_request c step r est) (\<lambda>_. end_step c step r))))" for q step
    by (rule guarded_abind[OF guarded_request[OF assms] requests])
      (auto intro!: guarded_quiet[of "all_kinds - {KSent}"] any.does_abind does_count_iteration
        any.does_close_request does_end_step)
  show ?thesis
    unfolding agent_step_def
    by (rule guarded_seq[OF any.does_look[of "{}"]], use other in simp,
        rule guarded_seq[OF any.does_reason_now[of "{}"]], use other in simp)
      (auto intro!: tail guarded_seq[OF any.does_prepare_step[of "{}"]] guarded_seq[OF any.does_append_notes[of "{}"]]
        guarded_quiet[OF any.does_wrap_up[of "all_kinds - {KSent}"]] committed_first_other split: option.splits)
qed

lemma requests_committed_first:
  assumes "re_hooked c"
  shows "judged committed_first [] (ru_trace (agent_loop c msgs w))"
  by (rule run_judged[where C = "\<lambda>_. True"])
    (auto intro!: guarded_step[OF assms] guarded_quiet[OF any.does_begin_run[of "{KOther, KCommit}"]]
      leaves_mono[OF leaves_does[OF does_agent_step]])

section \<open>What a client shows\<close>

text \<open>A client appends the text of every token and, on a retry, drops as many bytes as it is told.\<close>

fun show_next :: "str \<Rightarrow> action \<Rightarrow> str" where
  "show_next acc (Yield (Event (Token t))) = acc @ t"
| "show_next acc (Yield (Event (ProviderRetry _ _ _ n _))) = take (length acc - n) acc"
| "show_next acc _ = acc"

definition shown :: "action list \<Rightarrow> str" where
  "shown t = foldl show_next [] t"

text \<open>\<open>shows x t\<close>: in the end, \<open>t\<close> adds \<open>x\<close> to the text shown.\<close>

definition shows_text :: "str \<Rightarrow> action list \<Rightarrow> bool" where
  "shows_text x t \<longleftrightarrow> (\<forall>acc. foldl show_next acc t = acc @ x)"

definition takes_back :: "str \<Rightarrow> action list \<Rightarrow> bool" where
  "takes_back x t \<longleftrightarrow> (\<forall>acc. foldl show_next (acc @ x) t = acc)"

lemma show_next_other: "kind a \<noteq> KText \<Longrightarrow> kind a \<noteq> KRetry \<Longrightarrow> show_next acc a = acc"
  by (induction acc a rule: show_next.induct) auto

lemma shows_nothing: "kind ` set t \<subseteq> K \<Longrightarrow> KText \<notin> K \<Longrightarrow> KRetry \<notin> K \<Longrightarrow> shows_text [] t"
  unfolding shows_text_def
proof
  fix acc
  assume "kind ` set t \<subseteq> K" "KText \<notin> K" "KRetry \<notin> K"
  then show "foldl show_next acc t = acc @ []"
  proof (induction t arbitrary: acc)
    case (Cons a t)
    then have "show_next acc a = acc" by (intro show_next_other) auto
    then show ?case using Cons by simp
  qed simp
qed

lemma shows_append: "shows_text x t \<Longrightarrow> shows_text y u \<Longrightarrow> shows_text (x @ y) (t @ u)"
  by (simp add: shows_text_def)

lemma shows_after: "shows_text [] t \<Longrightarrow> shows_text x u \<Longrightarrow> shows_text x (t @ u)"
  by (simp add: shows_text_def)

lemma shows_then_back: "shows_text x t \<Longrightarrow> takes_back x u \<Longrightarrow> shows_text [] (t @ u)"
  by (simp add: shows_text_def takes_back_def)

lemma leaves_quiet: "any.does K m \<Longrightarrow> KText \<notin> K \<Longrightarrow> KRetry \<notin> K \<Longrightarrow> leaves (\<lambda>_ t. shows_text [] t) m"
  by (rule leaves_mono[OF leaves_does]) (auto intro: shows_nothing[of _ "K - {KEnd}"])

lemma leaves_quiet_seq:
  assumes "any.does K m" "KText \<notin> K" "KRetry \<notin> K" and "\<And>x. leaves (\<lambda>y t. shows_text (g y) t) (f x)"
  shows "leaves (\<lambda>y t. shows_text (g y) t) (abind m f)"
proof (rule leaves_abind[OF leaves_quiet[OF assms(1-3)]])
  fix x t
  assume "shows_text [] t"
  then show "leaves (\<lambda>y u. shows_text (g y) (t @ u)) (f x)"
    using shows_append[of "[]" t] by (intro leaves_mono[OF assms(4)]) auto
qed

lemma leaves_read_items:
  "leaves (\<lambda>y t. \<exists>x. rp_content (snd y) = rp_content r @ x \<and> shows_text x t) (read_items c items r)"
proof (induction c items r rule: read_items.induct)
  case (2 c d rest r)
  let ?text = "case de_content d of Some t \<Rightarrow> t | None \<Rightarrow> []"
  have token: "leaves (\<lambda>_ t. shows_text ?text t) (case de_content d of Some t \<Rightarrow> yield (Token t) | None \<Rightarrow> give ())"
    by (auto simp: shows_text_def split: option.splits)
  have reasoning: "leaves (\<lambda>_ t. shows_text [] t) (case de_reasoning d of Some t \<Rightarrow> yield (Reasoning t) | None \<Rightarrow> give ())"
    by (auto simp: shows_text_def split: option.splits)
  have rest: "leaves (\<lambda>y t. \<exists>x. rp_content (snd y) = rp_content r @ ?text @ x \<and> shows_text x t)
      (read_items c rest (receive d r))"
    by (rule leaves_mono[OF 2]) (auto simp: receive_def)
  show ?case
    unfolding read_items.simps
  proof (rule leaves_abind[OF token], rule leaves_abind[OF reasoning])
    fix x :: unit and t and x' :: unit and t'
    assume "shows_text ?text t" "shows_text [] t'"
    then have "shows_text ?text (t @ t')" using shows_append[of ?text t "[]" t'] by simp
    then show "leaves (\<lambda>y u. \<exists>x. rp_content (snd y) = rp_content r @ x \<and> shows_text x (t @ t' @ u))
        (read_items c rest (receive d r))"
      using shows_append[of ?text "t @ t'"] by (intro leaves_mono[OF rest]) auto
  qed
next
  case (3 c reason u rest r)
  have "leaves (\<lambda>_ t. shows_text [] t) (count_usage c u)"
    by (rule leaves_quiet[OF any.does_count_usage[of "{KOther}"]]) simp_all
  then show ?case
    unfolding read_items.simps
  proof (rule leaves_abind)
    fix x :: unit and t
    assume "shows_text [] t"
    then show "leaves (\<lambda>y v. \<exists>x. rp_content (snd y) = rp_content r @ x \<and> shows_text x (t @ v))
        (read_items c rest (r\<lparr>rp_done := True, rp_usage := u, rp_finish := reason\<rparr>))"
      using shows_append[of "[]" t] by (intro leaves_mono[OF 3]) auto
  qed
qed (auto simp: shows_text_def)

lemma leaves_send: "leaves (\<lambda>y t. shows_text (rp_content (snd y)) t) (send_request c req)"
proof -
  have items: "leaves (\<lambda>y t. shows_text (rp_content (snd y)) t) (read_items c items empty_response)" for items
    by (rule leaves_mono[OF leaves_read_items]) (auto simp: empty_response_def)
  have none: "leaves (\<lambda>y t. shows_text (rp_content (snd y)) t) (give (Some error, empty_response))" for error :: str
    by (auto simp: empty_response_def shows_text_def)
  show ?thesis
    unfolding send_request_def
    apply (rule leaves_quiet_seq[OF any.does_log[of _ "{KSent}"]], simp_all)
    apply (rule leaves_quiet_seq[OF any.does_outside[of "{}"]], simp_all)
    apply (rule leaves_abind[where P = "\<lambda>y t. shows_text (rp_content (snd y)) t"])
     apply (auto intro: items none split: sum.splits)
    done
qed

lemma leaves_discard: "leaves (\<lambda>_ t. takes_back (rp_content r) t) (discard attempts delay reason r)"
  by (auto simp: discard_def takes_back_def)

lemma takes_back_after: "shows_text [] t \<Longrightarrow> takes_back x u \<Longrightarrow> takes_back x (t @ u)"
  by (simp add: shows_text_def takes_back_def)

lemma takes_back_before: "takes_back x t \<Longrightarrow> shows_text [] u \<Longrightarrow> takes_back x (t @ u)"
  by (simp add: shows_text_def takes_back_def)

lemma leaves_back_seq:
  assumes "any.does K m" "KText \<notin> K" "KRetry \<notin> K" and "\<And>x. leaves (\<lambda>y t. Q y \<and> takes_back z t) (f x)"
  shows "leaves (\<lambda>y t. Q y \<and> takes_back z t) (abind m f)"
  by (rule leaves_abind[OF leaves_quiet[OF assms(1-3)]])
    (auto intro: leaves_mono[OF assms(4)] takes_back_after)

lemma leaves_overflow:
  "leaves (\<lambda>y t. (\<exists>e. fst y = Overflowed e) \<and> takes_back (rp_content r) t) (on_overflow c req recovered attempts error r)"
proof -
  have last: "leaves (\<lambda>y t. (\<exists>e. fst y = Overflowed e) \<and> takes_back (rp_content r) t)
      (abind (discard attempts 0 why r) (\<lambda>_. give (Overflowed error, attempts)))" for why
    by (rule leaves_abind[OF leaves_discard]) auto
  show ?thesis
    unfolding on_overflow_def
    by (auto intro!: last leaves_back_seq[OF any.does_bill_if_done[of "{}"]]
        leaves_back_seq[OF any.does_change[of _ "{}"]] any.backstage_frames)
qed

lemma leaves_wait: "leaves (\<lambda>_ t. True \<and> takes_back (rp_content r) t) (wait_to_retry c attempts n message retry r)"
proof -
  have rest: "leaves (\<lambda>_ t. True \<and> takes_back (rp_content r) t)
      (abind (discard attempts delay why r) (\<lambda>_. abind (if delay' = 0 then give () else outside (sleep c delay')) (\<lambda>_.
       abind (reason_now c) (\<lambda>reason. case reason of Some reason \<Rightarrow> limited reason | None \<Rightarrow> give ()))))"
    for delay delay' why
  proof (rule leaves_abind[OF leaves_discard])
    fix x :: unit and t
    assume t: "takes_back (rp_content r) t"
    have "leaves (\<lambda>_ u. shows_text [] u) (abind (if delay' = 0 then give () else outside (sleep c delay')) (\<lambda>_.
       abind (reason_now c) (\<lambda>reason. case reason of Some reason \<Rightarrow> limited reason | None \<Rightarrow> give ())))"
      by (rule leaves_quiet[of "{}"]) (auto intro!: any.does_small split: option.splits)
    then show "leaves (\<lambda>_ u. True \<and> takes_back (rp_content r) (t @ u))
        (abind (if delay' = 0 then give () else outside (sleep c delay')) (\<lambda>_.
       abind (reason_now c) (\<lambda>reason. case reason of Some reason \<Rightarrow> limited reason | None \<Rightarrow> give ())))"
      by (rule leaves_mono) (auto intro: takes_back_before[OF t])
  qed
  show ?thesis
    unfolding wait_to_retry_def Let_def
    by (intro leaves_back_seq[OF any.does_bill_if_done[of "{}"]] leaves_back_seq[OF any.does_outside[of "{}"]]
        leaves_back_seq[OF any.does_look[of "{}"]])
      (simp_all split del: if_split split: if_split_asm, (split if_split, intro conjI impI, rule leaves_never,
        rule rest[simplified])?)
qed

definition end_text :: "attempt_end \<Rightarrow> str" where
  "end_text e = (case e of Finished r \<Rightarrow> rp_content r | Overflowed _ \<Rightarrow> [])"

lemma leaves_try: "leaves (\<lambda>y t. shows_text (end_text (fst y)) t) (try_request c req recovered attempts n)"
proof (induction attempts n rule: attempts_induct)
  case (1 attempts n)
  let ?Q = "\<lambda>x t y u. shows_text (end_text (fst y)) (t @ u)"
  have again: "leaves (?Q x t) (abind (wait_to_retry c attempts n message retry r) (\<lambda>_.
      try_request c req recovered (attempts + 1) (n + 1)))"
    if t: "shows_text (rp_content r) t" and n: "n \<le> MAX_PROVIDER_RETRIES" for x :: unit and t message retry r
  proof (rule leaves_abind[OF leaves_wait])
    fix x and u
    assume "True \<and> takes_back (rp_content r) u"
    then have "shows_text [] (t @ u)" using shows_then_back[OF t] by simp
    then show "leaves (\<lambda>y v. shows_text (end_text (fst y)) (t @ u @ v)) (try_request c req recovered (attempts + 1) (n + 1))"
      using shows_append[of "[]" "t @ u"] by (intro leaves_mono[OF 1[OF n]]) auto
  qed
  have over: "leaves (?Q x t) (on_overflow c req recovered attempts error r)"
    if t: "shows_text (rp_content r) t" for x :: unit and t error r
    by (rule leaves_mono[OF leaves_overflow]) (use shows_then_back[OF t] in \<open>auto simp: end_text_def\<close>)
  show ?case
  proof (subst try_request.simps, rule leaves_abind[OF leaves_send])
    fix x :: "str option \<times> response" and t
    assume t: "shows_text (rp_content (snd x)) t"
    have "leaves (?Q () t) (give (Finished (snd x), attempts))"
      using t by (auto simp: end_text_def)
    then show "leaves (?Q () t) (case x of (failure, r) \<Rightarrow>
       if (case failure of
             Some error \<Rightarrow> context_overflow (re_floats c) error
           | None \<Rightarrow> context_overflow_finish (rp_finish r)) then
         on_overflow c req recovered attempts (the (overflow_error failure r)) r
       else
         (case failure of
            None \<Rightarrow> give (Finished r, attempts)
          | Some message \<Rightarrow>
              (case (if n \<le> MAX_PROVIDER_RETRIES then retryable (re_floats c) message else None) of
                 None \<Rightarrow>
                   fail_with message
                     (if 1 < n then message @ '' (gave up after '' @ show_nat n @ '' attempts)'' else message)
               | Some retry \<Rightarrow>
                   abind (wait_to_retry c attempts n message retry r) (\<lambda>_.
                   try_request c req recovered (attempts + 1) (n + 1)))))"
      using t by (cases x) (auto intro!: over again[simplified] split: option.splits if_splits)
  qed
qed

lemma leaves_round: "leaves (\<lambda>y t. shows_text (end_text (fst (fst y))) t) (request_round c step overflow attempts)"
proof -
  have tried: "leaves (\<lambda>y t. shows_text (end_text (fst (fst y))) t)
      (abind (try_request c req recovered n m) (\<lambda>r. give (r, est)))" for req recovered n m est
    by (rule leaves_abind[OF leaves_try]) auto
  show ?thesis
    unfolding request_round_def
    by (rule leaves_quiet_seq[OF any.does_compact_phase[of "{KOther, KCommit}"]])
      (auto intro!: tried leaves_quiet_seq[OF any.does_look[of "{}"]]
        leaves_quiet_seq[OF any.does_reason_now[of "{}"]] leaves_quiet_seq[OF any.does_commit[of "{KCommit}"]]
        split: option.splits)
qed

lemma leaves_request: "leaves (\<lambda>y t. shows_text (rp_content (fst y)) t) (request_loop c step)"
proof -
  have second: "leaves (\<lambda>y t. shows_text (rp_content (fst y)) t)
      (abind (request_round c step (Some error) attempts) (\<lambda>((r, _), est).
        case r of Finished resp \<Rightarrow> give (resp, est) | Overflowed _ \<Rightarrow> return))" for error attempts
    by (rule leaves_abind[OF leaves_round])
      (auto simp: end_text_def leaves_def give_def return_def split: attempt_end.splits)
  show ?thesis
    unfolding request_loop_def
    by (rule leaves_abind[OF leaves_round])
      (auto simp: end_text_def intro!: leaves_give leaves_mono[OF second] intro: shows_after
        split: attempt_end.splits)
qed

text \<open>At the end of a response the text shown since the previous one is the response.\<close>

definition shown_complete :: "action list \<Rightarrow> action \<Rightarrow> bool" where
  "shown_complete q a \<longleftrightarrow> (\<forall>n content. a = Completed n content \<longrightarrow> shown (since q) = content)"

lemma complete_other: "kind a \<noteq> KCompleted \<Longrightarrow> shown_complete q a"
  by (auto simp: shown_complete_def)

lemma guarded_incomplete: "any.does K m \<Longrightarrow> KCompleted \<notin> K \<Longrightarrow> guarded shown_complete q m"
  by (rule guarded_does) (auto intro: complete_other)

lemma since_shows:
  assumes "shown (since q) = []" and "shows_text x t" and "KCompleted \<notin> kind ` set t"
  shows "shown (since (q @ t)) = x"
  using assms by (simp add: since_append shown_def shows_text_def)

lemma leaves_both:
  assumes "any.does K m" and "leaves (\<lambda>y t. shows_text (g y) t) m"
  shows "leaves (\<lambda>y t. shows_text (g y) t \<and> kind ` set t \<subseteq> K) m"
  by (rule leaves_mono[OF leaves_conj[OF assms(2) leaves_does[OF assms(1)]]]) auto

lemma guarded_quiet_seq:
  assumes "any.does K m" "KText \<notin> K" "KRetry \<notin> K" "KCompleted \<notin> K" and q: "shown (since q) = []"
    and f: "\<And>q x. shown (since q) = [] \<Longrightarrow> guarded shown_complete q (f x)"
  shows "guarded shown_complete q (abind m f)"
proof (rule guarded_abind[OF guarded_incomplete[OF assms(1,4)] leaves_both[OF assms(1) leaves_quiet[OF assms(1-3)]]])
  fix x t
  assume t: "shows_text [] t \<and> kind ` set t \<subseteq> K"
  then have "KCompleted \<notin> kind ` set t" using assms(4) by blast
  then show "guarded shown_complete (q @ t) (f x)" using t by (intro f since_shows[OF q]) auto
qed

lemma guarded_shown_tail:
  assumes "shown (since q) = rp_content r"
  shows "guarded shown_complete q (abind count_iteration (\<lambda>_. abind (close_request c step r est) (\<lambda>_. end_step c step r)))"
proof -
  have close: "guarded shown_complete q (abind (close_request c step r est) (\<lambda>_. end_step c step r))"
    unfolding close_request_def
  proof (rule guarded_abind[OF guarded_abind[OF guarded_log leaves_log[of "\<lambda>_ _. True"]], where L = "\<lambda>_ _. True"])
    show "shown_complete q (Completed step (rp_content r))" using assms by (simp add: shown_complete_def)
  qed (auto intro!: guarded_incomplete[of "all_kinds - {KCompleted}"] any.does_small does_end_step
      any.does_change any.backstage_frames leaves_mono[OF leaves_does[of all_kinds]])
  have count: "leaves (\<lambda>_ t. t = []) count_iteration"
    by (simp add: leaves_def count_iteration_def change_def)
  show ?thesis
    by (rule guarded_abind[OF guarded_incomplete[OF does_count_iteration[of "{}"]] count]) (use close in auto)
qed

lemma guarded_shown_step:
  assumes "shown (since q) = []"
  shows "guarded shown_complete q (agent_step c)"
proof -
  have tail: "guarded shown_complete q (abind (request_loop c step) (\<lambda>(r, est).
      abind count_iteration (\<lambda>_. abind (close_request c step r est) (\<lambda>_. end_step c step r))))"
    if q: "shown (since q) = []" for q step
  proof (rule guarded_abind[OF guarded_incomplete[of "all_kinds - {KCompleted}"]
        leaves_both[of "all_kinds - {KCompleted}", OF _ leaves_request]])
    fix x :: "response \<times> nat" and t
    assume t: "shows_text (rp_content (fst x)) t \<and> kind ` set t \<subseteq> all_kinds - {KCompleted}"
    then have "KCompleted \<notin> kind ` set t" by blast
    then have "shown (since (q @ t)) = rp_content (fst x)" using t by (intro since_shows[OF q]) auto
    then show "guarded shown_complete (q @ t) (case x of (r, est) \<Rightarrow>
      abind count_iteration (\<lambda>_. abind (close_request c step r est) (\<lambda>_. end_step c step r)))"
      by (cases x) (simp add: guarded_shown_tail)
  qed (auto intro!: any.does_request_loop)
  show ?thesis
    unfolding agent_step_def
    by (rule guarded_quiet_seq[OF any.does_look[of "{}"]], simp_all add: assms,
        rule guarded_quiet_seq[OF any.does_reason_now[of "{}"]])
      (auto intro!: tail guarded_quiet_seq[OF any.does_prepare_step[of "{}"]]
        guarded_quiet_seq[OF any.does_append_notes[of "{}"]]
        guarded_incomplete[OF any.does_wrap_up[of "all_kinds - {KCompleted}"]] split: option.splits)
qed

text \<open>Between the steps nothing is shown that is not complete.\<close>

lemma since_Completed_append: "KCompleted \<notin> kind ` set u \<Longrightarrow> since (t @ Completed n s # u) = u"
  using since_append[of u "t @ [Completed n s]"] by simp

lemma abind_assoc: "abind (abind m f) g = abind m (\<lambda>x. abind (f x) g)"
  by (rule ext) (simp add: abind_def split: prod.splits option.splits)

lemma leaves_after_Completed:
  assumes "any.does (all_kinds - {KCompleted, KText, KRetry}) m"
  shows "leaves (\<lambda>_ u. shown (since (q @ Completed n s # u)) = []) m"
proof (rule leaves_mono[OF leaves_does[OF assms]])
  fix x u
  assume *: "kind ` set u \<subseteq> all_kinds - {KCompleted, KText, KRetry} - {KEnd}"
  then have "since (q @ Completed n s # u) = u" by (intro since_Completed_append) auto
  moreover have "shows_text [] u" by (rule shows_nothing[OF *]) simp_all
  ultimately show "shown (since (q @ Completed n s # u)) = []" by (simp add: shown_def shows_text_def)
qed

lemma leaves_then:
  assumes "any.does all_kinds m" and "\<And>q x. leaves (\<lambda>_ u. C (q @ u)) (f x)"
  shows "leaves (\<lambda>_ u. C (q @ u)) (abind m f)"
proof (rule leaves_abind[OF leaves_does[OF assms(1)]])
  fix x t
  show "leaves (\<lambda>_ u. C (q @ t @ u)) (f x)" using assms(2)[of "q @ t" x] by simp
qed

lemma leaves_shown_step: "leaves (\<lambda>_ t. shown (since (q @ t)) = []) (agent_step c)"
proof -
  have close: "leaves (\<lambda>_ u. shown (since (q @ u)) = []) (abind (close_request c step r est) (\<lambda>_. end_step c step r))"
    for q step r est
    unfolding close_request_def abind_assoc
    by (rule leaves_abind[OF leaves_log[of "\<lambda>_ t. t = [Completed step (rp_content r)]"]])
      (auto intro!: leaves_after_Completed any.does_small does_end_step any.does_change any.backstage_frames)
  have never: "leaves (\<lambda>_ u. shown (since (q @ u)) = []) (wrap_up c reason)" for q reason
    by (simp add: leaves_def)
  show ?thesis
    unfolding agent_step_def
    by (rule leaves_then[OF any.does_look[of all_kinds]], rule leaves_then[OF any.does_reason_now[of all_kinds]])
      (auto intro!: never leaves_then[OF any.does_prepare_step[of all_kinds]]
        leaves_then[OF any.does_append_notes[of all_kinds]] leaves_then[OF any.does_request_loop[of all_kinds]]
        leaves_then[OF does_count_iteration[of all_kinds]] close split: option.splits)
qed

lemma text_shown_complete: "judged shown_complete [] (ru_trace (agent_loop c msgs w))"
proof (rule run_judged[where C = "\<lambda>q. shown (since q) = []"])
  fix t
  assume t: "kind ` set t \<subseteq> {KOther, KCommit}"
  then have "KCompleted \<notin> kind ` set t" by auto
  then have "since t = t" using since_append[of t "[]"] by simp
  moreover have "shows_text [] t" by (rule shows_nothing[OF t]) simp_all
  ultimately show "shown (since t) = []" by (simp add: shown_def shows_text_def)
qed (auto intro!: guarded_shown_step leaves_shown_step guarded_incomplete[OF any.does_begin_run[of "{KOther, KCommit}"]])

end
