(* ===== verification/Agent_Approvals.thy ===== *)
theory Agent_Approvals
  imports Agent_Requests
begin

text \<open>
  The calls of a run: what runs was allowed to, and every result answers the call it was made for.
\<close>

section \<open>Approval before execution\<close>

definition asks :: "str \<Rightarrow> tool_call \<Rightarrow> action list \<Rightarrow> bool" where
  "asks i x t \<longleftrightarrow> (\<exists>eff policy. Yield (Event (ToolApprovalRequired i x eff policy)) \<in> set t)"

definition grants :: "str \<Rightarrow> tool_call \<Rightarrow> action list \<Rightarrow> bool" where
  "grants i x t \<longleftrightarrow> Yield (Event (ToolApprovalResolved i (tc_id x) True None)) \<in> set t"

text \<open>A call only reads, or the interceptor approved it, or an approval was asked for it and given.\<close>

definition allowed :: "'w run_env \<Rightarrow> action list \<Rightarrow> tool_call \<Rightarrow> json \<Rightarrow> bool" where
  "allowed c q x args \<longleftrightarrow> call_effect c x args = ReadOnly \<or> HookApproved x \<in> set q \<or>
     (\<exists>i t u. q = t @ u \<and> asks i x t \<and> grants i x u)"

definition runs_allowed :: "'w run_env \<Rightarrow> action list \<Rightarrow> action \<Rightarrow> bool" where
  "runs_allowed c q a \<longleftrightarrow> (\<forall>x args. a = Executed x args \<longrightarrow> allowed c (since q) x args)"

lemma asks_append [simp]: "asks i x (t @ u) \<longleftrightarrow> asks i x t \<or> asks i x u"
  by (auto simp: asks_def)

lemma grants_append [simp]: "grants i x (t @ u) \<longleftrightarrow> grants i x t \<or> grants i x u"
  by (auto simp: grants_def)

lemma allowed_append:
  assumes "allowed c q x args"
  shows "allowed c (p @ q @ r) x args"
proof (cases "\<exists>i t u. q = t @ u \<and> asks i x t \<and> grants i x u")
  case True
  then obtain i t u where "q = t @ u" "asks i x t" "grants i x u" by blast
  then have "p @ q @ r = (p @ t) @ (u @ r)" "asks i x (p @ t)" "grants i x (u @ r)" by simp_all
  then show ?thesis unfolding allowed_def by blast
next
  case False
  then show ?thesis using assms by (auto simp: allowed_def)
qed

lemma allowed_since: "allowed c q x args \<Longrightarrow> KCompleted \<notin> kind ` set q \<Longrightarrow> allowed c (since (p @ q)) x args"
  using allowed_append[of c q x args "since p" "[]"] by (simp add: since_append)

lemma runs_other: "kind a \<noteq> KExecuted \<Longrightarrow> runs_allowed c q a"
  by (auto simp: runs_allowed_def)

lemma guarded_still: "any.does K m \<Longrightarrow> KExecuted \<notin> K \<Longrightarrow> guarded (runs_allowed c) q m"
  by (rule guarded_does) (auto intro: runs_other)

lemma leaves_collect:
  assumes "\<And>x. x \<in> set xs \<Longrightarrow> leaves (Q x) (f x)" and "\<And>x y p t r. Q x y t \<Longrightarrow> Q x y (p @ t @ r)"
  shows "leaves (\<lambda>ys t. list_all2 (\<lambda>x y. Q x y t) xs ys) (collect f xs)"
  using assms(1)
proof (induction xs)
  case (Cons x xs)
  have "leaves (Q x) (f x)" by (rule Cons) simp
  then show ?case
    unfolding collect.simps
  proof (rule leaves_abind)
    fix y t
    assume y: "Q x y t"
    have "leaves (\<lambda>ys t. list_all2 (\<lambda>x y. Q x y t) xs ys) (collect f xs)" using Cons by simp
    then show "leaves (\<lambda>zs u. list_all2 (\<lambda>x y. Q x y (t @ u)) (x # xs) zs) (abind (collect f xs) (\<lambda>ys. give (y # ys)))"
    proof (rule leaves_abind)
      fix ys u
      assume "list_all2 (\<lambda>x y. Q x y u) xs ys"
      then have "list_all2 (\<lambda>x y. Q x y (t @ u)) xs ys"
        by (rule list_all2_mono) (use assms(2)[of _ _ _ t "[]"] in simp)
      then show "leaves (\<lambda>zs v. list_all2 (\<lambda>x y. Q x y (t @ u @ v)) (x # xs) zs) (give (y # ys))"
        using assms(2)[OF y, of "[]"] by auto
    qed
  qed
qed auto

text \<open>What a prepared call owes to the trace.\<close>

definition backed :: "'w run_env \<Rightarrow> prepared_call \<times> str option \<Rightarrow> action list \<Rightarrow> bool" where
  "backed c y t \<longleftrightarrow>
     (pc_approved (fst y) \<longrightarrow> (\<forall>args. pc_arguments (fst y) = Inr args \<longrightarrow>
        call_effect c (pc_call (fst y)) args = ReadOnly \<or> HookApproved (pc_call (fst y)) \<in> set t)) \<and>
     (\<forall>i. snd y = Some i \<longrightarrow> \<not> pc_approved (fst y) \<and> asks i (pc_call (fst y)) t)"

lemma leaves_intercept:
  "leaves (\<lambda>y t. fst y \<longrightarrow> HookApproved call \<in> set t) (intercept_call c call arguments refusal)"
proof -
  have true: "leaves (\<lambda>_ _. True) m" if "any.does all_kinds m" for m :: "('a, 'b) act"
    by (rule leaves_mono[OF leaves_does[OF that]]) simp
  show ?thesis
    unfolding intercept_call_def
    apply (rule leaves_abind[OF true])
     apply (auto intro!: any.does_small leaves_give split: sum.splits option.splits bool.splits)
    apply (rule leaves_abind[OF true], rule any.does_outside)
    apply (auto)
    apply (rule leaves_abind[OF true], rule any.does_yield_hooks, simp)
    apply (auto split: tool_decision.splits intro!: leaves_give)
    apply (rule leaves_abind[OF leaves_log[of "\<lambda>_ t. HookApproved call \<in> set t"]])
     apply auto
    done
qed

lemma leaves_ask:
  assumes "re_interactive c"
  shows "leaves (\<lambda>y t. (fst y \<longrightarrow> granted \<and> (\<forall>args. arguments = Inr args \<longrightarrow> call_effect c call args = ReadOnly \<or> hook_approved)) \<and>
      (\<forall>i. snd y = Some i \<longrightarrow> \<not> fst y \<and> asks i call t)) (ask_approval c call arguments hook_approved granted)"
proof -
  have asked: "leaves (\<lambda>y t. \<not> fst y \<and> (\<forall>i. snd y = Some i \<longrightarrow> asks i call t)) (abind (outside (new_approval c)) (\<lambda>i.
      abind (yield (ToolApprovalRequired i call eff policy)) (\<lambda>_. give (False, Some i))))" for eff policy
    by (auto simp: leaves_def outside_def yield_def log_action_def change_def give_def asks_def split: prod.splits)
  show ?thesis
    using assms
    by (auto simp: ask_approval_def intro!: leaves_give leaves_mono[OF asked] split: sum.splits bool.splits)
qed

lemma leaves_true: "any.does all_kinds m \<Longrightarrow> leaves (\<lambda>_ _. True) m"
  by (rule leaves_mono[OF leaves_does]) simp_all

lemma leaves_prepare:
  assumes "re_interactive c"
  shows "leaves (\<lambda>y t. pc_call (fst y) = call \<and> backed c y t) (prepare_call c truncated call)"
proof -
  have rest: "leaves (\<lambda>y t. pc_call (fst y) = call \<and> backed c y (p @ t))
     (abind (intercept_call c call arguments refusal) (\<lambda>(hook_approved, refusal).
     abind (reason_now c) (\<lambda>reason.
     abind (ask_approval c call arguments hook_approved (reason = None \<and> refusal = None)) (\<lambda>(granted, approval).
     give (\<lparr>pc_call = call, pc_arguments = arguments, pc_approved = granted, pc_denial = refusal\<rparr>, approval)))))"
    for arguments refusal p
    apply (rule leaves_abind[OF leaves_intercept])
    apply (clarsimp split: prod.splits)
    apply (rule leaves_abind[OF leaves_true], rule any.does_reason_now)
    apply (rule leaves_abind[OF leaves_ask[OF assms]])
    apply (auto intro!: leaves_give simp: backed_def)
    done
  show ?thesis
    unfolding prepare_call_def Let_def
    apply (rule leaves_abind[OF leaves_yield[of "\<lambda>_ t. True"]], simp)
    apply (rule leaves_abind[OF leaves_true], rule any.does_look)
    apply (simp only: append_assoc[symmetric], rule rest)
    done
qed

lemma backed_append: "backed c y t \<Longrightarrow> backed c y (p @ t @ r)"
  by (auto simp: backed_def)

lemma leaves_prepared:
  assumes "re_interactive c"
  shows "leaves (\<lambda>ps t. map (\<lambda>y. pc_call (fst y)) ps = map f calls \<and> (\<forall>y \<in> set ps. backed c y t))
    (collect (\<lambda>call. prepare_call c truncated (f call)) calls)"
proof -
  have "leaves (\<lambda>ps t. list_all2 (\<lambda>call y. pc_call (fst y) = f call \<and> backed c y t) calls ps)
      (collect (\<lambda>call. prepare_call c truncated (f call)) calls)"
    by (rule leaves_collect) (auto intro: leaves_prepare[OF assms] backed_append)
  moreover have "list_all2 (\<lambda>call y. pc_call (fst y) = f call \<and> backed c y t) calls ps \<Longrightarrow>
      map (\<lambda>y. pc_call (fst y)) ps = map f calls \<and> (\<forall>y \<in> set ps. backed c y t)" for ps t
    by (induction rule: list_all2_induct) auto
  ultimately show ?thesis by (rule leaves_mono)
qed

section \<open>Decisions\<close>

definition decided :: "(nat \<times> str) list \<Rightarrow> prepared_call list \<Rightarrow> prepared_call list \<Rightarrow> action list \<Rightarrow> bool" where
  "decided as ps ps' t \<longleftrightarrow> length ps' = length ps \<and>
     (\<forall>j < length ps. pc_call (ps' ! j) = pc_call (ps ! j) \<and> pc_arguments (ps' ! j) = pc_arguments (ps ! j) \<and>
        (pc_approved (ps' ! j) \<longrightarrow> pc_approved (ps ! j) \<or> (\<exists>i. (j, i) \<in> set as \<and> grants i (pc_call (ps ! j)) t)))"

lemma decided_refl: "decided as ps ps []"
  by (simp add: decided_def)

lemma decided_trans:
  assumes "decided as ps ps' t" and "decided as' ps' ps'' u" and "set as' \<subseteq> set as"
  shows "decided as ps ps'' (t @ u)"
  using assms unfolding decided_def by simp blast

lemma leaves_resolve:
  assumes "a \<in> set as" and "fst a < length ps"
  shows "leaves (\<lambda>ps' t. decided as ps ps' t) (resolve_approval a decision ps)"
proof -
  obtain i x where a: "a = (i, x)" by fastforce
  have "decided as ps (ps[i := (ps ! i)\<lparr>pc_approved := ok\<rparr>])
      [Yield (Event (ToolApprovalResolved x (tc_id (pc_call (ps ! i))) ok None))]" for ok
    using assms a by (auto simp: decided_def nth_list_update grants_def)
  moreover have "decided as ps (ps[i := (ps ! i)\<lparr>pc_denial := why\<rparr>]) t" for why t
    using assms a by (auto simp: decided_def nth_list_update)
  ultimately show ?thesis
    unfolding resolve_approval_def Let_def a
    by (auto simp: leaves_def yield_def log_action_def change_def give_def split: option.splits)
qed

lemma set_without_nth: "set (without_nth k xs) \<subseteq> set xs"
  by (auto simp: without_nth_def dest: in_set_takeD in_set_dropD)

lemma leaves_outside: "leaves (\<lambda>_ t. t = []) (outside f)"
  by (simp add: leaves_def outside_def split: prod.splits)

lemma leaves_await:
  "\<forall>a \<in> set as. fst a < length ps \<Longrightarrow> leaves (\<lambda>ps' t. decided as ps ps' t) (await_decisions c as ps)"
proof (induction "length as" arbitrary: as ps)
  case 0
  then show ?case by (auto intro: decided_refl)
next
  case (Suc n)
  have later: "leaves (\<lambda>ps'' u. decided as ps ps'' (t @ u)) (await_decisions c (without_nth k as) ps')"
    if ps': "decided as ps ps' t" and k: "k < length as" for ps' t k
  proof (rule leaves_mono[OF Suc(1)])
    show "n = length (without_nth k as)" using Suc(2) k by simp
    show "\<forall>a \<in> set (without_nth k as). fst a < length ps'"
      using Suc(3) set_without_nth[of k as] ps' by (auto simp: decided_def)
  qed (rule decided_trans[OF ps' _ set_without_nth])
  obtain a as' where as: "as = a # as'" using Suc(2) by (cases as) auto
  have "leaves (\<lambda>ps' t. decided as ps ps' t)
    (abind (resolve_approval (as ! (k mod length as)) decision ps) (\<lambda>ps. await_decisions c (without_nth (k mod length as) as) ps))"
    for k decision
  proof -
    have k: "k mod length as < length as" using as by simp
    show ?thesis
      by (rule leaves_abind[OF leaves_resolve]) (use k Suc(3) nth_mem later in auto)
  qed
  then show ?case
    unfolding as await_decisions.simps(2)
    by (intro leaves_abind[OF leaves_outside]) auto
qed

lemma asked_approvals_nth: "(j, i) \<in> set (asked_approvals ps) \<Longrightarrow> j < length ps \<and> snd (ps ! j) = Some i"
  by (auto simp: asked_approvals_def map_filter_def set_zip split: option.splits dest: arg_cong[of _ _ snd])

text \<open>A call that may run after the decisions is backed by what was asked and granted.\<close>

lemma leaves_await_approvals:
  assumes backed: "\<forall>y \<in> set ps. backed c y q"
  shows "leaves (\<lambda>ps' t. map pc_call ps' = map (\<lambda>y. pc_call (fst y)) ps \<and>
    (\<forall>p \<in> set ps'. pc_approved p \<longrightarrow> (\<forall>args. pc_arguments p = Inr args \<longrightarrow> allowed c (q @ t) (pc_call p) args)))
    (await_approvals c ps)"
proof -
  have clock: "leaves (\<lambda>_ t. t = []) (move_clock c f)" for f
    by (simp add: leaves_def move_clock_def abind_def outside_def change_def split: prod.splits)
  have settled: "map pc_call ps' = map (\<lambda>y. pc_call (fst y)) ps \<and>
      (\<forall>p \<in> set ps'. pc_approved p \<longrightarrow> (\<forall>args. pc_arguments p = Inr args \<longrightarrow> allowed c (q @ t) (pc_call p) args))"
    if d: "decided (asked_approvals ps) (map fst ps) ps' t" for ps' t
  proof (intro conjI ballI impI allI)
    show "map pc_call ps' = map (\<lambda>y. pc_call (fst y)) ps"
      using d by (intro nth_equalityI) (auto simp: decided_def)
  next
    fix p args
    assume p: "p \<in> set ps'" "pc_approved p" "pc_arguments p = Inr args"
    then obtain j where j: "j < length ps" "p = ps' ! j"
      using d by (auto simp: decided_def in_set_conv_nth)
    then have same: "pc_call p = pc_call (fst (ps ! j))" "pc_arguments p = pc_arguments (fst (ps ! j))"
      and approved: "pc_approved (fst (ps ! j)) \<or>
        (\<exists>i. (j, i) \<in> set (asked_approvals ps) \<and> grants i (pc_call (fst (ps ! j))) t)"
      using d p(2) by (auto simp: decided_def)
    have b: "backed c (ps ! j) q" using backed j(1) by simp
    from approved show "allowed c (q @ t) (pc_call p) args"
    proof
      assume "pc_approved (fst (ps ! j))"
      then show ?thesis using b same p(3) by (auto simp: backed_def allowed_def)
    next
      assume "\<exists>i. (j, i) \<in> set (asked_approvals ps) \<and> grants i (pc_call (fst (ps ! j))) t"
      then obtain i where "snd (ps ! j) = Some i" "grants i (pc_call p) t"
        using asked_approvals_nth same(1) by metis
      moreover from this have "asks i (pc_call p) q" using b same(1) by (simp add: backed_def)
      ultimately show ?thesis unfolding allowed_def by blast
    qed
  qed
  have await: "leaves (\<lambda>ps' t. decided (asked_approvals ps) (map fst ps) ps' t)
      (await_decisions c (asked_approvals ps) (map fst ps))"
    by (rule leaves_await) (auto dest: asked_approvals_nth)
  have "leaves (\<lambda>ps' t. decided (asked_approvals ps) (map fst ps) ps' t) (await_approvals c ps)"
    unfolding await_approvals_def Let_def
    by (auto intro!: leaves_give decided_refl leaves_abind[OF clock] leaves_abind[OF await])
  then show ?thesis by (rule leaves_mono) (rule settled)
qed

section \<open>Execution\<close>

definition cleared :: "'w run_env \<Rightarrow> prepared_call \<Rightarrow> action list \<Rightarrow> bool" where
  "cleared c p t \<longleftrightarrow> (pc_approved p \<longrightarrow> (\<forall>args. pc_arguments p = Inr args \<longrightarrow> allowed c (since t) (pc_call p) args))"

lemma cleared_append: "cleared c p t \<Longrightarrow> KCompleted \<notin> kind ` set u \<Longrightarrow> cleared c p (t @ u)"
  using allowed_append[of c "since t" _ _ "[]" u] by (auto simp: cleared_def since_append)

lemma still_ends [intro]:
  "guarded (runs_allowed c) q (give x)" "guarded (runs_allowed c) q (fail_with e m)"
  by (auto intro: guarded_still[of "{}"])

lemma guarded_run_call:
  assumes "cleared c p q"
  shows "guarded (runs_allowed c) q (run_call c p)"
proof -
  have go: "guarded (runs_allowed c) q (abind (log_action (Executed (pc_call p) args)) (\<lambda>_.
      abind (outside (call_for_agent c (tc_name (pc_call p)) args)) (\<lambda>r.
      give (pc_call p, executed_result c (tc_name (pc_call p)) r))))"
    if "runs_allowed c q (Executed (pc_call p) args)" for q args
    by (rule guarded_abind[OF guarded_log[of "runs_allowed c", OF that] leaves_log[of "\<lambda>_ _. True"]])
      (auto intro!: guarded_still[of "{}"] any.does_small)
  show ?thesis
    unfolding run_call_def Let_def
  proof (rule guarded_abind[OF guarded_still[OF any.does_reason_now[of "{}"]] leaves_does[OF any.does_reason_now[of "{}"]]])
    fix reason t
    assume "kind ` set t \<subseteq> {} - {KEnd}"
    then have "t = []" by simp
    then show "guarded (runs_allowed c) (q @ t) (case reason of
        Some reason \<Rightarrow> give (pc_call p, skipped_tool_call c (tc_name (pc_call p)) reason)
      | None \<Rightarrow>
          if \<not> pc_approved p then give (pc_call p, denied_tool_call c (tc_name (pc_call p)) (pc_denial p))
          else
            (case pc_arguments p of
               Inl message \<Rightarrow> give (pc_call p, tool_error_result c (tc_name (pc_call p)) message)
             | Inr args \<Rightarrow>
                 abind (log_action (Executed (pc_call p) args)) (\<lambda>_.
                 abind (outside (call_for_agent c (tc_name (pc_call p)) args)) (\<lambda>r.
                 give (pc_call p, executed_result c (tc_name (pc_call p)) r)))))"
      using assms by (auto intro!: go simp: cleared_def runs_allowed_def split: option.splits sum.splits)
  qed simp_all
qed

lemma guarded_run_calls:
  "\<forall>p \<in> set ps. cleared c p q \<Longrightarrow> guarded (runs_allowed c) q (collect (run_call c) ps)"
proof (induction ps arbitrary: q)
  case (Cons p ps)
  show ?case
    unfolding collect.simps
  proof (rule guarded_abind[OF guarded_run_call leaves_does[OF any.does_run_call[of "{KExecuted}"]]])
    fix y t
    assume "kind ` set t \<subseteq> {KExecuted} - {KEnd}"
    then have "KCompleted \<notin> kind ` set t" by auto
    then have "\<forall>p \<in> set ps. cleared c p (q @ t)" using Cons(2) by (auto intro: cleared_append)
    then show "guarded (runs_allowed c) (q @ t) (abind (collect (run_call c) ps) (\<lambda>ys. give (y # ys)))"
      by (intro guarded_abind[OF Cons(1), where L = "\<lambda>_ _. True"] leaves_true any.does_collect any.does_run_call)
        auto
  qed (use Cons(2) in auto)
qed auto

lemma leaves_gives: "leaves (\<lambda>_ _. True) m \<Longrightarrow> gives Q m \<Longrightarrow> leaves (\<lambda>x _. Q x) m"
  unfolding leaves_def gives_def by blast

lemma leaves_tidy: "leaves (\<lambda>xs _. map fst xs = map pc_call ps \<and> (\<forall>x \<in> set xs. tidy (snd x))) (collect (run_call c) ps)"
  by (rule leaves_gives[OF leaves_true gives_run_calls], rule any.does_collect, rule any.does_run_call) simp

lemma guarded_call_phase:
  assumes "re_interactive c"
  shows "guarded (runs_allowed c) q (call_phase c step calls truncated recover_length)"
proof -
  let ?ask = "{KOther, KHook, KAsk, KCall}"
  have asking: "any.does ?ask (collect (\<lambda>call. prepare_call c truncated (resolve_proxy_call c call)) calls)"
    by (auto intro!: any.does_collect any.does_prepare_call)
  have deciding: "any.does {KAnswer} (await_approvals c ps)" for ps
    by (rule any.does_await_approvals) simp
  have finish: "guarded (runs_allowed c) q (answer_results c step recover_length xs)"
    if "map fst xs = map pc_call ps \<and> (\<forall>x \<in> set xs. tidy (snd x))" for q xs and ps :: "prepared_call list"
    by (rule guarded_still[OF any.does_answer_results[of _ "{KOther, KCommit, KResult}"]]) (use that in auto)
  show ?thesis
    unfolding call_phase_def
  proof (rule guarded_abind[OF guarded_still[OF asking] leaves_conj[OF leaves_prepared[OF assms] leaves_does[OF asking]]])
    fix ps and t
    assume t: "(map (\<lambda>y. pc_call (fst y)) ps = map (resolve_proxy_call c) calls \<and> (\<forall>y \<in> set ps. backed c y t)) \<and>
        kind ` set t \<subseteq> ?ask - {KEnd}"
    then have backed: "\<forall>y \<in> set ps. backed c y t" by blast
    show "guarded (runs_allowed c) (q @ t) (abind (await_approvals c ps) (\<lambda>ps.
       abind (collect (run_call c) ps) (\<lambda>xs. answer_results c step recover_length xs)))"
    proof (rule guarded_abind[OF guarded_still[OF deciding]
          leaves_conj[OF leaves_await_approvals[OF backed] leaves_does[OF deciding]]])
      fix ps' :: "prepared_call list" and u
      assume u: "(map pc_call ps' = map (\<lambda>y. pc_call (fst y)) ps \<and>
          (\<forall>p \<in> set ps'. pc_approved p \<longrightarrow> (\<forall>args. pc_arguments p = Inr args \<longrightarrow> allowed c (t @ u) (pc_call p) args))) \<and>
        kind ` set u \<subseteq> {KAnswer} - {KEnd}"
      then have "KCompleted \<notin> kind ` set (t @ u)" using t by auto
      then have cleared: "\<forall>p \<in> set ps'. cleared c p ((q @ t) @ u)"
        using u allowed_since[of c "t @ u"] by (auto simp: cleared_def)
      show "guarded (runs_allowed c) ((q @ t) @ u)
          (abind (collect (run_call c) ps') (\<lambda>xs. answer_results c step recover_length xs))"
        by (rule guarded_abind[OF guarded_run_calls[OF cleared] leaves_tidy finish])
    qed simp_all
  qed simp_all
qed

lemma guarded_still_seq:
  assumes "any.does K m" and "K \<subseteq> all_kinds - {KExecuted}" and "\<And>q x. guarded (runs_allowed c) q (f x)"
  shows "guarded (runs_allowed c) q (abind m f)"
proof -
  have "any.does all_kinds m" by (rule any.does_mono[OF assms(1)]) (use assms(2) in blast)
  then show ?thesis
    by (intro guarded_abind[OF guarded_still[OF assms(1)] leaves_true] assms(3)) (use assms(2) in blast)
qed

abbreviation quiet_kinds :: "action_kind set" where
  "quiet_kinds \<equiv> all_kinds - {KExecuted}"

lemma guarded_end_step:
  assumes "re_interactive c"
  shows "guarded (runs_allowed c) q (end_step c step r)"
proof -
  have wrap: "guarded (runs_allowed c) q (wrap_up c reason)" for q reason
    by (rule guarded_still[OF any.does_wrap_up[of quiet_kinds]]) simp_all
  have "guarded (runs_allowed c) q (with_calls c step r calls truncated)" for q calls truncated
    unfolding with_calls_def
    by (rule guarded_still_seq[OF any.does_limit_reason[of "{}"]])
      (auto intro!: wrap guarded_still_seq[OF any.does_count_recovery[of "{}"]]
        guarded_still_seq[OF any.does_push_message[of "{}"]] guarded_call_phase[OF assms] split: option.splits)
  moreover have "guarded (runs_allowed c) q (no_calls c r truncated)" for truncated
    by (rule guarded_still[OF any.does_no_calls[of quiet_kinds]]) simp_all
  ultimately show ?thesis by (simp add: end_step_def Let_def)
qed

lemma guarded_runs_step:
  assumes "re_interactive c"
  shows "guarded (runs_allowed c) q (agent_step c)"
proof -
  have wrap: "guarded (runs_allowed c) q (wrap_up c reason)" for q reason
    by (rule guarded_still[OF any.does_wrap_up[of quiet_kinds]]) simp_all
  show ?thesis
    unfolding agent_step_def
    by (rule guarded_still_seq[OF any.does_look[of "{}"]], simp,
        rule guarded_still_seq[OF any.does_reason_now[of "{}"]])
      (auto intro!: wrap guarded_still_seq[OF any.does_prepare_step[of "{}"]]
        guarded_still_seq[OF any.does_append_notes[of "{}"]]
        guarded_still_seq[OF any.does_request_loop[of quiet_kinds]]
        guarded_still_seq[OF does_count_iteration[of "{}"]]
        guarded_still_seq[OF any.does_close_request[of quiet_kinds]]
        guarded_end_step[OF assms] split: option.splits)
qed

lemma executions_allowed:
  assumes "re_interactive c"
  shows "judged (runs_allowed c) [] (ru_trace (agent_loop c msgs w))"
  by (rule run_judged[where C = "\<lambda>_. True"])
    (auto intro!: guarded_runs_step[OF assms] guarded_still[OF any.does_begin_run[of "{KOther, KCommit}"]]
      leaves_true does_agent_step)

end
