(* ===== verification/Agent_Results.thy ===== *)
theory Agent_Results
  imports Agent_Approvals
begin

text \<open>Every result of a run answers the call it was made for, in the order of the calls.\<close>

section \<open>Announced and answered calls\<close>

fun announced :: "action list \<Rightarrow> tool_call list" where
  "announced [] = []"
| "announced (Yield (Event (ToolCallEvent call _)) # t) = call # announced t"
| "announced (_ # t) = announced t"

fun answered :: "action list \<Rightarrow> (str option \<times> str) list" where
  "answered [] = []"
| "answered (Yield (Event (ToolResult i name _ _ _)) # t) = (i, name) # answered t"
| "answered (_ # t) = answered t"

definition call_name :: "tool_call \<Rightarrow> str option \<times> str" where
  "call_name x = (tc_id x, tc_name x)"

lemma announced_append [simp]: "announced (t @ u) = announced t @ announced u"
  by (induction t rule: announced.induct) simp_all

lemma answered_append [simp]: "answered (t @ u) = answered t @ answered u"
  by (induction t rule: answered.induct) simp_all

lemma announced_none: "KCall \<notin> kind ` set t \<Longrightarrow> announced t = []"
  by (induction t rule: announced.induct) auto

lemma answered_none: "KResult \<notin> kind ` set t \<Longrightarrow> answered t = []"
  by (induction t rule: answered.induct) auto

text \<open>The next result answers the first announced call that has none yet.\<close>

definition answers_next :: "action list \<Rightarrow> action \<Rightarrow> bool" where
  "answers_next q a \<longleftrightarrow> (\<forall>i name v ui app. a = Yield (Event (ToolResult i name v ui app)) \<longrightarrow>
     length (answered q) < length (announced q) \<and> call_name (announced q ! length (answered q)) = (i, name))"

definition all_answered :: "action list \<Rightarrow> bool" where
  "all_answered q \<longleftrightarrow> answered q = map call_name (announced q)"

lemma answers_other: "kind a \<noteq> KResult \<Longrightarrow> answers_next q a"
  by (auto simp: answers_next_def)

lemma guarded_mute: "any.does K m \<Longrightarrow> KResult \<notin> K \<Longrightarrow> guarded answers_next q m"
  by (rule guarded_does) (auto intro: answers_other)

text \<open>A part that neither announces nor answers.\<close>

definition neither :: "'a \<Rightarrow> action list \<Rightarrow> bool" where
  "neither x t \<longleftrightarrow> announced t = [] \<and> answered t = []"

lemma leaves_neither: "any.does (all_kinds - {KCall, KResult}) m \<Longrightarrow> leaves neither m"
  by (rule leaves_mono[OF leaves_does]) (auto simp: neither_def intro!: announced_none answered_none)

lemma guarded_neither_seq:
  assumes "any.does (all_kinds - {KCall, KResult}) m"
    and "\<And>x t. announced (q @ t) = announced q \<Longrightarrow> answered (q @ t) = answered q \<Longrightarrow> guarded answers_next (q @ t) (f x)"
  shows "guarded answers_next q (abind m f)"
  by (rule guarded_abind[OF guarded_mute[OF assms(1)] leaves_neither[OF assms(1)]])
    (auto simp: neither_def intro: assms(2))

lemma leaves_neither_seq:
  assumes "any.does (all_kinds - {KCall, KResult}) m"
    and "\<And>x. leaves (\<lambda>y u. announced u = as \<and> answered u = bs) (f x)"
  shows "leaves (\<lambda>y u. announced u = as \<and> answered u = bs) (abind m f)"
  by (rule leaves_abind[OF leaves_neither[OF assms(1)]])
    (auto simp: neither_def intro: leaves_mono[OF assms(2)])

section \<open>Answering\<close>

lemma does_after_result:
  assumes "tidy ex"
  shows "any.does {KOther, KCommit} (abind (yield_some (ex_memory ex)) (\<lambda>_.
      abind (yield_some (ex_child ex)) (\<lambda>_.
      abind (worker_event (ex_worker ex)) (\<lambda>_.
      abind (first_decision call (ex_decision ex) awaiting) (\<lambda>awaiting.
      abind (push_message m) (\<lambda>_. give awaiting))))))"
  using assms
  by (auto simp: tidy_def intro!: any.does_small any.does_yield_some any.does_worker_event
      any.does_first_decision any.does_push_message)

lemma guarded_answer_call:
  assumes "tidy ex" and "length (answered q) < length (announced q)"
    and "call_name (announced q ! length (answered q)) = call_name call"
  shows "guarded answers_next q (answer_call c step call ex content awaiting)"
proof -
  have result: "guarded answers_next q (abind (yield (ToolResult (tc_id call) (tc_name call) (ex_visible ex) (ex_ui ex) (ex_app_result ex)))
      (\<lambda>_. abind (yield_some (ex_memory ex)) (\<lambda>_.
      abind (yield_some (ex_child ex)) (\<lambda>_.
      abind (worker_event (ex_worker ex)) (\<lambda>_.
      abind (first_decision call (ex_decision ex) awaiting) (\<lambda>awaiting.
      abind (push_message m) (\<lambda>_. give awaiting)))))))"
    if "length (answered q) < length (announced q)"
      "call_name (announced q ! length (answered q)) = call_name call" for q m
    unfolding yield_def[of "ToolResult _ _ _ _ _"]
    by (rule guarded_abind[OF guarded_log leaves_log[of "\<lambda>_ _. True"]])
      (use that in \<open>auto simp: answers_next_def call_name_def
        intro: guarded_mute[OF does_after_result[OF assms(1)]]\<close>)
  show ?thesis
    unfolding answer_call_def Let_def
    by (rule guarded_neither_seq[OF any.does_after_call], simp,
        rule guarded_neither_seq[OF any.does_note_repeat],
        rule guarded_neither_seq[OF any.does_commit], simp)
      (rule result, use assms(2,3) in simp_all)
qed

lemma leaves_answer_call:
  assumes "tidy ex"
  shows "leaves (\<lambda>_ t. announced t = [] \<and> answered t = [call_name call]) (answer_call c step call ex content awaiting)"
proof -
  have result: "leaves (\<lambda>_ t. announced t = [] \<and> answered t = [call_name call])
      (abind (yield (ToolResult (tc_id call) (tc_name call) (ex_visible ex) (ex_ui ex) (ex_app_result ex)))
      (\<lambda>_. abind (yield_some (ex_memory ex)) (\<lambda>_.
      abind (yield_some (ex_child ex)) (\<lambda>_.
      abind (worker_event (ex_worker ex)) (\<lambda>_.
      abind (first_decision call (ex_decision ex) awaiting) (\<lambda>awaiting.
      abind (push_message m) (\<lambda>_. give awaiting)))))))" for m
    by (rule leaves_abind[OF leaves_yield[of "\<lambda>_ t. announced t = [] \<and> answered t = [call_name call]"]])
      (auto simp: call_name_def neither_def
        intro!: leaves_mono[OF leaves_neither[OF any.does_mono[OF does_after_result[OF assms]]]])
  show ?thesis
    unfolding answer_call_def Let_def
    by (intro leaves_neither_seq result any.does_after_call any.does_note_repeat any.does_commit) simp_all
qed

lemma guarded_answer_calls:
  assumes "\<forall>x \<in> set xs. tidy (snd (fst x))"
    and "announced q = A @ map (\<lambda>x. fst (fst x)) xs" and "answered q = map call_name A"
  shows "guarded answers_next q (answer_calls c step xs awaiting)"
  using assms
proof (induction c step xs awaiting arbitrary: q A rule: answer_calls.induct)
  case (2 c step call ex content rest awaiting)
  show ?case
    unfolding answer_calls.simps
  proof (rule guarded_abind[OF guarded_answer_call leaves_answer_call])
    fix y t
    assume "announced t = [] \<and> answered t = [call_name call]"
    then show "guarded answers_next (q @ t) (answer_calls c step rest y)"
      using 2(2-) by (intro 2(1)[of _ "A @ [call]"]) auto
  qed (use 2(2-) in auto)
qed (auto intro: guarded_mute[of "{}"])

lemma leaves_answer_calls:
  assumes "\<forall>x \<in> set xs. tidy (snd (fst x))"
  shows "leaves (\<lambda>_ t. announced t = [] \<and> answered t = map (\<lambda>x. call_name (fst (fst x))) xs) (answer_calls c step xs awaiting)"
  using assms
proof (induction c step xs awaiting rule: answer_calls.induct)
  case (2 c step call ex content rest awaiting)
  show ?case
    unfolding answer_calls.simps
    by (rule leaves_abind[OF leaves_answer_call]) (use 2 in \<open>auto intro: leaves_mono\<close>)
qed auto

lemma length_contents: "length (model_tool_contents e results sc) = length results"
  by (simp add: model_tool_contents_def step_byte_caps_def Let_def)

section \<open>The calls of a step\<close>

lemma leaves_prepare_names:
  "leaves (\<lambda>y t. pc_call (fst y) = call \<and> announced t = [call] \<and> answered t = []) (prepare_call c truncated call)"
proof -
  have rest: "leaves (\<lambda>y t. pc_call (fst y) = call \<and> neither y t)
     (abind (look (\<lambda>st. prior_denial (re_repeat c) (ru_repeats st) (made call))) (\<lambda>refusal.
     abind (intercept_call c call arguments refusal) (\<lambda>(hook_approved, refusal).
     abind (reason_now c) (\<lambda>reason.
     abind (ask_approval c call arguments hook_approved (reason = None \<and> refusal = None)) (\<lambda>(granted, approval).
     give (\<lparr>pc_call = call, pc_arguments = arguments, pc_approved = granted, pc_denial = refusal\<rparr>, approval))))))"
    (is "leaves _ ?m") for arguments
  proof -
    have "leaves neither ?m"
      by (rule leaves_neither) (auto intro!: any.does_small any.does_intercept_call any.does_ask_approval)
    moreover have "gives (\<lambda>y. pc_call (fst y) = call) ?m"
      by (auto intro!: gives_abind gives_give)
    ultimately show ?thesis
      using leaves_conj[OF leaves_gives[OF leaves_mono[of neither ?m "\<lambda>_ _. True"]]] by blast
  qed
  show ?thesis
    unfolding prepare_call_def Let_def
    by (rule leaves_abind[OF leaves_yield[of "\<lambda>_ t. announced t = [call] \<and> answered t = []"]])
      (auto simp: neither_def intro!: leaves_mono[OF rest])
qed

lemma leaves_announce:
  "leaves (\<lambda>ps t. map (\<lambda>y. pc_call (fst y)) ps = map f calls \<and> announced t = map f calls \<and> answered t = [])
    (collect (\<lambda>call. prepare_call c truncated (f call)) calls)"
proof (induction calls)
  case (Cons call calls)
  show ?case
    unfolding collect.simps
    by (rule leaves_abind[OF leaves_prepare_names], rule leaves_abind[OF Cons]) auto
qed auto

lemma does_announce:
  "any.does {KOther, KHook, KAsk, KCall} (collect (\<lambda>call. prepare_call c truncated (f call)) calls)"
  by (auto intro!: any.does_collect any.does_prepare_call)

lemma map_zip_contents:
  "map (\<lambda>x. g (fst (fst x))) (zip xs (model_tool_contents env (map f xs) sc)) = map (\<lambda>x. g (fst x)) xs"
proof -
  have "length ts = length xs \<Longrightarrow> map (\<lambda>x. g (fst (fst x))) (zip xs ts) = map (\<lambda>x. g (fst x)) xs" for ts :: "str list"
    by (induction ts xs rule: list_induct2) simp_all
  then show ?thesis by (simp add: length_contents)
qed

lemma guarded_results:
  assumes "\<forall>x \<in> set xs. tidy (snd x)" and "announced q = A @ map fst xs" and "answered q = map call_name A"
  shows "guarded answers_next q (answer_results c step recover_length xs)"
proof -
  have contents: "map (\<lambda>x. fst (fst x)) (zip xs (model_tool_contents env (map f xs) sc)) = map fst xs" for env f sc
    using map_zip_contents[of "\<lambda>x. x" xs] by simp
  have tidies: "\<forall>x \<in> set (zip xs ts). tidy (snd (fst x))" for ts :: "str list"
    using assms(1) by (auto dest!: set_zip_leftD)
  show ?thesis
    unfolding answer_results_def Let_def
  proof (rule guarded_neither_seq[OF any.does_outside])
    fix env t
    assume "announced (q @ t) = announced q" "answered (q @ t) = answered q"
    then show "guarded answers_next (q @ t) (abind (answer_calls c step (zip xs (model_tool_contents env
           (map (\<lambda>(call, ex). (ex_model_text ex, ex_visible ex, tc_id call)) xs) (re_scope c))) False) (\<lambda>awaiting.
     abind (each push_message (result_images xs)) (\<lambda>_.
     if awaiting then abind (look ru_iteration) (\<lambda>n. finish_run n False)
     else if recover_length then push_note (text_message ''user'' LENGTH_RECOVERY_NOTE)
     else give ())))"
      by (intro guarded_abind[OF guarded_answer_calls[of _ _ A] leaves_answer_calls])
        (use assms contents tidies in \<open>auto intro!: guarded_mute[of "{}"] any.does_small any.does_push_message
          any.does_push_note\<close>)
  qed
qed

lemma leaves_results:
  assumes "\<forall>x \<in> set xs. tidy (snd x)"
  shows "leaves (\<lambda>_ t. announced t = [] \<and> answered t = map (\<lambda>x. call_name (fst x)) xs)
    (answer_results c step recover_length xs)"
proof -
  note contents = map_zip_contents[of call_name xs]
  have tidies: "\<forall>x \<in> set (zip xs ts). tidy (snd (fst x))" for ts :: "str list"
    using assms by (auto dest!: set_zip_leftD)
  have tail: "leaves neither (abind (each push_message (result_images xs)) (\<lambda>_.
     if awaiting then abind (look ru_iteration) (\<lambda>n. finish_run n False)
     else if recover_length then push_note (text_message ''user'' LENGTH_RECOVERY_NOTE)
     else give ()))" for awaiting
    by (rule leaves_neither) (auto intro!: any.does_small any.does_push_message any.does_push_note)
  show ?thesis
    unfolding answer_results_def Let_def
    by (rule leaves_neither_seq[OF any.does_outside],
        rule leaves_abind[OF leaves_answer_calls[OF tidies]], rule leaves_mono[OF tail])
      (use contents in \<open>auto simp: neither_def\<close>)
qed

lemma leaves_await_names:
  "leaves (\<lambda>ps' _. map pc_call ps' = map (\<lambda>y. pc_call (fst y)) ps) (await_approvals c ps)"
proof -
  have "\<forall>a \<in> set (asked_approvals ps). fst a < length (map fst ps)" by (auto dest: asked_approvals_nth)
  then have await: "leaves (\<lambda>ps' t. decided (asked_approvals ps) (map fst ps) ps' t)
      (await_decisions c (asked_approvals ps) (map fst ps))"
    by (rule leaves_await)
  have same: "map pc_call ps' = map (\<lambda>y. pc_call (fst y)) ps" if "decided (asked_approvals ps) (map fst ps) ps' t" for ps' t
    using that by (intro nth_equalityI) (auto simp: decided_def)
  have clock: "leaves (\<lambda>_ _. True) (move_clock c f)" for f
    by (rule leaves_true) (rule any.does_move_clock)
  show ?thesis
    unfolding await_approvals_def Let_def
    by (auto intro!: leaves_give leaves_abind[OF clock] leaves_abind[OF await] dest: same)
qed

text \<open>A call phase that starts with every call answered ends so.\<close>

lemma guarded_answers_phase:
  assumes q: "all_answered q"
  shows "guarded answers_next q (call_phase c step calls truncated recover_length)"
  unfolding call_phase_def
proof (rule guarded_abind[OF guarded_mute[OF does_announce] leaves_announce], simp)
  let ?f = "resolve_proxy_call c"
  fix ps :: "(prepared_call \<times> str option) list" and t
  assume t: "map (\<lambda>y. pc_call (fst y)) ps = map ?f calls \<and> announced t = map ?f calls \<and> answered t = []"
  have deciding: "any.does (all_kinds - {KCall, KResult}) (await_approvals c ps)"
    by (rule any.does_await_approvals) simp
  show "guarded answers_next (q @ t) (abind (await_approvals c ps) (\<lambda>ps.
      abind (collect (run_call c) ps) (\<lambda>xs. answer_results c step recover_length xs)))"
  proof (rule guarded_abind[OF guarded_mute[OF deciding] leaves_conj[OF leaves_await_names leaves_neither[OF deciding]]], simp)
    fix ps' :: "prepared_call list" and u
    assume u: "map pc_call ps' = map (\<lambda>y. pc_call (fst y)) ps \<and> neither ps' u"
    have running: "any.does (all_kinds - {KCall, KResult}) (collect (run_call c) ps')"
      by (rule any.does_collect, rule any.does_run_call) simp
    show "guarded answers_next ((q @ t) @ u) (abind (collect (run_call c) ps') (\<lambda>xs. answer_results c step recover_length xs))"
    proof (rule guarded_abind[OF guarded_mute[OF running] leaves_conj[OF leaves_tidy leaves_neither[OF running]]], simp)
      fix xs :: "(tool_call \<times> executed) list" and v
      assume v: "(map fst xs = map pc_call ps' \<and> (\<forall>x \<in> set xs. tidy (snd x))) \<and> neither xs v"
      show "guarded answers_next (((q @ t) @ u) @ v) (answer_results c step recover_length xs)"
        by (rule guarded_results[where A = "announced q"])
          (use q t u v in \<open>simp_all add: all_answered_def neither_def\<close>)
    qed
  qed
qed

lemma leaves_answers_phase:
  "leaves (\<lambda>_ t. all_answered t) (call_phase c step calls truncated recover_length)"
  unfolding call_phase_def
proof (rule leaves_abind[OF leaves_announce])
  let ?f = "resolve_proxy_call c"
  fix ps :: "(prepared_call \<times> str option) list" and t
  assume t: "map (\<lambda>y. pc_call (fst y)) ps = map ?f calls \<and> announced t = map ?f calls \<and> answered t = []"
  have deciding: "any.does (all_kinds - {KCall, KResult}) (await_approvals c ps)"
    by (rule any.does_await_approvals) simp
  show "leaves (\<lambda>_ u. all_answered (t @ u)) (abind (await_approvals c ps) (\<lambda>ps.
      abind (collect (run_call c) ps) (\<lambda>xs. answer_results c step recover_length xs)))"
  proof (rule leaves_abind[OF leaves_conj[OF leaves_await_names leaves_neither[OF deciding]]])
    fix ps' :: "prepared_call list" and u
    assume u: "map pc_call ps' = map (\<lambda>y. pc_call (fst y)) ps \<and> neither ps' u"
    have running: "any.does (all_kinds - {KCall, KResult}) (collect (run_call c) ps')"
      by (rule any.does_collect, rule any.does_run_call) simp
    show "leaves (\<lambda>_ w. all_answered (t @ u @ w))
        (abind (collect (run_call c) ps') (\<lambda>xs. answer_results c step recover_length xs))"
    proof (rule leaves_abind[OF leaves_conj[OF leaves_tidy leaves_neither[OF running]]])
      fix xs :: "(tool_call \<times> executed) list" and v
      assume v: "(map fst xs = map pc_call ps' \<and> (\<forall>x \<in> set xs. tidy (snd x))) \<and> neither xs v"
      then have "map fst xs = map ?f calls" using t u by simp
      then have "map call_name (map fst xs) = map call_name (map ?f calls)" by (rule arg_cong)
      then have "map (\<lambda>x. call_name (fst x)) xs = map call_name (map ?f calls)" by (simp add: comp_def)
      then show "leaves (\<lambda>_ w. all_answered (t @ u @ v @ w)) (answer_results c step recover_length xs)"
        using t u v by (intro leaves_mono[OF leaves_results]) (auto simp: all_answered_def neither_def)
    qed
  qed
qed

section \<open>Whole runs\<close>

lemma all_answered_append: "all_answered q \<Longrightarrow> all_answered t \<Longrightarrow> all_answered (q @ t)"
  by (simp add: all_answered_def)

lemma leaves_answered_quiet: "any.does (all_kinds - {KCall, KResult}) m \<Longrightarrow> leaves (\<lambda>_ t. all_answered t) m"
  by (rule leaves_mono[OF leaves_neither]) (auto simp: neither_def all_answered_def)

lemma leaves_answered_seq:
  assumes "any.does (all_kinds - {KCall, KResult}) m" and "\<And>x. leaves (\<lambda>_ t. all_answered t) (f x)"
  shows "leaves (\<lambda>_ t. all_answered t) (abind m f)"
  by (rule leaves_abind[OF leaves_answered_quiet[OF assms(1)]])
    (auto intro: leaves_mono[OF assms(2)] all_answered_append)

lemma guarded_answered_seq:
  assumes "any.does (all_kinds - {KCall, KResult}) m" and "all_answered q"
    and "\<And>q x. all_answered q \<Longrightarrow> guarded answers_next q (f x)"
  shows "guarded answers_next q (abind m f)"
  by (rule guarded_abind[OF guarded_mute[OF assms(1)] leaves_answered_quiet[OF assms(1)]])
    (auto intro: assms(3) all_answered_append[OF assms(2)])

abbreviation call_free :: "action_kind set" where
  "call_free \<equiv> all_kinds - {KCall, KResult}"

lemmas answered_phases = any.does_limit_reason[of call_free] any.does_count_recovery[of call_free]
  any.does_push_message[of call_free] any.does_look[of call_free] any.does_reason_now[of call_free]
  any.does_prepare_step[of call_free] any.does_append_notes[of call_free]
  any.does_request_loop[of call_free, simplified] does_count_iteration[of call_free]
  any.does_close_request[of call_free, simplified]

lemma mute_ends:
  "guarded answers_next q (wrap_up c reason)" "guarded answers_next q (no_calls c r truncated)"
  by (rule guarded_mute[OF any.does_wrap_up[of call_free]]; simp)
    (rule guarded_mute[OF any.does_no_calls[of call_free]]; simp)

lemma guarded_answers_step:
  assumes "all_answered q"
  shows "guarded answers_next q (agent_step c)"
proof -
  have calls: "guarded answers_next q (with_calls c step r calls truncated)" if "all_answered q" for q step r calls truncated
    unfolding with_calls_def
    by (rule guarded_answered_seq[OF answered_phases(1) that])
      (auto intro!: mute_ends guarded_answered_seq[OF answered_phases(2)] guarded_answered_seq[OF answered_phases(3)]
        guarded_answers_phase split: option.splits)
  have ending: "guarded answers_next q (end_step c step r)" if "all_answered q" for q step r
    by (auto simp: end_step_def Let_def intro: calls[OF that] mute_ends)
  show ?thesis
    unfolding agent_step_def
    by (rule guarded_answered_seq[OF answered_phases(4) assms],
        rule guarded_answered_seq[OF answered_phases(5)], assumption)
      (auto intro!: mute_ends ending guarded_answered_seq[OF answered_phases(6)]
        guarded_answered_seq[OF answered_phases(7)] guarded_answered_seq[OF answered_phases(8)]
        guarded_answered_seq[OF answered_phases(9)] guarded_answered_seq[OF answered_phases(10)]
        split: option.splits)
qed

lemma leaves_answers_step: "leaves (\<lambda>_ t. all_answered t) (agent_step c)"
proof -
  have wrap: "leaves (\<lambda>_ t. all_answered t) (wrap_up c reason)" for reason
    by (simp add: leaves_def)
  have calls: "leaves (\<lambda>_ t. all_answered t) (with_calls c step r calls truncated)" for step r calls truncated
    unfolding with_calls_def
    by (rule leaves_answered_seq[OF answered_phases(1)])
      (auto intro!: wrap leaves_answered_seq[OF answered_phases(2)] leaves_answered_seq[OF answered_phases(3)]
        leaves_answers_phase split: option.splits)
  have ending: "leaves (\<lambda>_ t. all_answered t) (end_step c step r)" for step r
    by (auto simp: end_step_def Let_def intro: calls leaves_answered_quiet[OF any.does_no_calls[of call_free]])
  show ?thesis
    unfolding agent_step_def
    by (rule leaves_answered_seq[OF answered_phases(4)], rule leaves_answered_seq[OF answered_phases(5)])
      (auto intro!: wrap ending leaves_answered_seq[OF answered_phases(6)]
        leaves_answered_seq[OF answered_phases(7)] leaves_answered_seq[OF answered_phases(8)]
        leaves_answered_seq[OF answered_phases(9)] leaves_answered_seq[OF answered_phases(10)]
        split: option.splits)
qed

lemma results_answer_calls: "judged answers_next [] (ru_trace (agent_loop c msgs w))"
proof (rule run_judged[where C = all_answered])
  fix t
  assume "kind ` set t \<subseteq> {KOther, KCommit}"
  then have "announced t = []" "answered t = []" by (auto intro!: announced_none answered_none)
  then show "all_answered t" by (simp add: all_answered_def)
next
  fix q
  assume "all_answered q"
  then show "leaves (\<lambda>_ t. all_answered (q @ t)) (agent_step c)"
    by (intro leaves_mono[OF leaves_answers_step]) (rule all_answered_append)
qed (auto intro!: guarded_answers_step guarded_mute[OF any.does_begin_run[of "{KOther, KCommit}"]])

section \<open>The collected outcome\<close>

text \<open>The results of a trace in which every result answers the next call are paired with the arguments
  of their own calls.\<close>

lemma judged_answers:
  assumes "judged answers_next [] t"
  shows "answered t = map call_name (take (length (answered t)) (announced t)) \<and>
    length (answered t) \<le> length (announced t)"
  using assms
proof (induction t rule: rev_induct)
  case (snoc a t)
  then have IH: "answered t = map call_name (take (length (answered t)) (announced t))"
      "length (answered t) \<le> length (announced t)"
    and a: "answers_next t a"
    by (auto simp: judged_append judged_Cons)
  show ?case
  proof (cases "kind a = KResult")
    case True
    then obtain i name v ui app where *: "a = Yield (Event (ToolResult i name v ui app))"
      by (cases a rule: kind.cases) (auto elim!: event_kind.elims)
    then have "length (answered t) < length (announced t)" "call_name (announced t ! length (answered t)) = (i, name)"
      using a by (auto simp: answers_next_def)
    then show ?thesis using IH * by (simp add: take_Suc_conv_app_nth)
  next
    case False
    then have "answered [a] = []" by (intro answered_none) auto
    moreover have "announced (t @ [a]) = announced t @ announced [a]" by simp
    ultimately show ?thesis using IH by (simp del: announced.simps)
  qed
qed simp

definition step_call :: "tool_step \<Rightarrow> made_call" where
  "step_call s = (ts_name s, ts_arguments s)"

lemma collect_skip:
  assumes "kind a \<notin> {KCall, KResult, KEnd}"
  shows "\<exists>reply'. collect_outcome (yielded (a # t)) arguments steps reply = collect_outcome (yielded t) arguments steps reply'"
  using assms by (cases a rule: kind.cases) (auto elim!: event_kind.elims split: agent_event.splits)

lemma collected_steps:
  assumes "judged answers_next pre suf" and "length (answered pre) \<le> length (announced pre)"
    and "answered pre = map call_name (take (length (answered pre)) (announced pre))"
    and "arguments = drop (length (answered pre)) (map tc_arguments (announced pre))"
    and "map step_call steps = map made (take (length (answered pre)) (announced pre))"
    and "collect_outcome (yielded suf) arguments steps reply = Inr oc"
  shows "map step_call (oc_steps oc) = map made (take (length (oc_steps oc)) (announced (pre @ suf)))"
  using assms
proof (induction suf arbitrary: pre arguments steps reply)
  case (Cons a suf)
  let ?n = "length (answered pre)"
  have len: "length steps = ?n" using Cons.prems(2,5) by (metis length_map length_take min.absorb2)
  have finished: "map step_call steps = map made (take (length steps) (announced (pre @ a # suf)))"
    using Cons.prems(2,5) len by simp
  have j: "answers_next pre a" "judged answers_next (pre @ [a]) suf"
    using Cons.prems(1) by (simp_all add: judged_Cons)
  show ?case
  proof (cases "kind a \<in> {KCall, KResult, KEnd}")
    case False
    then obtain reply' where "collect_outcome (yielded suf) arguments steps reply' = Inr oc"
      using Cons.prems(6) collect_skip[of a suf arguments steps reply] by metis
    moreover have "announced [a] = []" "answered [a] = []"
      using False by (auto intro!: announced_none answered_none)
    ultimately show ?thesis
      using Cons.IH[OF j(2)] Cons.prems(2-5) by (simp del: announced.simps answered.simps)
  next
    case True
    then consider "kind a = KCall" | "kind a = KResult" | "kind a = KEnd" by blast
    then show ?thesis
    proof cases
      case 1
      then obtain call ui where a: "a = Yield (Event (ToolCallEvent call ui))"
        by (cases a rule: kind.cases) (auto elim!: event_kind.elims)
      show ?thesis
        using Cons.IH[OF j(2), of "arguments @ [tc_arguments call]" steps reply] Cons.prems a by simp
    next
      case 2
      then obtain i name v ui app where a: "a = Yield (Event (ToolResult i name v ui app))"
        by (cases a rule: kind.cases) (auto elim!: event_kind.elims)
      then have n: "?n < length (announced pre)" "call_name (announced pre ! ?n) = (i, name)"
        using j(1) by (auto simp: answers_next_def)
      have args: "arguments = tc_arguments (announced pre ! ?n) # drop (Suc ?n) (map tc_arguments (announced pre))"
        using Cons.prems(4) n(1) by (simp add: Cons_nth_drop_Suc[symmetric] drop_map)
      have "made (announced pre ! ?n) = (name, tc_arguments (announced pre ! ?n))"
        using n(2) by (simp add: made_def call_name_def)
      then show ?thesis
        using Cons.IH[OF j(2), of "drop (Suc ?n) (map tc_arguments (announced pre))"
            "steps @ [\<lparr>ts_name = name, ts_arguments = tc_arguments (announced pre ! ?n), ts_result = v,
              ts_ui = ui, ts_app_result = app\<rparr>]" reply]
          Cons.prems(2,3,5,6) n a args
        by (simp add: take_Suc_conv_app_nth step_call_def)
    next
      case 3
      then have "oc_steps oc = steps"
        using Cons.prems(6) by (cases a rule: kind.cases) (auto elim!: event_kind.elims)
      then show ?thesis using finished by simp
    qed
  qed
qed simp

end
