(* ===== verification/Agent_Messages.thy ===== *)
theory Agent_Messages
  imports Agent_Results Context_Properties
begin

text \<open>
  The conversation of a run: in every request it sends, each call of an assistant turn has its result
  before the next turn, and none is left open.
\<close>

section \<open>Settled conversations\<close>

definition open_calls :: "str list \<Rightarrow> chat_message list \<Rightarrow> bool" where
  "open_calls p ms \<longleftrightarrow> coherent ms \<and> pending_after [] ms = p"

abbreviation settled :: "chat_message list \<Rightarrow> bool" where
  "settled ms \<equiv> open_calls [] ms"

lemma pending_append: "pending_after p (xs @ ys) = pending_after (pending_after p xs) ys"
  by (induction p xs rule: pending_after.induct) simp_all

lemma open_append: "open_calls p ms \<Longrightarrow> coherent_from p ns \<Longrightarrow> open_calls (pending_after p ns) (ms @ ns)"
  by (simp add: open_calls_def coherent_def coherent_append pending_append)

lemma settled_append: "settled ms \<Longrightarrow> coherent_from [] ns \<Longrightarrow> pending_after [] ns = [] \<Longrightarrow> settled (ms @ ns)"
  using open_append[of "[]" ms ns] by simp

text \<open>Messages of the user and of the system leave a conversation settled.\<close>

definition remark :: "chat_message \<Rightarrow> bool" where
  "remark m \<longleftrightarrow> mg_role m = ''user'' \<or> mg_role m = ''system''"

lemma settled_remarks: "settled ms \<Longrightarrow> \<forall>m \<in> set ns. remark m \<Longrightarrow> settled (ms @ ns)"
proof (rule settled_append)
  assume ns: "\<forall>m \<in> set ns. remark m"
  show "coherent_from [] ns" using ns by (induction ns) (auto simp: remark_def is_turn_def is_tool_def)
  show "pending_after [] ns = []" using ns by (induction ns) (auto simp: remark_def is_turn_def is_tool_def)
qed

lemma remark_text: "remark (text_message ''user'' t)" "remark (text_message ''system'' t)"
  by (simp_all add: remark_def text_message_def)

section \<open>Compaction\<close>

lemma pending_frame: "list_all2 same_frame ms ns \<Longrightarrow> pending_after p ns = pending_after p ms"
proof (induction arbitrary: p rule: list_all2_induct)
  case (Cons m ms n ns)
  then show ?case
    using same_frame_fields[OF Cons(1)]
    by (simp add: is_turn_def is_tool_def call_ids_def calls_of_def split: option.splits)
qed simp

lemma pending_drop:
  assumes "coherent ms" and "i < length ms" and "is_turn (ms ! i)"
  shows "pending_after [] (drop i ms) = pending_after [] ms"
proof -
  have "pending_after [] ms = pending_after (pending_after [] (take i ms)) (drop i ms)"
    using pending_append[of "[]" "take i ms" "drop i ms"] by simp
  moreover have "drop i ms = ms ! i # drop (Suc i) ms" using assms(2) by (simp add: Cons_nth_drop_Suc)
  ultimately show ?thesis using assms(3) by simp
qed

lemma settled_elide: "open_calls p ms \<Longrightarrow> open_calls p (fst (elide_old_tool_results ms keep))"
  using elide_frame[of ms keep] coherent_elide[of ms keep] pending_frame
  by (auto simp: open_calls_def)

lemma settled_summary:
  assumes "open_calls q ms" and "plan_ok ms p"
  shows "open_calls q (fst (apply_summary p t ms anchor))"
proof -
  have co: "coherent ms" and q: "pending_after [] ms = q" using assms(1) by (auto simp: open_calls_def)
  have skip: "\<forall>m \<in> set ks. is_system m \<Longrightarrow> pending_after r (ks @ ys) = pending_after r ys" for r ks ys
    by (simp add: pending_append coherent_system)
  have "pending_after [] (fst (apply_summary p t ms anchor)) = q"
  proof (cases "after_empty p")
    case True
    have p: "\<forall>m \<in> set (take (before_start p) ms). is_system m" "before_end p < length ms" "is_turn (ms ! before_end p)"
      using assms(2) by (auto simp: plan_ok_def)
    then show ?thesis
      unfolding apply_summary_history[OF assms(2) True]
      using pending_drop[OF co p(2,3)] q kept_system_system skip role_disjoint[OF summary_system] by simp
  next
    case False
    have p: "\<forall>m \<in> set (take (before_start p) ms). is_system m" "mg_role (ms ! before_end p) = ''user''"
        "after_end p < length ms" "is_turn (ms ! after_end p)"
      using assms(2) False by (auto simp: plan_ok_def)
    then show ?thesis
      unfolding apply_summary_turns[OF assms(2) False]
      using pending_drop[OF co p(3,4)] q kept_system_system skip role_disjoint[OF summary_system]
      by (simp add: is_turn_def)
  qed
  then show ?thesis using apply_summary_coherent[OF co assms(2)] by (simp add: open_calls_def)
qed

lemma settled_compaction:
  assumes "compact_context e w force may ms anchor = (ms', anchor', r)" and "open_calls q ms"
  shows "open_calls q ms'"
  using assms(1)
proof (cases rule: compact_context_cases)
  case (4 keep n p t)
  then show ?thesis using settled_summary[OF settled_elide[OF assms(2)] summary_span_ok[OF 4(1)]] by simp
qed (use assms(2) settled_elide in auto)

section \<open>Triples\<close>

text \<open>A conversation is sound when it is settled and the request \<open>m0\<close> of the user that started the run,
  when it is kept track of, stands where the anchor points.\<close>

definition anchored :: "chat_message option \<Rightarrow> chat_message list \<Rightarrow> nat option \<Rightarrow> bool" where
  "anchored m0 ms anchor \<longleftrightarrow> (\<forall>m. m0 = Some m \<longrightarrow>
     mg_role m = ''user'' \<and> (\<exists>a. anchor = Some a \<and> a < length ms \<and> ms ! a = m))"

definition sound :: "chat_message option \<Rightarrow> str list \<Rightarrow> 'w run \<Rightarrow> bool" where
  "sound m0 p st \<longleftrightarrow> open_calls p (ru_messages st) \<and> anchored m0 (ru_messages st) (ru_anchor st) \<and>
     (\<forall>n \<in> set (ru_notes st). remark n)"

definition request_ok :: "chat_message option \<Rightarrow> chat_message list \<Rightarrow> bool" where
  "request_ok m0 req \<longleftrightarrow> settled req \<and> (\<forall>m. m0 = Some m \<longrightarrow> m \<in> set req)"

definition proper :: "chat_message option \<Rightarrow> action \<Rightarrow> bool" where
  "proper m0 a \<longleftrightarrow> (\<forall>req. a = Sent req \<or> a = Asked req \<longrightarrow> request_ok m0 req)"

definition triple ::
  "chat_message option \<Rightarrow> ('w run \<Rightarrow> bool) \<Rightarrow> ('w, 'a) act \<Rightarrow> ('a \<Rightarrow> 'w run \<Rightarrow> bool) \<Rightarrow> bool" where
  "triple m0 P m Q \<longleftrightarrow> (\<forall>st. P st \<longrightarrow>
     (\<exists>t. ru_trace (snd (m st)) = ru_trace st @ t \<and> (\<forall>a \<in> set t. proper m0 a)) \<and>
     (\<forall>x st'. m st = (Some x, st') \<longrightarrow> Q x st'))"

lemma triple_abind:
  assumes "triple m0 P m Q" and "\<And>x. triple m0 (Q x) (f x) R"
  shows "triple m0 P (abind m f) R"
  unfolding triple_def
proof (intro allI impI)
  fix st
  assume "P st"
  then obtain t where t: "ru_trace (snd (m st)) = ru_trace st @ t" "\<forall>a \<in> set t. proper m0 a"
      and Q: "\<And>x st'. m st = (Some x, st') \<Longrightarrow> Q x st'"
    using assms(1) unfolding triple_def by blast
  show "(\<exists>t. ru_trace (snd (abind m f st)) = ru_trace st @ t \<and> (\<forall>a \<in> set t. proper m0 a)) \<and>
      (\<forall>x st'. abind m f st = (Some x, st') \<longrightarrow> R x st')"
  proof (cases "m st")
    case (Pair r st')
    show ?thesis
    proof (cases r)
      case None
      then show ?thesis using t Pair by (simp add: abind_def)
    next
      case (Some x)
      then have "Q x st'" using Q Pair by simp
      then obtain u where "ru_trace (snd (f x st')) = ru_trace st' @ u" "\<forall>a \<in> set u. proper m0 a"
          and "\<And>y st''. f x st' = (Some y, st'') \<Longrightarrow> R y st''"
        using assms(2)[of x] unfolding triple_def by blast
      then show ?thesis using t Pair Some by (auto simp: abind_def intro!: exI[of _ "t @ u"])
    qed
  qed
qed

lemma triple_weaken:
  "triple m0 P m Q \<Longrightarrow> (\<And>st. P' st \<Longrightarrow> P st) \<Longrightarrow> (\<And>x st. Q x st \<Longrightarrow> Q' x st) \<Longrightarrow> triple m0 P' m Q'"
  unfolding triple_def by blast

lemma triple_give [intro]: "(\<And>st. P st \<Longrightarrow> Q x st) \<Longrightarrow> triple m0 P (give x) Q"
  by (simp add: triple_def give_def)

lemma triple_look: "triple m0 P (look f) (\<lambda>x st. P st \<and> x = f st)"
  by (simp add: triple_def look_def)

lemma triple_change: "(\<And>st. ru_trace (f st) = ru_trace st) \<Longrightarrow> triple m0 (\<lambda>st. Q () (f st)) (change f) Q"
  by (simp add: triple_def change_def)

lemma proper_other: "kind a \<noteq> KSent \<Longrightarrow> kind a \<noteq> KAsked \<Longrightarrow> proper m0 a"
  by (auto simp: proper_def)

lemma sound_same: "same_conversation st st' \<Longrightarrow> sound m0 p st' = sound m0 p st"
  by (simp add: sound_def same_conversation_def)

lemma convD:
  assumes "conv.does K m" and "m st = (r, st')"
  shows "same_conversation st st' \<and> (\<exists>t. ru_trace st' = ru_trace st @ t \<and> kind ` set t \<subseteq> insert KEnd K)"
  using assms part_kinds unfolding conv.does_def by (metis snd_conv)

text \<open>What leaves the conversation alone and asks nothing.\<close>

lemma triple_conv:
  fixes m :: "('w, 'a) act"
  assumes "conv.does K m" and "KSent \<notin> K" and "KAsked \<notin> K"
  shows "triple m0 (sound m0 p) m (\<lambda>_. sound m0 p)"
  unfolding triple_def
proof (intro allI impI)
  fix st :: "'w run"
  assume P: "sound m0 p st"
  obtain r st' where m: "m st = (r, st')" by fastforce
  obtain t where t: "same_conversation st st'" "ru_trace st' = ru_trace st @ t" "kind ` set t \<subseteq> insert KEnd K"
    using convD[OF assms(1) m] by blast
  have "proper m0 a" if "a \<in> set t" for a
  proof -
    have "kind a \<in> insert KEnd K" using t(3) that by blast
    then show ?thesis using assms(2,3) by (intro proper_other) auto
  qed
  then show "(\<exists>t. ru_trace (snd (m st)) = ru_trace st @ t \<and> (\<forall>a \<in> set t. proper m0 a)) \<and>
      (\<forall>x st'. m st = (Some x, st') \<longrightarrow> sound m0 p st')"
    using t(1,2) m sound_same[OF t(1)] P by auto
qed

lemma triple_conv_seq:
  assumes "conv.does K m" and "KSent \<notin> K" and "KAsked \<notin> K"
    and "\<And>x. triple m0 (sound m0 p) (f x) Q"
  shows "triple m0 (sound m0 p) (abind m f) Q"
  by (rule triple_abind[OF triple_conv[OF assms(1-3)] assms(4)])

text \<open>A phase that keeps the conversation and sends what is proper.\<close>

lemma triple_guarded:
  fixes m :: "('w, 'a) act"
  assumes "conv.does K m" and "guarded (\<lambda>_. proper m0) [] m"
  shows "triple m0 (sound m0 p) m (\<lambda>_. sound m0 p)"
  unfolding triple_def
proof (intro allI impI)
  fix st :: "'w run"
  assume P: "sound m0 p st"
  obtain r st' where m: "m st = (r, st')" by fastforce
  obtain t where t: "ru_trace st' = ru_trace st @ t" "judged (\<lambda>_. proper m0) [] t"
    by (rule guardedD[OF assms(2) m])
  have "\<forall>a \<in> set t. proper m0 a"
    using t(2) unfolding judged_def by (metis in_set_conv_decomp)
  then show "(\<exists>t. ru_trace (snd (m st)) = ru_trace st @ t \<and> (\<forall>a \<in> set t. proper m0 a)) \<and>
      (\<forall>x st'. m st = (Some x, st') \<longrightarrow> sound m0 p st')"
    using t(1) m sound_same[OF conjunct1[OF convD[OF assms(1) m]], of m0 p] P by auto
qed

section \<open>Requests\<close>

abbreviation unasked :: "action_kind set" where
  "unasked \<equiv> all_kinds - {KSent, KAsked}"

lemma guarded_unasked: "any.does unasked m \<Longrightarrow> guarded (\<lambda>_. proper m0) q m"
  by (rule guarded_does) (auto intro: proper_other)

lemma guarded_unasked_seq:
  "any.does unasked m \<Longrightarrow> (\<And>q x. guarded (\<lambda>_. proper m0) q (f x)) \<Longrightarrow> guarded (\<lambda>_. proper m0) q (abind m f)"
  by (rule guarded_abind[OF guarded_unasked leaves_true]) (auto elim: any.does_mono)

lemma proper_ends [intro]:
  "guarded (\<lambda>_. proper m0) q (give x)" "guarded (\<lambda>_. proper m0) q (fail_with e m)"
  by (auto intro!: guarded_unasked)

lemma guarded_proper_send:
  assumes "request_ok m0 req"
  shows "guarded (\<lambda>_. proper m0) q (send_request c req)"
  unfolding send_request_def
  by (rule guarded_abind[OF guarded_log leaves_log[of "\<lambda>_ _. True"]])
    (use assms in \<open>auto simp: proper_def intro!: guarded_unasked any.does_small any.does_read_items split: sum.splits\<close>)

lemma guarded_proper_try:
  assumes "request_ok m0 req"
  shows "guarded (\<lambda>_. proper m0) q (try_request c req recovered attempts n)"
proof (induction attempts n arbitrary: q rule: attempts_induct)
  case (1 attempts n)
  have again: "guarded (\<lambda>_. proper m0) q (abind (wait_to_retry c attempts n message retry r) (\<lambda>_.
      try_request c req recovered (attempts + 1) (n + 1)))"
    if "n \<le> MAX_PROVIDER_RETRIES" for message retry r q
    by (rule guarded_unasked_seq[OF any.does_wait_to_retry]) (use 1[OF that] in auto)
  have over: "guarded (\<lambda>_. proper m0) q (on_overflow c req recovered attempts error r)" for q error r
    by (rule guarded_unasked, rule any.does_on_overflow) simp
  show ?case
    by (subst try_request.simps, rule guarded_abind[OF guarded_proper_send[OF assms]
          leaves_true[OF any.does_send_request]])
      (auto intro!: over again[simplified] split: option.splits)
qed

lemma triple_try:
  assumes "request_ok m0 req"
  shows "triple m0 (sound m0 p) (try_request c req recovered attempts n) (\<lambda>_. sound m0 p)"
  by (rule triple_guarded[OF conv.does_try_request[of all_kinds] guarded_proper_try[OF assms]]) simp

lemma sound_request: "sound m0 [] st \<Longrightarrow> request_ok m0 (ru_messages st)"
  by (auto simp: sound_def request_ok_def anchored_def)

text \<open>Compaction keeps a conversation sound.\<close>

lemma anchored_compaction:
  assumes "compact_context e w force may ms anchor = (ms', anchor', r)" and "coherent ms"
    and "anchored m0 ms anchor"
  shows "anchored m0 ms' anchor'"
  unfolding anchored_def
proof (intro allI impI)
  fix m
  assume h: "m0 = Some m"
  then obtain a where a: "mg_role m = ''user''" "anchor = Some a" "a < length ms" "ms ! a = m"
    using assms(3) by (auto simp: anchored_def)
  then show "mg_role m = ''user'' \<and> (\<exists>a. anchor' = Some a \<and> a < length ms' \<and> ms' ! a = m)"
    using compaction_keeps[OF assms(2), of a] assms(1) by auto
qed

lemma sound_compaction:
  assumes "sound m0 p st" and "compact_context e w force may (ru_messages st) (ru_anchor st) = (ms, anchor, r)"
  shows "sound m0 p (st\<lparr>ru_messages := ms, ru_anchor := anchor\<rparr>)"
  using assms settled_compaction[OF assms(2)] anchored_compaction[OF assms(2)]
  by (auto simp: sound_def open_calls_def)

lemma triple_compact: "triple m0 (sound m0 p) (compact_phase c step forced) (\<lambda>_. sound m0 p)"
proof -
  let ?rest = "\<lambda>compaction anchor. case compaction of
           None \<Rightarrow> give False
         | Some co \<Rightarrow>
             abind (case co_usage co of
                      None \<Rightarrow> give ()
                    | Some u \<Rightarrow> abind (bill c u) (\<lambda>_. count_usage c u)) (\<lambda>_.
             abind (commit c (CommitCompaction step co anchor)) (\<lambda>_.
             abind (yield (ContextCompacted co)) (\<lambda>_.
             give (0 < co_elided co \<or> 0 < co_summarized co))))"
  have rest: "triple m0 (sound m0 p) (?rest compaction anchor) (\<lambda>_. sound m0 p)" for compaction anchor
    by (rule triple_conv[of "{KOther, KCommit}"]) (auto intro!: conv.does_small split: option.splits)
  have set: "triple m0 (\<lambda>st. sound m0 p (st\<lparr>ru_messages := ms, ru_anchor := anchor\<rparr>))
      (change (\<lambda>st. st\<lparr>ru_messages := ms, ru_anchor := anchor\<rparr>)) (\<lambda>_. sound m0 p)" for ms anchor
    by (rule triple_weaken[OF triple_change[where Q = "\<lambda>_. sound m0 p"]]) simp_all
  show ?thesis
    unfolding compact_phase_def
  proof (rule triple_conv_seq[OF conv.does_reason_now[of "{}"]], simp, simp,
      rule triple_conv_seq[OF conv.does_outside[of "{}"]], simp, simp)
    fix reason :: "str option" and e
    show "triple m0 (sound m0 p) (abind (look (\<lambda>st. compact_context (e\<lparr>tools_chars := re_tools_chars c\<rparr>) (ru_window st) forced
                         (reason = None) (ru_messages st) (ru_anchor st))) (\<lambda>r.
       case r of (msgs, anchor, compaction) \<Rightarrow>
         abind (change (\<lambda>st. st\<lparr>ru_messages := msgs, ru_anchor := anchor\<rparr>)) (\<lambda>_. ?rest compaction anchor)))
       (\<lambda>_. sound m0 p)"
    proof (rule triple_abind[OF triple_look])
      fix x :: "chat_message list \<times> nat option \<times> compacted option"
      obtain ms anchor r where x: "x = (ms, anchor, r)" by (rule prod_cases3)
      show "triple m0 (\<lambda>st. sound m0 p st \<and> x = compact_context (e\<lparr>tools_chars := re_tools_chars c\<rparr>) (ru_window st) forced
                         (reason = None) (ru_messages st) (ru_anchor st)) (case x of (msgs, anchor, compaction) \<Rightarrow>
         abind (change (\<lambda>st. st\<lparr>ru_messages := msgs, ru_anchor := anchor\<rparr>)) (\<lambda>_. ?rest compaction anchor))
         (\<lambda>_. sound m0 p)"
        unfolding x prod.case
        by (rule triple_abind[OF triple_weaken[OF set] rest]) (auto intro: sound_compaction[OF _ sym])
    qed
  qed
qed

lemma triple_never: "(\<And>st x st'. m st \<noteq> (Some x, st')) \<Longrightarrow> any.does unasked m \<Longrightarrow> triple m0 P m Q"
  unfolding triple_def
proof (intro allI impI)
  fix st
  assume never: "\<And>st x st'. m st \<noteq> (Some x, st')" and m: "any.does unasked m"
  obtain r st' where ms: "m st = (r, st')" by fastforce
  obtain t where t: "ru_trace st' = ru_trace st @ t" "part unasked (r = None) t" by (rule doesD[OF m ms])
  have "proper m0 a" if "a \<in> set t" for a
    using part_kinds[OF t(2)] that by (intro proper_other) auto
  then show "(\<exists>t. ru_trace (snd (m st)) = ru_trace st @ t \<and> (\<forall>a \<in> set t. proper m0 a)) \<and>
      (\<forall>x st'. m st = (Some x, st') \<longrightarrow> Q x st')"
    using t(1) ms never by auto
qed

lemmas triple_ends = triple_never[OF never_Some(1) any.does_fail] triple_never[OF never_Some(2) any.does_failed]
  triple_never[OF never_Some(3) any.does_limited] triple_never[OF never_Some(4) any.does_finish]

lemma triple_round:
  "triple m0 (sound m0 []) (request_round c step overflow attempts) (\<lambda>_. sound m0 [])"
proof -
  have tried: "triple m0 (\<lambda>st. sound m0 [] st \<and> req = ru_messages st)
      (abind (reason_now c) (\<lambda>reason. case reason of
           Some reason \<Rightarrow> limited reason
         | None \<Rightarrow>
             abind (commit c (CommitRequest step req)) (\<lambda>_.
             abind (try_request c req (overflow \<noteq> None) (attempts + 1) 1) (\<lambda>r.
             give (r, estimate_tokens req (re_tools_chars c)))))) (\<lambda>_. sound m0 [])" for req
  proof (cases "request_ok m0 req")
    case True
    have "triple m0 (sound m0 []) (abind (reason_now c) (\<lambda>reason. case reason of
           Some reason \<Rightarrow> limited reason
         | None \<Rightarrow>
             abind (commit c (CommitRequest step req)) (\<lambda>_.
             abind (try_request c req (overflow \<noteq> None) (attempts + 1) 1) (\<lambda>r.
             give (r, estimate_tokens req (re_tools_chars c)))))) (\<lambda>_. sound m0 [])"
      by (rule triple_conv_seq[OF conv.does_reason_now[of "{}"]])
        (auto intro!: triple_ends triple_conv_seq[OF conv.does_commit[of "{KCommit}"]]
          triple_abind[OF triple_try[OF True]] split: option.splits)
    then show ?thesis by (rule triple_weaken) simp_all
  next
    case False
    then have "\<not> (sound m0 [] st \<and> req = ru_messages st)" for st using sound_request by metis
    then show ?thesis unfolding triple_def by blast
  qed
  show ?thesis
    unfolding request_round_def
  proof (rule triple_abind[OF triple_compact])
    fix shrank
    show "triple m0 (sound m0 []) (case (if shrank then None else overflow) of
       Some error \<Rightarrow>
         fail_with error (''The conversation no longer fits this model's context window and there is no older context left to compact: '' @ error)
     | None \<Rightarrow>
         abind (look ru_messages) (\<lambda>req.
         abind (reason_now c) (\<lambda>reason.
         case reason of
           Some reason \<Rightarrow> limited reason
         | None \<Rightarrow>
             abind (commit c (CommitRequest step req)) (\<lambda>_.
             abind (try_request c req (overflow \<noteq> None) (attempts + 1) 1) (\<lambda>r.
             give (r, estimate_tokens req (re_tools_chars c))))))) (\<lambda>_. sound m0 [])"
      by (cases "if shrank then None else overflow")
        (simp_all only: option.case triple_ends triple_abind[OF triple_look tried])
  qed
qed

lemma triple_request: "triple m0 (sound m0 []) (request_loop c step) (\<lambda>_. sound m0 [])"
proof -
  have stop: "triple m0 P return Q" for P and Q :: "response \<times> nat \<Rightarrow> 'a run \<Rightarrow> bool"
    by (simp add: triple_def return_def)
  have second: "triple m0 (sound m0 []) (abind (request_round c step (Some error) attempts) (\<lambda>((r, _), est).
      case r of Finished resp \<Rightarrow> give (resp, est) | Overflowed _ \<Rightarrow> return)) (\<lambda>_. sound m0 [])" for error attempts
    by (rule triple_abind[OF triple_round]) (auto intro: stop split: attempt_end.splits)
  show ?thesis
    unfolding request_loop_def
    by (rule triple_abind[OF triple_round]) (auto intro!: second split: attempt_end.splits)
qed

text \<open>The request of the wrap-up is the conversation with one more message of the user.\<close>

lemma request_wrap_up: "sound m0 [] st \<Longrightarrow> request_ok m0 (wrap_up_request (ru_messages st) reason)"
  using sound_request[of m0 st] settled_remarks[of "ru_messages st" "[text_message ''user'' (reason @ '' '' @ WRAP_UP_NOTE)]"]
  by (auto simp: wrap_up_request_def request_ok_def remark_text)

lemma triple_report: "triple m0 P (report_run c reason iteration committed reply) Q"
proof (rule triple_never)
  show "report_run c reason iteration committed reply st \<noteq> (Some x, st')" for st x st'
    by (auto simp: report_run_def split: sum.splits option.splits)
  show "any.does unasked (report_run c reason iteration committed reply)"
    by (auto simp: report_run_def intro!: any.does_small split: sum.splits option.splits)
qed

lemma triple_ask:
  assumes "request_ok m0 req"
  shows "triple m0 (sound m0 p) (ask_service c req) (\<lambda>_. sound m0 p)"
proof (rule triple_guarded)
  show "conv.does all_kinds (ask_service c req)"
    by (auto simp: ask_service_def intro!: conv.does_small)
  show "guarded (\<lambda>_. proper m0) [] (ask_service c req)"
    unfolding ask_service_def
    by (rule guarded_abind[OF guarded_log leaves_log[of "\<lambda>_ _. True"]])
      (use assms in \<open>auto simp: proper_def intro!: guarded_unasked any.does_small\<close>)
qed

lemma triple_wrap_up: "triple m0 (sound m0 []) (wrap_up c reason) Q"
proof -
  have ask: "triple m0 (\<lambda>st. sound m0 [] st \<and> req = wrap_up_request (ru_messages st) reason)
      (abind (try_commit c (CommitRequest (iteration + 1) req)) (\<lambda>committed.
        abind (ask_service c req) (\<lambda>answer. report_run c reason iteration committed answer))) Q" for req iteration
  proof (cases "request_ok m0 req")
    case True
    have "triple m0 (sound m0 []) (abind (try_commit c (CommitRequest (iteration + 1) req)) (\<lambda>committed.
        abind (ask_service c req) (\<lambda>answer. report_run c reason iteration committed answer))) Q"
      by (intro triple_conv_seq[OF conv.does_try_commit[of "{KCommit}"]] triple_abind[OF triple_ask[OF True] triple_report])
        simp_all
    then show ?thesis by (rule triple_weaken) simp_all
  next
    case False
    then have "\<not> (sound m0 [] st \<and> req = wrap_up_request (ru_messages st) reason)" for st
      using request_wrap_up by metis
    then show ?thesis unfolding triple_def by blast
  qed
  have "triple m0 (sound m0 []) (abind (look ru_iteration) (\<lambda>iteration.
        abind (look (\<lambda>st. wrap_up_request (ru_messages st) reason)) (\<lambda>req.
        abind (try_commit c (CommitRequest (iteration + 1) req)) (\<lambda>committed.
        abind (ask_service c req) (\<lambda>answer. report_run c reason iteration committed answer))))) Q"
    by (intro triple_conv_seq[OF conv.does_look[of "{}"]] triple_abind[OF triple_look] ask) simp_all
  then show ?thesis
    unfolding wrap_up_def by (auto intro: triple_ends)
qed

section \<open>The conversation of a step\<close>

lemma triple_push:
  assumes "\<And>st. P st \<Longrightarrow> Q () (st\<lparr>ru_messages := ru_messages st @ [m]\<rparr>)"
  shows "triple m0 P (push_message m) Q"
  unfolding push_message_def
  by (rule triple_weaken[OF triple_change[where Q = Q]]) (use assms in auto)

lemma sound_append:
  assumes "sound m0 p st" and "coherent_from p ns" and "pending_after p ns = q"
  shows "sound m0 q (st\<lparr>ru_messages := ru_messages st @ ns\<rparr>)"
  using assms open_append[of p "ru_messages st" ns]
  by (auto simp: sound_def anchored_def nth_append)

lemma triple_push_remark: "remark m \<Longrightarrow> triple m0 (sound m0 []) (push_message m) (\<lambda>_. sound m0 [])"
  by (rule triple_push, rule sound_append)
    (auto simp: remark_def is_turn_def is_tool_def)

lemma triple_push_text:
  "triple m0 (sound m0 []) (push_message (assistant_message t None r)) (\<lambda>_. sound m0 [])"
  by (rule triple_push, rule sound_append)
    (auto simp: assistant_message_def is_turn_def call_ids_def calls_of_def map_filter_def)

lemma triple_push_calls:
  "triple m0 (sound m0 []) (push_message (assistant_message t (Some calls) r))
     (\<lambda>_. sound m0 (List.map_filter tc_id calls))"
  by (rule triple_push, rule sound_append)
    (auto simp: assistant_message_def is_turn_def call_ids_def calls_of_def)

lemma triple_push_answer: "triple m0 (sound m0 (i # p)) (push_message (tool_message content (Some i))) (\<lambda>_. sound m0 p)"
  by (rule triple_push, rule sound_append)
    (auto simp: tool_message_def text_message_def is_turn_def is_tool_def)

lemma triple_push_note: "remark m \<Longrightarrow> triple m0 (sound m0 p) (push_note m) (\<lambda>_. sound m0 p)"
  unfolding push_note_def
  by (rule triple_weaken[OF triple_change[where Q = "\<lambda>_. sound m0 p"]]) (auto simp: sound_def)

lemma triple_notes: "triple m0 (sound m0 []) append_notes (\<lambda>_. sound m0 [])"
  unfolding append_notes_def
proof (rule triple_weaken[OF triple_change[where Q = "\<lambda>_. sound m0 []"]])
  fix st
  assume st: "sound m0 [] st"
  then have "settled (ru_messages st @ ru_notes st)" by (intro settled_remarks) (auto simp: sound_def)
  then show "sound m0 [] (st\<lparr>ru_messages := ru_messages st @ ru_notes st, ru_notes := []\<rparr>)"
    using st by (auto simp: sound_def anchored_def nth_append)
qed simp_all

text \<open>What the hook hands over is settled, and holds the user's request where the anchor points. \<open>J\<close> is
  what the state in which it is called is known to satisfy.\<close>

definition hands_over :: "'w run_env \<Rightarrow> chat_message option \<Rightarrow> ('w run \<Rightarrow> bool) \<Rightarrow> bool" where
  "hands_over c m0 J \<longleftrightarrow> (\<forall>st ms w. J st \<longrightarrow> re_hooked c \<longrightarrow> sound m0 [] st \<longrightarrow>
     prepare c (ru_iteration st + 1) (ru_messages st) (ru_world st) = (Inr ms, w) \<longrightarrow>
     settled ms \<and> anchored m0 ms (ru_anchor st))"

lemma triple_prepare_step:
  assumes "hands_over c m0 J"
  shows "triple m0 (\<lambda>st. sound m0 [] st \<and> J st \<and> step = ru_iteration st + 1) (prepare_step c step) (\<lambda>_. sound m0 [])"
proof (cases "re_hooked c")
  case True
  have set: "triple m0 (\<lambda>st. sound m0 [] (st\<lparr>ru_messages := ms\<rparr>)) (change (\<lambda>st. st\<lparr>ru_messages := ms\<rparr>)) (\<lambda>_. sound m0 [])" for ms
    by (rule triple_weaken[OF triple_change[where Q = "\<lambda>_. sound m0 []"]]) simp_all
  have hook: "triple m0 (\<lambda>st. (sound m0 [] st \<and> J st \<and> step = ru_iteration st + 1) \<and> msgs = ru_messages st)
      (outside (prepare c step msgs)) (\<lambda>r st. \<forall>ms. r = Inr ms \<longrightarrow> sound m0 [] (st\<lparr>ru_messages := ms\<rparr>))" for msgs
    using assms True by (auto simp: triple_def outside_def sound_def hands_over_def split: prod.splits)
  have use: "triple m0 (\<lambda>st. \<forall>ms. r = Inr ms \<longrightarrow> sound m0 [] (st\<lparr>ru_messages := ms\<rparr>))
      (case r of Inl error \<Rightarrow> failed_run error | Inr msgs \<Rightarrow> change (\<lambda>st. st\<lparr>ru_messages := msgs\<rparr>)) (\<lambda>_. sound m0 [])" for r
    by (cases r) (auto intro: triple_ends triple_weaken[OF set])
  show ?thesis
    unfolding prepare_step_def if_P[OF True]
    by (rule triple_abind[OF triple_look triple_abind[OF hook use]])
next
  case False
  then show ?thesis by (auto simp: prepare_step_def)
qed

section \<open>The results of a step\<close>

lemma triple_answer_call:
  assumes "tc_id call = Some i" and "tidy ex"
  shows "triple m0 (sound m0 (i # p)) (answer_call c step call ex content awaiting) (\<lambda>_. sound m0 p)"
proof -
  have push: "triple m0 (sound m0 (i # p)) (abind (push_message (tool_message content (tc_id call))) (\<lambda>_. give awaiting))
      (\<lambda>_. sound m0 p)" for content awaiting
    unfolding assms(1) by (rule triple_abind[OF triple_push_answer]) auto
  show ?thesis
    unfolding answer_call_def Let_def
    by (intro triple_conv_seq[OF conv.does_after_call[of "{KOther}"]] triple_conv_seq[OF conv.does_note_repeat[of "{}"]]
        triple_conv_seq[OF conv.does_commit[of "{KCommit}"]] triple_conv_seq[OF conv.does_yield[of _ "{KResult}"]]
        triple_conv_seq[OF conv.does_yield_some[of _ "{KOther}"]]
        triple_conv_seq[OF conv.does_worker_event[of _ "{KOther}"]]
        triple_conv_seq[OF conv.does_first_decision[of "{KOther}"]] push)
      (use assms(2) in \<open>auto simp: tidy_def\<close>)
qed

lemma triple_answer_calls:
  assumes "\<forall>x \<in> set xs. tidy (snd (fst x)) \<and> tc_id (fst (fst x)) \<noteq> None"
  shows "triple m0 (sound m0 (List.map_filter (\<lambda>x. tc_id (fst (fst x))) xs)) (answer_calls c step xs awaiting)
    (\<lambda>_. sound m0 [])"
  using assms
proof (induction c step xs awaiting rule: answer_calls.induct)
  case (2 c step call ex content rest awaiting)
  then obtain i where i: "tc_id call = Some i" by auto
  have "triple m0 (sound m0 (i # List.map_filter (\<lambda>x. tc_id (fst (fst x))) rest))
      (answer_calls c step (((call, ex), content) # rest) awaiting) (\<lambda>_. sound m0 [])"
    unfolding answer_calls.simps
    by (rule triple_abind[OF triple_answer_call[OF i]]) (use 2 in auto)
  then show ?case using i by (simp add: map_filter_simps)
qed (auto simp: map_filter_simps)

lemma remark_images: "\<forall>m \<in> set (result_images xs). remark m"
  by (auto simp: result_images_def map_filter_def image_user_message_def remark_def)

lemma triple_each_remark: "\<forall>m \<in> set ms. remark m \<Longrightarrow> triple m0 (sound m0 []) (each push_message ms) (\<lambda>_. sound m0 [])"
  by (induction ms) (auto intro!: triple_abind[OF triple_push_remark])

lemma triple_results:
  assumes "\<forall>x \<in> set xs. tidy (snd x) \<and> tc_id (fst x) \<noteq> None"
  shows "triple m0 (sound m0 (List.map_filter tc_id (map fst xs))) (answer_results c step recover_length xs) (\<lambda>_. sound m0 [])"
proof -
  have ids: "List.map_filter (\<lambda>x. tc_id (fst (fst x))) (zip xs (model_tool_contents env (map f xs) sc)) =
      List.map_filter tc_id (map fst xs)" for env f sc
  proof -
    have names: "map (\<lambda>x. tc_id (fst (fst x))) (zip xs (model_tool_contents env (map f xs) sc)) = map (\<lambda>x. tc_id (fst x)) xs"
      by (rule map_zip_contents)
    have flat: "List.map_filter g ys = map the (filter (\<lambda>v. v \<noteq> None) (map g ys))" for g :: "'c \<Rightarrow> 'd option" and ys
      by (induction ys) (auto simp: map_filter_simps)
    have "map tc_id (map fst xs) = map (\<lambda>x. tc_id (fst x)) xs" by simp
    then show ?thesis unfolding flat names by (simp add: comp_def)
  qed
  have answers: "triple m0 (sound m0 (List.map_filter tc_id (map fst xs)))
      (answer_calls c step (zip xs (model_tool_contents env (map f xs) sc)) False) (\<lambda>_. sound m0 [])" for env f sc
  proof -
    have "tidy (snd (fst x)) \<and> tc_id (fst (fst x)) \<noteq> None" if x: "x \<in> set (zip xs ts)" for x and ts :: "str list"
    proof -
      have "fst x \<in> set xs" using x set_zip_leftD[of "fst x" "snd x" xs ts] by simp
      then show ?thesis using assms by blast
    qed
    then show ?thesis
      using triple_answer_calls[of "zip xs (model_tool_contents env (map f xs) sc)" m0 c step False]
      by (simp only: ids) blast
  qed
  have tail: "triple m0 (sound m0 []) (abind (each push_message (result_images xs)) (\<lambda>_.
     if awaiting then abind (look ru_iteration) (\<lambda>n. finish_run n False)
     else if recover_length then push_note (text_message ''user'' LENGTH_RECOVERY_NOTE)
     else give ())) (\<lambda>_. sound m0 [])" for awaiting
    by (rule triple_abind[OF triple_each_remark[OF remark_images]])
      (auto intro!: triple_push_note remark_text triple_conv_seq[OF conv.does_look[of "{}"]] triple_ends)
  show ?thesis
    unfolding answer_results_def Let_def
    by (rule triple_conv_seq[OF conv.does_outside[of "{}"]], simp, simp, rule triple_abind[OF answers tail])
qed

lemma triple_gives:
  assumes "triple m0 P m (\<lambda>_. Q)" and "gives G m" and "\<And>x. G x \<Longrightarrow> triple m0 Q (f x) R"
  shows "triple m0 P (abind m f) R"
proof -
  have "triple m0 P m (\<lambda>x st. G x \<and> Q st)"
    using assms(1,2) unfolding triple_def gives_def by blast
  then show ?thesis
  proof (rule triple_abind)
    fix x
    show "triple m0 (\<lambda>st. G x \<and> Q st) (f x) R"
      using assms(3)[of x] by (cases "G x") (auto simp: triple_def)
  qed
qed

lemma gives_leaves: "leaves (\<lambda>x _. Q x) m \<Longrightarrow> gives Q m"
  unfolding leaves_def gives_def by blast

lemma triple_call_phase:
  assumes "\<forall>x \<in> set calls. tc_id x \<noteq> None"
  shows "triple m0 (sound m0 (List.map_filter tc_id calls)) (call_phase c step calls truncated recover_length) (\<lambda>_. sound m0 [])"
  unfolding call_phase_def
proof (rule triple_gives[OF triple_conv gives_leaves])
  let ?f = "resolve_proxy_call c"
  show "conv.does {KOther, KHook, KAsk, KCall} (collect (\<lambda>call. prepare_call c truncated (?f call)) calls)"
    by (auto intro!: conv.does_collect conv.does_prepare_call)
  show "leaves (\<lambda>ps _. map (\<lambda>y. pc_call (fst y)) ps = map ?f calls) (collect (\<lambda>call. prepare_call c truncated (?f call)) calls)"
    by (rule leaves_mono[OF leaves_announce]) simp
  fix ps :: "(prepared_call \<times> str option) list"
  assume ps: "map (\<lambda>y. pc_call (fst y)) ps = map ?f calls"
  show "triple m0 (sound m0 (List.map_filter tc_id calls)) (abind (await_approvals c ps) (\<lambda>ps.
      abind (collect (run_call c) ps) (\<lambda>xs. answer_results c step recover_length xs))) (\<lambda>_. sound m0 [])"
  proof (rule triple_gives[OF triple_conv gives_leaves[OF leaves_await_names]])
    show "conv.does {KAnswer} (await_approvals c ps)" by (rule conv.does_await_approvals) simp
    fix ps' :: "prepared_call list"
    assume ps': "map pc_call ps' = map (\<lambda>y. pc_call (fst y)) ps"
    show "triple m0 (sound m0 (List.map_filter tc_id calls))
      (abind (collect (run_call c) ps') (\<lambda>xs. answer_results c step recover_length xs)) (\<lambda>_. sound m0 [])"
    proof (rule triple_gives[OF triple_conv gives_run_calls])
      show "conv.does {KExecuted} (collect (run_call c) ps')"
        by (rule conv.does_collect, rule conv.does_run_call) simp
      fix xs :: "(tool_call \<times> executed) list"
      assume "map fst xs = map pc_call ps' \<and> (\<forall>x \<in> set xs. tidy (snd x))"
      then have xs: "map fst xs = map ?f calls" "\<forall>x \<in> set xs. tidy (snd x)" using ps ps' by simp_all
      have same: "tc_id (?f x) = tc_id x" for x by (simp add: resolve_proxy_call_def split: option.splits)
      then have "List.map_filter tc_id (map fst xs) = List.map_filter tc_id calls"
        unfolding xs(1) by (induction calls) (simp_all add: map_filter_simps split: option.split)
      moreover have "\<forall>x \<in> set xs. tc_id (fst x) \<noteq> None"
      proof
        fix x assume "x \<in> set xs"
        then have "fst x \<in> set (map ?f calls)" using xs(1) by (metis image_eqI list.set_map)
        then show "tc_id (fst x) \<noteq> None" using assms same by auto
      qed
      ultimately show "triple m0 (sound m0 (List.map_filter tc_id calls)) (answer_results c step recover_length xs) (\<lambda>_. sound m0 [])"
        using triple_results[of xs m0 c step recover_length] xs(2) by auto
    qed simp_all
  qed simp_all
qed simp_all

section \<open>Whole runs\<close>

lemma triple_same:
  assumes "\<And>st. sound m0 p st \<Longrightarrow> sound m0 p (f st)" and "\<And>st. ru_trace (f st) = ru_trace st"
  shows "triple m0 (sound m0 p) (change f) (\<lambda>_. sound m0 p)"
  by (rule triple_weaken[OF triple_change[where Q = "\<lambda>_. sound m0 p"]]) (use assms in auto)

lemma triple_with_calls:
  assumes "\<forall>x \<in> set calls. tc_id x \<noteq> None"
  shows "triple m0 (sound m0 []) (with_calls c step r calls truncated) (\<lambda>_. sound m0 [])"
proof -
  have reason: "conv.does {} (limit_reason c)"
    by (auto simp: limit_reason_def intro!: conv.does_small)
  have count: "triple m0 (sound m0 []) (count_recovery u) (\<lambda>_. sound m0 [])" for u
    unfolding count_recovery_def
    by (rule triple_conv_seq[OF conv.does_look[of "{}"]], simp_all)
      (auto intro!: triple_abind[OF triple_same] simp: sound_def)
  show ?thesis
    unfolding with_calls_def
    by (rule triple_conv_seq[OF reason])
      (auto intro!: triple_wrap_up triple_abind[OF count triple_abind[OF triple_push_calls triple_call_phase[OF assms]]]
        split: option.splits)
qed

lemma remark_feedback: "remark (stop_feedback_message feedback)"
  unfolding stop_feedback_message_def by (rule remark_text)

lemma triple_no_calls: "triple m0 (sound m0 []) (no_calls c r truncated) (\<lambda>_. sound m0 [])"
proof -
  have keep: "triple m0 (sound m0 []) (keep_text r) (\<lambda>_. sound m0 [])"
    by (auto simp: keep_text_def intro!: triple_push_text)
  have recovery: "triple m0 (sound m0 []) (change (\<lambda>st. st\<lparr>ru_length_recoveries := ru_length_recoveries st + 1\<rparr>)) (\<lambda>_. sound m0 [])"
      "triple m0 (sound m0 []) (change (\<lambda>st. st\<lparr>ru_stops := ru_stops st + 1\<rparr>)) (\<lambda>_. sound m0 [])"
    by (rule triple_same; simp add: sound_def)+
  have answer: "triple m0 (sound m0 []) (answer_run r) (\<lambda>_. sound m0 [])"
    by (rule triple_never) (auto intro!: any.does_answer_run)
  have feedback: "triple m0 (sound m0 []) (case feedback of
             None \<Rightarrow> answer_run r
           | Some feedback \<Rightarrow>
               abind (change (\<lambda>st. st\<lparr>ru_stops := ru_stops st + 1\<rparr>)) (\<lambda>_.
               abind (keep_text r) (\<lambda>_.
               push_note (stop_feedback_message feedback)))) (\<lambda>_. sound m0 [])" for feedback
    using triple_abind[OF recovery(2) triple_abind[OF keep triple_push_note[OF remark_feedback]]]
    by (auto intro: answer split: option.splits)
  have ending: "triple m0 (sound m0 []) (if recovers then
           abind (change (\<lambda>st. st\<lparr>ru_length_recoveries := ru_length_recoveries st + 1\<rparr>)) (\<lambda>_.
           abind (keep_text r) (\<lambda>_.
           push_note (text_message ''user'' LENGTH_RECOVERY_NOTE)))
         else
           abind (stop_feedback c (rp_content r)) (\<lambda>feedback.
           case feedback of
             None \<Rightarrow> answer_run r
           | Some feedback \<Rightarrow>
               abind (change (\<lambda>st. st\<lparr>ru_stops := ru_stops st + 1\<rparr>)) (\<lambda>_.
               abind (keep_text r) (\<lambda>_.
               push_note (stop_feedback_message feedback))))) (\<lambda>_. sound m0 [])" for recovers
    using triple_abind[OF recovery(1) triple_abind[OF keep triple_push_note[OF remark_text(1)]]]
      triple_conv_seq[OF conv.does_stop_feedback[of "{KOther}"] _ _ feedback]
    by auto
  show ?thesis
    unfolding no_calls_def
  proof (rule triple_conv_seq[OF conv.does_reason_now[of "{}"]], simp, simp)
    fix reason
    show "triple m0 (sound m0 []) (case reason of
       Some reason \<Rightarrow> limited reason
     | None \<Rightarrow>
         abind (look (\<lambda>st. truncated \<and> ru_length_recoveries st < MAX_LENGTH_RECOVERIES \<and>
                           ru_iteration st < max_iterations c)) (\<lambda>recover.
         if recover then
           abind (change (\<lambda>st. st\<lparr>ru_length_recoveries := ru_length_recoveries st + 1\<rparr>)) (\<lambda>_.
           abind (keep_text r) (\<lambda>_.
           push_note (text_message ''user'' LENGTH_RECOVERY_NOTE)))
         else
           abind (stop_feedback c (rp_content r)) (\<lambda>feedback.
           case feedback of
             None \<Rightarrow> answer_run r
           | Some feedback \<Rightarrow>
               abind (change (\<lambda>st. st\<lparr>ru_stops := ru_stops st + 1\<rparr>)) (\<lambda>_.
               abind (keep_text r) (\<lambda>_.
               push_note (stop_feedback_message feedback)))))) (\<lambda>_. sound m0 [])"
      by (cases reason)
        (simp_all only: option.case triple_ends triple_conv_seq[OF conv.does_look[of "{}"] _ _ ending] empty_iff simp_thms)
  qed
qed

lemma triple_end_step: "triple m0 (sound m0 []) (end_step c step r) (\<lambda>_. sound m0 [])"
  by (auto simp: end_step_def Let_def intro!: triple_no_calls triple_with_calls dest: finish_calls_id)

lemma triple_step:
  assumes "hands_over c m0 J" and "\<And>st x st'. J st \<Longrightarrow> reason_now c st = (Some x, st') \<Longrightarrow> J st'"
  shows "triple m0 (\<lambda>st. sound m0 [] st \<and> J st) (agent_step c) (\<lambda>_. sound m0 [])"
proof -
  have count: "triple m0 (sound m0 []) count_iteration (\<lambda>_. sound m0 [])"
    unfolding count_iteration_def by (rule triple_same) (simp_all add: sound_def)
  have close: "triple m0 (sound m0 []) (close_request c step r est) (\<lambda>_. sound m0 [])" for step r est
    by (rule triple_conv[of "{KCompleted, KCommit}"])
      (auto simp: close_request_def intro!: conv.does_small conv.does_change conv.backstage_frames)
  have rest: "triple m0 (\<lambda>st. sound m0 [] st \<and> J st \<and> step = ru_iteration st + 1) (abind (prepare_step c step) (\<lambda>_.
         abind append_notes (\<lambda>_.
         abind (request_loop c step) (\<lambda>(r, est).
         abind count_iteration (\<lambda>_.
         abind (close_request c step r est) (\<lambda>_.
         end_step c step r)))))) (\<lambda>_. sound m0 [])" for step
    by (rule triple_abind[OF triple_prepare_step[OF assms(1)]], rule triple_abind[OF triple_notes],
        rule triple_abind[OF triple_request])
      (auto intro!: triple_abind[OF count triple_abind[OF close triple_end_step]])
  have reason: "triple m0 (\<lambda>st. (sound m0 [] st \<and> J st) \<and> step = ru_iteration st + 1) (reason_now c)
      (\<lambda>_ st. sound m0 [] st \<and> J st \<and> step = ru_iteration st + 1)" for step
    using triple_conv[OF conv.does_reason_now[of "{}" c], of m0 "[]"] assms(2) same_iterationD[OF it.does_reason_now[of UNIV c]]
    unfolding triple_def by fastforce
  have wrap: "triple m0 (\<lambda>st. sound m0 [] st \<and> J st \<and> step = ru_iteration st + 1) (wrap_up c r) (\<lambda>_. sound m0 [])" for r step
    by (rule triple_weaken[OF triple_wrap_up]) simp_all
  show ?thesis
    unfolding agent_step_def
    by (rule triple_abind[OF triple_look[of _ _ "\<lambda>st. ru_iteration st + 1"] triple_abind[OF reason]])
      (auto intro!: wrap[simplified] rest[simplified] split: option.splits)
qed

lemma triple_begin:
  "triple m0 (sound m0 p) (begin_run c) (\<lambda>_. sound m0 p)"
proof -
  have "remark m" if "context_message cs = Some m" for m cs
    using that by (auto simp: context_message_def Let_def remark_text split: if_splits)
  then show ?thesis
    unfolding begin_run_def
    by (intro triple_conv_seq[OF conv.does_commit[of "{KCommit}"]] triple_conv_seq[OF conv.does_yield[of _ "{KOther}"]])
      (auto intro!: triple_conv_seq[OF conv.does_look[of "{}"]] triple_conv_seq[OF conv.does_outside[of "{}"]]
        triple_conv_seq[OF conv.does_yield_hooks[of "{KOther}"]] triple_ends triple_push_note
        split: option.splits)
qed

lemma tripleD:
  assumes "triple m0 P m Q" and "P st" and "m st = (r, st')"
  shows "(\<forall>a \<in> set (ru_trace st). proper m0 a) \<longrightarrow> (\<forall>a \<in> set (ru_trace st'). proper m0 a)"
    and "r = Some x \<Longrightarrow> Q x st'"
  using assms unfolding triple_def by (metis UnE set_append snd_conv, metis)

lemma requests_proper:
  assumes "settled msgs" and "hands_over c m0 J"
    and "\<And>st x st'. J st \<Longrightarrow> reason_now c st = (Some x, st') \<Longrightarrow> J st'"
    and "\<And>st. begin_run c (new_run c msgs w) = (Some (), st) \<Longrightarrow> J st"
    and "\<And>st st'. J st \<Longrightarrow> agent_step c st = (Some (), st') \<Longrightarrow> J st'"
    and "m0 = None \<or> m0 = map_option (\<lambda>a. msgs ! a) (last_index (\<lambda>m. mg_role m = ''user'') msgs)"
  shows "\<forall>a \<in> set (ru_trace (agent_loop c msgs w)). proper m0 a"
proof -
  have new: "sound m0 [] (new_run c msgs w)"
    using assms(1,6) last_index_Some[of "\<lambda>m. mg_role m = ''user''" msgs]
    by (cases "last_index (\<lambda>m. mg_role m = ''user'') msgs") (auto simp: sound_def anchored_def)
  have step: "triple m0 (\<lambda>st. sound m0 [] st \<and> J st) (agent_step c) (\<lambda>_. sound m0 [])"
    by (rule triple_step[OF assms(2)]) (rule assms(3))
  show ?thesis
  proof (rule agent_loop_rule[where I = "\<lambda>st. (\<forall>a \<in> set (ru_trace st). proper m0 a) \<and> sound m0 [] st \<and> J st"])
    fix st' assume b: "begin_run c (new_run c msgs w) = (Some (), st')"
    show "(\<forall>a \<in> set (ru_trace st'). proper m0 a) \<and> sound m0 [] st' \<and> J st'"
      using tripleD[OF triple_begin new b] assms(4)[OF b] by simp
  next
    fix st' assume b: "begin_run c (new_run c msgs w) = (None, st')"
    show "\<forall>a \<in> set (ru_trace st'). proper m0 a"
      using tripleD(1)[OF triple_begin new b] by simp
  next
    fix st st' :: "'a run"
    assume I: "(\<forall>a \<in> set (ru_trace st). proper m0 a) \<and> sound m0 [] st \<and> J st" and s: "agent_step c st = (Some (), st')"
    show "(\<forall>a \<in> set (ru_trace st'). proper m0 a) \<and> sound m0 [] st' \<and> J st'"
      using tripleD[OF step _ s] I assms(5)[OF _ s] by auto
  next
    fix st st' :: "'a run"
    assume I: "(\<forall>a \<in> set (ru_trace st). proper m0 a) \<and> sound m0 [] st \<and> J st" and s: "agent_step c st = (None, st')"
    show "\<forall>a \<in> set (ru_trace st'). proper m0 a"
      using tripleD(1)[OF step _ s] I by auto
  qed
qed

text \<open>A hook that hands over settled conversations, whatever the state.\<close>

definition hook_settles :: "'w run_env \<Rightarrow> bool" where
  "hook_settles c \<longleftrightarrow> (\<forall>step ms w ms' w'. settled ms \<longrightarrow> prepare c step ms w = (Inr ms', w') \<longrightarrow> settled ms')"

lemma settled_requests_proper:
  assumes "settled msgs" and "hook_settles c"
    and "m0 = (if re_hooked c then None else map_option (\<lambda>a. msgs ! a) (last_index (\<lambda>m. mg_role m = ''user'') msgs))"
  shows "\<forall>a \<in> set (ru_trace (agent_loop c msgs w)). proper m0 a"
proof (rule requests_proper[OF assms(1), where J = "\<lambda>_. True"])
  show "hands_over c m0 (\<lambda>_. True)"
    using assms(2,3) unfolding hands_over_def hook_settles_def sound_def anchored_def by simp blast
qed (use assms(3) in auto)

end
