(* ===== verification/Agent_Example.thy ===== *)
theory Agent_Example
  imports Agent_Messages Provider_Properties
begin

text \<open>
  A run to apply the statements about runs to: the first response breaks off and is sent for again,
  the second asks for a call that must be approved, and whose result hands the user a decision.
\<close>

type_synonym script = "(str + stream_item list) list"

definition says :: "str \<Rightarrow> delta_call list \<Rightarrow> stream_item" where
  "says t calls = Delta \<lparr>de_content = Some t, de_reasoning = None, de_calls = calls, de_state = None\<rparr>"

definition demo_script :: script where
  "demo_script =
     [Inr [says ''on '' [], StreamError ''broken pipe''],
      Inr [says ''on it'' [\<lparr>dc_index = 0, dc_id = Some ''c1'', dc_name = Some ''write'', dc_arguments = Some ''{}''\<rparr>],
           StreamDone ''tool_calls'' no_usage]]"

definition write_call :: tool_call where
  "write_call = \<lparr>tc_id = Some ''c1'', tc_kind = ''function'', tc_name = ''write'', tc_arguments = ''{}''\<rparr>"

definition demo_repeat :: repeat_env where
  "demo_repeat = \<lparr>read_json = (\<lambda>_. Inr (JObj [])), show_json = (\<lambda>_. ''{}''), hash_of = length,
     effect_for_call = (\<lambda>_ _. Some Mutating)\<rparr>"

definition demo_outputs :: output_env where
  "demo_outputs = \<lparr>to_text = (\<lambda>_. ''{}''), save = None, uuids = (\<lambda>_. ''u'')\<rparr>"

definition demo_run :: "script run_env" where
  "demo_run =
     \<lparr>re_model = ''m'', re_max_iterations = 4, re_backoff = 0,
      re_limits = \<lparr>max_duration = None, max_cost = None, max_tokens = None\<rparr>, re_window = None,
      re_wrap_up = True, re_interactive = True, re_hooked = True, re_intercepted = False,
      re_has_tool = (\<lambda>_. True), re_tool_names = [''write''], re_schema = (\<lambda>_. None),
      re_proxy = (\<lambda>_ _. None), re_tools_chars = 0, re_repeat = demo_repeat, re_whole = (\<lambda>_. True),
      re_text = (\<lambda>_. ''{}''), re_scope = None, re_lossy = id, re_ui = (\<lambda>_. None), re_policy = (\<lambda>_. None),
      re_thread = (\<lambda>_. None), re_worker_run = (\<lambda>_. None), re_workers = (\<lambda>_. None),
      re_floats = no_floats, re_money = demo_money,
      clock = Pair 0, draw = Pair 0, sleep = (\<lambda>_. Pair ()),
      stream = (\<lambda>_ w. case w of [] \<Rightarrow> (Inl ''closed'', []) | x # xs \<Rightarrow> (x, xs)),
      services = Pair demo_compaction, hook = (\<lambda>_. Pair (Inr ())), prepare = (\<lambda>_ ms. Pair (Inr ms)),
      before_turn = (\<lambda>_. Pair ([], None, [])), before_tool = (\<lambda>_ _. Pair ([], Continue)),
      after_tool = (\<lambda>_ _ _. Pair ([], [])), on_stop = (\<lambda>_ _. Pair ([], None)),
      new_approval = Pair ''a1'', decide = (\<lambda>_. Pair (0, Some True)), outputs = Pair demo_outputs,
      call_for_agent = (\<lambda>_ _. Pair (Inr \<lparr>in_result = JObj [(''user_decision_notice'', JObj [])], in_model_text = None, in_ui = None,
        in_app_result = None\<rparr>))\<rparr>"

definition demo_messages :: "chat_message list" where
  "demo_messages = [text_message ''user'' ''write it'']"

definition demo_trace :: "action list" where
  "demo_trace = ru_trace (agent_loop demo_run demo_messages demo_script)"

section \<open>Evaluation\<close>

text \<open>The computations are unfolded only where a state is at hand.\<close>

lemma each_apply: "each f [] st = (Some (), st)" "each f (x # xs) st = abind (f x) (\<lambda>_. each f xs) st"
  by (simp_all add: give_def)

lemma collect_apply: "collect f [] st = (Some [], st)"
  "collect f (x # xs) st = abind (f x) (\<lambda>y. abind (collect f xs) (\<lambda>ys. give (y # ys))) st"
  by (simp_all add: give_def)

lemmas applied = fun_cong[OF wrap_up_def] fun_cong[OF compact_phase_def] fun_cong[OF request_round_def]
  fun_cong[OF request_loop_def] fun_cong[OF no_calls_def] fun_cong[OF with_calls_def] fun_cong[OF call_phase_def]
  fun_cong[OF answer_results_def] fun_cong[OF answer_call_def] fun_cong[OF agent_step_def]
  fun_cong[OF prepare_call_def] fun_cong[OF run_call_def] fun_cong[OF await_approvals_def]
  fun_cong[OF send_request_def] fun_cong[OF wait_to_retry_def] fun_cong[OF on_overflow_def]
  fun_cong[OF begin_run_def] fun_cong[OF close_request_def] fun_cong[OF end_step_def]
  fun_cong[OF prepare_step_def] fun_cong[OF reason_now_def] fun_cong[OF commit_def] fun_cong[OF try_commit_def]
  fun_cong[OF yield_def] fun_cong[OF ask_approval_def] fun_cong[OF intercept_call_def] fun_cong[OF bill_def]
  fun_cong[OF count_usage_def] fun_cong[OF count_iteration_def] fun_cong[OF append_notes_def]
  fun_cong[OF push_message_def] fun_cong[OF push_note_def] fun_cong[OF fail_with_def] fun_cong[OF limited_def]
  fun_cong[OF finish_run_def] fun_cong[OF limit_reason_def] fun_cong[OF count_recovery_def]
  fun_cong[OF resolve_approval_def] fun_cong[OF move_clock_def] fun_cong[OF after_call_def]
  fun_cong[OF note_repeat_def] fun_cong[OF yield_some_def] fun_cong[OF worker_event_def]
  fun_cong[OF first_decision_def] fun_cong[OF discard_def] fun_cong[OF bill_if_done_def]
  fun_cong[OF answer_run_def] fun_cong[OF stop_feedback_def] fun_cong[OF keep_text_def]
  abind_def outside_def change_def look_def give_def return_def log_action_def each_apply collect_apply

lemma demo_fields:
  "re_model demo_run = ''m''" "max_iterations demo_run = 4" "re_backoff demo_run = 0" "re_window demo_run = None"
  "re_limits demo_run = \<lparr>max_duration = None, max_cost = None, max_tokens = None\<rparr>"
  "re_wrap_up demo_run" "re_interactive demo_run" "re_hooked demo_run" "\<not> re_intercepted demo_run"
  "re_has_tool demo_run = (\<lambda>_. True)" "re_schema demo_run = (\<lambda>_. None)" "re_proxy demo_run = (\<lambda>_ _. None)"
  "re_tools_chars demo_run = 0" "re_repeat demo_run = demo_repeat" "re_scope demo_run = None"
  "re_ui demo_run = (\<lambda>_. None)" "re_policy demo_run = (\<lambda>_. None)" "re_floats demo_run = no_floats"
  "re_money demo_run = demo_money" "clock demo_run = Pair 0" "draw demo_run = Pair 0" "sleep demo_run = (\<lambda>_. Pair ())"
  "stream demo_run = (\<lambda>_ w. case w of [] \<Rightarrow> (Inl ''closed'', []) | x # xs \<Rightarrow> (x, xs))"
  "services demo_run = Pair demo_compaction" "hook demo_run = (\<lambda>_. Pair (Inr ()))"
  "prepare demo_run = (\<lambda>_ ms. Pair (Inr ms))" "new_approval demo_run = Pair ''a1''"
  "decide demo_run = (\<lambda>_. Pair (0, Some True))" "outputs demo_run = Pair demo_outputs"
  by (simp_all add: demo_run_def max_iterations_def)

lemma demo_no_limit: "budget_reason m now b = None" if "rb_limits b = re_limits demo_run"
  using that by (simp add: budget_reason_def reason_at_def demo_fields Let_def)

lemma demo_no_compaction: "compact_context e (new_window None) False may ms anchor = (ms, anchor, None)"
  by (simp add: compact_context_def over_def new_window_def Let_def)

lemma demo_finish: "\<not> context_overflow no_floats ''broken pipe''" "\<not> context_overflow_finish ''tool_calls''"
  "normalize_finish_reason ''tool_calls'' = ''tool_calls''"
proof -
  show "\<not> context_overflow no_floats ''broken pipe''" by (simp add: context_overflow_def broken_pipe_kind)
  show "\<not> context_overflow_finish ''tool_calls''" by code_simp
  show "normalize_finish_reason ''tool_calls'' = ''tool_calls''" by code_simp
qed

lemma no_delay: "backoff_delay bits 0 n None = 0"
  by (simp add: backoff_delay_def exponential_def Let_def millis_def saturating_mul_def)

lemma demo_clock:
  "rb_limits (record_usage m u b) = rb_limits b" "rb_limits (new_budget n l) = l"
  "rb_limits (pause_clock n b) = rb_limits b" "rb_limits (resume_clock n b) = rb_limits b"
  by (simp_all add: record_usage_def new_budget_def pause_clock_def resume_clock_def Let_def split: option.split)

lemma no_deadline: "rb_limits b = re_limits demo_run \<Longrightarrow> remaining_time now b = None"
  by (simp add: remaining_time_def demo_fields)

lemma demo_call:
  "finish_calls (push_call \<lparr>dc_index = 0, dc_id = Some ''c1'', dc_name = Some ''write'',
     dc_arguments = Some ''{}''\<rparr> []) = [write_call]"
  "tc_id write_call = Some ''c1''" "tc_name write_call = ''write''"
  by (simp_all add: finish_calls_def finish_call_def push_call_def extend_call_def extend_name_def empty_call_def
      write_call_def)

lemma demo_checks:
  "resolve_proxy_call demo_run call = call" "prior_denial demo_repeat new_tracker made_call = None"
  "prepare_tool_arguments demo_run ''write'' (tc_arguments write_call) truncated = Inr (JObj [])"
  "\<not> unparseable_call demo_run write_call" "call_effect demo_run call args = Mutating"
  "call_policy demo_run call = HostShellInherited"
  "observe demo_repeat (made write_call) (JObj []) new_tracker = (None, new_tracker)"
  by (simp_all add: resolve_proxy_call_def prior_denial_def new_tracker_def prepare_tool_arguments_def
      parse_tool_arguments_def write_call_def unparseable_call_def call_effect_def call_policy_def is_ok_def
      observe_def new_call_key_def made_def demo_repeat_def demo_run_def Let_def)

lemma demo_approval:
  "asked_approvals [(p, Some i)] = [(0, i)]"
  "await_decisions demo_run [(0, i)] [p] st =
     (Some [p\<lparr>pc_approved := True\<rparr>], st\<lparr>ru_trace := ru_trace st @
        [Yield (Event (ToolApprovalResolved i (tc_id (pc_call p)) True None))]\<rparr>)"
  by (simp_all add: asked_approvals_def List.map_filter_def await_decisions.simps applied demo_fields without_nth_def)

lemma demo_result:
  "call_for_agent demo_run n a w =
     (Inr \<lparr>in_result = JObj [(''user_decision_notice'', JObj [])], in_model_text = None, in_ui = None,
        in_app_result = None\<rparr>, w)"
  "executed_result demo_run n (Inr \<lparr>in_result = JObj [(''user_decision_notice'', JObj [])], in_model_text = None,
        in_ui = None, in_app_result = None\<rparr>) =
     \<lparr>ex_visible = JObj [], ex_model_text = None, ex_image = None, ex_ui = None, ex_app_result = None,
      ex_memory = None, ex_child = None, ex_worker = None, ex_decision = Some (JObj []), ex_attempted = True\<rparr>"
  by (simp_all add: executed_result_def split_tool_image_def split_user_decision_def limit_visible_tool_result_def
      Let_def demo_run_def memory_registered_event_def child_thread_event_def worker_run_event_def notice_of_def
      obj_remove_def MAX_VISIBLE_BYTES_def)

lemma demo_contents:
  "outputs demo_run = Pair demo_outputs" "model_tool_contents demo_outputs [(None, JObj [], i)] sc = [''{}'']"
  "ex_image ex = None \<Longrightarrow> result_images [(call, ex)] = []"
  by (simp_all add: demo_run_def model_tool_contents_def demo_outputs_def Let_def render_tool_value_def
      step_byte_caps_def replay_text_def truncate_head_tail_def STEP_REPLAY_MAX_BYTES_def TOOL_REPLAY_MAX_BYTES_def
      TOOL_REPLAY_MAX_LINES_def newlines_def result_images_def List.map_filter_def)

text \<open>The trace up to the execution of the call, and from there on.\<close>

definition demo_request :: "action list" where
  "demo_request =
     [Committed CommitCatalog True, Yield (Event (Start ''m'')),
      Committed (CommitRequest 1 demo_messages) True, Sent demo_messages, Yield (Event (Token ''on '')),
      Yield (Event (ProviderRetry 1 0 ''connection error'' 3 0))]"

definition demo_response :: "action list" where
  "demo_response = [Yield (Event (Token ''on it'')), Yield (Event (UsageDelta no_usage))]"

definition demo_approved :: "action list" where
  "demo_approved =
     [Committed (CommitResponse 1 ''on it'' [] [write_call] ''tool_calls'' no_usage None) True,
      Yield (Event (ToolCallEvent write_call None)),
      Yield (Event (ToolApprovalRequired ''a1'' write_call Mutating HostShellInherited)),
      Yield (Event (ToolApprovalResolved ''a1'' (Some ''c1'') True None))]"

definition demo_answer :: "action list" where
  "demo_answer =
     [Committed (CommitToolResult 1 (Some ''c1'') ''write'' (JObj []) ''{}'') True,
      Yield (Event (ToolResult (Some ''c1'') ''write'' (JObj []) None None)),
      Yield (Event (UserDecisionRequested (Some ''c1'') ''write'' (JObj []))),
      Yield (Event (Done 1 False (add_usage demo_money no_usage no_usage)))]"

lemmas demo_parts = demo_request_def demo_response_def demo_approved_def demo_answer_def

lemma demo_start:
  "begin_run demo_run (new_run demo_run demo_messages demo_script) =
     (Some (), (new_run demo_run demo_messages demo_script)
        \<lparr>ru_trace := [Committed CommitCatalog True, Yield (Event (Start ''m''))]\<rparr>)"
  by (simp add: applied demo_fields new_run_def)

lemma demo_step:
  assumes "rb_limits (ru_budget st) = re_limits demo_run" "ru_window st = new_window None" "ru_iteration st = 0"
    "ru_messages st = demo_messages" "ru_repeats st = new_tracker" "ru_notes st = []" "ru_usage st = no_usage"
    "ru_world st = demo_script" "ru_trace st = [Committed CommitCatalog True, Yield (Event (Start ''m''))]"
  shows "\<exists>st'. agent_step demo_run st = (None, st') \<and>
    ru_trace st' = demo_request @ Sent demo_messages # demo_response @ Completed 1 ''on it'' # demo_approved @
      Executed write_call (JObj []) # demo_answer"
  using assms
  by (simp add: try_request.simps applied demo_fields demo_script_def says_def broken_pipe_retried
      MAX_PROVIDER_RETRIES_def receive_def empty_response_def Let_def demo_finish no_delay demo_clock
      no_deadline demo_no_limit demo_no_compaction demo_call demo_checks demo_approval demo_result demo_contents
      demo_parts)

lemma demo_trace_eq:
  "demo_trace = demo_request @ Sent demo_messages # demo_response @ Completed 1 ''on it'' # demo_approved @
     Executed write_call (JObj []) # demo_answer"
proof -
  have fields: "rb_limits (ru_budget st) = re_limits demo_run" "ru_window st = new_window None"
    "ru_iteration st = 0" "ru_messages st = demo_messages" "ru_repeats st = new_tracker" "ru_notes st = []"
    "ru_usage st = no_usage" "ru_world st = demo_script"
    if "st = new_run demo_run demo_messages demo_script" for st
    using that by (simp_all add: new_run_def demo_fields new_budget_def)
  then obtain st' where st': "agent_step demo_run ((new_run demo_run demo_messages demo_script)
        \<lparr>ru_trace := [Committed CommitCatalog True, Yield (Event (Start ''m''))]\<rparr>) = (None, st')"
    "ru_trace st' = demo_request @ Sent demo_messages # demo_response @ Completed 1 ''on it'' # demo_approved @
      Executed write_call (JObj []) # demo_answer"
    using demo_step[of "(new_run demo_run demo_messages demo_script)
        \<lparr>ru_trace := [Committed CommitCatalog True, Yield (Event (Start ''m''))]\<rparr>"] by auto
  then show ?thesis by (simp add: demo_trace_def agent_loop_def demo_start run_loop.simps)
qed

end
