(* ===== verification/Agent_Properties.thy ===== *)
theory Agent_Properties
  imports Agent_Example
begin

text \<open>
  What a run of the agent loop keeps to, whatever its services answer: it ends within its bounds, sends
  only what was committed, runs only what was allowed, and shows and reports what happened.
\<close>

lemma demo_loop: "ru_trace (agent_loop demo_run demo_messages demo_script) =
   demo_request @ Sent demo_messages # demo_response @ Completed 1 ''on it'' # demo_approved @
     Executed write_call (JObj []) # demo_answer"
  using demo_trace_eq by (simp add: demo_trace_def)

text \<open>C6. A run ends: its trace closes with one terminal item (\<open>Done\<close>, \<open>Limited\<close> or \<open>LoopFailed\<close>) and
  has none before it. It completes no more model responses than \<open>max_iterations\<close>, and streams at most
  ten requests for each of them: the five attempts of a request, and again after one compaction forced
  by an overflow.\<close>

theorem run_ends_within_bounds:
  "\<exists>t a. ru_trace (agent_loop c msgs w) = t @ [a] \<and> kind a = KEnd \<and> KEnd \<notin> kind ` set t \<and>
     occurs KCompleted (ru_trace (agent_loop c msgs w)) \<le> max_iterations c \<and>
     occurs KSent (ru_trace (agent_loop c msgs w)) \<le> 2 * Suc MAX_PROVIDER_RETRIES * max_iterations c"
proof -
  obtain t a where "ru_trace (agent_loop c msgs w) = t @ [a]" "kind a = KEnd" "KEnd \<notin> kind ` set t"
    using agent_loop_part[of c msgs w] by (auto simp: part_def)
  moreover have "occurs KCompleted (ru_trace (agent_loop c msgs w)) \<le> max_iterations c"
    using agent_loop_occurs[OF adds_Completed_step] by fastforce
  moreover have "occurs KSent (ru_trace (agent_loop c msgs w)) \<le> 2 * Suc MAX_PROVIDER_RETRIES * max_iterations c"
    by (rule agent_loop_occurs[OF adds_Sent_step]) simp
  ultimately show ?thesis by blast
qed

text \<open>C2. In an interactive run a tool only runs when its call was allowed in the same step: its effect
  is \<open>ReadOnly\<close>, or the interceptor approved it, or an approval was asked for it and then granted.\<close>

theorem execution_allowed:
  assumes "re_interactive c" and "ru_trace (agent_loop c msgs w) = pre @ Executed call args # post"
  shows "call_effect c call args = ReadOnly \<or> HookApproved call \<in> set (since pre) \<or>
    (\<exists>i t u. since pre = t @ u \<and> asks i call t \<and> grants i call u)"
  using judgedD[OF executions_allowed[OF assms(1)] assms(2)] by (simp add: runs_allowed_def allowed_def)

lemma demo_since: "since (demo_request @ Sent demo_messages # demo_response @ Completed 1 ''on it'' # demo_approved) =
    demo_approved"
  using since_append[of demo_approved "demo_request @ Sent demo_messages # demo_response @ [Completed 1 ''on it'']"]
    since_Completed[of "demo_request @ Sent demo_messages # demo_response" 1 "''on it''"]
  by (simp add: demo_approved_def)

theorem execution_allowed_witness:
  "call_effect demo_run write_call (JObj []) = Mutating \<and>
     (\<exists>i t u. demo_approved = t @ u \<and> asks i write_call t \<and> grants i write_call u)"
proof -
  have "HookApproved write_call \<notin> set demo_approved" by (simp add: demo_approved_def)
  moreover have "call_effect demo_run write_call (JObj []) = Mutating" by (rule demo_checks(5))
  ultimately show ?thesis
    using execution_allowed[of demo_run demo_messages demo_script
        "demo_request @ Sent demo_messages # demo_response @ Completed 1 ''on it'' # demo_approved" write_call
        "JObj []" demo_answer]
    by (simp add: demo_loop demo_since[simplified] demo_fields)
qed

text \<open>C4. Started from a conversation in which every call of an assistant turn has its results, and with
  a step hook that hands over such conversations, a run sends only such conversations, the wrap-up
  request included. Without a hook, each of them still holds the user's request the run started from.\<close>

theorem requests_settled:
  assumes "settled msgs" and "hook_settles c"
    and "Sent req \<in> set (ru_trace (agent_loop c msgs w)) \<or> Asked req \<in> set (ru_trace (agent_loop c msgs w))"
  shows "settled req \<and> (\<forall>a. last_index (\<lambda>m. mg_role m = ''user'') msgs = Some a \<longrightarrow> \<not> re_hooked c \<longrightarrow> msgs ! a \<in> set req)"
  using settled_requests_proper[OF assms(1,2) refl, of w] assms(3) by (fastforce simp: proper_def request_ok_def)

lemma demo_settled: "settled demo_messages" "hook_settles demo_run"
  by (simp_all add: open_calls_def coherent_def demo_messages_def text_message_def is_turn_def is_tool_def
      hook_settles_def demo_fields)

theorem requests_settled_witness: "Sent demo_messages \<in> set demo_trace \<and> settled demo_messages"
  using requests_settled[OF demo_settled, of demo_messages demo_script] by (simp add: demo_trace_def demo_loop)

text \<open>C7. With a step hook, a request is streamed only after the hook committed this very request, in the
  same step.\<close>

theorem request_committed_before_sent:
  assumes "re_hooked c" and "ru_trace (agent_loop c msgs w) = pre @ Sent req # post"
  shows "\<exists>n. Committed (CommitRequest n req) True \<in> set (since pre)"
  using judgedD[OF requests_committed_first[OF assms(1)] assms(2)] by (simp add: committed_first_def)

theorem request_committed_before_sent_witness:
  "\<exists>n. Committed (CommitRequest n demo_messages) True \<in> set (since demo_request)"
  by (rule request_committed_before_sent[of demo_run demo_messages demo_script _ _
        "demo_response @ Completed 1 ''on it'' # demo_approved @ Executed write_call (JObj []) # demo_answer"])
    (simp_all add: demo_loop demo_fields)




text \<open>C10. A client that appends the text of every token and, on a retry, drops the bytes it is told to
  drop shows, when a response completes, that response and nothing of the attempts before it.\<close>

theorem response_shown:
  assumes "ru_trace (agent_loop c msgs w) = pre @ Completed n content # post"
  shows "shown (since pre) = content"
  using judgedD[OF text_shown_complete assms] by (simp add: shown_complete_def)

theorem response_shown_witness:
  "shown (since (demo_request @ Sent demo_messages # demo_response)) = ''on it''"
  by (rule response_shown[of demo_run demo_messages demo_script _ 1 _
        "demo_approved @ Executed write_call (JObj []) # demo_answer"]) (simp add: demo_loop)

text \<open>When a limit ends the run, the request for its final report goes out even if the step hook
  failed to commit it: only the report is dropped.\<close>

theorem uncommitted_wrap_up_sent:
  assumes "re_wrap_up c" and "re_hooked c"
    and "hook c (CommitRequest (ru_iteration st + 1) (wrap_up_request (ru_messages st) reason)) (ru_world st) =
      (Inl error, w)"
  shows "\<exists>t. ru_trace (snd (wrap_up c reason st)) = ru_trace st @
      [Committed (CommitRequest (ru_iteration st + 1) (wrap_up_request (ru_messages st) reason)) False,
       Asked (wrap_up_request (ru_messages st) reason), Yield (Limited reason (ru_iteration st) (ru_usage st))] @ t"
  using assms
  by (simp add: wrap_up_def ask_service_def report_run_def abind_def look_def try_commit_def outside_def
      log_action_def change_def give_def limited_def return_def split: prod.splits)

theorem uncommitted_wrap_up_sent_witness:
  "Asked (wrap_up_request demo_messages ''limit'') \<in>
     set (ru_trace (snd (wrap_up (demo_run\<lparr>hook := \<lambda>_. Pair (Inl ''disk full'')\<rparr>) ''limit''
       (new_run demo_run demo_messages demo_script))))"
proof -
  have "re_wrap_up (demo_run\<lparr>hook := \<lambda>_. Pair (Inl ''disk full'')\<rparr>)"
    "re_hooked (demo_run\<lparr>hook := \<lambda>_. Pair (Inl ''disk full'')\<rparr>)"
    by (simp_all add: demo_run_def)
  from uncommitted_wrap_up_sent[OF this, of "new_run demo_run demo_messages demo_script" "''limit''" "''disk full''"]
  show ?thesis by auto
qed

end
