(* ===== verification/Message_Json.thy ===== *)
theory Message_Json
  imports Context_Compaction
begin

text \<open>
  Messages as \<open>serde_json\<close> values: what the derived \<open>Serialize\<close> and \<open>Deserialize\<close> of \<open>ChatMessage\<close>,
  \<open>Content\<close>, \<open>ContentPart\<close>, \<open>ImageUrl\<close>, \<open>ToolCall\<close> and \<open>FunctionCall\<close> make of them
  (crates/milim-core/src/api/openai.rs). A reader gives nothing where serde gives an error, whose text
  is serde's. Structs are read from objects only; serde would also take an array for one.
\<close>

section \<open>Members\<close>

text \<open>A member left out when it is \<open>None\<close>, and one that may be absent or null.\<close>

definition member_if :: "str \<Rightarrow> json option \<Rightarrow> (str \<times> json) list" where
  "member_if k v = (case v of None \<Rightarrow> [] | Some x \<Rightarrow> [(k, x)])"

fun read_opt :: "(json \<Rightarrow> 'a option) \<Rightarrow> json option \<Rightarrow> 'a option option" where
  "read_opt f None = Some None"
| "read_opt f (Some JNull) = Some None"
| "read_opt f (Some v) = map_option Some (f v)"

fun read_all :: "(json \<Rightarrow> 'a option) \<Rightarrow> json list \<Rightarrow> 'a list option" where
  "read_all f [] = Some []"
| "read_all f (x # xs) = Option.bind (f x) (\<lambda>y. map_option ((#) y) (read_all f xs))"

definition read_list :: "(json \<Rightarrow> 'a option) \<Rightarrow> json \<Rightarrow> 'a list option" where
  "read_list f v = Option.bind (as_array v) (read_all f)"

definition str_member :: "str \<Rightarrow> json \<Rightarrow> str option" where
  "str_member k v = Option.bind (jget k v) as_str"

text \<open>\<open>Value::as_u64\<close>.\<close>

definition as_index :: "json \<Rightarrow> nat option" where
  "as_index v = (case v of JInt i \<Rightarrow> if 0 \<le> i \<and> i \<le> U64_MAX then Some (nat i) else None | _ \<Rightarrow> None)"

lemma foldl_obj_insert: "map_of (foldl (\<lambda>m kv. obj_insert (fst kv) (snd kv) m) m0 kvs) k =
    (case map_of (rev kvs) k of Some v \<Rightarrow> Some v | None \<Rightarrow> map_of m0 k)"
  by (induction kvs arbitrary: m0) (auto split: option.splits)

lemma jget_made [simp]: "jget k (mk_obj kvs) = map_of (rev kvs) k"
  by (simp add: mk_obj_def foldl_obj_insert split: option.split)

lemma mk_obj_not_null [simp]: "mk_obj kvs \<noteq> JNull" "as_object (mk_obj kvs) \<noteq> None"
  by (simp_all add: mk_obj_def)

lemma read_opt_some: "v \<noteq> JNull \<Longrightarrow> read_opt f (Some v) = map_option Some (f v)"
  by (cases v) simp_all

lemma map_of_member_if [simp]: "map_of (member_if k v) j = (if j = k then v else None)"
  by (simp add: member_if_def split: option.split)

lemma rev_member_if [simp]: "rev (member_if k v) = member_if k v"
  by (simp add: member_if_def split: option.split)

lemma read_all_map: "(\<And>x. x \<in> set xs \<Longrightarrow> f (g x) = Some x) \<Longrightarrow> read_all f (map g xs) = Some xs"
  by (induction xs) auto

section \<open>Content\<close>

definition image_json :: "str \<Rightarrow> str option \<Rightarrow> json" where
  "image_json url detail = mk_obj ([(''url'', JStr url)] @ member_if ''detail'' (map_option JStr detail))"

fun part_json :: "content_part \<Rightarrow> json" where
  "part_json (PText t) = mk_obj [(''type'', JStr ''text''), (''text'', JStr t)]"
| "part_json (PImage url detail) = mk_obj [(''type'', JStr ''image_url''), (''image_url'', image_json url detail)]"
| "part_json (PAudio v) = mk_obj [(''type'', JStr ''input_audio''), (''input_audio'', v)]"
| "part_json PUnknown = mk_obj [(''type'', JStr ''unknown'')]"

fun content_json :: "msg_content \<Rightarrow> json" where
  "content_json (CText t) = JStr t"
| "content_json (CParts ps) = JArr (map part_json ps)"

definition read_image :: "json \<Rightarrow> (str \<times> str option) option" where
  "read_image v =
     Option.bind (str_member ''url'' v) (\<lambda>url.
     map_option (Pair url) (read_opt as_str (jget ''detail'' v)))"

definition read_part :: "json \<Rightarrow> content_part option" where
  "read_part v =
     Option.bind (str_member ''type'' v) (\<lambda>ty.
       if ty = ''text'' then map_option PText (str_member ''text'' v)
       else if ty = ''image_url'' then
         map_option (\<lambda>(url, detail). PImage url detail) (Option.bind (jget ''image_url'' v) read_image)
       else if ty = ''input_audio'' then map_option PAudio (jget ''input_audio'' v)
       else Some PUnknown)"

fun read_content :: "json \<Rightarrow> msg_content option" where
  "read_content (JStr t) = Some (CText t)"
| "read_content (JArr vs) = map_option CParts (read_all read_part vs)"
| "read_content _ = None"

lemma read_image_json [simp]: "read_image (image_json url detail) = Some (url, detail)"
  by (cases detail) (simp_all add: read_image_def image_json_def str_member_def member_if_def)

lemma read_part_json [simp]: "read_part (part_json p) = Some p"
  by (cases p) (simp_all add: read_part_def str_member_def)

lemma read_content_json [simp]: "read_content (content_json c) = Some c"
  by (cases c) (simp_all add: read_all_map)

lemma content_json_not_null [simp]: "content_json c \<noteq> JNull"
  by (cases c) simp_all

section \<open>Tool calls\<close>

definition call_json :: "tool_call \<Rightarrow> json" where
  "call_json c =
     mk_obj (member_if ''id'' (map_option JStr (tc_id c)) @
       [(''type'', JStr (tc_kind c)),
        (''function'', mk_obj [(''name'', JStr (tc_name c)), (''arguments'', JStr (tc_arguments c))])])"

definition read_call :: "json \<Rightarrow> tool_call option" where
  "read_call v =
     Option.bind (read_opt as_str (jget ''id'' v)) (\<lambda>i.
     Option.bind (case jget ''type'' v of None \<Rightarrow> Some ''function'' | Some t \<Rightarrow> as_str t) (\<lambda>kind.
     Option.bind (jget ''function'' v) (\<lambda>f.
     Option.bind (str_member ''name'' f) (\<lambda>name.
     map_option (\<lambda>arguments. \<lparr>tc_id = i, tc_kind = kind, tc_name = name, tc_arguments = arguments\<rparr>)
       (str_member ''arguments'' f)))))"

lemma read_call_json [simp]: "read_call (call_json c) = Some c"
  by (cases "tc_id c") (simp_all add: read_call_def call_json_def str_member_def member_if_def)

section \<open>Messages\<close>

definition message_json :: "chat_message \<Rightarrow> json" where
  "message_json m =
     mk_obj ([(''role'', JStr (mg_role m))] @
       member_if ''content'' (map_option content_json (mg_content m)) @
       member_if ''name'' (map_option JStr (mg_name m)) @
       member_if ''tool_calls'' (map_option (\<lambda>cs. JArr (map call_json cs)) (mg_calls m)) @
       member_if ''tool_call_id'' (map_option JStr (mg_call_id m)) @
       member_if ''reasoning_content'' (map_option JStr (mg_reasoning m)) @
       member_if ''provider_state'' (mg_provider m))"

definition read_message :: "json \<Rightarrow> chat_message option" where
  "read_message v =
     Option.bind (str_member ''role'' v) (\<lambda>role.
     Option.bind (read_opt read_content (jget ''content'' v)) (\<lambda>content.
     Option.bind (read_opt as_str (jget ''name'' v)) (\<lambda>name.
     Option.bind (read_opt (read_list read_call) (jget ''tool_calls'' v)) (\<lambda>calls.
     Option.bind (read_opt as_str (jget ''tool_call_id'' v)) (\<lambda>call_id.
     Option.bind (read_opt as_str (jget ''reasoning_content'' v)) (\<lambda>reasoning.
     map_option (\<lambda>state. \<lparr>mg_role = role, mg_content = content, mg_name = name, mg_calls = calls,
         mg_call_id = call_id, mg_reasoning = reasoning, mg_provider = state\<rparr>)
       (read_opt Some (jget ''provider_state'' v))))))))"

definition read_messages :: "json \<Rightarrow> chat_message list option" where
  "read_messages = read_list read_message"

text \<open>A null state is the only thing that is not read back: it comes back as none.\<close>

definition storable :: "chat_message \<Rightarrow> bool" where
  "storable m \<longleftrightarrow> mg_provider m \<noteq> Some JNull"

lemma read_opt_text [simp]: "read_opt as_str (map_option JStr x) = Some x"
  by (cases x) simp_all

lemma read_opt_content [simp]: "read_opt read_content (map_option content_json x) = Some x"
  by (cases x) (simp_all add: read_opt_some)

lemma read_opt_calls [simp]: "read_opt (read_list read_call) (map_option (\<lambda>cs. JArr (map call_json cs)) x) = Some x"
  by (cases x) (simp_all add: read_list_def read_all_map)

lemma jget_message [simp]:
  "jget ''role'' (message_json m) = Some (JStr (mg_role m))"
  "jget ''content'' (message_json m) = map_option content_json (mg_content m)"
  "jget ''name'' (message_json m) = map_option JStr (mg_name m)"
  "jget ''tool_calls'' (message_json m) = map_option (\<lambda>cs. JArr (map call_json cs)) (mg_calls m)"
  "jget ''tool_call_id'' (message_json m) = map_option JStr (mg_call_id m)"
  "jget ''reasoning_content'' (message_json m) = map_option JStr (mg_reasoning m)"
  "jget ''provider_state'' (message_json m) = mg_provider m"
  by (simp_all add: message_json_def map_add_def split: option.splits)

lemma read_message_json: "storable m \<Longrightarrow> read_message (message_json m) = Some m"
  by (cases "mg_provider m") (simp_all add: read_message_def str_member_def storable_def read_opt_some)

lemma read_messages_json: "\<forall>m \<in> set ms. storable m \<Longrightarrow> read_messages (JArr (map message_json ms)) = Some ms"
  by (simp add: read_messages_def read_list_def read_all_map read_message_json)

end
