(* ===== verification/Work_Log.thy ===== *)
theory Work_Log
  imports Message_Json
begin

text \<open>
  The work log of a run (crates/milim-server/src/control/delta.rs): the tools it called and how each call
  ended, recorded from its events, stored with its message and rendered for the model of later turns.
  \<open>show\<close> is \<open>Value::to_string\<close> and \<open>parse\<close> is \<open>serde_json::from_str\<close>.
\<close>

section \<open>Text on one line\<close>

text \<open>\<open>split_whitespace\<close>: the pieces between runs of white space.\<close>

fun until_space :: "str \<Rightarrow> str \<times> str" where
  "until_space [] = ([], [])"
| "until_space (c # s) =
     (if 0 < ws_len (c # s) then ([], c # s) else (case until_space s of (w, rest) \<Rightarrow> (c # w, rest)))"

lemma until_space_append: "fst (until_space s) @ snd (until_space s) = s"
  by (induction s) (auto split: prod.splits)

lemma trim_start_head: "trim_start s = [] \<or> ws_len (trim_start s) = 0"
  unfolding trim_start_def
proof (induction ws_len s rule: strip_ws.induct)
  case (1 s)
  then show ?case by (cases "ws_len s = 0 \<or> s = []") (auto simp: strip_ws.simps[of ws_len s])
qed

function split_whitespace :: "str \<Rightarrow> str list" where
  "split_whitespace s =
     (let t = trim_start s in
      if t = [] then [] else fst (until_space t) # split_whitespace (snd (until_space t)))"
  by pat_completeness auto
termination
proof (relation "measure length")
  fix s t
  assume t: "t = trim_start s" "t \<noteq> []"
  obtain c u where u: "t = c # u" using t(2) by (meson neq_Nil_conv)
  then have "ws_len (c # u) = 0" using trim_start_head[of s] t by simp
  then have "length (snd (until_space t)) < length t"
    using arg_cong[OF until_space_append[of u], of length] u by (auto split: prod.splits)
  also have "length t \<le> length s"
    using strip_ws_suffix[of s ws_len] t(1) by (metis le_add2 length_append trim_start_def)
  finally show "(snd (until_space t), s) \<in> measure length" by simp
qed simp

declare split_whitespace.simps [simp del]

definition ellipsis_char :: str where
  "ellipsis_char = [CHR 0xE2, CHR 0x80, CHR 0xA6]"

fun join_with :: "str \<Rightarrow> str list \<Rightarrow> str" where
  "join_with sep [] = []"
| "join_with sep [s] = s"
| "join_with sep (s # t # ss) = s @ sep @ join_with sep (t # ss)"

definition one_line :: "str \<Rightarrow> nat \<Rightarrow> str" where
  "one_line t max_chars =
     (let collapsed = join_with '' '' (split_whitespace t) in
      if char_count collapsed \<le> max_chars then collapsed else take_chars (max_chars - 1) collapsed @ ellipsis_char)"

section \<open>Calls\<close>

definition WORK_LOG_HEAD_CALLS :: nat where "WORK_LOG_HEAD_CALLS = 16"
definition WORK_LOG_TAIL_CALLS :: nat where "WORK_LOG_TAIL_CALLS = 48"
definition WORK_LOG_MAX_FILES :: nat where "WORK_LOG_MAX_FILES = 40"
definition WORK_LOG_ARGUMENT_CHARS :: nat where "WORK_LOG_ARGUMENT_CHARS = 120"
definition WORK_LOG_OUTCOME_CHARS :: nat where "WORK_LOG_OUTCOME_CHARS = 160"
definition WORK_LOG_LATEST_CHARS :: nat where "WORK_LOG_LATEST_CHARS = 3500"
definition WORK_LOG_EARLIER_CHARS :: nat where "WORK_LOG_EARLIER_CHARS = 1000"

definition FILE_CHANGING_TOOLS :: "str list" where
  "FILE_CHANGING_TOOLS = [''write_file'', ''edit_file'', ''patch_file'', ''notebook_edit'']"

definition WORK_LOG_KEY_ARGUMENTS :: "str list" where
  "WORK_LOG_KEY_ARGUMENTS = [''path'', ''file_path'', ''command'', ''pattern'', ''query'', ''url'', ''process_id'',
     ''target_thread_id'', ''name'']"

definition PATCH_MARKERS :: "str list" where
  "PATCH_MARKERS = [''*** Add File:'', ''*** Update File:'', ''*** Delete File:'', ''*** Move to:'']"

text \<open>The path a line of a patch names. The pieces between newlines are the lines, but for an empty last
  one and a trailing carriage return, which name nothing either.\<close>

definition patch_path :: "str \<Rightarrow> str option" where
  "patch_path line =
     (case first_some (\<lambda>marker. strip_prefix marker (trim line)) PATCH_MARKERS of
        None \<Rightarrow> None
      | Some rest \<Rightarrow> (if trim rest = [] then None else Some (trim rest)))"

definition add_path :: "str list \<Rightarrow> str \<Rightarrow> str list" where
  "add_path paths path = (if path \<in> set paths then paths else paths @ [path])"

definition changed_paths :: "str \<Rightarrow> json \<Rightarrow> str list" where
  "changed_paths tool arguments =
     (if tool = ''apply_patch'' then
        let patch = (case first_some (\<lambda>key. str_member key arguments) [''input'', ''patch''] of
              None \<Rightarrow> [] | Some t \<Rightarrow> t)
        in foldl add_path [] (List.map_filter patch_path (split_on (\<lambda>c. c = CHR 0x0A) patch))
      else if tool \<in> set FILE_CHANGING_TOOLS then
        (case str_member ''path'' arguments of None \<Rightarrow> [] | Some p \<Rightarrow> [p])
      else [])"

definition key_argument :: "(json \<Rightarrow> str) \<Rightarrow> json \<Rightarrow> str \<Rightarrow> str option" where
  "key_argument show arguments key =
     map_option (\<lambda>v. let value = one_line v WORK_LOG_ARGUMENT_CHARS in
         key @ ''='' @ (if list_ex (\<lambda>c. c \<in> {CHR '' '', CHR 0x22, CHR ''=''}) value then show (JStr value) else value))
       (str_member key arguments)"

definition key_arguments :: "(json \<Rightarrow> str) \<Rightarrow> json \<Rightarrow> str" where
  "key_arguments show arguments =
     join_with '' '' (take 2 (List.map_filter (key_argument show arguments) WORK_LOG_KEY_ARGUMENTS))"

definition flagged :: "str \<Rightarrow> json \<Rightarrow> bool" where
  "flagged key v \<longleftrightarrow> Option.bind (jget key v) as_bool = Some True"

text \<open>A one-line outcome of a result, and whether the call succeeded.\<close>

definition tool_outcome :: "(json \<Rightarrow> str) \<Rightarrow> json \<Rightarrow> str \<times> bool" where
  "tool_outcome show v =
     (if flagged ''denied'' v then (''denied'', False)
      else if flagged ''skipped'' v then (''skipped'', False)
      else
        (case Option.bind (jget ''error'' v) (\<lambda>error. if error = JNull then None else Some error) of
           Some error \<Rightarrow>
             (''error: '' @ one_line (case as_str error of Some t \<Rightarrow> t | None \<Rightarrow> show error) WORK_LOG_OUTCOME_CHARS, False)
         | None \<Rightarrow>
             if flagged ''isError'' v then (''error'', False)
             else if flagged ''timed_out'' v then (''timed out'', False)
             else (case Option.bind (jget ''exit_code'' v) as_i64 of
                     Some code \<Rightarrow> (''exit '' @ show_int code, code = 0) | None \<Rightarrow> (''ok'', True))))"

section \<open>The log\<close>

record logged_call =
  lc_id :: "str option"
  lc_tool :: str
  lc_arguments :: str
  lc_paths :: "str list"
  lc_outcome :: "str option"

record work_log =
  wl_calls :: "logged_call list"
  wl_files :: "str list"

definition empty_log :: work_log where
  "empty_log = \<lparr>wl_calls = [], wl_files = []\<rparr>"

definition record_call ::
  "(json \<Rightarrow> str) \<Rightarrow> (str \<Rightarrow> json option) \<Rightarrow> str option \<Rightarrow> str \<Rightarrow> str \<Rightarrow> work_log \<Rightarrow> work_log" where
  "record_call show parse call_id tool arguments log =
     (let v = (case parse arguments of Some v \<Rightarrow> v | None \<Rightarrow> JNull) in
      log\<lparr>wl_calls := wl_calls log @
        [\<lparr>lc_id = call_id, lc_tool = tool, lc_arguments = key_arguments show v, lc_paths = changed_paths tool v,
          lc_outcome = None\<rparr>]\<rparr>)"

text \<open>The call a result belongs to: the last unfinished one with its id, or with its tool when an id is missing.\<close>

definition awaits :: "str option \<Rightarrow> str \<Rightarrow> logged_call \<Rightarrow> bool" where
  "awaits call_id tool c \<longleftrightarrow> lc_outcome c = None \<and>
     (case (call_id, lc_id c) of (Some i, Some j) \<Rightarrow> i = j | _ \<Rightarrow> lc_tool c = tool)"

definition record_result :: "(json \<Rightarrow> str) \<Rightarrow> str option \<Rightarrow> str \<Rightarrow> json \<Rightarrow> work_log \<Rightarrow> work_log" where
  "record_result show call_id tool v log =
     (case tool_outcome show v of (outcome, succeeded) \<Rightarrow>
        let new_call = \<lparr>lc_id = call_id, lc_tool = tool, lc_arguments = [], lc_paths = [], lc_outcome = None\<rparr>;
            calls = (case last_index (awaits call_id tool) (wl_calls log) of
                       Some _ \<Rightarrow> wl_calls log | None \<Rightarrow> wl_calls log @ [new_call]);
            i = (case last_index (awaits call_id tool) (wl_calls log) of
                       Some i \<Rightarrow> i | None \<Rightarrow> length (wl_calls log));
            call = calls ! i
        in \<lparr>wl_calls = calls[i := call\<lparr>lc_outcome := Some outcome\<rparr>],
            wl_files = (if succeeded then foldl add_path (wl_files log) (lc_paths call) else wl_files log)\<rparr>)"

definition call_entry :: "logged_call \<Rightarrow> json" where
  "call_entry c =
     mk_obj [(''tool'', JStr (lc_tool c)), (''arguments'', JStr (lc_arguments c)),
       (''outcome'', JStr (case lc_outcome c of Some t \<Rightarrow> t | None \<Rightarrow> ''not finished''))]"

definition to_value :: "work_log \<Rightarrow> json option" where
  "to_value log =
     (if wl_calls log = [] then None
      else
        let n = length (wl_calls log);
            head = min n WORK_LOG_HEAD_CALLS;
            tail_start = max (n - WORK_LOG_TAIL_CALLS) head
        in Some (mk_obj
             [(''entries'', JArr (map call_entry (take head (wl_calls log)) @
                 (if head < tail_start then [mk_obj [(''omitted'', JInt (int (tail_start - head)))]] else []) @
                 map call_entry (drop tail_start (wl_calls log)))),
              (''filesChanged'', JArr (map JStr (take WORK_LOG_MAX_FILES (wl_files log))))]))"

section \<open>Rendering\<close>

datatype log_line = CallLine str | OmittedLine nat

fun line_text :: "log_line \<Rightarrow> str" where
  "line_text (CallLine t) = t"
| "line_text (OmittedLine n) =
     ''- '' @ ellipsis_char @ '' '' @ show_nat n @ '' more tool call'' @ (if n = 1 then [] else ''s'') @ '' '' @ ellipsis_char"

fun line_calls :: "log_line \<Rightarrow> nat" where
  "line_calls (CallLine _) = 1"
| "line_calls (OmittedLine n) = n"

definition line_len :: "log_line \<Rightarrow> nat" where
  "line_len l = length (line_text l) + 1"

definition read_line :: "json \<Rightarrow> log_line option" where
  "read_line entry =
     (case Option.bind (jget ''omitted'' entry) as_index of
        Some n \<Rightarrow> Some (OmittedLine n)
      | None \<Rightarrow>
          map_option (\<lambda>tool.
              let arguments = (case str_member ''arguments'' entry of None \<Rightarrow> [] | Some t \<Rightarrow> t);
                  outcome = (case str_member ''outcome'' entry of None \<Rightarrow> ''ok'' | Some t \<Rightarrow> t)
              in CallLine (if arguments = [] then ''- '' @ tool @ '' -> '' @ outcome
                           else ''- '' @ tool @ '' '' @ arguments @ '' -> '' @ outcome))
            (str_member ''tool'' entry))"

text \<open>How many calls are kept from the start (within \<open>limit\<close>) and from the end.\<close>

fun head_count :: "nat \<Rightarrow> nat \<Rightarrow> log_line list \<Rightarrow> nat" where
  "head_count limit used (CallLine t # ls) =
     (if limit < used + line_len (CallLine t) then 0 else Suc (head_count limit (used + line_len (CallLine t)) ls))"
| "head_count limit used _ = 0"

definition MARKER_RESERVE :: nat where "MARKER_RESERVE = 40"

fun tail_count :: "nat \<Rightarrow> nat \<Rightarrow> log_line list \<Rightarrow> nat" where
  "tail_count remaining used (CallLine t # ls) =
     (if remaining < used + line_len (CallLine t) + MARKER_RESERVE then 0
      else Suc (tail_count remaining (used + line_len (CallLine t)) ls))"
| "tail_count remaining used _ = 0"

definition fit_lines :: "nat \<Rightarrow> log_line list \<Rightarrow> log_line list" where
  "fit_lines remaining ls =
     (if remaining < sum_list (map line_len ls) then
        let h = head_count (remaining div 3) 0 ls;
            used = sum_list (map line_len (take h ls));
            t = length ls - tail_count remaining used (rev (drop h ls))
        in take h ls @ [OmittedLine (sum_list (map line_calls (take (t - h) (drop h ls))))] @ drop t ls
      else ls)"

definition log_lines :: "json \<Rightarrow> log_line list option" where
  "log_lines log = map_option (List.map_filter read_line) (Option.bind (jget ''entries'' log) as_array)"

definition files_line :: "json \<Rightarrow> nat \<Rightarrow> str option" where
  "files_line log budget =
     (let files = (case Option.bind (jget ''filesChanged'' log) as_array of
            None \<Rightarrow> [] | Some vs \<Rightarrow> List.map_filter as_str vs)
      in if files = [] then None
         else Some (one_line (''Files changed: '' @ join_with '', '' files) (budget div 4)))"

definition WORK_LOG_HEADER :: str where
  "WORK_LOG_HEADER = ''<work_log>'' @ [CHR 0x0A] @
     ''Tool calls from this turn, recorded by milim (not part of the visible reply):'' @ [CHR 0x0A]"

definition render_work_log :: "json \<Rightarrow> nat \<Rightarrow> str option" where
  "render_work_log log budget =
     (case log_lines log of
        None \<Rightarrow> None
      | Some ls \<Rightarrow>
          if ls = [] then None
          else
            let fl = files_line log budget;
                remaining = budget - (case fl of None \<Rightarrow> 0 | Some l \<Rightarrow> length l + 1)
            in Some (WORK_LOG_HEADER @ concat (map (\<lambda>l. line_text l @ [CHR 0x0A]) (fit_lines remaining ls)) @
                 (case fl of None \<Rightarrow> [] | Some l \<Rightarrow> l @ [CHR 0x0A]) @ ''</work_log>''))"

section \<open>Markers\<close>

definition STOPPED_BY_USER_MARKER :: str where
  "STOPPED_BY_USER_MARKER = ''[interrupted: stopped by user]''"

definition RUN_LIMIT_MARKER :: str where
  "RUN_LIMIT_MARKER = ''[interrupted: run limit reached]''"

definition FAILURE_REASON_CHARS :: nat where "FAILURE_REASON_CHARS = 300"

definition failed_run_marker :: "str \<Rightarrow> str" where
  "failed_run_marker reason = ''[failed: '' @ one_line reason FAILURE_REASON_CHARS @ '']''"

end
