(* ===== verification/Run_Output.thy ===== *)
theory Run_Output
  imports Work_Log Ledger_Timeline
begin

text \<open>
  The output of a run (crates/milim-server/src/control/delta.rs, \<open>DeltaBuffer\<close>): the text and reasoning
  of its answer as they stream in, buffered and appended to the thread's timeline in chunks, with what a
  later turn replays of them.
\<close>

definition DELTA_FLUSH_BYTES :: nat where "DELTA_FLUSH_BYTES = 512"
definition DELTA_FLUSH_INTERVAL :: nat where "DELTA_FLUSH_INTERVAL = 40"

text \<open>Instants are milliseconds of a clock that does not go back.\<close>

record delta_buffer =
  db_content :: str
  db_model :: str
  db_reasoning :: str
  db_pending :: str
  db_pending_reasoning :: str
  db_emitted_first :: bool
  db_last_flush :: "nat option"
  db_boundary :: bool
  db_step_start :: nat

definition new_buffer :: delta_buffer where
  "new_buffer = \<lparr>db_content = [], db_model = [], db_reasoning = [], db_pending = [], db_pending_reasoning = [],
     db_emitted_first = False, db_last_flush = None, db_boundary = False, db_step_start = 0\<rparr>"

definition timed_buffer :: "nat \<Rightarrow> delta_buffer" where
  "timed_buffer t = new_buffer\<lparr>db_last_flush := Some t\<rparr>"

section \<open>Pushing\<close>

definition paragraph_separator :: "str \<Rightarrow> str" where
  "paragraph_separator t =
     (if t = [] \<or> ends_with [CHR 0x0A, CHR 0x0A] t then []
      else if ends_with [CHR 0x0A] t then [CHR 0x0A]
      else [CHR 0x0A, CHR 0x0A])"

definition push_text :: "str \<Rightarrow> delta_buffer \<Rightarrow> delta_buffer" where
  "push_text t d =
     (let d = (if t \<noteq> [] \<and> db_boundary d then
                 d\<lparr>db_boundary := False,
                   db_content := db_content d @ paragraph_separator (db_content d),
                   db_pending := db_pending d @ paragraph_separator (db_content d),
                   db_model := db_model d @ paragraph_separator (db_model d)\<rparr>
               else d)
      in d\<lparr>db_content := db_content d @ t, db_pending := db_pending d @ t, db_model := db_model d @ t\<rparr>)"

definition push_notice :: "str \<Rightarrow> delta_buffer \<Rightarrow> delta_buffer" where
  "push_notice t d = d\<lparr>db_content := db_content d @ t, db_pending := db_pending d @ t\<rparr>"

definition mark_step_boundary :: "delta_buffer \<Rightarrow> delta_buffer" where
  "mark_step_boundary d = d\<lparr>db_boundary := True, db_step_start := length (db_model d)\<rparr>"

definition push_reasoning :: "str \<Rightarrow> delta_buffer \<Rightarrow> delta_buffer" where
  "push_reasoning t d = d\<lparr>db_reasoning := db_reasoning d @ t, db_pending_reasoning := db_pending_reasoning d @ t\<rparr>"

section \<open>Flushing\<close>

definition delta_json :: "str \<Rightarrow> str \<Rightarrow> json" where
  "delta_json t r = mk_obj [(''text'', JStr t), (''reasoning'', JStr r)]"

text \<open>\<open>persist_and_emit\<close>, its broadcast to the clients that are connected aside.\<close>

definition persist_and_emit ::
  "env \<Rightarrow> str \<Rightarrow> str \<Rightarrow> str option \<Rightarrow> str \<Rightarrow> json \<Rightarrow> ledger \<Rightarrow> (error + timeline_row) \<times> ledger" where
  "persist_and_emit e uuid thread_id run ty data st =
     control_append_timeline e thread_id uuid run ty (env_show e data) st"

definition flush :: "env \<Rightarrow> str \<Rightarrow> str \<Rightarrow> str \<Rightarrow> delta_buffer \<Rightarrow> ledger \<Rightarrow> (error + unit) \<times> delta_buffer \<times> ledger" where
  "flush e uuid thread_id run_id d st =
     (if db_pending d = [] \<and> db_pending_reasoning d = [] then (Inr (), d, st)
      else
        case persist_and_emit e uuid thread_id (Some run_id) ''assistant_delta''
               (delta_json (db_pending d) (db_pending_reasoning d)) st of
          (Inl err, st) \<Rightarrow> (Inl err, d\<lparr>db_pending := [], db_pending_reasoning := []\<rparr>, st)
        | (Inr _, st) \<Rightarrow> (Inr (), d\<lparr>db_pending := [], db_pending_reasoning := []\<rparr>, st))"

definition flush_due :: "nat \<Rightarrow> delta_buffer \<Rightarrow> bool" where
  "flush_due t d \<longleftrightarrow> \<not> db_emitted_first d \<or>
     DELTA_FLUSH_BYTES \<le> length (db_pending d) + length (db_pending_reasoning d) \<or>
     (case db_last_flush d of None \<Rightarrow> False | Some s \<Rightarrow> DELTA_FLUSH_INTERVAL \<le> t - s)"

text \<open>\<open>t\<close> is the clock before the flush, \<open>later\<close> after it.\<close>

definition flush_if_due ::
  "env \<Rightarrow> str \<Rightarrow> str \<Rightarrow> str \<Rightarrow> nat \<Rightarrow> nat \<Rightarrow> delta_buffer \<Rightarrow> ledger \<Rightarrow> (error + unit) \<times> delta_buffer \<times> ledger" where
  "flush_if_due e uuid thread_id run_id t later d st =
     (if flush_due t d then
        (case flush e uuid thread_id run_id d st of
           (Inl err, d, st) \<Rightarrow> (Inl err, d, st)
         | (Inr _, d, st) \<Rightarrow>
             (Inr (), d\<lparr>db_emitted_first := True,
                db_last_flush := (case db_last_flush d of None \<Rightarrow> None | Some _ \<Rightarrow> Some later)\<rparr>, st))
      else (Inr (), d, st))"

section \<open>Retries\<close>

text \<open>\<open>String::truncate\<close>, which panics when the cut is inside a character.\<close>

definition truncate_to :: "nat \<Rightarrow> str \<Rightarrow> str option" where
  "truncate_to n s = (if length s \<le> n then Some s else if is_cont (s ! n) then None else Some (take n s))"

definition truncate_for_retry :: "nat \<Rightarrow> nat \<Rightarrow> delta_buffer \<Rightarrow> delta_buffer option" where
  "truncate_for_retry content_bytes reasoning_bytes d =
     Option.bind (truncate_to (length (db_content d) - content_bytes) (db_content d)) (\<lambda>content.
     Option.bind (truncate_to (length (db_model d) - content_bytes) (db_model d)) (\<lambda>model.
     map_option (\<lambda>reasoning. d\<lparr>db_content := content, db_model := model,
         db_step_start := min (db_step_start d) (length model), db_reasoning := reasoning\<rparr>)
       (truncate_to (length (db_reasoning d) - reasoning_bytes) (db_reasoning d))))"

section \<open>What a later turn replays\<close>

definition step_text :: "delta_buffer \<Rightarrow> str" where
  "step_text d =
     (let n = db_step_start d; m = db_model d in
      if n \<le> length m \<and> (n = length m \<or> \<not> is_cont (m ! n)) then trim_start (drop n m) else [])"

record assistant_replay =
  ar_prompt :: "str option"
  ar_work_log :: "json option"
  ar_interruption :: "str option"

definition replay_from_run :: "delta_buffer \<Rightarrow> work_log \<Rightarrow> str option \<Rightarrow> assistant_replay" where
  "replay_from_run d log interruption =
     \<lparr>ar_prompt = (if db_model d \<noteq> db_content d then Some (db_model d) else None),
      ar_work_log = to_value log, ar_interruption = interruption\<rparr>"

end
