(* ===== verification/Run_Log.thy ===== *)
theory Run_Log
  imports Work_Log Agent_Results
begin

text \<open>
  The work log of a run, fed with the events of its stream (crates/milim-server/src/control/agent.rs):
  one entry per announced call, in order, and every result closes an entry of its own.
\<close>

definition log_event :: "(json \<Rightarrow> str) \<Rightarrow> (str \<Rightarrow> json option) \<Rightarrow> work_log \<Rightarrow> action \<Rightarrow> work_log" where
  "log_event show parse log a =
     (case a of
        Yield (Event (ToolCallEvent call ui)) \<Rightarrow>
          record_call show parse (tc_id call) (tc_name call) (tc_arguments call) log
      | Yield (Event (ToolResult call_id name v ui app)) \<Rightarrow> record_result show call_id name v log
      | _ \<Rightarrow> log)"

definition run_log :: "(json \<Rightarrow> str) \<Rightarrow> (str \<Rightarrow> json option) \<Rightarrow> action list \<Rightarrow> work_log" where
  "run_log show parse t = foldl (log_event show parse) empty_log t"

section \<open>Announced calls have ids\<close>

definition named_call :: "action list \<Rightarrow> action \<Rightarrow> bool" where
  "named_call q a \<longleftrightarrow> (\<forall>call ui. a = Yield (Event (ToolCallEvent call ui)) \<longrightarrow> tc_id call \<noteq> None)"

lemma named_other: "kind a \<noteq> KCall \<Longrightarrow> named_call q a"
  by (auto simp: named_call_def)

lemma guarded_unnamed: "any.does K m \<Longrightarrow> KCall \<notin> K \<Longrightarrow> guarded named_call q m"
  by (rule guarded_does) (auto intro: named_other)

lemma guarded_named_seq:
  assumes "any.does (all_kinds - {KCall}) m" and "\<And>q x. guarded named_call q (f x)"
  shows "guarded named_call q (abind m f)"
  by (rule guarded_seq[OF assms(1)]) (auto intro: named_other assms(2))

lemma guarded_named_prepare:
  assumes "tc_id call \<noteq> None"
  shows "guarded named_call q (prepare_call c truncated call)"
  unfolding prepare_call_def Let_def yield_def[of "ToolCallEvent _ _"]
  by (rule guarded_abind[OF guarded_log leaves_log[of "\<lambda>_ _. True"]])
    (use assms in \<open>auto simp: named_call_def intro!: guarded_unnamed[of "all_kinds - {KCall}"] any.does_small
      any.does_intercept_call any.does_ask_approval\<close>)

lemma leaves_announced: "leaves (\<lambda>_ _. True) (collect (\<lambda>call. prepare_call c truncated (f call)) calls)"
  by (rule leaves_true[OF any.does_mono[OF does_announce]]) simp

lemma guarded_named_collect:
  assumes "\<forall>call \<in> set calls. tc_id (f call) \<noteq> None"
  shows "guarded named_call q (collect (\<lambda>call. prepare_call c truncated (f call)) calls)"
  using assms
proof (induction calls arbitrary: q)
  case Nil
  then show ?case by (auto intro: guarded_unnamed[of "{}"])
next
  case (Cons call calls)
  have "guarded named_call q (abind (collect (\<lambda>call. prepare_call c truncated (f call)) calls) (\<lambda>ys. give (y # ys)))" for q y
    by (rule guarded_abind[OF Cons.IH leaves_announced]) (use Cons.prems in \<open>auto intro: guarded_unnamed[of "{}"]\<close>)
  then show ?case
    unfolding collect.simps
    by (intro guarded_abind[OF guarded_named_prepare leaves_true]) (use Cons.prems in \<open>auto intro: any.does_prepare_call\<close>)
qed

lemma resolve_proxy_id [simp]: "tc_id (resolve_proxy_call c call) = tc_id call"
  by (simp add: resolve_proxy_call_def split: option.split prod.split)

lemma guarded_named_phase:
  assumes "\<forall>call \<in> set calls. tc_id call \<noteq> None"
  shows "guarded named_call q (call_phase c step calls truncated recover_length)"
  unfolding call_phase_def
proof (rule guarded_abind[OF guarded_named_collect leaves_announced])
  show "guarded named_call q (abind (await_approvals c ps) (\<lambda>ps.
      abind (collect (run_call c) ps) (\<lambda>xs. answer_results c step recover_length xs)))" for q ps
  proof (rule guarded_named_seq[OF any.does_await_approvals], simp)
    fix q ps
    have running: "any.does (all_kinds - {KCall}) (collect (run_call c) ps)"
      by (rule any.does_collect, rule any.does_run_call) simp
    show "guarded named_call q (abind (collect (run_call c) ps) (\<lambda>xs. answer_results c step recover_length xs))"
      by (rule guarded_abind[OF guarded_unnamed[OF running] leaves_tidy])
        (auto intro!: guarded_unnamed[OF any.does_answer_results[of _ "all_kinds - {KCall}"]])
  qed
qed (use assms in simp)

lemma guarded_named_step: "guarded named_call q (agent_step c)"
proof -
  have calls: "guarded named_call q (with_calls c step r (finish_calls acc) truncated)" for q step r acc truncated
    unfolding with_calls_def
    by (rule guarded_named_seq[OF any.does_limit_reason])
      (auto intro!: guarded_named_seq[OF any.does_count_recovery] guarded_named_seq[OF any.does_push_message]
        guarded_named_phase guarded_unnamed[OF any.does_wrap_up[of call_free]] dest: finish_calls_id split: option.splits)
  have ending: "guarded named_call q (end_step c step r)" for q step r
    using guarded_unnamed[OF any.does_no_calls[of call_free]]
    by (auto simp: end_step_def Let_def intro: calls)
  show ?thesis
    unfolding agent_step_def
    by (rule guarded_named_seq[OF any.does_look], rule guarded_named_seq[OF any.does_reason_now])
      (auto intro!: ending guarded_unnamed[OF any.does_wrap_up[of call_free]] guarded_named_seq[OF any.does_prepare_step]
        guarded_named_seq[OF any.does_append_notes] guarded_named_seq[OF any.does_request_loop]
        guarded_named_seq[OF does_count_iteration] guarded_named_seq[OF any.does_close_request]
        split: option.splits)
qed

lemma announced_calls_named: "judged named_call [] (ru_trace (agent_loop c msgs w))"
  by (rule run_judged[where C = "\<lambda>_. True"])
    (auto intro!: guarded_named_step guarded_unnamed[OF any.does_begin_run[of "{KOther, KCommit}"]] leaves_true[OF does_agent_step])

lemma announced_event: "x \<in> set (announced [Yield (Event ev)]) \<Longrightarrow> (\<And>ui. ev = ToolCallEvent x ui \<Longrightarrow> P) \<Longrightarrow> P"
  by (cases ev) auto

lemma announced_named: "judged named_call [] t \<Longrightarrow> x \<in> set (announced t) \<Longrightarrow> tc_id x \<noteq> None"
proof (induction t rule: rev_induct)
  case (snoc a t)
  then have t: "judged named_call [] t" and a: "named_call t a" by (auto simp: judged_append judged_Cons)
  show ?case
  proof (cases "x \<in> set (announced t)")
    case False
    then have "x \<in> set (announced [a])" using snoc.prems(2) by (simp del: announced.simps)
    then obtain ui where "a = Yield (Event (ToolCallEvent x ui))"
      by (cases a rule: kind.cases) (auto elim: announced_event)
    then show ?thesis using a by (simp add: named_call_def)
  qed (use snoc.IH t in blast)
qed simp

section \<open>The log of a run\<close>

fun outcomes :: "(json \<Rightarrow> str) \<Rightarrow> action list \<Rightarrow> str list" where
  "outcomes shw [] = []"
| "outcomes shw (Yield (Event (ToolResult i name v ui app)) # t) = fst (tool_outcome shw v) # outcomes shw t"
| "outcomes shw (_ # t) = outcomes shw t"

lemma outcomes_append [simp]: "outcomes shw (t @ u) = outcomes shw t @ outcomes shw u"
  by (induction shw t rule: outcomes.induct) simp_all

lemma length_outcomes [simp]: "length (outcomes shw t) = length (answered t)"
  by (induction shw t rule: outcomes.induct) simp_all

text \<open>The entry of each call: its name, and the outcome of its result once it has one.\<close>

definition entries_of :: "(json \<Rightarrow> str) \<Rightarrow> action list \<Rightarrow> ((str option \<times> str) \<times> str option) list" where
  "entries_of shw t =
     zip (map call_name (announced t))
       (map Some (outcomes shw t) @ replicate (length (announced t) - length (answered t)) None)"

definition logged_entries :: "work_log \<Rightarrow> ((str option \<times> str) \<times> str option) list" where
  "logged_entries log = map (\<lambda>c. ((lc_id c, lc_tool c), lc_outcome c)) (wl_calls log)"

text \<open>The calls that wait for their result have ids of their own.\<close>

definition distinct_waiting :: "action list \<Rightarrow> bool" where
  "distinct_waiting t \<longleftrightarrow>
     (\<forall>pre post. t = pre @ post \<longrightarrow> distinct (map tc_id (drop (length (answered pre)) (announced pre))))"

lemma last_index_only:
  assumes "n < length xs" and "\<And>k. k < length xs \<Longrightarrow> p (xs ! k) \<longleftrightarrow> k = n"
  shows "last_index p xs = Some n"
proof (cases "last_index p xs")
  case None
  then show ?thesis using assms by (auto simp: last_index_None)
next
  case (Some i)
  then show ?thesis using assms(2)[of i] last_index_Some[OF Some] by simp
qed

lemma log_other: "kind a \<noteq> KCall \<Longrightarrow> kind a \<noteq> KResult \<Longrightarrow> log_event shw parse log a = log \<and>
    announced [a] = [] \<and> answered [a] = [] \<and> outcomes shw [a] = []"
  by (cases a rule: kind.cases; (rename_tac ev, case_tac ev)?) (simp_all add: log_event_def)

lemma run_log_entries:
  assumes "judged answers_next [] t" and "judged named_call [] t" and "distinct_waiting t"
  shows "logged_entries (run_log shw parse t) = entries_of shw t"
  using assms
proof (induction t rule: rev_induct)
  case Nil
  then show ?case by (simp add: run_log_def logged_entries_def entries_of_def empty_log_def)
next
  case (snoc a t)
  let ?log = "run_log shw parse t" and ?n = "length (answered t)"
  have t: "judged answers_next [] t" "judged named_call [] t" "answers_next t a"
    using snoc.prems(1,2) by (auto simp: judged_append judged_Cons)
  have "distinct_waiting t" using snoc.prems(3) unfolding distinct_waiting_def by (metis append_assoc)
  then have IH: "logged_entries ?log = entries_of shw t" using snoc.IH t(1,2) by blast
  have le: "?n \<le> length (announced t)" using judged_answers[OF t(1)] by blast
  have log: "run_log shw parse (t @ [a]) = log_event shw parse ?log a" by (simp add: run_log_def)
  have len: "length (wl_calls ?log) = length (announced t)"
    using arg_cong[OF IH, of length] le by (simp add: logged_entries_def entries_of_def)
  consider "kind a = KCall" | "kind a = KResult" | "kind a \<noteq> KCall" "kind a \<noteq> KResult" by blast
  then show ?case
  proof cases
    case 1
    then obtain call ui where a: "a = Yield (Event (ToolCallEvent call ui))"
      by (cases a rule: kind.cases) (auto elim!: event_kind.elims)
    let ?ends = "map Some (outcomes shw t) @ replicate (length (announced t) - ?n) None"
    have "map Some (outcomes shw (t @ [a])) @ replicate (length (announced (t @ [a])) - length (answered (t @ [a]))) None = ?ends @ [None]"
      using le by (simp add: a Suc_diff_le replicate_append_same)
    moreover have "zip (map call_name (announced t) @ [call_name call]) (?ends @ [None]) = entries_of shw t @ [(call_name call, None)]"
      using le by (subst zip_append) (simp_all add: entries_of_def)
    ultimately have "entries_of shw (t @ [a]) = entries_of shw t @ [(call_name call, None)]"
      unfolding entries_of_def[of shw "t @ [a]"] by (simp add: a)
    then show ?thesis using IH log by (simp add: a log_event_def record_call_def logged_entries_def call_name_def Let_def)
  next
    case 2
    then obtain i name v ui app where a: "a = Yield (Event (ToolResult i name v ui app))"
      by (cases a rule: kind.cases) (auto elim!: event_kind.elims)
    then have n: "?n < length (announced t)" and call: "call_name (announced t ! ?n) = (i, name)"
      using t(3) by (auto simp: answers_next_def)
    have entry: "(lc_id (wl_calls ?log ! k), lc_tool (wl_calls ?log ! k)) = call_name (announced t ! k) \<and>
        (lc_outcome (wl_calls ?log ! k) = None \<longleftrightarrow> ?n \<le> k)" if k: "k < length (announced t)" for k
    proof -
      have "logged_entries ?log ! k = entries_of shw t ! k" using IH by simp
      then show ?thesis using k le len by (auto simp: logged_entries_def entries_of_def nth_append)
    qed
    have ids: "tc_id (announced t ! k) \<noteq> None" if "k < length (announced t)" for k
      using announced_named[OF t(2) nth_mem[OF that]] .
    have "distinct (map tc_id (drop ?n (announced t)))"
      using snoc.prems(3) unfolding distinct_waiting_def by blast
    then have same: "k = ?n" if "?n \<le> k" "k < length (announced t)" "tc_id (announced t ! k) = tc_id (announced t ! ?n)" for k
      using that n nth_eq_iff_index_eq[of "map tc_id (drop ?n (announced t))" "k - ?n" 0] by simp
    have "last_index (awaits i name) (wl_calls ?log) = Some ?n"
    proof (rule last_index_only)
      show "?n < length (wl_calls ?log)" using n len by simp
      fix k assume "k < length (wl_calls ?log)"
      then have k: "k < length (announced t)" using len by simp
      show "awaits i name (wl_calls ?log ! k) \<longleftrightarrow> k = ?n"
        using entry[OF k] entry[OF n] ids[OF k] ids[OF n] same[of k] k call
        by (auto simp: awaits_def call_name_def split: option.splits)
    qed
    then have "logged_entries (record_result shw i name v ?log) =
        (logged_entries ?log)[?n := ((i, name), Some (fst (tool_outcome shw v)))]"
      using entry[OF n] call n len
      by (simp add: record_result_def Let_def case_prod_unfold logged_entries_def map_update)
    moreover have "entries_of shw (t @ [a]) = (entries_of shw t)[?n := ((i, name), Some (fst (tool_outcome shw v)))]"
    proof (rule nth_equalityI)
      show "length (entries_of shw (t @ [a])) = length ((entries_of shw t)[?n := ((i, name), Some (fst (tool_outcome shw v)))])"
        using n le by (simp add: entries_of_def a)
      fix k assume "k < length (entries_of shw (t @ [a]))"
      then have "k < length (announced t)" using n by (simp add: entries_of_def a)
      then show "entries_of shw (t @ [a]) ! k = (entries_of shw t)[?n := ((i, name), Some (fst (tool_outcome shw v)))] ! k"
        using n call by (cases "k = ?n") (auto simp: entries_of_def a nth_append nth_list_update)
    qed
    ultimately show ?thesis using IH log by (simp add: a log_event_def)
  next
    case 3
    then show ?thesis using IH log log_other[OF 3, of shw parse ?log]
      by (simp add: entries_of_def del: announced.simps answered.simps outcomes.simps)
  qed
qed

lemma run_log_of_run:
  assumes "ru_trace (agent_loop c msgs w) = t @ u" and "distinct_waiting t"
  shows "logged_entries (run_log shw parse t) = entries_of shw t"
proof (rule run_log_entries[OF _ _ assms(2)])
  show "judged answers_next [] t" using results_answer_calls[of c msgs w] by (simp add: assms(1) judged_append)
  show "judged named_call [] t" using announced_calls_named[of c msgs w] by (simp add: assms(1) judged_append)
qed

end
