(* ===== verification/Output_Properties.thy ===== *)
theory Output_Properties
  imports Run_Output Run_Log Agent_Example
begin

text \<open>
  The output of a run: what a retry leaves of the attempts before it, and what the work log keeps.
\<close>

section \<open>Retries\<close>



definition starts_char :: "str \<Rightarrow> bool" where
  "starts_char s \<longleftrightarrow> s = [] \<or> \<not> is_cont (hd s)"













section \<open>After an answer cut off at the output limit\<close>

text \<open>A response cut off at the output limit joins the conversation and the run goes on, but nothing tells
  the buffer that a new step began: when that step is stopped, the text kept for it holds the response again,
  which the conversation already has.\<close>

theorem cut_off_text_kept_twice:
  assumes "ru_length_recoveries st < MAX_LENGTH_RECOVERIES" and "ru_iteration st < max_iterations c"
    and "budget_reason (re_money c) (fst (clock c (ru_world st))) (ru_budget st) = None"
    and "rp_content r \<noteq> []" and "starts_char (rp_content r)" and "\<not> db_boundary d"
    and "db_step_start d \<le> length (db_model d)" and "drop (db_step_start d) (db_model d) = rp_content r"
  shows "\<exists>st'. no_calls c r True st = (Some (), st') \<and> ru_trace st' = ru_trace st \<and>
    ru_messages st' = ru_messages st @ [assistant_message (Some (CText (rp_content r))) None r] \<and>
    step_text (push_text t d) = trim_start (rp_content r @ t)"
proof -
  have "db_model d = take (db_step_start d) (db_model d) @ rp_content r"
    using assms(8) append_take_drop_id[of "db_step_start d" "db_model d"] by simp
  then have "db_step_start d < length (db_model d)" "db_model d ! db_step_start d = hd (rp_content r)"
    using assms(4,7) by (metis append_Nil2 append_take_drop_id assms(8) drop_eq_Nil linorder_not_le, metis assms(8) hd_drop_conv_nth drop_eq_Nil linorder_not_le)
  then have "step_text (push_text t d) = trim_start (rp_content r @ t)"
    using assms(4-8) by (simp add: step_text_def push_text_def Let_def nth_append starts_char_def)
  then show ?thesis
    using assms(1-4) by (simp add: applied case_prod_unfold)
qed

theorem cut_off_text_kept_twice_witness:
  "step_text (push_text '' and off'' (push_text ''on'' new_buffer)) = ''on and off'' \<and>
     (\<exists>st'. no_calls demo_run (empty_response\<lparr>rp_content := ''on''\<rparr>) True (new_run demo_run demo_messages []) = (Some (), st') \<and>
        ru_messages st' = demo_messages @ [text_message ''assistant'' ''on''])"
proof -
  let ?r = "empty_response\<lparr>rp_content := ''on''\<rparr>" and ?st = "new_run demo_run demo_messages []" and ?d = "push_text ''on'' new_buffer"
  have st: "ru_length_recoveries ?st < MAX_LENGTH_RECOVERIES" "ru_iteration ?st < max_iterations demo_run"
      "budget_reason (re_money demo_run) (fst (clock demo_run (ru_world ?st))) (ru_budget ?st) = None"
      "ru_messages ?st = demo_messages"
    using demo_no_limit by (simp_all add: new_run_def demo_fields MAX_LENGTH_RECOVERIES_def new_budget_def)
  have r: "rp_content ?r = ''on''" "assistant_message (Some (CText ''on'')) None ?r = text_message ''assistant'' ''on''"
    by (simp_all add: assistant_message_def empty_response_def text_message_def)
  have d: "\<not> db_boundary ?d" "db_step_start ?d = 0" "db_model ?d = ''on''"
    by (simp_all add: push_text_def new_buffer_def)
  have "starts_char ''on''" "trim_start ''on and off'' = ''on and off''" by code_simp+
  then show ?thesis
    using cut_off_text_kept_twice[OF st(1-3), of ?r ?d "'' and off''"] st(4) r d by auto
qed

section \<open>The work log\<close>

lemma read_entry: "read_line (call_entry c) \<noteq> None \<and> (\<forall>l. read_line (call_entry c) = Some l \<longrightarrow> line_calls l = 1)"
  by (simp add: read_line_def call_entry_def str_member_def Let_def)

lemma read_omitted: "int n \<le> U64_MAX \<Longrightarrow> read_line (mk_obj [(''omitted'', JInt (int n))]) = Some (OmittedLine n)"
  by (simp add: read_line_def as_index_def)

lemma read_entries: "sum_list (map line_calls (List.map_filter read_line (map call_entry cs))) = length cs \<and>
    (cs \<noteq> [] \<longrightarrow> List.map_filter read_line (map call_entry cs) \<noteq> [])"
proof (induction cs)
  case (Cons c cs)
  then show ?case using read_entry[of c] by (auto simp: map_filter_simps)
qed (simp add: map_filter_simps)

lemma map_filter_append: "List.map_filter f (xs @ ys) = List.map_filter f xs @ List.map_filter f ys"
  by (simp add: map_filter_def)

lemma log_calls:
  assumes "to_value log = Some v" and "int (length (wl_calls log)) \<le> U64_MAX"
  shows "\<exists>ls. log_lines v = Some ls \<and> ls \<noteq> [] \<and> sum_list (map line_calls ls) = length (wl_calls log)"
proof -
  let ?n = "length (wl_calls log)"
  let ?h = "min ?n WORK_LOG_HEAD_CALLS"
  let ?t = "max (?n - WORK_LOG_TAIL_CALLS) ?h"
  let ?middle = "if ?h < ?t then [mk_obj [(''omitted'', JInt (int (?t - ?h)))]] else []"
  have n: "wl_calls log \<noteq> []" using assms(1) by (auto simp: to_value_def)
  have v: "jget ''entries'' v = Some (JArr (map call_entry (take ?h (wl_calls log)) @ ?middle @ map call_entry (drop ?t (wl_calls log))))"
    using assms(1) n by (auto simp: to_value_def Let_def)
  have marker: "List.map_filter read_line (if b then [mk_obj [(''omitted'', JInt (int k))]] else []) = (if b then [OmittedLine k] else [])"
    if "int k \<le> U64_MAX" for b k using read_omitted[OF that] by (simp add: map_filter_simps)
  have middle: "List.map_filter read_line ?middle = (if ?h < ?t then [OmittedLine (?t - ?h)] else [])"
    by (rule marker) (use assms(2) in linarith)
  have "?t \<le> ?n" "?h \<le> ?t" by auto
  moreover have "take ?h (wl_calls log) \<noteq> []" using n by (simp add: WORK_LOG_HEAD_CALLS_def)
  ultimately show ?thesis
    using read_entries[of "take ?h (wl_calls log)"] read_entries[of "drop ?t (wl_calls log)"]
    by (simp add: log_lines_def v map_filter_append middle)
qed

lemma head_count_le: "head_count limit used ls \<le> length ls"
  by (induction limit used ls rule: head_count.induct) auto

lemma tail_count_le: "tail_count r used ls \<le> length ls"
  by (induction r used ls rule: tail_count.induct) auto

lemma head_count_fits: "used \<le> limit \<Longrightarrow> used + sum_list (map line_len (take (head_count limit used ls) ls)) \<le> limit"
  by (induction limit used ls rule: head_count.induct) auto

lemma tail_count_fits:
  "tail_count r used ls = 0 \<or> used + sum_list (map line_len (take (tail_count r used ls) ls)) + MARKER_RESERVE \<le> r"
proof (induction r used ls rule: tail_count.induct)
  case (1 r used t ls)
  then show ?case by (cases "tail_count r (used + line_len (CallLine t)) ls") auto
qed auto

text \<open>The lines that fit: some from the start, a count of those left out, some from the end.\<close>

lemma fit_parts:
  assumes "remaining < sum_list (map line_len ls)"
  obtains xs ys zs where "ls = xs @ ys @ zs" and "fit_lines remaining ls = xs @ [OmittedLine (sum_list (map line_calls ys))] @ zs"
    and "sum_list (map line_len (xs @ zs)) \<le> remaining div 3 \<or> sum_list (map line_len (xs @ zs)) + MARKER_RESERVE \<le> remaining"
proof -
  define h where "h = head_count (remaining div 3) 0 ls"
  define rest where "rest = drop h ls"
  define used where "used = sum_list (map line_len (take h ls))"
  define k where "k = tail_count remaining used (rev rest)"
  have h: "h \<le> length ls" by (simp add: h_def head_count_le)
  have k: "k \<le> length rest" using tail_count_le[of remaining used "rev rest"] by (simp add: k_def)
  have t: "length ls - k = h + (length rest - k)" using h k by (simp add: rest_def)
  have t': "length ls - k - h = length rest - k" by (simp add: rest_def)
  have end_part: "drop (h + (length rest - k)) ls = drop (length rest - k) rest"
    by (simp add: rest_def drop_drop add.commute)
  have parts: "fit_lines remaining ls =
      take h ls @ [OmittedLine (sum_list (map line_calls (take (length rest - k) rest)))] @ drop (length rest - k) rest"
    using assms end_part by (simp add: fit_lines_def Let_def h_def[symmetric] used_def[symmetric] rest_def[symmetric] k_def[symmetric] t' del: diff_diff_left)
      (simp add: t)
  have whole: "ls = take h ls @ take (length rest - k) rest @ drop (length rest - k) rest"
    by (metis append_take_drop_id rest_def)
  have last_lines: "sum_list (map line_len (take k (rev rest))) = sum_list (map line_len (drop (length rest - k) rest))"
    by (simp add: take_rev rev_map[symmetric])
  have head: "used \<le> remaining div 3"
    using head_count_fits[of 0 "remaining div 3" ls] by (simp add: used_def h_def)
  have "k = 0 \<or> used + sum_list (map line_len (take k (rev rest))) + MARKER_RESERVE \<le> remaining"
    using tail_count_fits[of remaining used "rev rest"] unfolding k_def .
  then have "sum_list (map line_len (take h ls @ drop (length rest - k) rest)) \<le> remaining div 3 \<or>
      sum_list (map line_len (take h ls @ drop (length rest - k) rest)) + MARKER_RESERVE \<le> remaining"
    using head by (auto simp: last_lines used_def)
  then show ?thesis using that whole parts by blast
qed

lemma fit_calls: "sum_list (map line_calls (fit_lines remaining ls)) = sum_list (map line_calls ls)"
proof (cases "remaining < sum_list (map line_len ls)")
  case True
  then show ?thesis by (rule fit_parts) simp
qed (simp add: fit_lines_def)

lemma digits_length: "n < 10 ^ Suc k \<Longrightarrow> length (digits_rev n) \<le> Suc k"
proof (induction k arbitrary: n)
  case 0
  then show ?case by (simp add: digits_rev.simps)
next
  case (Suc k)
  then have "n div 10 < 10 ^ Suc k" by (simp add: less_mult_imp_div_less mult.commute)
  then show ?case using Suc.IH[of "n div 10"] by (subst digits_rev.simps) simp
qed

lemma marker_length: "n < 10 ^ 13 \<Longrightarrow> line_len (OmittedLine n) \<le> MARKER_RESERVE"
  using digits_length[of n 12] by (auto simp: line_len_def show_nat_def ellipsis_char_def MARKER_RESERVE_def)

text \<open>C39. However long the run, the stored work log read back accounts for every call of it, and so does
  what is rendered of it, which fits what the budget leaves for calls, or a third of it and the forty bytes
  kept for the line that counts the calls left out.\<close>

theorem work_log_accounts_for_calls:
  assumes "to_value log = Some v" and "length (wl_calls log) < 10 ^ 13"
  shows "\<exists>ls. log_lines v = Some ls \<and> ls \<noteq> [] \<and>
    sum_list (map line_calls (fit_lines remaining ls)) = length (wl_calls log) \<and>
    sum_list (map line_len (fit_lines remaining ls)) \<le> max remaining (remaining div 3 + MARKER_RESERVE)"
proof -
  have "int (length (wl_calls log)) \<le> U64_MAX" using assms(2) by (simp add: U64_MAX_def)
  then obtain ls where ls: "log_lines v = Some ls" "ls \<noteq> []" "sum_list (map line_calls ls) = length (wl_calls log)"
    using log_calls[OF assms(1)] by blast
  have "sum_list (map line_len (fit_lines remaining ls)) \<le> max remaining (remaining div 3 + MARKER_RESERVE)"
  proof (cases "remaining < sum_list (map line_len ls)")
    case True
    then obtain xs ys zs where parts: "ls = xs @ ys @ zs" "fit_lines remaining ls = xs @ [OmittedLine (sum_list (map line_calls ys))] @ zs"
        "sum_list (map line_len (xs @ zs)) \<le> remaining div 3 \<or> sum_list (map line_len (xs @ zs)) + MARKER_RESERVE \<le> remaining"
      by (rule fit_parts)
    have "line_len (OmittedLine (sum_list (map line_calls ys))) \<le> MARKER_RESERVE"
      by (rule marker_length) (use ls(3) parts(1) assms(2) in simp)
    then show ?thesis using parts(2,3) by auto
  qed (simp add: fit_lines_def)
  then show ?thesis using ls fit_calls by auto
qed

theorem work_log_accounts_for_calls_witness:
  "\<exists>v ls. to_value (record_call (\<lambda>_. []) (\<lambda>_. None) None ''ls'' ''{}'' empty_log) = Some v \<and> log_lines v = Some ls \<and>
     sum_list (map line_calls (fit_lines 5 ls)) = 1"
proof -
  let ?log = "record_call (\<lambda>_. []) (\<lambda>_. None) None ''ls'' ''{}'' empty_log"
  have n: "length (wl_calls ?log) = 1" by (simp add: record_call_def empty_log_def Let_def)
  then have "wl_calls ?log \<noteq> []" by auto
  then have "\<exists>v. to_value ?log = Some v" by (simp add: to_value_def Let_def)
  then obtain v where "to_value ?log = Some v" by blast
  then show ?thesis using work_log_accounts_for_calls[of ?log v 5] n by auto
qed

text \<open>C15. At any point of a run, its work log has one entry for each call announced so far, in order and under
  its name, with the outcome of the call's own result once the result is there: the entry a result closes
  is found by the call id, and that is enough while no two waiting calls share one.\<close>

theorem work_log_follows_run:
  assumes "ru_trace (agent_loop c msgs w) = t @ u" and "distinct_waiting t"
  shows "logged_entries (run_log shw parse t) = entries_of shw t"
  using assms by (rule run_log_of_run)

lemma demo_announced: "announced demo_trace = [write_call]"
  by (simp add: demo_trace_eq demo_parts)

lemma demo_waiting: "distinct_waiting demo_trace"
  unfolding distinct_waiting_def
proof (intro allI impI)
  fix pre post
  assume "demo_trace = pre @ post"
  then have "announced pre @ announced post = [write_call]" using demo_announced by (metis announced_append)
  then have "length (announced pre) \<le> 1" by (metis One_nat_def le_add1 length_Cons length_append list.size(3))
  then show "distinct (map tc_id (drop (length (answered pre)) (announced pre)))"
    by (cases "announced pre") (auto simp: drop_Cons split: nat.split)
qed

theorem work_log_follows_run_witness:
  "logged_entries (run_log (\<lambda>_. []) (\<lambda>_. None) demo_trace) = [((Some ''c1'', ''write''), Some ''ok'')]"
proof -
  have "answered demo_trace = [(Some ''c1'', ''write'')]" "outcomes (\<lambda>_. []) demo_trace = [''ok'']"
    by (simp_all add: demo_trace_eq demo_parts tool_outcome_def flagged_def Let_def)
  then have "entries_of (\<lambda>_. []) demo_trace = [((Some ''c1'', ''write''), Some ''ok'')]"
    by (simp add: entries_of_def demo_announced write_call_def call_name_def)
  then show ?thesis
    using work_log_follows_run[of demo_run demo_messages demo_script demo_trace "[]", OF _ demo_waiting]
    by (simp add: demo_trace_def)
qed

end
