(* ===== verification/Credential_Scrub.thy ===== *)
theory Credential_Scrub
  imports Ledger_Schema Tool_Output Message_Json
begin

text \<open>
  What the run journal takes out of a value before it is stored: credentials by the name of their
  field or by their shape in a text, and what the privacy mode asks for
  (crates/milim-server/src/control/journal.rs). The regular expressions are a parameter that gives
  their matches in a text, group by group, and the privacy gate's detection and redaction of personal
  data are parameters as well.
\<close>

section \<open>Spans\<close>

datatype credential_rule = PrivateKey | PrefixedToken | AuthorizationHeader | Bearer | KeyValue

definition credential_rules :: "credential_rule list" where
  "credential_rules = [PrivateKey, PrefixedToken, AuthorizationHeader, Bearer, KeyValue]"

text \<open>A match: the span of the whole and of each group that took part.\<close>

type_synonym span = "nat \<times> nat"
type_synonym captures = "span option list"

definition group :: "captures \<Rightarrow> nat \<Rightarrow> span option" where
  "group cs i = (if i < length cs then cs ! i else None)"

definition span_text :: "str \<Rightarrow> span \<Rightarrow> str" where
  "span_text t s = take (snd s - fst s) (drop (fst s) t)"

definition is_ascii_digit :: "char \<Rightarrow> bool" where
  "is_ascii_digit c \<longleftrightarrow> (let n = (of_char c :: nat) in 48 \<le> n \<and> n \<le> 57)"

definition secret_like :: "str \<Rightarrow> bool" where
  "secret_like v \<longleftrightarrow>
     \<not> (v \<noteq> [] \<and> hd v \<in> set ''${<%*['') \<and> 8 \<le> length v \<and> (20 \<le> length v \<or> list_ex is_ascii_digit v)"

text \<open>The backslash of an escape counts as a separator together with its letter.\<close>

definition starts_token :: "str \<Rightarrow> nat \<Rightarrow> bool" where
  "starts_token t start =
     (case rev (take start t) of
        [] \<Rightarrow> True
      | c # rest \<Rightarrow>
          (rest \<noteq> [] \<and> hd rest = CHR 0x5C \<and> c \<in> set ''nrt'') \<or>
          \<not> (is_alphanumeric c \<or> c = CHR ''_'' \<or> c = CHR ''-''))"

definition credential_span :: "credential_rule \<Rightarrow> str \<Rightarrow> captures \<Rightarrow> span option" where
  "credential_span r t cs =
     Option.bind (group cs 0) (\<lambda>whole.
       case r of
         PrivateKey \<Rightarrow> Some whole
       | PrefixedToken \<Rightarrow>
           (if starts_token t (fst whole) \<and>
               (\<not> starts_with ''sk-'' (span_text t whole) \<or> list_ex is_ascii_digit (span_text t whole))
            then Some whole else None)
       | AuthorizationHeader \<Rightarrow>
           Option.bind (group cs 2) (\<lambda>v.
             if group cs 1 \<noteq> None \<or> secret_like (span_text t v) then Some v else None)
       | Bearer \<Rightarrow>
           Option.bind (group cs 1) (\<lambda>v.
             if starts_token t (fst whole) \<and> secret_like (span_text t v) then Some v else None)
       | KeyValue \<Rightarrow>
           Option.bind (group cs 1) (\<lambda>v. if secret_like (span_text t v) then Some v else None))"

section \<open>Texts\<close>

definition REDACTED_CREDENTIAL :: str where "REDACTED_CREDENTIAL = ''[REDACTED_CREDENTIAL]''"

fun replace_spans :: "str \<Rightarrow> nat \<Rightarrow> span list \<Rightarrow> str" where
  "replace_spans t cursor [] = drop cursor t"
| "replace_spans t cursor (s # ss) =
     take (fst s - cursor) (drop cursor t) @ REDACTED_CREDENTIAL @ replace_spans t (snd s) ss"

type_synonym matcher = "credential_rule \<Rightarrow> str \<Rightarrow> captures list"

definition scrub_rule :: "matcher \<Rightarrow> credential_rule \<Rightarrow> str \<Rightarrow> str" where
  "scrub_rule m r t =
     (let spans = List.map_filter (credential_span r t) (m r t)
      in if spans = [] then t else replace_spans t 0 spans)"

definition scrub_credential_text :: "matcher \<Rightarrow> str \<Rightarrow> str" where
  "scrub_credential_text m t = foldl (\<lambda>t r. scrub_rule m r t) t credential_rules"

section \<open>Values\<close>

definition credential_names :: "str list" where
  "credential_names = [''authorization'', ''apikey'', ''accesstoken'', ''refreshtoken'', ''bearertoken'',
     ''devicekey'', ''clientsecret'', ''password'', ''secret'']"

definition credential_field :: "str \<Rightarrow> json \<Rightarrow> bool" where
  "credential_field key v \<longleftrightarrow>
     map ascii_lower (filter is_alphanumeric key) \<in> set credential_names \<and>
     (case as_str v of None \<Rightarrow> False | Some t \<Rightarrow> t \<noteq> [])"

fun scrub_credential_value :: "matcher \<Rightarrow> json \<Rightarrow> json" where
  "scrub_credential_value m (JStr t) = JStr (scrub_credential_text m t)"
| "scrub_credential_value m (JArr vs) = JArr (map (scrub_credential_value m) vs)"
| "scrub_credential_value m (JObj kvs) =
     JObj (map (\<lambda>(k, v). (k, if credential_field k v then JStr REDACTED_CREDENTIAL
                             else scrub_credential_value m v)) kvs)"
| "scrub_credential_value m v = v"

section \<open>The privacy mode\<close>

datatype privacy_mode = PrivacyOff | PrivacyRedact | PrivacyBlock

text \<open>A request is its messages and the other members of its stored form.\<close>

type_synonym stored_request = "chat_message list \<times> (str \<times> json) list"

record privacy_gate =
  redact_text :: "str \<Rightarrow> str"
  is_clean_text :: "str \<Rightarrow> bool"
  is_clean_request :: "stored_request \<Rightarrow> bool"
  redact_request :: "stored_request \<Rightarrow> stored_request"

definition request_has_image_parts :: "chat_message list \<Rightarrow> bool" where
  "request_has_image_parts ms \<longleftrightarrow>
     list_ex (\<lambda>m. case mg_content m of
        Some (CParts ps) \<Rightarrow> list_ex (\<lambda>p. case p of PImage _ _ \<Rightarrow> True | _ \<Rightarrow> False) ps | _ \<Rightarrow> False) ms"

definition BLOCKED :: str where
  "BLOCKED = ''blocked by the privacy gate before run-ledger persistence''"

definition resolve_text :: "privacy_gate \<Rightarrow> privacy_mode \<Rightarrow> matcher \<Rightarrow> str \<Rightarrow> error + str" where
  "resolve_text g mode m t =
     (case mode of
        PrivacyOff \<Rightarrow> Inr (scrub_credential_text m t)
      | PrivacyRedact \<Rightarrow> Inr (scrub_credential_text m (redact_text g t))
      | PrivacyBlock \<Rightarrow>
          if is_clean_text g t then Inr (scrub_credential_text m t) else Inl (InvalidRequest BLOCKED))"

fun collect_ok :: "('a \<Rightarrow> 'e + 'b) \<Rightarrow> 'a list \<Rightarrow> 'e + 'b list" where
  "collect_ok f [] = Inr []"
| "collect_ok f (x # xs) = ebind (f x) (\<lambda>y. ebind (collect_ok f xs) (\<lambda>ys. Inr (y # ys)))"

lemma collect_ok_cong [fundef_cong]:
  "xs = ys \<Longrightarrow> (\<And>x. x \<in> set ys \<Longrightarrow> f x = g x) \<Longrightarrow> collect_ok f xs = collect_ok g ys"
  by (induction ys arbitrary: xs) simp_all

function resolve_value :: "privacy_gate \<Rightarrow> privacy_mode \<Rightarrow> matcher \<Rightarrow> json \<Rightarrow> error + json" where
  "resolve_value g mode m (JStr t) = ebind (resolve_text g mode m t) (\<lambda>t. Inr (JStr t))"
| "resolve_value g mode m (JArr vs) = ebind (collect_ok (resolve_value g mode m) vs) (\<lambda>vs. Inr (JArr vs))"
| "resolve_value g mode m (JObj kvs) =
     ebind (collect_ok (\<lambda>kv. if credential_field (fst kv) (snd kv) then Inr (fst kv, JStr REDACTED_CREDENTIAL)
                else ebind (resolve_value g mode m (snd kv)) (\<lambda>v. Inr (fst kv, v))) kvs)
       (\<lambda>kvs. Inr (JObj kvs))"
| "resolve_value g mode m JNull = Inr JNull"
| "resolve_value g mode m (JBool b) = Inr (JBool b)"
| "resolve_value g mode m (JInt n) = Inr (JInt n)"
| "resolve_value g mode m (JFloat n) = Inr (JFloat n)"
  by pat_completeness auto
termination
proof (relation "measure (\<lambda>(g, mode, m, v). size v)")
  fix g mode m kvs and kv :: "str \<times> json"
  assume "kv \<in> set kvs"
  then show "((g, mode, m, snd kv), g, mode, m, JObj kvs) \<in> measure (\<lambda>(g, mode, m, v). size v)"
    using size_member[of kv kvs] by simp
qed (auto simp: less_Suc_eq_le dest: size_list_estimation')

definition request_value :: "stored_request \<Rightarrow> json" where
  "request_value r = mk_obj (snd r @ [(''messages'', JArr (map message_json (fst r)))])"

definition resolve_request ::
  "privacy_gate \<Rightarrow> privacy_mode \<Rightarrow> matcher \<Rightarrow> stored_request \<Rightarrow> error + json" where
  "resolve_request g mode m r =
     (case mode of
        PrivacyOff \<Rightarrow> Inr (scrub_credential_value m (request_value r))
      | PrivacyBlock \<Rightarrow>
          if request_has_image_parts (fst r) \<or> \<not> is_clean_request g r then Inl (InvalidRequest BLOCKED)
          else Inr (scrub_credential_value m (request_value r))
      | PrivacyRedact \<Rightarrow>
          if request_has_image_parts (fst r) then
            Inl (InvalidRequest (BLOCKED @ '': image data cannot be redacted''))
          else Inr (scrub_credential_value m (request_value (redact_request g r))))"

end
