(* ===== verification/Turn_Messages.thy ===== *)
theory Turn_Messages
  imports Run_Journal
begin

text \<open>
  The messages of a finished run, recorded for later turns (crates/milim-server/src/control/journal.rs,
  \<open>TurnMessages\<close>): rebuilt from the ledger, with an answer for every call that never got one.
\<close>

record turn_messages =
  tm_model :: str
  tm_privacy :: str
  tm_messages :: "chat_message list"

definition TURN_MESSAGES_EVENT :: str where
  "TURN_MESSAGES_EVENT = ''turn_messages_committed''"

definition UNANSWERED_TOOL_CALL :: str where
  "UNANSWERED_TOOL_CALL = ''[no result: the turn ended before this tool call returned; it may not have run]''"

section \<open>Open calls\<close>

text \<open>The calls without a result. \<open>k\<close> results without an id answer as many calls without one.\<close>

fun unanswered :: "str option list \<Rightarrow> nat \<Rightarrow> tool_call list \<Rightarrow> tool_call list" where
  "unanswered answers k [] = []"
| "unanswered answers k (c # cs) =
     (case tc_id c of
        Some i \<Rightarrow> (if Some i \<in> set answers then unanswered answers k cs else c # unanswered answers k cs)
      | None \<Rightarrow> (if 0 < k then unanswered answers (k - 1) cs else c # unanswered answers k cs))"

definition answer_open_tool_calls :: "chat_message list \<Rightarrow> chat_message list" where
  "answer_open_tool_calls ms =
     (case last_index calls_tools ms of
        None \<Rightarrow> ms
      | Some i \<Rightarrow>
          let after = drop (i + 1) ms;
              answers = map mg_call_id (filter is_tool after);
              missing = unanswered answers (length (filter (\<lambda>a. a = None) answers)) (calls_of (ms ! i));
              place = (case first_index (\<lambda>m. \<not> is_tool m) after of None \<Rightarrow> length ms | Some k \<Rightarrow> i + 1 + k)
          in take place ms @ map (\<lambda>c. tool_result_message (tc_id c) UNANSWERED_TOOL_CALL) missing @ drop place ms)"

section \<open>From the ledger\<close>

definition same_step :: "event_row \<Rightarrow> event_row \<Rightarrow> bool" where
  "same_step r v \<longleftrightarrow> e_seq r < e_seq v \<and> e_step v = e_step r"

text \<open>What the run's last step added to its request.\<close>

definition step_output ::
  "journal_env \<Rightarrow> ledger \<Rightarrow> event_row list \<Rightarrow> str option \<Rightarrow> error + chat_message list" where
  "step_output je st evs partial_step =
     (case find (\<lambda>v. e_type v = ''model_response_committed'') evs of
        Some rs \<Rightarrow>
          ebind (run_artifact_value je st (e_data rs)) (\<lambda>res.
          ebind (response_message je res) (\<lambda>assistant.
          ebind (event_results je st evs) (\<lambda>results.
          Inr ((case assistant of None \<Rightarrow> [] | Some a \<Rightarrow> [a]) @ results))))
      | None \<Rightarrow>
          Inr (case partial_step of
                 None \<Rightarrow> []
               | Some t \<Rightarrow> (case replayed_assistant_message t [] [] None of None \<Rightarrow> [] | Some a \<Rightarrow> [a])))"

definition ledger_turn_messages ::
  "journal_env \<Rightarrow> ledger \<Rightarrow> str option \<Rightarrow> error + turn_messages option" where
  "ledger_turn_messages je st partial_step =
     ebind (control_run_events_by_types st (je_run je)
       [''model_request_resolved'', ''model_response_committed'', ''tool_result_committed'']) (\<lambda>evs.
     case last_event ''model_request_resolved'' evs of
       None \<Rightarrow> Inr None
     | Some rq \<Rightarrow>
         ebind (parse_value je (e_data rq)) (\<lambda>data.
         case Option.bind (jget ''request_index'' data) as_index of
           None \<Rightarrow> Inr None
         | Some i \<Rightarrow>
             ebind (run_artifact_value je st (e_data rq)) (\<lambda>sent.
             ebind (request_messages je sent) (\<lambda>ms.
             if \<not> (i < length ms \<and> mg_role (ms ! i) = ''user'') then Inr None
             else
               ebind (step_output je st (filter (same_step rq) evs) partial_step) (\<lambda>out.
               Inr (Some \<lparr>tm_model = member_text ''model'' sent,
                 tm_privacy = (case str_member ''privacy'' data of None \<Rightarrow> ''off'' | Some p \<Rightarrow> p),
                 tm_messages = answer_open_tool_calls (drop (i + 1) ms @ out)\<rparr>))))))"

section \<open>Recorded and read back\<close>

definition turn_json :: "turn_messages \<Rightarrow> json" where
  "turn_json t =
     mk_obj [(''model'', JStr (tm_model t)), (''privacy'', JStr (tm_privacy t)),
       (''messages'', JArr (map message_json (tm_messages t)))]"

definition read_turn :: "json \<Rightarrow> turn_messages option" where
  "read_turn v =
     Option.bind (str_member ''model'' v) (\<lambda>model.
     Option.bind (str_member ''privacy'' v) (\<lambda>privacy.
     map_option (\<lambda>ms. \<lparr>tm_model = model, tm_privacy = privacy, tm_messages = ms\<rparr>)
       (Option.bind (jget ''messages'' v) read_messages)))"

text \<open>The text of the step that was cut off, as it may be stored.\<close>

definition stored_partial :: "journal_env \<Rightarrow> str \<Rightarrow> str option" where
  "stored_partial je partial_step =
     (if trim partial_step = [] then None
      else (case stored_text je partial_step of Inr t \<Rightarrow> Some t | Inl _ \<Rightarrow> None))"

definition record_turn :: "journal_env \<Rightarrow> turn_messages \<Rightarrow> unit journal_op" where
  "record_turn je turn =
     jbind (put_artifact je ''turn_messages'' (turn_json turn)) (\<lambda>digest.
     append_run_event je None TURN_MESSAGES_EVENT
       (mk_obj [(''artifact_digest'', JStr digest), (''messages'', JInt (int (length (tm_messages turn))))]))"

definition commit_turn_messages :: "journal_env \<Rightarrow> str \<Rightarrow> unit journal_op" where
  "commit_turn_messages je partial_step =
     jbind (read_store (\<lambda>st. ledger_turn_messages je st (stored_partial je partial_step))) (\<lambda>turn.
     case turn of None \<Rightarrow> jgive (Inr ()) | Some turn \<Rightarrow> record_turn je turn)"

text \<open>The turn a run recorded, if it did.\<close>

definition recorded_messages :: "journal_env \<Rightarrow> ledger \<Rightarrow> str \<Rightarrow> error + turn_messages option" where
  "recorded_messages je st run_id =
     ebind (control_run_events_by_types st run_id [TURN_MESSAGES_EVENT]) (\<lambda>evs.
     if evs = [] then Inr None
     else
       ebind (run_artifact_value (je\<lparr>je_run := run_id\<rparr>) st (e_data (last evs))) (\<lambda>v.
       ebind (read_value je ''decode turn messages: '' (read_turn v)) (\<lambda>turn. Inr (Some turn))))"

lemma read_turn_json: "\<forall>m \<in> set (tm_messages t). storable m \<Longrightarrow> read_turn (turn_json t) = Some t"
  by (simp add: read_turn_def turn_json_def str_member_def read_messages_json)

end
