(* ===== verification/Thread_Replay.thy ===== *)
theory Thread_Replay
  imports Turn_Messages Work_Log Ledger_Runs
begin

text \<open>
  The conversation a new run starts from (crates/milim-server/src/control/provider.rs,
  \<open>control_chat_messages\<close>): rebuilt from the messages of the thread's timeline, with the recorded messages
  of the runs that have them and the text and work log of the others. What \<open>control_compaction_checkpoint\<close>
  reads is a parameter: the summary of the latest checkpoint and the ids of the messages it replaces.
\<close>

section \<open>Texts\<close>

definition blank_line :: str where
  "blank_line = [newline, newline]"

definition CHECKPOINT_NOTE :: str where
  "CHECKPOINT_NOTE = ''Previous thread context checkpoint. Treat this as the durable state for earlier messages that remain visible in the UI but are not replayed below.''"

definition IMAGE_NOT_REPLAYED :: str where
  "IMAGE_NOT_REPLAYED = ''[image from an earlier turn not replayed: the privacy gate does not send images]''"

fun skip_hashes :: "str \<Rightarrow> str" where
  "skip_hashes [] = []"
| "skip_hashes (c # s) = (if c = CHR 0x23 then skip_hashes s else c # s)"

text \<open>A checkpoint's summary without its heading. A heading that matches is ASCII, so the cut after it is
  the end of a character.\<close>

definition checkpoint_summary :: "str \<Rightarrow> str" where
  "checkpoint_summary content =
     (let content = trim content;
          unmarked = trim_start (skip_hashes content);
          heading = ''context checkpoint''
      in if length unmarked < length content \<and>
            to_ascii_lowercase (take (length heading) unmarked) = heading
         then trim_start (drop (length heading) unmarked) else content)"

definition append_paragraph :: "str \<Rightarrow> str \<Rightarrow> str" where
  "append_paragraph content t =
     (let content = trim_end content in (if content = [] then [] else content @ blank_line) @ t)"

definition assistant_replay_text :: "json \<Rightarrow> nat \<Rightarrow> str" where
  "assistant_replay_text message budget =
     (let t = (case Option.bind (case jget ''promptContent'' message of Some v \<Rightarrow> Some v | None \<Rightarrow> jget ''content'' message)
                 as_str of None \<Rightarrow> [] | Some t \<Rightarrow> t);
          sections = List.map_filter id
            [Option.bind (jget ''workLog'' message) (\<lambda>log. render_work_log log budget), str_member ''interruption'' message]
      in foldl append_paragraph t sections)"

section \<open>Members of a stored message\<close>

definition set_content :: "json \<Rightarrow> json \<Rightarrow> json" where
  "set_content c v = (case v of JObj kvs \<Rightarrow> JObj (obj_insert ''content'' c kvs) | _ \<Rightarrow> v)"

definition with_images :: "json \<Rightarrow> json" where
  "with_images v = (case v of JObj kvs \<Rightarrow> JObj (with_image_attachments kvs) | _ \<Rightarrow> v)"

definition replay_prompt_content :: "json \<Rightarrow> json" where
  "replay_prompt_content v =
     (case str_member ''promptContent'' v of None \<Rightarrow> v | Some t \<Rightarrow> set_content (JStr t) v)"

definition is_compaction_checkpoint :: "json \<Rightarrow> bool" where
  "is_compaction_checkpoint v \<longleftrightarrow>
     Option.bind (jget ''compaction'' v) (str_member ''kind'') = Some ''checkpoint''"

definition role_of :: "json \<Rightarrow> str option" where
  "role_of v = str_member ''role'' v"

definition run_of :: "json \<Rightarrow> str option" where
  "run_of v = str_member ''runId'' v"

definition is_steering :: "json \<Rightarrow> bool" where
  "is_steering v \<longleftrightarrow> flagged ''steering'' v"

section \<open>Recorded turns\<close>

record replay_target =
  rt_model :: str
  rt_privacy :: privacy_mode
  rt_tools :: bool

definition parse_privacy :: "str \<Rightarrow> privacy_mode" where
  "parse_privacy s = (if s = ''redact'' then PrivacyRedact else if s = ''block'' then PrivacyBlock else PrivacyOff)"

definition portable_char :: "char \<Rightarrow> char" where
  "portable_char c = (if is_alphanumeric c \<or> c \<in> {CHR ''_'', CHR ''-''} then c else CHR ''_'')"

text \<open>Each character that is not portable becomes one underscore, however many bytes it has.\<close>

definition portable_call_id :: "str \<Rightarrow> str" where
  "portable_call_id i = map portable_char (filter (\<lambda>c. \<not> is_cont c) i)"

definition portable_call :: "tool_call \<Rightarrow> tool_call" where
  "portable_call c = c\<lparr>tc_id := map_option portable_call_id (tc_id c)\<rparr>"

definition for_other_model :: "chat_message \<Rightarrow> chat_message" where
  "for_other_model m = m\<lparr>mg_provider := None, mg_reasoning := None,
     mg_calls := map_option (map portable_call) (mg_calls m),
     mg_call_id := map_option portable_call_id (mg_call_id m)\<rparr>"

fun without_image :: "content_part \<Rightarrow> content_part" where
  "without_image (PImage _ _) = PText IMAGE_NOT_REPLAYED"
| "without_image p = p"

definition without_images :: "chat_message \<Rightarrow> chat_message" where
  "without_images m = m\<lparr>mg_content := (case mg_content m of Some (CParts ps) \<Rightarrow> Some (CParts (map without_image ps)) | c \<Rightarrow> c)\<rparr>"

text \<open>Why the run ended early closes its last text, or follows it.\<close>

definition closes_text :: "chat_message \<Rightarrow> bool" where
  "closes_text m \<longleftrightarrow> mg_role m = ''assistant'' \<and> mg_calls m = None \<and>
     (case mg_content m of Some (CText t) \<Rightarrow> trim t \<noteq> [] | _ \<Rightarrow> False)"

definition add_interruption :: "str \<Rightarrow> chat_message list \<Rightarrow> chat_message list" where
  "add_interruption marker ms =
     (if ms \<noteq> [] \<and> closes_text (last ms) then
        butlast ms @ [(last ms)\<lparr>mg_content := Some (CText (trim_end (text_content (last ms)) @ blank_line @ marker))\<rparr>]
      else ms @ [text_message ''assistant'' marker])"

definition recorded_turn ::
  "journal_env \<Rightarrow> ledger \<Rightarrow> replay_target \<Rightarrow> str \<Rightarrow> json \<Rightarrow> chat_message list option" where
  "recorded_turn je st target run_id message =
     (case recorded_messages je st run_id of
        Inl _ \<Rightarrow> None
      | Inr None \<Rightarrow> None
      | Inr (Some turn) \<Rightarrow>
          if parse_privacy (tm_privacy turn) = PrivacyRedact \<or> \<not> list_ex (\<lambda>m. mg_role m = ''assistant'') (tm_messages turn)
          then None
          else
            let ms = (if tm_model turn \<noteq> rt_model target then map for_other_model (tm_messages turn) else tm_messages turn);
                ms = (if rt_privacy target \<noteq> PrivacyOff then map without_images ms else ms)
            in if rt_privacy target = PrivacyBlock \<and> \<not> is_clean_request (je_gate je) (ms, []) then None
               else Some (case str_member ''interruption'' message of None \<Rightarrow> ms | Some marker \<Rightarrow> add_interruption marker ms))"

section \<open>Runs without an answer\<close>

definition unanswered_run_marker :: "journal_env \<Rightarrow> ledger \<Rightarrow> str \<Rightarrow> error + chat_message list" where
  "unanswered_run_marker je st run_id =
     ebind (control_run st run_id) (\<lambda>run.
     case run of
       None \<Rightarrow> Inr []
     | Some r \<Rightarrow>
         if r_status r = ''cancelled'' then Inr [text_message ''assistant'' STOPPED_BY_USER_MARKER]
         else if r_status r = ''failed'' then
           let error = Option.bind (r_error r) (\<lambda>t. case env_parse (je_env je 0) t of Inr v \<Rightarrow> Some v | Inl _ \<Rightarrow> None);
               reason = (case Option.bind error (str_member ''message'') of None \<Rightarrow> ''the run failed'' | Some t \<Rightarrow> t)
           in Inr [text_message ''assistant'' (failed_run_marker reason)]
         else Inr [])"

section \<open>The transcript\<close>

text \<open>The messages so far, the recorded turns not yet replayed, the steering their runs never took, and
  the run of the last user turn while it has no answer.\<close>

record replay_state =
  rs_messages :: "chat_message list"
  rs_recorded :: "str \<Rightarrow> chat_message list option"
  rs_steering :: "chat_message list"
  rs_open :: "str option"

definition read_chat :: "journal_env \<Rightarrow> json \<Rightarrow> error + chat_message" where
  "read_chat je v = read_value je ''invalid control chat message: '' (read_message (with_images v))"

definition push_value :: "journal_env \<Rightarrow> json \<Rightarrow> replay_state \<Rightarrow> error + replay_state" where
  "push_value je v s = ebind (read_chat je v) (\<lambda>m. Inr (s\<lparr>rs_messages := rs_messages s @ [m]\<rparr>))"

definition replay_assistant :: "journal_env \<Rightarrow> nat \<Rightarrow> json \<Rightarrow> replay_state \<Rightarrow> error + replay_state" where
  "replay_assistant je budget v s =
     (let s = s\<lparr>rs_open := None\<rparr> in
      case Option.bind (run_of v) (rs_recorded s) of
        Some turn \<Rightarrow> Inr (s\<lparr>rs_messages := rs_messages s @ turn @ rs_steering s, rs_steering := [],
                            rs_recorded := (rs_recorded s)(the (run_of v) := None)\<rparr>)
      | None \<Rightarrow> push_value je (set_content (JStr (assistant_replay_text v budget)) v) s)"

definition replay_user ::
  "journal_env \<Rightarrow> ledger \<Rightarrow> (str \<Rightarrow> str option) \<Rightarrow> bool \<Rightarrow> json \<Rightarrow> replay_state \<Rightarrow> error + replay_state" where
  "replay_user je st contexts latest v s =
     ebind (case rs_open s of None \<Rightarrow> Inr [] | Some run \<Rightarrow> unanswered_run_marker je st run) (\<lambda>marker.
     let told = (if latest then [] else
           (case Option.bind (run_of v) contexts of None \<Rightarrow> [] | Some c \<Rightarrow> [text_message ''system'' c]))
     in push_value je (replay_prompt_content v)
          (s\<lparr>rs_messages := rs_messages s @ marker @ told, rs_open := run_of v\<rparr>))"

definition replay_steering :: "journal_env \<Rightarrow> json \<Rightarrow> replay_state \<Rightarrow> error + replay_state" where
  "replay_steering je v s =
     (let v = replay_prompt_content v in
      case Option.bind (run_of v) (rs_recorded s) of
        Some turn \<Rightarrow>
          if list_ex (\<lambda>m. mg_role m = ''user'' \<and> text_content m = member_text ''content'' v) turn then Inr s
          else ebind (read_chat je v) (\<lambda>m. Inr (s\<lparr>rs_steering := rs_steering s @ [m]\<rparr>))
      | None \<Rightarrow> push_value je v s)"

definition replay_value ::
  "journal_env \<Rightarrow> ledger \<Rightarrow> (str \<Rightarrow> str option) \<Rightarrow> nat option \<Rightarrow> nat option \<Rightarrow> nat \<times> json \<Rightarrow> replay_state \<Rightarrow>
     error + replay_state" where
  "replay_value je st contexts latest_user latest_assistant iv s =
     (case iv of (i, v) \<Rightarrow>
        if role_of v = Some ''assistant'' then
          replay_assistant je (if Some i = latest_assistant then WORK_LOG_LATEST_CHARS else WORK_LOG_EARLIER_CHARS) v s
        else if role_of v = Some ''user'' then
          (if is_steering v then replay_steering je v s
           else replay_user je st contexts (Some i = latest_user) v s)
        else push_value je (replay_prompt_content v) s)"

definition replay_stored ::
  "journal_env \<Rightarrow> ledger \<Rightarrow> replay_target \<Rightarrow> chat_message list \<Rightarrow> json list \<Rightarrow> error + replay_state" where
  "replay_stored je st target notes stored =
     (let assistants = List.map_filter (\<lambda>v. map_option (\<lambda>run. (run, v)) (run_of v))
            (filter (\<lambda>v. role_of v = Some ''assistant'') stored);
          contexts = List.map_filter (\<lambda>(run, v). map_option (Pair run) (str_member ''turnContext'' v)) assistants;
          recorded = (if rt_tools target
            then List.map_filter (\<lambda>(run, v). map_option (Pair run) (recorded_turn je st target run v)) assistants else [])
      in efold (replay_value je st (map_of (rev contexts))
             (last_index (\<lambda>v. role_of v = Some ''user'' \<and> \<not> is_steering v) stored)
             (last_index (\<lambda>v. role_of v = Some ''assistant'') stored))
           (enumerate 0 stored)
           \<lparr>rs_messages = notes, rs_recorded = map_of (rev recorded), rs_steering = [], rs_open = None\<rparr>)"

definition stored_messages :: "journal_env \<Rightarrow> ledger \<Rightarrow> str \<Rightarrow> error + json list" where
  "stored_messages je st thread_id =
     ebind (control_projected_messages (je_env je 0) st thread_id) (\<lambda>raws.
     ebind (collect_ok (\<lambda>raw. case env_parse (je_env je 0) raw of
         Inl err \<Rightarrow> Inl (Other (''invalid stored message: '' @ err)) | Inr v \<Rightarrow> Inr v) raws) (\<lambda>vs.
     Inr (filter (\<lambda>v. \<not> is_compaction_checkpoint v) vs)))"

definition control_chat_messages ::
  "journal_env \<Rightarrow> ledger \<Rightarrow> str \<Rightarrow> error + (str \<times> str list) option \<Rightarrow> replay_target \<Rightarrow> error + chat_message list" where
  "control_chat_messages je st thread_id checkpoint target =
     ebind (stored_messages je st thread_id) (\<lambda>stored.
     ebind checkpoint (\<lambda>checkpoint.
     ebind (case checkpoint of
         None \<Rightarrow> replay_stored je st target [] stored
       | Some (summary, replaced) \<Rightarrow>
           replay_stored je st target [text_message ''system'' (CHECKPOINT_NOTE @ blank_line @ checkpoint_summary summary)]
             (filter (\<lambda>v. case str_member ''id'' v of None \<Rightarrow> True | Some i \<Rightarrow> i \<notin> set replaced) stored)) (\<lambda>s.
     Inr (rs_messages s))))"

end
