(* ===== verification/Replay_Facts.thy ===== *)
theory Replay_Facts
  imports Thread_Replay Agent_Messages "HOL-Library.Multiset"
begin

text \<open>
  What is replayed to a model is settled: the recorded messages of a run answer every call, and so does
  the transcript a new run starts from.
\<close>

section \<open>Answering the open calls\<close>

abbreviation answers_in :: "chat_message list \<Rightarrow> str option list" where
  "answers_in ms \<equiv> map mg_call_id (filter is_tool ms)"

lemma unanswered_ids:
  "List.map_filter tc_id (unanswered answers k cs) = filter (\<lambda>i. Some i \<notin> set answers) (List.map_filter tc_id cs)"
  by (induction answers k cs rule: unanswered.induct) (auto simp: map_filter_simps split: option.splits if_splits)

lemma remove1_distinct: "distinct p \<Longrightarrow> remove1 c p = filter (\<lambda>i. i \<noteq> c) p"
  by (induction p) (auto intro!: filter_True[symmetric])

lemma quiet_turn: "\<not> calls_tools m \<Longrightarrow> (if mg_role m = ''assistant'' then call_ids m else []) = []"
  by (simp add: calls_tools_def call_ids_def calls_of_def map_filter_simps)

text \<open>While no message of a turn makes calls, the results only take calls away.\<close>

lemma pending_without_calls:
  assumes "coherent_from q ms" and "distinct q" and "\<forall>m \<in> set ms. \<not> calls_tools m"
  shows "pending_after q ms = filter (\<lambda>i. Some i \<notin> set (answers_in ms)) q"
  using assms
proof (induction ms arbitrary: q)
  case (Cons m ms)
  show ?case
  proof (cases "is_turn m")
    case True
    have calls: "(if mg_role m = ''assistant'' then call_ids m else []) = []"
      by (rule quiet_turn) (use Cons.prems in simp)
    then have "q = []" "coherent_from [] ms" using Cons.prems(1) True by simp_all
    then show ?thesis using Cons True calls by simp
  next
    case False
    then show ?thesis
      using Cons by (auto simp: remove1_distinct comp_def split: option.splits if_splits intro!: filter_cong)
  qed
qed simp

lemma coherent_fewer:
  assumes "coherent_from q ms" and "distinct q" and "\<forall>m \<in> set ms. \<not> calls_tools m"
    and "\<forall>i. Some i \<in> set (answers_in ms) \<longrightarrow> P i"
  shows "coherent_from (filter P q) ms"
  using assms
proof (induction ms arbitrary: q)
  case (Cons m ms)
  show ?case
  proof (cases "is_turn m")
    case True
    have calls: "(if mg_role m = ''assistant'' then call_ids m else []) = []"
      by (rule quiet_turn) (use Cons.prems in simp)
    then have "q = []" "coherent_from [] ms" using Cons.prems(1) True by simp_all
    then show ?thesis using Cons True calls by simp
  next
    case False
    then show ?thesis
      using Cons.IH[of q] Cons.IH[of "remove1 (the (mg_call_id m)) q"] Cons.prems
      by (cases "mg_call_id m") (auto simp: filter_remove1[symmetric] split: if_splits)
  qed
qed simp

lemma coherent_answers:
  assumes "\<forall>i \<in> set (List.map_filter tc_id cs). i \<in> set q" and "distinct (List.map_filter tc_id cs)" and "distinct q"
  shows "coherent_from q (map (\<lambda>c. tool_result_message (tc_id c) t) cs) \<and>
    pending_after q (map (\<lambda>c. tool_result_message (tc_id c) t) cs) = filter (\<lambda>i. i \<notin> set (List.map_filter tc_id cs)) q"
  using assms
proof (induction cs arbitrary: q)
  case (Cons c cs)
  have m: "\<not> is_turn (tool_result_message (tc_id c) t)" "is_tool (tool_result_message (tc_id c) t)"
      "mg_call_id (tool_result_message (tc_id c) t) = tc_id c"
    by (simp_all add: tool_result_message_def text_message_def is_turn_def is_tool_def)
  show ?case
  proof (cases "tc_id c")
    case None
    then show ?thesis using Cons m by (simp add: map_filter_simps)
  next
    case (Some i)
    have "\<forall>j \<in> set (List.map_filter tc_id cs). j \<in> set (filter (\<lambda>k. k \<noteq> i) q)" "distinct (List.map_filter tc_id cs)"
        "distinct (filter (\<lambda>k. k \<noteq> i) q)" "i \<in> set q"
      using Cons.prems Some by (auto simp: map_filter_simps)
    then show ?thesis
      using Cons.IH[of "filter (\<lambda>k. k \<noteq> i) q"] m Some Cons.prems(3)
      by (simp add: remove1_distinct map_filter_simps filter_filter)
  qed
qed simp

lemma settled_answered:
  assumes "coherent ms"
    and "\<And>i. last_index calls_tools ms = Some i \<Longrightarrow> distinct (call_ids (ms ! i))"
  shows "settled (answer_open_tool_calls ms)"
proof (cases "last_index calls_tools ms")
  case None
  then have "\<forall>m \<in> set ms. \<not> calls_tools m" by (simp add: last_index_None)
  then have "pending_after [] ms = []" using pending_without_calls[of "[]" ms] assms(1) by (simp add: coherent_def)
  then show ?thesis using assms(1) None by (simp add: answer_open_tool_calls_def open_calls_def)
next
  case (Some i)
  define a where "a = ms ! i"
  define after where "after = drop (i + 1) ms"
  define missing where "missing = unanswered (answers_in after) (length (filter (\<lambda>x. x = None) (answers_in after))) (calls_of a)"
  define k where "k = (case first_index (\<lambda>m. \<not> is_tool m) after of None \<Rightarrow> length after | Some k \<Rightarrow> k)"
  let ?new = "map (\<lambda>c. tool_result_message (tc_id c) UNANSWERED_TOOL_CALL) missing"
  have i: "i < length ms" "calls_tools a" using last_index_Some[OF Some] by (simp_all add: a_def)
  have ms: "ms = take i ms @ a # after" using i(1) by (simp add: a_def after_def id_take_nth_drop)
  have k: "k \<le> length after" by (auto simp: k_def first_index_Some split: option.splits)
  have len: "length ms = i + 1 + length after" using i(1) by (simp add: after_def)
  have place: "(case first_index (\<lambda>m. \<not> is_tool m) after of None \<Rightarrow> length ms | Some k \<Rightarrow> i + 1 + k) = i + 1 + k"
    using len by (simp add: k_def split: option.split)
  have cut: "take (i + 1 + k) ms = take i ms @ a # take k after" "drop (i + 1 + k) ms = drop k after"
    using take_add[of "i + 1" k ms] take_Suc_conv_app_nth[OF i(1)]
    by (simp_all add: after_def a_def add.commute)
  have result: "answer_open_tool_calls ms = take i ms @ a # take k after @ ?new @ drop k after"
    using Some place cut by (simp add: answer_open_tool_calls_def Let_def missing_def after_def a_def comp_def)
  have quiet: "\<forall>m \<in> set after. \<not> calls_tools m"
  proof
    fix m assume "m \<in> set after"
    then obtain j where j: "j < length after" "m = after ! j" by (auto simp: in_set_conv_nth)
    then have "i + 1 + j < length ms" using len by linarith
    then show "\<not> calls_tools m" using last_index_last[OF Some, of "i + 1 + j"] j(2) by (simp add: after_def)
  qed
  have turn: "is_turn a" "mg_role a = ''assistant''" using i(2) by (simp_all add: calls_tools_def is_turn_def)
  have pre: "coherent_from [] (take i ms)" "pending_after [] (take i ms) = []" "coherent_from (call_ids a) after"
    using assms(1) turn unfolding coherent_def by (subst (asm) ms, simp add: coherent_append)+
  define p where "p = pending_after (call_ids a) (take k after)"
  have d: "distinct (call_ids a)" using assms(2)[OF Some] by (simp add: a_def)
  have halves: "coherent_from (call_ids a) (take k after)" "coherent_from p (drop k after)"
    using pre(3) coherent_append[of "call_ids a" "take k after" "drop k after"] by (simp_all add: p_def)
  have p: "p = filter (\<lambda>i. Some i \<notin> set (answers_in (take k after))) (call_ids a)"
    using pending_without_calls[OF halves(1) d] quiet by (auto simp: p_def dest: in_set_takeD)
  have both: "set (answers_in after) = set (answers_in (take k after)) \<union> set (answers_in (drop k after))"
    by (metis append_take_drop_id filter_append map_append set_append)
  have ids: "List.map_filter tc_id missing = filter (\<lambda>i. Some i \<notin> set (answers_in after)) (call_ids a)"
    by (simp add: missing_def unanswered_ids call_ids_def)
  have new: "coherent_from p ?new" "pending_after p ?new = filter (\<lambda>i. i \<notin> set (List.map_filter tc_id missing)) p"
    using coherent_answers[of missing p UNANSWERED_TOOL_CALL] d both unfolding ids p by auto
  define q where "q = filter (\<lambda>i. i \<notin> set (List.map_filter tc_id missing)) p"
  have "\<forall>j. Some j \<in> set (answers_in (drop k after)) \<longrightarrow> j \<notin> set (List.map_filter tc_id missing)"
    using both unfolding ids by auto
  moreover have dp: "distinct p" using d by (simp add: p)
  moreover have quiet': "\<forall>m \<in> set (drop k after). \<not> calls_tools m" using quiet by (auto dest: in_set_dropD)
  ultimately have rest: "coherent_from q (drop k after)"
    unfolding q_def by (intro coherent_fewer[OF halves(2)])
  have "pending_after q (drop k after) = filter (\<lambda>i. Some i \<notin> set (answers_in (drop k after))) q"
    by (rule pending_without_calls[OF rest _ quiet']) (simp add: q_def dp)
  also have "\<dots> = []" using both unfolding q_def ids p by (auto simp: filter_empty_conv)
  finally show ?thesis
    using pre(1,2) turn halves(1) new rest
    unfolding result open_calls_def coherent_def
    by (simp add: coherent_append pending_append p_def[symmetric] q_def[symmetric])
qed

section \<open>Recorded turns\<close>

text \<open>Only how many pending calls bear an id matters, not their order.\<close>

lemma coherent_order: "mset p = mset q \<Longrightarrow> coherent_from p ms = coherent_from q ms \<and> mset (pending_after p ms) = mset (pending_after q ms)"
proof (induction ms arbitrary: p q)
  case (Cons m ms)
  have "p = [] \<longleftrightarrow> q = []" "set p = set q" using Cons.prems mset_eq_setD[of p q] by auto
  moreover have "mset (remove1 c p) = mset (remove1 c q)" for c using Cons.prems by simp
  ultimately show ?case
    using Cons.IH[of p q] Cons.IH[of "remove1 (the (mg_call_id m)) p" "remove1 (the (mg_call_id m)) q"] Cons.prems
    by (auto split: option.splits)
qed simp

lemma mset_remove1_map: "c \<in> set p \<Longrightarrow> mset (remove1 (f c) (map f p)) = mset (map f (remove1 c p))"
  by (simp add: image_mset_Diff)

lemma other_model_fields [simp]:
  "mg_role (for_other_model m) = mg_role m" "mg_call_id (for_other_model m) = map_option portable_call_id (mg_call_id m)"
  "call_ids (for_other_model m) = map portable_call_id (call_ids m)"
proof -
  have "List.map_filter (\<lambda>c. map_option portable_call_id (tc_id c)) cs = map portable_call_id (List.map_filter tc_id cs)" for cs
    by (induction cs) (simp_all add: map_filter_simps split: option.splits)
  moreover have "List.map_filter tc_id (map portable_call cs) = List.map_filter (\<lambda>c. map_option portable_call_id (tc_id c)) cs" for cs
    by (induction cs) (simp_all add: map_filter_simps portable_call_def split: option.splits)
  ultimately show "call_ids (for_other_model m) = map portable_call_id (call_ids m)"
    by (cases "mg_calls m") (simp_all add: for_other_model_def call_ids_def calls_of_def map_filter_simps)
qed (simp_all add: for_other_model_def)

lemma coherent_other_model:
  "coherent_from p ms \<Longrightarrow> coherent_from (map portable_call_id p) (map for_other_model ms) \<and>
     mset (pending_after (map portable_call_id p) (map for_other_model ms)) = mset (map portable_call_id (pending_after p ms))"
proof (induction ms arbitrary: p)
  case (Cons m ms)
  have turn: "is_turn (for_other_model m) = is_turn m" "is_tool (for_other_model m) = is_tool m"
    by (simp_all add: is_turn_def is_tool_def)
  show ?case
  proof (cases "is_turn m \<or> \<not> is_tool m")
    case True
    then show ?thesis
      using Cons.IH[of p] Cons.IH[of "call_ids m"] Cons.IH[of "[]"] Cons.prems turn by auto
  next
    case False
    show ?thesis
    proof (cases "mg_call_id m")
      case None
      then show ?thesis using Cons.IH[of p] Cons.prems False turn by simp
    next
      case (Some c)
      then have c: "c \<in> set p" "coherent_from (remove1 c p) ms" using Cons.prems False by auto
      show ?thesis
        using Cons.IH[OF c(2)] coherent_order[OF mset_remove1_map[OF c(1), of portable_call_id], of "map for_other_model ms"]
          False turn Some c(1) by auto
    qed
  qed
qed simp

lemma settled_other_model: "settled ms \<Longrightarrow> settled (map for_other_model ms)"
  using coherent_other_model[of "[]" ms] by (simp add: open_calls_def coherent_def)

lemma settled_fields:
  assumes "list_all2 (\<lambda>m n. mg_role n = mg_role m \<and> mg_calls n = mg_calls m \<and> mg_call_id n = mg_call_id m) ms ns"
  shows "coherent_from p ns = coherent_from p ms \<and> pending_after p ns = pending_after p ms"
  using assms
proof (induction arbitrary: p rule: list_all2_induct)
  case (Cons m ms n ns)
  then show ?case by (simp add: is_turn_def is_tool_def call_ids_def calls_of_def split: option.splits)
qed simp

lemma settled_without_images: "settled ms \<Longrightarrow> settled (map without_images ms)"
  using settled_fields[of ms "map without_images ms" "[]"]
  by (simp add: open_calls_def coherent_def without_images_def list_all2_map2 list_all2_same)

lemma settled_text: "settled ms \<Longrightarrow> settled (ms @ [text_message ''assistant'' t])"
  by (rule settled_append)
    (simp_all add: text_message_def is_turn_def call_ids_def calls_of_def map_filter_simps)

lemma settled_interruption:
  assumes "settled ms"
  shows "settled (add_interruption marker ms)"
proof (cases "ms \<noteq> [] \<and> closes_text (last ms)")
  case True
  let ?ns = "butlast ms @ [(last ms)\<lparr>mg_content := Some (CText (trim_end (text_content (last ms)) @ blank_line @ marker))\<rparr>]"
  have "list_all2 (\<lambda>m n. mg_role n = mg_role m \<and> mg_calls n = mg_calls m \<and> mg_call_id n = mg_call_id m)
      (butlast ms @ [last ms]) ?ns"
    by (rule list_all2_appendI) (simp_all add: list_all2_same)
  then show ?thesis
    using settled_fields[of ms ?ns "[]"] assms True
    by (simp add: add_interruption_def open_calls_def coherent_def)
next
  case False
  then have "add_interruption marker ms = ms @ [text_message ''assistant'' marker]"
    unfolding add_interruption_def by (rule if_not_P)
  then show ?thesis using settled_text[OF assms] by simp
qed

lemma settled_recorded:
  assumes "recorded_turn je st target run v = Some ms"
    and "\<And>turn. recorded_messages je st run = Inr (Some turn) \<Longrightarrow> settled (tm_messages turn)"
  shows "settled ms"
  using assms
  by (auto simp: recorded_turn_def Let_def settled_other_model settled_without_images settled_interruption
      simp del: map_map split: sum.splits option.splits if_splits)

section \<open>The transcript\<close>

text \<open>A stored message that neither makes calls nor answers one, as the messages of a transcript are.\<close>

definition plain :: "json \<Rightarrow> bool" where
  "plain v \<longleftrightarrow> jget ''tool_calls'' v = None \<and> role_of v \<noteq> Some ''tool''"

lemma plain_set_content [simp]: "plain v \<Longrightarrow> plain (set_content c v)"
  by (auto simp: plain_def set_content_def role_of_def str_member_def split: json.splits)

lemma plain_prompt [simp]: "plain v \<Longrightarrow> plain (replay_prompt_content v)"
  by (simp add: replay_prompt_content_def split: option.split)

lemma plain_images: "plain v \<Longrightarrow> plain (with_images v)"
  by (auto simp: plain_def with_images_def with_image_attachments_def role_of_def str_member_def Let_def split: json.splits)

lemma read_plain:
  assumes "plain v" and "read_chat je v = Inr m"
  shows "mg_calls m = None \<and> \<not> is_tool m"
  using plain_images[OF assms(1)] assms(2)
  by (auto simp: read_chat_def read_value_def read_message_def plain_def role_of_def is_tool_def Option.bind_eq_Some_conv
      split: option.splits)

lemma settled_both: "settled ms \<Longrightarrow> settled ns \<Longrightarrow> settled (ms @ ns)"
  by (rule settled_append) (simp_all add: open_calls_def coherent_def)

lemma settled_one: "mg_calls m = None \<Longrightarrow> \<not> is_tool m \<Longrightarrow> settled [m]"
  by (simp add: open_calls_def coherent_def call_ids_def calls_of_def map_filter_simps)

lemma settled_read: "plain v \<Longrightarrow> read_chat je v = Inr m \<Longrightarrow> settled ms \<Longrightarrow> settled (ms @ [m])"
  using read_plain[of v je m] by (auto intro: settled_both settled_one)

definition settled_state :: "replay_state \<Rightarrow> bool" where
  "settled_state s \<longleftrightarrow> settled (rs_messages s) \<and> settled (rs_steering s) \<and>
     (\<forall>run turn. rs_recorded s run = Some turn \<longrightarrow> settled turn)"

lemma settled_push:
  "settled_state s \<Longrightarrow> plain v \<Longrightarrow> push_value je v s = Inr s' \<Longrightarrow> settled_state s'"
  by (auto simp: push_value_def settled_state_def settled_read split: sum.splits elim!: ebind_InrE)

lemma settled_said [simp]: "settled []" "settled [text_message ''assistant'' t]" "settled [text_message ''system'' t]"
  by (auto simp: open_calls_def coherent_def text_message_def is_tool_def is_turn_def call_ids_def calls_of_def map_filter_simps)

lemma settled_marker: "unanswered_run_marker je st run = Inr ms \<Longrightarrow> settled ms"
  by (auto simp: unanswered_run_marker_def Let_def split: option.splits if_splits)

lemma settled_open: "settled_state s \<Longrightarrow> settled_state (s\<lparr>rs_open := r\<rparr>)"
  by (simp add: settled_state_def)

lemma settled_replay_assistant:
  assumes "settled_state s" and "plain v" and "replay_assistant je budget v s = Inr s'"
  shows "settled_state s'"
proof (cases "Option.bind (run_of v) (rs_recorded s)")
  case None
  then have "push_value je (set_content (JStr (assistant_replay_text v budget)) v) (s\<lparr>rs_open := None\<rparr>) = Inr s'"
    using assms(3) by (simp add: replay_assistant_def Let_def)
  then show ?thesis using settled_push[OF settled_open[OF assms(1)] plain_set_content[OF assms(2)]] by blast
next
  case (Some turn)
  then obtain run where run: "run_of v = Some run" "rs_recorded s run = Some turn" by (auto simp: Option.bind_eq_Some_conv)
  then have "s' = s\<lparr>rs_open := None, rs_messages := rs_messages s @ turn @ rs_steering s, rs_steering := [],
      rs_recorded := (rs_recorded s)(run := None)\<rparr>"
    using assms(3) by (simp add: replay_assistant_def Let_def)
  moreover have "settled (rs_messages s @ turn @ rs_steering s)"
    using assms(1) run(2) unfolding settled_state_def by (blast intro: settled_both)
  ultimately show ?thesis using assms(1) by (simp add: settled_state_def)
qed

lemma settled_replay_user:
  assumes "settled_state s" and "plain v" and "replay_user je st contexts latest v s = Inr s'"
  shows "settled_state s'"
proof -
  let ?told = "if latest then [] else case Option.bind (run_of v) contexts of None \<Rightarrow> [] | Some c \<Rightarrow> [text_message ''system'' c]"
  obtain marker where m: "(case rs_open s of None \<Rightarrow> Inr [] | Some run \<Rightarrow> unanswered_run_marker je st run) = Inr marker"
    and p: "push_value je (replay_prompt_content v) (s\<lparr>rs_messages := rs_messages s @ marker @ ?told, rs_open := run_of v\<rparr>) = Inr s'"
    using assms(3) by (auto simp: replay_user_def Let_def)
  have "settled marker" using m settled_marker by (cases "rs_open s") auto
  moreover have "settled ?told" by (simp split: option.split)
  ultimately have "settled (rs_messages s @ marker @ ?told)"
    using assms(1) unfolding settled_state_def by (blast intro: settled_both)
  then have "settled_state (s\<lparr>rs_messages := rs_messages s @ marker @ ?told, rs_open := run_of v\<rparr>)"
    using assms(1) by (simp add: settled_state_def)
  then show ?thesis by (rule settled_push[OF _ plain_prompt[OF assms(2)] p])
qed

lemma settled_replay_steering:
  assumes "settled_state s" and "plain v" and "replay_steering je v s = Inr s'"
  shows "settled_state s'"
proof (cases "Option.bind (run_of (replay_prompt_content v)) (rs_recorded s)")
  case None
  then have "push_value je (replay_prompt_content v) s = Inr s'" using assms(3) by (simp add: replay_steering_def Let_def)
  then show ?thesis by (rule settled_push[OF assms(1) plain_prompt[OF assms(2)]])
next
  case (Some turn)
  then have "s' = s \<or> (\<exists>m. read_chat je (replay_prompt_content v) = Inr m \<and> s' = s\<lparr>rs_steering := rs_steering s @ [m]\<rparr>)"
    using assms(3) by (auto simp: replay_steering_def Let_def split: if_splits)
  then show ?thesis
    using assms(1) settled_read[OF plain_prompt[OF assms(2)], of je _ "rs_steering s"] by (auto simp: settled_state_def)
qed

lemma settled_replay_value:
  assumes "settled_state s" and "plain (snd iv)" and "replay_value je st contexts lu la iv s = Inr s'"
  shows "settled_state s'"
proof -
  obtain i v where iv: "iv = (i, v)" by (cases iv)
  consider "role_of v = Some ''assistant''" | "role_of v = Some ''user''" "is_steering v"
    | "role_of v = Some ''user''" "\<not> is_steering v" | "role_of v \<noteq> Some ''assistant''" "role_of v \<noteq> Some ''user''" by blast
  then show ?thesis
    using assms settled_replay_assistant[OF assms(1)] settled_replay_user[OF assms(1)] settled_replay_steering[OF assms(1)]
      settled_push[OF assms(1), of "replay_prompt_content v"] plain_prompt
    by cases (simp_all add: replay_value_def iv)
qed

lemma settled_efold:
  assumes "efold (replay_value je st contexts lu la) ivs s = Inr s'" and "settled_state s" and "\<forall>iv \<in> set ivs. plain (snd iv)"
  shows "settled_state s'"
  using assms
proof (induction ivs arbitrary: s)
  case (Cons iv ivs)
  then obtain t where "replay_value je st contexts lu la iv s = Inr t" "efold (replay_value je st contexts lu la) ivs t = Inr s'"
    by auto
  then show ?case using Cons.IH[of t] Cons.prems(2,3) settled_replay_value[of s iv] by simp
qed simp

lemma settled_replay_stored:
  assumes "replay_stored je st target notes stored = Inr s" and "\<forall>v \<in> set stored. plain v" and "settled notes"
    and "\<And>run turn. recorded_messages je st run = Inr (Some turn) \<Longrightarrow> settled (tm_messages turn)"
  shows "settled (rs_messages s)"
proof -
  have recorded: "settled turn" if "map_of (rev (List.map_filter (\<lambda>(run, v). map_option (Pair run) (recorded_turn je st target run v)) xs)) run = Some turn"
    for run turn and xs :: "(str \<times> json) list"
    using map_of_SomeD[OF that] settled_recorded[OF _ assms(4)] by (auto simp: map_filter_def)
  have plain: "\<forall>iv \<in> set (enumerate 0 stored). plain (snd iv)"
  proof
    fix iv assume "iv \<in> set (enumerate 0 stored)"
    then have "fst iv < length stored" "snd iv = stored ! fst iv" by (auto simp: in_set_enumerate_eq)
    then show "plain (snd iv)" using assms(2) nth_mem by simp
  qed
  have "settled_state s"
    by (rule settled_efold[OF assms(1)[unfolded replay_stored_def Let_def] _ plain])
      (use assms(3) recorded in \<open>simp add: settled_state_def\<close>)
  then show ?thesis by (simp add: settled_state_def)
qed

section \<open>Steering\<close>

text \<open>While steering waits, the message of a recorded run it waits for is still to come.\<close>

definition waiting :: "json list \<Rightarrow> replay_state \<Rightarrow> bool" where
  "waiting vs s \<longleftrightarrow>
     (\<forall>run. rs_recorded s run \<noteq> None \<longrightarrow> (\<exists>v \<in> set vs. role_of v = Some ''assistant'' \<and> run_of v = Some run)) \<and>
     (rs_steering s \<noteq> [] \<longrightarrow> (\<exists>run. rs_recorded s run \<noteq> None))"

lemma push_fields:
  "push_value je v s = Inr s' \<Longrightarrow> rs_recorded s' = rs_recorded s \<and> rs_steering s' = rs_steering s"
  by (auto simp: push_value_def)

lemma waiting_assistant:
  assumes "waiting (v # vs) s" and "role_of v = Some ''assistant''" and "replay_assistant je budget v s = Inr s'"
  shows "waiting vs s'"
proof (cases "Option.bind (run_of v) (rs_recorded s)")
  case None
  then have same: "rs_recorded s' = rs_recorded s" "rs_steering s' = rs_steering s"
    using assms(3) push_fields by (fastforce simp: replay_assistant_def Let_def)+
  have "run_of v \<noteq> Some run" if "rs_recorded s run \<noteq> None" for run using that None by auto
  then show ?thesis using assms(1) same unfolding waiting_def by (metis set_ConsD)
next
  case (Some turn)
  then obtain run where run: "run_of v = Some run" "rs_recorded s run = Some turn" by (auto simp: Option.bind_eq_Some_conv)
  then have "rs_steering s' = []" "rs_recorded s' = (rs_recorded s)(run := None)"
    using assms(3) by (auto simp: replay_assistant_def Let_def)
  then show ?thesis using assms(1) run(1) unfolding waiting_def by (auto split: if_splits)
qed

lemma waiting_other:
  assumes "waiting (v # vs) s" and "role_of v \<noteq> Some ''assistant''"
    and "rs_recorded s' = rs_recorded s" and "rs_steering s' = rs_steering s \<or> (\<exists>run. rs_recorded s run \<noteq> None)"
  shows "waiting vs s'"
  using assms unfolding waiting_def by (metis set_ConsD)

lemma steering_fields:
  assumes "replay_steering je v s = Inr s'"
  shows "rs_recorded s' = rs_recorded s \<and> (rs_steering s' = rs_steering s \<or> (\<exists>run. rs_recorded s run \<noteq> None))"
proof (cases "Option.bind (run_of (replay_prompt_content v)) (rs_recorded s)")
  case None
  then have "push_value je (replay_prompt_content v) s = Inr s'" using assms by (simp add: replay_steering_def Let_def)
  then show ?thesis using push_fields by blast
next
  case (Some turn)
  then have "\<exists>run. rs_recorded s run \<noteq> None" by (auto simp: Option.bind_eq_Some_conv)
  moreover have "rs_recorded s' = rs_recorded s" using Some assms by (auto simp: replay_steering_def Let_def split: if_splits)
  ultimately show ?thesis by blast
qed

lemma user_fields:
  "replay_user je st contexts latest v s = Inr s' \<Longrightarrow> rs_recorded s' = rs_recorded s \<and> rs_steering s' = rs_steering s"
  by (auto simp: replay_user_def Let_def dest: push_fields)

lemma waiting_value:
  assumes "waiting (v # vs) s" and "replay_value je st contexts lu la (i, v) s = Inr s'"
  shows "waiting vs s'"
proof (cases "role_of v = Some ''assistant''")
  case True
  then show ?thesis using assms waiting_assistant[OF assms(1) True] by (simp add: replay_value_def)
next
  case False
  then have "rs_recorded s' = rs_recorded s \<and> (rs_steering s' = rs_steering s \<or> (\<exists>run. rs_recorded s run \<noteq> None))"
    using assms(2) push_fields[of je "replay_prompt_content v" s s'] user_fields steering_fields
    by (auto simp: replay_value_def split: if_splits)
  then show ?thesis using waiting_other[OF assms(1) False] by blast
qed

lemma waiting_all:
  "efold (replay_value je st contexts lu la) (enumerate n vs) s = Inr s' \<Longrightarrow> waiting vs s \<Longrightarrow> waiting [] s'"
proof (induction vs arbitrary: n s)
  case (Cons v vs)
  then obtain t where "replay_value je st contexts lu la (n, v) s = Inr t"
      "efold (replay_value je st contexts lu la) (enumerate (Suc n) vs) t = Inr s'"
    by auto
  then show ?case using Cons.IH waiting_value[OF Cons.prems(2)] by blast
qed simp

lemma replay_all_done:
  assumes "replay_stored je st target notes stored = Inr s"
  shows "waiting [] s"
proof (rule waiting_all[OF assms[unfolded replay_stored_def Let_def]])
  let ?assistants = "List.map_filter (\<lambda>v. map_option (\<lambda>run. (run, v)) (run_of v)) (filter (\<lambda>v. role_of v = Some ''assistant'') stored)"
  have "\<exists>v \<in> set stored. role_of v = Some ''assistant'' \<and> run_of v = Some run"
    if m: "map_of (rev (List.map_filter (\<lambda>(run, v). map_option (Pair run) (recorded_turn je st target run v)) ?assistants)) run = Some t" for run t
    using map_of_SomeD[OF m] by (auto simp: map_filter_def)
  then show "waiting stored \<lparr>rs_messages = notes, rs_recorded = map_of (rev (if rt_tools target
       then List.map_filter (\<lambda>(run, v). map_option (Pair run) (recorded_turn je st target run v)) ?assistants else [])),
       rs_steering = [], rs_open = None\<rparr>"
    by (auto simp: waiting_def)
qed

section \<open>Nothing said is lost\<close>

text \<open>A message that is in the transcript, or in what is still to be put into it.\<close>

definition held :: "chat_message \<Rightarrow> replay_state \<Rightarrow> bool" where
  "held m s \<longleftrightarrow> m \<in> set (rs_messages s) \<or> m \<in> set (rs_steering s) \<or> (\<exists>run turn. rs_recorded s run = Some turn \<and> m \<in> set turn)"

text \<open>A stored message is conveyed by the message read of it, and a steering message also by a user
  message of the recorded turn with its text.\<close>

definition conveys :: "journal_env \<Rightarrow> json \<Rightarrow> chat_message \<Rightarrow> bool" where
  "conveys je v m \<longleftrightarrow> read_chat je (replay_prompt_content v) = Inr m \<or>
     is_steering v \<and> mg_role m = ''user'' \<and> text_content m = member_text ''content'' (replay_prompt_content v)"

lemma push_held:
  assumes "push_value je v s = Inr s'"
  shows "(held m s \<longrightarrow> held m s') \<and> (\<exists>n. read_chat je v = Inr n \<and> held n s')"
  using assms by (auto simp: push_value_def held_def ebind_Inr_iff)

lemma assistant_held:
  assumes "replay_assistant je budget v s = Inr s'" and "held m s"
  shows "held m s'"
proof (cases "Option.bind (run_of v) (rs_recorded s)")
  case None
  then show ?thesis
    using assms push_held[of je _ "s\<lparr>rs_open := None\<rparr>" s' m] by (auto simp: replay_assistant_def Let_def held_def)
next
  case (Some turn)
  then obtain run where "run_of v = Some run" "rs_recorded s run = Some turn" by (auto simp: Option.bind_eq_Some_conv)
  then have "s' = s\<lparr>rs_open := None, rs_messages := rs_messages s @ turn @ rs_steering s, rs_steering := [],
      rs_recorded := (rs_recorded s)(run := None)\<rparr>"
    using assms(1) by (simp add: replay_assistant_def Let_def)
  moreover have "t = turn \<or> ((rs_recorded s)(run := None)) r = Some t" if "rs_recorded s r = Some t" for r t
    using that \<open>rs_recorded s run = Some turn\<close> by (cases "r = run") simp_all
  ultimately show ?thesis using assms(2) unfolding held_def by fastforce
qed

lemma user_held:
  assumes "replay_user je st contexts latest v s = Inr s'"
  shows "(held m s \<longrightarrow> held m s') \<and> (\<exists>n. conveys je v n \<and> held n s')"
proof -
  obtain ms where p: "push_value je (replay_prompt_content v) (s\<lparr>rs_messages := rs_messages s @ ms, rs_open := run_of v\<rparr>) = Inr s'"
    using assms by (auto simp: replay_user_def Let_def ebind_Inr_iff)
  show ?thesis using push_held[OF p, of m] by (auto simp: conveys_def held_def)
qed

lemma steering_held:
  assumes "replay_steering je v s = Inr s'" and "is_steering v"
  shows "(held m s \<longrightarrow> held m s') \<and> (\<exists>n. conveys je v n \<and> held n s')"
proof (cases "Option.bind (run_of (replay_prompt_content v)) (rs_recorded s)")
  case None
  then have "push_value je (replay_prompt_content v) s = Inr s'" using assms(1) by (simp add: replay_steering_def Let_def)
  then show ?thesis using push_held[of je _ s s' m] by (auto simp: conveys_def)
next
  case (Some turn)
  then obtain run where "rs_recorded s run = Some turn" by (auto simp: Option.bind_eq_Some_conv)
  then show ?thesis
    using assms Some by (auto simp: replay_steering_def Let_def held_def conveys_def list_ex_iff ebind_Inr_iff split: if_splits)
qed

lemma value_held:
  assumes "replay_value je st contexts lu la (i, v) s = Inr s'"
  shows "(held m s \<longrightarrow> held m s') \<and> (role_of v \<noteq> Some ''assistant'' \<longrightarrow> (\<exists>n. conveys je v n \<and> held n s'))"
proof (cases "role_of v = Some ''assistant''")
  case True
  then show ?thesis using assms assistant_held by (auto simp: replay_value_def)
next
  case False
  then show ?thesis
    using assms push_held[of je "replay_prompt_content v" s s' m] user_held[of je st contexts _ v s s' m] steering_held[of je v s s' m]
    by (auto simp: replay_value_def conveys_def split: if_splits)
qed

lemma all_held:
  assumes "efold (replay_value je st contexts lu la) (enumerate k vs) s = Inr s'"
  shows "(held m s \<longrightarrow> held m s') \<and> (\<forall>v \<in> set vs. role_of v \<noteq> Some ''assistant'' \<longrightarrow> (\<exists>n. conveys je v n \<and> held n s'))"
  using assms
proof (induction vs arbitrary: k s m)
  case (Cons v vs)
  then obtain t where t: "replay_value je st contexts lu la (k, v) s = Inr t"
      "efold (replay_value je st contexts lu la) (enumerate (Suc k) vs) t = Inr s'"
    by auto
  show ?case using Cons.IH[OF t(2)] value_held[OF t(1)] by (metis set_ConsD)
qed simp

lemma replay_conveys:
  assumes "replay_stored je st target notes stored = Inr s"
  shows "set notes \<subseteq> set (rs_messages s) \<and>
    (\<forall>v \<in> set stored. role_of v \<noteq> Some ''assistant'' \<longrightarrow> (\<exists>m \<in> set (rs_messages s). conveys je v m))"
proof -
  have final: "held m s \<longleftrightarrow> m \<in> set (rs_messages s)" for m
    using replay_all_done[OF assms] by (auto simp: held_def waiting_def)
  have all: "(m \<in> set notes \<longrightarrow> held m s) \<and>
      (\<forall>v \<in> set stored. role_of v \<noteq> Some ''assistant'' \<longrightarrow> (\<exists>n. conveys je v n \<and> held n s))" for m
    using all_held[OF assms[unfolded replay_stored_def Let_def], of m] by (simp add: held_def)
  then show ?thesis using final by blast
qed

end
