(* ===== verification/Journal_Run.thy ===== *)
theory Journal_Run
  imports Run_Journal Agent_Messages
begin

text \<open>
  The agent loop with a journal as its step hook. The journal keeps beside the ledger what the model saw
  in the step it committed last, and hands it back as the conversation of the next step. Between two
  steps that copy is the loop's own conversation, so a journaled run neither loses nor repeats a message.
\<close>

section \<open>The other parts of the world\<close>

text \<open>The copy is a private field of the journal: what else the loop calls may change the ledger, not it.\<close>

definition leaves_sent :: "(journal \<times> 'x \<Rightarrow> 'a \<times> (journal \<times> 'x)) \<Rightarrow> bool" where
  "leaves_sent f \<longleftrightarrow> (\<forall>w. jo_sent (fst (snd (f w))) = jo_sent (fst w))"

definition bystanders :: "(journal \<times> 'x) run_env \<Rightarrow> bool" where
  "bystanders c \<longleftrightarrow> leaves_sent (clock c) \<and> leaves_sent (draw c) \<and> (\<forall>n. leaves_sent (sleep c n)) \<and>
     (\<forall>req. leaves_sent (stream c req)) \<and> leaves_sent (services c) \<and> (\<forall>ms. leaves_sent (before_turn c ms)) \<and>
     (\<forall>x args. leaves_sent (before_tool c x args)) \<and> (\<forall>x args v. leaves_sent (after_tool c x args v)) \<and>
     (\<forall>t n. leaves_sent (on_stop c t n)) \<and> leaves_sent (new_approval c) \<and> (\<forall>ids. leaves_sent (decide c ids)) \<and>
     leaves_sent (outputs c) \<and> (\<forall>name args. leaves_sent (call_for_agent c name args))"

lemma bystanders_journaled [simp]: "bystanders (journaled je c) = bystanders c"
  by (simp add: bystanders_def journaled_def)

abbreviation sent_of :: "(journal \<times> 'x) run \<Rightarrow> sent_step option" where
  "sent_of st \<equiv> jo_sent (fst (ru_world st))"

section \<open>Partial rules\<close>

definition ensures :: "('w run \<Rightarrow> bool) \<Rightarrow> ('w, 'a) act \<Rightarrow> ('a \<Rightarrow> 'w run \<Rightarrow> bool) \<Rightarrow> bool" where
  "ensures P m Q \<longleftrightarrow> (\<forall>st x st'. P st \<longrightarrow> m st = (Some x, st') \<longrightarrow> Q x st')"

lemma ensuresD: "ensures P m Q \<Longrightarrow> P st \<Longrightarrow> m st = (Some x, st') \<Longrightarrow> Q x st'"
  unfolding ensures_def by blast

lemma ensures_abind:
  assumes "ensures P m Q" and "\<And>x. ensures (Q x) (f x) R"
  shows "ensures P (abind m f) R"
  unfolding ensures_def
proof (intro allI impI)
  fix st y st''
  assume "P st" and "abind m f st = (Some y, st'')"
  then obtain x st' where "m st = (Some x, st')" "f x st' = (Some y, st'')" by blast
  then show "R y st''" using ensuresD[OF assms(1) \<open>P st\<close>] ensuresD[OF assms(2)] by blast
qed

lemma ensures_weaken:
  "ensures P m Q \<Longrightarrow> (\<And>st. P' st \<Longrightarrow> P st) \<Longrightarrow> (\<And>x st. Q x st \<Longrightarrow> Q' x st) \<Longrightarrow> ensures P' m Q'"
  unfolding ensures_def by blast

lemma ensures_give [intro]: "(\<And>st. P st \<Longrightarrow> Q x st) \<Longrightarrow> ensures P (give x) Q"
  by (simp add: ensures_def give_def)

lemma ensures_change: "(\<And>st. P st \<Longrightarrow> Q () (f st)) \<Longrightarrow> ensures P (change f) Q"
  by (simp add: ensures_def change_def)

lemma ensures_look: "ensures P (look f) (\<lambda>x st. P st \<and> x = f st)"
  by (simp add: ensures_def)

lemma ensures_never: "(\<And>st x st'. m st \<noteq> (Some x, st')) \<Longrightarrow> ensures P m Q"
  by (simp add: ensures_def)

lemmas ensures_ends = ensures_never[OF never_Some(1)] ensures_never[OF never_Some(2)] ensures_never[OF never_Some(3)]
  ensures_never[OF never_Some(4)] ensures_never[OF answer_run_never] ensures_never[OF wrap_up_never]

section \<open>What keeps the copy\<close>

definition keeps :: "(journal \<times> 'x, 'a) act \<Rightarrow> bool" where
  "keeps m \<longleftrightarrow> (\<forall>st x st'. m st = (Some x, st') \<longrightarrow> sent_of st' = sent_of st)"

lemma keeps_give [intro]: "keeps (give x)"
  by (simp add: keeps_def give_def)

lemma keeps_look [intro]: "keeps (look f)"
  by (simp add: keeps_def)

lemma keeps_change: "(\<And>st. ru_world (f st) = ru_world st) \<Longrightarrow> keeps (change f)"
  by (simp add: keeps_def change_def)

lemma keeps_outside:
  fixes f :: "journal \<times> 'x \<Rightarrow> 'a \<times> (journal \<times> 'x)"
  shows "leaves_sent f \<Longrightarrow> keeps (outside f)"
  unfolding keeps_def leaves_sent_def outside_def
proof (intro allI impI)
  fix st st' :: "(journal \<times> 'x) run" and x
  assume f: "\<forall>w. jo_sent (fst (snd (f w))) = jo_sent (fst w)"
    and st': "(case f (ru_world st) of (x, w) \<Rightarrow> (Some x, st\<lparr>ru_world := w\<rparr>)) = (Some x, st')"
  then have "st' = st\<lparr>ru_world := snd (f (ru_world st))\<rparr>" by (simp add: case_prod_unfold)
  then show "sent_of st' = sent_of st" using spec[OF f, of "ru_world st"] by simp
qed

lemma keeps_log [intro]: "keeps (log_action a)" "keeps (yield ev)"
  by (simp_all add: keeps_def log_action_def yield_def change_def)

lemma keeps_abind: "keeps m \<Longrightarrow> (\<And>x. keeps (f x)) \<Longrightarrow> keeps (abind m f)"
  unfolding keeps_def by fastforce

lemma keeps_each: "(\<And>x. keeps (f x)) \<Longrightarrow> keeps (each f xs)"
  by (induction xs) (auto intro!: keeps_abind)

lemma keeps_collect: "(\<And>x. keeps (f x)) \<Longrightarrow> keeps (collect f xs)"
  by (induction xs) (auto intro!: keeps_abind)

lemma keeps_never: "(\<And>st x st'. m st \<noteq> (Some x, st')) \<Longrightarrow> keeps m"
  by (simp add: keeps_def)

lemmas keeps_ends = keeps_never[OF never_Some(1)] keeps_never[OF never_Some(2)] keeps_never[OF never_Some(3)]
  keeps_never[OF never_Some(4)] keeps_never[OF answer_run_never] keeps_never[OF wrap_up_never]

lemmas keeps_rules = keeps_give keeps_look keeps_change keeps_outside keeps_log keeps_abind keeps_each keeps_collect
  keeps_ends

text \<open>The phases of a step that do not commit to it.\<close>

lemma bystandersD:
  assumes "bystanders c"
  shows "leaves_sent (clock c)" "leaves_sent (draw c)" "leaves_sent (sleep c n)" "leaves_sent (stream c req)"
    "leaves_sent (services c)" "leaves_sent (before_turn c ms)" "leaves_sent (before_tool c x args)"
    "leaves_sent (after_tool c x args v)" "leaves_sent (on_stop c t n)" "leaves_sent (new_approval c)"
    "leaves_sent (decide c ids)" "leaves_sent (outputs c)" "leaves_sent (call_for_agent c t args)"
  using assms by (simp_all add: bystanders_def)

lemma keeps_small:
  assumes "bystanders c"
  shows "keeps (reason_now c)" "keeps (bill c u)" "keeps (count_usage c u)" "keeps (yield_hooks xs)"
    "keeps (push_message m)" "keeps (push_note m)" "keeps (bill_if_done c r)" "keeps (discard a d reason r)"
    "keeps (move_clock c f)"
  by (auto simp: reason_now_def bill_def count_usage_def yield_hooks_def push_message_def push_note_def bill_if_done_def
      discard_def move_clock_def intro!: keeps_rules bystandersD[OF assms])

lemma keeps_read_items: "bystanders c \<Longrightarrow> keeps (read_items c items r)"
  by (induction c items r rule: read_items.induct) (auto intro!: keeps_rules keeps_small split: option.splits)

lemma keeps_try_request:
  assumes "bystanders c"
  shows "keeps (try_request c req recovered attempts n)"
proof (induction attempts n rule: attempts_induct)
  case (1 attempts n)
  have "keeps (send_request c req)"
    by (auto simp: send_request_def intro!: keeps_rules keeps_read_items assms bystandersD[OF assms] split: sum.splits)
  moreover have "keeps (on_overflow c req recovered attempts error r)" for error r
    by (auto simp: on_overflow_def intro!: keeps_rules keeps_small assms)
  moreover have "keeps (wait_to_retry c attempts n message retry r)" for message retry r
    by (auto simp: wait_to_retry_def Let_def intro!: keeps_rules keeps_small assms bystandersD[OF assms] split: option.splits)
  ultimately show ?case
    using 1 by (subst try_request.simps) (auto intro!: keeps_rules split: option.splits)
qed

lemma keeps_prepare_call:
  assumes "bystanders c"
  shows "keeps (prepare_call c truncated call)"
proof -
  have "keeps (intercept_call c call arguments refusal)" for arguments refusal
    by (auto simp: intercept_call_def intro!: keeps_rules keeps_small assms bystandersD[OF assms]
        split: sum.splits option.splits bool.splits tool_decision.splits)
  moreover have "keeps (ask_approval c call arguments h g)" for arguments h g
    by (auto simp: ask_approval_def intro!: keeps_rules bystandersD[OF assms] split: sum.splits bool.splits)
  ultimately show ?thesis
    by (auto simp: prepare_call_def Let_def intro!: keeps_rules keeps_small assms)
qed

lemma keeps_await_approvals:
  assumes "bystanders c"
  shows "keeps (await_approvals c ps)"
proof -
  have "keeps (await_decisions c as qs)" for as qs
    using assms
    by (induction c as qs rule: await_decisions.induct)
      (auto simp: await_decisions.simps(2) resolve_approval_def Let_def intro!: keeps_rules bystandersD
        split: prod.splits option.splits)
  then show ?thesis
    by (auto simp: await_approvals_def Let_def intro!: keeps_rules keeps_small assms)
qed

lemma keeps_run_call: "bystanders c \<Longrightarrow> keeps (run_call c p)"
  by (auto simp: run_call_def Let_def intro!: keeps_rules keeps_small bystandersD split: option.splits sum.splits)

lemma keeps_around_call:
  assumes "bystanders c"
  shows "keeps (after_call c call ex content)" "keeps (note_repeat c call visible content)" "keeps (yield_some ev)"
    "keeps (worker_event ev)" "keeps (first_decision call decision awaiting)"
  by (auto simp: after_call_def note_repeat_def yield_some_def worker_event_def first_decision_def Let_def
      intro!: keeps_rules keeps_small assms bystandersD[OF assms] split: option.splits bool.splits agent_event.splits)

lemma keeps_stop_feedback: "bystanders c \<Longrightarrow> keeps (stop_feedback c content)"
  by (auto simp: stop_feedback_def intro!: keeps_rules keeps_small bystandersD)

section \<open>Commits\<close>

definition steady :: "'a journal_op \<Rightarrow> bool" where
  "steady m \<longleftrightarrow> (\<forall>j. jo_sent (snd (m j)) = jo_sent j)"

lemma steady_jgive [intro]: "steady (jgive r)"
  by (simp add: steady_def jgive_def)

lemma steady_jbind: "steady m \<Longrightarrow> (\<And>x. steady (f x)) \<Longrightarrow> steady (jbind m f)"
  unfolding steady_def jbind_def by (auto split: prod.splits sum.splits) (metis snd_conv)+

lemma steady_jchange: "(\<And>j. jo_sent (f j) = jo_sent j) \<Longrightarrow> steady (jchange f)"
  by (simp add: steady_def jchange_def)

lemma steady_store [intro]: "steady (on_store je f)" "steady (read_store g)" "steady (new_uuid je)"
  by (simp_all add: steady_def on_store_def read_store_def new_uuid_def split: prod.splits)

lemmas steady_rules = steady_jgive steady_store steady_jbind steady_jchange

lemma steady_events [intro]: "steady (append_run_event je step ty data)" "steady (append_event je n ty data)"
    "steady (put_artifact je k data)"
  by (auto simp: append_run_event_def append_event_def put_artifact_def Let_def intro!: steady_rules)

lemma steady_compaction: "steady (commit_context_compaction je step co index)"
  by (auto simp: commit_context_compaction_def intro!: steady_rules split: option.splits)

lemma steadyD: "steady m \<Longrightarrow> m j = (r, j') \<Longrightarrow> jo_sent j' = jo_sent j"
  unfolding steady_def by (metis snd_conv)

lemma jbind_InrE:
  assumes "jbind m f j = (Inr y, j'')"
  obtains x j' where "m j = (Inr x, j')" and "f x j' = (Inr y, j'')"
  using assms by (auto simp: jbind_def split: prod.splits sum.splits)

lemma jgive_Inr [simp]: "jgive r j = (Inr x, j') \<longleftrightarrow> r = Inr x \<and> j' = j"
  by (auto simp: jgive_def)

lemma jchange_Inr [simp]: "jchange f j = (Inr x, j') \<longleftrightarrow> j' = f j"
  by (auto simp: jchange_def)

lemma sent_request:
  assumes "commit_model_request je step ms j = (Inr x, j')"
  shows "jo_sent j' = Some \<lparr>ss_step = step, ss_messages = ms, ss_response = False, ss_assistant = None, ss_results = []\<rparr>"
  using assms by (auto simp: commit_model_request_def elim!: jbind_InrE)

lemma sent_response:
  assumes "commit_model_response je step content reasoning calls reason us state j = (Inr x, j')"
    and "jo_sent j = Some s" and "ss_step s = step"
  shows "jo_sent j' = Some (s\<lparr>ss_response := True, ss_assistant := replayed_assistant_message content reasoning calls state\<rparr>)"
  using assms
  by (auto simp: commit_model_response_def elim!: jbind_InrE dest!: steadyD[OF steady_events(2)] steadyD[OF steady_events(3)])

lemma sent_tool_result:
  assumes "commit_tool_result je step call_id name v content j = (Inr x, j')"
    and "jo_sent j = Some s" and "ss_step s = step" and "ss_response s"
  shows "jo_sent j' = Some (s\<lparr>ss_results := ss_results s @ [tool_result_message call_id content]\<rparr>)"
  using assms
  by (auto simp: commit_tool_result_def elim!: jbind_InrE dest!: steadyD[OF steady_events(2)] steadyD[OF steady_events(3)])

text \<open>A commit that does not end the run has changed the journal and the trace only.\<close>

lemma commit_hooked:
  "re_hooked c \<Longrightarrow> hook c h (ru_world st) = (Inr u, w) \<Longrightarrow>
     commit c h st = (Some (), st\<lparr>ru_world := w, ru_trace := ru_trace st @ [Committed h True]\<rparr>)"
  "re_hooked c \<Longrightarrow> hook c h (ru_world st) = (Inl error, w) \<Longrightarrow> fst (commit c h st) = None"
  by (simp_all add: commit_def try_commit_def outside_def log_action_def change_def give_def abind_def
      failed_run_def fail_with_def return_def)

lemma commit_journaled:
  assumes "commit (journaled je c) h st = (Some x, st')"
  obtains j where "commit_call je h (fst (ru_world st)) = (Inr (), j)"
    and "st' = st\<lparr>ru_world := (j, snd (ru_world st)), ru_trace := ru_trace st @ [Committed h True]\<rparr>"
proof -
  obtain r j where call: "commit_call je h (fst (ru_world st)) = (r, j)" by fastforce
  have hooked: "re_hooked (journaled je c)"
    and hook: "hook (journaled je c) h (ru_world st) = in_world je (commit_call je h) (ru_world st)"
    by (simp_all add: journaled_def)
  show ?thesis
  proof (cases r)
    case (Inl e)
    then have "hook (journaled je c) h (ru_world st) = (Inl (error_text je e), (j, snd (ru_world st)))"
      using call hook by (simp add: in_world_def)
    then show ?thesis using commit_hooked(2)[OF hooked] assms by fastforce
  next
    case (Inr u)
    then have "hook (journaled je c) h (ru_world st) = (Inr (), (j, snd (ru_world st)))"
      using call hook by (simp add: in_world_def)
    then show ?thesis using commit_hooked(1)[OF hooked] assms that[of j] call Inr by auto
  qed
qed

section \<open>The conversation of a step\<close>

text \<open>What the copy carries into the next step, the images aside.\<close>

definition carried :: "sent_step \<Rightarrow> chat_message list" where
  "carried s = ss_messages s @ (case ss_assistant s of None \<Rightarrow> [] | Some a \<Rightarrow> [a]) @ ss_results s"

text \<open>The stages of a step: the request is committed, then the response, then results one by one.\<close>

definition requested :: "nat \<Rightarrow> (journal \<times> 'x) run \<Rightarrow> bool" where
  "requested step st \<longleftrightarrow> sent_of st = Some \<lparr>ss_step = step, ss_messages = ru_messages st, ss_response = False,
     ss_assistant = None, ss_results = []\<rparr>"

definition responded :: "nat \<Rightarrow> response \<Rightarrow> (journal \<times> 'x) run \<Rightarrow> bool" where
  "responded step r st \<longleftrightarrow> sent_of st = Some \<lparr>ss_step = step, ss_messages = ru_messages st, ss_response = True,
     ss_assistant = replayed_assistant_message (rp_content r) (rp_reasoning r) (finish_calls (rp_calls r)) (rp_state r),
     ss_results = []\<rparr>"

definition answering :: "nat \<Rightarrow> (journal \<times> 'x) run \<Rightarrow> bool" where
  "answering step st \<longleftrightarrow> (\<exists>s a. sent_of st = Some s \<and> ss_step s = step \<and> ss_response s \<and>
     ss_assistant s = Some a \<and> calls_tools a \<and> (\<forall>m \<in> set (ss_results s). is_tool m) \<and> carried s = ru_messages st)"

definition replayable :: "nat \<Rightarrow> (journal \<times> 'x) run \<Rightarrow> bool" where
  "replayable step st \<longleftrightarrow> (\<exists>s. sent_of st = Some s \<and> ss_step s = step \<and> ss_response s \<and>
     carried s @ image_follow_ups (ru_messages st) (made_calls (ss_assistant s)) = ru_messages st)"

definition lasting :: "((journal \<times> 'x) run \<Rightarrow> bool) \<Rightarrow> bool" where
  "lasting P \<longleftrightarrow> (\<forall>st st'. ru_messages st' = ru_messages st \<longrightarrow> sent_of st' = sent_of st \<longrightarrow> P st \<longrightarrow> P st')"

lemma lasting_stages [intro]: "lasting (requested step)" "lasting (responded step r)" "lasting (answering step)"
    "lasting (replayable step)" "lasting (\<lambda>_. True)"
  by (simp_all add: lasting_def requested_def responded_def answering_def replayable_def)

lemma lasting_conj: "lasting P \<Longrightarrow> lasting (\<lambda>st. P st \<and> ms = ru_messages st)"
  unfolding lasting_def by metis

lemma ensures_still:
  assumes "keeps m" and "conv.does K m" and "lasting P"
  shows "ensures P m (\<lambda>_. P)"
  unfolding ensures_def
proof (intro allI impI)
  fix st x st'
  assume "P st" and m: "m st = (Some x, st')"
  moreover have "ru_messages st' = ru_messages st" using convD[OF assms(2) m] by (simp add: same_conversation_def)
  moreover have "sent_of st' = sent_of st" using assms(1) m unfolding keeps_def by blast
  ultimately show "P st'" using assms(3) unfolding lasting_def by blast
qed

lemma ensures_still_seq:
  assumes "keeps m" and "conv.does K m" and "lasting P" and "\<And>x. ensures P (f x) Q"
  shows "ensures P (abind m f) Q"
  by (rule ensures_abind[OF ensures_still[OF assms(1-3)] assms(4)])

lemma ensures_any: "(\<And>x. ensures (\<lambda>_. True) (f x) Q) \<Longrightarrow> ensures (\<lambda>_. True) (abind m f) Q"
  by (rule ensures_abind[where Q = "\<lambda>_ _. True"]) (simp_all add: ensures_def)

subsection \<open>The request\<close>

lemma requested_commit:
  "ensures (\<lambda>st. req = ru_messages st) (commit (journaled je c) (CommitRequest step req)) (\<lambda>_. requested step)"
  unfolding ensures_def requested_def
proof (intro allI impI)
  fix st x st'
  assume "req = ru_messages st" and "commit (journaled je c) (CommitRequest step req) st = (Some x, st')"
  then show "sent_of st' = Some \<lparr>ss_step = step, ss_messages = ru_messages st', ss_response = False, ss_assistant = None,
     ss_results = []\<rparr>"
    by (auto elim!: commit_journaled dest!: sent_request)
qed

lemma requested_round:
  assumes "bystanders c"
  shows "ensures (\<lambda>_. True) (request_round (journaled je c) step overflow attempts) (\<lambda>_. requested step)"
proof -
  let ?c = "journaled je c"
  have others: "bystanders ?c" using assms by simp
  have tried: "ensures (requested step) (abind (try_request ?c req o' a n) (\<lambda>r. give (g r))) (\<lambda>_. requested step)"
    for req o' a n and g :: "attempt_end \<times> nat \<Rightarrow> (attempt_end \<times> nat) \<times> nat"
    by (rule ensures_still_seq[OF keeps_try_request[OF others] conv.does_try_request[of all_kinds]]) auto
  have sent: "ensures (\<lambda>st. True \<and> req = ru_messages st) (abind (reason_now ?c) (\<lambda>reason. case reason of
           Some reason \<Rightarrow> limited reason
         | None \<Rightarrow>
             abind (commit ?c (CommitRequest step req)) (\<lambda>_.
             abind (try_request ?c req (overflow \<noteq> None) (attempts + 1) 1) (\<lambda>r.
             give (r, estimate_tokens req (re_tools_chars ?c)))))) (\<lambda>_. requested step)" for req
  proof (rule ensures_still_seq[OF keeps_small(1)[OF others] conv.does_reason_now[of "{}"] lasting_conj])
    fix reason
    show "ensures (\<lambda>st. True \<and> req = ru_messages st) (case reason of
           Some reason \<Rightarrow> limited reason
         | None \<Rightarrow>
             abind (commit ?c (CommitRequest step req)) (\<lambda>_.
             abind (try_request ?c req (overflow \<noteq> None) (attempts + 1) 1) (\<lambda>r.
             give (r, estimate_tokens req (re_tools_chars ?c))))) (\<lambda>_. requested step)"
      by (cases reason) (simp_all add: ensures_ends ensures_abind[OF requested_commit tried])
  qed auto
  show ?thesis
    unfolding request_round_def
  proof (rule ensures_any)
    fix shrank
    show "ensures (\<lambda>_. True) (case (if shrank then None else overflow) of
       Some error \<Rightarrow>
         fail_with error (''The conversation no longer fits this model's context window and there is no older context left to compact: '' @ error)
     | None \<Rightarrow>
         abind (look ru_messages) (\<lambda>req.
         abind (reason_now ?c) (\<lambda>reason.
         case reason of
           Some reason \<Rightarrow> limited reason
         | None \<Rightarrow>
             abind (commit ?c (CommitRequest step req)) (\<lambda>_.
             abind (try_request ?c req (overflow \<noteq> None) (attempts + 1) 1) (\<lambda>r.
             give (r, estimate_tokens req (re_tools_chars ?c))))))) (\<lambda>_. requested step)"
      by (cases "if shrank then None else overflow")
        (simp_all only: option.case ensures_ends ensures_abind[OF ensures_look sent])
  qed
qed

lemma requested_loop:
  assumes "bystanders c"
  shows "ensures (\<lambda>_. True) (request_loop (journaled je c) step) (\<lambda>_. requested step)"
proof -
  have stop: "ensures P return Q" for P :: "(journal \<times> 'x) run \<Rightarrow> bool" and Q :: "response \<times> nat \<Rightarrow> (journal \<times> 'x) run \<Rightarrow> bool"
    by (simp add: ensures_def return_def)
  have second: "ensures (\<lambda>_. True) (abind (request_round (journaled je c) step (Some error) attempts) (\<lambda>((r, _), est).
      case r of Finished resp \<Rightarrow> give (resp, est) | Overflowed _ \<Rightarrow> return)) (\<lambda>_. requested step)" for error attempts
    by (rule ensures_abind[OF requested_round[OF assms]]) (auto intro: stop split: attempt_end.splits)
  have weak: "ensures (requested step) (abind (request_round (journaled je c) step (Some error) attempts) (\<lambda>((r, _), est).
      case r of Finished resp \<Rightarrow> give (resp, est) | Overflowed _ \<Rightarrow> return)) (\<lambda>_. requested step)" for error attempts
    by (rule ensures_weaken[OF second]) simp_all
  show ?thesis
    unfolding request_loop_def
    by (rule ensures_abind[OF requested_round[OF assms]]) (auto intro!: weak split: attempt_end.splits)
qed

subsection \<open>The response\<close>

lemma responded_close:
  assumes "bystanders c"
  shows "ensures (requested step) (close_request (journaled je c) step r est) (\<lambda>_. responded step r)"
proof -
  let ?c = "journaled je c"
  have others: "bystanders ?c" using assms by simp
  have answer: "ensures (requested step) (commit ?c (CommitResponse step (rp_content r) (rp_reasoning r) (finish_calls (rp_calls r))
       (normalize_finish_reason (rp_finish r)) (rp_usage r) (rp_state r))) (\<lambda>_. responded step r)"
    by (auto simp: ensures_def requested_def responded_def elim!: commit_journaled dest!: sent_response)
  show ?thesis
    unfolding close_request_def
    by (rule ensures_still_seq[OF keeps_log(1) conv.does_log[of _ "{KCompleted}"]], simp, simp, rule lasting_stages(1),
        rule ensures_still_seq[OF keeps_small(2)[OF others] conv.does_bill[of "{}"] lasting_stages(1)],
        rule ensures_abind[OF ensures_change[where Q = "\<lambda>_. requested step"] answer])
      (simp add: requested_def)
qed

subsection \<open>A step without calls\<close>

lemma made_calls_none [simp]: "image_follow_ups ms False = []"
  by (simp add: image_follow_ups_def)

lemma replayable_text:
  assumes "responded step r st" and "finish_calls (rp_calls r) = []"
  shows "rp_content r = [] \<Longrightarrow> replayable step st"
    and "rp_content r \<noteq> [] \<Longrightarrow>
      replayable step (st\<lparr>ru_messages := ru_messages st @ [assistant_message (Some (CText (rp_content r))) None r]\<rparr>)"
  using assms
  by (simp_all add: responded_def replayable_def carried_def replayed_assistant_message_def assistant_message_def made_calls_def)

lemma replayable_keep_text:
  assumes "finish_calls (rp_calls r) = []"
  shows "ensures (responded step r) (keep_text r) (\<lambda>_. replayable step)"
  using replayable_text[OF _ assms]
  by (auto simp: keep_text_def push_message_def intro!: ensures_change)

lemma ensures_count:
  assumes "lasting P" and "\<And>st. ru_messages (f st) = ru_messages st" and "\<And>st. ru_world (f st) = ru_world st"
  shows "ensures P (change f) (\<lambda>_. P)"
proof (rule ensures_change)
  fix st assume "P st"
  then show "P (f st)" using assms unfolding lasting_def by metis
qed

lemma ensures_note: "lasting P \<Longrightarrow> ensures P (push_note m) (\<lambda>_. P)"
  unfolding push_note_def by (rule ensures_count) simp_all

lemma replayable_no_calls:
  assumes "bystanders c" and "finish_calls (rp_calls r) = []"
  shows "ensures (responded step r) (no_calls (journaled je c) r truncated) (\<lambda>_. replayable step)"
proof -
  let ?c = "journaled je c"
  have others: "bystanders ?c" using assms by simp
  have kept: "ensures (responded step r) (abind (change f) (\<lambda>_. abind (keep_text r) (\<lambda>_. push_note m))) (\<lambda>_. replayable step)"
    if "\<And>st. ru_messages (f st) = ru_messages st" "\<And>st. ru_world (f st) = ru_world st" for f :: "(journal \<times> 'a) run \<Rightarrow> (journal \<times> 'a) run" and m
    by (rule ensures_abind[OF ensures_count ensures_abind[OF replayable_keep_text[OF assms(2)] ensures_note]])
      (auto simp: that)
  have feedback: "ensures (responded step r) (abind (stop_feedback ?c (rp_content r)) (\<lambda>feedback.
           case feedback of
             None \<Rightarrow> answer_run r
           | Some feedback \<Rightarrow>
               abind (change (\<lambda>st. st\<lparr>ru_stops := ru_stops st + 1\<rparr>)) (\<lambda>_.
               abind (keep_text r) (\<lambda>_.
               push_note (stop_feedback_message feedback))))) (\<lambda>_. replayable step)"
    by (rule ensures_still_seq[OF keeps_stop_feedback[OF others] conv.does_stop_feedback[of "{KOther}"] lasting_stages(2)])
      (auto intro!: ensures_ends kept split: option.splits)
  show ?thesis
    unfolding no_calls_def
  proof (rule ensures_still_seq[OF keeps_small(1)[OF others] conv.does_reason_now[of "{}"] lasting_stages(2)])
    fix reason
    have "ensures (responded step r) (abind (look (\<lambda>st. truncated \<and> ru_length_recoveries st < MAX_LENGTH_RECOVERIES \<and>
                           ru_iteration st < max_iterations ?c)) (\<lambda>recover.
         if recover then
           abind (change (\<lambda>st. st\<lparr>ru_length_recoveries := ru_length_recoveries st + 1\<rparr>)) (\<lambda>_.
           abind (keep_text r) (\<lambda>_.
           push_note (text_message ''user'' LENGTH_RECOVERY_NOTE)))
         else
           abind (stop_feedback ?c (rp_content r)) (\<lambda>feedback.
           case feedback of
             None \<Rightarrow> answer_run r
           | Some feedback \<Rightarrow>
               abind (change (\<lambda>st. st\<lparr>ru_stops := ru_stops st + 1\<rparr>)) (\<lambda>_.
               abind (keep_text r) (\<lambda>_.
               push_note (stop_feedback_message feedback)))))) (\<lambda>_. replayable step)"
      by (rule ensures_still_seq[OF keeps_look conv.does_look[of "{}"] lasting_stages(2)]) (auto intro!: kept feedback)
    then show "ensures (responded step r) (case reason of
       Some reason \<Rightarrow> limited reason
     | None \<Rightarrow>
         abind (look (\<lambda>st. truncated \<and> ru_length_recoveries st < MAX_LENGTH_RECOVERIES \<and>
                           ru_iteration st < max_iterations ?c)) (\<lambda>recover.
         if recover then
           abind (change (\<lambda>st. st\<lparr>ru_length_recoveries := ru_length_recoveries st + 1\<rparr>)) (\<lambda>_.
           abind (keep_text r) (\<lambda>_.
           push_note (text_message ''user'' LENGTH_RECOVERY_NOTE)))
         else
           abind (stop_feedback ?c (rp_content r)) (\<lambda>feedback.
           case feedback of
             None \<Rightarrow> answer_run r
           | Some feedback \<Rightarrow>
               abind (change (\<lambda>st. st\<lparr>ru_stops := ru_stops st + 1\<rparr>)) (\<lambda>_.
               abind (keep_text r) (\<lambda>_.
               push_note (stop_feedback_message feedback)))))) (\<lambda>_. replayable step)"
      by (cases reason) (simp_all only: option.case ensures_ends)
  qed
qed

subsection \<open>A step with calls\<close>

lemma answering_calls:
  assumes "calls \<noteq> []" and "finish_calls (rp_calls r) = calls"
  shows "ensures (responded step r) (push_message (assistant_message
     (if rp_content r = [] then None else Some (CText (rp_content r))) (Some calls) r)) (\<lambda>_. answering step)"
  unfolding push_message_def
  by (rule ensures_change)
    (use assms in \<open>simp add: responded_def answering_def carried_def replayed_assistant_message_def assistant_message_def calls_tools_def\<close>)

text \<open>A result that is committed and not yet in the conversation.\<close>

definition owing :: "nat \<Rightarrow> chat_message \<Rightarrow> (journal \<times> 'x) run \<Rightarrow> bool" where
  "owing step m st \<longleftrightarrow> answering step (st\<lparr>ru_messages := ru_messages st @ [m]\<rparr>)"

lemma lasting_owing [intro]: "lasting (owing step m)"
  by (simp add: lasting_def owing_def answering_def)

lemma owing_commit:
  "ensures (answering step) (commit (journaled je c) (CommitToolResult step i name v content)) (\<lambda>_. owing step (tool_message content i))"
  unfolding ensures_def
proof (intro allI impI)
  fix st x st'
  assume "answering step st" and st': "commit (journaled je c) (CommitToolResult step i name v content) st = (Some x, st')"
  then obtain s a where s: "sent_of st = Some s" "ss_step s = step" "ss_response s" "ss_assistant s = Some a" "calls_tools a"
      "\<forall>m \<in> set (ss_results s). is_tool m" "carried s = ru_messages st"
    unfolding answering_def by blast
  obtain j where j: "commit_tool_result je step i name v content (fst (ru_world st)) = (Inr (), j)"
      "st' = st\<lparr>ru_world := (j, snd (ru_world st)), ru_trace := ru_trace st @ [Committed (CommitToolResult step i name v content) True]\<rparr>"
    using st' by (auto elim: commit_journaled)
  have "tool_result_message i content = tool_message content i"
    by (simp add: tool_result_message_def tool_message_def)
  then have "jo_sent j = Some (s\<lparr>ss_results := ss_results s @ [tool_message content i]\<rparr>)"
    using sent_tool_result[OF j(1) s(1-3)] by simp
  moreover have "is_tool (tool_message content i)" by (simp add: is_tool_def tool_message_def text_message_def)
  ultimately show "owing step (tool_message content i) st'"
    using s j(2) by (auto simp: owing_def answering_def carried_def)
qed

lemma answering_call:
  assumes "bystanders c" and "tidy ex"
  shows "ensures (answering step) (answer_call (journaled je c) step call ex content awaiting) (\<lambda>_. answering step)"
proof -
  let ?c = "journaled je c"
  have others: "bystanders ?c" using assms by simp
  have push: "ensures (owing step m) (abind (push_message m) (\<lambda>_. give aw)) (\<lambda>_. answering step)" for m and aw :: bool
    unfolding push_message_def
    by (rule ensures_abind[OF ensures_change[where Q = "\<lambda>_. answering step"]]) (auto simp: owing_def)
  show ?thesis
    unfolding answer_call_def Let_def
    by (rule ensures_still_seq[OF keeps_around_call(1)[OF others] conv.does_after_call[of "{KOther}"] lasting_stages(3)], simp,
        rule ensures_still_seq[OF keeps_around_call(2)[OF others] conv.does_note_repeat[of "{}"] lasting_stages(3)],
        rule ensures_abind[OF owing_commit],
        rule ensures_still_seq[OF keeps_log(2) conv.does_yield[of _ "{KResult}"] lasting_owing], simp, simp,
        rule ensures_still_seq[OF keeps_around_call(3)[OF others] conv.does_yield_some[of _ "{KOther}"] lasting_owing],
        use assms(2) in \<open>simp add: tidy_def\<close>, simp,
        rule ensures_still_seq[OF keeps_around_call(3)[OF others] conv.does_yield_some[of _ "{KOther}"] lasting_owing],
        use assms(2) in \<open>simp add: tidy_def\<close>, simp,
        rule ensures_still_seq[OF keeps_around_call(4)[OF others] conv.does_worker_event[of _ "{KOther}"] lasting_owing],
        use assms(2) in \<open>simp add: tidy_def\<close>, simp,
        rule ensures_still_seq[OF keeps_around_call(5)[OF others] conv.does_first_decision[of "{KOther}"] lasting_owing], simp,
        rule push)
qed

lemma answering_answers:
  assumes "bystanders c" and "\<forall>x \<in> set xs. tidy (snd (fst x))"
  shows "ensures (answering step) (answer_calls (journaled je c) step xs awaiting) (\<lambda>_. answering step)"
  using assms(2)
proof (induction "journaled je c" step xs awaiting rule: answer_calls.induct)
  case (2 step call ex content rest awaiting)
  then show ?case by (auto intro!: ensures_abind[OF answering_call[OF assms(1)]])
qed auto

text \<open>The images of the results come after them.\<close>

definition illustrated :: "nat \<Rightarrow> (journal \<times> 'x) run \<Rightarrow> bool" where
  "illustrated step st \<longleftrightarrow> (\<exists>s a ims. sent_of st = Some s \<and> ss_step s = step \<and> ss_response s \<and>
     ss_assistant s = Some a \<and> calls_tools a \<and> (\<forall>m \<in> set (ss_results s). is_tool m) \<and>
     (\<forall>m \<in> set ims. is_image_follow_up m) \<and> carried s @ ims = ru_messages st)"

lemma illustrated_start: "answering step st \<Longrightarrow> illustrated step st"
  unfolding answering_def illustrated_def by (metis append_Nil2 empty_iff list.set(1))

lemma illustrated_image:
  assumes "is_image_follow_up m"
  shows "ensures (illustrated step) (push_message m) (\<lambda>_. illustrated step)"
  unfolding push_message_def
proof (rule ensures_change)
  fix st :: "(journal \<times> 'a) run"
  assume "illustrated step st"
  then obtain s a ims where s: "sent_of st = Some s" "ss_step s = step" "ss_response s" "ss_assistant s = Some a" "calls_tools a"
      "\<forall>m \<in> set (ss_results s). is_tool m" "\<forall>m \<in> set ims. is_image_follow_up m" "carried s @ ims = ru_messages st"
    unfolding illustrated_def by blast
  then have "carried s @ (ims @ [m]) = ru_messages st @ [m]" "\<forall>m' \<in> set (ims @ [m]). is_image_follow_up m'"
    using assms by auto
  then show "illustrated step (st\<lparr>ru_messages := ru_messages st @ [m]\<rparr>)"
    using s(1-6) unfolding illustrated_def by (intro exI[of _ s] exI[of _ a] exI[of _ "ims @ [m]"]) simp
qed

lemma illustrated_images:
  "\<forall>m \<in> set ms. is_image_follow_up m \<Longrightarrow> ensures (illustrated step) (each push_message ms) (\<lambda>_. illustrated step)"
  by (induction ms) (auto intro!: ensures_abind[OF illustrated_image])

lemma images_follow_up: "\<forall>m \<in> set (result_images xs). is_image_follow_up m"
  by (auto simp: result_images_def map_filter_def image_user_message_def is_image_follow_up_def)

lemma last_index_here:
  assumes "p x" and "\<forall>y \<in> set ys. \<not> p y"
  shows "last_index p (xs @ x # ys) = Some (length xs)"
proof (cases "last_index p (xs @ x # ys)")
  case None
  then show ?thesis using assms(1) by (simp add: last_index_None)
next
  case (Some i)
  have "\<not> length xs < i"
  proof
    assume "length xs < i"
    then obtain k where "i = length xs + Suc k" using less_iff_Suc_add by auto
    then have "p (ys ! k)" and "k < length ys" using last_index_Some[OF Some] by (auto simp: nth_append)
    then show False using assms(2) by simp
  qed
  moreover have "\<not> i < length xs" using last_index_last[OF Some, of "length xs"] assms(1) by auto
  ultimately show ?thesis using Some by simp
qed

lemma replayable_illustrated:
  assumes "illustrated step st"
  shows "replayable step st"
proof -
  obtain s a ims where s: "sent_of st = Some s" "ss_step s = step" "ss_response s" "ss_assistant s = Some a" "calls_tools a"
      "\<forall>m \<in> set (ss_results s). is_tool m" "\<forall>m \<in> set ims. is_image_follow_up m" "carried s @ ims = ru_messages st"
    using assms unfolding illustrated_def by blast
  have ms: "ru_messages st = ss_messages s @ a # (ss_results s @ ims)" using s(4,8) by (simp add: carried_def)
  have "\<not> calls_tools m" if "m \<in> set (ss_results s @ ims)" for m
    using s(6,7) that by (auto simp: calls_tools_def is_tool_def is_image_follow_up_def)
  then have "last_index calls_tools (ru_messages st) = Some (length (ss_messages s))"
    unfolding ms by (intro last_index_here s(5)) blast
  moreover have "filter is_image_follow_up (ss_results s) = []"
    using s(6) by (auto simp: filter_empty_conv is_image_follow_up_def is_tool_def)
  moreover have "filter is_image_follow_up ims = ims" using s(7) by (simp add: filter_id_conv)
  ultimately have "image_follow_ups (ru_messages st) True = ims"
    by (simp add: image_follow_ups_def ms)
  moreover have "made_calls (ss_assistant s)" using s(4,5) by (simp add: made_calls_def calls_tools_def)
  ultimately show ?thesis using s(1-3,8) unfolding replayable_def by auto
qed

lemma replayable_results:
  assumes "bystanders c" and "\<forall>x \<in> set xs. tidy (snd x)"
  shows "ensures (answering step) (answer_results (journaled je c) step recover_length xs) (\<lambda>_. replayable step)"
proof -
  let ?c = "journaled je c"
  have others: "bystanders ?c" using assms by simp
  have tail: "ensures (answering step) (abind (each push_message (result_images xs)) (\<lambda>_.
     if awaiting then abind (look ru_iteration) (\<lambda>n. finish_run n False)
     else if recover_length then push_note (text_message ''user'' LENGTH_RECOVERY_NOTE)
     else give ())) (\<lambda>_. replayable step)" for awaiting
    by (rule ensures_abind[OF ensures_weaken[OF illustrated_images[OF images_follow_up]]], erule illustrated_start,
        erule replayable_illustrated)
      (auto intro!: ensures_note ensures_abind[OF ensures_look] ensures_ends)
  have tidied: "\<forall>x \<in> set (zip xs ts). tidy (snd (fst x))" for ts :: "str list"
    using assms(2) by (auto dest!: set_zip_leftD)
  show ?thesis
    unfolding answer_results_def Let_def
    by (rule ensures_still_seq[OF keeps_outside[OF bystandersD(12)[OF others]] conv.does_outside[of "{}"] lasting_stages(3)],
        rule ensures_abind[OF answering_answers[OF assms(1) tidied] tail])
qed

lemma replayable_with_calls:
  assumes "bystanders c" and "finish_calls (rp_calls r) = calls" and "calls \<noteq> []"
  shows "ensures (responded step r) (with_calls (journaled je c) step r calls truncated) (\<lambda>_. replayable step)"
proof -
  let ?c = "journaled je c"
  have others: "bystanders ?c" using assms by simp
  have calls: "ensures (answering step) (call_phase ?c step calls truncated recover_length) (\<lambda>_. replayable step)" for recover_length
    unfolding call_phase_def
  proof (rule ensures_still_seq[OF keeps_collect[OF keeps_prepare_call[OF others]]
        conv.does_collect[OF conv.does_prepare_call[of "{KOther, KHook, KAsk, KCall}"]] lasting_stages(3)], simp,
      rule ensures_still_seq[OF keeps_await_approvals[OF others] conv.does_await_approvals[of "{KAnswer}"] lasting_stages(3)], simp)
    fix ps :: "prepared_call list"
    have "ensures (answering step) (collect (run_call ?c) ps) (\<lambda>_. answering step)"
      by (rule ensures_still[OF keeps_collect[OF keeps_run_call[OF others]]
            conv.does_collect[OF conv.does_run_call[of "{KExecuted}"]] lasting_stages(3)]) simp
    then have "ensures (answering step) (collect (run_call ?c) ps) (\<lambda>xs st. (\<forall>x \<in> set xs. tidy (snd x)) \<and> answering step st)"
      using gives_run_calls[of ps ?c] unfolding ensures_def gives_def by blast
    then show "ensures (answering step) (abind (collect (run_call ?c) ps) (\<lambda>xs. answer_results ?c step recover_length xs))
        (\<lambda>_. replayable step)"
    proof (rule ensures_abind)
      fix xs :: "(tool_call \<times> executed) list"
      show "ensures (\<lambda>st. (\<forall>x \<in> set xs. tidy (snd x)) \<and> answering step st) (answer_results ?c step recover_length xs)
          (\<lambda>_. replayable step)"
        using replayable_results[OF assms(1), of xs step je recover_length] unfolding ensures_def by blast
    qed
  qed
  have limit: "keeps (limit_reason ?c)" "conv.does {} (limit_reason ?c)"
    by (auto simp: limit_reason_def intro!: keeps_rules keeps_small others conv.does_small)
  have count: "ensures (responded step r) (count_recovery u) (\<lambda>_. responded step r)" for u
    unfolding count_recovery_def
    by (rule ensures_still_seq[OF keeps_look conv.does_look[of "{}"] lasting_stages(2)])
      (auto intro!: ensures_abind[OF ensures_count])
  show ?thesis
    unfolding with_calls_def
  proof (rule ensures_still_seq[OF limit lasting_stages(2)])
    fix reason
    have "ensures (responded step r) (abind (count_recovery (truncated \<and> list_ex (unparseable_call ?c) calls)) (\<lambda>recover_length.
         abind (push_message (assistant_message
             (if rp_content r = [] then None else Some (CText (rp_content r))) (Some calls) r)) (\<lambda>_.
         call_phase ?c step calls truncated recover_length))) (\<lambda>_. replayable step)"
      by (intro ensures_abind[OF count ensures_abind[OF answering_calls calls]] assms(2,3))
    then show "ensures (responded step r) (case reason of
       Some reason \<Rightarrow> wrap_up ?c reason
     | None \<Rightarrow>
         abind (count_recovery (truncated \<and> list_ex (unparseable_call ?c) calls)) (\<lambda>recover_length.
         abind (push_message (assistant_message
             (if rp_content r = [] then None else Some (CText (rp_content r))) (Some calls) r)) (\<lambda>_.
         call_phase ?c step calls truncated recover_length))) (\<lambda>_. replayable step)"
      by (cases reason) (simp_all only: option.case ensures_ends)
  qed
qed

section \<open>Runs\<close>

lemma replayable_step:
  assumes "bystanders c"
  shows "ensures (\<lambda>st. ru_iteration st + 1 = step) (agent_step (journaled je c)) (\<lambda>_. replayable step)"
  unfolding ensures_def
proof (intro allI impI)
  let ?c = "journaled je c"
  fix st x st'
  assume "ru_iteration st + 1 = step" and "agent_step ?c st = (Some x, st')"
  then obtain s3 s4 s5 r est where
    s4: "request_loop ?c step s3 = (Some (r, est), s4)" and
    s5: "close_request ?c step r est (s4\<lparr>ru_iteration := ru_iteration s4 + 1\<rparr>) = (Some (), s5)" and
    final: "end_step ?c step r s5 = (Some x, st')"
    by (auto simp: agent_step_def count_iteration_def change_def split: option.splits prod.splits)
  have "requested step s4" by (rule ensuresD[OF requested_loop[OF assms] TrueI s4])
  then have "requested step (s4\<lparr>ru_iteration := ru_iteration s4 + 1\<rparr>)" by (simp add: requested_def)
  then have "responded step r s5" by (rule ensuresD[OF responded_close[OF assms] _ s5])
  then show "replayable step st'"
    using final ensuresD[OF replayable_no_calls[OF assms]] ensuresD[OF replayable_with_calls[OF assms refl]]
    by (auto simp: end_step_def Let_def split: if_splits)
qed

text \<open>The states between the steps of a run.\<close>

inductive between_steps :: "'w run_env \<Rightarrow> chat_message list \<Rightarrow> 'w \<Rightarrow> 'w run \<Rightarrow> bool"
  for c :: "'w run_env" and msgs :: "chat_message list" and w :: 'w where
  begun: "begin_run c (new_run c msgs w) = (Some (), st) \<Longrightarrow> between_steps c msgs w st"
| stepped: "between_steps c msgs w st \<Longrightarrow> agent_step c st = (Some (), st') \<Longrightarrow> between_steps c msgs w st'"

lemma between_replayable:
  assumes "bystanders c" and "between_steps (journaled je c) msgs w st"
  shows "ru_iteration st = 0 \<or> replayable (ru_iteration st) st"
  using assms(2)
proof (induction rule: between_steps.induct)
  case (begun st)
  then show ?case using begin_iteration[OF begun] by simp
next
  case (stepped st st')
  then show ?case using step_progress[OF stepped(2)] ensuresD[OF replayable_step[OF assms(1) ] refl stepped(2)] by simp
qed

lemma replayable_rebuild:
  assumes "replayable n st" and "0 < n" and "jo_sent j = sent_of st"
  shows "rebuild_messages_for_step je (n + 1) (ru_messages st) j = (Inr (Some (ru_messages st)), j)"
proof -
  have "rebuild_sent_messages_for_step j (n + 1) (ru_messages st) = Some (ru_messages st)"
    using assms(1,3) by (auto simp: replayable_def rebuild_sent_messages_for_step_def carried_def)
  then show ?thesis using assms(2) by (simp add: rebuild_messages_for_step_def)
qed

section \<open>The requests of a journaled run\<close>

text \<open>A claimed input adds messages of the user and of the system.\<close>

lemma steering_user: "steering_chat_message je s = Inr m \<Longrightarrow> mg_role m = ''user''"
  by (auto simp: steering_chat_message_def with_image_attachments_def read_message_def read_value_def str_member_def Let_def
      Option.bind_eq_Some_conv split: option.splits if_splits)

lemma claimed_remarks:
  assumes "claimed_messages je step item j = (Inr ms, j')"
  shows "\<forall>m \<in> set ms. remark m"
  using assms
  by (auto simp: claimed_messages_def remark_text elim!: jbind_InrE split: if_splits sum.splits option.splits)
    (auto simp: remark_def dest!: steering_user)

lemma collect_remarks: "collect_claimed je step items j = (Inr ms, j') \<Longrightarrow> \<forall>m \<in> set ms. remark m"
  by (induction items arbitrary: j ms j') (auto elim!: jbind_InrE dest!: claimed_remarks)

lemma claim_remarks: "claim_inputs je step j = (Inr ms, j') \<Longrightarrow> \<forall>m \<in> set ms. remark m"
  by (auto simp: claim_inputs_def elim!: jbind_InrE dest!: collect_remarks)

lemma prepare_appends:
  assumes "prepare_model_step je (n + 1) ms j = (Inr ms', j')"
    and "n = 0 \<or> rebuild_messages_for_step je (n + 1) ms j = (Inr (Some ms), j)"
  obtains ns where "ms' = ms @ ns" and "\<forall>m \<in> set ns. remark m"
proof -
  obtain r j1 where r: "rebuild_messages_for_step je (n + 1) ms j = (Inr r, j1)"
    using assms(1) by (auto simp: prepare_model_step_def elim!: jbind_InrE)
  then have ms: "(case r of None \<Rightarrow> ms | Some rebuilt \<Rightarrow> rebuilt) = ms"
    using assms(2) by (auto simp: rebuild_messages_for_step_def)
  then obtain j2 claimed j3 where "claim_inputs je (n + 1) j2 = (Inr claimed, j3)" "ms' = ms @ claimed"
    using assms(1) r by (auto simp: prepare_model_step_def Let_def elim!: jbind_InrE)
  then show ?thesis using that claim_remarks by blast
qed

lemma journaled_hands_over:
  "hands_over (journaled je c) m0 (\<lambda>st. ru_iteration st = 0 \<or> replayable (ru_iteration st) st)"
  unfolding hands_over_def
proof (intro allI impI)
  fix st ms w
  assume J: "ru_iteration st = 0 \<or> replayable (ru_iteration st) st" and sound: "sound m0 [] st"
    and p: "prepare (journaled je c) (ru_iteration st + 1) (ru_messages st) (ru_world st) = (Inr ms, w)"
  obtain j where j: "prepare_model_step je (ru_iteration st + 1) (ru_messages st) (fst (ru_world st)) = (Inr ms, j)"
    using p by (auto simp: journaled_def in_world_def split: prod.splits sum.splits)
  obtain ns where ns: "ms = ru_messages st @ ns" "\<forall>m \<in> set ns. remark m"
    by (rule prepare_appends[OF j]) (use J replayable_rebuild in blast)+
  then have "settled ms" using sound settled_remarks by (auto simp: sound_def)
  moreover have "anchored m0 ms (ru_anchor st)" using sound ns(1) by (auto simp: sound_def anchored_def nth_append)
  ultimately show "settled ms \<and> anchored m0 ms (ru_anchor st)" by blast
qed

lemma journaled_proper:
  assumes "settled msgs" and "bystanders c"
  shows "\<forall>a \<in> set (ru_trace (agent_loop (journaled je c) msgs w)).
    proper (map_option (\<lambda>a. msgs ! a) (last_index (\<lambda>m. mg_role m = ''user'') msgs)) a"
proof (rule requests_proper[OF assms(1) journaled_hands_over])
  let ?c = "journaled je c"
  have others: "bystanders ?c" using assms by simp
  fix st x st'
  assume J: "ru_iteration st = 0 \<or> replayable (ru_iteration st) st" and m: "reason_now ?c st = (Some x, st')"
  have "same_conversation st st'" using convD[OF conv.does_reason_now[of "{}"] m] by blast
  moreover have "sent_of st' = sent_of st" using keeps_small(1)[OF others] m unfolding keeps_def by blast
  ultimately show "ru_iteration st' = 0 \<or> replayable (ru_iteration st') st'"
    using J by (auto simp: same_conversation_def replayable_def)
next
  fix st
  assume b: "begin_run (journaled je c) (new_run (journaled je c) msgs w) = (Some (), st)"
  then show "ru_iteration st = 0 \<or> replayable (ru_iteration st) st" using begin_iteration[OF b] by simp
next
  fix st st'
  assume s: "agent_step (journaled je c) st = (Some (), st')"
  then show "ru_iteration st' = 0 \<or> replayable (ru_iteration st') st'"
    using step_progress[OF s] ensuresD[OF replayable_step[OF assms(2)] refl s] by simp
qed simp

end
