(* ===== verification/Journal_Example.thy ===== *)
theory Journal_Example
  imports Replay_Facts Journal_Run Agent_Example Ledger_Example
begin

text \<open>
  A journaled run to apply the statements about journals to: its first response is cut off at the output
  limit, so that a second step follows, which the journal prepares from its copy.
\<close>

definition beside :: "('w \<Rightarrow> 'a \<times> 'w) \<Rightarrow> journal \<times> 'w \<Rightarrow> 'a \<times> (journal \<times> 'w)" where
  "beside f w = (case f (snd w) of (x, v) \<Rightarrow> (x, (fst w, v)))"

lemma beside_leaves [simp]: "leaves_sent (beside f)"
  by (simp add: leaves_sent_def beside_def split: prod.splits)

lemma beside_apply [simp]: "beside f (j, v) = (fst (f v), (j, snd (f v)))"
  by (simp add: beside_def split: prod.split)

definition logged_run :: "(journal \<times> script) run_env" where
  "logged_run =
     \<lparr>re_model = ''m'', re_max_iterations = 4, re_backoff = 0,
      re_limits = \<lparr>max_duration = None, max_cost = None, max_tokens = None\<rparr>, re_window = None,
      re_wrap_up = True, re_interactive = True, re_hooked = False, re_intercepted = False,
      re_has_tool = (\<lambda>_. True), re_tool_names = [''write''], re_schema = (\<lambda>_. None),
      re_proxy = (\<lambda>_ _. None), re_tools_chars = 0, re_repeat = demo_repeat, re_whole = (\<lambda>_. True),
      re_text = (\<lambda>_. ''{}''), re_scope = None, re_lossy = id, re_ui = (\<lambda>_. None), re_policy = (\<lambda>_. None),
      re_thread = (\<lambda>_. None), re_worker_run = (\<lambda>_. None), re_workers = (\<lambda>_. None),
      re_floats = no_floats, re_money = demo_money,
      clock = beside (Pair 0), draw = beside (Pair 0), sleep = (\<lambda>_. beside (Pair ())),
      stream = (\<lambda>_. beside (\<lambda>w. case w of [] \<Rightarrow> (Inl ''closed'', []) | x # xs \<Rightarrow> (x, xs))),
      services = beside (Pair demo_compaction), hook = (\<lambda>_. Pair (Inr ())), prepare = (\<lambda>_ ms. Pair (Inr ms)),
      before_turn = (\<lambda>_. beside (Pair ([], None, []))), before_tool = (\<lambda>_ _. beside (Pair ([], Continue))),
      after_tool = (\<lambda>_ _ _. beside (Pair ([], []))), on_stop = (\<lambda>_ _. beside (Pair ([], None))),
      new_approval = beside (Pair ''a1''), decide = (\<lambda>_. beside (Pair (0, Some True))),
      outputs = beside (Pair demo_outputs), call_for_agent = (\<lambda>_ _. beside (Pair (Inl ''none'')))\<rparr>"

lemma logged_bystanders: "bystanders logged_run"
  by (simp add: bystanders_def logged_run_def)

definition logged_env :: journal_env where
  "logged_env = \<lparr>je_thread = ''a'', je_run = ''r1'', je_mode = PrivacyOff,
     je_gate = \<lparr>redact_text = id, is_clean_text = (\<lambda>_. True), is_clean_request = (\<lambda>_. True), redact_request = id\<rparr>,
     je_matcher = (\<lambda>_ _. []), je_codec = demo_codec, je_env = (\<lambda>_. demo_env), je_uuid = (\<lambda>n. CHR ''u'' # show_nat n),
     je_catalog = JArr [], je_request = [], je_usage = (\<lambda>_. JNull), je_compaction = (\<lambda>_ _. JNull),
     je_steer = (\<lambda>_. Inl ''none''), je_serde = ''e'', je_sqlite = (\<lambda>_. ''sql'')\<rparr>"

definition logged_script :: script where
  "logged_script = [Inr [says ''on'' [], StreamDone ''length'' no_usage]]"

definition logged_journal :: journal where
  "logged_journal = \<lparr>jo_ledger = demo_ledger\<lparr>inbox := []\<rparr>, jo_sent = None, jo_index = None, jo_ticks = 0\<rparr>"

text \<open>The journal after each of its commits.\<close>

definition logged_catalog :: journal where
  "logged_catalog = snd (commit_call logged_env CommitCatalog logged_journal)"

definition logged_prepared :: journal where
  "logged_prepared = snd (prepare_model_step logged_env 1 demo_messages logged_catalog)"

definition logged_request :: journal where
  "logged_request = snd (commit_call logged_env (CommitRequest 1 demo_messages) logged_prepared)"

definition logged_response :: hook_call where
  "logged_response = CommitResponse 1 ''on'' [] [] ''length'' no_usage None"

definition logged_step :: journal where
  "logged_step = snd (commit_call logged_env logged_response logged_request)"

lemma logged_ok:
  "fst (commit_call logged_env CommitCatalog logged_journal) = Inr ()"
  "fst (prepare_model_step logged_env 1 demo_messages logged_catalog) = Inr demo_messages"
  "fst (commit_call logged_env (CommitRequest 1 demo_messages) logged_prepared) = Inr ()"
  "fst (commit_call logged_env logged_response logged_request) = Inr ()"
  by code_simp+

lemma in_world_ok: "fst (m j) = Inr x \<Longrightarrow> in_world je m (j, s) = (Inr x, (snd (m j), s))"
  by (cases "m j") (simp add: in_world_def)

abbreviation logged :: "(journal \<times> script) run_env" where
  "logged \<equiv> journaled logged_env logged_run"

lemma logged_hooks:
  "hook logged CommitCatalog (logged_journal, s) = (Inr (), (logged_catalog, s))"
  "prepare logged 1 demo_messages (logged_catalog, s) = (Inr demo_messages, (logged_prepared, s))"
  "hook logged (CommitRequest 1 demo_messages) (logged_prepared, s) = (Inr (), (logged_request, s))"
  "hook logged (CommitResponse 1 ''on'' [] [] ''length'' no_usage None) (logged_request, s) = (Inr (), (logged_step, s))"
  using in_world_ok[where m = "commit_call logged_env CommitCatalog", OF logged_ok(1)]
    in_world_ok[where m = "prepare_model_step logged_env 1 demo_messages", OF logged_ok(2)]
    in_world_ok[where m = "commit_call logged_env (CommitRequest 1 demo_messages)", OF logged_ok(3)]
    in_world_ok[where m = "commit_call logged_env logged_response", OF logged_ok(4)]
  by (simp_all add: journaled_def logged_catalog_def logged_prepared_def logged_request_def logged_step_def logged_response_def)

lemma logged_fields:
  "re_model logged = ''m''" "max_iterations logged = 4" "re_backoff logged = 0" "re_window logged = None"
  "re_limits logged = re_limits demo_run" "re_hooked logged" "\<not> re_intercepted logged" "re_tools_chars logged = 0"
  "re_floats logged = no_floats" "re_money logged = demo_money" "clock logged = beside (Pair 0)"
  "stream logged = (\<lambda>_. beside (\<lambda>w. case w of [] \<Rightarrow> (Inl ''closed'', []) | x # xs \<Rightarrow> (x, xs)))"
  "services logged = beside (Pair demo_compaction)"
  by (simp_all add: journaled_def logged_run_def demo_run_def max_iterations_def)

lemma logged_begin:
  "begin_run logged (new_run logged demo_messages (logged_journal, logged_script)) =
     (Some (), (new_run logged demo_messages (logged_journal, logged_script))
        \<lparr>ru_trace := [Committed CommitCatalog True, Yield (Event (Start ''m''))], ru_world := (logged_catalog, logged_script)\<rparr>)"
  by (simp add: applied logged_fields logged_hooks new_run_def)

lemma logged_finish: "finish_calls [] = []" "\<not> context_overflow_finish ''length''" "normalize_finish_reason ''length'' = ''length''"
proof -
  show "finish_calls [] = []" by (simp add: finish_calls_def)
  show "\<not> context_overflow_finish ''length''" by code_simp
  show "normalize_finish_reason ''length'' = ''length''" by code_simp
qed

lemma logged_agent_step:
  assumes "rb_limits (ru_budget st) = re_limits demo_run" "ru_window st = new_window None" "ru_iteration st = 0"
    "ru_messages st = demo_messages" "ru_notes st = []" "ru_length_recoveries st = 0"
    "ru_world st = (logged_catalog, logged_script)"
  shows "\<exists>st'. agent_step logged st = (Some (), st') \<and> ru_iteration st' = 1 \<and> fst (ru_world st') = logged_step \<and>
    ru_messages st' = demo_messages @ [text_message ''assistant'' ''on''] \<and> Sent demo_messages \<in> set (ru_trace st')"
  using assms
  by (simp add: try_request.simps applied logged_fields logged_hooks[simplified] logged_script_def says_def
      receive_def empty_response_def Let_def demo_clock demo_no_limit demo_no_compaction logged_finish
      MAX_LENGTH_RECOVERIES_def assistant_message_def text_message_def)

abbreviation logged_world :: "journal \<times> script" where
  "logged_world \<equiv> (logged_journal, logged_script)"

lemma logged_stepped:
  obtains st st' where "begin_run logged (new_run logged demo_messages logged_world) = (Some (), st)"
    and "agent_step logged st = (Some (), st')" and "ru_iteration st' = 1" and "fst (ru_world st') = logged_step"
    and "ru_messages st' = demo_messages @ [text_message ''assistant'' ''on'']" and "Sent demo_messages \<in> set (ru_trace st')"
proof -
  let ?st = "(new_run logged demo_messages logged_world)
      \<lparr>ru_trace := [Committed CommitCatalog True, Yield (Event (Start ''m''))], ru_world := (logged_catalog, logged_script)\<rparr>"
  have "rb_limits (ru_budget ?st) = re_limits demo_run" "ru_window ?st = new_window None" "ru_iteration ?st = 0"
      "ru_messages ?st = demo_messages" "ru_notes ?st = []" "ru_length_recoveries ?st = 0"
      "ru_world ?st = (logged_catalog, logged_script)"
    by (simp_all add: new_run_def logged_fields new_budget_def)
  from logged_agent_step[OF this] obtain st' where st': "agent_step logged ?st = (Some (), st') \<and> ru_iteration st' = 1 \<and>
      fst (ru_world st') = logged_step \<and> ru_messages st' = demo_messages @ [text_message ''assistant'' ''on''] \<and>
      Sent demo_messages \<in> set (ru_trace st')" ..
  show ?thesis
    by (rule that[OF logged_begin st'[THEN conjunct1] st'[THEN conjunct2, THEN conjunct1]
        st'[THEN conjunct2, THEN conjunct2, THEN conjunct1] st'[THEN conjunct2, THEN conjunct2, THEN conjunct2, THEN conjunct1]
        st'[THEN conjunct2, THEN conjunct2, THEN conjunct2, THEN conjunct2]])
qed

lemma logged_between:
  "\<exists>st. between_steps logged demo_messages logged_world st \<and> ru_iteration st = 1 \<and> fst (ru_world st) = logged_step \<and>
    ru_messages st = demo_messages @ [text_message ''assistant'' ''on'']"
proof -
  obtain st st' where st: "begin_run logged (new_run logged demo_messages logged_world) = (Some (), st)"
    "agent_step logged st = (Some (), st')" "ru_iteration st' = 1" "fst (ru_world st') = logged_step"
    "ru_messages st' = demo_messages @ [text_message ''assistant'' ''on'']"
    by (rule logged_stepped)
  have "between_steps logged demo_messages logged_world st'"
    by (rule between_steps.stepped[OF between_steps.begun[OF st(1)] st(2)])
  then show ?thesis by (intro exI[of _ st'] conjI st(3,4,5))
qed

lemma logged_sent: "Sent demo_messages \<in> set (ru_trace (agent_loop logged demo_messages logged_world))"
proof -
  obtain st st' where st: "begin_run logged (new_run logged demo_messages logged_world) = (Some (), st)"
    "agent_step logged st = (Some (), st')" "Sent demo_messages \<in> set (ru_trace st')"
    by (rule logged_stepped)
  have step: "ru_trace t = ru_trace s @ u \<Longrightarrow> Sent demo_messages \<in> set (ru_trace s) \<Longrightarrow> Sent demo_messages \<in> set (ru_trace t)"
    for s t :: "(journal \<times> script) run" and u by simp
  have "Sent demo_messages \<in> set (ru_trace (run_loop logged st'))"
  proof (rule run_loop_rule[where I = "\<lambda>st. Sent demo_messages \<in> set (ru_trace st)"])
    show "Sent demo_messages \<in> set (ru_trace st')" by (rule st(3))
  qed (use step in \<open>blast elim: doesD[OF does_agent_step]\<close>)+
  then have "Sent demo_messages \<in> set (ru_trace (run_loop logged st))"
    unfolding run_loop.simps[of logged st] by (simp add: st(2))
  then show ?thesis by (simp add: agent_loop_def st(1))
qed

end
