(* ===== verification/Turn_Facts.thy ===== *)
theory Turn_Facts
  imports Turn_Messages Journal_Run Ledger_Blobs Ledger_Ops
begin

text \<open>
  What a run records of its messages is what a later turn reads: the turn's artifact and its event
  through the ledger and back.
\<close>

section \<open>Events\<close>

lemma run_event_appended:
  assumes "control_append_run_event e r u step ty data st = (Inr row, st')" and "trim r = r" and "trim ty = ty"
  shows "st' = st\<lparr>run_events := run_events st @ [row]\<rparr> \<and> e_run row = r \<and> e_type row = ty \<and> e_step row = step \<and>
    e_data row = data"
  using assms
  by (auto simp: control_append_run_event_def checked_def required_control_text_def transact_ok insert_run_event_ok Let_def
      ebind_Inr_iff split: sum.splits if_splits)

text \<open>The events of a run are stored in the order of their numbers.\<close>

lemma events_of_type:
  assumes "ledger_ok st" and "trim r = r" and "r \<noteq> []"
  shows "control_run_events_by_types st r [ty] = Inr (filter (\<lambda>v. e_run v = r \<and> e_type v = ty) (run_events st))"
proof -
  have "map e_seq (filter (\<lambda>v. e_run v = r) (run_events st)) =
      map (\<lambda>i. 1 + int i) [0..<count_where (\<lambda>v. e_run v = r) (run_events st)]"
    using assms(1) gaplessD[of e_run e_seq 1 "run_events st" r] by (simp add: ledger_ok_def run_events_ok_def)
  then have "sorted (map e_seq (filter (\<lambda>v. e_run v = r) (run_events st)))" by (simp add: sorted_iff_nth_mono)
  then have "sorted (map e_seq (filter (\<lambda>v. e_type v = ty) (filter (\<lambda>v. e_run v = r) (run_events st))))"
    by (rule sorted_filter)
  then show ?thesis
    using assms(2,3) by (simp add: control_run_events_by_types_def required_control_text_def order_by_def sort_key_id_if_sorted
        conj_commute)
qed

section \<open>A turn through the ledger\<close>

definition reads_back :: "journal_env \<Rightarrow> json \<Rightarrow> bool" where
  "reads_back je v \<longleftrightarrow> parse_value je (show_value je v) = Inr v"

lemma artifact_beside_events:
  assumes "control_run_artifact c st r d = Inr (Some x)"
  shows "control_run_artifact c (st\<lparr>run_events := es\<rparr>) r d = Inr (Some x)"
proof -
  have same: "blob_of (st\<lparr>run_events := es\<rparr>) d = blob_of st d" for d by (simp add: blob_of_def)
  have decoded: "decode_run_artifact_blob_locked c (st\<lparr>run_events := es\<rparr>) d 0 = Inr y"
    if "decode_run_artifact_blob_locked c st d 0 = Inr y" for d y
    by (rule decode_mono[OF that, where bs = "[]"]) simp_all
  have "control_run_artifact c (st\<lparr>run_events := es\<rparr>) r d = control_run_artifact c st r d \<or>
      control_run_artifact c st r d \<noteq> Inr (Some x)"
    using decoded
    by (cases "blob_of st (trim d)"; cases "decode_run_artifact_blob_locked c st (trim d) 0";
        cases "row_where (\<lambda>f. f_run f = trim r \<and> f_digest f = trim d) (refs st)")
      (simp_all add: control_run_artifact_def same required_control_text_def)
  then show ?thesis using assms by simp
qed

definition turn_digest :: "journal_env \<Rightarrow> turn_messages \<Rightarrow> str" where
  "turn_digest je t = artifact_digest (je_codec je) (show_value je (turn_json t))"

definition turn_record :: "journal_env \<Rightarrow> turn_messages \<Rightarrow> json" where
  "turn_record je t = mk_obj [(''artifact_digest'', JStr (turn_digest je t)), (''messages'', JInt (int (length (tm_messages t))))]"

lemma trim_turn_event: "trim TURN_MESSAGES_EVENT = TURN_MESSAGES_EVENT"
  by code_simp

lemma on_store_InrE:
  assumes "on_store je f j = (Inr x, j')"
  obtains st where "f (je_env je (jo_ticks j)) (jo_ledger j) = (Inr x, st)" and "jo_ledger j' = st"
  using assms by (auto simp: on_store_def split: prod.splits)

lemma recorded_turn_read:
  assumes ok: "ledger_ok (jo_ledger j)" and run: "trim (je_run je) = je_run je" "je_run je \<noteq> []"
    and codec: "zstd_inverse (je_codec je)" "base_readable (je_codec je) (jo_ledger j) (je_run je)"
      "utf8_check (je_codec je) (show_value je (turn_json t)) = Inr ()"
    and digest: "\<not> has_blob (jo_ledger j) (turn_digest je t)" "trim (turn_digest je t) = turn_digest je t" "turn_digest je t \<noteq> []"
    and shown: "reads_back je (turn_json t)" "reads_back je (turn_record je t)"
    and storable: "\<forall>m \<in> set (tm_messages t). storable m"
    and rec: "record_turn je t j = (Inr (), j')"
  shows "recorded_messages je (jo_ledger j') (je_run je) = Inr (Some t)"
proof -
  let ?c = "je_codec je" and ?r = "je_run je" and ?d = "turn_digest je t"
  obtain j1 where p: "put_artifact je ''turn_messages'' (turn_json t) j = (Inr ?d, j1)"
      and a: "append_run_event je None TURN_MESSAGES_EVENT (turn_record je t) j1 = (Inr (), j')"
  proof -
    obtain d j1 where p: "put_artifact je ''turn_messages'' (turn_json t) j = (Inr d, j1)"
        and a: "append_run_event je None TURN_MESSAGES_EVENT
          (mk_obj [(''artifact_digest'', JStr d), (''messages'', JInt (int (length (tm_messages t))))]) j1 = (Inr (), j')"
      using rec by (auto simp: record_turn_def elim!: jbind_InrE)
    moreover have "d = ?d" using p by (auto simp: put_artifact_def Let_def turn_digest_def jgive_def elim!: jbind_InrE)
    ultimately show ?thesis using that by (simp add: turn_record_def)
  qed
  let ?a = "\<lparr>af_run = ?r, af_digest = ?d, af_kind = ''turn_messages'', af_data = show_value je (turn_json t),
      af_len = int (length (show_value je (turn_json t))), af_created = now (je_env je (jo_ticks j))\<rparr>"
  have p': "control_put_run_artifact (je_env je (jo_ticks j)) ?c ?a (jo_ledger j) = (Inr (), jo_ledger j1)"
    using p by (auto simp: put_artifact_def Let_def turn_digest_def jgive_def elim!: jbind_InrE on_store_InrE)
  have art: "control_run_artifact ?c (jo_ledger j1) ?r ?d = Inr (Some (?a\<lparr>af_len := int (length (show_value je (turn_json t)))\<rparr>))"
    using artifact_roundtrip_lemma[OF ok codec(1), where a = ?a and st' = "jo_ledger j1" and u = "()"] codec(2,3) digest run p' by simp
  have ok1: "ledger_ok (jo_ledger j1)" using put_run_artifact_keeps[OF ok] p' by (metis snd_conv)
  obtain e u row st' where ev: "control_append_run_event e ?r u None TURN_MESSAGES_EVENT (show_value je (turn_record je t)) (jo_ledger j1) =
      (Inr row, st')" and st': "jo_ledger j' = st'"
    using a by (auto simp: append_run_event_def new_uuid_def jgive_def elim!: jbind_InrE on_store_InrE)
  have row: "jo_ledger j' = (jo_ledger j1)\<lparr>run_events := run_events (jo_ledger j1) @ [row]\<rparr>" "e_run row = ?r"
      "e_type row = TURN_MESSAGES_EVENT" "e_data row = show_value je (turn_record je t)"
    using run_event_appended[OF ev run(1) trim_turn_event] st' by simp_all
  have ok2: "ledger_ok (jo_ledger j')" using timeline_ops_keep(4)[OF ok1] ev st' by (metis snd_conv)
  have evs: "control_run_events_by_types (jo_ledger j') ?r [TURN_MESSAGES_EVENT] =
      Inr (filter (\<lambda>v. e_run v = ?r \<and> e_type v = TURN_MESSAGES_EVENT) (run_events (jo_ledger j1)) @ [row])"
    using events_of_type[OF ok2 run] row by simp
  have "control_run_artifact ?c (jo_ledger j') ?r ?d = Inr (Some (?a\<lparr>af_len := int (length (show_value je (turn_json t)))\<rparr>))"
    unfolding row(1) by (rule artifact_beside_events[OF art])
  then have "run_artifact_value je (jo_ledger j') (e_data row) = Inr (turn_json t)"
    using shown by (simp add: run_artifact_value_def row(4) reads_back_def turn_record_def str_member_def run_artifact_def)
  moreover have "je\<lparr>je_run := ?r\<rparr> = je" by simp
  ultimately show ?thesis
    using evs read_turn_json[OF storable] by (simp add: recorded_messages_def read_value_def)
qed

end
