(* ===== verification/Scrub_Facts.thy ===== *)
theory Scrub_Facts
  imports Credential_Scrub
begin

text \<open>
  No field of a stored value named like a credential holds a text, at any depth.
\<close>

function exposed :: "json \<Rightarrow> bool" where
  "exposed (JArr vs) = list_ex exposed vs"
| "exposed (JObj kvs) =
     list_ex (\<lambda>kv. (credential_field (fst kv) (snd kv) \<and> snd kv \<noteq> JStr REDACTED_CREDENTIAL) \<or> exposed (snd kv)) kvs"
| "exposed JNull = False"
| "exposed (JBool b) = False"
| "exposed (JInt n) = False"
| "exposed (JFloat n) = False"
| "exposed (JStr t) = False"
  by pat_completeness auto
termination
proof (relation "measure size")
  fix kvs and kv :: "str \<times> json"
  assume "kv \<in> set kvs"
  then show "(snd kv, JObj kvs) \<in> measure size" using size_member[of kv kvs] by simp
qed (auto simp: less_Suc_eq_le dest: size_list_estimation')

lemma scrub_rule_Nil: "(\<And>r. m r [] = []) \<Longrightarrow> scrub_rule m r [] = []"
  by (simp add: scrub_rule_def map_filter_simps)

lemma scrub_text_Nil: "(\<And>r. m r [] = []) \<Longrightarrow> scrub_credential_text m [] = []"
  by (simp add: scrub_credential_text_def credential_rules_def scrub_rule_Nil)

text \<open>A scrubbed value is named like a credential only if the value before was.\<close>

lemma credential_scrubbed:
  assumes "\<And>r. m r [] = []" and "credential_field k (scrub_credential_value m v)"
  shows "credential_field k v"
proof (cases v)
  case (JStr t)
  then have "t \<noteq> []" using assms scrub_text_Nil[of m] by (auto simp: credential_field_def)
  then show ?thesis using JStr assms(2) by (simp add: credential_field_def)
qed (use assms(2) in \<open>auto simp: credential_field_def\<close>)

lemma scrub_not_exposed:
  assumes "\<And>r. m r [] = []"
  shows "\<not> exposed (scrub_credential_value m v)"
  using assms
proof (induction v rule: exposed.induct)
  case (1 vs)
  then show ?case by (auto simp: list_ex_iff)
next
  case (2 kvs)
  have "\<not> exposed (if credential_field k v then JStr REDACTED_CREDENTIAL else scrub_credential_value m v)"
    if "(k, v) \<in> set kvs" for k v using 2(1)[OF that] 2(2) by simp
  moreover have "\<not> credential_field k (if credential_field k v then JStr REDACTED_CREDENTIAL else scrub_credential_value m v) \<or>
      (if credential_field k v then JStr REDACTED_CREDENTIAL else scrub_credential_value m v) = JStr REDACTED_CREDENTIAL" for k v
    using credential_scrubbed[of m k v] 2(2) by auto
  ultimately show ?case by (fastforce simp: list_ex_iff)
qed simp_all

lemma collect_ok_set:
  "collect_ok f xs = Inr ys \<Longrightarrow> y \<in> set ys \<Longrightarrow> \<exists>x \<in> set xs. f x = Inr y"
  by (induction xs arbitrary: ys) (auto simp: ebind_Inr_iff)

lemma resolve_text_Nil:
  assumes "\<And>r. m r [] = []" and "redact_text g [] = []" and "resolve_text g mode m [] = Inr t"
  shows "t = []"
  using assms scrub_text_Nil[of m] by (auto simp: resolve_text_def split: privacy_mode.splits if_splits)

lemma credential_resolved:
  assumes "\<And>r. m r [] = []" and "redact_text g [] = []" and "resolve_value g mode m v = Inr w" and "credential_field k w"
  shows "credential_field k v"
proof (cases v)
  case (JStr t)
  then have "t \<noteq> []" using assms resolve_text_Nil[of m g mode] by (auto simp: credential_field_def ebind_Inr_iff)
  then show ?thesis using JStr assms(3,4) by (auto simp: credential_field_def ebind_Inr_iff)
qed (use assms(3,4) in \<open>auto simp: credential_field_def ebind_Inr_iff\<close>)

lemma resolve_not_exposed:
  assumes "\<And>r. m r [] = []" and "redact_text g [] = []" and "resolve_value g mode m v = Inr w"
  shows "\<not> exposed w"
  using assms
proof (induction v arbitrary: w rule: exposed.induct)
  case (1 vs)
  then show ?case by (fastforce simp: list_ex_iff ebind_Inr_iff dest: collect_ok_set)
next
  case (2 kvs)
  then obtain ws where ws: "w = JObj ws" "collect_ok (\<lambda>kv. if credential_field (fst kv) (snd kv) then Inr (fst kv, JStr REDACTED_CREDENTIAL)
                else ebind (resolve_value g mode m (snd kv)) (\<lambda>v. Inr (fst kv, v))) kvs = Inr ws"
    by (auto simp: ebind_Inr_iff)
  have "(\<not> credential_field (fst kw) (snd kw) \<or> snd kw = JStr REDACTED_CREDENTIAL) \<and> \<not> exposed (snd kw)" if kw: "kw \<in> set ws" for kw
  proof -
    obtain kv where kv: "kv \<in> set kvs" "(if credential_field (fst kv) (snd kv) then Inr (fst kv, JStr REDACTED_CREDENTIAL)
                else ebind (resolve_value g mode m (snd kv)) (\<lambda>v. Inr (fst kv, v))) = Inr kw"
      using collect_ok_set[OF ws(2) kw] by blast
    show ?thesis
    proof (cases "credential_field (fst kv) (snd kv)")
      case True
      then show ?thesis using kv(2) by auto
    next
      case False
      then obtain u where u: "resolve_value g mode m (snd kv) = Inr u" "kw = (fst kv, u)"
        using kv(2) by (auto simp: ebind_Inr_iff)
      then have "\<not> exposed u" using 2(1)[OF kv(1)] 2(2,3) by blast
      moreover have "\<not> credential_field (fst kv) u"
        using credential_resolved[of m g mode "snd kv" u "fst kv"] 2(2,3) u(1) False by blast
      ultimately show ?thesis using u(2) by simp
    qed
  qed
  then show ?case by (auto simp: ws(1) list_ex_iff)
qed auto

text \<open>The members of a scrubbed object.\<close>

lemma jget_scrubbed:
  "jget k (scrub_credential_value m v) =
     map_option (\<lambda>u. if credential_field k u then JStr REDACTED_CREDENTIAL else scrub_credential_value m u) (jget k v)"
proof (cases v)
  case (JObj kvs)
  have "map_of (map (\<lambda>(k, u). (k, if credential_field k u then JStr REDACTED_CREDENTIAL else scrub_credential_value m u)) kvs) k =
      map_option (\<lambda>u. if credential_field k u then JStr REDACTED_CREDENTIAL else scrub_credential_value m u) (map_of kvs k)"
    by (induction kvs) auto
  then show ?thesis by (simp add: JObj)
qed simp_all

lemma provider_state_read:
  assumes "read_message v = Some x" and "jget ''provider_state'' v = Some u" and "u \<noteq> JNull"
  shows "mg_provider x = Some u"
  using assms by (auto simp: read_message_def Option.bind_eq_Some_conv read_opt_some)

end
