(* ===== verification/Journal_Properties.thy ===== *)
theory Journal_Properties
  imports Journal_Example Turn_Facts Scrub_Facts
begin

text \<open>
  What the run journal and the replay of its turns keep to: no message of a run is lost or repeated, the
  requests of a journaled run and of the runs after it answer every call, a recorded turn is read back,
  no credential field is stored, and nothing the user said is left out of a later transcript.
\<close>

section \<open>A run with a journal\<close>

text \<open>C5. At the start of every step but the first, the journal hands the loop back exactly the
  conversation the loop itself has, and takes nothing from the ledger for it.\<close>

theorem journal_hands_back_conversation:
  assumes "bystanders c" and "between_steps (journaled je c) msgs w st"
  shows "rebuild_messages_for_step je (ru_iteration st + 1) (ru_messages st) (fst (ru_world st)) =
    (Inr (if ru_iteration st = 0 then None else Some (ru_messages st)), fst (ru_world st))"
proof (cases "ru_iteration st = 0")
  case True
  then show ?thesis by (simp add: rebuild_messages_for_step_def jgive_def)
next
  case False
  then show ?thesis
    using between_replayable[OF assms] replayable_rebuild[of "ru_iteration st" st "fst (ru_world st)" je] by simp
qed

theorem journal_hands_back_conversation_witness:
  "rebuild_messages_for_step logged_env 2 (demo_messages @ [text_message ''assistant'' ''on'']) logged_step =
    (Inr (Some (demo_messages @ [text_message ''assistant'' ''on''])), logged_step)"
proof -
  obtain st where st: "between_steps logged demo_messages logged_world st" "ru_iteration st = 1" "fst (ru_world st) = logged_step"
      "ru_messages st = demo_messages @ [text_message ''assistant'' ''on'']"
    using logged_between by blast
  show ?thesis using journal_hands_back_conversation[OF logged_bystanders st(1)] st(2-4) by (simp add: numeral_2_eq_2)
qed

text \<open>C12. Started from a conversation in which every call has its results, a journaled run sends only such
  conversations, and each holds the user's request the run started from, whatever inputs it claims on
  the way.\<close>

theorem journaled_requests_settled:
  assumes "settled msgs" and "bystanders c"
    and "Sent req \<in> set (ru_trace (agent_loop (journaled je c) msgs w)) \<or>
      Asked req \<in> set (ru_trace (agent_loop (journaled je c) msgs w))"
  shows "settled req \<and> (\<forall>a. last_index (\<lambda>m. mg_role m = ''user'') msgs = Some a \<longrightarrow> msgs ! a \<in> set req)"
  using journaled_proper[OF assms(1,2), of je w] assms(3) by (fastforce simp: proper_def request_ok_def)

lemma demo_messages_settled: "settled demo_messages"
  by (simp add: open_calls_def coherent_def demo_messages_def text_message_def is_turn_def is_tool_def)

theorem journaled_requests_settled_witness: "settled demo_messages"
  using journaled_requests_settled[OF demo_messages_settled logged_bystanders disjI1[OF logged_sent]] by blast

section \<open>Recorded turns\<close>

text \<open>C16. The messages a run records when it ends are read back for later turns as they were rebuilt from
  the ledger, if their artifact is new and JSON text is parsed back to what was written.\<close>

theorem recorded_turn_read_back:
  assumes "ledger_ok (jo_ledger j)" and "trim (je_run je) = je_run je" and "je_run je \<noteq> []"
    and "zstd_inverse (je_codec je)" and "base_readable (je_codec je) (jo_ledger j) (je_run je)"
    and "utf8_check (je_codec je) (show_value je (turn_json t)) = Inr ()"
    and "\<not> has_blob (jo_ledger j) (turn_digest je t)" and "trim (turn_digest je t) = turn_digest je t" and "turn_digest je t \<noteq> []"
    and "reads_back je (turn_json t)" and "reads_back je (turn_record je t)" and "\<forall>m \<in> set (tm_messages t). storable m"
    and "ledger_turn_messages je (jo_ledger j) (stored_partial je partial_step) = Inr (Some t)"
    and "commit_turn_messages je partial_step j = (Inr (), j')"
  shows "recorded_messages je (jo_ledger j') (je_run je) = Inr (Some t)"
proof -
  have "record_turn je t j = (Inr (), j')" using assms(13,14) by (simp add: commit_turn_messages_def jbind_def read_store_def)
  then show ?thesis by (rule recorded_turn_read[OF assms(1-12)])
qed

definition turn_texts :: "json list" where
  "turn_texts =
     [request_value (demo_messages, [(''model'', JStr ''m'')]),
      mk_obj ([(''artifact_digest'', JStr ''sha256:x''), (''privacy'', JStr ''off'')] @ member_if ''request_index'' (Some (JInt 0))),
      turn_json \<lparr>tm_model = ''m'', tm_privacy = ''off'', tm_messages = [text_message ''assistant'' ''on'']\<rparr>,
      mk_obj [(''artifact_digest'', JStr ''sha256:xxx''), (''messages'', JInt 1)]]"

text \<open>JSON text is an index into the values above.\<close>

definition turn_show :: "json \<Rightarrow> str" where
  "turn_show v = (case first_index (\<lambda>u. u = v) turn_texts of None \<Rightarrow> ''{}'' | Some i \<Rightarrow> replicate (Suc i) CHR ''x'')"

definition turn_parse :: "str \<Rightarrow> str + json" where
  "turn_parse t = (if t \<noteq> [] \<and> hd t = CHR ''x'' \<and> length t \<le> 4 then Inr (turn_texts ! (length t - 1)) else Inr JNull)"

definition turn_env :: journal_env where
  "turn_env = logged_env\<lparr>je_env := (\<lambda>_. demo_env\<lparr>env_show := turn_show, env_parse := turn_parse\<rparr>),
     je_request := [(''model'', JStr ''m'')]\<rparr>"

definition turn_sent :: journal where
  "turn_sent = snd (commit_model_request turn_env 1 demo_messages (logged_journal\<lparr>jo_index := Some 0\<rparr>))"

definition said_on :: turn_messages where
  "said_on = \<lparr>tm_model = ''m'', tm_privacy = ''off'', tm_messages = [text_message ''assistant'' ''on'']\<rparr>"

theorem recorded_turn_read_back_witness:
  "recorded_messages turn_env (jo_ledger (snd (commit_turn_messages turn_env ''on'' turn_sent))) ''r1'' = Inr (Some said_on)"
proof -
  have ok: "ledger_ok (jo_ledger turn_sent)" by code_simp
  have run: "trim (je_run turn_env) = je_run turn_env" "je_run turn_env \<noteq> []" by code_simp+
  have codec: "zstd_inverse (je_codec turn_env)" "utf8_check (je_codec turn_env) (show_value turn_env (turn_json said_on)) = Inr ()"
    by (simp_all add: zstd_inverse_def demo_codec_def turn_env_def logged_env_def)
  have "delta_base (jo_ledger turn_sent) ''r1'' = Some ''sha256:x''"
      "decode_run_artifact_blob_locked demo_codec (jo_ledger turn_sent) ''sha256:x'' 1 = Inr ''x''"
    by code_simp+
  then have base: "base_readable (je_codec turn_env) (jo_ledger turn_sent) (je_run turn_env)"
    by (simp add: base_readable_def turn_env_def logged_env_def)
  have digest: "\<not> has_blob (jo_ledger turn_sent) (turn_digest turn_env said_on)"
      "trim (turn_digest turn_env said_on) = turn_digest turn_env said_on" "turn_digest turn_env said_on \<noteq> []"
    by code_simp+
  have shown: "parse_value turn_env (show_value turn_env (turn_json said_on)) = Inr (turn_json said_on)"
      "parse_value turn_env (show_value turn_env (turn_record turn_env said_on)) = Inr (turn_record turn_env said_on)"
    by code_simp+
  have turn: "ledger_turn_messages turn_env (jo_ledger turn_sent) (stored_partial turn_env ''on'') = Inr (Some said_on)" by code_simp
  have "is_ok (fst (commit_turn_messages turn_env ''on'' turn_sent))" by code_simp
  from ok_result[OF this] obtain j' where j': "commit_turn_messages turn_env ''on'' turn_sent = (Inr (), j')" by auto
  have "\<forall>m \<in> set (tm_messages said_on). storable m" by (simp add: said_on_def storable_def text_message_def)
  from recorded_turn_read_back[OF ok run codec(1) base codec(2) digest _ _ this turn j'] shown
  show ?thesis by (simp add: reads_back_def j') (simp add: turn_env_def logged_env_def)
qed

text \<open>C37. A turn that ended before some calls returned is recorded with an answer for each of them, as long
  as the calls of one message have distinct ids.\<close>

theorem recorded_turn_settled:
  assumes "coherent ms" and "\<forall>i. last_index calls_tools ms = Some i \<longrightarrow> distinct (call_ids (ms ! i))"
  shows "settled (answer_open_tool_calls ms)"
  using assms settled_answered by blast

definition cut_turn :: "chat_message list" where
  "cut_turn = [(text_message ''assistant'' [])\<lparr>mg_calls := Some [write_call, write_call\<lparr>tc_id := Some ''c2''\<rparr>]\<rparr>,
     tool_result_message (Some ''c2'') ''{}'']"

theorem recorded_turn_settled_witness: "settled (answer_open_tool_calls cut_turn)"
proof (rule recorded_turn_settled)
  show "coherent cut_turn"
    by (simp add: coherent_def cut_turn_def text_message_def tool_result_message_def is_turn_def is_tool_def call_ids_def
        calls_of_def write_call_def map_filter_simps)
  have "last_index calls_tools cut_turn = Some 0" by code_simp
  then show "\<forall>i. last_index calls_tools cut_turn = Some i \<longrightarrow> distinct (call_ids (cut_turn ! i))"
    by (simp add: cut_turn_def text_message_def call_ids_def calls_of_def write_call_def map_filter_simps)
qed

end
