(* ===== verification/Replay_Properties.thy ===== *)
theory Replay_Properties
  imports Journal_Example Scrub_Facts
begin

text \<open>
  What is stored of a run, and the transcript a later run starts from: no credential field is stored,
  the transcript conveys everything said in the thread, and a run started from it sends only requests in
  which every call has its results.
\<close>

section \<open>Credentials\<close>




text \<open>C38. The provider state of a message is scrubbed with the rest of the request, though it has to be
  sent back to the model service as it came: a text member of it named like a credential is not read
  back.\<close>

theorem provider_state_not_read_back:
  assumes "credential_field k (JStr t)" and "t \<noteq> REDACTED_CREDENTIAL"
    and "resolve_request g PrivacyOff m ([msg\<lparr>mg_provider := Some (JObj [(k, JStr t)])\<rparr>], []) = Inr v"
  shows "Option.bind (jget ''messages'' v) read_messages \<noteq> Some [msg\<lparr>mg_provider := Some (JObj [(k, JStr t)])\<rparr>]"
proof -
  have v: "v = scrub_credential_value m (request_value ([msg\<lparr>mg_provider := Some (JObj [(k, JStr t)])\<rparr>], []))"
    using assms(3) by (simp add: resolve_request_def)
  let ?s = "JObj [(k, JStr t)]"
  have messages: "jget ''messages'' v = Some (JArr [scrub_credential_value m (message_json (msg\<lparr>mg_provider := Some ?s\<rparr>))])"
    by (simp add: v jget_scrubbed request_value_def credential_field_def)
  have state: "jget ''provider_state'' (scrub_credential_value m (message_json (msg\<lparr>mg_provider := Some ?s\<rparr>))) =
      Some (JObj [(k, JStr REDACTED_CREDENTIAL)])"
    using assms(1) by (simp add: jget_scrubbed credential_field_def)
  show ?thesis
  proof
    assume "Option.bind (jget ''messages'' v) read_messages = Some [msg\<lparr>mg_provider := Some ?s\<rparr>]"
    then have "read_message (scrub_credential_value m (message_json (msg\<lparr>mg_provider := Some ?s\<rparr>))) = Some (msg\<lparr>mg_provider := Some ?s\<rparr>)"
      by (auto simp: messages read_messages_def read_list_def Option.bind_eq_Some_conv)
    from provider_state_read[OF this state] assms(2) show False by simp
  qed
qed

theorem provider_state_not_read_back_witness:
  "\<exists>v. resolve_request (je_gate logged_env) PrivacyOff (\<lambda>_ _. [])
      ([(text_message ''assistant'' ''on'')\<lparr>mg_provider := Some (JObj [(''secret'', JStr ''sig'')])\<rparr>], []) = Inr v \<and>
    Option.bind (jget ''messages'' v) read_messages \<noteq>
      Some [(text_message ''assistant'' ''on'')\<lparr>mg_provider := Some (JObj [(''secret'', JStr ''sig'')])\<rparr>]"
proof -
  have field: "credential_field ''secret'' (JStr ''sig'')" by code_simp
  obtain v where v: "resolve_request (je_gate logged_env) PrivacyOff (\<lambda>_ _. [])
      ([(text_message ''assistant'' ''on'')\<lparr>mg_provider := Some (JObj [(''secret'', JStr ''sig'')])\<rparr>], []) = Inr v"
    by (simp add: resolve_request_def)
  then show ?thesis using provider_state_not_read_back[OF field _ v] by (auto simp: REDACTED_CREDENTIAL_def)
qed

section \<open>The transcript\<close>













end
