(* ===== verification/Run_Composition.thy ===== *)
theory Run_Composition
  imports Turn_Messages
begin

text \<open>
  The other records of a run's journal (crates/milim-server/src/control/journal.rs): the composition a
  turn was accepted with, whose texts go through the privacy mode and whose attachments are kept as
  digests, and the timings of steps and calls. Members the composition copies as they are serialized are
  JSON values here; the digest of a text is that of the artifacts.
\<close>

record attachment =
  at_id :: str
  at_name :: str
  at_mime :: str
  at_size :: int
  at_content :: "str option"
  at_data_url :: "str option"
  at_truncated :: bool

text \<open>An accepted turn, with the fields of its frozen configuration that are recorded. The agent is its id
  and its system prompt; the policies are the serialized values under their names.\<close>

record accepted_turn =
  ac_text :: str
  ac_adapter :: str
  ac_model :: str
  ac_effort :: "str option"
  ac_generation :: json
  ac_native_session :: "str option"
  ac_workspace :: "str option"
  ac_attachments :: "attachment list"
  ac_agent :: "(str \<times> str) option"
  ac_instructions :: str
  ac_global_instructions :: str
  ac_tools :: "str list"
  ac_policies :: "(str \<times> json) list"

definition account_adapters :: "str list" where
  "account_adapters = [''codex'', ''claude'', ''opencode'', ''pi'']"

definition composition_visibility :: "accepted_turn \<Rightarrow> str" where
  "composition_visibility a = (if ac_adapter a \<in> set account_adapters then ''harness_boundary'' else ''model_visible'')"

definition environment_policy_name :: "accepted_turn \<Rightarrow> str" where
  "environment_policy_name a =
     (if composition_visibility a = ''harness_boundary'' then ''AccountRuntimeInherited'' else ''MilimProviderBoundary'')"

definition attachment_json :: "journal_env \<Rightarrow> attachment \<Rightarrow> json" where
  "attachment_json je x =
     (let identity = (case at_data_url x of Some t \<Rightarrow> t
            | None \<Rightarrow> (case at_content x of Some t \<Rightarrow> t | None \<Rightarrow> []))
      in mk_obj [(''id'', JStr (at_id x)), (''name'', JStr (at_name x)), (''mime'', JStr (at_mime x)),
           (''size'', JInt (at_size x)), (''digest'', JStr (artifact_digest (je_codec je) identity)),
           (''reference'', JStr (''control-attachment:'' @ at_id x)), (''truncated'', JBool (at_truncated x))])"

definition prompt_section :: "str \<Rightarrow> str \<Rightarrow> str \<Rightarrow> json" where
  "prompt_section kind provenance content =
     mk_obj [(''kind'', JStr kind), (''provenance'', JStr provenance), (''content'', JStr content)]"

text \<open>The kind, provenance and text of the instructions: the agent's if there is one, else the thread's.\<close>

definition run_instructions :: "accepted_turn \<Rightarrow> str \<times> str \<times> str" where
  "run_instructions a =
     (case ac_agent a of
        Some (i, prompt) \<Rightarrow> (''agent_instructions'', ''agent:'' @ i, prompt)
      | None \<Rightarrow> (''thread_instructions'', ''frozen_run_config'', ac_instructions a))"

definition resolved_run_composition :: "journal_env \<Rightarrow> accepted_turn \<Rightarrow> error + json" where
  "resolved_run_composition je a =
     (case run_instructions a of (kind, provenance, instructions) \<Rightarrow>
      ebind (stored_text je instructions) (\<lambda>instructions.
      ebind (stored_text je (ac_global_instructions a)) (\<lambda>globals.
      ebind (stored_text je (ac_text a)) (\<lambda>t.
      Inr (mk_obj ([(''visibility'', JStr (composition_visibility a)), (''adapter'', JStr (ac_adapter a)),
          (''model'', JStr (ac_model a)), (''reasoning_effort'', opt_str (ac_effort a)),
          (''generation'', ac_generation a)] @
        member_if ''native_session_boundary'' (map_option JStr (ac_native_session a)) @
        [(''workspace'', opt_str (ac_workspace a)), (''environment_policy'', JStr (environment_policy_name a)),
         (''explicit_environment_grants'', JArr []),
         (''prompt_sections'', JArr [prompt_section ''global_instructions'' ''frozen_run_config'' globals,
            prompt_section kind provenance instructions, prompt_section ''user'' ''accepted_turn'' t]),
         (''tools'', JArr (map (\<lambda>name. mk_obj [(''name'', JStr name), (''provenance'', JStr ''frozen_run_config'')]) (ac_tools a))),
         (''policies'', mk_obj (ac_policies a)),
         (''attachments'', JArr (map (attachment_json je) (ac_attachments a)))]))))))"

definition commit_composition :: "journal_env \<Rightarrow> accepted_turn \<Rightarrow> unit journal_op" where
  "commit_composition je a =
     jbind (jgive (resolved_run_composition je a)) (\<lambda>composition.
     jbind (put_artifact je ''run_composition'' composition) (\<lambda>digest.
     append_run_event je None ''run_composition_resolved''
       (mk_obj [(''artifact_digest'', JStr digest), (''visibility'', JStr (composition_visibility a))])))"

section \<open>Timings\<close>

record step_timing =
  sm_started :: int
  sm_first_token :: "int option"
  sm_duration :: int
  sm_attempts :: int
  sm_reason :: str

definition opt_int :: "int option \<Rightarrow> json" where
  "opt_int x = (case x of None \<Rightarrow> JNull | Some n \<Rightarrow> JInt n)"

definition commit_model_timing :: "journal_env \<Rightarrow> nat \<Rightarrow> step_timing \<Rightarrow> unit journal_op" where
  "commit_model_timing je step t =
     append_event je step ''model_timing''
       (mk_obj [(''step'', JInt (int step)), (''started_at_ms'', JInt (sm_started t)),
          (''first_token_ms'', opt_int (sm_first_token t)), (''duration_ms'', JInt (sm_duration t)),
          (''attempts'', JInt (sm_attempts t)), (''finish_reason'', JStr (sm_reason t))])"

definition commit_tool_timing :: "journal_env \<Rightarrow> nat \<Rightarrow> str option \<Rightarrow> str \<Rightarrow> int \<Rightarrow> bool \<Rightarrow> unit journal_op" where
  "commit_tool_timing je step call_id name duration failed =
     append_event je step ''tool_timing''
       (mk_obj [(''step'', JInt (int step)), (''call_id'', opt_str call_id), (''name'', JStr name),
          (''duration_ms'', JInt duration), (''is_error'', JBool failed)])"

section \<open>Refusal\<close>

text \<open>The texts of a composition.\<close>

definition composition_texts :: "accepted_turn \<Rightarrow> str set" where
  "composition_texts a = {snd (snd (run_instructions a)), ac_global_instructions a, ac_text a}"

lemma blocked_text: "je_mode je = PrivacyBlock \<Longrightarrow> \<not> is_clean_text (je_gate je) t \<Longrightarrow> stored_text je t = Inl (InvalidRequest BLOCKED)"
  by (simp add: stored_text_def resolve_text_def)

lemma stored_text_error: "stored_text je t = Inl err \<Longrightarrow> err = InvalidRequest BLOCKED"
  by (simp add: stored_text_def resolve_text_def split: privacy_mode.splits if_splits)

lemma ebind_fails:
  assumes "a = Inl e \<or> b = Inl e \<or> c = Inl e" and "\<And>err. a = Inl err \<Longrightarrow> err = e" and "\<And>err. b = Inl err \<Longrightarrow> err = e"
  shows "ebind a (\<lambda>x. ebind b (\<lambda>y. ebind c (f x y))) = Inl e"
  using assms by (cases a; cases b) auto

lemma blocked_composition:
  assumes "je_mode je = PrivacyBlock" and "t \<in> composition_texts a" and "\<not> is_clean_text (je_gate je) t"
  shows "commit_composition je a j = (Inl (InvalidRequest BLOCKED), j)"
proof -
  obtain kind provenance instructions where i: "run_instructions a = (kind, provenance, instructions)" by (cases "run_instructions a")
  have "t = instructions \<or> t = ac_global_instructions a \<or> t = ac_text a" using assms(2) i by (auto simp: composition_texts_def)
  then have some: "stored_text je instructions = Inl (InvalidRequest BLOCKED) \<or>
      stored_text je (ac_global_instructions a) = Inl (InvalidRequest BLOCKED) \<or> stored_text je (ac_text a) = Inl (InvalidRequest BLOCKED)"
    using blocked_text[OF assms(1,3)] by blast
  have "resolved_run_composition je a = Inl (InvalidRequest BLOCKED)"
    unfolding resolved_run_composition_def i prod.case by (rule ebind_fails[OF some]) (auto dest: stored_text_error)
  then show ?thesis by (simp add: commit_composition_def jbind_def jgive_def)
qed

end
