(* ===== verification/Spec2Isabelle.thy ===== *)
theory Spec2Isabelle
  imports Ledger_Properties Shell_Properties Allowance_Properties Broker_Properties Control_Properties
    Context_Properties Tool_Properties Repeat_Properties Agent_Properties Provider_Properties
    Output_Properties Journal_Properties Replay_Properties Run_Composition
begin

text \<open>
  A verification library for milim, the local agent harness: the core a chat runs through, from the
  model's stream over the approval of its tool calls to the ledger that keeps what happened.

  \<^bold>\<open>The parts and how they meet.\<close> A turn of a thread is a run of the agent loop
  (crates/milim-agents), started from the transcript of the thread (control/provider.rs of
  crates/milim-server). Before a step, its hook, the run's journal (control/journal.rs), hands the
  conversation back with the inputs it claims, and commits the request to the ledger
  (crates/milim-storage/src/db.rs), scrubbed of credentials; the loop then streams the response, announces
  the tool calls, asks the approval broker for those that change something, runs them, and puts their
  bounded results back into the conversation. What is streamed fills the run's output and its work log
  (control/delta.rs); when the run ends, its messages are recorded, and later runs replay them. When a person
  decides an approval (control/approvals.rs), the decision goes to the broker, and on their wish a rule
  for the rest of the chat is stored (approval_allowances.rs); what such a rule covers depends on the
  analysis of shell commands (milim-tools/src/shell_command.rs).

  \<^bold>\<open>The theories.\<close> \<open>Prelude\<close> holds what all share: strings as their UTF-8 bytes with the \<open>str\<close> methods
  used, \<open>Result\<close> as a sum, table lookups, saturating integers, \<open>serde_json::Value\<close>.

  \<^item> \<open>Ledger_Schema\<close>, \<open>Ledger_Timeline\<close>, \<open>Ledger_Threads\<close>, \<open>Ledger_Inbox\<close>, \<open>Ledger_Runs\<close>,
    \<open>Ledger_Artifacts\<close>: the tables of \<open>USER_DATA_MIGRATIONS\<close>, their constraints and triggers, and the
    operations of \<open>UserDataStore\<close> that begin with \<open>control_\<close>, each a function from the ledger to a result
    and a ledger, with the transaction where the code opens one. \<open>Ledger_Invariant\<close> is the invariant,
    \<open>Ledger_Ops\<close> the histories of operations and its preservation; \<open>Ledger_Log\<close> the two interfaces
    (paged logs, claimed batches) as locales interpreted on timeline, run events, inbox and mailbox;
    \<open>Ledger_Queue\<close>, \<open>Ledger_Facts\<close>, \<open>Ledger_Effects\<close>, \<open>Ledger_Blobs\<close> what single operations achieve;
    \<open>Ledger_Example\<close> a concrete history; \<open>Ledger_Properties\<close> the theorems.
  \<^item> \<open>Shell_Command\<close>, \<open>Shell_Facts\<close>, \<open>Shell_Properties\<close>: the tokenizer, the table of read-only programs
    and the prefix match, judged by a quoting automaton of their own.
  \<^item> \<open>Allowances\<close>, \<open>Allowance_Facts\<close>, \<open>Allowance_Properties\<close>: the rules of a chat, which request makes
    one and which it covers.
  \<^item> \<open>Approval_Broker\<close>, \<open>Broker_Steps\<close>, \<open>Broker_Invariant\<close>, \<open>Broker_Properties\<close>: the broker of
    milim-agents/src/lib.rs. A call is the sequence of its mutex sections; \<open>broker_step\<close> interleaves them,
    and the invariants hold in every state these steps reach.
  \<^item> \<open>Control_Approvals\<close>, \<open>Control_Properties\<close>: control/approvals.rs, composed of ledger, broker and rules.
  \<^item> \<open>Provider_Errors\<close>, \<open>Provider_Retry\<close>, \<open>Provider_Properties\<close>: what the text of a failure tells
    (milim-core/src/provider_error.rs), what is retried and when (retry.rs), \<open>complete_with_retry\<close>.
  \<^item> \<open>Context_Compaction\<close>, \<open>Context_Facts\<close>, \<open>Context_Properties\<close>: context.rs and \<open>compact_context\<close>.
  \<^item> \<open>Tool_Output\<close>, \<open>Tool_Properties\<close>, \<open>Repeats\<close>, \<open>Repeat_Properties\<close>: the check of arguments, the
    bounded replay of results (tool_output.rs) and the notes on repeated calls (repeats.rs).
  \<^item> \<open>Run_Budget\<close> (limits.rs), \<open>Streamed_Calls\<close> (service.rs), \<open>Agent_Run\<close>, \<open>Agent_Step\<close>, \<open>Tool_Calls\<close>,
    \<open>Agent_Calls\<close>, \<open>Agent_Loop\<close>: the function \<open>agent_loop\<close> and its two entry points, phase by phase in the
    order of the code. \<open>Agent_Rules\<close> is the locale \<open>frame\<close>: rules that bound what a phase does to the
    state and which kinds of action it takes, interpreted on the relations \<open>Agent_Loop\<close> and \<open>Agent_Facts\<close>
    need. \<open>Agent_Order\<close> judges an action by what came before it; \<open>Agent_Requests\<close>, \<open>Agent_Approvals\<close>,
    \<open>Agent_Results\<close>, \<open>Agent_Messages\<close> use it for commits, approvals, results and the conversation;
    \<open>Agent_Example\<close> evaluates a run, \<open>Agent_Properties\<close> has the theorems.
  \<^item> \<open>Message_Json\<close> (milim-core/src/api/openai.rs), \<open>Credential_Scrub\<close>, \<open>Run_Journal\<close>, \<open>Run_Composition\<close>,
    \<open>Turn_Messages\<close>: control/journal.rs. The journal is a record of the ledger, the step it sent last and the
    index of the run's request; its operations return a result and a journal, and \<open>journaled\<close> makes it the
    step hook of a run. \<open>Journal_Run\<close> follows the conversation through the phases of a step beside the
    journal's copy, \<open>Turn_Facts\<close> a recorded turn through the ledger, \<open>Scrub_Facts\<close> values through the
    scrubbing; \<open>Journal_Example\<close> evaluates a journaled step, \<open>Journal_Properties\<close> has the theorems.
  \<^item> \<open>Thread_Replay\<close>, \<open>Replay_Facts\<close>, \<open>Replay_Properties\<close>: \<open>control_chat_messages\<close> of control/provider.rs,
    a fold over the stored messages of a thread, and what it keeps.
  \<^item> \<open>Run_Output\<close>, \<open>Work_Log\<close>, \<open>Run_Log\<close>, \<open>Output_Properties\<close>: control/delta.rs, the delta buffer with its
    events and the work log, stored and rendered, fed with the events of a run as control/agent.rs does.

  \<^bold>\<open>What the lemmas show.\<close> Of the ledger: the invariant in every reachable state, failed operations that
  change nothing, the numbering and paging of logs, the transcript as a map of last texts, compare-and-set,
  claims that hand an item to one run only, restart, and the round trip of artifacts. Of approvals: they only
  move forward, the first answer stays, and an automatic one is backed by a stored rule that covers the
  request. Of shell commands: an accepted line has nothing active outside quotes, and a granted prefix covers
  single commands only. Of a run: it ends within its bounds; a request is committed before it is sent, and is
  a conversation in which every call is answered; a tool runs only when allowed; results answer calls in
  order; a client that follows the stream shows the response. Of the journal: the conversation it hands back
  is the loop's own, so a journaled run has the same guarantees for its requests; a recorded turn is read back
  and answers every call, no credential field is stored, everything said in a thread is replayed, and a run
  started from a replayed thread sends settled requests again. Of the output: a retry leaves the last attempt
  only, and the work log has each call with its own result and none uncounted. Some theorems state what the code does where
  that is not what it means to do; they are listed with the findings.

  \<^bold>\<open>How the code is read.\<close> Text is bytes: \<open>len\<close> is \<open>length\<close>, and character counts and boundaries are written
  out. SQLite is its documented behaviour: constraints, cascades, triggers, and a rollback of what failed.
  Where the code is concurrent, a step is what a mutex or a transaction makes atomic. The agent loop is
  asynchronous; here it is a computation on the run's state that stops when the stream returns, and what it
  awaits is a function of an outside world that it also changes, so any history of answers is covered.
  Its trace records what it yields, sends, commits and executes. Tools of a step run one after the other,
  while the code lets up to four that only read overlap; approvals are decided in any order. An \<open>Instant\<close> is a
  number of nanoseconds, a double its bits. Parameters stand for the JSON parser and printer, floating-point
  arithmetic, zstd, SHA-256, UUIDs, hashes, the price table, the file system, model services, tools, hooks and
  people; what is assumed of them is a named hypothesis of the theorem.

  \<^bold>\<open>Bounds and fuel.\<close> \<open>run_loop\<close> ends because a step that does not end the run counts an iteration below
  \<open>max_iterations\<close>; \<open>try_request\<close> because attempts are counted up to \<open>MAX_PROVIDER_RETRIES\<close>; a request has two
  rounds because an overflow in the second one ends the run. Deltas of artifacts decode with
  \<open>RUN_ARTIFACT_MAX_DELTA_DEPTH\<close> as the code does. \<open>follow\<close> reads a log with as much fuel as there are rows,
  and \<open>timeline_followed\<close> shows it enough. Counters are unbounded except where the code saturates, wraps or
  converts; the totals of \<open>Usage\<close> wrap at 32 bits, and the budget's 64-bit token count does not.

  \<^bold>\<open>Not modelled.\<close> Search, usage reports and session snapshots of the store; the run manager's drivers and
  scheduling, the event loop of control/agent.rs and the plain provider chat among them; the translation
  between providers' wire formats; MCP, HTTP routes, account runtimes, previews, Google Workspace, memory and
  skills; file, shell and web tools; identity, sandbox and privacy detection; the desktop shell. They are input
  and output, glue, or code whose meaning lies in libraries outside this repository. Of the modelled parts:
  \<open>control_compaction_checkpoint\<close>, \<open>retry_hint\<close> and \<open>run_error_value\<close>; the sampling parameters of a request,
  which the journal stores as they are; the matches of the credential patterns, which are a parameter.
\<close>

end
